(* ===== verification/Prelude.thy ===== *)
theory Prelude
  imports Main "HOL-Library.AList" "HOL-Library.Multiset"
begin

text \<open>
  Shared vocabulary of the development: how values of Go are represented, the helpers of
  \<^verbatim>\<open>internal/utils/utils.go\<close>, the string functions of Go's standard library the operator
  uses, Go maps and the lemmas about them that several components need.

  \<^item> A Go pointer \<^verbatim>\<open>*T\<close> is an \<open>'a option\<close>; \<^verbatim>\<open>nil\<close> is \<^term>\<open>None\<close>.
  \<^item> A Go string is a \<^typ>\<open>string\<close> (its bytes).
  \<^item> A Go slice is a list; where the code distinguishes a nil slice from an empty one it is a
    list option.
  \<^item> A Go map is an association list without repeated keys, so that ranging over it can be
    modelled: Go leaves the iteration order open, which the components express by an argument
    that permutes the entries.
\<close>

section \<open>Collections of facts\<close>

named_theorems go_defs \<open>definitional equations of small helpers, unfolded by the component proofs\<close>

section \<open>Pointers and defaults (internal/utils/utils.go)\<close>

definition WithDefaultAsPtr :: "'a option \<Rightarrow> 'a \<Rightarrow> 'a option" where
  "WithDefaultAsPtr v d = (case v of None \<Rightarrow> Some d | Some x \<Rightarrow> Some x)"

definition WithDefault :: "'a option \<Rightarrow> 'a \<Rightarrow> 'a" where
  "WithDefault v d = (case v of None \<Rightarrow> d | Some x \<Rightarrow> x)"

definition WithEmptyDefault :: "'a list option \<Rightarrow> 'a list option" where
  "WithEmptyDefault v = (case v of None \<Rightarrow> Some [] | Some xs \<Rightarrow> Some xs)"

lemma WithDefault_simps [simp]:
  "WithDefault None d = d"
  "WithDefault (Some x) d = x"
  by (simp_all add: WithDefault_def)

lemma WithDefaultAsPtr_simps [simp]:
  "WithDefaultAsPtr None d = Some d"
  "WithDefaultAsPtr (Some x) d = Some x"
  by (simp_all add: WithDefaultAsPtr_def)

lemma WithDefaultAsPtr_WithDefault: "WithDefaultAsPtr v d = Some (WithDefault v d)"
  by (cases v) simp_all

section \<open>Strings\<close>

text \<open>\<^verbatim>\<open>strings.Join\<close>.\<close>

fun strings_Join :: "string list \<Rightarrow> string \<Rightarrow> string" where
  "strings_Join [] sep = []"
| "strings_Join [s] sep = s"
| "strings_Join (s # t # ss) sep = s @ sep @ strings_Join (t # ss) sep"

text \<open>\<^verbatim>\<open>strings.HasPrefix\<close>.\<close>

fun HasPrefix :: "string \<Rightarrow> string \<Rightarrow> bool" where
  "HasPrefix s [] = True"
| "HasPrefix [] (p # ps) = False"
| "HasPrefix (c # cs) (p # ps) = (c = p \<and> HasPrefix cs ps)"

lemma HasPrefix_append [simp]: "HasPrefix (p @ s) p"
  by (induction p) auto

lemma HasPrefix_iff: "HasPrefix s p \<longleftrightarrow> (\<exists>t. s = p @ t)"
  by (induction s p rule: HasPrefix.induct) auto

fun strings_Contains :: "string \<Rightarrow> string \<Rightarrow> bool" where
  "strings_Contains [] p = (p = [])"
| "strings_Contains (c # s) p = (HasPrefix (c # s) p \<or> strings_Contains s p)"

text \<open>
  \<^verbatim>\<open>strings.ReplaceAll\<close>: non-overlapping occurrences, left to right. An empty pattern matches
  before every byte and at the end.
\<close>

function replace_from :: "string \<Rightarrow> string \<Rightarrow> string \<Rightarrow> string" where
  "replace_from s old new =
     (if s = [] \<or> old = [] then s
      else if HasPrefix s old then new @ replace_from (drop (length old) s) old new
      else hd s # replace_from (tl s) old new)"
  by pat_completeness auto
termination
  by (relation "measure (\<lambda>(s, old, new). length s)") auto

declare replace_from.simps [simp del]

definition ReplaceAll :: "string \<Rightarrow> string \<Rightarrow> string \<Rightarrow> string" where
  "ReplaceAll s old new =
     (if old = [] then new @ concat (map (\<lambda>c. c # new) s) else replace_from s old new)"

text \<open>\<^verbatim>\<open>strconv.FormatInt(i, 10)\<close>, also the rendering of \<^verbatim>\<open>%d\<close>.\<close>

fun nat_str :: "nat \<Rightarrow> string" where
  "nat_str n = (if n < 10 then [char_of (48 + n)] else nat_str (n div 10) @ [char_of (48 + n mod 10)])"

declare nat_str.simps [simp del]

text \<open>The rendering of \<^verbatim>\<open>%t\<close>.\<close>

definition bool_str :: "bool \<Rightarrow> string" where
  "bool_str b = (if b then ''true'' else ''false'')"

definition FormatInt :: "int \<Rightarrow> string" where
  "FormatInt i = (if i < 0 then CHR ''-'' # nat_str (nat (- i)) else nat_str (nat i))"

text \<open>Decoding shows that two numbers never share a rendering.\<close>

definition digit_val :: "char \<Rightarrow> nat" where
  "digit_val c = of_char c - 48"

definition str_nat :: "string \<Rightarrow> nat" where
  "str_nat s = foldl (\<lambda>acc c. 10 * acc + digit_val c) 0 s"

lemma digit_val_char_of: "n < 10 \<Longrightarrow> digit_val (char_of (48 + n)) = n"
  by (simp add: digit_val_def of_char_of)

lemma str_nat_nat_str: "str_nat (nat_str n) = n"
proof (induction n rule: nat_str.induct)
  case (1 n)
  show ?case
  proof (cases "n < 10")
    case True
    then show ?thesis
      by (simp add: nat_str.simps [of n] str_nat_def digit_val_char_of)
  next
    case False
    have d: "digit_val (char_of (48 + n mod 10)) = n mod 10"
      by (simp add: digit_val_char_of)
    have "str_nat (nat_str n) = 10 * str_nat (nat_str (n div 10)) + n mod 10"
      using False d by (simp add: nat_str.simps [of n] str_nat_def)
    also have "\<dots> = 10 * (n div 10) + n mod 10"
      using "1.IH" False by simp
    finally show ?thesis by simp
  qed
qed

lemma nat_str_digits: "c \<in> set (nat_str n) \<Longrightarrow> \<exists>d < (10::nat). c = char_of (48 + d)"
proof (induction n rule: nat_str.induct)
  case (1 n)
  show ?case
  proof (cases "n < 10")
    case True
    with "1.prems" show ?thesis by (auto simp: nat_str.simps [of n])
  next
    case False
    with "1.prems" consider "c \<in> set (nat_str (n div 10))" | "c = char_of (48 + n mod 10)"
      by (auto simp: nat_str.simps [of n])
    then show ?thesis
    proof cases
      case 1
      with "1.IH" False show ?thesis by blast
    next
      case 2
      then show ?thesis by (intro exI [of _ "n mod 10"]) simp
    qed
  qed
qed

lemma char_of_nat_cong: "char_of m = char_of k \<Longrightarrow> m mod 256 = (k::nat) mod 256"
  by (metis of_char_of)

lemma nat_str_no_char:
  assumes "\<And>d. d < (10::nat) \<Longrightarrow> (48 + d) \<noteq> (of_char c :: nat)"
  shows "c \<notin> set (nat_str n)"
proof
  assume "c \<in> set (nat_str n)"
  then obtain d :: nat where d: "d < 10" "c = char_of (48 + d)"
    using nat_str_digits by blast
  then have "(of_char c :: nat) = 48 + d" by (simp add: of_char_of)
  with assms [of d] d show False by simp
qed

lemma minus_notin_nat_str: "CHR ''-'' \<notin> set (nat_str n)"
  by (rule nat_str_no_char) (simp add: of_char_def)

lemma slash_notin_FormatInt: "CHR ''/'' \<notin> set (FormatInt i)"
proof -
  have "CHR ''/'' \<notin> set (nat_str n)" for n
    by (rule nat_str_no_char) (simp add: of_char_def)
  then show ?thesis by (simp add: FormatInt_def)
qed

lemma colon_notin_FormatInt: "CHR '':'' \<notin> set (FormatInt i)"
proof -
  have "CHR '':'' \<notin> set (nat_str n)" for n
    by (rule nat_str_no_char) (simp add: of_char_def)
  then show ?thesis by (simp add: FormatInt_def)
qed

lemma nat_str_inject [simp]: "nat_str m = nat_str n \<longleftrightarrow> m = n"
  by (metis str_nat_nat_str)

lemma nat_str_not_minus: "nat_str m \<noteq> CHR ''-'' # s"
  using minus_notin_nat_str [of m] by (metis list.set_intros(1))

theorem FormatInt_inject [simp]: "FormatInt i = FormatInt j \<longleftrightarrow> i = j"
proof
  assume h: "FormatInt i = FormatInt j"
  show "i = j"
  proof (cases "i < 0"; cases "j < 0")
    assume "i < 0" "j < 0"
    with h show ?thesis by (simp add: FormatInt_def)
  next
    assume "i < 0" "\<not> j < 0"
    with h show ?thesis using nat_str_not_minus [of "nat j"] by (simp add: FormatInt_def) (metis)
  next
    assume "\<not> i < 0" "j < 0"
    with h show ?thesis using nat_str_not_minus [of "nat i"] by (simp add: FormatInt_def)
  next
    assume "\<not> i < 0" "\<not> j < 0"
    with h show ?thesis by (simp add: FormatInt_def)
  qed
qed simp

text \<open>A key built from two parts and a separator determines the parts if the last part has no separator.\<close>

lemma split_first_sep:
  assumes "a @ s # b = a' @ s # b'" and "s \<notin> set a" and "s \<notin> set a'"
  shows "a = a' \<and> b = b'"
  using assms
proof (induction a arbitrary: a')
  case Nil
  then show ?case by (cases a') auto
next
  case (Cons x a)
  then show ?case by (cases a') auto
qed

lemma split_last_sep:
  assumes "a @ s # b = a' @ s # b'" and "s \<notin> set b" and "s \<notin> set b'"
  shows "a = a' \<and> b = b'"
proof -
  have "rev b @ s # rev a = rev b' @ s # rev a'"
    using arg_cong [OF assms(1), of rev] by simp
  then have "rev b = rev b' \<and> rev a = rev a'"
    by (rule split_first_sep) (simp_all add: assms(2,3))
  then show ?thesis by simp
qed

text \<open>Fields of a text that are separated by a character which does not occur in them can be read back.\<close>

lemma bool_tail_inject: "t @ ''|'' @ bool_str b = t' @ ''|'' @ bool_str b' \<longleftrightarrow> t = t' \<and> b = b'"
proof
  assume "t @ ''|'' @ bool_str b = t' @ ''|'' @ bool_str b'"
  then have "rev (t @ ''|'' @ bool_str b) = rev (t' @ ''|'' @ bool_str b')" by simp
  then show "t = t' \<and> b = b'" by (cases b; cases b') (simp_all add: bool_str_def)
qed simp

lemma join_inject:
  assumes "\<forall>s \<in> set xs \<union> set ys. s \<noteq> [] \<and> c \<notin> set s" and "strings_Join xs [c] = strings_Join ys [c]"
  shows "xs = ys"
  using assms
proof (induction xs arbitrary: ys)
  case Nil
  then have "strings_Join ys [c] = []" by simp
  then show ?case using Nil(1) by (cases ys; cases "tl ys") auto
next
  case (Cons x xs)
  have x: "x \<noteq> []" "c \<notin> set x" using Cons.prems(1) by auto
  show ?case
  proof (cases ys)
    case Nil
    then show ?thesis using Cons.prems x by (cases xs) auto
  next
    case y: (Cons y ys')
    have yc: "y \<noteq> []" "c \<notin> set y" using Cons.prems(1) y by auto
    show ?thesis
    proof (cases "xs = [] \<or> ys' = []")
      case True
      have "x = y \<and> xs = [] \<and> ys' = []"
      proof (cases xs)
        case xn: Nil
        then show ?thesis using Cons.prems(2) y x yc by (cases ys') auto
      next
        case xc: (Cons z zs)
        then have "ys' = []" using True by simp
        then have "x @ c # strings_Join xs [c] = y" using Cons.prems(2) y xc by simp
        then show ?thesis using yc by auto
      qed
      then show ?thesis using y by simp
    next
      case False
      then obtain z zs w ws where zw: "xs = z # zs" "ys' = w # ws" by (auto simp: neq_Nil_conv)
      then have "x @ c # strings_Join xs [c] = y @ c # strings_Join ys' [c]" using Cons.prems(2) y by simp
      from split_first_sep [OF this x(2) yc(2)] have "x = y" "strings_Join xs [c] = strings_Join ys' [c]" by auto
      then show ?thesis using Cons.IH [of ys'] Cons.prems(1) y by simp
    qed
  qed
qed

section \<open>Go maps\<close>

type_synonym ('k, 'v) gomap = "('k \<times> 'v) list"

text \<open>
  \<^verbatim>\<open>m[k] = v\<close>, \<^verbatim>\<open>delete(m, k)\<close> and \<^verbatim>\<open>v, ok := m[k]\<close>.
\<close>

abbreviation map_put :: "'k \<Rightarrow> 'v \<Rightarrow> ('k, 'v) gomap \<Rightarrow> ('k, 'v) gomap" where
  "map_put \<equiv> AList.update"

abbreviation map_delete :: "'k \<Rightarrow> ('k, 'v) gomap \<Rightarrow> ('k, 'v) gomap" where
  "map_delete \<equiv> AList.delete"

abbreviation map_get :: "('k, 'v) gomap \<Rightarrow> 'k \<Rightarrow> 'v option" where
  "map_get \<equiv> map_of"

definition gomap_ok :: "('k, 'v) gomap \<Rightarrow> bool" where
  "gomap_ok m \<longleftrightarrow> distinct (map fst m)"

lemma map_get_put [simp]: "map_get (map_put k v m) = (map_get m)(k \<mapsto> v)"
  by (rule update_conv')

lemma map_get_delete [simp]: "map_get (map_delete k m) = (map_get m)(k := None)"
  by (rule delete_conv')

lemma gomap_ok_Nil [simp]: "gomap_ok []"
  by (simp add: gomap_ok_def)

lemma gomap_ok_put [simp]: "gomap_ok m \<Longrightarrow> gomap_ok (map_put k v m)"
  by (simp add: gomap_ok_def distinct_update)

lemma gomap_ok_delete [simp]: "gomap_ok m \<Longrightarrow> gomap_ok (map_delete k m)"
  by (simp add: gomap_ok_def distinct_delete)

lemma gomap_in_iff: "gomap_ok m \<Longrightarrow> (k, v) \<in> set m \<longleftrightarrow> map_get m k = Some v"
  by (simp add: gomap_ok_def)

text \<open>The iteration orders Go may choose for a range loop.\<close>

definition range_order :: "('e list \<Rightarrow> 'e list) \<Rightarrow> bool" where
  "range_order ord \<longleftrightarrow> (\<forall>m. mset (ord m) = mset m)"

lemma range_order_single: "range_order ord \<Longrightarrow> ord [x] = [x]"
  by (metis range_order_def mset_single_iff_right mset.simps)

lemma range_order_set: "range_order ord \<Longrightarrow> set (ord m) = set m"
  by (metis range_order_def set_mset_mset)

lemma range_order_distinct: "range_order ord \<Longrightarrow> distinct (ord m) = distinct m"
  by (metis range_order_def mset_eq_imp_distinct_iff)

lemma range_order_keys:
  assumes "range_order ord" and "gomap_ok m"
  shows "set (ord m) = set m" and "distinct (map fst (ord m))" and "(k, v) \<in> set (ord m) \<longleftrightarrow> map_get m k = Some v"
proof -
  show s: "set (ord m) = set m" using range_order_set [OF assms(1)] .
  have "mset (map fst (ord m)) = mset (map fst m)" using assms(1) by (simp add: range_order_def)
  then show "distinct (map fst (ord m))" using assms(2) by (metis gomap_ok_def mset_eq_imp_distinct_iff)
  show "(k, v) \<in> set (ord m) \<longleftrightarrow> map_get m k = Some v" using s gomap_in_iff [OF assms(2)] by simp
qed

lemma range_order_id [simp]: "range_order (\<lambda>m. m)" and range_order_rev [simp]: "range_order rev"
  by (simp_all add: range_order_def)

text \<open>A map built by writing the entries of a list one after the other.\<close>

definition put_all :: "('a \<Rightarrow> 'k) \<Rightarrow> ('a \<Rightarrow> 'v) \<Rightarrow> 'a list \<Rightarrow> ('k, 'v) gomap \<Rightarrow> ('k, 'v) gomap" where
  "put_all kf vf xs m = fold (\<lambda>x. map_put (kf x) (vf x)) xs m"

lemma put_all_simps [simp]:
  "put_all kf vf [] m = m"
  "put_all kf vf (x # xs) m = put_all kf vf xs (map_put (kf x) (vf x) m)"
  by (simp_all add: put_all_def)

lemma gomap_ok_put_all [simp]: "gomap_ok m \<Longrightarrow> gomap_ok (put_all kf vf xs m)"
  by (induction xs arbitrary: m) simp_all

text \<open>The entry of a key is the last element of the list with that key.\<close>

lemma find_append: "find P (xs @ ys) = (case find P xs of Some y \<Rightarrow> Some y | None \<Rightarrow> find P ys)"
  by (induction xs) auto

lemma put_all_get:
  "map_get (put_all kf vf xs m) k =
     (case find (\<lambda>x. kf x = k) (rev xs) of Some x \<Rightarrow> Some (vf x) | None \<Rightarrow> map_get m k)"
proof (induction xs arbitrary: m)
  case Nil
  then show ?case by simp
next
  case (Cons x xs)
  show ?case
    unfolding put_all_simps Cons.IH by (simp add: find_append split: option.split)
qed

lemma put_all_dom: "dom (map_get (put_all kf vf xs m)) = dom (map_get m) \<union> kf ` set xs"
proof (induction xs arbitrary: m)
  case Nil
  then show ?case by simp
next
  case (Cons x xs)
  show ?case unfolding put_all_simps Cons.IH by auto
qed

lemma put_all_notin: "k \<notin> kf ` set xs \<Longrightarrow> map_get (put_all kf vf xs m) k = map_get m k"
  by (induction xs arbitrary: m) auto

lemma put_all_get_in:
  assumes "map_get (put_all kf vf xs m) k = Some v" and "map_get m k = None"
  shows "\<exists>x \<in> set xs. kf x = k \<and> vf x = v"
  using assms by (auto simp: put_all_get find_Some_iff split: option.splits)
    (metis in_set_conv_nth length_rev set_rev)

lemma put_all_distinct:
  assumes "distinct (map kf xs)" and "x \<in> set xs"
  shows "map_get (put_all kf vf xs m) (kf x) = Some (vf x)"
proof -
  obtain y where y: "find (\<lambda>y. kf y = kf x) (rev xs) = Some y"
    using assms(2) find_None_iff [of "\<lambda>y. kf y = kf x" "rev xs"] by fastforce
  then have "kf y = kf x" "y \<in> set xs" by (auto simp: find_Some_iff) (metis nth_mem length_rev set_rev)
  then have "y = x" using assms by (simp add: distinct_map inj_on_def)
  then show ?thesis using y by (simp add: put_all_get)
qed

section \<open>Fresh identifiers\<close>

text \<open>A number above all numbers of a list: the ID a store that numbers its entries may choose next.\<close>

definition fresh_above :: "int list \<Rightarrow> int" where
  "fresh_above xs = fold max xs 0 + 1"

lemma fresh_above_bound: "x \<in> set xs \<Longrightarrow> x < fresh_above xs"
proof -
  have m: "a \<le> fold max xs (a :: int) \<and> (\<forall>x \<in> set xs. x \<le> fold max xs a)" for a xs
  proof (induction xs arbitrary: a)
    case (Cons x xs)
    have "max x a \<le> fold max xs (max x a)" "\<forall>y \<in> set xs. y \<le> fold max xs (max x a)" using Cons.IH by blast+
    then show ?case by simp
  qed simp
  assume "x \<in> set xs"
  then have "x \<le> fold max xs 0" using m by blast
  then show ?thesis by (simp add: fresh_above_def)
qed

section \<open>Results\<close>

text \<open>
  A Go function that returns \<^verbatim>\<open>(T, error)\<close> with exactly one of them set is modelled by a
  sum, the error on the left.
\<close>

type_synonym ('e, 'a) result = "'e + 'a"

text \<open>A loop that builds a list and stops at the first error.\<close>

fun map_result :: "('a \<Rightarrow> ('e, 'b) result) \<Rightarrow> 'a list \<Rightarrow> ('e, 'b list) result" where
  "map_result f [] = Inr []"
| "map_result f (x # xs) =
     (case f x of
        Inl e \<Rightarrow> Inl e
      | Inr y \<Rightarrow> (case map_result f xs of Inl e \<Rightarrow> Inl e | Inr ys \<Rightarrow> Inr (y # ys)))"

lemma map_result_Inr:
  "map_result f xs = Inr ys \<longleftrightarrow> list_all2 (\<lambda>x y. f x = Inr y) xs ys"
proof (induction xs arbitrary: ys)
  case Nil
  then show ?case by auto
next
  case (Cons x xs)
  have "map_result f (x # xs) = Inr ys \<longleftrightarrow> (\<exists>y zs. ys = y # zs \<and> f x = Inr y \<and> map_result f xs = Inr zs)"
    by (auto split: sum.splits)
  then show ?case by (simp only: Cons.IH list_all2_Cons1)
qed

lemma map_result_total: "(\<exists>ys. map_result f xs = Inr ys) \<longleftrightarrow> (\<forall>x \<in> set xs. \<exists>y. f x = Inr y)"
  by (induction xs) (auto split: sum.splits)

section \<open>Parsing integers\<close>

text \<open>\<^verbatim>\<open>strconv.ParseInt(s, 10, 64)\<close> and \<^verbatim>\<open>strconv.Atoi\<close> (64-bit): \<^term>\<open>None\<close> is the error.\<close>

definition is_digit :: "char \<Rightarrow> bool" where
  "is_digit c \<longleftrightarrow> 48 \<le> (of_char c :: nat) \<and> (of_char c :: nat) \<le> 57"

definition parse_digits :: "string \<Rightarrow> int option" where
  "parse_digits s = (if s \<noteq> [] \<and> list_all is_digit s then Some (int (str_nat s)) else None)"

definition ParseInt :: "string \<Rightarrow> int option" where
  "ParseInt s =
     (let (neg, ds) = (case s of
            [] \<Rightarrow> (False, [])
          | c # cs \<Rightarrow> if c = CHR ''-'' then (True, cs) else if c = CHR ''+'' then (False, cs) else (False, s))
      in case parse_digits ds of
           None \<Rightarrow> None
         | Some n \<Rightarrow>
             (let i = (if neg then - n else n)
              in if - (2 ^ 63) \<le> i \<and> i < 2 ^ 63 then Some i else None))"

lemma nat_str_is_digit: "list_all is_digit (nat_str n)"
proof -
  have "is_digit c" if c: "c \<in> set (nat_str n)" for c
  proof -
    obtain d :: nat where d: "d < 10" "c = char_of (48 + d)"
      using nat_str_digits [OF c] by blast
    then have "(of_char c :: nat) = 48 + d" by (simp add: of_char_of)
    with d show ?thesis by (simp add: is_digit_def)
  qed
  then show ?thesis by (simp add: list_all_iff)
qed

lemma nat_str_ne: "nat_str n \<noteq> []"
  by (subst nat_str.simps) simp

lemma ParseInt_FormatInt:
  assumes "- (2 ^ 63) \<le> i" and "i < 2 ^ 63"
  shows "ParseInt (FormatInt i) = Some i"
proof (cases "i < 0")
  case True
  then show ?thesis
    using assms nat_str_is_digit [of "nat (- i)"] nat_str_ne [of "nat (- i)"]
    by (simp add: ParseInt_def FormatInt_def parse_digits_def str_nat_nat_str)
next
  case False
  obtain c cs where s: "nat_str (nat i) = c # cs"
    using nat_str_ne [of "nat i"] by (cases "nat_str (nat i)") auto
  have "is_digit c" using nat_str_is_digit [of "nat i"] s by simp
  then have "c \<noteq> CHR ''-''" "c \<noteq> CHR ''+''" by (auto simp: is_digit_def of_char_def)
  then show ?thesis
    using assms False nat_str_is_digit [of "nat i"] str_nat_nat_str [of "nat i"] s
    by (simp add: ParseInt_def FormatInt_def parse_digits_def)
qed

section \<open>Key-value stores\<close>

text \<open>
  What the clients of a map-like component rely on: reading after writing. \<open>valid\<close> are the keys the
  component stores at all; writes to other keys have no effect on what can be read.
\<close>

locale kv_store =
  fixes inv :: "'s \<Rightarrow> bool"
    and valid :: "'k \<Rightarrow> bool"
    and get :: "'s \<Rightarrow> 'k \<Rightarrow> 'v option"
    and put :: "'k \<Rightarrow> 'w \<Rightarrow> 's \<Rightarrow> 's"
    and stored :: "'w \<Rightarrow> 'v"
  assumes inv_put: "inv s \<Longrightarrow> inv (put k w s)"
    and get_put_same: "inv s \<Longrightarrow> valid k \<Longrightarrow> get (put k w s) k = Some (stored w)"
    and get_put_other: "inv s \<Longrightarrow> k' \<noteq> k \<Longrightarrow> get (put k w s) k' = get s k'"
    and get_put_invalid: "inv s \<Longrightarrow> \<not> valid k \<Longrightarrow> get (put k w s) k' = get s k'"
begin

definition puts :: "('k \<times> 'w) list \<Rightarrow> 's \<Rightarrow> 's" where
  "puts kws s = fold (\<lambda>(k, w). put k w) kws s"

lemma puts_inv: "inv s \<Longrightarrow> inv (puts kws s)"
  unfolding puts_def by (induction kws arbitrary: s) (auto simp: inv_put)

text \<open>After any sequence of writes a read returns the last value written under the key.\<close>

lemma last_write_wins:
  assumes "inv s"
  shows "get (puts kws s) k =
    (case find (\<lambda>(k', w). k' = k \<and> valid k') (rev kws) of
       Some (k', w) \<Rightarrow> Some (stored w)
     | None \<Rightarrow> get s k)"
  using assms
proof (induction kws arbitrary: s)
  case Nil
  then show ?case by (simp add: puts_def)
next
  case (Cons kw kws)
  obtain k1 w1 where kw: "kw = (k1, w1)" by fastforce
  have "get (put k1 w1 s) k = (if k1 = k \<and> valid k1 then Some (stored w1) else get s k)"
    using Cons.prems get_put_same get_put_other get_put_invalid by metis
  then show ?case
    using Cons.IH [OF inv_put [OF Cons.prems], of k1 w1] kw
    by (auto simp: puts_def find_append split: option.splits)
qed

end

interpretation gomap_store: kv_store gomap_ok "\<lambda>_. True" map_of AList.update "\<lambda>v. v"
  by unfold_locales simp_all

end
