(* ===== verification/Errors.thy ===== *)
theory Errors
  imports Prelude
begin

text \<open>
  The error values of the operator and their classification:
  \<^verbatim>\<open>internal/reconciler/user_action.go\<close>, \<^verbatim>\<open>internal/reconciler/stop.go\<close> and the error types
  declared beside the components that return them. A Go \<^verbatim>\<open>error\<close> is a tree: wrapping with
  \<^verbatim>\<open>%w\<close> and \<^verbatim>\<open>errors.Join\<close> build inner nodes, the concrete types are leaves or nodes with one
  child. The theory proves that the classification only depends on the leaves, that wrapping an
  error for readability keeps its class, and what the printed message is.
\<close>

section \<open>Error values\<close>

text \<open>internal/reconciler/common/rulesets/resolve.go, type UnresolvedReason.\<close>

datatype unresolved_reason =
    ReasonParentNotFound
  | ReasonParentUnavailable
  | ReasonExtendsCycle
  | ReasonExtendsTooDeep
  | ReasonNoEnforcement

definition unresolved_reason_str :: "unresolved_reason \<Rightarrow> string" where
  "unresolved_reason_str r =
     (case r of
        ReasonParentNotFound \<Rightarrow> ''ParentPresetNotFound''
      | ReasonParentUnavailable \<Rightarrow> ''ParentPresetUnavailable''
      | ReasonExtendsCycle \<Rightarrow> ''ExtendsCycle''
      | ReasonExtendsTooDeep \<Rightarrow> ''ExtendsTooDeep''
      | ReasonNoEnforcement \<Rightarrow> ''EnforcementMissing'')"

text \<open>
  \<^verbatim>\<open>github.ErrorResponse\<close> is a type of the go-github library. The model keeps the fields the
  operator reads (a nil \<^verbatim>\<open>Response\<close> is \<^term>\<open>None\<close>) and, as \<open>er_text\<close>, the text its
  \<^verbatim>\<open>Error\<close> method renders, which is library code.
\<close>

record gh_error_detail =
  ed_Code :: string
  ed_Field :: string
  ed_Message :: string

record error_response =
  er_StatusCode :: "int option"
  er_Message :: string
  er_Errors :: "gh_error_detail list"
  er_text :: string

text \<open>
  The errors that reach the executor and the controllers. \<open>WrapError p e\<close> is
  \<^verbatim>\<open>fmt.Errorf("p: %w", e)\<close>; every wrapping call of the operator has that form. The strings
  that \<open>APIStatusError\<close>, \<open>RateLimitReachedError\<close>, \<open>RateLimitedError\<close>, \<open>RequiresSpreadError\<close> and
  \<open>AcceptedError\<close> carry last are what library code renders for them.
\<close>

datatype go_error =
    PlainError string
  | WrapError string go_error
  | JoinError "go_error list"
  | ReadableError go_error
  | GitHubError "error_response option"
  | APIStatusError string string
  | StopReconciliation string
  | ConflictError string "string list"
  | UnresolvedError string "string list" unresolved_reason "go_error option"
  | WebhookConflictError string string "string list"
  | InvalidWebhookSecretRefError string
  | AutolinkConflictError string "string list"
  | DefaultBranchNotFoundError string string string
  | NewRepositoryUpdateError go_error
  | UnresolvableReferenceError string bool
  | FinalizationFailedError string
  | RateLimitReachedError "int option" string
  | RateLimitedError int string
  | RequiresSpreadError int string
  | AcceptedError string

text \<open>\<^verbatim>\<open>errors.Join\<close>: nil if there is no error to join.\<close>

definition errors_Join :: "go_error list \<Rightarrow> go_error option" where
  "errors_Join es = (if es = [] then None else Some (JoinError es))"

lemma errors_Join_simps [simp]:
  "errors_Join [] = None"
  "errors_Join (e # es) = Some (JoinError (e # es))"
  "errors_Join es = None \<longleftrightarrow> es = []"
  by (simp_all add: errors_Join_def)

text \<open>
  \<^verbatim>\<open>errors.As\<close> and \<^verbatim>\<open>errors.AsType\<close>: the first node, in depth-first pre-order, that has the
  wanted type.
\<close>

fun errors_As :: "(go_error \<Rightarrow> 'a option) \<Rightarrow> go_error \<Rightarrow> 'a option"
  and errors_As_list :: "(go_error \<Rightarrow> 'a option) \<Rightarrow> go_error list \<Rightarrow> 'a option" where
  "errors_As f e =
     (case f e of
        Some x \<Rightarrow> Some x
      | None \<Rightarrow>
          (case e of
             WrapError p e' \<Rightarrow> errors_As f e'
           | ReadableError e' \<Rightarrow> errors_As f e'
           | NewRepositoryUpdateError e' \<Rightarrow> errors_As f e'
           | UnresolvedError n c r (Some e') \<Rightarrow> errors_As f e'
           | JoinError es \<Rightarrow> errors_As_list f es
           | _ \<Rightarrow> None))"
| "errors_As_list f [] = None"
| "errors_As_list f (e # es) =
     (case errors_As f e of Some x \<Rightarrow> Some x | None \<Rightarrow> errors_As_list f es)"

declare errors_As.simps [simp del]

definition is_stop :: "go_error \<Rightarrow> string option" where
  "is_stop e = (case e of StopReconciliation m \<Rightarrow> Some m | _ \<Rightarrow> None)"

definition is_github :: "go_error \<Rightarrow> error_response option option" where
  "is_github e = (case e of GitHubError g \<Rightarrow> Some g | _ \<Rightarrow> None)"

text \<open>
  The test \<^verbatim>\<open>errors.As(err, &ghErr) && ghErr.Response.StatusCode == code\<close> of several reconcilers. It dereferences the
  response unchecked: with a nil response (or a nil error response) it panics, which is \<^term>\<open>None\<close>.
\<close>

definition has_status :: "int \<Rightarrow> go_error \<Rightarrow> bool option" where
  "has_status code e =
     (case errors_As is_github e of
        None \<Rightarrow> Some False
      | Some None \<Rightarrow> None
      | Some (Some g) \<Rightarrow> (case er_StatusCode g of None \<Rightarrow> None | Some c \<Rightarrow> Some (c = code)))"

text \<open>internal/reconciler/stop.go.\<close>

definition asStopReconciliation :: "go_error option \<Rightarrow> string option" where
  "asStopReconciliation err = (case err of None \<Rightarrow> None | Some e \<Rightarrow> errors_As is_stop e)"

section \<open>Classification (internal/reconciler/user_action.go)\<close>

text \<open>
  The \<^verbatim>\<open>UserActionRequired\<close> and \<^verbatim>\<open>AwaitsGitHubChange\<close> methods: \<^term>\<open>None\<close> for the types that do
  not implement the interface.
\<close>

fun UserActionRequired :: "go_error \<Rightarrow> bool option" where
  "UserActionRequired (ConflictError n ss) = Some True"
| "UserActionRequired (UnresolvedError n c r e) = Some (r \<noteq> ReasonParentUnavailable)"
| "UserActionRequired (WebhookConflictError u h ss) = Some True"
| "UserActionRequired (InvalidWebhookSecretRefError m) = Some True"
| "UserActionRequired (AutolinkConflictError k ss) = Some True"
| "UserActionRequired (DefaultBranchNotFoundError ow n b) = Some True"
| "UserActionRequired (NewRepositoryUpdateError e) = Some False"
| "UserActionRequired (UnresolvableReferenceError m nf) = Some True"
| "UserActionRequired _ = None"

fun AwaitsGitHubChange_method :: "go_error \<Rightarrow> bool option" where
  "AwaitsGitHubChange_method (DefaultBranchNotFoundError ow n b) = Some True"
| "AwaitsGitHubChange_method (UnresolvableReferenceError m nf) = Some nf"
| "AwaitsGitHubChange_method _ = None"

definition StatusUnprocessableEntity :: int where
  "StatusUnprocessableEntity = 422"

definition isUnprocessableEntity :: "error_response option \<Rightarrow> bool" where
  "isUnprocessableEntity g =
     (case g of
        None \<Rightarrow> False
      | Some r \<Rightarrow> er_StatusCode r = Some StatusUnprocessableEntity)"

text \<open>
  \<^verbatim>\<open>RequiresUserAction\<close> on a non-nil error. The order of the tests is the code's: the marker
  interface, the GitHub response, the Kubernetes status, the joined errors, the wrapped error.
\<close>

fun requires_user_action :: "go_error \<Rightarrow> bool" where
  "requires_user_action e =
     (case UserActionRequired e of
        Some b \<Rightarrow> b
      | None \<Rightarrow>
          (case e of
             GitHubError g \<Rightarrow> isUnprocessableEntity g
           | APIStatusError reason m \<Rightarrow> reason = ''NotFound''
           | JoinError es \<Rightarrow> (\<forall>x \<in> set es. requires_user_action x) \<and> es \<noteq> []
           | WrapError p e' \<Rightarrow> requires_user_action e'
           | ReadableError e' \<Rightarrow> requires_user_action e'
           | _ \<Rightarrow> False))"

declare requires_user_action.simps [simp del]

definition RequiresUserAction :: "go_error option \<Rightarrow> bool" where
  "RequiresUserAction err = (case err of None \<Rightarrow> False | Some e \<Rightarrow> requires_user_action e)"

fun awaits_github_change :: "go_error \<Rightarrow> bool" where
  "awaits_github_change e =
     (if AwaitsGitHubChange_method e = Some True then True
      else
        (case e of
           GitHubError g \<Rightarrow> isUnprocessableEntity g
         | JoinError es \<Rightarrow> (\<exists>x \<in> set es. awaits_github_change x)
         | WrapError p e' \<Rightarrow> awaits_github_change e'
         | ReadableError e' \<Rightarrow> awaits_github_change e'
         | NewRepositoryUpdateError e' \<Rightarrow> awaits_github_change e'
         | UnresolvedError n c r (Some e') \<Rightarrow> awaits_github_change e'
         | _ \<Rightarrow> False))"

declare awaits_github_change.simps [simp del]

definition AwaitsGitHubChange :: "go_error option \<Rightarrow> bool" where
  "AwaitsGitHubChange err = (case err of None \<Rightarrow> False | Some e \<Rightarrow> awaits_github_change e)"

text \<open>\<^verbatim>\<open>apierrors.IsNotFound\<close> of the Kubernetes library: the reason of the first status in the tree.\<close>

definition is_api_status :: "go_error \<Rightarrow> string option" where
  "is_api_status e = (case e of APIStatusError reason m \<Rightarrow> Some reason | _ \<Rightarrow> None)"

definition IsNotFound :: "go_error \<Rightarrow> bool" where
  "IsNotFound e = (errors_As is_api_status e = Some ''NotFound'')"

section \<open>Messages\<close>

fun unprocessable_entity_errors :: "go_error \<Rightarrow> error_response list" where
  "unprocessable_entity_errors e =
     (case e of
        GitHubError g \<Rightarrow>
          (if isUnprocessableEntity g then (case g of Some r \<Rightarrow> [r] | None \<Rightarrow> []) else [])
      | JoinError es \<Rightarrow> concat (map unprocessable_entity_errors es)
      | WrapError p e' \<Rightarrow> unprocessable_entity_errors e'
      | ReadableError e' \<Rightarrow> unprocessable_entity_errors e'
      | NewRepositoryUpdateError e' \<Rightarrow> unprocessable_entity_errors e'
      | UnresolvedError n c r (Some e') \<Rightarrow> unprocessable_entity_errors e'
      | _ \<Rightarrow> [])"

declare unprocessable_entity_errors.simps [simp del]

definition unprocessableEntityErrors :: "go_error option \<Rightarrow> error_response list" where
  "unprocessableEntityErrors err =
     (case err of None \<Rightarrow> [] | Some e \<Rightarrow> unprocessable_entity_errors e)"

definition detail_text :: "gh_error_detail \<Rightarrow> string" where
  "detail_text d =
     (let detail = (if ed_Message d = '''' then ed_Code d else ed_Message d)
      in if ed_Field d \<noteq> '''' then ed_Field d @ '': '' @ detail else detail)"

definition formatGitHubErrorResponse :: "error_response \<Rightarrow> string" where
  "formatGitHubErrorResponse g =
     (let details = filter (\<lambda>t. t \<noteq> '''') (map detail_text (er_Errors g));
          msg = (if er_Message g = '''' then ''Unprocessable Entity'' else er_Message g)
      in if details \<noteq> [] then msg @ '': '' @ strings_Join details ''; '' else msg)"

text \<open>
  The \<^verbatim>\<open>Error\<close> methods. \<^verbatim>\<open>%q\<close> is rendered for strings without characters that need escaping.
\<close>

definition quoted :: "string \<Rightarrow> string" where
  "quoted s = [CHR 34] @ s @ [CHR 34]"

definition replace_responses :: "error_response list \<Rightarrow> string \<Rightarrow> string" where
  "replace_responses gs msg =
     fold (\<lambda>g m. ReplaceAll m (er_text g) (formatGitHubErrorResponse g)) gs msg"

fun error_text :: "go_error \<Rightarrow> string" where
  "error_text (PlainError m) = m"
| "error_text (WrapError p e) = p @ '': '' @ error_text e"
| "error_text (JoinError es) = strings_Join (map error_text es) [CHR 10]"
| "error_text (ReadableError e) = replace_responses (unprocessable_entity_errors e) (error_text e)"
| "error_text (GitHubError g) = (case g of Some r \<Rightarrow> er_text r | None \<Rightarrow> '''')"
| "error_text (APIStatusError reason m) = m"
| "error_text (StopReconciliation m) = ''reconciliation stopped: '' @ m"
| "error_text (ConflictError n ss) =
     ''conflicting ruleset definitions for ruleset '' @ quoted n @ '' in sources ['' @
     strings_Join ss '', '' @ '']''"
| "error_text (UnresolvedError n c r e) =
     ''ruleset '' @ quoted n @ '' could not be resolved ('' @ unresolved_reason_str r @
     ''), extends chain ['' @ strings_Join c '' -> '' @ '']'' @
     (case e of None \<Rightarrow> '''' | Some e' \<Rightarrow> '': '' @ error_text e')"
| "error_text (WebhookConflictError u h ss) =
     ''conflicting webhook definitions for payload URL '' @ quoted u @ '' in sources ['' @
     strings_Join ss '', '' @ '']''"
| "error_text (InvalidWebhookSecretRefError m) = m"
| "error_text (AutolinkConflictError k ss) =
     ''conflicting autolink definitions for keyPrefix '' @ quoted k @ '' in sources ['' @
     strings_Join ss '', '' @ '']''"
| "error_text (DefaultBranchNotFoundError ow n b) =
     ''default branch '' @ quoted b @ '' does not exist in repository '' @ ow @ ''/'' @ n @
     ''; push the branch or change spec.defaultBranch''"
| "error_text (NewRepositoryUpdateError e) = error_text e"
| "error_text (UnresolvableReferenceError m nf) = m"
| "error_text (FinalizationFailedError m) = m"
| "error_text (RateLimitReachedError t m) = m"
| "error_text (RateLimitedError t m) = ''GitHub rate limit exceeded, reset time: '' @ m"
| "error_text (RequiresSpreadError d m) = ''GitHub rate limit exceeded, reset time: '' @ m"
| "error_text (AcceptedError m) = m"

definition ErrorMessage :: "go_error option \<Rightarrow> string" where
  "ErrorMessage err =
     (case err of
        None \<Rightarrow> ''''
      | Some e \<Rightarrow> replace_responses (unprocessableEntityErrors (Some e)) (error_text e))"

definition withReadableMessage :: "go_error option \<Rightarrow> go_error option" where
  "withReadableMessage err =
     (if err = None \<or> length (unprocessableEntityErrors err) = 0 then err
      else (case err of None \<Rightarrow> None | Some e \<Rightarrow> Some (ReadableError e)))"

section \<open>The classification depends on the leaves only\<close>

text \<open>
  The leaves of an error tree as the classification sees them: a type that implements the marker
  interface decides for itself, whatever it wraps; a join of nothing is a leaf.
\<close>

fun leaves :: "go_error \<Rightarrow> go_error list" where
  "leaves (WrapError p e) = leaves e"
| "leaves (ReadableError e) = leaves e"
| "leaves (JoinError (x # xs)) = concat (map leaves (x # xs))"
| "leaves e = [e]"

text \<open>The three kinds of leaves that only a user can repair.\<close>

definition user_action_leaf :: "go_error \<Rightarrow> bool" where
  "user_action_leaf e \<longleftrightarrow>
     UserActionRequired e = Some True \<or>
     (\<exists>r. e = GitHubError (Some r) \<and> er_StatusCode r = Some 422) \<or>
     (\<exists>m. e = APIStatusError ''NotFound'' m)"

lemma requires_user_action_simps [simp]:
  "requires_user_action (WrapError p e) = requires_user_action e"
  "requires_user_action (ReadableError e) = requires_user_action e"
  "requires_user_action (JoinError es) \<longleftrightarrow> es \<noteq> [] \<and> (\<forall>x \<in> set es. requires_user_action x)"
  "requires_user_action (GitHubError g) = isUnprocessableEntity g"
  "requires_user_action (APIStatusError r m) \<longleftrightarrow> r = ''NotFound''"
  "requires_user_action (NewRepositoryUpdateError e) = False"
  "requires_user_action (PlainError m) = False"
  "requires_user_action (StopReconciliation m) = False"
  by (auto simp: requires_user_action.simps)


lemma user_action_leaves: "requires_user_action e \<longleftrightarrow> list_all user_action_leaf (leaves e)"
proof (induction e rule: leaves.induct)
  case (3 x xs)
  then show ?case by (auto simp: list_all_iff)
qed (auto simp: requires_user_action.simps user_action_leaf_def isUnprocessableEntity_def
       StatusUnprocessableEntity_def split: option.splits)

lemma requires_user_action_join:
  "RequiresUserAction (errors_Join es) \<longleftrightarrow> es \<noteq> [] \<and> (\<forall>e \<in> set es. requires_user_action e)"
  by (cases es) (simp_all add: RequiresUserAction_def)

section \<open>The walk for GitHub changes is errors.As\<close>

definition github_change_node :: "go_error \<Rightarrow> unit option" where
  "github_change_node e =
     (if AwaitsGitHubChange_method e = Some True then Some ()
      else case e of GitHubError g \<Rightarrow> (if isUnprocessableEntity g then Some () else None) | _ \<Rightarrow> None)"

lemma errors_As_list_Some:
  "errors_As_list f es \<noteq> None \<longleftrightarrow> (\<exists>e \<in> set es. errors_As f e \<noteq> None)"
  by (induction es) (auto split: option.splits)

lemma github_change_node_simps [simp]:
  "github_change_node (GitHubError g) = (if isUnprocessableEntity g then Some () else None)"
  "github_change_node (DefaultBranchNotFoundError ow n b) = Some ()"
  "github_change_node (UnresolvableReferenceError m nf) = (if nf then Some () else None)"
  "github_change_node (WrapError p e) = None"
  "github_change_node (ReadableError e) = None"
  "github_change_node (JoinError es) = None"
  "github_change_node (NewRepositoryUpdateError e) = None"
  "github_change_node (UnresolvedError n c r x) = None"
  by (simp_all add: github_change_node_def)

lemma awaits_github_change_simps [simp]:
  "awaits_github_change (WrapError p e) = awaits_github_change e"
  "awaits_github_change (ReadableError e) = awaits_github_change e"
  "awaits_github_change (NewRepositoryUpdateError e) = awaits_github_change e"
  "awaits_github_change (JoinError es) \<longleftrightarrow> (\<exists>x \<in> set es. awaits_github_change x)"
  "awaits_github_change (UnresolvedError n c r x) = (case x of None \<Rightarrow> False | Some e \<Rightarrow> awaits_github_change e)"
  "awaits_github_change (GitHubError g) = isUnprocessableEntity g"
  by (subst awaits_github_change.simps, simp split: option.split)+

lemma errors_As_simps:
  "errors_As f (WrapError p e) = (case f (WrapError p e) of Some x \<Rightarrow> Some x | None \<Rightarrow> errors_As f e)"
  "errors_As f (ReadableError e) = (case f (ReadableError e) of Some x \<Rightarrow> Some x | None \<Rightarrow> errors_As f e)"
  "errors_As f (NewRepositoryUpdateError e) =
     (case f (NewRepositoryUpdateError e) of Some x \<Rightarrow> Some x | None \<Rightarrow> errors_As f e)"
  "errors_As f (JoinError es) = (case f (JoinError es) of Some x \<Rightarrow> Some x | None \<Rightarrow> errors_As_list f es)"
  "errors_As f (UnresolvedError n c r y) =
     (case f (UnresolvedError n c r y) of
        Some x \<Rightarrow> Some x
      | None \<Rightarrow> (case y of None \<Rightarrow> None | Some e \<Rightarrow> errors_As f e))"
  by (subst errors_As.simps, simp split: option.split)+

lemma unprocessable_entity_errors_simps [simp]:
  "unprocessable_entity_errors (WrapError p e) = unprocessable_entity_errors e"
  "unprocessable_entity_errors (ReadableError e) = unprocessable_entity_errors e"
  "unprocessable_entity_errors (NewRepositoryUpdateError e) = unprocessable_entity_errors e"
  "unprocessable_entity_errors (JoinError es) = concat (map unprocessable_entity_errors es)"
  "unprocessable_entity_errors (UnresolvedError n c r x) =
     (case x of None \<Rightarrow> [] | Some e \<Rightarrow> unprocessable_entity_errors e)"
  by (subst unprocessable_entity_errors.simps, simp split: option.split)+

lemma awaits_github_change_As:
  "awaits_github_change e \<longleftrightarrow> errors_As github_change_node e \<noteq> None"
proof (induction e)
  case (JoinError es)
  then show ?case
    unfolding errors_As_simps(4) using errors_As_list_Some [of github_change_node es] by simp
next
  case (UnresolvedError n c r y)
  then show ?case by (cases y) (auto simp: errors_As_simps)
qed (auto simp: errors_As_simps errors_As.simps awaits_github_change.simps github_change_node_def)

lemma unprocessable_awaits:
  "unprocessable_entity_errors e \<noteq> [] \<Longrightarrow> awaits_github_change e"
proof (induction e)
  case (UnresolvedError n c r y)
  then show ?case by (cases y) auto
qed (auto simp: unprocessable_entity_errors.simps split: if_splits)

section \<open>Readable messages\<close>

lemma errors_As_Readable:
  "f (ReadableError e) = None \<Longrightarrow> errors_As f (ReadableError e) = errors_As f e"
  by (subst errors_As.simps) simp

lemma withReadableMessage_cases:
  obtains "withReadableMessage err = err" "unprocessableEntityErrors err = []"
  | e where "err = Some e" "withReadableMessage err = Some (ReadableError e)"
  by (cases err; cases "unprocessableEntityErrors err = []")
    (auto simp: withReadableMessage_def unprocessableEntityErrors_def)

lemma withReadableMessage_None [simp]: "withReadableMessage err = None \<longleftrightarrow> err = None"
  by (cases err) (simp_all add: withReadableMessage_def)

lemma RequiresUserAction_readable [simp]:
  "RequiresUserAction (withReadableMessage err) = RequiresUserAction err"
  by (rule withReadableMessage_cases [of err]) (simp_all add: RequiresUserAction_def)

lemma AwaitsGitHubChange_readable [simp]:
  "AwaitsGitHubChange (withReadableMessage err) = AwaitsGitHubChange err"
  by (rule withReadableMessage_cases [of err]) (simp_all add: AwaitsGitHubChange_def)

lemma readable_text:
  "(case withReadableMessage err of None \<Rightarrow> '''' | Some e \<Rightarrow> error_text e) = ErrorMessage err"
  by (rule withReadableMessage_cases [of err])
    (auto simp: ErrorMessage_def unprocessableEntityErrors_def replace_responses_def split: option.splits)

section \<open>Properties\<close>

lemma asStop_readable: "asStopReconciliation (withReadableMessage err) = asStopReconciliation err"
  by (rule withReadableMessage_cases [of err])
    (simp_all add: asStopReconciliation_def errors_As_simps is_stop_def)

text \<open>C8: a run needs the user exactly if every leaf of its error tree does. Wrapping, making a
  message readable and joining never change the answer, and a single retryable leaf (or a marker
  type that answers no) makes the whole error retryable.\<close>

theorem classification_by_leaves:
  "RequiresUserAction err \<longleftrightarrow> (\<exists>e. err = Some e \<and> list_all user_action_leaf (leaves e))"
  by (cases err) (simp_all add: RequiresUserAction_def user_action_leaves)

text \<open>The error the executor returns instead of the one it got, with GitHub's message made
  readable, has the same class for the requeue policy and for the stop test, and its text is
  what the conditions show.\<close>

lemma readable_keeps_class:
  "RequiresUserAction (withReadableMessage err) = RequiresUserAction err \<and>
   AwaitsGitHubChange (withReadableMessage err) = AwaitsGitHubChange err \<and>
   asStopReconciliation (withReadableMessage err) = asStopReconciliation err \<and>
   (case withReadableMessage err of None \<Rightarrow> '''' | Some e \<Rightarrow> error_text e) = ErrorMessage err"
  by (simp add: asStop_readable readable_text)

end
