(* ===== verification/Executor.thy ===== *)
theory Executor
  imports Errors
begin

text \<open>
  The generic reconciliation process: \<^verbatim>\<open>internal/reconciler/executor.go\<close>,
  \<^verbatim>\<open>internal/reconciler/types.go\<close> and \<^verbatim>\<open>internal/conditions\<close>. The Kubernetes resource with its
  in-memory status is a record that the operations thread; everything else the operations act on
  (GitHub, the API server, resource specific status fields) is the component \<open>world\<close>.

  The reconciliations of a group are goroutines. A reconciliation's function is a tree of atomic
  steps on the world, and a run of the group is driven by a schedule, the sequence of goroutines
  that take the next step; \<^verbatim>\<open>wg.Wait\<close> returns once every result slot is written. The theory
  proves what the conditions, the returned error and the finalizers are for every schedule, and
  that schedules that let the group finish exist.
\<close>

section \<open>Conditions (internal/conditions)\<close>

datatype condition_status = ConditionTrue | ConditionFalse | ConditionUnknown

record condition =
  cond_Type :: string
  cond_Status :: condition_status
  cond_ObservedGeneration :: int
  cond_LastTransitionTime :: "int option"
  cond_Reason :: string
  cond_Message :: string

definition TypeReady :: string where
  "TypeReady = ''Ready''"

definition ReasonReconcileStarted :: string where
  "ReasonReconcileStarted = ''ReconcileStarted''"

definition ReasonReconcileCompleted :: string where
  "ReasonReconcileCompleted = ''ReconcileCompleted''"

definition ReasonReconcileFailed :: string where
  "ReasonReconcileFailed = ''ReconcileFailed''"

definition ReasonSyncCompleted :: string where
  "ReasonSyncCompleted = ''SyncCompleted''"

definition ReasonSyncFailed :: string where
  "ReasonSyncFailed = ''SyncFailed''"

definition ReasonUserActionRequired :: string where
  "ReasonUserActionRequired = ''UserActionRequired''"

definition ReasonSkipped :: string where
  "ReasonSkipped = ''Skipped''"

lemmas reason_defs = ReasonReconcileStarted_def ReasonReconcileCompleted_def
  ReasonReconcileFailed_def ReasonSyncCompleted_def ReasonSyncFailed_def
  ReasonUserActionRequired_def ReasonSkipped_def

definition find_condition :: "string \<Rightarrow> condition list \<Rightarrow> condition option" where
  "find_condition t cs = find (\<lambda>c. cond_Type c = t) cs"

section \<open>The Kubernetes libraries the executor calls\<close>

type_synonym label_set = "(string, string) gomap"

record k8s_lib =
  lib_SetStatusCondition :: "condition list \<Rightarrow> condition \<Rightarrow> condition list"
  lib_FindStatusCondition :: "condition list \<Rightarrow> string \<Rightarrow> condition option"
  lib_labels_Merge :: "label_set \<Rightarrow> label_set \<Rightarrow> label_set"
  lib_ContainsFinalizer :: "string list \<Rightarrow> string \<Rightarrow> bool"
  lib_AddFinalizer :: "string list \<Rightarrow> string \<Rightarrow> string list"
  lib_RemoveFinalizer :: "string list \<Rightarrow> string \<Rightarrow> string list"

text \<open>
  What the packages \<^verbatim>\<open>meta\<close> and \<^verbatim>\<open>controllerutil\<close> document: setting a condition stores its
  status, reason, message and generation under its type and leaves the other types alone; the
  finalizer functions add, remove and find one name.
\<close>

definition set_condition_law :: "k8s_lib \<Rightarrow> bool" where
  "set_condition_law lib \<longleftrightarrow>
     (\<forall>cs c. \<exists>c'. find_condition (cond_Type c) (lib_SetStatusCondition lib cs c) = Some c' \<and>
        cond_Status c' = cond_Status c \<and> cond_Reason c' = cond_Reason c \<and>
        cond_Message c' = cond_Message c \<and>
        cond_ObservedGeneration c' = cond_ObservedGeneration c) \<and>
     (\<forall>cs c t. t \<noteq> cond_Type c \<longrightarrow>
        find_condition t (lib_SetStatusCondition lib cs c) = find_condition t cs)"

definition find_condition_law :: "k8s_lib \<Rightarrow> bool" where
  "find_condition_law lib \<longleftrightarrow> (\<forall>cs t. lib_FindStatusCondition lib cs t = find_condition t cs)"

definition finalizer_law :: "k8s_lib \<Rightarrow> bool" where
  "finalizer_law lib \<longleftrightarrow>
     (\<forall>fs f. lib_ContainsFinalizer lib fs f \<longleftrightarrow> f \<in> set fs) \<and>
     (\<forall>fs f. set (lib_AddFinalizer lib fs f) = insert f (set fs)) \<and>
     (\<forall>fs f. set (lib_RemoveFinalizer lib fs f) = set fs - {f})"

section \<open>State (internal/reconciler/types.go)\<close>

record 'w kstate =
  ks_Conditions :: "condition list"
  ks_Generation :: int
  ks_DeletionTimestamp :: "int option"
  ks_Finalizers :: "string list"
  ks_Labels :: label_set
  ks_ObservedSubResourceGenerations :: "(string, int) gomap option"
  ks_world :: 'w
  ks_ticks :: nat

text \<open>A reconciliation function: atomic steps on the world, then the returned error.\<close>

datatype 'w proc = Done "go_error option" | Step "'w \<Rightarrow> 'w \<times> 'w proc"

record 'w reconciliation =
  rec_Function :: "'w proc"
  rec_Condition :: string

text \<open>
  The interface \<^verbatim>\<open>Reconciler[T]\<close> with the client calls the executor makes through it. Apply
  configurations are values of a type \<open>'c\<close>. \<open>rc_SetObservedSubResourceGeneration\<close> maps the stored
  and the new map to the stored one (organizations and repositories store it, teams do not).
\<close>

record ('w, 'c) reconciler =
  rc_GetAdditionalLabels :: "'w \<Rightarrow> label_set"
  rc_RequiredReconciliations :: "'w \<Rightarrow> 'w reconciliation list list"
  rc_FinalizerName :: string
  rc_ReconcileDeletion :: "'w \<Rightarrow> 'w \<times> go_error option"
  rc_BuildMetadataApplyConfig :: "label_set \<Rightarrow> string list \<Rightarrow> 'c"
  rc_BuildStatusApplyConfig :: "'w kstate \<Rightarrow> 'c"
  rc_ClientApply :: "'c \<Rightarrow> 'w \<Rightarrow> 'w \<times> go_error option"
  rc_StatusApply :: "'c \<Rightarrow> 'w \<Rightarrow> 'w \<times> go_error option"
  rc_SetObservedSubResourceGeneration ::
    "(string, int) gomap option \<Rightarrow> (string, int) gomap option \<Rightarrow> (string, int) gomap option"
  rc_CurrentSubResourceGenerations :: "(string, int) gomap option"

text \<open>The clock (its n-th reading) and the rendering of a time, which depends on the time zone.\<close>

record clock =
  ck_Now :: "nat \<Rightarrow> int"
  ck_Format :: "int \<Rightarrow> string"

record reconciliation_result =
  rr_Condition :: string
  rr_Error :: "go_error option"
  rr_FinishedAt :: int
  rr_Stop :: "string option"
  rr_SkippedBy :: "string option"

section \<open>Running a group\<close>

record 'w group_state =
  gs_world :: 'w
  gs_ticks :: nat
  gs_procs :: "'w proc list"
  gs_slots :: "reconciliation_result option list"

text \<open>
  One step of goroutine \<open>i\<close>: the next atomic step of its function, or, when the function has
  returned, the write to \<^verbatim>\<open>results[idx]\<close>.
\<close>

definition goroutine_step :: "clock \<Rightarrow> 'w reconciliation list \<Rightarrow> nat \<Rightarrow> 'w group_state \<Rightarrow> 'w group_state" where
  "goroutine_step ck grp i g =
     (if length grp \<le> i \<or> gs_slots g ! i \<noteq> None then g
      else
        (case gs_procs g ! i of
           Step f \<Rightarrow>
             (case f (gs_world g) of
                (w', p') \<Rightarrow> g\<lparr>gs_world := w', gs_procs := (gs_procs g)[i := p']\<rparr>)
         | Done e \<Rightarrow>
             g\<lparr>gs_ticks := Suc (gs_ticks g),
               gs_slots := (gs_slots g)[i := Some
                 \<lparr>rr_Condition = rec_Condition (grp ! i), rr_Error = e,
                  rr_FinishedAt = ck_Now ck (gs_ticks g), rr_Stop = None, rr_SkippedBy = None\<rparr>]\<rparr>))"

definition group_start :: "'w reconciliation list \<Rightarrow> 'w \<Rightarrow> nat \<Rightarrow> 'w group_state" where
  "group_start grp w n =
     \<lparr>gs_world = w, gs_ticks = n, gs_procs = map rec_Function grp,
      gs_slots = replicate (length grp) None\<rparr>"

definition group_run :: "clock \<Rightarrow> 'w reconciliation list \<Rightarrow> nat list \<Rightarrow> 'w group_state \<Rightarrow> 'w group_state" where
  "group_run ck grp sched g = fold (goroutine_step ck grp) sched g"

text \<open>\<^verbatim>\<open>wg.Wait\<close> returns once all goroutines are done; \<^term>\<open>None\<close> while it still waits.\<close>

definition runReconciliationGroup ::
    "clock \<Rightarrow> nat list \<Rightarrow> 'w reconciliation list \<Rightarrow> 'w kstate \<Rightarrow> ('w kstate \<times> reconciliation_result list) option" where
  "runReconciliationGroup ck sched grp s =
     (let g = group_run ck grp sched (group_start grp (ks_world s) (ks_ticks s))
      in if list_all (\<lambda>r. r \<noteq> None) (gs_slots g)
         then Some (s\<lparr>ks_world := gs_world g, ks_ticks := gs_ticks g\<rparr>, map the (gs_slots g))
         else None)"

section \<open>Running all groups\<close>

text \<open>
  The loop body that separates intended stops from errors: the results with the stop recorded, the
  first stop and the errors of the group.
\<close>

fun process_group :: "reconciliation_result list \<Rightarrow> reconciliation_result list \<times> string option \<times> go_error list" where
  "process_group [] = ([], None, [])"
| "process_group (r # rs) =
     (case process_group rs of
        (rs', stop, errs) \<Rightarrow>
          (case asStopReconciliation (rr_Error r) of
             Some m \<Rightarrow> (r\<lparr>rr_Error := None, rr_Stop := Some m\<rparr> # rs', Some m, errs)
           | None \<Rightarrow>
               (case rr_Error r of
                  Some e \<Rightarrow> (r # rs', stop, e # errs)
                | None \<Rightarrow> (r # rs', stop, errs))))"

definition skippedResults :: "int \<Rightarrow> 'w reconciliation list list \<Rightarrow> string \<Rightarrow> reconciliation_result list" where
  "skippedResults now groups stop =
     map (\<lambda>r. \<lparr>rr_Condition = rec_Condition r, rr_Error = None, rr_FinishedAt = now,
               rr_Stop = None, rr_SkippedBy = Some stop\<rparr>) (concat groups)"

text \<open>
  \<^verbatim>\<open>runReconciliations\<close>: \<open>sched k\<close> is the schedule of the k-th group. The loop leaves on the first
  group with an error, so the errors it has collected are those of that group.
\<close>

fun run_groups ::
    "clock \<Rightarrow> (nat \<Rightarrow> nat list) \<Rightarrow> nat \<Rightarrow> 'w reconciliation list list \<Rightarrow> 'w kstate \<Rightarrow>
     ('w kstate \<times> reconciliation_result list \<times> go_error list) option" where
  "run_groups ck sched k [] s = Some (s, [], [])"
| "run_groups ck sched k (grp # groups) s =
     (case runReconciliationGroup ck (sched k) grp s of
        None \<Rightarrow> None
      | Some (s1, raw) \<Rightarrow>
          (case process_group raw of
             (groupResults, stop, errs) \<Rightarrow>
               if errs \<noteq> [] then Some (s1, groupResults, errs)
               else
                 (case stop of
                    Some m \<Rightarrow>
                      Some (s1\<lparr>ks_ticks := Suc (ks_ticks s1)\<rparr>,
                            groupResults @ skippedResults (ck_Now ck (ks_ticks s1)) groups m, [])
                  | None \<Rightarrow>
                      (case run_groups ck sched (Suc k) groups s1 of
                         None \<Rightarrow> None
                       | Some (s2, results, errs') \<Rightarrow> Some (s2, groupResults @ results, errs')))))"

definition runReconciliations ::
    "clock \<Rightarrow> (nat \<Rightarrow> nat list) \<Rightarrow> ('w, 'c) reconciler \<Rightarrow> 'w kstate \<Rightarrow>
     ('w kstate \<times> reconciliation_result list \<times> go_error option) option" where
  "runReconciliations ck sched rc s =
     (case run_groups ck sched 0 (rc_RequiredReconciliations rc (ks_world s)) s of
        None \<Rightarrow> None
      | Some (s', results, errs) \<Rightarrow> Some (s', results, errors_Join errs))"

section \<open>Conditions from results\<close>

definition conditionFromResult :: "clock \<Rightarrow> reconciliation_result \<Rightarrow> condition" where
  "conditionFromResult ck r =
     (let finishedAt = ck_Format ck (rr_FinishedAt r);
          c = \<lparr>cond_Type = rr_Condition r, cond_Status = ConditionTrue,
               cond_ObservedGeneration = 0, cond_LastTransitionTime = Some (rr_FinishedAt r),
               cond_Reason = ReasonSyncCompleted,
               cond_Message = ''Sync completed successfully at '' @ finishedAt\<rparr>
      in case rr_Error r of
           Some e \<Rightarrow>
             c\<lparr>cond_Message := ''Sync failed with '' @ ErrorMessage (Some e) @ '' at '' @ finishedAt,
               cond_Status := ConditionFalse,
               cond_Reason := (if RequiresUserAction (Some e) then ReasonUserActionRequired
                               else ReasonSyncFailed)\<rparr>
         | None \<Rightarrow>
             (case rr_Stop r of
                Some m \<Rightarrow> c\<lparr>cond_Message := ''Sync completed at '' @ finishedAt @ '': '' @ m\<rparr>
              | None \<Rightarrow>
                  (case rr_SkippedBy r of
                     Some m \<Rightarrow>
                       c\<lparr>cond_Status := ConditionUnknown, cond_Reason := ReasonSkipped,
                         cond_Message := ''Skipped at '' @ finishedAt @ '': '' @ m\<rparr>
                   | None \<Rightarrow> c)))"

definition first_stop :: "reconciliation_result list \<Rightarrow> string option" where
  "first_stop rs = (case find (\<lambda>r. rr_Stop r \<noteq> None) rs of Some r \<Rightarrow> rr_Stop r | None \<Rightarrow> None)"

definition ready_condition :: "clock \<Rightarrow> nat \<Rightarrow> int \<Rightarrow> reconciliation_result list \<Rightarrow> condition" where
  "ready_condition ck n generation results =
     (let allReady = list_all (\<lambda>r. rr_Error r = None) results;
          allFailuresRequireUserAction =
            list_all (\<lambda>r. rr_Error r = None \<or> RequiresUserAction (rr_Error r)) results;
          now = ck_Format ck (ck_Now ck n);
          c = \<lparr>cond_Type = TypeReady, cond_Status = ConditionFalse,
               cond_ObservedGeneration = generation, cond_LastTransitionTime = None,
               cond_Reason = [], cond_Message = []\<rparr>
      in if allReady then
           (case first_stop results of
              Some m \<Rightarrow>
                c\<lparr>cond_Status := ConditionTrue, cond_Reason := ReasonReconcileCompleted,
                  cond_Message := ''Reconciliation completed at '' @ now @
                    '', remaining components skipped: '' @ m\<rparr>
            | None \<Rightarrow>
                c\<lparr>cond_Status := ConditionTrue, cond_Reason := ReasonReconcileCompleted,
                  cond_Message := ''All components synced successfully at '' @ now\<rparr>)
         else if allFailuresRequireUserAction then
           c\<lparr>cond_Status := ConditionFalse, cond_Reason := ReasonUserActionRequired,
             cond_Message := ''Some components require user action to sync (see their conditions) at '' @ now\<rparr>
         else
           c\<lparr>cond_Status := ConditionFalse, cond_Reason := ReasonReconcileFailed,
             cond_Message := ''Some components failed to sync during reconciliation at '' @ now\<rparr>)"

definition updateConditionsFromResults ::
    "k8s_lib \<Rightarrow> clock \<Rightarrow> reconciliation_result list \<Rightarrow> 'w kstate \<Rightarrow> 'w kstate" where
  "updateConditionsFromResults lib ck results s =
     (let cs = foldl (lib_SetStatusCondition lib) (ks_Conditions s) (map (conditionFromResult ck) results);
          ready = ready_condition ck (ks_ticks s) (ks_Generation s) results
      in s\<lparr>ks_Conditions := lib_SetStatusCondition lib cs ready, ks_ticks := Suc (ks_ticks s)\<rparr>)"

definition updateStartCondition :: "k8s_lib \<Rightarrow> clock \<Rightarrow> 'w kstate \<Rightarrow> 'w kstate" where
  "updateStartCondition lib ck s =
     s\<lparr>ks_Conditions := lib_SetStatusCondition lib (ks_Conditions s)
         \<lparr>cond_Type = TypeReady, cond_Status = ConditionUnknown, cond_ObservedGeneration = 0,
          cond_LastTransitionTime = None, cond_Reason = ReasonReconcileStarted,
          cond_Message = ''Started reconciliation at '' @ ck_Format ck (ck_Now ck (ks_ticks s))\<rparr>,
       ks_ticks := Suc (ks_ticks s)\<rparr>"

section \<open>The process\<close>

definition applyStatus :: "('w, 'c) reconciler \<Rightarrow> 'w kstate \<Rightarrow> 'w kstate \<times> go_error option" where
  "applyStatus rc s =
     (case rc_StatusApply rc (rc_BuildStatusApplyConfig rc s) (ks_world s) of
        (w', err) \<Rightarrow> (s\<lparr>ks_world := w'\<rparr>, err))"

definition managed_by_label :: label_set where
  "managed_by_label = [(''app.kubernetes.io/managed-by'', ''git-hubby'')]"

definition applyMetadata ::
    "k8s_lib \<Rightarrow> ('w, 'c) reconciler \<Rightarrow> bool \<Rightarrow> 'w kstate \<Rightarrow> 'w kstate \<times> go_error option" where
  "applyMetadata lib rc includeFinalizer s =
     (let allLabels = lib_labels_Merge lib managed_by_label (rc_GetAdditionalLabels rc (ks_world s));
          finalizers = (if includeFinalizer then [rc_FinalizerName rc] else [])
      in case rc_ClientApply rc (rc_BuildMetadataApplyConfig rc allLabels finalizers) (ks_world s) of
           (w', Some e) \<Rightarrow> (s\<lparr>ks_world := w'\<rparr>, Some e)
         | (w', None) \<Rightarrow>
             (let s1 = s\<lparr>ks_world := w', ks_Labels := lib_labels_Merge lib (ks_Labels s) allLabels\<rparr>
              in if includeFinalizer \<and> \<not> lib_ContainsFinalizer lib (ks_Finalizers s1) (rc_FinalizerName rc)
                 then (s1\<lparr>ks_Finalizers := lib_AddFinalizer lib (ks_Finalizers s1) (rc_FinalizerName rc)\<rparr>, None)
                 else (s1, None)))"

definition finalize :: "k8s_lib \<Rightarrow> ('w, 'c) reconciler \<Rightarrow> 'w kstate \<Rightarrow> 'w kstate \<times> go_error option" where
  "finalize lib rc s =
     (case rc_ReconcileDeletion rc (ks_world s) of
        (w', Some e) \<Rightarrow> (s\<lparr>ks_world := w'\<rparr>, Some e)
      | (w', None) \<Rightarrow>
          (case applyMetadata lib rc False (s\<lparr>ks_world := w'\<rparr>) of
             (s1, Some e) \<Rightarrow> (s1, Some e)
           | (s1, None) \<Rightarrow>
               (s1\<lparr>ks_Finalizers := lib_RemoveFinalizer lib (ks_Finalizers s1) (rc_FinalizerName rc)\<rparr>, None)))"

text \<open>What happens after the metadata was applied.\<close>

definition reconcile_run ::
    "k8s_lib \<Rightarrow> clock \<Rightarrow> (nat \<Rightarrow> nat list) \<Rightarrow> ('w, 'c) reconciler \<Rightarrow> 'w kstate \<Rightarrow>
     ('w kstate \<times> go_error option) option" where
  "reconcile_run lib ck sched rc s =
     (case runReconciliations ck sched rc s of
        None \<Rightarrow> None
      | Some (s1, results, err) \<Rightarrow>
          (let s2 = updateConditionsFromResults lib ck results s1;
               s3 = s2\<lparr>ks_ObservedSubResourceGenerations :=
                      rc_SetObservedSubResourceGeneration rc (ks_ObservedSubResourceGenerations s2)
                        (rc_CurrentSubResourceGenerations rc)\<rparr>
           in case applyStatus rc s3 of
                (s4, Some statusErr) \<Rightarrow> Some (s4, Some statusErr)
              | (s4, None) \<Rightarrow> Some (s4, withReadableMessage err)))"

definition Reconcile ::
    "k8s_lib \<Rightarrow> clock \<Rightarrow> (nat \<Rightarrow> nat list) \<Rightarrow> ('w, 'c) reconciler \<Rightarrow> 'w kstate \<Rightarrow>
     ('w kstate \<times> go_error option) option" where
  "Reconcile lib ck sched rc s =
     (let s1 = fst (applyStatus rc (updateStartCondition lib ck s))
      in if ks_DeletionTimestamp s1 \<noteq> None then Some (finalize lib rc s1)
         else
           (case applyMetadata lib rc True s1 of
              (s2, Some e) \<Rightarrow> Some (s2, Some e)
            | (s2, None) \<Rightarrow> reconcile_run lib ck sched rc s2))"

section \<open>Groups: every slot is written by its own goroutine\<close>

definition group_inv :: "'w reconciliation list \<Rightarrow> 'w group_state \<Rightarrow> bool" where
  "group_inv grp g \<longleftrightarrow>
     length (gs_procs g) = length grp \<and> length (gs_slots g) = length grp \<and>
     (\<forall>i < length grp. \<forall>r. gs_slots g ! i = Some r \<longrightarrow>
        rr_Condition r = rec_Condition (grp ! i) \<and> rr_Stop r = None \<and> rr_SkippedBy r = None)"

lemma group_inv_start: "group_inv grp (group_start grp w n)"
  by (simp add: group_inv_def group_start_def)

lemma group_inv_step: "group_inv grp g \<Longrightarrow> group_inv grp (goroutine_step ck grp i g)"
  by (auto simp: group_inv_def goroutine_step_def nth_list_update split: proc.splits prod.splits)

lemma group_inv_run: "group_inv grp g \<Longrightarrow> group_inv grp (group_run ck grp sched g)"
  unfolding group_run_def by (induction sched arbitrary: g) (simp_all add: group_inv_step)

lemma group_slots_conditions:
  assumes "group_inv grp g" and "list_all (\<lambda>r. r \<noteq> None) (gs_slots g)"
  shows "map rr_Condition (map the (gs_slots g)) = map rec_Condition grp"
    and "r \<in> set (map the (gs_slots g)) \<Longrightarrow> rr_Stop r = None \<and> rr_SkippedBy r = None"
proof -
  have l: "length (gs_slots g) = length grp"
    using assms(1) by (simp add: group_inv_def)
  have slot: "\<exists>r. gs_slots g ! i = Some r \<and> rr_Condition r = rec_Condition (grp ! i) \<and>
      rr_Stop r = None \<and> rr_SkippedBy r = None" if "i < length grp" for i
    using assms that l by (auto simp: group_inv_def list_all_length)
  show "map rr_Condition (map the (gs_slots g)) = map rec_Condition grp"
    by (rule nth_equalityI) (use l slot in fastforce)+
  show "rr_Stop r = None \<and> rr_SkippedBy r = None" if "r \<in> set (map the (gs_slots g))"
    using that slot l by (auto simp: in_set_conv_nth) (metis option.sel)+
qed

lemma runReconciliationGroup_results:
  assumes "runReconciliationGroup ck sched grp s = Some (s', raw)"
  shows "map rr_Condition raw = map rec_Condition grp"
    and "r \<in> set raw \<Longrightarrow> rr_Stop r = None \<and> rr_SkippedBy r = None"
    and "\<exists>w n. s' = s\<lparr>ks_world := w, ks_ticks := n\<rparr>"
proof -
  let ?g = "group_run ck grp sched (group_start grp (ks_world s) (ks_ticks s))"
  have inv: "group_inv grp ?g"
    by (intro group_inv_run group_inv_start)
  have a: "list_all (\<lambda>r. r \<noteq> None) (gs_slots ?g)" and raw: "raw = map the (gs_slots ?g)"
    and s': "s' = s\<lparr>ks_world := gs_world ?g, ks_ticks := gs_ticks ?g\<rparr>"
    using assms by (auto simp: runReconciliationGroup_def Let_def split: if_splits)
  show "map rr_Condition raw = map rec_Condition grp"
    unfolding raw by (rule group_slots_conditions(1) [OF inv a])
  show "r \<in> set raw \<Longrightarrow> rr_Stop r = None \<and> rr_SkippedBy r = None"
    unfolding raw by (rule group_slots_conditions(2) [OF inv a])
  show "\<exists>w n. s' = s\<lparr>ks_world := w, ks_ticks := n\<rparr>"
    unfolding s' by blast
qed

section \<open>Groups: a fair scheduler lets every group finish\<close>

definition fair :: "nat \<Rightarrow> (nat \<Rightarrow> nat) \<Rightarrow> bool" where
  "fair n \<sigma> \<longleftrightarrow> (\<forall>i < n. \<forall>t. \<exists>t' \<ge> t. \<sigma> t' = i)"

definition group_at :: "clock \<Rightarrow> 'w reconciliation list \<Rightarrow> (nat \<Rightarrow> nat) \<Rightarrow> 'w group_state \<Rightarrow> nat \<Rightarrow> 'w group_state" where
  "group_at ck grp \<sigma> g t = group_run ck grp (map \<sigma> [0..<t]) g"

lemma group_at_Suc:
  "group_at ck grp \<sigma> g (Suc t) = goroutine_step ck grp (\<sigma> t) (group_at ck grp \<sigma> g t)"
  by (simp add: group_at_def group_run_def)

lemma group_at_inv: "group_inv grp g \<Longrightarrow> group_inv grp (group_at ck grp \<sigma> g t)"
  by (simp add: group_at_def group_inv_run)

lemma goroutine_step_other:
  assumes "i \<noteq> j"
  shows "gs_procs (goroutine_step ck grp i g) ! j = gs_procs g ! j"
    and "gs_slots (goroutine_step ck grp i g) ! j = gs_slots g ! j"
  using assms by (auto simp: goroutine_step_def split: proc.splits prod.splits)

lemma goroutine_step_slot_kept:
  "gs_slots g ! j \<noteq> None \<Longrightarrow> gs_slots (goroutine_step ck grp i g) ! j = gs_slots g ! j"
  by (cases "i = j") (simp_all add: goroutine_step_other, simp add: goroutine_step_def)

lemma slot_kept:
  assumes "gs_slots (group_at ck grp \<sigma> g t) ! j \<noteq> None" and "t \<le> t'"
  shows "gs_slots (group_at ck grp \<sigma> g t') ! j = gs_slots (group_at ck grp \<sigma> g t) ! j"
  using assms(2)
proof (induction rule: dec_induct)
  case (step n)
  then show ?case using assms(1) by (simp add: group_at_Suc goroutine_step_slot_kept)
qed simp

lemma proc_kept_until:
  assumes "\<And>u. t \<le> u \<Longrightarrow> u < t' \<Longrightarrow> \<sigma> u \<noteq> j" and "t \<le> t'"
  shows "gs_procs (group_at ck grp \<sigma> g t') ! j = gs_procs (group_at ck grp \<sigma> g t) ! j \<and>
         gs_slots (group_at ck grp \<sigma> g t') ! j = gs_slots (group_at ck grp \<sigma> g t) ! j"
  using assms(2,1)
  by (induction rule: dec_induct) (auto simp: group_at_Suc goroutine_step_other)

lemma next_turn:
  assumes "fair n \<sigma>" and "i < n"
  obtains t' where "t \<le> t'" and "\<sigma> t' = i" and "\<And>u. t \<le> u \<Longrightarrow> u < t' \<Longrightarrow> \<sigma> u \<noteq> i"
proof -
  define t' where "t' = (LEAST u. t \<le> u \<and> \<sigma> u = i)"
  have ex: "\<exists>u. t \<le> u \<and> \<sigma> u = i"
    using assms by (auto simp: fair_def)
  have "t \<le> t' \<and> \<sigma> t' = i"
    unfolding t'_def by (rule LeastI_ex [OF ex])
  moreover have "\<sigma> u \<noteq> i" if "t \<le> u" "u < t'" for u
    using not_less_Least [of u "\<lambda>u. t \<le> u \<and> \<sigma> u = i"] that by (auto simp: t'_def)
  ultimately show thesis using that by blast
qed

lemma goroutine_finishes:
  assumes "fair (length grp) \<sigma>" and "i < length grp" and "group_inv grp g"
    and "gs_procs (group_at ck grp \<sigma> g t) ! i = p"
  shows "\<exists>t'. gs_slots (group_at ck grp \<sigma> g t') ! i \<noteq> None"
  using assms(4)
proof (induction p arbitrary: t)
  case (Done e)
  obtain t' where t': "t \<le> t'" "\<sigma> t' = i" "\<And>u. t \<le> u \<Longrightarrow> u < t' \<Longrightarrow> \<sigma> u \<noteq> i"
    using next_turn [OF assms(1,2), of t] by metis
  let ?g = "group_at ck grp \<sigma> g t'"
  have "gs_procs ?g ! i = Done e"
    using proc_kept_until [of t t' \<sigma> i ck grp g, OF t'(3,1)] Done by simp
  moreover have "length (gs_slots ?g) = length grp"
    using group_at_inv [OF assms(3)] by (simp add: group_inv_def)
  ultimately have "gs_slots (group_at ck grp \<sigma> g (Suc t')) ! i \<noteq> None"
    using assms(2) t'(2) by (auto simp: group_at_Suc goroutine_step_def)
  then show ?case by blast
next
  case (Step f)
  obtain t' where t': "t \<le> t'" "\<sigma> t' = i" "\<And>u. t \<le> u \<Longrightarrow> u < t' \<Longrightarrow> \<sigma> u \<noteq> i"
    using next_turn [OF assms(1,2), of t] by metis
  let ?g = "group_at ck grp \<sigma> g t'"
  have p: "gs_procs ?g ! i = Step f"
    using proc_kept_until [of t t' \<sigma> i ck grp g, OF t'(3,1)] Step.prems by simp
  have l: "length (gs_procs ?g) = length grp"
    using group_at_inv [OF assms(3)] by (simp add: group_inv_def)
  show ?case
  proof (cases "gs_slots ?g ! i = None")
    case True
    obtain w' p' where f: "f (gs_world ?g) = (w', p')" by fastforce
    have "gs_procs (group_at ck grp \<sigma> g (Suc t')) ! i = p'"
      using assms(2) t'(2) p l True f by (simp add: group_at_Suc goroutine_step_def)
    moreover have "p' \<in> Basic_BNFs.snds (f (gs_world ?g))" using f by simp
    ultimately show ?thesis using Step.IH f by (metis rangeI)
  qed blast
qed

lemma group_finishes:
  assumes "fair (length grp) \<sigma>"
  shows "\<exists>t. runReconciliationGroup ck (map \<sigma> [0..<t]) grp s \<noteq> None"
proof -
  let ?g = "group_start grp (ks_world s) (ks_ticks s)"
  have inv: "group_inv grp ?g" by (rule group_inv_start)
  have "\<exists>t. \<forall>i < m. gs_slots (group_at ck grp \<sigma> ?g t) ! i \<noteq> None" if "m \<le> length grp" for m
    using that
  proof (induction m)
    case (Suc m)
    then obtain t where t: "\<forall>i < m. gs_slots (group_at ck grp \<sigma> ?g t) ! i \<noteq> None" by auto
    obtain t' where t': "gs_slots (group_at ck grp \<sigma> ?g t') ! m \<noteq> None"
      using goroutine_finishes [OF assms _ inv refl] Suc.prems by (meson Suc_le_eq)
    have "gs_slots (group_at ck grp \<sigma> ?g (max t t')) ! i \<noteq> None" if "i < Suc m" for i
    proof (cases "i = m")
      case True
      then show ?thesis using t' slot_kept [of ck grp \<sigma> ?g t' i "max t t'"] by simp
    next
      case False
      then have "gs_slots (group_at ck grp \<sigma> ?g t) ! i \<noteq> None"
        using that t by simp
      then show ?thesis using slot_kept [of ck grp \<sigma> ?g t i "max t t'"] by simp
    qed
    then show ?case by blast
  qed simp
  then obtain t where "\<forall>i < length grp. gs_slots (group_at ck grp \<sigma> ?g t) ! i \<noteq> None" by blast
  moreover have "length (gs_slots (group_at ck grp \<sigma> ?g t)) = length grp"
    using group_at_inv [OF inv] by (simp add: group_inv_def)
  ultimately have "list_all (\<lambda>r. r \<noteq> None) (gs_slots (group_at ck grp \<sigma> ?g t))"
    by (simp add: list_all_length)
  then show ?thesis
    by (auto simp: runReconciliationGroup_def group_at_def Let_def)
qed

lemma run_groups_cong:
  assumes "\<And>j. k \<le> j \<Longrightarrow> sched j = sched' j"
  shows "run_groups ck sched k groups s = run_groups ck sched' k groups s"
  using assms
proof (induction groups arbitrary: k s)
  case (Cons grp groups)
  have "sched k = sched' k" by (rule Cons.prems) simp
  moreover have "run_groups ck sched (Suc k) groups s' = run_groups ck sched' (Suc k) groups s'" for s'
    by (rule Cons.IH) (simp add: Cons.prems)
  ultimately show ?case by (auto split: option.split prod.split)
qed simp

lemma run_groups_finishes:
  assumes "\<And>k. fair n (\<sigma> k)" and "\<And>g. g \<in> set groups \<Longrightarrow> length g \<le> n"
  shows "\<exists>N. run_groups ck (\<lambda>j. map (\<sigma> j) [0..<N j]) k groups s \<noteq> None"
  using assms(2)
proof (induction groups arbitrary: k s)
  case Nil
  then show ?case by simp
next
  case (Cons grp groups)
  have "fair (length grp) (\<sigma> k)"
    using assms(1) [of k] Cons.prems [of grp] by (simp add: fair_def)
  then obtain t where t: "runReconciliationGroup ck (map (\<sigma> k) [0..<t]) grp s \<noteq> None"
    using group_finishes by blast
  then obtain s1 raw where r: "runReconciliationGroup ck (map (\<sigma> k) [0..<t]) grp s = Some (s1, raw)"
    by auto
  obtain N where N: "run_groups ck (\<lambda>j. map (\<sigma> j) [0..<N j]) (Suc k) groups s1 \<noteq> None"
    using Cons.IH [of "Suc k" s1] Cons.prems by auto
  let ?N = "N(k := t)"
  have "run_groups ck (\<lambda>j. map (\<sigma> j) [0..<?N j]) (Suc k) groups s1 =
        run_groups ck (\<lambda>j. map (\<sigma> j) [0..<N j]) (Suc k) groups s1"
    by (rule run_groups_cong) simp
  with N r have "run_groups ck (\<lambda>j. map (\<sigma> j) [0..<?N j]) k (grp # groups) s \<noteq> None"
    by (auto split: prod.splits option.splits)
  then show ?case by blast
qed

section \<open>Results: what ran, what was skipped, what failed\<close>

abbreviation result_errors :: "reconciliation_result list \<Rightarrow> go_error list" where
  "result_errors rs \<equiv> List.map_filter rr_Error rs"

lemma result_errors_Nil: "result_errors rs = [] \<longleftrightarrow> (\<forall>r \<in> set rs. rr_Error r = None)"
  by (induction rs) (auto simp: List.map_filter_simps split: option.splits)

lemma result_errors_append [simp]: "result_errors (rs @ ts) = result_errors rs @ result_errors ts"
  by (induction rs) (auto simp: List.map_filter_simps split: option.splits)

lemma set_result_errors: "set (result_errors rs) = {e. \<exists>r \<in> set rs. rr_Error r = Some e}"
  by (induction rs) (auto simp: List.map_filter_simps split: option.splits)

lemma first_stop_simps [simp]:
  "first_stop [] = None"
  "first_stop (r # rs) = (case rr_Stop r of Some m \<Rightarrow> Some m | None \<Rightarrow> first_stop rs)"
  by (simp_all add: first_stop_def split: option.splits)

lemma first_stop_append [simp]:
  "first_stop (rs @ ts) = (case first_stop rs of Some m \<Rightarrow> Some m | None \<Rightarrow> first_stop ts)"
  by (induction rs) (auto split: option.splits)

lemma process_group_spec:
  assumes "process_group raw = (rs, stop, errs)"
    and "\<And>r. r \<in> set raw \<Longrightarrow> rr_Stop r = None \<and> rr_SkippedBy r = None"
  shows "map rr_Condition rs = map rr_Condition raw \<and> errs = result_errors rs \<and>
         stop = first_stop rs \<and> (\<forall>r \<in> set rs. rr_SkippedBy r = None)"
  using assms
proof (induction raw arbitrary: rs stop errs)
  case (Cons r raw)
  obtain rs' stop' errs' where p: "process_group raw = (rs', stop', errs')"
    using prod_cases3 by blast
  have ih: "map rr_Condition rs' = map rr_Condition raw \<and> errs' = result_errors rs' \<and>
      stop' = first_stop rs' \<and> (\<forall>r \<in> set rs'. rr_SkippedBy r = None)"
    by (rule Cons.IH [OF p]) (simp add: Cons.prems)
  show ?case
    using Cons.prems ih by (auto simp: p List.map_filter_simps split: option.splits)
qed simp

text \<open>
  What a finished run looks like: the groups \<open>ran\<close> were executed with results \<open>exec\<close>, the groups
  \<open>rest\<close> were not; \<open>skip\<close> are the results of skipped reconciliations. Only the last executed group
  can have failed or stopped the run.
\<close>

definition run_spec ::
    "'w reconciliation list list \<Rightarrow> reconciliation_result list \<Rightarrow> go_error list \<Rightarrow> bool" where
  "run_spec groups results errs \<longleftrightarrow>
     (\<exists>ran rest exec skip.
        groups = ran @ rest \<and> results = exec @ skip \<and>
        map rr_Condition exec = map rec_Condition (concat ran) \<and>
        (\<forall>r \<in> set exec. rr_SkippedBy r = None) \<and>
        (\<forall>r \<in> set (take (length (concat (butlast ran))) exec). rr_Error r = None \<and> rr_Stop r = None) \<and>
        errs = result_errors exec \<and>
        (if errs \<noteq> [] then skip = []
         else
           (case first_stop exec of
              None \<Rightarrow> rest = [] \<and> skip = []
            | Some m \<Rightarrow>
                map rr_Condition skip = map rec_Condition (concat rest) \<and>
                (\<forall>r \<in> set skip. rr_SkippedBy r = Some m \<and> rr_Error r = None \<and> rr_Stop r = None))))"

lemma first_stop_None: "first_stop rs = None \<longleftrightarrow> (\<forall>r \<in> set rs. rr_Stop r = None)"
  by (induction rs) (auto split: option.splits)

lemma run_spec_next:
  assumes "map rr_Condition rs = map rec_Condition grp" and "\<forall>r \<in> set rs. rr_SkippedBy r = None"
    and "result_errors rs = []" and "first_stop rs = None" and "run_spec groups results errs"
  shows "run_spec (grp # groups) (rs @ results) errs"
proof -
  obtain ran rest exec skip where h:
      "groups = ran @ rest" "results = exec @ skip"
      "map rr_Condition exec = map rec_Condition (concat ran)"
      "\<forall>r \<in> set exec. rr_SkippedBy r = None"
      "\<forall>r \<in> set (take (length (concat (butlast ran))) exec). rr_Error r = None \<and> rr_Stop r = None"
      "errs = result_errors exec"
      "if errs \<noteq> [] then skip = []
       else (case first_stop exec of
               None \<Rightarrow> rest = [] \<and> skip = []
             | Some m \<Rightarrow> map rr_Condition skip = map rec_Condition (concat rest) \<and>
                 (\<forall>r \<in> set skip. rr_SkippedBy r = Some m \<and> rr_Error r = None \<and> rr_Stop r = None))"
    using assms(5) unfolding run_spec_def by blast
  have "length rs = length grp" using assms(1) by (metis length_map)
  then have clean: "\<forall>r \<in> set (take (length (concat (butlast (grp # ran)))) (rs @ exec)).
      rr_Error r = None \<and> rr_Stop r = None"
    using h(5) assms(3,4) by (auto simp: result_errors_Nil first_stop_None)
  have split: "grp # groups = (grp # ran) @ rest" "rs @ results = (rs @ exec) @ skip"
      "map rr_Condition (rs @ exec) = map rec_Condition (concat (grp # ran))"
      "\<forall>r \<in> set (rs @ exec). rr_SkippedBy r = None" "errs = result_errors (rs @ exec)"
      "first_stop (rs @ exec) = first_stop exec"
    using h(1-4,6) assms(1-4) by auto
  show ?thesis
    unfolding run_spec_def
    by (rule exI [of _ "grp # ran"], rule exI [of _ rest], rule exI [of _ "rs @ exec"], rule exI [of _ skip],
        intro conjI, rule split(1), rule split(2), rule split(3), rule split(4), rule clean, rule split(5),
        unfold split(6), rule h(7))
qed

lemma run_groups_spec:
  assumes "run_groups ck sched k groups s = Some (s', results, errs)"
  shows "run_spec groups results errs"
  using assms
proof (induction ck sched k groups s arbitrary: results errs rule: run_groups.induct)
  case (1 ck sched k s)
  then show ?case by (auto simp: run_spec_def List.map_filter_simps)
next
  case (2 ck sched k grp groups s)
  obtain s1 raw where raw: "runReconciliationGroup ck (sched k) grp s = Some (s1, raw)"
    using "2.prems" by (auto split: option.splits)
  obtain rs stop es where p: "process_group raw = (rs, stop, es)"
    using prod_cases3 by blast
  have spec: "map rr_Condition rs = map rec_Condition grp" "es = result_errors rs"
      "stop = first_stop rs" "\<forall>r \<in> set rs. rr_SkippedBy r = None"
    using process_group_spec [OF p runReconciliationGroup_results(2) [OF raw]]
      runReconciliationGroup_results(1) [OF raw] by auto
  consider (failed) "es \<noteq> []" | (stopped) m where "es = []" "stop = Some m" | (next_group) "es = []" "stop = None"
    by (cases stop) auto
  then show ?case
  proof cases
    case failed
    then have r: "results = rs" "errs = es" using "2.prems" by (simp_all add: raw p)
    show ?thesis
      unfolding run_spec_def
      by (rule exI [of _ "[grp]"], rule exI [of _ groups], rule exI [of _ rs], rule exI [of _ "[]"])
        (use r spec failed in auto)
  next
    case stopped
    then have r: "results = rs @ skippedResults (ck_Now ck (ks_ticks s1)) groups m" "errs = []"
      using "2.prems" by (simp_all add: raw p)
    show ?thesis
      unfolding run_spec_def
      by (rule exI [of _ "[grp]"], rule exI [of _ groups], rule exI [of _ rs],
          rule exI [of _ "skippedResults (ck_Now ck (ks_ticks s1)) groups m"])
        (use r spec(1,4) spec(2,3) [symmetric] stopped in \<open>auto simp: skippedResults_def comp_def\<close>)
  next
    case next_group
    then obtain results' where r: "run_groups ck sched (Suc k) groups s1 = Some (s', results', errs)"
        "results = rs @ results'"
      using "2.prems" by (auto simp: raw p split: option.splits)
    have "run_spec groups results' errs"
      by (rule "2.IH" [OF raw refl p [symmetric] refl]) (use next_group r in auto)
    then show ?thesis
      unfolding r(2) by (rule run_spec_next [rotated -1]) (use spec next_group in auto)
  qed
qed

lemma run_spec_errors:
  assumes "run_spec groups results errs"
  shows "errs = result_errors results"
  using assms
  by (auto simp: run_spec_def result_errors_Nil eq_commute [of "[]" "result_errors _"]
      split: if_splits option.splits)

section \<open>Conditions\<close>

definition cond_same :: "condition \<Rightarrow> condition \<Rightarrow> bool" where
  "cond_same c' c \<longleftrightarrow> cond_Status c' = cond_Status c \<and> cond_Reason c' = cond_Reason c \<and>
     cond_Message c' = cond_Message c \<and> cond_ObservedGeneration c' = cond_ObservedGeneration c"

lemma set_condition_hit:
  assumes "set_condition_law lib"
  obtains c' where "find_condition (cond_Type c) (lib_SetStatusCondition lib cs c) = Some c'"
    and "cond_same c' c"
  using assms unfolding set_condition_law_def cond_same_def by blast

lemma set_condition_miss:
  assumes "set_condition_law lib" and "t \<noteq> cond_Type c"
  shows "find_condition t (lib_SetStatusCondition lib cs c) = find_condition t cs"
  using assms unfolding set_condition_law_def by blast

text \<open>After a sequence of writes the entry of a type is one of the conditions written for it.\<close>

lemma set_conditions_fold:
  assumes "set_condition_law lib" and "t \<in> cond_Type ` set L"
  shows "\<exists>c \<in> set L. cond_Type c = t \<and>
           (\<exists>c'. find_condition t (foldl (lib_SetStatusCondition lib) cs L) = Some c' \<and> cond_same c' c)"
  using assms(2)
proof (induction L rule: rev_induct)
  case (snoc c L)
  show ?case
  proof (cases "t = cond_Type c")
    case True
    then show ?thesis
      using set_condition_hit [OF assms(1), of c "foldl (lib_SetStatusCondition lib) cs L"] by auto
  next
    case False
    then have "t \<in> cond_Type ` set L" using snoc.prems by auto
    then show ?thesis using snoc.IH False by (auto simp: set_condition_miss [OF assms(1)])
  qed
qed simp

lemma conditionFromResult_simps:
  "cond_Type (conditionFromResult ck r) = rr_Condition r"
  "rr_Error r = None \<Longrightarrow> rr_SkippedBy r = None \<Longrightarrow>
     cond_Status (conditionFromResult ck r) = ConditionTrue"
  "rr_Error r = None \<Longrightarrow> rr_Stop r = None \<Longrightarrow> rr_SkippedBy r \<noteq> None \<Longrightarrow>
     cond_Status (conditionFromResult ck r) = ConditionUnknown \<and>
     cond_Reason (conditionFromResult ck r) = ReasonSkipped"
  "rr_Error r = Some e \<Longrightarrow> cond_Status (conditionFromResult ck r) = ConditionFalse"
  "cond_Status (conditionFromResult ck r) = ConditionFalse \<longleftrightarrow> rr_Error r \<noteq> None"
  by (auto simp: conditionFromResult_def Let_def split: option.splits)

lemma ready_condition_simps:
  "cond_Type (ready_condition ck n g rs) = TypeReady"
  "cond_ObservedGeneration (ready_condition ck n g rs) = g"
  "cond_Status (ready_condition ck n g rs) =
     (if result_errors rs = [] then ConditionTrue else ConditionFalse)"
  "cond_Reason (ready_condition ck n g rs) =
     (if result_errors rs = [] then ReasonReconcileCompleted
      else if RequiresUserAction (errors_Join (result_errors rs)) then ReasonUserActionRequired
      else ReasonReconcileFailed)"
proof -
  have all: "list_all (\<lambda>r. rr_Error r = None) rs \<longleftrightarrow> result_errors rs = []"
    by (simp add: list_all_iff result_errors_Nil)
  have ua: "list_all (\<lambda>r. rr_Error r = None \<or> RequiresUserAction (rr_Error r)) rs \<longleftrightarrow>
      RequiresUserAction (errors_Join (result_errors rs))" if "result_errors rs \<noteq> []"
    unfolding requires_user_action_join set_result_errors using that
    by (force simp: list_all_iff RequiresUserAction_def split: option.splits)
  show "cond_Type (ready_condition ck n g rs) = TypeReady"
    "cond_ObservedGeneration (ready_condition ck n g rs) = g"
    by (simp_all add: ready_condition_def Let_def split: option.split)
  show "cond_Status (ready_condition ck n g rs) =
      (if result_errors rs = [] then ConditionTrue else ConditionFalse)"
    by (simp add: ready_condition_def Let_def all split: option.split)
  show "cond_Reason (ready_condition ck n g rs) =
     (if result_errors rs = [] then ReasonReconcileCompleted
      else if RequiresUserAction (errors_Join (result_errors rs)) then ReasonUserActionRequired
      else ReasonReconcileFailed)"
    using ua by (simp add: ready_condition_def Let_def all split: option.split)
qed

lemma updateConditions_ready:
  assumes "set_condition_law lib"
  shows "\<exists>c. find_condition TypeReady (ks_Conditions (updateConditionsFromResults lib ck rs s)) = Some c \<and>
           cond_same c (ready_condition ck (ks_ticks s) (ks_Generation s) rs)"
  using set_condition_hit [OF assms, of "ready_condition ck (ks_ticks s) (ks_Generation s) rs"]
  by (auto simp: updateConditionsFromResults_def Let_def ready_condition_simps)

lemma updateConditions_component:
  assumes "set_condition_law lib" and "t \<in> rr_Condition ` set rs" and "t \<noteq> TypeReady"
  shows "\<exists>r \<in> set rs. rr_Condition r = t \<and>
           (\<exists>c. find_condition t (ks_Conditions (updateConditionsFromResults lib ck rs s)) = Some c \<and>
                cond_same c (conditionFromResult ck r))"
proof -
  have "t \<in> cond_Type ` set (map (conditionFromResult ck) rs)"
    using assms(2) by (auto simp: image_image conditionFromResult_simps(1))
  from set_conditions_fold [OF assms(1) this, of "ks_Conditions s"] show ?thesis
    by (auto simp: updateConditionsFromResults_def Let_def set_condition_miss [OF assms(1)]
        ready_condition_simps(1) assms(3) conditionFromResult_simps(1))
qed

section \<open>Frame lemmas of the process\<close>

lemma applyStatus_frame [simp]:
  "ks_Conditions (fst (applyStatus rc s)) = ks_Conditions s"
  "ks_Generation (fst (applyStatus rc s)) = ks_Generation s"
  "ks_DeletionTimestamp (fst (applyStatus rc s)) = ks_DeletionTimestamp s"
  "ks_Finalizers (fst (applyStatus rc s)) = ks_Finalizers s"
  "ks_ObservedSubResourceGenerations (fst (applyStatus rc s)) = ks_ObservedSubResourceGenerations s"
  by (simp_all add: applyStatus_def split: prod.split)

lemma applyMetadata_frame [simp]:
  "ks_Conditions (fst (applyMetadata lib rc b s)) = ks_Conditions s"
  "ks_Generation (fst (applyMetadata lib rc b s)) = ks_Generation s"
  "ks_DeletionTimestamp (fst (applyMetadata lib rc b s)) = ks_DeletionTimestamp s"
  "ks_ObservedSubResourceGenerations (fst (applyMetadata lib rc b s)) = ks_ObservedSubResourceGenerations s"
  by (simp_all add: applyMetadata_def Let_def split: prod.split option.split)

lemma updateStartCondition_frame [simp]:
  "ks_Generation (updateStartCondition lib ck s) = ks_Generation s"
  "ks_DeletionTimestamp (updateStartCondition lib ck s) = ks_DeletionTimestamp s"
  "ks_ObservedSubResourceGenerations (updateStartCondition lib ck s) = ks_ObservedSubResourceGenerations s"
  "ks_Finalizers (updateStartCondition lib ck s) = ks_Finalizers s"
  "ks_world (updateStartCondition lib ck s) = ks_world s"
  by (simp_all add: updateStartCondition_def)

lemma updateConditions_frame [simp]:
  "ks_Generation (updateConditionsFromResults lib ck rs s) = ks_Generation s"
  "ks_Finalizers (updateConditionsFromResults lib ck rs s) = ks_Finalizers s"
  "ks_DeletionTimestamp (updateConditionsFromResults lib ck rs s) = ks_DeletionTimestamp s"
  "ks_ObservedSubResourceGenerations (updateConditionsFromResults lib ck rs s) = ks_ObservedSubResourceGenerations s"
  by (simp_all add: updateConditionsFromResults_def Let_def)

text \<open>A run of the groups changes the world and reads the clock, nothing else.\<close>

definition same_meta :: "'w kstate \<Rightarrow> 'w kstate \<Rightarrow> bool" where
  "same_meta s' s \<longleftrightarrow> s' = s\<lparr>ks_world := ks_world s', ks_ticks := ks_ticks s'\<rparr>"

lemma same_meta_fields:
  "same_meta s' s \<Longrightarrow> ks_Conditions s' = ks_Conditions s \<and> ks_Generation s' = ks_Generation s \<and>
     ks_DeletionTimestamp s' = ks_DeletionTimestamp s \<and> ks_Finalizers s' = ks_Finalizers s \<and>
     ks_ObservedSubResourceGenerations s' = ks_ObservedSubResourceGenerations s"
  by (cases s; cases s') (simp add: same_meta_def)

lemma same_meta_trans: "same_meta s2 s1 \<Longrightarrow> same_meta s1 s \<Longrightarrow> same_meta s2 s"
  by (cases s; cases s1; cases s2) (simp add: same_meta_def)

lemma run_groups_frame:
  "run_groups ck sched k groups s = Some (s', results, errs) \<Longrightarrow> same_meta s' s"
proof (induction ck sched k groups s arbitrary: results errs rule: run_groups.induct)
  case (1 ck sched k s)
  then show ?case by (simp add: same_meta_def)
next
  case (2 ck sched k grp groups s)
  obtain s1 raw where raw: "runReconciliationGroup ck (sched k) grp s = Some (s1, raw)"
    using "2.prems" by (auto split: option.splits)
  obtain rs stop es where p: "process_group raw = (rs, stop, es)"
    using prod_cases3 by blast
  have s1: "same_meta s1 s"
    using runReconciliationGroup_results(3) [OF raw] by (auto simp: same_meta_def)
  have "same_meta s' s1"
  proof (cases "es = [] \<and> stop = None")
    case True
    then obtain r where r: "run_groups ck sched (Suc k) groups s1 = Some (s', r, errs)"
      using "2.prems" by (auto simp: raw p split: option.splits)
    show ?thesis
      by (rule "2.IH" [OF raw refl p [symmetric] refl]) (use True r in auto)
  next
    case False
    then show ?thesis
      using "2.prems" by (auto simp: raw p same_meta_def split: if_splits)
  qed
  then show ?case using s1 same_meta_trans by blast
qed

section \<open>Properties\<close>

text \<open>The state in which the reconciliations start.\<close>

definition started :: "k8s_lib \<Rightarrow> clock \<Rightarrow> ('w, 'c) reconciler \<Rightarrow> 'w kstate \<Rightarrow> 'w kstate" where
  "started lib ck rc s = fst (applyStatus rc (updateStartCondition lib ck s))"

definition prepared :: "k8s_lib \<Rightarrow> clock \<Rightarrow> ('w, 'c) reconciler \<Rightarrow> 'w kstate \<Rightarrow> 'w kstate" where
  "prepared lib ck rc s = fst (applyMetadata lib rc True (started lib ck rc s))"

lemma started_frame [simp]:
  "ks_Generation (started lib ck rc s) = ks_Generation s"
  "ks_DeletionTimestamp (started lib ck rc s) = ks_DeletionTimestamp s"
  "ks_Finalizers (started lib ck rc s) = ks_Finalizers s"
  "ks_ObservedSubResourceGenerations (started lib ck rc s) = ks_ObservedSubResourceGenerations s"
  by (simp_all add: started_def)

lemma prepared_frame [simp]:
  "ks_Generation (prepared lib ck rc s) = ks_Generation s"
  "ks_DeletionTimestamp (prepared lib ck rc s) = ks_DeletionTimestamp s"
  "ks_ObservedSubResourceGenerations (prepared lib ck rc s) = ks_ObservedSubResourceGenerations s"
  by (simp_all add: prepared_def)

lemma Reconcile_cases:
  assumes "Reconcile lib ck sched rc s = Some (s', err)"
  obtains (deleting) "ks_DeletionTimestamp s \<noteq> None" "finalize lib rc (started lib ck rc s) = (s', err)"
  | (metadata) "ks_DeletionTimestamp s = None" "s' = prepared lib ck rc s" "err \<noteq> None"
      "snd (applyMetadata lib rc True (started lib ck rc s)) = err"
  | (run) "ks_DeletionTimestamp s = None" "reconcile_run lib ck sched rc (prepared lib ck rc s) = Some (s', err)"
      "snd (applyMetadata lib rc True (started lib ck rc s)) = None"
  using assms
  by (cases "ks_DeletionTimestamp s"; cases "applyMetadata lib rc True (started lib ck rc s)")
    (auto simp: Reconcile_def Let_def started_def [symmetric] prepared_def split: option.splits)

lemma reconcile_run_cases:
  assumes "reconcile_run lib ck sched rc s = Some (s', err)"
  obtains s1 results errs where
    "run_groups ck sched 0 (rc_RequiredReconciliations rc (ks_world s)) s = Some (s1, results, errs)"
    "run_spec (rc_RequiredReconciliations rc (ks_world s)) results errs"
    "errs = result_errors results" "same_meta s1 s"
    "ks_Conditions s' = ks_Conditions (updateConditionsFromResults lib ck results s1)"
    "ks_ObservedSubResourceGenerations s' =
       rc_SetObservedSubResourceGeneration rc (ks_ObservedSubResourceGenerations s) (rc_CurrentSubResourceGenerations rc)"
    "ks_Generation s' = ks_Generation s" "ks_Finalizers s' = ks_Finalizers s"
    "err = withReadableMessage (errors_Join errs) \<or>
     (err \<noteq> None \<and> (\<exists>c w. snd (rc_StatusApply rc c w) = err))"
proof -
  obtain s1 results errs where r:
      "run_groups ck sched 0 (rc_RequiredReconciliations rc (ks_world s)) s = Some (s1, results, errs)"
    using assms by (auto simp: reconcile_run_def runReconciliations_def split: option.splits)
  let ?s3 = "(updateConditionsFromResults lib ck results s1)
    \<lparr>ks_ObservedSubResourceGenerations :=
        rc_SetObservedSubResourceGeneration rc (ks_ObservedSubResourceGenerations s1)
          (rc_CurrentSubResourceGenerations rc)\<rparr>"
  obtain s4 e where a: "applyStatus rc ?s3 = (s4, e)" by fastforce
  have s': "s' = s4" and err: "err = (case e of None \<Rightarrow> withReadableMessage (errors_Join errs) | Some x \<Rightarrow> Some x)"
    using assms by (auto simp: reconcile_run_def runReconciliations_def r a Let_def split: option.splits)
  have m: "same_meta s1 s" by (rule run_groups_frame [OF r])
  have f: "ks_Conditions s4 = ks_Conditions ?s3" "ks_Generation s4 = ks_Generation ?s3"
      "ks_Finalizers s4 = ks_Finalizers ?s3"
      "ks_ObservedSubResourceGenerations s4 = ks_ObservedSubResourceGenerations ?s3"
    using applyStatus_frame [of rc ?s3] unfolding a by simp_all
  have "\<exists>c w. snd (rc_StatusApply rc c w) = e"
    using a by (auto simp: applyStatus_def split: prod.splits) (metis snd_conv)
  then show thesis
    using that [OF r run_groups_spec [OF r] run_spec_errors [OF run_groups_spec [OF r]] m] f err m
    by (auto simp: s' same_meta_fields split: option.splits)
qed

lemma applyMetadata_accepted:
  assumes "\<forall>c w. snd (rc_ClientApply rc c w) = None"
  shows "snd (applyMetadata lib rc b s) = None"
proof -
  let ?c = "rc_BuildMetadataApplyConfig rc
    (lib_labels_Merge lib managed_by_label (rc_GetAdditionalLabels rc (ks_world s)))
    (if b then [rc_FinalizerName rc] else [])"
  obtain w' where "rc_ClientApply rc ?c (ks_world s) = (w', None)"
    using assms by (metis prod.collapse)
  then show ?thesis by (simp add: applyMetadata_def Let_def)
qed

lemma run_spec_conditions:
  assumes "run_spec groups results []"
  shows "map rr_Condition results = map rec_Condition (concat groups)"
  using assms by (fastforce simp: run_spec_def split: option.splits)

text \<open>A finished run reports on the reconciliations it executed and on those it skipped, each
  once and in order, whatever the schedule: the groups are executed up to the first one in which
  a reconciliation fails or stops the run; a failed run returns the errors of that group joined
  and leaves the later groups out; a stopped run marks exactly the later groups as skipped, with
  the message of the first stop.\<close>

lemma run_coverage:
  assumes "runReconciliations ck sched rc s = Some (s', results, err)"
  shows "\<exists>errs. err = errors_Join errs \<and> errs = result_errors results \<and>
           run_spec (rc_RequiredReconciliations rc (ks_world s)) results errs"
proof -
  obtain errs where r: "run_groups ck sched 0 (rc_RequiredReconciliations rc (ks_world s)) s = Some (s', results, errs)"
      and e: "err = errors_Join errs"
    using assms by (auto simp: runReconciliations_def split: option.splits)
  show ?thesis using e run_groups_spec [OF r] run_spec_errors by blast
qed

text \<open>What a run that returns nil leaves behind.\<close>

lemma nil_run_ready:
  assumes "set_condition_law lib" and "ks_DeletionTimestamp s = None"
    and "Reconcile lib ck sched rc s = Some (s', None)"
  shows "(\<exists>c. find_condition TypeReady (ks_Conditions s') = Some c \<and> cond_Status c = ConditionTrue \<and>
            cond_Reason c = ReasonReconcileCompleted \<and> cond_ObservedGeneration c = ks_Generation s) \<and>
         ks_ObservedSubResourceGenerations s' =
           rc_SetObservedSubResourceGeneration rc (ks_ObservedSubResourceGenerations s)
             (rc_CurrentSubResourceGenerations rc) \<and>
         (\<forall>r \<in> set (concat (rc_RequiredReconciliations rc (ks_world (prepared lib ck rc s)))).
            \<exists>c. find_condition (rec_Condition r) (ks_Conditions s') = Some c \<and> cond_Status c \<noteq> ConditionFalse)"
  using assms(3)
proof (cases rule: Reconcile_cases)
  case run
  let ?s = "prepared lib ck rc s"
  from run(2) obtain s1 results errs where r:
      "run_spec (rc_RequiredReconciliations rc (ks_world ?s)) results errs"
      "errs = result_errors results" "same_meta s1 ?s"
      "ks_Conditions s' = ks_Conditions (updateConditionsFromResults lib ck results s1)"
      "ks_ObservedSubResourceGenerations s' =
         rc_SetObservedSubResourceGeneration rc (ks_ObservedSubResourceGenerations s)
           (rc_CurrentSubResourceGenerations rc)"
      "None = withReadableMessage (errors_Join errs)"
    by (cases rule: reconcile_run_cases) auto
  have e: "errs = []" using r(6) by (metis withReadableMessage_None errors_Join_simps(3))
  then have re: "result_errors results = []" using r(2) by simp
  have g: "ks_Generation s1 = ks_Generation s" using same_meta_fields [OF r(3)] by simp
  have ready: "\<exists>c. find_condition TypeReady (ks_Conditions s') = Some c \<and> cond_Status c = ConditionTrue \<and>
      cond_Reason c = ReasonReconcileCompleted \<and> cond_ObservedGeneration c = ks_Generation s"
    using updateConditions_ready [OF assms(1), of ck results s1] re
    by (auto simp: r(4) cond_same_def ready_condition_simps g)
  have "\<exists>c. find_condition (rec_Condition x) (ks_Conditions s') = Some c \<and> cond_Status c \<noteq> ConditionFalse"
    if "x \<in> set (concat (rc_RequiredReconciliations rc (ks_world ?s)))" for x
  proof (cases "rec_Condition x = TypeReady")
    case True
    then show ?thesis using ready by auto
  next
    case False
    have "rec_Condition x \<in> set (map rr_Condition results)"
      unfolding run_spec_conditions [OF r(1) [unfolded e]] using that by auto
    then have "rec_Condition x \<in> rr_Condition ` set results" by simp
    from updateConditions_component [OF assms(1) this False, of ck s1] show ?thesis
      using re by (auto simp: r(4) cond_same_def result_errors_Nil conditionFromResult_simps(5))
  qed
  then show ?thesis using ready r(5) by blast
qed (use assms(2) in auto)

text \<open>C4: if \<open>Reconcile\<close> returns nil for a resource that is not being deleted, its Ready
  condition is True for the current generation, the generations of its sub-resources are
  recorded, and no required component is reported as failed.\<close>

theorem reconcile_nil_ready:
  assumes "set_condition_law lib" and "ks_DeletionTimestamp s = None"
    and "Reconcile lib ck sched rc s = Some (s', None)"
  shows "(\<exists>c. find_condition TypeReady (ks_Conditions s') = Some c \<and> cond_Status c = ConditionTrue \<and>
            cond_Reason c = ReasonReconcileCompleted \<and> cond_ObservedGeneration c = ks_Generation s) \<and>
         ks_ObservedSubResourceGenerations s' =
           rc_SetObservedSubResourceGeneration rc (ks_ObservedSubResourceGenerations s)
             (rc_CurrentSubResourceGenerations rc) \<and>
         (\<forall>r \<in> set (concat (rc_RequiredReconciliations rc (ks_world (prepared lib ck rc s)))).
            \<exists>c. find_condition (rec_Condition r) (ks_Conditions s') = Some c \<and> cond_Status c \<noteq> ConditionFalse)"
  by (rule nil_run_ready [OF assms])

text \<open>C5: when the API server accepts the writes, the Ready condition and the returned error agree:
  an error means Ready is False, and Ready asks for user action exactly if the error the
  controller sees does, so the status and the requeue decision never disagree.\<close>

theorem reconcile_error_class:
  assumes "set_condition_law lib" and "ks_DeletionTimestamp s = None"
    and "\<forall>c w. snd (rc_StatusApply rc c w) = None" and "\<forall>c w. snd (rc_ClientApply rc c w) = None"
    and "Reconcile lib ck sched rc s = Some (s', Some e)"
  shows "\<exists>c. find_condition TypeReady (ks_Conditions s') = Some c \<and> cond_Status c = ConditionFalse \<and>
           cond_Reason c = (if RequiresUserAction (Some e) then ReasonUserActionRequired else ReasonReconcileFailed)"
  using assms(5)
proof (cases rule: Reconcile_cases)
  case metadata
  then show ?thesis using applyMetadata_accepted [OF assms(4)] by simp
next
  case run
  from run(2) show ?thesis
  proof (cases rule: reconcile_run_cases)
    case (1 s1 results errs)
    have e: "Some e = withReadableMessage (errors_Join errs)"
      using 1(9) assms(3) by auto
    have ne: "errs \<noteq> []"
      using e by (metis withReadableMessage_None errors_Join_simps(3) option.distinct(1))
    have ua: "RequiresUserAction (Some e) = RequiresUserAction (errors_Join errs)"
      unfolding e by simp
    show ?thesis
      using updateConditions_ready [OF assms(1), of ck results s1] ne ua
      by (auto simp: 1(3,5) cond_same_def ready_condition_simps)
  qed
qed (use assms(2) in auto)

text \<open>C6: the finalizer goes away only after the clean-up in GitHub succeeded for a resource that is
  being deleted; when the clean-up fails, the finalizers stay and nothing more is written.
  A resource that is not being deleted carries the finalizer after every successful run.\<close>

theorem finalizer_protects:
  assumes "finalizer_law lib" and "Reconcile lib ck sched rc s = Some (s', err)"
  shows "(rc_FinalizerName rc \<in> set (ks_Finalizers s) \<and> rc_FinalizerName rc \<notin> set (ks_Finalizers s') \<longrightarrow>
            ks_DeletionTimestamp s \<noteq> None \<and> err = None \<and>
            snd (rc_ReconcileDeletion rc (ks_world (started lib ck rc s))) = None) \<and>
         (ks_DeletionTimestamp s \<noteq> None \<and>
            snd (rc_ReconcileDeletion rc (ks_world (started lib ck rc s))) \<noteq> None \<longrightarrow>
            ks_Finalizers s' = ks_Finalizers s \<and> err \<noteq> None \<and>
            ks_world s' = fst (rc_ReconcileDeletion rc (ks_world (started lib ck rc s)))) \<and>
         (ks_DeletionTimestamp s = None \<and> err = None \<longrightarrow> rc_FinalizerName rc \<in> set (ks_Finalizers s'))"
proof -
  have law: "lib_ContainsFinalizer lib fs f \<longleftrightarrow> f \<in> set fs"
      "set (lib_AddFinalizer lib fs f) = insert f (set fs)"
      "set (lib_RemoveFinalizer lib fs f) = set fs - {f}" for fs f
    using assms(1) unfolding finalizer_law_def by blast+
  have meta: "snd (applyMetadata lib rc b x) = None \<and> b \<Longrightarrow>
        rc_FinalizerName rc \<in> set (ks_Finalizers (fst (applyMetadata lib rc b x)))"
      "set (ks_Finalizers x) \<subseteq> set (ks_Finalizers (fst (applyMetadata lib rc b x)))" for b x
    by (auto simp: applyMetadata_def Let_def law split: prod.splits option.splits if_splits)
  have pre: "set (ks_Finalizers s) \<subseteq> set (ks_Finalizers (prepared lib ck rc s))"
    using meta(2) [of "started lib ck rc s" True] by (simp add: prepared_def)
  from assms(2) show ?thesis
  proof (cases rule: Reconcile_cases)
    case deleting
    then show ?thesis
      using meta(2) by (auto simp: finalize_def law split: prod.splits option.splits)
        (metis (no_types, lifting) fst_conv kstate.select_convs(4) kstate.surjective kstate.update_convs(7)
          started_frame(3) subsetD)
  next
    case metadata
    then show ?thesis using pre by auto
  next
    case run
    then have "ks_Finalizers s' = ks_Finalizers (prepared lib ck rc s)"
      using reconcile_run_cases [OF run(2)] by metis
    then show ?thesis
      using run pre meta(1) [of True "started lib ck rc s"] by (auto simp: prepared_def)
  qed
qed

text \<open>C7: a run always comes to an end under fair scheduling: if every goroutine keeps getting
  turns, all groups finish after finitely many steps and \<open>Reconcile\<close> returns.\<close>

theorem reconcile_returns:
  assumes "\<forall>k. fair n (\<sigma> k)"
    and "\<forall>w. \<forall>g \<in> set (rc_RequiredReconciliations rc w). length g \<le> n"
  shows "\<exists>N. Reconcile lib ck (\<lambda>k. map (\<sigma> k) [0..<N k]) rc s \<noteq> None"
proof -
  let ?s = "prepared lib ck rc s"
  obtain N where N: "run_groups ck (\<lambda>k. map (\<sigma> k) [0..<N k]) 0
      (rc_RequiredReconciliations rc (ks_world ?s)) ?s \<noteq> None"
    using run_groups_finishes [of n \<sigma> "rc_RequiredReconciliations rc (ks_world ?s)" ck 0 ?s] assms by blast
  then have "reconcile_run lib ck (\<lambda>k. map (\<sigma> k) [0..<N k]) rc ?s \<noteq> None"
    by (auto simp: reconcile_run_def runReconciliations_def Let_def split: prod.splits option.splits)
  then have "Reconcile lib ck (\<lambda>k. map (\<sigma> k) [0..<N k]) rc s \<noteq> None"
    by (auto simp: Reconcile_def Let_def started_def [symmetric] prepared_def split: prod.splits option.splits)
  then show ?thesis by blast
qed

section \<open>Examples\<close>

text \<open>
  Library functions with the documented behaviour, a clock, and a resource with two groups of
  reconciliations, the first of which returns a given error.
\<close>

definition ex_lib :: k8s_lib where
  "ex_lib =
     \<lparr>lib_SetStatusCondition = (\<lambda>cs c. c # filter (\<lambda>x. cond_Type x \<noteq> cond_Type c) cs),
      lib_FindStatusCondition = (\<lambda>cs t. find (\<lambda>c. cond_Type c = t) cs),
      lib_labels_Merge = (\<lambda>a b. fold (\<lambda>(k, v). map_put k v) b a),
      lib_ContainsFinalizer = (\<lambda>fs f. List.member fs f),
      lib_AddFinalizer = (\<lambda>fs f. if List.member fs f then fs else fs @ [f]),
      lib_RemoveFinalizer = (\<lambda>fs f. filter (\<lambda>x. x \<noteq> f) fs)\<rparr>"

lemma ex_lib_laws: "set_condition_law ex_lib" "finalizer_law ex_lib" "find_condition_law ex_lib"
proof -
  have "find_condition t (filter (\<lambda>x. cond_Type x \<noteq> u) cs) = find_condition t cs" if "t \<noteq> u" for t u cs
    using that by (induction cs) (auto simp: find_condition_def)
  then show "set_condition_law ex_lib"
    by (auto simp: set_condition_law_def ex_lib_def find_condition_def)
  show "finalizer_law ex_lib"
    by (auto simp: finalizer_law_def ex_lib_def)
  show "find_condition_law ex_lib"
    by (simp add: find_condition_law_def find_condition_def ex_lib_def)
qed

definition ex_clock :: clock where
  "ex_clock = \<lparr>ck_Now = int, ck_Format = FormatInt\<rparr>"

definition ex_rc :: "go_error option \<Rightarrow> (nat, unit) reconciler" where
  "ex_rc e =
     \<lparr>rc_GetAdditionalLabels = (\<lambda>w. []),
      rc_RequiredReconciliations =
        (\<lambda>w. [[\<lparr>rec_Function = Step (\<lambda>w. (w + 1, Done e)), rec_Condition = ''GitHubSynced''\<rparr>,
               \<lparr>rec_Function = Done None, rec_Condition = ''WebhooksSynced''\<rparr>],
              [\<lparr>rec_Function = Done None, rec_Condition = ''TopicsSynced''\<rparr>]]),
      rc_FinalizerName = ''fin'',
      rc_ReconcileDeletion = (\<lambda>w. (w + 10, None)),
      rc_BuildMetadataApplyConfig = (\<lambda>l f. ()),
      rc_BuildStatusApplyConfig = (\<lambda>s. ()),
      rc_ClientApply = (\<lambda>c w. (w + 100, None)),
      rc_StatusApply = (\<lambda>c w. (w + 1000, None)),
      rc_SetObservedSubResourceGeneration = (\<lambda>old new. new),
      rc_CurrentSubResourceGenerations = Some [(''RulesetPreset/ns/a'', 3)]\<rparr>"

definition ex_state :: "int option \<Rightarrow> nat kstate" where
  "ex_state del =
     \<lparr>ks_Conditions = [], ks_Generation = 7, ks_DeletionTimestamp = del, ks_Finalizers = [''fin''],
      ks_Labels = [], ks_ObservedSubResourceGenerations = None, ks_world = 0, ks_ticks = 0\<rparr>"

definition ex_sched :: "nat \<Rightarrow> nat list" where
  "ex_sched k = [0, 1, 0]"

text \<open>Evaluations of the example.\<close>

lemma ex_runs:
  "map_option (\<lambda>(s', results, err). map rr_SkippedBy results)
     (runReconciliations ex_clock ex_sched (ex_rc (Some (StopReconciliation ''archived''))) (ex_state None)) =
   Some [None, None, Some ''archived'']"
  "map_option snd (Reconcile ex_lib ex_clock ex_sched (ex_rc None) (ex_state None)) = Some None"
  "map_option (RequiresUserAction \<circ> snd)
     (Reconcile ex_lib ex_clock ex_sched (ex_rc (Some (InvalidWebhookSecretRefError ''x''))) (ex_state None)) =
   Some True"
  "map_option (\<lambda>(s', err). (ks_Finalizers s', err))
     (Reconcile ex_lib ex_clock ex_sched (ex_rc None) (ex_state (Some 5))) = Some ([], None)"
  by code_simp+

lemma run_coverage_witness:
  "\<exists>s' results err. runReconciliations ex_clock ex_sched (ex_rc (Some (StopReconciliation ''archived''))) (ex_state None) =
       Some (s', results, err) \<and> map rr_SkippedBy results = [None, None, Some ''archived''] \<and>
     (\<exists>errs. err = errors_Join errs \<and> errs = result_errors results \<and>
        run_spec (rc_RequiredReconciliations (ex_rc (Some (StopReconciliation ''archived''))) 0) results errs)"
proof -
  let ?rc = "ex_rc (Some (StopReconciliation ''archived''))"
  obtain s' results err where h:
      "runReconciliations ex_clock ex_sched ?rc (ex_state None) = Some (s', results, err)"
      "map rr_SkippedBy results = [None, None, Some ''archived'']"
    using ex_runs(1) by auto
  have "ks_world (ex_state None) = 0" by (simp add: ex_state_def)
  then show ?thesis using h run_coverage [OF h(1)] by auto
qed

theorem reconcile_nil_ready_witness:
  "\<exists>s' c. Reconcile ex_lib ex_clock ex_sched (ex_rc None) (ex_state None) = Some (s', None) \<and>
     find_condition TypeReady (ks_Conditions s') = Some c \<and> cond_Status c = ConditionTrue \<and>
     cond_ObservedGeneration c = 7"
proof -
  obtain s' where h: "Reconcile ex_lib ex_clock ex_sched (ex_rc None) (ex_state None) = Some (s', None)"
    using ex_runs(2) by auto
  have "ks_DeletionTimestamp (ex_state None) = None" "ks_Generation (ex_state None) = 7"
    by (simp_all add: ex_state_def)
  with h reconcile_nil_ready [OF ex_lib_laws(1) _ h] show ?thesis by auto
qed

theorem reconcile_error_class_witness:
  "\<exists>s' e c. Reconcile ex_lib ex_clock ex_sched (ex_rc (Some (InvalidWebhookSecretRefError ''x''))) (ex_state None) =
       Some (s', Some e) \<and>
     find_condition TypeReady (ks_Conditions s') = Some c \<and> cond_Reason c = ReasonUserActionRequired"
proof -
  let ?rc = "ex_rc (Some (InvalidWebhookSecretRefError ''x''))"
  obtain s' err where h: "Reconcile ex_lib ex_clock ex_sched ?rc (ex_state None) = Some (s', err)"
      "RequiresUserAction err"
    using ex_runs(3) by auto
  then obtain e where e: "err = Some e" by (cases err) (auto simp: RequiresUserAction_def)
  have "ks_DeletionTimestamp (ex_state None) = None"
      "\<forall>c w. snd (rc_StatusApply ?rc c w) = None" "\<forall>c w. snd (rc_ClientApply ?rc c w) = None"
    by (simp_all add: ex_state_def ex_rc_def)
  with h e reconcile_error_class [OF ex_lib_laws(1) _ _ _ h(1) [unfolded e]] show ?thesis by auto
qed

theorem finalizer_protects_witness:
  "\<exists>s'. Reconcile ex_lib ex_clock ex_sched (ex_rc None) (ex_state (Some 5)) = Some (s', None) \<and>
     ''fin'' \<in> set (ks_Finalizers (ex_state (Some 5))) \<and> ''fin'' \<notin> set (ks_Finalizers s') \<and>
     snd (rc_ReconcileDeletion (ex_rc None) (ks_world (started ex_lib ex_clock (ex_rc None) (ex_state (Some 5))))) = None"
proof -
  obtain s' where h: "Reconcile ex_lib ex_clock ex_sched (ex_rc None) (ex_state (Some 5)) = Some (s', None)"
      "''fin'' \<notin> set (ks_Finalizers s')"
    using ex_runs(4) by auto
  have f: "rc_FinalizerName (ex_rc None) = ''fin''" "''fin'' \<in> set (ks_Finalizers (ex_state (Some 5)))"
    by (simp_all add: ex_rc_def ex_state_def)
  have "snd (rc_ReconcileDeletion (ex_rc None) (ks_world (started ex_lib ex_clock (ex_rc None) (ex_state (Some 5))))) = None"
    using finalizer_protects [OF ex_lib_laws(2) h(1), THEN conjunct1] h(2) f by metis
  with h f show ?thesis by metis
qed

theorem reconcile_returns_witness:
  "\<exists>N. Reconcile ex_lib ex_clock (\<lambda>k. map (\<lambda>t. t mod 2) [0..<N k]) (ex_rc None) (ex_state None) \<noteq> None"
proof (rule reconcile_returns [of 2 "\<lambda>k t. t mod 2"])
  have "\<exists>t' \<ge> t. t' mod 2 = i" if "i < 2" for i t :: nat
    using that by (intro exI [of _ "2 * t + i"]) auto
  then show "\<forall>k::nat. fair 2 (\<lambda>t. t mod 2)" by (simp add: fair_def)
  show "\<forall>w. \<forall>g \<in> set (rc_RequiredReconciliations (ex_rc None) w). length g \<le> 2"
    by (simp add: ex_rc_def)
qed

end
