(* ===== verification/Requeue.thy ===== *)
theory Requeue
  imports Executor "HOL-Library.Signed_Division"
begin

text \<open>
  When a resource is reconciled again: the operator configuration
  (\<^verbatim>\<open>internal/config/config.go\<close>), startup spreading (\<^verbatim>\<open>internal/reconciler/spreading\<close>), the
  requeue policy (\<^verbatim>\<open>internal/controller/requeue_policy.go\<close>) and the Reconcile methods of the
  three controllers. Durations are nanoseconds in 64-bit arithmetic, instants are integers; the
  clock readings and the random source are arguments.
\<close>

section \<open>Durations\<close>

definition wrap64 :: "int \<Rightarrow> int" where
  "wrap64 i = (i + 2 ^ 63) mod 2 ^ 64 - 2 ^ 63"

lemma wrap64_id: "- (2 ^ 63) \<le> i \<Longrightarrow> i < 2 ^ 63 \<Longrightarrow> wrap64 i = i"
  by (simp add: wrap64_def)

lemma wrap64_range: "- (2 ^ 63) \<le> wrap64 i \<and> wrap64 i < 2 ^ 63"
proof -
  have "0 \<le> (i + 2 ^ 63) mod 2 ^ 64 \<and> (i + 2 ^ 63) mod 2 ^ 64 < (2 ^ 64 :: int)"
    by simp
  then show ?thesis by (auto simp: wrap64_def)
qed

text \<open>\<^verbatim>\<open>Time.Sub\<close> (also \<^verbatim>\<open>time.Since\<close> and \<^verbatim>\<open>time.Until\<close>) saturates.\<close>

definition time_Sub :: "int \<Rightarrow> int \<Rightarrow> int" where
  "time_Sub t u = max (- (2 ^ 63)) (min (2 ^ 63 - 1) (t - u))"

lemma time_Sub_id: "- (2 ^ 63) \<le> t - u \<Longrightarrow> t - u < 2 ^ 63 \<Longrightarrow> time_Sub t u = t - u"
  by (simp add: time_Sub_def)

definition Second :: int where "Second = 1000000000"

definition Minute :: int where "Minute = 60000000000"

section \<open>Configuration (internal/config/config.go)\<close>

record features =
  EnableRequiredReviewersRules :: bool
  EnableWebhooks :: bool
  EnableStartupSpreading :: bool
  EnableResilientGitHubAuth :: bool

record rate_limit_config =
  StallThresholdCore :: int
  ResetGracePeriodSeconds :: int
  StalenessThresholdMinutes :: int

record operator_config =
  Features :: features
  RateLimitConfig :: rate_limit_config
  WatchNamespace :: string
  AppCredentialsSecretNamespace :: string
  RepositoryFinalizerMode :: string
  GitHubMemberSuffix :: string
  SpreadPeriodMinutes :: int
  SpreadIntervalMinutes :: int
  SuccessRequeueJitterPercent :: int
  GitHubStateRequeueIntervalMinutes :: int

definition ResetGracePeriod :: "rate_limit_config \<Rightarrow> int" where
  "ResetGracePeriod c = wrap64 (ResetGracePeriodSeconds c * Second)"

definition StalenessThreshold :: "rate_limit_config \<Rightarrow> int" where
  "StalenessThreshold c = wrap64 (StalenessThresholdMinutes c * Minute)"

definition SpreadPeriod :: "operator_config \<Rightarrow> int" where
  "SpreadPeriod c = wrap64 (SpreadPeriodMinutes c * Minute)"

definition SpreadInterval :: "operator_config \<Rightarrow> int" where
  "SpreadInterval c = wrap64 (SpreadIntervalMinutes c * Minute)"

definition SuccessRequeueInterval :: "operator_config \<Rightarrow> int" where
  "SuccessRequeueInterval c = SpreadInterval c"

definition SuccessRequeueJitter :: "operator_config \<Rightarrow> int" where
  "SuccessRequeueJitter c =
     (let pct = min (max (SuccessRequeueJitterPercent c) 0) 100
      in wrap64 (SuccessRequeueInterval c * pct) sdiv 100)"

definition GitHubStateRequeueInterval :: "operator_config \<Rightarrow> int" where
  "GitHubStateRequeueInterval c = wrap64 (GitHubStateRequeueIntervalMinutes c * Minute)"

section \<open>Startup spreading (internal/reconciler/spreading)\<close>

record spread_config =
  StartTime :: int
  sc_SpreadPeriod :: int
  sc_SpreadInterval :: int
  Enabled :: bool

definition NewManager :: "int \<Rightarrow> operator_config \<Rightarrow> spread_config" where
  "NewManager now cfg =
     \<lparr>StartTime = now, sc_SpreadPeriod = SpreadPeriod cfg, sc_SpreadInterval = SpreadInterval cfg,
      Enabled = EnableStartupSpreading (Features cfg)\<rparr>"

definition ResetStartTime :: "int \<Rightarrow> spread_config \<Rightarrow> spread_config" where
  "ResetStartTime now m = m\<lparr>StartTime := now\<rparr>"

text \<open>
  The methods of the resources that spreading reads (\<^verbatim>\<open>api/v1alpha1/*_methods.go\<close>); the three kinds
  implement them alike.
\<close>

definition IsHealthy :: "k8s_lib \<Rightarrow> 'w kstate \<Rightarrow> bool" where
  "IsHealthy lib s =
     (case lib_FindStatusCondition lib (ks_Conditions s) TypeReady of
        None \<Rightarrow> False
      | Some c \<Rightarrow> cond_Status c = ConditionTrue)"

definition GetObservedGeneration :: "k8s_lib \<Rightarrow> 'w kstate \<Rightarrow> int" where
  "GetObservedGeneration lib s =
     (case lib_FindStatusCondition lib (ks_Conditions s) TypeReady of
        None \<Rightarrow> 0
      | Some c \<Rightarrow> cond_ObservedGeneration c)"

definition subResourcesChanged ::
    "(string, int) gomap option \<Rightarrow> (string, int) gomap option \<Rightarrow> bool" where
  "subResourcesChanged g1 g2 =
     (case (g1, g2) of
        (None, None) \<Rightarrow> False
      | (Some a, Some b) \<Rightarrow>
          length a \<noteq> length b \<or> list_ex (\<lambda>(key, gen). map_get b key \<noteq> Some gen) a
      | _ \<Rightarrow> True)"

text \<open>
  \<open>rnd\<close> is \<^verbatim>\<open>rand.IntN\<close>. \<^verbatim>\<open>int(d.Minutes())\<close> is the number of whole minutes; the interval comes
  from the configuration in whole minutes.
\<close>

definition calculateSpreadDelay :: "(int \<Rightarrow> int) \<Rightarrow> int \<Rightarrow> spread_config \<Rightarrow> int" where
  "calculateSpreadDelay rnd now m =
     (let intervalLength = sc_SpreadInterval m sdiv Minute
      in if intervalLength < 1 then 0
         else
           (let offset = wrap64 (rnd intervalLength * Minute);
                targetTime = StartTime m + sc_SpreadPeriod m + offset;
                delay = time_Sub targetTime now
            in if delay < 0 then 0 else delay))"

text \<open>
  \<open>Spread\<close> on a manager that may be nil; \<open>now1\<close> and \<open>now2\<close> are the two readings of the clock.
  \<open>render\<close> formats the delay for the error text.
\<close>

definition Spread ::
    "k8s_lib \<Rightarrow> (int \<Rightarrow> string) \<Rightarrow> (int \<Rightarrow> int) \<Rightarrow> int \<Rightarrow> int \<Rightarrow> spread_config option \<Rightarrow> 'w kstate \<Rightarrow>
     (string, int) gomap option \<Rightarrow> go_error option" where
  "Spread lib render rnd now1 now2 mgr resource current =
     (case mgr of
        None \<Rightarrow> None
      | Some m \<Rightarrow>
          if \<not> Enabled m then None
          else if time_Sub now1 (StartTime m) > sc_SpreadPeriod m then None
          else if ks_Generation resource \<noteq> GetObservedGeneration lib resource then None
          else if \<not> IsHealthy lib resource then None
          else if ks_DeletionTimestamp resource \<noteq> None then None
          else if subResourcesChanged current (ks_ObservedSubResourceGenerations resource) then None
          else
            (let delay = calculateSpreadDelay rnd now2 m
             in if delay \<le> 0 then None else Some (RequiresSpreadError delay (render delay))))"

section \<open>Requeue policy (internal/controller/requeue_policy.go)\<close>

definition minRateLimitRequeueDelay :: int where
  "minRateLimitRequeueDelay = 30 * Second"

record requeue_policy =
  successInterval :: int
  gitHubStateInterval :: int
  successJitter :: int
  randN :: "(int \<Rightarrow> int) option"

definition NewRequeuePolicy :: "operator_config \<Rightarrow> requeue_policy" where
  "NewRequeuePolicy cfg =
     \<lparr>successInterval = SuccessRequeueInterval cfg, gitHubStateInterval = GitHubStateRequeueInterval cfg,
      successJitter = SuccessRequeueJitter cfg, randN = None\<rparr>"

text \<open>A \<^verbatim>\<open>ctrl.Result\<close> is its \<open>RequeueAfter\<close>; zero means no requeue.\<close>

type_synonym ctrl_result = int

definition randomJitter :: "(int \<Rightarrow> int) \<Rightarrow> requeue_policy \<Rightarrow> int" where
  "randomJitter rnd p =
     (if successJitter p \<le> 0 then 0
      else (case randN p of Some f \<Rightarrow> f (successJitter p) | None \<Rightarrow> rnd (successJitter p)))"

definition OnSuccess :: "(int \<Rightarrow> int) \<Rightarrow> requeue_policy \<Rightarrow> ctrl_result" where
  "OnSuccess rnd p = wrap64 (successInterval p + randomJitter rnd p)"

definition is_RateLimitReached :: "go_error \<Rightarrow> int option option" where
  "is_RateLimitReached e = (case e of RateLimitReachedError t m \<Rightarrow> Some t | _ \<Rightarrow> None)"

definition is_RateLimited :: "go_error \<Rightarrow> int option" where
  "is_RateLimited e = (case e of RateLimitedError t m \<Rightarrow> Some t | _ \<Rightarrow> None)"

definition is_RequiresSpread :: "go_error \<Rightarrow> int option" where
  "is_RequiresSpread e = (case e of RequiresSpreadError d m \<Rightarrow> Some d | _ \<Rightarrow> None)"

definition rate_limit_reset :: "go_error \<Rightarrow> int option" where
  "rate_limit_reset err =
     (let resetTime = (case errors_As is_RateLimitReached err of Some t \<Rightarrow> t | None \<Rightarrow> None)
      in if resetTime = None then errors_As is_RateLimited err else resetTime)"

definition OnFactoryError :: "bool \<Rightarrow> int \<Rightarrow> go_error \<Rightarrow> ctrl_result \<times> go_error option" where
  "OnFactoryError canceled now err =
     (if canceled then (0, None)
      else
        (case rate_limit_reset err of
           Some resetTime \<Rightarrow> (max (time_Sub resetTime now) minRateLimitRequeueDelay, None)
         | None \<Rightarrow>
             (case errors_As is_RequiresSpread err of
                Some d \<Rightarrow> (d, None)
              | None \<Rightarrow> (0, Some err))))"

definition userActionRequeueInterval :: "requeue_policy \<Rightarrow> go_error \<Rightarrow> int" where
  "userActionRequeueInterval p err =
     (if (AwaitsGitHubChange (Some err) \<or> IsNotFound err) \<and> gitHubStateInterval p > 0
      then min (successInterval p) (gitHubStateInterval p)
      else successInterval p)"

definition OnReconcileError :: "bool \<Rightarrow> int \<Rightarrow> requeue_policy \<Rightarrow> go_error \<Rightarrow> ctrl_result \<times> go_error option" where
  "OnReconcileError canceled now p err =
     (if RequiresUserAction (Some err) then (userActionRequeueInterval p err, None)
      else OnFactoryError canceled now err)"

section \<open>The controllers\<close>

definition resourceWasDeleted :: "k8s_lib \<Rightarrow> ('w, 'c) reconciler \<Rightarrow> 'w kstate \<Rightarrow> bool" where
  "resourceWasDeleted lib rc s =
     (ks_DeletionTimestamp s \<noteq> None \<and> \<not> lib_ContainsFinalizer lib (ks_Finalizers s) (rc_FinalizerName rc))"

definition archivedRepoRequeueDelay :: int where
  "archivedRepoRequeueDelay = 10 * Second"

definition newRepoRequeueDelay :: int where
  "newRepoRequeueDelay = 10 * Second"

definition isArchivedRepoError :: "go_error \<Rightarrow> bool" where
  "isArchivedRepoError err =
     (case errors_As is_github err of
        Some (Some g) \<Rightarrow>
          er_StatusCode g = Some 403 \<and> er_Message g = ''Repository was archived so is read-only.''
      | _ \<Rightarrow> False)"

definition is_NewRepositoryUpdate :: "go_error \<Rightarrow> go_error option" where
  "is_NewRepositoryUpdate e = (case e of NewRepositoryUpdateError e' \<Rightarrow> Some e' | _ \<Rightarrow> None)"

text \<open>
  \<open>factory\<close> is the outcome of \<^verbatim>\<open>CreateForRepo\<close>: an error, no resource, or a reconciler with the
  resource it was created for. The outcome is \<^term>\<open>None\<close> while the reconciliation has not returned.
\<close>

definition RepositoryCtl_Reconcile ::
    "k8s_lib \<Rightarrow> clock \<Rightarrow> (nat \<Rightarrow> nat list) \<Rightarrow> requeue_policy \<Rightarrow> (int \<Rightarrow> int) \<Rightarrow> bool \<Rightarrow> int \<Rightarrow>
     (go_error, (('w, 'c) reconciler \<times> 'w kstate) option) result \<Rightarrow>
     (ctrl_result \<times> go_error option) option" where
  "RepositoryCtl_Reconcile lib ck sched p rnd canceled now factory =
     (case factory of
        Inl err \<Rightarrow> Some (OnFactoryError canceled now err)
      | Inr None \<Rightarrow> Some (0, None)
      | Inr (Some (rc, s)) \<Rightarrow>
          (case Reconcile lib ck sched rc s of
             None \<Rightarrow> None
           | Some (s', Some err) \<Rightarrow>
               if isArchivedRepoError err then Some (archivedRepoRequeueDelay, None)
               else if errors_As is_NewRepositoryUpdate err \<noteq> None then Some (newRepoRequeueDelay, None)
               else Some (OnReconcileError canceled now p err)
           | Some (s', None) \<Rightarrow>
               if resourceWasDeleted lib rc s' then Some (0, None) else Some (OnSuccess rnd p, None)))"

definition OrganizationStillHasReposError :: go_error where
  "OrganizationStillHasReposError =
     FinalizationFailedError ''organization still has repositories, cannot delete it''"

definition OrganizationStillHasTeamsError :: go_error where
  "OrganizationStillHasTeamsError =
     FinalizationFailedError ''organization still has teams, cannot delete it''"

text \<open>\<^verbatim>\<open>errors.Is\<close> for a comparable error value.\<close>

definition errors_Is :: "go_error \<Rightarrow> go_error \<Rightarrow> bool" where
  "errors_Is err target = (errors_As (\<lambda>e. if e = target then Some () else None) err \<noteq> None)"

definition OrganizationCtl_Reconcile ::
    "k8s_lib \<Rightarrow> clock \<Rightarrow> (nat \<Rightarrow> nat list) \<Rightarrow> requeue_policy \<Rightarrow> (int \<Rightarrow> int) \<Rightarrow> bool \<Rightarrow> int \<Rightarrow>
     (go_error, (('w, 'c) reconciler \<times> 'w kstate) option) result \<Rightarrow>
     (ctrl_result \<times> go_error option) option" where
  "OrganizationCtl_Reconcile lib ck sched p rnd canceled now factory =
     (case factory of
        Inl err \<Rightarrow> Some (OnFactoryError canceled now err)
      | Inr None \<Rightarrow> Some (0, None)
      | Inr (Some (rc, s)) \<Rightarrow>
          (case Reconcile lib ck sched rc s of
             None \<Rightarrow> None
           | Some (s', Some err) \<Rightarrow>
               if errors_Is err OrganizationStillHasReposError \<or> errors_Is err OrganizationStillHasTeamsError
               then Some (30 * Second, None)
               else Some (OnReconcileError canceled now p err)
           | Some (s', None) \<Rightarrow>
               if resourceWasDeleted lib rc s' then Some (0, None) else Some (OnSuccess rnd p, None)))"

definition TeamCtl_Reconcile ::
    "k8s_lib \<Rightarrow> clock \<Rightarrow> (nat \<Rightarrow> nat list) \<Rightarrow> requeue_policy \<Rightarrow> (int \<Rightarrow> int) \<Rightarrow> bool \<Rightarrow> int \<Rightarrow>
     (go_error, (('w, 'c) reconciler \<times> 'w kstate) option) result \<Rightarrow>
     (ctrl_result \<times> go_error option) option" where
  "TeamCtl_Reconcile lib ck sched p rnd canceled now factory =
     (case factory of
        Inl err \<Rightarrow> Some (OnFactoryError canceled now err)
      | Inr None \<Rightarrow> Some (0, None)
      | Inr (Some (rc, s)) \<Rightarrow>
          (case Reconcile lib ck sched rc s of
             None \<Rightarrow> None
           | Some (s', Some err) \<Rightarrow> Some (OnReconcileError canceled now p err)
           | Some (s', None) \<Rightarrow>
               if resourceWasDeleted lib rc s' then Some (0, None) else Some (OnSuccess rnd p, None)))"

section \<open>Lemmas\<close>

text \<open>What \<^verbatim>\<open>rand.IntN\<close> and \<^verbatim>\<open>rand.N\<close> promise.\<close>

definition rand_law :: "(int \<Rightarrow> int) \<Rightarrow> bool" where
  "rand_law rnd \<longleftrightarrow> (\<forall>n > 0. 0 \<le> rnd n \<and> rnd n < n)"

lemma rand_lawD: "rand_law rnd \<Longrightarrow> 0 < n \<Longrightarrow> 0 \<le> rnd n \<and> rnd n < n"
  by (simp add: rand_law_def)

lemma sdiv_nonneg: "0 \<le> (a::int) \<Longrightarrow> 0 < b \<Longrightarrow> a sdiv b = a div b"
  by (simp add: signed_divide_int_def sgn_if)

text \<open>Two generation maps of the same length are the same map if one is contained in the other.\<close>

lemma gomap_length: "gomap_ok m \<Longrightarrow> length m = card (dom (map_get m))"
  using distinct_card [of "map fst m"] by (simp add: gomap_ok_def dom_map_of_conv_image_fst)

lemma subResourcesChanged_spec:
  assumes "\<And>m. g1 = Some m \<Longrightarrow> gomap_ok m" and "\<And>m. g2 = Some m \<Longrightarrow> gomap_ok m"
  shows "subResourcesChanged g1 g2 \<longleftrightarrow> map_option map_get g1 \<noteq> map_option map_get g2"
proof (cases "(\<exists>a b. g1 = Some a \<and> g2 = Some b)")
  case True
  then obtain a b where g: "g1 = Some a" "g2 = Some b" by blast
  have ok: "gomap_ok a" "gomap_ok b" using assms g by auto
  have sub: "\<not> list_ex (\<lambda>(key, gen). map_get b key \<noteq> Some gen) a \<longleftrightarrow> map_get a \<subseteq>\<^sub>m map_get b"
  proof -
    have "\<not> list_ex (\<lambda>(key, gen). map_get b key \<noteq> Some gen) a \<longleftrightarrow>
        (\<forall>key gen. (key, gen) \<in> set a \<longrightarrow> map_get b key = Some gen)"
      by (auto simp: list_ex_iff)
    then show ?thesis
      unfolding gomap_in_iff [OF ok(1)] by (force simp: map_le_def)
  qed
  have "length a = length b \<and> map_get a \<subseteq>\<^sub>m map_get b \<longleftrightarrow> map_get a = map_get b"
  proof
    assume h: "length a = length b \<and> map_get a \<subseteq>\<^sub>m map_get b"
    then have "dom (map_get a) = dom (map_get b)"
      using gomap_length [OF ok(1)] gomap_length [OF ok(2)] card_subset_eq [OF finite_dom_map_of]
        map_le_implies_dom_le by metis
    with h show "map_get a = map_get b" by (simp add: map_le_antisym map_le_def)
  qed (use gomap_length [OF ok(1)] gomap_length [OF ok(2)] in simp)
  then show ?thesis using g sub by (auto simp: subResourcesChanged_def)
next
  case False
  then show ?thesis by (cases g1; cases g2) (auto simp: subResourcesChanged_def)
qed

lemma calculateSpreadDelay_bounds:
  assumes "rand_law rnd" and "sc_SpreadInterval m < 2 ^ 63"
    and "StartTime m + sc_SpreadPeriod m + sc_SpreadInterval m - now < 2 ^ 63"
    and "calculateSpreadDelay rnd now m = d" and "0 < d"
  shows "StartTime m + sc_SpreadPeriod m \<le> now + d \<and>
         now + d < StartTime m + sc_SpreadPeriod m + sc_SpreadInterval m"
proof -
  define n where "n = sc_SpreadInterval m sdiv Minute"
  have n1: "1 \<le> n"
    using assms(4,5) by (auto simp: calculateSpreadDelay_def n_def Let_def split: if_splits)
  have i0: "0 \<le> sc_SpreadInterval m"
  proof (rule ccontr)
    assume "\<not> 0 \<le> sc_SpreadInterval m"
    then have "n \<le> 0"
      by (simp add: n_def Minute_def signed_divide_int_def sgn_if pos_imp_zdiv_nonneg_iff)
    with n1 show False by simp
  qed
  have n: "n = sc_SpreadInterval m div Minute"
    using i0 by (simp add: n_def sdiv_nonneg Minute_def)
  have nle: "n * Minute \<le> sc_SpreadInterval m"
    unfolding n Minute_def by simp
  have r: "0 \<le> rnd n" "rnd n \<le> n - 1" using rand_lawD [OF assms(1), of n] n1 by auto
  have off: "0 \<le> rnd n * Minute" "rnd n * Minute \<le> sc_SpreadInterval m - Minute"
    using r nle by (auto simp: Minute_def)
  have w: "wrap64 (rnd n * Minute) = rnd n * Minute"
    by (rule wrap64_id) (use off assms(2) in \<open>auto simp: Minute_def\<close>)
  let ?t = "StartTime m + sc_SpreadPeriod m + rnd n * Minute"
  have d: "d = time_Sub ?t now"
    using assms(4,5) n1 w by (auto simp: calculateSpreadDelay_def Let_def n_def split: if_splits)
  have "?t - now < 2 ^ 63" using off assms(3) by (simp add: Minute_def)
  moreover have "- (2 ^ 63) \<le> ?t - now"
    using d assms(5) by (auto simp: time_Sub_def max_def min_def split: if_splits)
  ultimately have "d = ?t - now" unfolding d by (rule time_Sub_id [rotated])
  then show ?thesis using off by (simp add: Minute_def)
qed

lemma Spread_SomeD:
  assumes "Spread lib render rnd now1 now2 (Some m) s cur = Some e"
  shows "Enabled m \<and> time_Sub now1 (StartTime m) \<le> sc_SpreadPeriod m \<and>
         ks_Generation s = GetObservedGeneration lib s \<and> IsHealthy lib s \<and>
         ks_DeletionTimestamp s = None \<and>
         \<not> subResourcesChanged cur (ks_ObservedSubResourceGenerations s) \<and>
         (\<exists>d. e = RequiresSpreadError d (render d) \<and> d = calculateSpreadDelay rnd now2 m \<and> 0 < d)"
  using assms by (auto simp: Spread_def Let_def split: if_splits)

section \<open>Properties: spreading\<close>

text \<open>Startup spreading only delays a warm-start reconciliation: spreading is on, the window has
  not passed, and the resource is healthy, not being deleted, and unchanged since its last
  successful run, its sub-resources included. The delayed run then starts inside the interval
  that follows the window.\<close>

lemma spread_only_warm_and_in_window:
  assumes "rand_law rnd" and "sc_SpreadInterval m < 2 ^ 63"
    and "StartTime m + sc_SpreadPeriod m + sc_SpreadInterval m - now2 < 2 ^ 63"
    and "pred_option gomap_ok cur" and "pred_option gomap_ok (ks_ObservedSubResourceGenerations s)"
    and "Spread lib render rnd now1 now2 (Some m) s cur = Some e"
  shows "\<exists>d. e = RequiresSpreadError d (render d) \<and> 0 < d \<and>
           StartTime m + sc_SpreadPeriod m \<le> now2 + d \<and>
           now2 + d < StartTime m + sc_SpreadPeriod m + sc_SpreadInterval m \<and>
           Enabled m \<and> time_Sub now1 (StartTime m) \<le> sc_SpreadPeriod m \<and>
           IsHealthy lib s \<and> ks_DeletionTimestamp s = None \<and>
           GetObservedGeneration lib s = ks_Generation s \<and>
           map_option map_get cur = map_option map_get (ks_ObservedSubResourceGenerations s)"
proof -
  note h = Spread_SomeD [OF assms(6)]
  then obtain d where d: "e = RequiresSpreadError d (render d)" "calculateSpreadDelay rnd now2 m = d" "0 < d"
    by blast
  have "map_option map_get cur = map_option map_get (ks_ObservedSubResourceGenerations s)"
    using h subResourcesChanged_spec [of cur "ks_ObservedSubResourceGenerations s"] assms(4,5)
    by (metis option.pred_inject(2))
  then show ?thesis
    using h d calculateSpreadDelay_bounds [OF assms(1-3) d(2,3)] by auto
qed

section \<open>Properties: requeue policy\<close>

text \<open>
  The largest spread interval (in minutes) for which the jitter computation cannot overflow; it is
  almost three years.
\<close>

definition max_interval_minutes :: int where
  "max_interval_minutes = 1537228"

definition jitter_percent :: "operator_config \<Rightarrow> int" where
  "jitter_percent cfg = min (max (SuccessRequeueJitterPercent cfg) 0) 100"

lemma interval_exact:
  assumes "0 \<le> SpreadIntervalMinutes cfg" and "SpreadIntervalMinutes cfg \<le> max_interval_minutes"
  shows "SpreadInterval cfg = SpreadIntervalMinutes cfg * Minute"
    and "SuccessRequeueJitter cfg = SpreadIntervalMinutes cfg * Minute * jitter_percent cfg div 100"
proof -
  let ?m = "SpreadIntervalMinutes cfg"
  have m: "0 \<le> ?m * Minute" "?m * Minute \<le> 92233680000000000"
    using assms by (simp_all add: Minute_def max_interval_minutes_def)
  show i: "SpreadInterval cfg = ?m * Minute"
    unfolding SpreadInterval_def by (rule wrap64_id) (use m in auto)
  have p: "0 \<le> jitter_percent cfg" "jitter_percent cfg \<le> 100"
    by (simp_all add: jitter_percent_def)
  have j: "0 \<le> ?m * Minute * jitter_percent cfg"
    using m p by simp
  have "?m * Minute * jitter_percent cfg \<le> 92233680000000000 * 100"
    by (rule mult_mono) (use m p in auto)
  then have "wrap64 (?m * Minute * jitter_percent cfg) = ?m * Minute * jitter_percent cfg"
    by (intro wrap64_id) (use j in auto)
  then show "SuccessRequeueJitter cfg = ?m * Minute * jitter_percent cfg div 100"
    using j by (simp add: SuccessRequeueJitter_def SuccessRequeueInterval_def i Let_def
        jitter_percent_def [symmetric] sdiv_nonneg)
qed

lemma OnSuccess_bounds:
  assumes "rand_law rnd" and "0 \<le> SpreadIntervalMinutes cfg"
    and "SpreadIntervalMinutes cfg \<le> max_interval_minutes"
  shows "SpreadIntervalMinutes cfg * Minute \<le> OnSuccess rnd (NewRequeuePolicy cfg) \<and>
         (OnSuccess rnd (NewRequeuePolicy cfg) - SpreadIntervalMinutes cfg * Minute) * 100 \<le>
           SpreadIntervalMinutes cfg * Minute * jitter_percent cfg"
proof -
  let ?i = "SpreadIntervalMinutes cfg * Minute" and ?p = "NewRequeuePolicy cfg"
  note e = interval_exact [OF assms(2,3)]
  have i: "0 \<le> ?i" "?i \<le> 92233680000000000"
    using assms(2,3) by (simp_all add: Minute_def max_interval_minutes_def)
  have pct: "0 \<le> jitter_percent cfg" "jitter_percent cfg \<le> 100" by (simp_all add: jitter_percent_def)
  let ?j = "?i * jitter_percent cfg div 100"
  have j: "0 \<le> ?j" "?j * 100 \<le> ?i * jitter_percent cfg" 
  proof -
    have "0 \<le> ?i * jitter_percent cfg" by (rule mult_nonneg_nonneg) (use i pct in auto)
    then show "0 \<le> ?j" "?j * 100 \<le> ?i * jitter_percent cfg"
      by (simp_all add: pos_imp_zdiv_nonneg_iff)
  qed
  have "?i * jitter_percent cfg \<le> ?i * 100" by (rule mult_left_mono) (use i pct in auto)
  with j have ji: "?j \<le> ?i" by simp
  have r: "0 \<le> randomJitter rnd ?p \<and> randomJitter rnd ?p \<le> ?j"
    using rand_lawD [OF assms(1), of ?j] j(1)
    by (auto simp: randomJitter_def NewRequeuePolicy_def e(2))
  have "OnSuccess rnd ?p = ?i + randomJitter rnd ?p"
    unfolding OnSuccess_def
    by (subst wrap64_id) (use i r ji in \<open>auto simp: NewRequeuePolicy_def SuccessRequeueInterval_def e(1)\<close>)
  with r j show ?thesis by auto
qed

text \<open>C9: after a successful run the resource is reconciled again no earlier than the configured
  interval, which startup spreading relies on, and at most the configured percentage later; no
  configured percentage and no interval below three years makes the 64-bit arithmetic overflow.\<close>

theorem success_requeue_bounds:
  assumes "rand_law rnd" and "0 \<le> SpreadIntervalMinutes cfg"
    and "SpreadIntervalMinutes cfg \<le> max_interval_minutes"
  shows "SpreadInterval cfg \<le> OnSuccess rnd (NewRequeuePolicy cfg) \<and>
         (OnSuccess rnd (NewRequeuePolicy cfg) - SpreadInterval cfg) * 100 \<le>
           SpreadInterval cfg * jitter_percent cfg"
  using OnSuccess_bounds [OF assms] interval_exact(1) [OF assms(2,3)] by simp

text \<open>The policy returns an error to controller-runtime, for exponential backoff, exactly if
  no better time is known. An error that needs the user waits at most the success interval, and
  no longer than the GitHub state interval if GitHub rejected a request; after a rate limit the
  next run comes at least 30 seconds later and not before the limit is reset.\<close>

lemma reconcile_error_requeue:
  assumes "- (2 ^ 63) \<le> reset - now" and "reset - now < 2 ^ 63"
  shows "(snd (OnReconcileError canceled now p err) =
            (if RequiresUserAction (Some err) \<or> canceled \<or> rate_limit_reset err \<noteq> None \<or>
                errors_As is_RequiresSpread err \<noteq> None then None else Some err)) \<and>
         (RequiresUserAction (Some err) \<longrightarrow>
            fst (OnReconcileError canceled now p err) \<le> successInterval p \<and>
            (unprocessable_entity_errors err \<noteq> [] \<and> 0 < gitHubStateInterval p \<longrightarrow>
               fst (OnReconcileError canceled now p err) \<le> gitHubStateInterval p)) \<and>
         (\<not> RequiresUserAction (Some err) \<and> \<not> canceled \<and> rate_limit_reset err = Some reset \<longrightarrow>
            30 * Second \<le> fst (OnReconcileError canceled now p err) \<and>
            reset \<le> now + fst (OnReconcileError canceled now p err))"
proof -
  have "AwaitsGitHubChange (Some err)" if "unprocessable_entity_errors err \<noteq> []"
    using unprocessable_awaits [OF that] by (simp add: AwaitsGitHubChange_def)
  then show ?thesis
    using time_Sub_id [OF assms]
    by (auto simp: OnReconcileError_def OnFactoryError_def userActionRequeueInterval_def
        minRateLimitRequeueDelay_def split: option.splits)
qed

section \<open>Properties: controllers\<close>

lemma errors_As_cases:
  assumes "OnFactoryError canceled now err = (d, None)" and "\<not> canceled"
    and "\<And>x. errors_As is_RequiresSpread err = Some x \<Longrightarrow> 0 < x"
  shows "0 < d"
  using assms by (auto simp: OnFactoryError_def minRateLimitRequeueDelay_def Second_def
      split: option.splits if_splits)

lemma OnReconcileError_positive:
  assumes "OnReconcileError canceled now p err = (d, None)" and "\<not> canceled" and "0 < successInterval p"
    and "\<And>x. errors_As is_RequiresSpread err = Some x \<Longrightarrow> 0 < x"
  shows "0 < d"
proof (cases "RequiresUserAction (Some err)")
  case True
  then show ?thesis
    using assms(1,3) by (auto simp: OnReconcileError_def userActionRequeueInterval_def split: if_splits)
next
  case False
  then show ?thesis
    using assms errors_As_cases [of canceled now err d] by (simp add: OnReconcileError_def)
qed

lemma deleted_after_nil:
  assumes "finalizer_law lib" and "Reconcile lib ck sched rc s = Some (s', None)"
    and "resourceWasDeleted lib rc s'"
  shows "ks_DeletionTimestamp s \<noteq> None \<and>
         snd (rc_ReconcileDeletion rc (ks_world (started lib ck rc s))) = None"
  using assms(2)
proof (cases rule: Reconcile_cases)
  case deleting
  then show ?thesis by (auto simp: finalize_def split: prod.splits option.splits)
next
  case run
  have "ks_DeletionTimestamp s' = None"
  proof -
    obtain s1 where s1: "same_meta s1 (prepared lib ck rc s)" "ks_DeletionTimestamp s' = ks_DeletionTimestamp s1"
      using run(2)
      by (auto simp: reconcile_run_def runReconciliations_def applyStatus_def Let_def
          split: prod.splits option.splits dest: run_groups_frame)
    then show ?thesis using same_meta_fields [OF s1(1)] run(1) by simp
  qed
  then show ?thesis using assms(3) by (simp add: resourceWasDeleted_def)
qed simp

text \<open>With a reconciler from the factory, the delay is positive unless the clean-up of a deleted resource has succeeded.\<close>

lemma live_reconciler_requeued:
  assumes "finalizer_law lib" and "rand_law rnd"
    and "1 \<le> SpreadIntervalMinutes cfg" and "SpreadIntervalMinutes cfg \<le> max_interval_minutes"
    and "ctl \<in> {RepositoryCtl_Reconcile, OrganizationCtl_Reconcile, TeamCtl_Reconcile}"
    and "ctl lib ck sched (NewRequeuePolicy cfg) rnd False now (Inr (Some (rc, s))) = Some (d, None)"
    and "\<forall>s' err x. Reconcile lib ck sched rc s = Some (s', Some err) \<longrightarrow>
           errors_As is_RequiresSpread err = Some x \<longrightarrow> 0 < x"
  shows "0 < d \<or> (ks_DeletionTimestamp s \<noteq> None \<and>
                   snd (rc_ReconcileDeletion rc (ks_world (started lib ck rc s))) = None)"
proof -
  let ?p = "NewRequeuePolicy cfg"
  have i: "0 < SpreadIntervalMinutes cfg * Minute" using assms(3) by (simp add: Minute_def)
  have s: "0 < OnSuccess rnd ?p"
    using OnSuccess_bounds [OF assms(2) _ assms(4)] assms(3) i by simp
  have p: "0 < successInterval ?p"
    using interval_exact(1) [of cfg] assms(3,4) i
    by (simp add: NewRequeuePolicy_def SuccessRequeueInterval_def)
  obtain s' err where r: "Reconcile lib ck sched rc s = Some (s', err)"
    using assms(5,6)
    by (auto simp: RepositoryCtl_Reconcile_def OrganizationCtl_Reconcile_def TeamCtl_Reconcile_def
        split: option.splits)
  show ?thesis
  proof (cases err)
    case None
    show ?thesis
    proof (cases "resourceWasDeleted lib rc s'")
      case True
      then show ?thesis using deleted_after_nil [OF assms(1) r [unfolded None]] by simp
    next
      case False
      then have "d = OnSuccess rnd ?p"
        using assms(5,6) r None
        by (auto simp: RepositoryCtl_Reconcile_def OrganizationCtl_Reconcile_def TeamCtl_Reconcile_def)
      with s show ?thesis by simp
    qed
  next
    case (Some e)
    consider "d \<in> {archivedRepoRequeueDelay, newRepoRequeueDelay, 30 * Second}"
      | "OnReconcileError False now ?p e = (d, None)"
      using assms(5,6) r Some
      by (auto simp: RepositoryCtl_Reconcile_def OrganizationCtl_Reconcile_def TeamCtl_Reconcile_def
          split: if_splits)
    then show ?thesis
    proof cases
      case 1
      then show ?thesis by (auto simp: archivedRepoRequeueDelay_def newRepoRequeueDelay_def Second_def)
    next
      case 2
      then show ?thesis using OnReconcileError_positive [OF 2 _ p] assms(7) r Some by blast
    qed
  qed
qed

text \<open>C10: no live resource is forgotten. Outside of a shutdown, every call of the three controllers, whatever the factory gives them, either hands an error to controller-runtime or
  asks for another run after a positive delay, unless the factory found no resource or the resource is being deleted and its clean-up has succeeded. So an error of the factory, e.g. for missing
  credentials or a rate limit, leads to another run as well. The spread interval is at least a minute, and the error that spreads the start carries a positive delay, as the spreading makes it.\<close>

theorem live_resource_requeued:
  assumes "finalizer_law lib" and "rand_law rnd"
    and "1 \<le> SpreadIntervalMinutes cfg" and "SpreadIntervalMinutes cfg \<le> max_interval_minutes"
    and "ctl \<in> {RepositoryCtl_Reconcile, OrganizationCtl_Reconcile, TeamCtl_Reconcile}"
    and "ctl lib ck sched (NewRequeuePolicy cfg) rnd False now factory = Some (d, None)"
    and "\<forall>err x. factory = Inl err \<or> (\<exists>rc s s'. factory = Inr (Some (rc, s)) \<and> Reconcile lib ck sched rc s = Some (s', Some err)) \<longrightarrow>
           errors_As is_RequiresSpread err = Some x \<longrightarrow> 0 < x"
  shows "0 < d \<or> factory = Inr None \<or>
    (\<exists>rc s. factory = Inr (Some (rc, s)) \<and> ks_DeletionTimestamp s \<noteq> None \<and> snd (rc_ReconcileDeletion rc (ks_world (started lib ck rc s))) = None)"
proof (cases factory)
  case (Inl err)
  then have "OnFactoryError False now err = (d, None)"
    using assms(5,6) by (auto simp: RepositoryCtl_Reconcile_def OrganizationCtl_Reconcile_def TeamCtl_Reconcile_def)
  then show ?thesis using errors_As_cases [of False now err d] assms(7) Inl by blast
next
  case (Inr found)
  show ?thesis
  proof (cases found)
    case (Some x)
    obtain rc s where x: "x = (rc, s)" by fastforce
    have "ctl lib ck sched (NewRequeuePolicy cfg) rnd False now (Inr (Some (rc, s))) = Some (d, None)" using assms(6) Inr Some x by simp
    moreover have "factory = Inr (Some (rc, s))" using Inr Some x by simp
    moreover from this have "\<forall>s' err x. Reconcile lib ck sched rc s = Some (s', Some err) \<longrightarrow> errors_As is_RequiresSpread err = Some x \<longrightarrow> 0 < x"
      using assms(7) by blast
    ultimately show ?thesis using live_reconciler_requeued [OF assms(1-5)] by blast
  qed (simp add: Inr)
qed

section \<open>Examples\<close>

definition ex_features :: features where
  "ex_features = \<lparr>EnableRequiredReviewersRules = False, EnableWebhooks = True,
     EnableStartupSpreading = True, EnableResilientGitHubAuth = False\<rparr>"

text \<open>The defaults of the environment variables.\<close>

definition ex_config :: operator_config where
  "ex_config = \<lparr>Features = ex_features,
     RateLimitConfig = \<lparr>StallThresholdCore = 100, ResetGracePeriodSeconds = 10, StalenessThresholdMinutes = 5\<rparr>,
     WatchNamespace = ''github'', AppCredentialsSecretNamespace = ''github'', RepositoryFinalizerMode = ''archive'',
     GitHubMemberSuffix = [], SpreadPeriodMinutes = 5, SpreadIntervalMinutes = 180,
     SuccessRequeueJitterPercent = 10, GitHubStateRequeueIntervalMinutes = 15\<rparr>"

definition ex_rand :: "int \<Rightarrow> int" where
  "ex_rand n = (if 0 < n then n - 1 else 0)"

lemma ex_rand_law: "rand_law ex_rand"
  by (simp add: rand_law_def ex_rand_def)

definition ex_warm :: "nat kstate" where
  "ex_warm = (ex_state None)\<lparr>ks_Conditions :=
     [\<lparr>cond_Type = TypeReady, cond_Status = ConditionTrue, cond_ObservedGeneration = 7,
       cond_LastTransitionTime = None, cond_Reason = ReasonReconcileCompleted, cond_Message = []\<rparr>]\<rparr>"

lemma spread_only_warm_and_in_window_witness:
  "\<exists>d. Spread ex_lib FormatInt ex_rand (2 * Minute) (2 * Minute) (Some (NewManager 0 ex_config)) ex_warm None =
         Some (RequiresSpreadError d (FormatInt d)) \<and> 0 < d \<and> 5 * Minute \<le> 2 * Minute + d \<and>
       2 * Minute + d < 185 * Minute"
proof -
  let ?m = "NewManager 0 ex_config"
  have "Spread ex_lib FormatInt ex_rand (2 * Minute) (2 * Minute) (Some ?m) ex_warm None \<noteq> None"
    by (simp add: Spread_def NewManager_def SpreadPeriod_def SpreadInterval_def wrap64_def Minute_def
        ex_config_def ex_features_def ex_warm_def ex_state_def GetObservedGeneration_def IsHealthy_def
        ex_lib_def time_Sub_def subResourcesChanged_def calculateSpreadDelay_def ex_rand_def sdiv_nonneg)
  then obtain e where e: "Spread ex_lib FormatInt ex_rand (2 * Minute) (2 * Minute) (Some ?m) ex_warm None = Some e"
    by blast
  have m: "StartTime ?m = 0" "sc_SpreadPeriod ?m = 5 * Minute" "sc_SpreadInterval ?m = 180 * Minute"
    by (simp_all add: NewManager_def SpreadPeriod_def SpreadInterval_def wrap64_def Minute_def ex_config_def)
  from spread_only_warm_and_in_window [OF ex_rand_law _ _ _ _ e] m e show ?thesis
    by (auto simp: Minute_def ex_warm_def ex_state_def)
qed

theorem success_requeue_bounds_witness:
  "180 * Minute \<le> OnSuccess ex_rand (NewRequeuePolicy ex_config) \<and>
   (OnSuccess ex_rand (NewRequeuePolicy ex_config) - 180 * Minute) * 100 \<le> 180 * Minute * 10"
  using success_requeue_bounds [OF ex_rand_law, of ex_config]
  by (simp add: ex_config_def SpreadInterval_def wrap64_def Minute_def max_interval_minutes_def jitter_percent_def)

lemma reconcile_error_requeue_witness:
  "snd (OnReconcileError False 0 (NewRequeuePolicy ex_config) (RateLimitedError (90 * Second) [])) = None \<and>
   90 * Second \<le> fst (OnReconcileError False 0 (NewRequeuePolicy ex_config) (RateLimitedError (90 * Second) []))"
proof -
  have "rate_limit_reset (RateLimitedError (90 * Second) []) = Some (90 * Second)"
      "\<not> RequiresUserAction (Some (RateLimitedError (90 * Second) []))"
    by (simp_all add: rate_limit_reset_def errors_As.simps is_RateLimitReached_def is_RateLimited_def
        RequiresUserAction_def requires_user_action.simps)
  then show ?thesis
    using reconcile_error_requeue [of "90 * Second" 0 False "NewRequeuePolicy ex_config"
        "RateLimitedError (90 * Second) []"]
    by (simp add: Second_def)
qed

theorem live_resource_requeued_witness:
  "(\<exists>d. RepositoryCtl_Reconcile ex_lib ex_clock ex_sched (NewRequeuePolicy ex_config) ex_rand False 0
          (Inr (Some (ex_rc None, ex_state None))) = Some (d, None) \<and> 0 < d) \<and>
   (\<exists>d. RepositoryCtl_Reconcile ex_lib ex_clock ex_sched (NewRequeuePolicy ex_config) ex_rand False 0
          (Inl (RateLimitedError (90 * Second) []) :: (go_error, ((unit, unit) reconciler \<times> unit kstate) option) result) = Some (d, None) \<and> 0 < d)"
proof -
  let ?p = "NewRequeuePolicy ex_config"
  obtain s' where r: "Reconcile ex_lib ex_clock ex_sched (ex_rc None) (ex_state None) = Some (s', None)"
    using ex_runs(2) by auto
  have "\<not> resourceWasDeleted ex_lib (ex_rc None) s'"
    using deleted_after_nil [OF ex_lib_laws(2) r] by (auto simp: ex_state_def)
  then have d: "RepositoryCtl_Reconcile ex_lib ex_clock ex_sched ?p ex_rand False 0
      (Inr (Some (ex_rc None, ex_state None))) = Some (OnSuccess ex_rand ?p, None)"
    by (simp add: RepositoryCtl_Reconcile_def r)
  have cfg: "1 \<le> SpreadIntervalMinutes ex_config" "SpreadIntervalMinutes ex_config \<le> max_interval_minutes"
    by (simp_all add: ex_config_def max_interval_minutes_def)
  with live_resource_requeued [of ex_lib ex_rand ex_config RepositoryCtl_Reconcile, OF ex_lib_laws(2) ex_rand_law _ _ _ d] r have "0 < OnSuccess ex_rand ?p"
    by (auto simp: ex_state_def)
  with d have first: "\<exists>d. RepositoryCtl_Reconcile ex_lib ex_clock ex_sched ?p ex_rand False 0 (Inr (Some (ex_rc None, ex_state None))) = Some (d, None) \<and> 0 < d" by blast
  let ?f = "Inl (RateLimitedError (90 * Second) []) :: (go_error, ((unit, unit) reconciler \<times> unit kstate) option) result"
  obtain d where d: "RepositoryCtl_Reconcile ex_lib ex_clock ex_sched ?p ex_rand False 0 ?f = Some (d, None)"
    by (simp add: RepositoryCtl_Reconcile_def OnFactoryError_def rate_limit_reset_def errors_As.simps is_RateLimitReached_def is_RateLimited_def)
  have "0 < d"
    using live_resource_requeued [of ex_lib ex_rand ex_config RepositoryCtl_Reconcile, OF ex_lib_laws(2) ex_rand_law cfg _ d]
    by (auto simp: errors_As.simps is_RequiresSpread_def)
  with d first show ?thesis by blast
qed

end
