(* ===== verification/RateLimit.thy ===== *)
theory RateLimit
  imports Requeue
begin

text \<open>
  The registry of GitHub rate limits per organization (\<^verbatim>\<open>internal/ratelimit\<close>) and the HTTP
  transport that feeds it from response headers (\<^verbatim>\<open>internal/ghclient/ratelimit_tracker.go\<close>). The
  registry's mutex makes each operation atomic. \<open>zero_time\<close> is Go's zero \<^verbatim>\<open>time.Time\<close> in
  nanoseconds since the Unix epoch.
\<close>

section \<open>Categories (internal/ratelimit/category.go)\<close>

type_synonym category = string

definition CategoryCore :: category where "CategoryCore = ''core''"
definition CategoryGraphQL :: category where "CategoryGraphQL = ''graphql''"
definition CategorySearch :: category where "CategorySearch = ''search''"
definition CategoryCodeSearch :: category where "CategoryCodeSearch = ''code_search''"

lemmas category_defs = CategoryCore_def CategoryGraphQL_def CategorySearch_def CategoryCodeSearch_def

definition MonitoredCategories :: "category list" where
  "MonitoredCategories = [CategoryCore, CategoryGraphQL, CategorySearch, CategoryCodeSearch]"

definition ClassifyByPath :: "string \<Rightarrow> category" where
  "ClassifyByPath path =
     (if path = ''/graphql'' then CategoryGraphQL
      else if HasPrefix path ''/search/code'' then CategoryCodeSearch
      else if HasPrefix path ''/search/'' then CategorySearch
      else CategoryCore)"

definition ClassifyRequest :: "string \<Rightarrow> string \<Rightarrow> category" where
  "ClassifyRequest path resourceHeader =
     (if resourceHeader \<noteq> [] then resourceHeader else ClassifyByPath path)"

section \<open>Registry (internal/ratelimit/org_registry.go)\<close>

record category_state =
  Remaining :: int
  Limit :: int
  ResetTime :: int
  LastUpdated :: int

record org_state =
  OrgLogin :: string
  AppID :: int
  Categories :: "(category, category_state) gomap"

record registry_config =
  CategoryThresholds :: "(category, int) gomap"
  rg_ResetGracePeriod :: int
  rg_StalenessThreshold :: int

record registry =
  states :: "(string, org_state) gomap"
  rg_config :: registry_config
  warnedUncovered :: "(string, unit) gomap"

definition NewOrgRateLimitRegistry :: "registry_config \<Rightarrow> registry" where
  "NewOrgRateLimitRegistry cfg = \<lparr>states = [], rg_config = cfg, warnedUncovered = []\<rparr>"

definition ConfiguredThresholds :: "operator_config \<Rightarrow> (category, int) gomap" where
  "ConfiguredThresholds cfg =
     [(CategoryCore, StallThresholdCore (RateLimitConfig cfg)),
      (CategorySearch, 0), (CategoryCodeSearch, 0), (CategoryGraphQL, 0)]"

text \<open>\<open>ord\<close> is the iteration order of the range loop.\<close>

definition NewOrgRateLimitRegistryFromConfig ::
    "((category \<times> int) list \<Rightarrow> (category \<times> int) list) \<Rightarrow> operator_config \<Rightarrow> registry" where
  "NewOrgRateLimitRegistryFromConfig ord cfg =
     (let thresholds = fold (\<lambda>(cat, val) m. if val > 0 then map_put cat val m else m)
                         (ord (ConfiguredThresholds cfg)) []
      in NewOrgRateLimitRegistry
           \<lparr>CategoryThresholds = thresholds,
            rg_ResetGracePeriod = ResetGracePeriod (RateLimitConfig cfg),
            rg_StalenessThreshold = StalenessThreshold (RateLimitConfig cfg)\<rparr>)"

definition isMonitored :: "category \<Rightarrow> bool" where
  "isMonitored cat = List.member MonitoredCategories cat"

definition getOrCreateOrgState :: "string \<Rightarrow> int \<Rightarrow> registry \<Rightarrow> org_state" where
  "getOrCreateOrgState org appID r =
     (case map_get (states r) org of
        Some st \<Rightarrow> st
      | None \<Rightarrow> \<lparr>OrgLogin = org, AppID = appID, Categories = []\<rparr>)"

definition warnIfUncovered :: "string \<Rightarrow> category \<Rightarrow> registry \<Rightarrow> registry" where
  "warnIfUncovered org cat r =
     (if map_get (CategoryThresholds (rg_config r)) cat \<noteq> None then r
      else
        (let key = org @ ''/'' @ cat
         in if map_get (warnedUncovered r) key \<noteq> None then r
            else r\<lparr>warnedUncovered := map_put key () (warnedUncovered r)\<rparr>))"

definition put_category :: "string \<Rightarrow> int \<Rightarrow> category \<Rightarrow> category_state \<Rightarrow> registry \<Rightarrow> registry" where
  "put_category org appID cat cs r =
     (let st = getOrCreateOrgState org appID r
      in r\<lparr>states := map_put org (st\<lparr>Categories := map_put cat cs (Categories st)\<rparr>) (states r)\<rparr>)"

definition Update :: "int \<Rightarrow> string \<Rightarrow> category \<Rightarrow> int \<Rightarrow> int \<Rightarrow> int \<Rightarrow> int \<Rightarrow> registry \<Rightarrow> registry" where
  "Update now org cat remaining limit resetTime appID r =
     (if \<not> isMonitored cat then r
      else
        put_category org appID cat
          \<lparr>Remaining = remaining, Limit = limit, ResetTime = resetTime, LastUpdated = now\<rparr>
          (warnIfUncovered org cat r))"

text \<open>
  \<^verbatim>\<open>github.RateLimits\<close>: each monitored category may be missing. A rate is (remaining, limit, reset).
\<close>

record rate_limits =
  rl_Core :: "(int \<times> int \<times> int) option"
  rl_GraphQL :: "(int \<times> int \<times> int) option"
  rl_Search :: "(int \<times> int \<times> int) option"
  rl_CodeSearch :: "(int \<times> int \<times> int) option"

definition record_rate ::
    "int \<Rightarrow> string \<Rightarrow> int \<Rightarrow> category \<Rightarrow> (int \<times> int \<times> int) option \<Rightarrow> registry \<Rightarrow> registry" where
  "record_rate now org appID cat rate r =
     (case rate of
        None \<Rightarrow> r
      | Some (rem, lim, reset) \<Rightarrow>
          put_category org appID cat
            \<lparr>Remaining = rem, Limit = lim, ResetTime = reset, LastUpdated = now\<rparr> r)"

definition UpdateFromRateLimitResponse ::
    "int \<Rightarrow> string \<Rightarrow> rate_limits option \<Rightarrow> int \<Rightarrow> registry \<Rightarrow> registry" where
  "UpdateFromRateLimitResponse now org rateLimits appID r =
     (case rateLimits of
        None \<Rightarrow> r
      | Some rl \<Rightarrow>
          (let r0 = r\<lparr>states := map_put org (getOrCreateOrgState org appID r) (states r)\<rparr>;
               r1 = record_rate now org appID CategoryCore (rl_Core rl) r0;
               r2 = record_rate now org appID CategoryGraphQL (rl_GraphQL rl) r1;
               r3 = record_rate now org appID CategorySearch (rl_Search rl) r2
           in record_rate now org appID CategoryCodeSearch (rl_CodeSearch rl) r3))"

text \<open>
  The loop of \<open>ShouldStall\<close>; \<open>now i\<close> is the clock when the i-th category is looked at.
\<close>

fun stall_loop ::
    "(nat \<Rightarrow> int) \<Rightarrow> registry_config \<Rightarrow> org_state \<Rightarrow> nat \<Rightarrow> category list \<Rightarrow> bool \<times> int \<Rightarrow> bool \<times> int" where
  "stall_loop now cfg st i [] acc = acc"
| "stall_loop now cfg st i (cat # cats) (stalled, maxDelay) =
     (case map_get (CategoryThresholds cfg) cat of
        None \<Rightarrow> stall_loop now cfg st (Suc i) cats (stalled, maxDelay)
      | Some threshold \<Rightarrow>
          (case map_get (Categories st) cat of
             None \<Rightarrow> stall_loop now cfg st (Suc i) cats (stalled, maxDelay)
           | Some cs \<Rightarrow>
               if Remaining cs < threshold then
                 (let delay = time_Sub (ResetTime cs + rg_ResetGracePeriod cfg) (now i)
                  in if delay \<le> 0 then stall_loop now cfg st (Suc i) cats (stalled, maxDelay)
                     else stall_loop now cfg st (Suc i) cats
                            (True, if delay > maxDelay then delay else maxDelay))
               else stall_loop now cfg st (Suc i) cats (stalled, maxDelay)))"

definition ShouldStall :: "(nat \<Rightarrow> int) \<Rightarrow> string \<Rightarrow> category list \<Rightarrow> registry \<Rightarrow> bool \<times> int" where
  "ShouldStall now org categories r =
     (case map_get (states r) org of
        None \<Rightarrow> (False, 0)
      | Some st \<Rightarrow>
          stall_loop now (rg_config r) st 0
            (if categories = [] then MonitoredCategories else categories) (False, 0))"

definition zero_time :: int where
  "zero_time = - 62135596800000000000"

text \<open>\<^verbatim>\<open>IsZero\<close> and \<^verbatim>\<open>After\<close> on the running maximum over the categories.\<close>

definition most_recent :: "category_state list \<Rightarrow> int" where
  "most_recent css = fold (\<lambda>cs t. if LastUpdated cs > t then LastUpdated cs else t) css zero_time"

definition IsStale :: "int \<Rightarrow> string \<Rightarrow> registry \<Rightarrow> bool" where
  "IsStale now org r =
     (case map_get (states r) org of
        None \<Rightarrow> True
      | Some st \<Rightarrow>
          (let mostRecent = most_recent (map snd (Categories st))
           in if mostRecent = zero_time then True
              else time_Sub now mostRecent > rg_StalenessThreshold (rg_config r)))"

definition GetState :: "string \<Rightarrow> registry \<Rightarrow> org_state option" where
  "GetState org r = map_get (states r) org"

definition GetCategoryState :: "string \<Rightarrow> category \<Rightarrow> registry \<Rightarrow> category_state option" where
  "GetCategoryState org cat r =
     (case map_get (states r) org of
        None \<Rightarrow> None
      | Some st \<Rightarrow> map_get (Categories st) cat)"

section \<open>Header tracking (internal/ghclient/ratelimit_tracker.go)\<close>

record http_response =
  h_Remaining :: string
  h_Limit :: string
  h_Reset :: string
  h_Resource :: string

definition parseRateLimitIntHeader :: "string \<Rightarrow> int" where
  "parseRateLimitIntHeader s = (if s = [] then - 1 else (case ParseInt s of None \<Rightarrow> - 1 | Some v \<Rightarrow> v))"

definition parseRateLimitInt64Header :: "string \<Rightarrow> int" where
  "parseRateLimitInt64Header s = (if s = [] then 0 else (case ParseInt s of None \<Rightarrow> 0 | Some v \<Rightarrow> v))"

text \<open>
  \<open>RoundTrip\<close> after the inner transport answered: a transport error or no response leaves the
  registry alone.
\<close>

definition RoundTrip :: "int \<Rightarrow> string \<Rightarrow> int \<Rightarrow> string \<Rightarrow> http_response option \<Rightarrow> registry \<Rightarrow> registry" where
  "RoundTrip now org appID path resp r =
     (case resp of
        None \<Rightarrow> r
      | Some h \<Rightarrow>
          (let remaining = parseRateLimitIntHeader (h_Remaining h);
               limit = parseRateLimitIntHeader (h_Limit h);
               resetEpoch = parseRateLimitInt64Header (h_Reset h)
           in if remaining \<ge> 0 \<and> limit > 0 \<and> resetEpoch > 0
              then Update now org (ClassifyRequest path (h_Resource h)) remaining limit
                     (resetEpoch * Second) appID r
              else r))"

section \<open>Invariant\<close>

definition org_state_ok :: "string \<Rightarrow> org_state \<Rightarrow> bool" where
  "org_state_ok org st \<longleftrightarrow>
     OrgLogin st = org \<and> gomap_ok (Categories st) \<and>
     fst ` set (Categories st) \<subseteq> set MonitoredCategories"

definition registry_inv :: "registry \<Rightarrow> bool" where
  "registry_inv r \<longleftrightarrow>
     gomap_ok (states r) \<and> gomap_ok (warnedUncovered r) \<and>
     (\<forall>org st. map_get (states r) org = Some st \<longrightarrow> org_state_ok org st)"

lemma isMonitored_iff [simp]: "isMonitored cat \<longleftrightarrow> cat \<in> set MonitoredCategories"
  by (simp add: isMonitored_def)

lemma monitored_categories [simp]:
  "CategoryCore \<in> set MonitoredCategories" "CategoryGraphQL \<in> set MonitoredCategories"
  "CategorySearch \<in> set MonitoredCategories" "CategoryCodeSearch \<in> set MonitoredCategories"
  by (simp_all add: MonitoredCategories_def)

lemma registry_inv_new: "registry_inv (NewOrgRateLimitRegistry cfg)"
  by (simp add: registry_inv_def NewOrgRateLimitRegistry_def)

lemma getOrCreate_ok: "registry_inv r \<Longrightarrow> org_state_ok org (getOrCreateOrgState org appID r)"
  by (auto simp: registry_inv_def getOrCreateOrgState_def org_state_ok_def split: option.splits)

lemma registry_inv_put:
  assumes "registry_inv r" and "org_state_ok org st"
  shows "registry_inv (r\<lparr>states := map_put org st (states r)\<rparr>)"
  using assms by (auto simp: registry_inv_def)

lemma registry_inv_put_category:
  assumes "registry_inv r" and "cat \<in> set MonitoredCategories"
  shows "registry_inv (put_category org appID cat cs r)"
proof -
  let ?st = "getOrCreateOrgState org appID r"
  have "org_state_ok org (?st\<lparr>Categories := map_put cat cs (Categories ?st)\<rparr>)"
    using getOrCreate_ok [OF assms(1), of org appID] assms(2)
    by (auto simp: org_state_ok_def dom_update)
  then show ?thesis
    unfolding put_category_def Let_def by (rule registry_inv_put [OF assms(1)])
qed

lemma registry_inv_warn: "registry_inv r \<Longrightarrow> registry_inv (warnIfUncovered org cat r)"
  by (simp add: registry_inv_def warnIfUncovered_def Let_def)

lemma registry_inv_Update: "registry_inv r \<Longrightarrow> registry_inv (Update now org cat re li rt app r)"
  by (simp add: Update_def registry_inv_put_category registry_inv_warn)

lemma registry_inv_record:
  "registry_inv r \<Longrightarrow> cat \<in> set MonitoredCategories \<Longrightarrow> registry_inv (record_rate now org app cat rate r)"
  by (cases rate) (auto simp: record_rate_def registry_inv_put_category)

lemma registry_inv_response: "registry_inv r \<Longrightarrow> registry_inv (UpdateFromRateLimitResponse now org rl app r)"
  by (auto simp: UpdateFromRateLimitResponse_def Let_def registry_inv_record registry_inv_put
      getOrCreate_ok split: option.splits)

lemma warn_frame [simp]:
  "states (warnIfUncovered org cat r) = states r" "rg_config (warnIfUncovered org cat r) = rg_config r"
  by (simp_all add: warnIfUncovered_def Let_def)

lemma put_category_config [simp]: "rg_config (put_category org app cat cs r) = rg_config r"
  by (simp add: put_category_def Let_def)

lemma record_rate_config [simp]: "rg_config (record_rate now org app cat rate r) = rg_config r"
  by (simp add: record_rate_def split: option.split prod.split)

lemma Update_config [simp]: "rg_config (Update now org cat re li rt app r) = rg_config r"
  by (simp add: Update_def)

lemma response_config [simp]: "rg_config (UpdateFromRateLimitResponse now org rl app r) = rg_config r"
  by (simp add: UpdateFromRateLimitResponse_def Let_def split: option.split)

section \<open>The registry as a key-value store\<close>

lemma GetCategoryState_put_category:
  "GetCategoryState org' cat' (put_category org app cat cs r) =
     (if org' = org \<and> cat' = cat then Some cs else GetCategoryState org' cat' r)"
  by (auto simp: GetCategoryState_def put_category_def Let_def getOrCreateOrgState_def split: option.splits)

lemma GetCategoryState_warn [simp]:
  "GetCategoryState org' cat' (warnIfUncovered org cat r) = GetCategoryState org' cat' r"
  by (simp add: GetCategoryState_def)

lemma GetCategoryState_record:
  "GetCategoryState org' cat' (record_rate now org app cat rate r) =
     (case rate of
        Some (re, li, rt) \<Rightarrow>
          if org' = org \<and> cat' = cat
          then Some \<lparr>Remaining = re, Limit = li, ResetTime = rt, LastUpdated = now\<rparr>
          else GetCategoryState org' cat' r
      | None \<Rightarrow> GetCategoryState org' cat' r)"
  by (auto simp: record_rate_def GetCategoryState_put_category split: option.splits)

text \<open>One observation of a response: when, how much is left, the limit, the reset time and the app.\<close>

type_synonym observation = "int \<times> int \<times> int \<times> int \<times> int"

definition observe :: "string \<times> category \<Rightarrow> observation \<Rightarrow> registry \<Rightarrow> registry" where
  "observe k w r =
     (case (k, w) of ((org, cat), (now, re, li, rt, app)) \<Rightarrow> Update now org cat re li rt app r)"

definition observed_state :: "observation \<Rightarrow> category_state" where
  "observed_state w =
     (case w of (now, re, li, rt, app) \<Rightarrow>
        \<lparr>Remaining = re, Limit = li, ResetTime = rt, LastUpdated = now\<rparr>)"

interpretation registry_store: kv_store registry_inv "\<lambda>(org, cat). isMonitored cat"
    "\<lambda>r (org, cat). GetCategoryState org cat r" observe observed_state
proof
  fix s k w
  assume "registry_inv s"
  then show "registry_inv (observe k w s)"
    by (auto simp: observe_def registry_inv_Update split: prod.split)
qed (auto simp: observe_def observed_state_def Update_def GetCategoryState_put_category split: prod.splits)

section \<open>Stalling\<close>

text \<open>The delay a category asks for when it is looked at as the i-th one, if it is exhausted.\<close>

definition stall_delay :: "registry_config \<Rightarrow> org_state \<Rightarrow> int \<Rightarrow> category \<Rightarrow> int option" where
  "stall_delay cfg st now cat =
     (case (map_get (CategoryThresholds cfg) cat, map_get (Categories st) cat) of
        (Some threshold, Some cs) \<Rightarrow>
          (let delay = time_Sub (ResetTime cs + rg_ResetGracePeriod cfg) now
           in if Remaining cs < threshold \<and> 0 < delay then Some delay else None)
      | _ \<Rightarrow> None)"

lemma stall_loop_Cons:
  "stall_loop now cfg st i (cat # cats) (stalled, m) =
     stall_loop now cfg st (Suc i) cats
       (case stall_delay cfg st (now i) cat of None \<Rightarrow> (stalled, m) | Some d \<Rightarrow> (True, max d m))"
  by (auto simp: stall_delay_def Let_def max_def split: option.splits)

lemma stall_loop_delays:
  "stall_loop now cfg st i cats (stalled, m) =
     (let ds = List.map_filter (\<lambda>(j, cat). stall_delay cfg st (now j) cat) (enumerate i cats)
      in (stalled \<or> ds \<noteq> [], fold max ds m))"
proof (induction cats arbitrary: i stalled m)
  case (Cons cat cats)
  show ?case
    by (cases "stall_delay cfg st (now i) cat")
      (simp_all add: stall_loop_Cons Cons.IH Let_def List.map_filter_simps del: stall_loop.simps)
qed (simp add: List.map_filter_simps)

lemma fold_max_bounds:
  fixes m :: int
  shows "m \<le> fold max ds m \<and> (\<forall>d \<in> set ds. d \<le> fold max ds m) \<and> (fold max ds m = m \<or> fold max ds m \<in> set ds)"
proof (induction ds arbitrary: m)
  case (Cons d ds)
  from Cons.IH [of "max d m"] show ?case by (auto simp: max_def split: if_splits)
qed simp

lemma stall_delay_pos: "stall_delay cfg st now cat = Some d \<Longrightarrow> 0 < d"
  by (auto simp: stall_delay_def Let_def split: option.splits if_splits)

lemma set_map_filter_enumerate:
  "set (List.map_filter (\<lambda>(j, cat). f j cat) (enumerate i cats)) =
     {d. \<exists>j < length cats. f (i + j) (cats ! j) = Some d}"
proof (induction cats arbitrary: i)
  case (Cons cat cats)
  show ?case
    using Cons.IH [of "Suc i"] by (auto simp: List.map_filter_simps Ex_less_Suc2 split: option.splits)
qed (simp add: List.map_filter_simps)

lemma ShouldStall_spec:
  assumes "map_get (states r) org = Some st"
  shows "fst (ShouldStall now org cats r) \<longleftrightarrow>
           (\<exists>j < length (if cats = [] then MonitoredCategories else cats).
              stall_delay (rg_config r) st (now j) ((if cats = [] then MonitoredCategories else cats) ! j) \<noteq> None)"
    and "j < length (if cats = [] then MonitoredCategories else cats) \<Longrightarrow>
         stall_delay (rg_config r) st (now j) ((if cats = [] then MonitoredCategories else cats) ! j) = Some d \<Longrightarrow>
         d \<le> snd (ShouldStall now org cats r)"
    and "fst (ShouldStall now org cats r) \<Longrightarrow>
         \<exists>j < length (if cats = [] then MonitoredCategories else cats).
            stall_delay (rg_config r) st (now j) ((if cats = [] then MonitoredCategories else cats) ! j) =
              Some (snd (ShouldStall now org cats r))"
proof -
  let ?cats = "if cats = [] then MonitoredCategories else cats"
  define ds where "ds = List.map_filter (\<lambda>(j, cat). stall_delay (rg_config r) st (now j) cat) (enumerate 0 ?cats)"
  have s: "ShouldStall now org cats r = (ds \<noteq> [], fold max ds 0)"
    by (simp add: ShouldStall_def assms stall_loop_delays Let_def ds_def)
  have set: "set ds = {d. \<exists>j < length ?cats. stall_delay (rg_config r) st (now j) (?cats ! j) = Some d}"
    unfolding ds_def by (subst set_map_filter_enumerate) simp
  have pos: "0 < d" if "d \<in> set ds" for d using that stall_delay_pos unfolding set by blast
  show "fst (ShouldStall now org cats r) \<longleftrightarrow>
      (\<exists>j < length ?cats. stall_delay (rg_config r) st (now j) (?cats ! j) \<noteq> None)"
  proof -
    have "ds \<noteq> [] \<longleftrightarrow> (\<exists>d. d \<in> set ds)" by (cases ds) auto
    then show ?thesis unfolding s fst_conv set by (simp only: mem_Collect_eq) blast
  qed
  show "d \<le> snd (ShouldStall now org cats r)"
    if "j < length ?cats" "stall_delay (rg_config r) st (now j) (?cats ! j) = Some d"
    using fold_max_bounds [of 0 ds] set that unfolding s by auto
  show "\<exists>j < length ?cats. stall_delay (rg_config r) st (now j) (?cats ! j) =
      Some (snd (ShouldStall now org cats r))" if "fst (ShouldStall now org cats r)"
  proof -
    have "ds \<noteq> []" using that s by simp
    then obtain d where "d \<in> set ds" by (cases ds) auto
    then have "fold max ds 0 \<in> set ds"
      using fold_max_bounds [of 0 ds] pos [of d] by force
    then show ?thesis unfolding s set by simp
  qed
qed

lemma most_recent_ge: "zero_time \<le> most_recent css \<and> (\<forall>cs \<in> set css. LastUpdated cs \<le> most_recent css)"
proof -
  have "t \<le> fold (\<lambda>cs t. if LastUpdated cs > t then LastUpdated cs else t) css t \<and>
      (\<forall>cs \<in> set css. LastUpdated cs \<le> fold (\<lambda>cs t. if LastUpdated cs > t then LastUpdated cs else t) css t)" for t
  proof (induction css arbitrary: t)
    case (Cons cs css)
    from Cons.IH [of "if LastUpdated cs > t then LastUpdated cs else t"] show ?case
      by (auto split: if_splits)
  qed simp
  then show ?thesis by (simp add: most_recent_def)
qed

section \<open>Properties\<close>

text \<open>C16: whatever responses are observed, for any organizations and categories and in any order,
  the registry stays well formed (entries filed under their organization, monitored categories
  only) and reports for each organization and monitored category the last observation made.\<close>

theorem registry_reports_last_observation:
  assumes "registry_inv r"
  shows "registry_inv (fold (\<lambda>(k, w). observe k w) kws r) \<and>
         GetCategoryState org cat (fold (\<lambda>(k, w). observe k w) kws r) =
           (case find (\<lambda>(k, w). k = (org, cat) \<and> isMonitored cat) (rev kws) of
              Some (k, w) \<Rightarrow> Some (observed_state w)
            | None \<Rightarrow> GetCategoryState org cat r)"
proof -
  have p: "(\<lambda>(k', w). k' = (org, cat) \<and> (case k' of (org, cat) \<Rightarrow> isMonitored cat)) =
      (\<lambda>(k, w :: observation). k = (org, cat) \<and> isMonitored cat)"
    by auto
  show ?thesis
    using registry_store.puts_inv [OF assms, of kws, unfolded registry_store.puts_def]
      registry_store.last_write_wins [OF assms, of kws "(org, cat)", unfolded registry_store.puts_def p]
    by (auto split: option.splits)
qed

text \<open>An organization is stalled exactly if one of the categories asked for has a threshold,
  is below it and has not passed its reset time plus grace period; the reported delay is the
  longest one any of these categories needs.\<close>

lemma stall_iff_exhausted:
  assumes "map_get (states r) org = Some st"
    and "cs = (if cats = [] then MonitoredCategories else cats)"
  shows "(fst (ShouldStall now org cats r) \<longleftrightarrow>
            (\<exists>j < length cs. stall_delay (rg_config r) st (now j) (cs ! j) \<noteq> None)) \<and>
         (\<forall>j < length cs. \<forall>d. stall_delay (rg_config r) st (now j) (cs ! j) = Some d \<longrightarrow>
            d \<le> snd (ShouldStall now org cats r)) \<and>
         (fst (ShouldStall now org cats r) \<longrightarrow>
            (\<exists>j < length cs. stall_delay (rg_config r) st (now j) (cs ! j) =
               Some (snd (ShouldStall now org cats r))))"
  unfolding assms(2)
  using ShouldStall_spec(1) [OF assms(1), of now cats] ShouldStall_spec(2) [OF assms(1), where cats = cats and now = now]
    ShouldStall_spec(3) [OF assms(1), of now cats]
  by blast

section \<open>Examples\<close>

definition ex_registry :: registry where
  "ex_registry = NewOrgRateLimitRegistryFromConfig (\<lambda>m. m) ex_config"

definition ex_low :: registry where
  "ex_low = Update 0 ''acme'' CategoryCore 50 5000 (600 * Second) 7 ex_registry"

theorem registry_reports_last_observation_witness:
  "GetCategoryState ''acme'' ''core''
     (fold (\<lambda>(k, w). observe k w)
        [((''acme'', ''core''), (1, 90, 5000, 10, 7)), ((''acme'', ''core''), (2, 89, 5000, 10, 7)),
         ((''acme'', ''unknown''), (3, 1, 1, 1, 7))] ex_registry) =
   Some \<lparr>Remaining = 89, Limit = 5000, ResetTime = 10, LastUpdated = 2\<rparr>"
proof -
  have inv: "registry_inv ex_registry"
    by (simp add: ex_registry_def NewOrgRateLimitRegistryFromConfig_def Let_def registry_inv_new)
  show ?thesis
    unfolding registry_reports_last_observation [OF inv, THEN conjunct2]
    by (simp add: observed_state_def MonitoredCategories_def category_defs)
qed

lemma stall_iff_exhausted_witness:
  "fst (ShouldStall (\<lambda>j. 60 * Second) ''acme'' [] ex_low) \<and>
   snd (ShouldStall (\<lambda>j. 60 * Second) ''acme'' [] ex_low) \<ge> 550 * Second"
proof -
  define st where "st = \<lparr>OrgLogin = ''acme'', AppID = 7, Categories =
    [(CategoryCore, \<lparr>Remaining = 50, Limit = 5000, ResetTime = 600 * Second, LastUpdated = 0\<rparr>)]\<rparr>"
  have st: "map_get (states ex_low) ''acme'' = Some st"
    by (simp add: ex_low_def ex_registry_def Update_def put_category_def getOrCreateOrgState_def st_def
        NewOrgRateLimitRegistryFromConfig_def NewOrgRateLimitRegistry_def Let_def MonitoredCategories_def)
  have cfg: "rg_config ex_low = rg_config ex_registry"
    by (simp add: ex_low_def)
  have d: "stall_delay (rg_config ex_low) st (60 * Second) (MonitoredCategories ! 0) = Some (550 * Second)"
    unfolding cfg
    by (simp add: stall_delay_def st_def ex_registry_def NewOrgRateLimitRegistryFromConfig_def
        NewOrgRateLimitRegistry_def ConfiguredThresholds_def ex_config_def MonitoredCategories_def
        category_defs ResetGracePeriod_def wrap64_def Second_def time_Sub_def)
  have "0 < length MonitoredCategories" by (simp add: MonitoredCategories_def)
  with stall_iff_exhausted [OF st refl, of "\<lambda>j. 60 * Second" "[]"] d show ?thesis by auto
qed

end
