(* ===== verification/ClientFactory.thy ===== *)
theory ClientFactory
  imports RateLimit
begin

text \<open>
  The factory that creates, caches and rate-limits GitHub clients
  (\<^verbatim>\<open>internal/ghclient/factory.go\<close>). A client is described by its stack of HTTP middlewares, bottom
  first; the middlewares themselves are library code or modelled elsewhere. PEM and RSA decoding is
  the parameter \<open>parseKey\<close>, the Kubernetes secret lookup the parameter \<open>secretProvider\<close>.
\<close>

section \<open>Clients and state\<close>

datatype 'key layer =
    PrimaryLimiter nat
  | SecondaryLimiter
  | SharedLimiter nat
  | Authorize int int 'key bool
  | Tracker string int
  | RetryTransport
  | Pagination nat
  | OtelTransport string

record 'key gh_client =
  gc_Transport :: "'key layer list"
  gc_Timeout :: int
  gc_CacheTTL :: "int option"

record client_config =
  Timeout :: int
  ResponseCacheTTL :: int
  ResilientAuth :: bool

record app_config =
  InstallationID :: int
  CredentialsSecretName :: string

record 'key client_info =
  ci_Client :: "'key gh_client"
  ci_InstallationID :: int
  ci_CacheKey :: string
  ci_SecretName :: string
  ci_OrgLogin :: string

record 'key app_credentials =
  cr_AppID :: int
  cr_PrivateKey :: 'key

text \<open>Limiter states are numbered; \<open>fa_nextState\<close> is the next number.\<close>

record 'key client_factory =
  fa_clients :: "(string, 'key client_info) gomap"
  fa_config :: client_config
  fa_credentials :: "(string, 'key app_credentials) gomap"
  fa_rateLimitStates :: "(int, nat) gomap"
  fa_nextState :: nat
  fa_legacySecretName :: string
  fa_orgRegistry :: "registry option"

definition DefaultClientConfig :: client_config where
  "DefaultClientConfig = \<lparr>Timeout = 2 * Minute, ResponseCacheTTL = 5 * Minute, ResilientAuth = False\<rparr>"

definition NewGitHubCachingClientFactory ::
    "client_config option \<Rightarrow> string \<Rightarrow> registry option \<Rightarrow> 'key client_factory" where
  "NewGitHubCachingClientFactory config legacySecretName orgRegistry =
     \<lparr>fa_clients = [], fa_config = WithDefault config DefaultClientConfig, fa_credentials = [],
      fa_rateLimitStates = [], fa_nextState = 0, fa_legacySecretName = legacySecretName,
      fa_orgRegistry = orgRegistry\<rparr>"

section \<open>Credentials\<close>

text \<open>
  The text of \<^verbatim>\<open>strconv\<close>'s error, and \<^verbatim>\<open>parseAppID\<close>; its format string \<^verbatim>\<open>%sw\<close> prints the error
  followed by the letter w.
\<close>

definition num_error_text :: "string \<Rightarrow> string" where
  "num_error_text s =
     ''strconv.ParseInt: parsing '' @ quoted s @
     (if parse_digits (case s of c # cs \<Rightarrow> if c = CHR ''-'' \<or> c = CHR ''+'' then cs else s | [] \<Rightarrow> []) = None
      then '': invalid syntax'' else '': value out of range'')"

definition parseAppID :: "string \<Rightarrow> (go_error, int) result" where
  "parseAppID value =
     (if value = [] then Inl (PlainError ''app ID cannot be empty'')
      else
        (case ParseInt value of
           None \<Rightarrow> Inl (PlainError (''invalid app ID format - must be a number: '' @ num_error_text value @ ''w''))
         | Some i \<Rightarrow> if i \<le> 0 then Inl (PlainError ''app ID must be positive'') else Inr i))"

type_synonym secret = "(string, string) gomap"

definition secret_data :: "secret \<Rightarrow> string \<Rightarrow> string" where
  "secret_data s k = (case map_get s k of Some v \<Rightarrow> v | None \<Rightarrow> [])"

definition parseCredentials ::
    "(string \<Rightarrow> (go_error, 'key) result) \<Rightarrow> secret \<Rightarrow> (go_error, 'key app_credentials) result" where
  "parseCredentials parseKey secret =
     (let appIDStr = secret_data secret ''app-id'';
          privateKeyData = secret_data secret ''private-key''
      in if appIDStr = [] \<or> privateKeyData = []
         then Inl (PlainError ''GitHub App secret is missing required fields (app-id, app-installation-id, private-key)'')
         else
           (case parseAppID appIDStr of
              Inl e \<Rightarrow> Inl (WrapError ''invalid app-id in secret'' e)
            | Inr appID \<Rightarrow>
                (case parseKey privateKeyData of
                   Inl e \<Rightarrow> Inl (WrapError ''invalid private-key in secret'' e)
                 | Inr key \<Rightarrow> Inr \<lparr>cr_AppID = appID, cr_PrivateKey = key\<rparr>)))"

section \<open>Building a client\<close>

definition buildMiddlewareStack ::
    "string \<Rightarrow> 'key app_credentials \<Rightarrow> int \<Rightarrow> string \<Rightarrow> 'key client_factory \<Rightarrow>
     'key client_factory \<times> 'key layer list" where
  "buildMiddlewareStack clientName creds installationID orgLogin m =
     (let (m1, limiter) =
            (case map_get (fa_rateLimitStates m) (cr_AppID creds) of
               None \<Rightarrow>
                 (m\<lparr>fa_rateLimitStates := map_put (cr_AppID creds) (fa_nextState m) (fa_rateLimitStates m),
                    fa_nextState := Suc (fa_nextState m)\<rparr>,
                  [PrimaryLimiter (fa_nextState m), SecondaryLimiter])
             | Some st \<Rightarrow> (m, [SharedLimiter st]));
          auth = [Authorize (cr_AppID creds) installationID (cr_PrivateKey creds) (ResilientAuth (fa_config m))];
          tracker = (if fa_orgRegistry m \<noteq> None then [Tracker orgLogin (cr_AppID creds)] else [])
      in (m1, limiter @ auth @ tracker @ [RetryTransport, Pagination 30, OtelTransport clientName]))"

text \<open>
  What comes from outside: the secrets by name, the parser of private keys, and the constructor \<^verbatim>\<open>github.NewClient\<close> of the library, which may reject its options. It
  is called after the stack has been built, so the shared rate limit state stays even if there is no client.
\<close>

record 'key secret_env =
  se_secretProvider :: "string \<Rightarrow> (go_error, secret option) result"
  se_parseKey :: "string \<Rightarrow> (go_error, 'key) result"
  se_NewClient :: "'key layer list \<Rightarrow> int \<Rightarrow> go_error option"

definition buildClientWithMiddleware ::
    "'key secret_env \<Rightarrow> int \<Rightarrow> 'key app_credentials \<Rightarrow> string \<Rightarrow> 'key client_factory \<Rightarrow>
     'key client_factory \<times> (go_error, 'key gh_client) result" where
  "buildClientWithMiddleware env installationID creds orgLogin m =
     (case buildMiddlewareStack (''github-'' @ FormatInt installationID) creds installationID orgLogin m of
        (m1, stack) \<Rightarrow>
          (case se_NewClient env stack (Timeout (fa_config m)) of
             Some e \<Rightarrow> (m1, Inl e)
           | None \<Rightarrow> (m1, Inr \<lparr>gc_Transport = stack, gc_Timeout = Timeout (fa_config m), gc_CacheTTL = None\<rparr>)))"

definition createClient ::
    "'key secret_env \<Rightarrow> int \<Rightarrow> string \<Rightarrow> string \<Rightarrow> 'key client_factory \<Rightarrow>
     'key client_factory \<times> (go_error, 'key gh_client) result" where
  "createClient env installationID secretName orgLogin m =
     (case map_get (fa_credentials m) secretName of
        Some creds \<Rightarrow> buildClientWithMiddleware env installationID creds orgLogin m
      | None \<Rightarrow>
          (case se_secretProvider env secretName of
             Inl e \<Rightarrow> (m, Inl e)
           | Inr None \<Rightarrow> (m, Inl (PlainError ''GitHub app credentials secret cannot be nil''))
           | Inr (Some secret) \<Rightarrow>
               (case parseCredentials (se_parseKey env) secret of
                  Inl e \<Rightarrow> (m, Inl e)
                | Inr creds \<Rightarrow>
                    buildClientWithMiddleware env installationID creds orgLogin
                      (m\<lparr>fa_credentials := map_put secretName creds (fa_credentials m)\<rparr>))))"

section \<open>Handing out clients\<close>

text \<open>
  The clock readings of one gate check: the two stall checks (per category), the staleness check,
  the refresh and the two error times.
\<close>

record gate_clock =
  gk_stall1 :: "nat \<Rightarrow> int"
  gk_err1 :: int
  gk_stale :: int
  gk_update :: int
  gk_stall2 :: "nat \<Rightarrow> int"
  gk_err2 :: int
  gk_render :: "int \<Rightarrow> string"

text \<open>
  The refresh is a request of its own and passes the client's transports: what the network answers (once, or more often where the transport above repeats the request), with the times at
  which the answers are recorded, and what the library makes of it. Every answer that reaches the tracker is recorded in the registry, also if the call fails in the end.
\<close>

type_synonym refresh_call = "(int \<times> http_response option) list \<times> (go_error, rate_limits option) result"

definition tracked :: "'key gh_client \<Rightarrow> (int \<times> http_response option) list \<Rightarrow> registry \<Rightarrow> registry" where
  "tracked c answers r =
     fold (\<lambda>l r. case l of Tracker org appID \<Rightarrow> fold (\<lambda>(now, resp) r. RoundTrip now org appID ''/rate_limit'' resp r) answers r | _ \<Rightarrow> r) (gc_Transport c) r"

definition checkRateLimit ::
    "gate_clock \<Rightarrow> ('key gh_client \<Rightarrow> refresh_call) \<Rightarrow> string \<Rightarrow> int \<Rightarrow>
     'key gh_client \<Rightarrow> 'key client_factory \<Rightarrow> 'key client_factory \<times> (go_error, 'key gh_client) result" where
  "checkRateLimit ck getRateLimit orgLogin installationID ghClient m =
     (case fa_orgRegistry m of
        None \<Rightarrow> (m, Inr ghClient)
      | Some r \<Rightarrow>
          (case ShouldStall (gk_stall1 ck) orgLogin [] r of
             (True, delay) \<Rightarrow>
               (m, Inl (RateLimitedError (gk_err1 ck + delay) (gk_render ck (gk_err1 ck + delay))))
           | (False, _) \<Rightarrow>
               if IsStale (gk_stale ck) orgLogin r then
                 (case getRateLimit ghClient of
                    (answers, Inl rlErr) \<Rightarrow> (m\<lparr>fa_orgRegistry := Some (tracked ghClient answers r)\<rparr>, Inr ghClient)
                  | (answers, Inr rl) \<Rightarrow>
                      (let r' = UpdateFromRateLimitResponse (gk_update ck) orgLogin rl installationID (tracked ghClient answers r);
                           m' = m\<lparr>fa_orgRegistry := Some r'\<rparr>
                       in case ShouldStall (gk_stall2 ck) orgLogin [] r' of
                            (True, delay) \<Rightarrow>
                              (m', Inl (RateLimitedError (gk_err2 ck + delay) (gk_render ck (gk_err2 ck + delay))))
                          | (False, _) \<Rightarrow> (m', Inr ghClient)))
               else (m, Inr ghClient)))"

definition getCachedClient :: "string \<Rightarrow> string \<Rightarrow> 'key client_factory \<Rightarrow> 'key gh_client option" where
  "getCachedClient cacheKey secretName m =
     (case map_get (fa_clients m) cacheKey of
        Some info \<Rightarrow> if ci_SecretName info = secretName then Some (ci_Client info) else None
      | None \<Rightarrow> None)"

text \<open>The part of \<^verbatim>\<open>GetClient\<close> under the write lock: find, evict or create the client.\<close>

definition acquire_locked ::
    "'key secret_env \<Rightarrow> string \<Rightarrow> app_config \<Rightarrow> string \<Rightarrow> 'key client_factory \<Rightarrow>
     'key client_factory \<times> (go_error, 'key gh_client) result" where
  "acquire_locked env cacheKey app secretName m =
     (case getCachedClient cacheKey secretName m of
        Some c \<Rightarrow> (m, Inr c)
      | None \<Rightarrow>
          (let m1 = m\<lparr>fa_clients := map_delete cacheKey (fa_clients m)\<rparr>
           in case createClient env (InstallationID app) secretName cacheKey m1 of
                (m2, Inl e) \<Rightarrow>
                  (m2, Inl (WrapError (''failed to create GitHub client for key '' @ cacheKey) e))
              | (m2, Inr c0) \<Rightarrow>
                  (let ttl = ResponseCacheTTL (fa_config m2);
                       c = (if ttl > 0 then c0\<lparr>gc_CacheTTL := Some ttl\<rparr> else c0)
                   in (m2\<lparr>fa_clients := map_put cacheKey
                            \<lparr>ci_Client = c, ci_InstallationID = InstallationID app, ci_CacheKey = cacheKey,
                             ci_SecretName = secretName, ci_OrgLogin = cacheKey\<rparr> (fa_clients m2)\<rparr>,
                       Inr c))))"

text \<open>
  \<^verbatim>\<open>GetClient\<close>: \<open>others\<close> is what other goroutines did to the factory between the read-locked lookup
  and the write lock.
\<close>

definition GetClient ::
    "gate_clock \<Rightarrow> 'key secret_env \<Rightarrow> ('key gh_client \<Rightarrow> refresh_call) \<Rightarrow>
     ('key client_factory \<Rightarrow> 'key client_factory) \<Rightarrow> string \<Rightarrow> app_config \<Rightarrow> 'key client_factory \<Rightarrow>
     'key client_factory \<times> (go_error, 'key gh_client) result" where
  "GetClient ck env getRateLimit others cacheKey app m =
     (let secretName = (if CredentialsSecretName app = [] then fa_legacySecretName m else CredentialsSecretName app)
      in case getCachedClient cacheKey secretName m of
           Some c \<Rightarrow> checkRateLimit ck getRateLimit cacheKey (InstallationID app) c m
         | None \<Rightarrow>
             (case acquire_locked env cacheKey app secretName (others m) of
                (m1, Inl e) \<Rightarrow> (m1, Inl e)
              | (m1, Inr c) \<Rightarrow> checkRateLimit ck getRateLimit cacheKey (InstallationID app) c m1))"

section \<open>The rate limit gate\<close>

text \<open>
  An organization is exhausted in a registry when a monitored category with a threshold is below it;
  \<open>resumes_by\<close> says that at time \<open>t\<close> every such category has been reset, grace period included.
\<close>

definition resumes_by :: "registry \<Rightarrow> string \<Rightarrow> int \<Rightarrow> bool" where
  "resumes_by r org t \<longleftrightarrow>
     (\<forall>cat \<in> set MonitoredCategories. \<forall>threshold cs.
        map_get (CategoryThresholds (rg_config r)) cat = Some threshold \<longrightarrow>
        GetCategoryState org cat r = Some cs \<longrightarrow> Remaining cs < threshold \<longrightarrow>
        ResetTime cs + rg_ResetGracePeriod (rg_config r) \<le> t)"

text \<open>No reset time lies so far away that the duration until it saturates.\<close>

definition resets_in_range :: "registry \<Rightarrow> string \<Rightarrow> (nat \<Rightarrow> int) \<Rightarrow> bool" where
  "resets_in_range r org now \<longleftrightarrow>
     (\<forall>cat \<in> set MonitoredCategories. \<forall>cs j. GetCategoryState org cat r = Some cs \<longrightarrow>
        ResetTime cs + rg_ResetGracePeriod (rg_config r) - now j < 2 ^ 63)"

lemma stalled_resumes:
  assumes stall: "ShouldStall now org [] r = (True, d)" and mono: "\<And>j. now j \<le> t0"
    and range: "resets_in_range r org now"
  shows "resumes_by r org (t0 + d)"
  unfolding resumes_by_def
proof (intro ballI allI impI)
  fix cat threshold cs
  assume cat: "cat \<in> set MonitoredCategories" and th: "map_get (CategoryThresholds (rg_config r)) cat = Some threshold"
    and cs: "GetCategoryState org cat r = Some cs" and low: "Remaining cs < threshold"
  obtain st where st: "map_get (states r) org = Some st" "map_get (Categories st) cat = Some cs"
    using cs by (auto simp: GetCategoryState_def split: option.splits)
  obtain j where j: "j < length MonitoredCategories" "MonitoredCategories ! j = cat"
    using cat by (metis in_set_conv_nth)
  let ?reset = "ResetTime cs + rg_ResetGracePeriod (rg_config r)"
  have lt: "?reset - now j < 2 ^ 63" using range cat cs by (auto simp: resets_in_range_def)
  have d0: "0 < d"
    using ShouldStall_spec(3) [OF st(1), of now "[]"] stall stall_delay_pos by force
  show "?reset \<le> t0 + d"
  proof (cases "0 < time_Sub ?reset (now j)")
    case True
    then have "stall_delay (rg_config r) st (now j) cat = Some (time_Sub ?reset (now j))"
      using th st(2) low by (simp add: stall_delay_def)
    then have "time_Sub ?reset (now j) \<le> d"
      using ShouldStall_spec(2) [OF st(1), where cats = "[]" and j = j and now = now] stall j by simp
    moreover have "?reset - now j \<le> time_Sub ?reset (now j)"
      using lt by (simp add: time_Sub_def)
    ultimately show ?thesis using mono [of j] by simp
  next
    case False
    then have "?reset \<le> now j" using lt by (auto simp: time_Sub_def max_def min_def split: if_splits)
    then show ?thesis using mono [of j] d0 by simp
  qed
qed

text \<open>
  The gate in terms of what the registry holds. A category is exhausted while less is left of it than its threshold and its reset, with the grace period, lies ahead; the categories
  are looked at one after the other. The data are recent if some category was updated within the staleness threshold.
\<close>

definition exhausted :: "registry \<Rightarrow> string \<Rightarrow> (nat \<Rightarrow> int) \<Rightarrow> bool" where
  "exhausted r org now \<longleftrightarrow>
     (\<exists>j < length MonitoredCategories. \<exists>threshold cs.
        map_get (CategoryThresholds (rg_config r)) (MonitoredCategories ! j) = Some threshold \<and>
        GetCategoryState org (MonitoredCategories ! j) r = Some cs \<and> Remaining cs < threshold \<and>
        now j < ResetTime cs + rg_ResetGracePeriod (rg_config r))"

definition recent :: "registry \<Rightarrow> string \<Rightarrow> int \<Rightarrow> bool" where
  "recent r org now \<longleftrightarrow>
     (\<exists>cat cs. GetCategoryState org cat r = Some cs \<and> zero_time < LastUpdated cs \<and> time_Sub now (LastUpdated cs) \<le> rg_StalenessThreshold (rg_config r))"

lemma stall_exhausted: "fst (ShouldStall now org [] r) \<longleftrightarrow> exhausted r org now"
proof (cases "map_get (states r) org")
  case None
  then show ?thesis by (simp add: ShouldStall_def exhausted_def GetCategoryState_def)
next
  case (Some st)
  have "stall_delay (rg_config r) st t cat \<noteq> None \<longleftrightarrow>
      (\<exists>threshold cs. map_get (CategoryThresholds (rg_config r)) cat = Some threshold \<and> GetCategoryState org cat r = Some cs \<and>
         Remaining cs < threshold \<and> t < ResetTime cs + rg_ResetGracePeriod (rg_config r))" for t cat
    by (auto simp: stall_delay_def GetCategoryState_def Some Let_def time_Sub_def max_def min_def split: option.splits if_splits)
  then show ?thesis unfolding ShouldStall_spec(1) [OF Some] exhausted_def by simp
qed

lemma most_recent_max: "most_recent css = Max (insert zero_time (LastUpdated ` set css))"
proof -
  have "fold (\<lambda>cs t. if LastUpdated cs > t then LastUpdated cs else t) css x = Max (insert x (LastUpdated ` set css))" for x :: int
  proof (induction css arbitrary: x)
    case (Cons cs css)
    have "(if LastUpdated cs > x then LastUpdated cs else x) = max x (LastUpdated cs)" by (simp add: max_def)
    moreover have "Max (insert (max x y) (LastUpdated ` set css)) = Max (insert x (insert y (LastUpdated ` set css)))" for y
      by (cases "css = []") (simp_all add: max.assoc)
    ultimately show ?case using Cons.IH by simp
  qed simp
  then show ?thesis by (simp add: most_recent_def)
qed

lemma stale_recent:
  assumes "registry_inv r"
  shows "IsStale now org r \<longleftrightarrow> \<not> recent r org now"
proof (cases "map_get (states r) org")
  case None
  then show ?thesis by (simp add: IsStale_def recent_def GetCategoryState_def)
next
  case (Some st)
  let ?U = "LastUpdated ` snd ` set (Categories st)" and ?th = "rg_StalenessThreshold (rg_config r)"
  have ok: "gomap_ok (Categories st)" using assms Some by (auto simp: registry_inv_def org_state_ok_def)
  have M: "most_recent (map snd (Categories st)) = Max (insert zero_time ?U)" by (simp add: most_recent_max image_image)
  have anti: "time_Sub now b \<le> time_Sub now a" if "a \<le> b" for a b :: int using that by (simp add: time_Sub_def max_def min_def)
  have "recent r org now \<longleftrightarrow> (\<exists>u \<in> ?U. zero_time < u \<and> time_Sub now u \<le> ?th)"
    using gomap_in_iff [OF ok] by (force simp: recent_def GetCategoryState_def Some)
  also have "\<dots> \<longleftrightarrow> zero_time < Max (insert zero_time ?U) \<and> time_Sub now (Max (insert zero_time ?U)) \<le> ?th"
  proof
    assume "\<exists>u \<in> ?U. zero_time < u \<and> time_Sub now u \<le> ?th"
    then obtain u where u: "u \<in> ?U" "zero_time < u" "time_Sub now u \<le> ?th" by blast
    have "u \<le> Max (insert zero_time ?U)" using u(1) by (intro Max_ge) auto
    then show "zero_time < Max (insert zero_time ?U) \<and> time_Sub now (Max (insert zero_time ?U)) \<le> ?th" using u anti [of u] by force
  next
    assume m: "zero_time < Max (insert zero_time ?U) \<and> time_Sub now (Max (insert zero_time ?U)) \<le> ?th"
    have "Max (insert zero_time ?U) \<in> insert zero_time ?U" by (rule Max_in) auto
    then show "\<exists>u \<in> ?U. zero_time < u \<and> time_Sub now u \<le> ?th" using m by force
  qed
  finally have fr: "recent r org now \<longleftrightarrow> zero_time < Max (insert zero_time ?U) \<and> time_Sub now (Max (insert zero_time ?U)) \<le> ?th" .
  have cmp: "(if x = z then True else t < f) \<longleftrightarrow> \<not> (z < x \<and> f \<le> t)" if "z \<le> x" for x z t f :: int using that by auto
  have "zero_time \<le> Max (insert zero_time ?U)" by (intro Max_ge) auto
  then have "IsStale now org r \<longleftrightarrow> \<not> (zero_time < Max (insert zero_time ?U) \<and> time_Sub now (Max (insert zero_time ?U)) \<le> ?th)"
    unfolding IsStale_def Some option.case M Let_def by (rule cmp)
  then show ?thesis unfolding fr .
qed

lemma checkRateLimit_cases:
  assumes "fa_orgRegistry m = Some r"
    and "checkRateLimit ck getRateLimit org inst c m = (m', res)"
  obtains (stalled1) d where "ShouldStall (gk_stall1 ck) org [] r = (True, d)" "m' = m"
      "res = Inl (RateLimitedError (gk_err1 ck + d) (gk_render ck (gk_err1 ck + d)))"
  | (fresh) d where "ShouldStall (gk_stall1 ck) org [] r = (False, d)" "m' = m" "res = Inr c" "\<not> IsStale (gk_stale ck) org r"
  | (failed) d answers e where "ShouldStall (gk_stall1 ck) org [] r = (False, d)" "IsStale (gk_stale ck) org r"
      "getRateLimit c = (answers, Inl e)" "m' = m\<lparr>fa_orgRegistry := Some (tracked c answers r)\<rparr>" "res = Inr c"
  | (refreshed) d answers rl r' d' where "ShouldStall (gk_stall1 ck) org [] r = (False, d)"
      "IsStale (gk_stale ck) org r" "getRateLimit c = (answers, Inr rl)"
      "r' = UpdateFromRateLimitResponse (gk_update ck) org rl inst (tracked c answers r)" "m' = m\<lparr>fa_orgRegistry := Some r'\<rparr>"
      "ShouldStall (gk_stall2 ck) org [] r' = (False, d')" "res = Inr c"
  | (stalled2) d answers rl r' d' where "ShouldStall (gk_stall1 ck) org [] r = (False, d)"
      "IsStale (gk_stale ck) org r" "getRateLimit c = (answers, Inr rl)"
      "r' = UpdateFromRateLimitResponse (gk_update ck) org rl inst (tracked c answers r)" "m' = m\<lparr>fa_orgRegistry := Some r'\<rparr>"
      "ShouldStall (gk_stall2 ck) org [] r' = (True, d')"
      "res = Inl (RateLimitedError (gk_err2 ck + d') (gk_render ck (gk_err2 ck + d')))"
  using assms by (auto simp: checkRateLimit_def Let_def split: prod.splits bool.splits sum.splits if_splits)

text \<open>C11: the gate hands out a client only if no monitored category of the organization is exhausted: none has less left than its threshold with its reset and the grace period still
  ahead. If none of the data is recent, it asks GitHub first and looks again, at data that include the answer; only if that call fails it goes on without. When it
  refuses, some category is exhausted, and the rate limit error it returns names a time after the reset and the grace period of every exhausted category.\<close>

theorem rate_limit_gate:
  assumes "fa_orgRegistry m = Some r" and "registry_inv r"
    and "checkRateLimit ck getRateLimit org inst c m = (m', res)"
    and "fa_orgRegistry m' = Some r'"
    and "\<forall>j. gk_stall1 ck j \<le> gk_err1 ck" and "\<forall>j. gk_stall2 ck j \<le> gk_err2 ck"
    and "resets_in_range r org (gk_stall1 ck)" and "resets_in_range r' org (gk_stall2 ck)"
  shows "case res of
           Inr x \<Rightarrow> x = c \<and> \<not> exhausted r org (gk_stall1 ck) \<and>
             (recent r org (gk_stale ck) \<or> (\<exists>answers e. getRateLimit c = (answers, Inl e)) \<or>
              (\<exists>answers rl. getRateLimit c = (answers, Inr rl) \<and> r' = UpdateFromRateLimitResponse (gk_update ck) org rl inst (tracked c answers r)) \<and>
                \<not> exhausted r' org (gk_stall2 ck))
         | Inl e \<Rightarrow> (exhausted r org (gk_stall1 ck) \<or> exhausted r' org (gk_stall2 ck)) \<and> (\<exists>t txt. e = RateLimitedError t txt \<and> resumes_by r' org t)"
  using assms(1,3)
proof (cases rule: checkRateLimit_cases)
  case (stalled1 d)
  then have "r' = r" using assms(1,4) by simp
  then show ?thesis
    using stalled1 stalled_resumes [OF stalled1(1), of "gk_err1 ck"] assms(5,7) stall_exhausted [of "gk_stall1 ck" org r] by auto
next
  case (fresh d)
  then show ?thesis using stall_exhausted [of "gk_stall1 ck" org r] stale_recent [OF assms(2)] by simp
next
  case (failed d answers e)
  then show ?thesis using stall_exhausted [of "gk_stall1 ck" org r] by simp
next
  case (refreshed d answers rl r'' d')
  then have "r' = r''" using assms(4) by simp
  then show ?thesis using refreshed stall_exhausted [of "gk_stall1 ck" org r] stall_exhausted [of "gk_stall2 ck" org r'] by simp
next
  case (stalled2 d answers rl r'' d')
  then have "r' = r''" using assms(4) by simp
  then show ?thesis
    using stalled2 stalled_resumes [of "gk_stall2 ck" org r'' d' "gk_err2 ck"] assms(6,8) stall_exhausted [of "gk_stall2 ck" org r'] by auto
qed

section \<open>The client cache\<close>

fun stack_limiter :: "'key layer list \<Rightarrow> nat option" where
  "stack_limiter (PrimaryLimiter n # ls) = Some n"
| "stack_limiter (SharedLimiter n # ls) = Some n"
| "stack_limiter _ = None"

fun layer_app :: "'key layer \<Rightarrow> int option" where
  "layer_app (Authorize app inst key res) = Some app"
| "layer_app _ = None"

definition client_app :: "'key gh_client \<Rightarrow> int option" where
  "client_app c = (case List.map_filter layer_app (gc_Transport c) of [] \<Rightarrow> None | a # _ \<Rightarrow> Some a)"

definition client_ok :: "(int, nat) gomap \<Rightarrow> 'key gh_client \<Rightarrow> bool" where
  "client_ok L c \<longleftrightarrow>
     (\<exists>app n. client_app c = Some app \<and> map_get L app = Some n \<and> stack_limiter (gc_Transport c) = Some n)"

lemma client_ok_ttl [simp]: "client_ok L (c\<lparr>gc_CacheTTL := t\<rparr>) = client_ok L c"
  by (simp add: client_ok_def client_app_def)

definition factory_inv :: "'key client_factory \<Rightarrow> bool" where
  "factory_inv m \<longleftrightarrow>
     (\<forall>app n. map_get (fa_rateLimitStates m) app = Some n \<longrightarrow> n < fa_nextState m) \<and>
     (\<forall>app app' n. map_get (fa_rateLimitStates m) app = Some n \<longrightarrow>
        map_get (fa_rateLimitStates m) app' = Some n \<longrightarrow> app = app') \<and>
     (\<forall>key info. map_get (fa_clients m) key = Some info \<longrightarrow>
        ci_CacheKey info = key \<and> ci_OrgLogin info = key \<and> client_ok (fa_rateLimitStates m) (ci_Client info))"

lemma factory_invI:
  assumes "\<And>app n. map_get (fa_rateLimitStates m) app = Some n \<Longrightarrow> n < fa_nextState m"
    and "\<And>app app' n. map_get (fa_rateLimitStates m) app = Some n \<Longrightarrow>
      map_get (fa_rateLimitStates m) app' = Some n \<Longrightarrow> app = app'"
    and "\<And>key info. map_get (fa_clients m) key = Some info \<Longrightarrow>
      ci_CacheKey info = key \<and> ci_OrgLogin info = key \<and> client_ok (fa_rateLimitStates m) (ci_Client info)"
  shows "factory_inv m"
  unfolding factory_inv_def using assms by blast

lemma factory_invD:
  assumes "factory_inv m"
  shows "map_get (fa_rateLimitStates m) app = Some n \<Longrightarrow> n < fa_nextState m"
    and "map_get (fa_rateLimitStates m) app = Some n \<Longrightarrow> map_get (fa_rateLimitStates m) app' = Some n \<Longrightarrow> app = app'"
    and "map_get (fa_clients m) key = Some info \<Longrightarrow>
      ci_CacheKey info = key \<and> ci_OrgLogin info = key \<and> client_ok (fa_rateLimitStates m) (ci_Client info)"
  using assms unfolding factory_inv_def by blast+

lemma factory_inv_new: "factory_inv (NewGitHubCachingClientFactory cfg name reg)"
  by (simp add: factory_inv_def NewGitHubCachingClientFactory_def)

lemma build_inv:
  assumes "factory_inv m" and "buildClientWithMiddleware env inst creds org m = (m', res)"
  shows "factory_inv m' \<and> (\<forall>c. res = Inr c \<longrightarrow> client_ok (fa_rateLimitStates m') c) \<and> fa_clients m' = fa_clients m \<and> fa_config m' = fa_config m"
proof (cases "map_get (fa_rateLimitStates m) (cr_AppID creds)")
  case None
  have m': "m' = m\<lparr>fa_rateLimitStates := map_put (cr_AppID creds) (fa_nextState m) (fa_rateLimitStates m),
      fa_nextState := Suc (fa_nextState m)\<rparr>"
    using assms(2) None by (auto simp: buildClientWithMiddleware_def buildMiddlewareStack_def split: option.splits)
  have c: "stack_limiter (gc_Transport c) = Some (fa_nextState m) \<and> client_app c = Some (cr_AppID creds)" if "res = Inr c" for c
    using assms(2) None that
    by (auto simp: buildClientWithMiddleware_def buildMiddlewareStack_def client_app_def List.map_filter_simps split: option.splits)
  have inv: "\<And>app n. map_get (fa_rateLimitStates m) app = Some n \<Longrightarrow> n < fa_nextState m"
    using assms(1) by (simp add: factory_inv_def)
  have old: "client_ok (fa_rateLimitStates m) x \<Longrightarrow> client_ok (fa_rateLimitStates m') x" for x
    using None by (auto simp: client_ok_def m')
  have inj: "app = app'" if "map_get (fa_rateLimitStates m') app = Some n" "map_get (fa_rateLimitStates m') app' = Some n"
    for app app' n
    using that assms(1) by (auto simp: factory_inv_def m' dest: inv split: if_splits)
  have lt: "n < fa_nextState m'" if "map_get (fa_rateLimitStates m') app = Some n" for app n
    using that by (auto simp: m' less_Suc_eq dest: inv split: if_splits)
  have cl: "fa_clients m' = fa_clients m" by (simp add: m')
  have "factory_inv m'"
  proof (rule factory_invI)
    fix key info
    assume "map_get (fa_clients m') key = Some info"
    then show "ci_CacheKey info = key \<and> ci_OrgLogin info = key \<and>
        client_ok (fa_rateLimitStates m') (ci_Client info)"
      using factory_invD(3) [OF assms(1), of key info] old [of "ci_Client info"] cl by simp
  qed (use lt inj in blast)+
  moreover have "client_ok (fa_rateLimitStates m') c" if "res = Inr c" for c using c [OF that] by (auto simp: client_ok_def m')
  ultimately show ?thesis by (simp add: m')
next
  case (Some st)
  then have "m' = m" "\<forall>c. res = Inr c \<longrightarrow> stack_limiter (gc_Transport c) = Some st \<and> client_app c = Some (cr_AppID creds)"
    using assms(2)
    by (auto simp: buildClientWithMiddleware_def buildMiddlewareStack_def client_app_def List.map_filter_simps split: option.splits)
  then show ?thesis using assms(1) Some by (auto simp: client_ok_def)
qed

lemma factory_inv_frame:
  assumes "factory_inv m" and "fa_rateLimitStates m' = fa_rateLimitStates m" and "fa_nextState m' = fa_nextState m"
    and "\<And>key info. map_get (fa_clients m') key = Some info \<Longrightarrow> map_get (fa_clients m) key = Some info"
  shows "factory_inv m'"
proof (rule factory_invI)
  fix key info
  assume "map_get (fa_clients m') key = Some info"
  then show "ci_CacheKey info = key \<and> ci_OrgLogin info = key \<and>
      client_ok (fa_rateLimitStates m') (ci_Client info)"
    using factory_invD(3) [OF assms(1), of key info] assms(2,4) by simp
qed (simp_all add: assms(2,3) factory_invD(1) [OF assms(1)], use factory_invD(2) [OF assms(1)] in blast)

lemma factory_inv_put:
  assumes "factory_inv m" and "client_ok (fa_rateLimitStates m) (ci_Client info)"
    and "ci_CacheKey info = key" and "ci_OrgLogin info = key"
  shows "factory_inv (m\<lparr>fa_clients := map_put key info (fa_clients m)\<rparr>)"
  using assms by (simp add: factory_inv_def)

lemma create_inv:
  assumes "factory_inv m" and "createClient env inst secret org m = (m', res)"
  shows "factory_inv m' \<and> fa_clients m' = fa_clients m \<and> (\<forall>c. res = Inr c \<longrightarrow> client_ok (fa_rateLimitStates m') c)"
proof -
  have cred: "factory_inv (m\<lparr>fa_credentials := x\<rparr>)" for x
    by (rule factory_inv_frame [OF assms(1)]) simp_all
  show ?thesis
    using assms(2) build_inv [OF assms(1)] build_inv [OF cred] assms(1)
    by (auto simp: createClient_def split: option.splits sum.splits prod.splits)
qed

lemma acquire_inv:
  assumes "factory_inv m" and "acquire_locked env key app secret m = (m', res)"
  shows "factory_inv m'"
proof (cases "getCachedClient key secret m")
  case (Some c)
  then show ?thesis using assms by (simp add: acquire_locked_def)
next
  case None
  let ?m1 = "m\<lparr>fa_clients := map_delete key (fa_clients m)\<rparr>"
  have i1: "factory_inv ?m1"
    by (rule factory_inv_frame [OF assms(1)]) (auto split: if_splits)
  obtain m2 r where cr: "createClient env (InstallationID app) secret key ?m1 = (m2, r)" by fastforce
  note i2 = create_inv [OF i1 cr]
  show ?thesis
  proof (cases r)
    case (Inl e)
    then show ?thesis using assms(2) None cr i2 by (simp add: acquire_locked_def Let_def)
  next
    case (Inr c0)
    let ?c = "if ResponseCacheTTL (fa_config m2) > 0
      then c0\<lparr>gc_CacheTTL := Some (ResponseCacheTTL (fa_config m2))\<rparr> else c0"
    have m': "m' = m2\<lparr>fa_clients := map_put key
        \<lparr>ci_Client = ?c, ci_InstallationID = InstallationID app, ci_CacheKey = key,
         ci_SecretName = secret, ci_OrgLogin = key\<rparr> (fa_clients m2)\<rparr>"
      using assms(2) None cr Inr by (simp add: acquire_locked_def Let_def)
    have "client_ok (fa_rateLimitStates m2) ?c"
      using i2 Inr by simp
    then show ?thesis
      using i2 unfolding m' by (intro factory_inv_put) simp_all
  qed
qed

lemma gate_inv:
  assumes "factory_inv m"
  shows "factory_inv (fst (checkRateLimit ck grl org inst c m))"
proof -
  have "fa_clients (fst (checkRateLimit ck grl org inst c m)) = fa_clients m \<and>
      fa_rateLimitStates (fst (checkRateLimit ck grl org inst c m)) = fa_rateLimitStates m \<and>
      fa_nextState (fst (checkRateLimit ck grl org inst c m)) = fa_nextState m"
    by (auto simp: checkRateLimit_def Let_def split: option.split prod.split bool.split sum.split)
  then show ?thesis using factory_inv_frame [OF assms] by metis
qed

lemma GetClient_inv:
  assumes "factory_inv m" and "\<And>x. factory_inv x \<Longrightarrow> factory_inv (others x)"
  shows "factory_inv (fst (GetClient ck env grl others key app m))"
proof -
  let ?secret = "if CredentialsSecretName app = [] then fa_legacySecretName m else CredentialsSecretName app"
  obtain m1 r where a: "acquire_locked env key app ?secret (others m) = (m1, r)" by fastforce
  have "factory_inv m1" by (rule acquire_inv [OF assms(2) [OF assms(1)] a])
  then show ?thesis
    using assms(1) gate_inv a by (auto simp: GetClient_def Let_def split: option.split sum.split)
qed

text \<open>C12: whatever sequence of calls is made, also with other goroutines in between, cached clients
  are filed under their organization, and two of them share one rate limit state exactly if they
  belong to the same GitHub App.\<close>

theorem limiter_shared_per_app:
  "factory_inv (NewGitHubCachingClientFactory cfg name reg) \<and>
   (factory_inv m \<and> (\<forall>x. factory_inv x \<longrightarrow> factory_inv (others x)) \<longrightarrow>
      factory_inv (fst (GetClient ck env grl others key app m))) \<and>
   (factory_inv m \<and> map_get (fa_clients m) k1 = Some i1 \<and> map_get (fa_clients m) k2 = Some i2 \<longrightarrow>
      ci_OrgLogin i1 = k1 \<and>
      (stack_limiter (gc_Transport (ci_Client i1)) = stack_limiter (gc_Transport (ci_Client i2)) \<longleftrightarrow>
       client_app (ci_Client i1) = client_app (ci_Client i2)))"
proof -
  have "stack_limiter (gc_Transport (ci_Client i1)) = stack_limiter (gc_Transport (ci_Client i2)) \<longleftrightarrow>
      client_app (ci_Client i1) = client_app (ci_Client i2)"
    if m: "factory_inv m" and i: "map_get (fa_clients m) k1 = Some i1" "map_get (fa_clients m) k2 = Some i2"
  proof -
    have inj: "\<And>app app' n. map_get (fa_rateLimitStates m) app = Some n \<Longrightarrow>
        map_get (fa_rateLimitStates m) app' = Some n \<Longrightarrow> app = app'"
      using m by (simp add: factory_inv_def)
    have "client_ok (fa_rateLimitStates m) (ci_Client i1)" "client_ok (fa_rateLimitStates m) (ci_Client i2)"
      using m i by (simp_all add: factory_inv_def)
    then obtain app1 n1 app2 n2 where
        "client_app (ci_Client i1) = Some app1" "map_get (fa_rateLimitStates m) app1 = Some n1"
        "stack_limiter (gc_Transport (ci_Client i1)) = Some n1"
        "client_app (ci_Client i2) = Some app2" "map_get (fa_rateLimitStates m) app2 = Some n2"
        "stack_limiter (gc_Transport (ci_Client i2)) = Some n2"
      unfolding client_ok_def by blast
    then show ?thesis using inj [of app1 n1 app2] by auto
  qed
  moreover have "ci_OrgLogin i1 = k1" if "factory_inv m" "map_get (fa_clients m) k1 = Some i1"
    using that by (simp add: factory_inv_def)
  ultimately show ?thesis
    using factory_inv_new GetClient_inv by blast
qed

section \<open>Examples\<close>

definition ex_factory :: "unit client_factory" where
  "ex_factory = NewGitHubCachingClientFactory None ''legacy'' (Some ex_low)"

definition ex_client :: "unit gh_client" where
  "ex_client = \<lparr>gc_Transport = [], gc_Timeout = 0, gc_CacheTTL = None\<rparr>"

definition ex_gate_clock :: gate_clock where
  "ex_gate_clock = \<lparr>gk_stall1 = (\<lambda>j. 60 * Second), gk_err1 = 60 * Second, gk_stale = 60 * Second,
     gk_update = 60 * Second, gk_stall2 = (\<lambda>j. 60 * Second), gk_err2 = 60 * Second, gk_render = FormatInt\<rparr>"

lemma ex_low_states:
  "GetCategoryState org cat ex_low =
     (if org = ''acme'' \<and> cat = CategoryCore
      then Some \<lparr>Remaining = 50, Limit = 5000, ResetTime = 600 * Second, LastUpdated = 0\<rparr> else None)"
proof -
  have "GetCategoryState org cat ex_registry = None"
    by (simp add: GetCategoryState_def ex_registry_def NewOrgRateLimitRegistryFromConfig_def
        NewOrgRateLimitRegistry_def Let_def)
  then show ?thesis
    by (simp add: ex_low_def Update_def GetCategoryState_put_category)
qed

lemma ex_low_grace: "rg_ResetGracePeriod (rg_config ex_low) = 10 * Second"
  by (simp add: ex_low_def ex_registry_def NewOrgRateLimitRegistryFromConfig_def
      NewOrgRateLimitRegistry_def Let_def ex_config_def ResetGracePeriod_def wrap64_def Second_def)

theorem rate_limit_gate_witness:
  "\<exists>t txt. checkRateLimit ex_gate_clock (\<lambda>c. ([], Inr None)) ''acme'' 7 ex_client ex_factory =
       (ex_factory, Inl (RateLimitedError t txt)) \<and> resumes_by ex_low ''acme'' t"
proof -
  have "fst (ShouldStall (gk_stall1 ex_gate_clock) ''acme'' [] ex_low)"
    by code_simp
  then obtain d where d: "ShouldStall (gk_stall1 ex_gate_clock) ''acme'' [] ex_low = (True, d)"
    by (metis prod.collapse)
  let ?t = "gk_err1 ex_gate_clock + d"
  have reg: "fa_orgRegistry ex_factory = Some ex_low"
    by (simp add: ex_factory_def NewGitHubCachingClientFactory_def)
  have r: "checkRateLimit ex_gate_clock (\<lambda>c. ([], Inr None)) ''acme'' 7 ex_client ex_factory =
      (ex_factory, Inl (RateLimitedError ?t (gk_render ex_gate_clock ?t)))"
    by (simp add: checkRateLimit_def reg d)
  have "resets_in_range ex_low ''acme'' (gk_stall1 ex_gate_clock)"
      "resets_in_range ex_low ''acme'' (gk_stall2 ex_gate_clock)"
    by (simp_all add: resets_in_range_def ex_low_states ex_low_grace ex_gate_clock_def Second_def)
  moreover have "registry_inv ex_low"
    by (simp add: ex_low_def ex_registry_def NewOrgRateLimitRegistryFromConfig_def Let_def registry_inv_new registry_inv_Update)
  ultimately show ?thesis using rate_limit_gate [OF reg _ r reg] r by (auto simp: ex_gate_clock_def)
qed

definition ex_env :: "unit secret_env" where
  "ex_env = \<lparr>se_secretProvider = (\<lambda>n. Inr (Some [(''app-id'', ''12''), (''private-key'', ''pem'')])), se_parseKey = (\<lambda>s. Inr ()), se_NewClient = (\<lambda>ls t. None)\<rparr>"

definition ex_two_clients :: "unit client_factory" where
  "ex_two_clients =
     (let f0 = NewGitHubCachingClientFactory None ''legacy'' None;
          f1 = fst (GetClient ex_gate_clock ex_env (\<lambda>c. ([], Inr None)) (\<lambda>m. m) ''acme''
                      \<lparr>InstallationID = 1, CredentialsSecretName = []\<rparr> f0)
      in fst (GetClient ex_gate_clock ex_env (\<lambda>c. ([], Inr None)) (\<lambda>m. m) ''other''
                \<lparr>InstallationID = 2, CredentialsSecretName = ''creds''\<rparr> f1))"

theorem limiter_shared_per_app_witness:
  "factory_inv ex_two_clients \<and>
   (\<exists>i1 i2. map_get (fa_clients ex_two_clients) ''acme'' = Some i1 \<and>
      map_get (fa_clients ex_two_clients) ''other'' = Some i2 \<and>
      stack_limiter (gc_Transport (ci_Client i1)) = stack_limiter (gc_Transport (ci_Client i2)))"
proof -
  have inv: "factory_inv ex_two_clients"
    unfolding ex_two_clients_def Let_def by (intro GetClient_inv factory_inv_new)
  have apps: "map_option (client_app \<circ> ci_Client) (map_get (fa_clients ex_two_clients) ''acme'') = Some (Some 12)"
      "map_option (client_app \<circ> ci_Client) (map_get (fa_clients ex_two_clients) ''other'') = Some (Some 12)"
    by code_simp+
  then obtain i1 i2 where i: "map_get (fa_clients ex_two_clients) ''acme'' = Some i1"
      "map_get (fa_clients ex_two_clients) ''other'' = Some i2"
      "client_app (ci_Client i1) = client_app (ci_Client i2)"
    by auto
  then show ?thesis
    using inv limiter_shared_per_app [of None "[]" None ex_two_clients "\<lambda>m. m" ex_gate_clock ex_env
        "\<lambda>c. ([], Inr None)" "[]" "\<lparr>InstallationID = 0, CredentialsSecretName = []\<rparr>" "''acme''" i1 "''other''" i2]
    by blast
qed

end
