(* ===== verification/OrgTypes.thy ===== *)
theory OrgTypes
  imports Prelude
begin

text \<open>
  What the reconcilers read of an \<^verbatim>\<open>Organization\<close> resource, with the methods of
  \<^verbatim>\<open>api/v1alpha1/organization_methods.go\<close> they use.
\<close>

record org_resource =
  og_Login :: string
  og_Name :: string
  og_MemberSuffix :: string
  og_Plan :: string

definition GetLogin :: "org_resource \<Rightarrow> string" where
  "GetLogin og = (if og_Login og \<noteq> [] then og_Login og else og_Name og)"

text \<open>The plan an organization spec names.\<close>

definition GetPlan :: "string \<Rightarrow> string" where
  "GetPlan plan = (if plan = [] then ''enterprise'' else plan)"

definition HasEnterpriseFeatures :: "string \<Rightarrow> bool" where
  "HasEnterpriseFeatures plan \<longleftrightarrow> GetPlan plan \<noteq> ''free''"

end
