(* ===== verification/CustomProperties.thy ===== *)
theory CustomProperties
  imports OrgTypes Errors "HOL-Library.Char_ord" "HOL-Library.List_Lexorder"
begin

text \<open>
  Custom properties: their definitions in an organization (\<^verbatim>\<open>orgrec/rec_custom_properties.go\<close>), their values for a repository
  (\<^verbatim>\<open>reporec/rec_custom_properties.go\<close>), and \<^verbatim>\<open>mapper/github_custom_property_mapper.go\<close>. A slice for which nil and empty differ is an option of a list.
  The readers of a default value belong to the GitHub library and are arguments, as is the formatting of values in messages.
\<close>

section \<open>Data\<close>

record cp_value =
  cv_PropertyName :: string
  cv_Value :: "string option"
  cv_Values :: "string list option"

record cp_default =
  cd_Value :: "string option"
  cd_Values :: "string list option"

record org_property =
  op_PropertyName :: string
  op_ValueType :: string
  op_Required :: "bool option"
  op_DefaultValue :: "cp_default option"
  op_Description :: "string option"
  op_AllowedValues :: "string list option"
  op_ValuesEditableBy :: string

text \<open>
  Values of type \<^verbatim>\<open>any\<close>: the nil interface, a nil \<^verbatim>\<open>*string\<close> in an interface (which is not the nil interface), a string, a \<^verbatim>\<open>[]string\<close>, and what
  the JSON decoder produces besides: a bool and a \<^verbatim>\<open>[]any\<close>.
\<close>

datatype cp_any = AnyNil | AnyNilString | AnyString string | AnyStrings "string list option" | AnyBool bool | AnyAnys "cp_any list"

record gh_property =
  gp_PropertyName :: "string option"
  gp_SourceType :: "string option"
  gp_ValueType :: string
  gp_Required :: "bool option"
  gp_DefaultValue :: cp_any
  gp_Description :: "string option"
  gp_AllowedValues :: "string list option"
  gp_ValuesEditableBy :: "string option"

record gh_value =
  gv_PropertyName :: string
  gv_Value :: cp_any

record property_lib =
  pl_DefaultValueString :: "gh_property \<Rightarrow> string option"
  pl_DefaultValueStrings :: "gh_property \<Rightarrow> string list option"
  pl_DefaultValueBool :: "gh_property \<Rightarrow> bool option"
  pl_Format :: "cp_any \<Rightarrow> string"

definition GetPropertyName :: "gh_property \<Rightarrow> string" where
  "GetPropertyName g = WithDefault (gp_PropertyName g) []"

section \<open>The mapper\<close>

definition CustomPropertySourceTypeOrganization :: string where
  "CustomPropertySourceTypeOrganization = ''organization''"

definition IsK8sOrgCustomProperty :: "gh_property \<Rightarrow> bool" where
  "IsK8sOrgCustomProperty g \<longleftrightarrow> WithDefault (gp_SourceType g) [] = CustomPropertySourceTypeOrganization"

definition getK8sDefaultValue :: "property_lib \<Rightarrow> gh_property \<Rightarrow> (go_error, cp_default option) result" where
  "getK8sDefaultValue lib g =
     (let failed = (\<lambda>v t. Inl (PlainError (''failed to convert default '' @ v @ '' for custom property '' @ GetPropertyName g @ '' to '' @ t @ '': '' @ pl_Format lib (gp_DefaultValue g)))) in
      if gp_DefaultValue g = AnyNil then Inr None
      else if gp_ValueType g = ''multi_select'' then
        (case pl_DefaultValueStrings lib g of
           None \<Rightarrow> failed ''values'' ''[]string''
         | Some vs \<Rightarrow> Inr (Some \<lparr>cd_Value = None, cd_Values = Some vs\<rparr>))
      else if gp_ValueType g = ''true_false'' then
        (case pl_DefaultValueBool lib g of
           None \<Rightarrow> failed ''value'' ''bool''
         | Some b \<Rightarrow> Inr (Some \<lparr>cd_Value = Some (bool_str b), cd_Values = None\<rparr>))
      else
        (case pl_DefaultValueString lib g of
           None \<Rightarrow> failed ''value'' ''string''
         | Some v \<Rightarrow> Inr (Some \<lparr>cd_Value = Some v, cd_Values = None\<rparr>)))"

definition ToK8sOrgCustomProperty :: "property_lib \<Rightarrow> gh_property \<Rightarrow> (go_error, org_property) result" where
  "ToK8sOrgCustomProperty lib g =
     (case getK8sDefaultValue lib g of
        Inl e \<Rightarrow> Inl e
      | Inr d \<Rightarrow> Inr \<lparr>op_PropertyName = GetPropertyName g, op_ValueType = gp_ValueType g, op_Required = gp_Required g, op_DefaultValue = d,
          op_Description = gp_Description g, op_AllowedValues = gp_AllowedValues g, op_ValuesEditableBy = WithDefault (gp_ValuesEditableBy g) []\<rparr>)"

text \<open>
  \<^verbatim>\<open>cmp.Equal\<close> with \<^verbatim>\<open>EquateEmpty\<close> and \<^verbatim>\<open>SortSlices(strings.Compare)\<close>: slices of strings are compared sorted, and nil is an empty slice.
\<close>

definition equal_strings :: "string list option \<Rightarrow> string list option \<Rightarrow> bool" where
  "equal_strings xs ys \<longleftrightarrow> sort (WithDefault xs []) = sort (WithDefault ys [])"

definition equal_default :: "cp_default option \<Rightarrow> cp_default option \<Rightarrow> bool" where
  "equal_default x y \<longleftrightarrow>
     (case (x, y) of
        (None, None) \<Rightarrow> True
      | (Some a, Some b) \<Rightarrow> cd_Value a = cd_Value b \<and> equal_strings (cd_Values a) (cd_Values b)
      | _ \<Rightarrow> False)"

definition equal_property :: "org_property \<Rightarrow> org_property \<Rightarrow> bool" where
  "equal_property p q \<longleftrightarrow> op_PropertyName p = op_PropertyName q \<and> op_ValueType p = op_ValueType q \<and> op_Required p = op_Required q \<and>
     equal_default (op_DefaultValue p) (op_DefaultValue q) \<and> op_Description p = op_Description q \<and>
     equal_strings (op_AllowedValues p) (op_AllowedValues q) \<and> op_ValuesEditableBy p = op_ValuesEditableBy q"

definition K8sOrgCustomPropertyMatchesGitHubCustomProperty ::
    "property_lib \<Rightarrow> org_property \<Rightarrow> gh_property option \<Rightarrow> (go_error, bool) result" where
  "K8sOrgCustomPropertyMatchesGitHubCustomProperty lib p cur =
     (case cur of
        None \<Rightarrow> Inr False
      | Some g \<Rightarrow>
          (if \<not> IsK8sOrgCustomProperty g then Inr False
           else (case ToK8sOrgCustomProperty lib g of Inl e \<Rightarrow> Inl e | Inr q \<Rightarrow> Inr (equal_property p q))))"

definition getGitHubDefaultValue :: "org_property \<Rightarrow> cp_any" where
  "getGitHubDefaultValue p =
     (case op_DefaultValue p of
        None \<Rightarrow> AnyNil
      | Some d \<Rightarrow>
          (if op_ValueType p = ''multi_select'' then AnyStrings (cd_Values d)
           else (case cd_Value d of Some v \<Rightarrow> AnyString v | None \<Rightarrow> AnyNilString)))"

definition ToGitHubCustomProperty :: "org_property \<Rightarrow> gh_property" where
  "ToGitHubCustomProperty p =
     \<lparr>gp_PropertyName = Some (op_PropertyName p), gp_SourceType = None, gp_ValueType = op_ValueType p, gp_Required = op_Required p,
      gp_DefaultValue = getGitHubDefaultValue p, gp_Description = op_Description p, gp_AllowedValues = op_AllowedValues p,
      gp_ValuesEditableBy = Some (op_ValuesEditableBy p)\<rparr>"

definition getDefaultValueAsCPV :: "property_lib \<Rightarrow> gh_property \<Rightarrow> (go_error, gh_value) result" where
  "getDefaultValueAsCPV lib g =
     (let failed = (\<lambda>v t. Inl (PlainError (''failed to convert default '' @ v @ '' for required custom property '' @ GetPropertyName g @ '' to '' @ t @ '': '' @ pl_Format lib (gp_DefaultValue g)))) in
      if gp_ValueType g = ''multi_select'' then
        (case pl_DefaultValueStrings lib g of
           None \<Rightarrow> failed ''values'' ''[]string''
         | Some vs \<Rightarrow> Inr \<lparr>gv_PropertyName = GetPropertyName g, gv_Value = AnyStrings (Some vs)\<rparr>)
      else if gp_ValueType g = ''true_false'' then
        (case pl_DefaultValueBool lib g of
           None \<Rightarrow> failed ''values'' ''bool''
         | Some b \<Rightarrow> Inr \<lparr>gv_PropertyName = GetPropertyName g, gv_Value = AnyString (bool_str b)\<rparr>)
      else
        (case pl_DefaultValueString lib g of
           None \<Rightarrow> failed ''value'' ''string''
         | Some v \<Rightarrow> Inr \<lparr>gv_PropertyName = GetPropertyName g, gv_Value = AnyString v\<rparr>))"

definition ToGitHubCustomPropertyValue :: "cp_value \<Rightarrow> gh_property \<Rightarrow> gh_value" where
  "ToGitHubCustomPropertyValue cp g =
     \<lparr>gv_PropertyName = GetPropertyName g,
      gv_Value =
        (if List.member [''string'', ''single_select'', ''true_false''] (gp_ValueType g)
         then (case cv_Value cp of None \<Rightarrow> AnyNil | Some v \<Rightarrow> AnyString v)
         else if gp_ValueType g = ''multi_select'' then AnyStrings (cv_Values cp)
         else AnyNil)\<rparr>"

text \<open>The value for one definition, and the loop that collects values and errors.\<close>

definition value_for :: "property_lib \<Rightarrow> (string, cp_value) gomap \<Rightarrow> gh_property \<Rightarrow> (go_error, gh_value) result" where
  "value_for lib rawByName g =
     (case map_get rawByName (GetPropertyName g) of
        Some cp \<Rightarrow> Inr (ToGitHubCustomPropertyValue cp g)
      | None \<Rightarrow>
          (if gp_Required g = Some True then getDefaultValueAsCPV lib g
           else Inr \<lparr>gv_PropertyName = GetPropertyName g, gv_Value = AnyNil\<rparr>))"

fun values_loop :: "property_lib \<Rightarrow> (string, cp_value) gomap \<Rightarrow> gh_property list \<Rightarrow> gh_value list \<times> go_error list" where
  "values_loop lib rawByName [] = ([], [])"
| "values_loop lib rawByName (g # gs) =
     (case values_loop lib rawByName gs of
        (vs, es) \<Rightarrow> (case value_for lib rawByName g of Inl e \<Rightarrow> (vs, e # es) | Inr v \<Rightarrow> (v # vs, es)))"

definition ToGitHubCustomPropertyValues ::
    "property_lib \<Rightarrow> cp_value list \<Rightarrow> gh_property list \<Rightarrow> gh_value list \<times> go_error option" where
  "ToGitHubCustomPropertyValues lib raw defs =
     (case values_loop lib (put_all cv_PropertyName (\<lambda>x. x) raw []) defs of (vs, es) \<Rightarrow> (vs, errors_Join es))"

section \<open>Definitions in an organization\<close>

datatype property_call = SetProperties string "gh_property list" | SetValues string string "gh_value list"

record property_api =
  pa_GetAllCustomPropertiesForOrganization :: "property_call list \<Rightarrow> string \<Rightarrow> (go_error, gh_property list) result"
  pa_CreateOrUpdateOrganizationCustomProperties :: "property_call list \<Rightarrow> string \<Rightarrow> gh_property list \<Rightarrow> go_error option"
  pa_GetAllCustomPropertyValues :: "property_call list \<Rightarrow> string \<Rightarrow> string \<Rightarrow> (go_error, gh_value list) result"
  pa_CreateOrUpdateRepositoryCustomProperties :: "property_call list \<Rightarrow> string \<Rightarrow> string \<Rightarrow> gh_value list \<Rightarrow> go_error option"

definition retainOnlyOrgProperties :: "gh_property list \<Rightarrow> gh_property list" where
  "retainOnlyOrgProperties gs = filter IsK8sOrgCustomProperty gs"

definition getGitHubOrgCustomPropertiesByPropertyName ::
    "property_api \<Rightarrow> string \<Rightarrow> property_call list \<Rightarrow> (go_error, (string, gh_property) gomap) result" where
  "getGitHubOrgCustomPropertiesByPropertyName api org h =
     (case pa_GetAllCustomPropertiesForOrganization api h org of
        Inl e \<Rightarrow> Inl e
      | Inr gs \<Rightarrow> Inr (put_all GetPropertyName (\<lambda>g. g) (filter (\<lambda>g. GetPropertyName g \<noteq> []) (retainOnlyOrgProperties gs)) []))"

definition with_required :: "org_property \<Rightarrow> org_property" where
  "with_required p = (if op_Required p = None then p\<lparr>op_Required := Some False\<rparr> else p)"

text \<open>The comparison loop: whether something is new or changed; it ends at the first comparison that fails.\<close>

fun changed_loop :: "property_lib \<Rightarrow> (string, gh_property) gomap \<Rightarrow> org_property list \<Rightarrow> bool \<Rightarrow> (go_error, bool) result" where
  "changed_loop lib cur [] acc = Inr acc"
| "changed_loop lib cur (p # ps) acc =
     (case map_get cur (op_PropertyName p) of
        None \<Rightarrow> changed_loop lib cur ps True
      | Some g \<Rightarrow>
          (case K8sOrgCustomPropertyMatchesGitHubCustomProperty lib (with_required p) (Some g) of
             Inl e \<Rightarrow> Inl e
           | Inr m \<Rightarrow> changed_loop lib cur ps (acc \<or> \<not> m)))"

definition org_reconcileCustomProperties ::
    "property_lib \<Rightarrow> property_api \<Rightarrow> string \<Rightarrow> org_property list \<Rightarrow> property_call list \<Rightarrow> property_call list \<times> go_error option" where
  "org_reconcileCustomProperties lib api org desired h =
     (case getGitHubOrgCustomPropertiesByPropertyName api org h of
        Inl e \<Rightarrow> (h, Some e)
      | Inr cur \<Rightarrow>
          (case changed_loop lib cur desired False of
             Inl e \<Rightarrow> (h, Some e)
           | Inr changed \<Rightarrow>
               (let toApply = map (ToGitHubCustomProperty \<circ> with_required) desired in
                if changed \<or> length toApply \<noteq> length cur
                then (h @ [SetProperties org toApply], pa_CreateOrUpdateOrganizationCustomProperties api h org toApply)
                else (h, None))))"

section \<open>Values of a repository\<close>

definition expectedFromDesiredCustomPropertyValues :: "gh_value list \<Rightarrow> gh_value list" where
  "expectedFromDesiredCustomPropertyValues vs = filter (\<lambda>v. gv_Value v \<noteq> AnyNil) vs"

definition norm_any :: "cp_any \<Rightarrow> cp_any" where
  "norm_any v = (case v of AnyStrings xs \<Rightarrow> AnyStrings (Some (sort (WithDefault xs []))) | _ \<Rightarrow> v)"

definition norm_value :: "gh_value \<Rightarrow> gh_value" where
  "norm_value v = v\<lparr>gv_Value := norm_any (gv_Value v)\<rparr>"

definition equal_values :: "gh_value list \<Rightarrow> gh_value list \<Rightarrow> bool" where
  "equal_values vs ws \<longleftrightarrow> map norm_value (sort_key gv_PropertyName vs) = map norm_value (sort_key gv_PropertyName ws)"

definition repo_reconcileCustomProperties ::
    "property_lib \<Rightarrow> property_api \<Rightarrow> string \<Rightarrow> string \<Rightarrow> cp_value list \<Rightarrow> property_call list \<Rightarrow> property_call list \<times> go_error option" where
  "repo_reconcileCustomProperties lib api owner name raw h =
     (case pa_GetAllCustomPropertyValues api h owner name of
        Inl e \<Rightarrow> (h, Some e)
      | Inr cur \<Rightarrow>
          (case pa_GetAllCustomPropertiesForOrganization api h owner of
             Inl e \<Rightarrow> (h, Some e)
           | Inr defs \<Rightarrow>
               (case ToGitHubCustomPropertyValues lib raw defs of
                  (vs, Some e) \<Rightarrow> (h, Some e)
                | (vs, None) \<Rightarrow>
                    (if \<not> equal_values cur (expectedFromDesiredCustomPropertyValues vs)
                     then (h @ [SetValues owner name vs], pa_CreateOrUpdateRepositoryCustomProperties api h owner name vs)
                     else (h, None)))))"

section \<open>GitHub as a store\<close>

text \<open>
  The documented behaviour of the library's readers: a default value is read back in the form the value type asks for. The default is what the JSON decoder
  left in the field: a string, or a \<^verbatim>\<open>[]any\<close> of strings.
\<close>

definition default_value_laws :: "property_lib \<Rightarrow> bool" where
  "default_value_laws lib \<longleftrightarrow>
     (\<forall>g s. List.member [''string'', ''single_select'', ''url''] (gp_ValueType g) \<longrightarrow> gp_DefaultValue g = AnyString s \<longrightarrow> pl_DefaultValueString lib g = Some s) \<and>
     (\<forall>g ss. gp_ValueType g = ''multi_select'' \<longrightarrow> gp_DefaultValue g = AnyAnys (map AnyString ss) \<longrightarrow> pl_DefaultValueStrings lib g = Some ss) \<and>
     (\<forall>g b. gp_ValueType g = ''true_false'' \<longrightarrow> gp_DefaultValue g = AnyString (bool_str b) \<longrightarrow> pl_DefaultValueBool lib g = Some b)"

text \<open>Writing a value as JSON and reading it into a variable of type \<^verbatim>\<open>any\<close>; a definition that is stored belongs to the organization.\<close>

definition json_echo :: "cp_any \<Rightarrow> cp_any" where
  "json_echo v = (case v of AnyNilString \<Rightarrow> AnyNil | AnyStrings None \<Rightarrow> AnyNil | AnyStrings (Some ss) \<Rightarrow> AnyAnys (map AnyString ss) | _ \<Rightarrow> v)"

definition json_null :: "cp_any \<Rightarrow> bool" where
  "json_null v \<longleftrightarrow> json_echo v = AnyNil"

definition stored :: "gh_property \<Rightarrow> gh_property" where
  "stored g = g\<lparr>gp_SourceType := Some CustomPropertySourceTypeOrganization, gp_DefaultValue := json_echo (gp_DefaultValue g)\<rparr>"

definition put_last :: "('v \<Rightarrow> 'k) \<Rightarrow> ('v \<Rightarrow> bool) \<Rightarrow> 'v list \<Rightarrow> 'v \<Rightarrow> 'v list" where
  "put_last key keep S v = filter (\<lambda>s. key s \<noteq> key v) S @ (if keep v then [v] else [])"

text \<open>The definitions after some calls (definitions are created and replaced), and the values (null removes a value).\<close>

definition props_after :: "gh_property list \<Rightarrow> property_call list \<Rightarrow> gh_property list" where
  "props_after S h = foldl (\<lambda>S c. case c of SetProperties org gs \<Rightarrow> foldl (put_last GetPropertyName (\<lambda>g. True)) S (map stored gs) | _ \<Rightarrow> S) S h"

definition values_after :: "gh_value list \<Rightarrow> property_call list \<Rightarrow> gh_value list" where
  "values_after V h = foldl (\<lambda>V c. case c of SetValues ow n vs \<Rightarrow> foldl (put_last gv_PropertyName (\<lambda>v. \<not> json_null (gv_Value v))) V vs | _ \<Rightarrow> V) V h"

definition property_store :: "gh_property list \<Rightarrow> gh_value list \<Rightarrow> property_api" where
  "property_store S V =
     \<lparr>pa_GetAllCustomPropertiesForOrganization = (\<lambda>h org. Inr (props_after S h)),
      pa_CreateOrUpdateOrganizationCustomProperties = (\<lambda>h org gs. None),
      pa_GetAllCustomPropertyValues = (\<lambda>h ow n. Inr (values_after V h)),
      pa_CreateOrUpdateRepositoryCustomProperties = (\<lambda>h ow n vs. None)\<rparr>"

lemma put_last_all:
  "distinct (map key vs) \<Longrightarrow> foldl (put_last key keep) S vs = filter (\<lambda>s. key s \<notin> key ` set vs) S @ filter keep vs"
proof (induction vs arbitrary: S)
  case (Cons v vs)
  have "filter (\<lambda>s. key s \<notin> key ` set vs) (put_last key keep S v) = filter (\<lambda>s. key s \<notin> key ` set (v # vs)) S @ (if keep v then [v] else [])"
    using Cons.prems by (auto simp: put_last_def intro!: filter_cong)
  then show ?case using Cons by simp
qed simp

lemma stored_simps [simp]: "GetPropertyName (stored g) = GetPropertyName g" "IsK8sOrgCustomProperty (stored g)"
  by (simp_all add: stored_def GetPropertyName_def IsK8sOrgCustomProperty_def)

lemma to_github_name [simp]: "GetPropertyName (ToGitHubCustomProperty p) = op_PropertyName p"
  by (simp add: ToGitHubCustomProperty_def GetPropertyName_def)

lemma with_required_simps [simp]: "op_PropertyName (with_required p) = op_PropertyName p" "op_DefaultValue (with_required p) = op_DefaultValue p"
    "op_ValueType (with_required p) = op_ValueType p"
  by (simp_all add: with_required_def)

section \<open>Definitions settle\<close>

text \<open>A default value in the form the type of the property asks for.\<close>

definition plain_default :: "org_property \<Rightarrow> bool" where
  "plain_default p \<longleftrightarrow>
     (case op_DefaultValue p of
        None \<Rightarrow> True
      | Some d \<Rightarrow>
          (if op_ValueType p = ''multi_select'' then cd_Value d = None \<and> cd_Values d \<noteq> None
           else if op_ValueType p = ''true_false'' then List.member [Some ''true'', Some ''false''] (cd_Value d) \<and> WithDefault (cd_Values d) [] = []
           else List.member [''string'', ''single_select'', ''url''] (op_ValueType p) \<and> cd_Value d \<noteq> None \<and> WithDefault (cd_Values d) [] = []))"

lemma plain_default_required [simp]: "plain_default (with_required p) = plain_default p"
  unfolding plain_default_def with_required_simps ..

lemma bool_str_member: "List.member [Some ''true'', Some ''false''] x \<longleftrightarrow> (\<exists>b. x = Some (bool_str b))"
proof -
  have "(\<exists>b. x = Some (bool_str b)) \<longleftrightarrow> x = Some (bool_str True) \<or> x = Some (bool_str False)" using bool.exhaust by metis
  then show ?thesis by (simp add: bool_str_def)
qed

lemma stored_default:
  assumes "default_value_laws lib" and "plain_default p"
  shows "\<exists>d. getK8sDefaultValue lib (stored (ToGitHubCustomProperty p)) = Inr d \<and> equal_default (op_DefaultValue p) d"
proof (cases "op_DefaultValue p")
  case None
  then show ?thesis
    by (auto simp: getK8sDefaultValue_def stored_def ToGitHubCustomProperty_def getGitHubDefaultValue_def json_echo_def equal_default_def)
next
  case (Some d)
  let ?g = "stored (ToGitHubCustomProperty p)"
  have ty: "gp_ValueType ?g = op_ValueType p" by (simp add: stored_def ToGitHubCustomProperty_def)
  have dv: "gp_DefaultValue ?g = json_echo (getGitHubDefaultValue p)" by (simp add: stored_def ToGitHubCustomProperty_def)
  consider (multi) "op_ValueType p = ''multi_select''" | (tf) "op_ValueType p = ''true_false''"
    | (str) "List.member [''string'', ''single_select'', ''url''] (op_ValueType p)"
    using assms(2) Some by (auto simp: plain_default_def split: if_splits)
  then show ?thesis
  proof cases
    case multi
    then obtain ss where d: "cd_Value d = None" "cd_Values d = Some ss" using assms(2) Some by (auto simp: plain_default_def)
    have "gp_DefaultValue ?g = AnyAnys (map AnyString ss)" using dv multi Some d by (simp add: getGitHubDefaultValue_def json_echo_def)
    moreover from this have "pl_DefaultValueStrings lib ?g = Some ss" using assms(1) ty multi by (simp add: default_value_laws_def)
    ultimately show ?thesis using ty multi Some d by (simp add: getK8sDefaultValue_def equal_default_def equal_strings_def)
  next
    case tf
    then obtain b where d: "cd_Value d = Some (bool_str b)" "WithDefault (cd_Values d) [] = []"
      using assms(2) Some by (auto simp: plain_default_def bool_str_member simp del: List.member_iff)
    have "gp_DefaultValue ?g = AnyString (bool_str b)" using dv tf Some d by (simp add: getGitHubDefaultValue_def json_echo_def)
    moreover from this have "pl_DefaultValueBool lib ?g = Some b" using assms(1) ty tf by (simp add: default_value_laws_def)
    ultimately show ?thesis using ty tf Some d by (simp add: getK8sDefaultValue_def equal_default_def equal_strings_def)
  next
    case str
    then have nt: "op_ValueType p \<noteq> ''multi_select''" "op_ValueType p \<noteq> ''true_false''" by auto
    then obtain s where d: "cd_Value d = Some s" "WithDefault (cd_Values d) [] = []" using assms(2) Some by (auto simp: plain_default_def)
    have "gp_DefaultValue ?g = AnyString s" using dv nt Some d by (simp add: getGitHubDefaultValue_def json_echo_def)
    moreover from this have "pl_DefaultValueString lib ?g = Some s" using assms(1) ty str unfolding default_value_laws_def by metis
    ultimately show ?thesis using ty nt Some d by (simp add: getK8sDefaultValue_def equal_default_def equal_strings_def)
  qed
qed

lemma stored_matches:
  assumes "default_value_laws lib" and "plain_default p"
  shows "K8sOrgCustomPropertyMatchesGitHubCustomProperty lib p (Some (stored (ToGitHubCustomProperty p))) = Inr True"
proof -
  obtain d where "getK8sDefaultValue lib (stored (ToGitHubCustomProperty p)) = Inr d" "equal_default (op_DefaultValue p) d"
    using stored_default [OF assms] by blast
  then show ?thesis
    by (simp add: K8sOrgCustomPropertyMatchesGitHubCustomProperty_def ToK8sOrgCustomProperty_def equal_property_def)
      (simp add: stored_def ToGitHubCustomProperty_def equal_strings_def)
qed

lemma changed_loop_iff:
  "changed_loop lib cur ps acc = Inr False \<longleftrightarrow> \<not> acc \<and>
     (\<forall>p \<in> set ps. \<exists>g. map_get cur (op_PropertyName p) = Some g \<and> K8sOrgCustomPropertyMatchesGitHubCustomProperty lib (with_required p) (Some g) = Inr True)"
proof (induction ps arbitrary: acc)
  case (Cons p ps)
  have t: "changed_loop lib cur ps True \<noteq> Inr False" using Cons.IH [of True] by simp
  show ?case
  proof (cases "map_get cur (op_PropertyName p)")
    case None
    then show ?thesis using t by simp
  next
    case (Some g)
    show ?thesis
    proof (cases "K8sOrgCustomPropertyMatchesGitHubCustomProperty lib (with_required p) (Some g)")
      case (Inl e)
      then show ?thesis using Some by simp
    next
      case (Inr m)
      then show ?thesis using Some t Cons.IH [of acc] by (cases "acc \<or> \<not> m") auto
    qed
  qed
qed simp

lemma store_by_name:
  assumes "props_after S0 h = S" and "distinct (map GetPropertyName S)" and "\<forall>g \<in> set S. GetPropertyName g \<noteq> []"
  shows "getGitHubOrgCustomPropertiesByPropertyName (property_store S0 V) org h =
      Inr (map (\<lambda>g. (GetPropertyName g, g)) (filter IsK8sOrgCustomProperty S))"
proof -
  have fresh: "put_all kf (\<lambda>x. x) xs m = m @ map (\<lambda>x. (kf x, x)) xs" if "distinct (map fst m @ map kf xs)" for kf :: "gh_property \<Rightarrow> string" and xs m
    using that
  proof (induction xs arbitrary: m)
    case (Cons x xs)
    have "map_put (kf x) x m = m @ [(kf x, x)]" using Cons.prems by (induction m) auto
    then show ?case using Cons.IH [of "m @ [(kf x, x)]"] Cons.prems by simp
  qed simp
  have "filter (\<lambda>g. GetPropertyName g \<noteq> []) (filter IsK8sOrgCustomProperty S) = filter IsK8sOrgCustomProperty S"
    by (rule filter_True) (simp add: assms(3))
  moreover have "distinct (map GetPropertyName (filter IsK8sOrgCustomProperty S))" using assms(2) by (simp add: distinct_map_filter)
  ultimately show ?thesis
    by (simp add: getGitHubOrgCustomPropertiesByPropertyName_def property_store_def assms(1) retainOnlyOrgProperties_def fresh)
qed

lemma by_name_get:
  assumes "distinct (map GetPropertyName S)"
  shows "map_get (map (\<lambda>g. (GetPropertyName g, g)) (filter P S)) n = Some g \<longleftrightarrow> g \<in> set S \<and> P g \<and> GetPropertyName g = n"
proof -
  have "gomap_ok (map (\<lambda>g. (GetPropertyName g, g)) (filter P S))"
    using assms by (simp add: gomap_ok_def comp_def distinct_map_filter)
  from gomap_in_iff [OF this, of n g] show ?thesis by auto
qed

text \<open>A run that makes no call, as a condition on the state.\<close>

lemma org_quiet_iff:
  assumes "props_after S0 h = S" and "distinct (map GetPropertyName S)" and "\<forall>g \<in> set S. GetPropertyName g \<noteq> []"
  shows "org_reconcileCustomProperties lib (property_store S0 V) org desired h = (h, None) \<longleftrightarrow>
    (\<forall>p \<in> set desired. \<exists>g \<in> set S. IsK8sOrgCustomProperty g \<and> GetPropertyName g = op_PropertyName p \<and>
       K8sOrgCustomPropertyMatchesGitHubCustomProperty lib (with_required p) (Some g) = Inr True) \<and>
    length desired = length (filter IsK8sOrgCustomProperty S)"
    (is "?l \<longleftrightarrow> ?m \<and> ?n")
proof -
  let ?cur = "map (\<lambda>g. (GetPropertyName g, g)) (filter IsK8sOrgCustomProperty S)"
  have "?l \<longleftrightarrow> changed_loop lib ?cur desired False = Inr False \<and> ?n"
    by (auto simp: org_reconcileCustomProperties_def store_by_name [OF assms] Let_def split: sum.split)
  moreover have "changed_loop lib ?cur desired False = Inr False \<longleftrightarrow> ?m"
    unfolding changed_loop_iff by_name_get [OF assms(2)] by blast
  ultimately show ?thesis by blast
qed

text \<open>What a successful run leaves behind: nothing changed in a quiet run, all definitions written in another.\<close>

lemma org_run_cases:
  assumes "org_reconcileCustomProperties lib (property_store S V) org desired [] = (h', None)" and "distinct (map op_PropertyName desired)"
  obtains (quiet) "h' = []" "props_after S h' = S"
    | (call) "h' \<noteq> []" "props_after S h' =
        filter (\<lambda>g. GetPropertyName g \<notin> op_PropertyName ` set desired) S @ map (stored \<circ> ToGitHubCustomProperty \<circ> with_required) desired"
proof (cases "h' = []")
  case True
  then show ?thesis using quiet by (simp add: props_after_def)
next
  case False
  then have h: "h' = [SetProperties org (map (ToGitHubCustomProperty \<circ> with_required) desired)]"
    using assms(1) by (auto simp: org_reconcileCustomProperties_def Let_def split: sum.splits if_splits)
  let ?gs = "map stored (map (ToGitHubCustomProperty \<circ> with_required) desired)"
  have n: "map GetPropertyName ?gs = map op_PropertyName desired" by simp
  have d: "distinct (map GetPropertyName ?gs)" unfolding n by (rule assms(2))
  have i: "GetPropertyName ` set ?gs = op_PropertyName ` set desired" using arg_cong [OF n, of set] by (simp only: list.set_map)
  have "foldl (put_last GetPropertyName (\<lambda>g. True)) S ?gs = filter (\<lambda>g. GetPropertyName g \<notin> op_PropertyName ` set desired) S @ ?gs"
    using put_last_all [OF d, of "\<lambda>g. True" S] unfolding i by simp
  then show ?thesis using call False h by (simp add: props_after_def comp_assoc)
qed

lemma same_names:
  assumes "distinct (map f xs)" and "distinct (map g ys)" and "length xs = length ys" and "f ` set xs \<subseteq> g ` set ys"
  shows "f ` set xs = g ` set ys"
proof (rule card_subset_eq [OF _ assms(4)])
  show "card (f ` set xs) = card (g ` set ys)"
    using distinct_card [OF assms(1)] distinct_card [OF assms(2)] assms(3) by simp
qed simp

text \<open>The definitions of an organization converge, by adding and replacing. After a successful run each desired property is on GitHub and matches its definition, and every
  property that is not desired is as it was. The next run makes no further call exactly if all properties of the organization were desired: a property that was dropped from
  the resource stays on GitHub, and the call that is to remove it is repeated in every run.\<close>

lemma org_properties_converge:
  assumes "default_value_laws lib" and "distinct (map GetPropertyName S)" and "\<forall>g \<in> set S. GetPropertyName g \<noteq> []"
    and "distinct (map op_PropertyName desired)" and "\<forall>p \<in> set desired. op_PropertyName p \<noteq> [] \<and> plain_default p"
    and "org_reconcileCustomProperties lib (property_store S V) org desired [] = (h', None)"
  shows "(\<forall>p \<in> set desired. \<exists>g \<in> set (props_after S h'). GetPropertyName g = op_PropertyName p \<and>
      K8sOrgCustomPropertyMatchesGitHubCustomProperty lib (with_required p) (Some g) = Inr True) \<and>
    (\<forall>g \<in> set S. GetPropertyName g \<notin> op_PropertyName ` set desired \<longrightarrow> g \<in> set (props_after S h')) \<and>
    (org_reconcileCustomProperties lib (property_store S V) org desired h' = (h', None) \<longleftrightarrow>
      (\<forall>g \<in> set S. IsK8sOrgCustomProperty g \<longrightarrow> GetPropertyName g \<in> op_PropertyName ` set desired))"
  using assms(6,4)
proof (cases rule: org_run_cases)
  case quiet
  have q: "(\<forall>p \<in> set desired. \<exists>g \<in> set S. IsK8sOrgCustomProperty g \<and> GetPropertyName g = op_PropertyName p \<and>
       K8sOrgCustomPropertyMatchesGitHubCustomProperty lib (with_required p) (Some g) = Inr True) \<and>
    length desired = length (filter IsK8sOrgCustomProperty S)"
    using org_quiet_iff [OF _ assms(2,3), of S "[]" lib V org desired] assms(6) quiet by (simp add: props_after_def)
  then have "op_PropertyName ` set desired \<subseteq> GetPropertyName ` set (filter IsK8sOrgCustomProperty S)" by force
  then have "op_PropertyName ` set desired = GetPropertyName ` set (filter IsK8sOrgCustomProperty S)"
    using same_names [OF assms(4)] assms(2) q by (blast intro: distinct_map_filter)
  then have "\<forall>g \<in> set S. IsK8sOrgCustomProperty g \<longrightarrow> GetPropertyName g \<in> op_PropertyName ` set desired" by auto
  then show ?thesis using q assms(6) quiet by auto
next
  case call
  let ?new = "stored \<circ> ToGitHubCustomProperty \<circ> with_required" and ?old = "filter (\<lambda>g. GetPropertyName g \<notin> op_PropertyName ` set desired) S"
  have m: "K8sOrgCustomPropertyMatchesGitHubCustomProperty lib (with_required p) (Some (?new p)) = Inr True" if "p \<in> set desired" for p
  proof -
    have "plain_default (with_required p)" using assms(5) that by simp
    from stored_matches [OF assms(1) this] show ?thesis by simp
  qed
  have e0: "map (GetPropertyName \<circ> ?new) desired = map op_PropertyName desired" by simp
  have "distinct (map (GetPropertyName \<circ> ?new) desired)" unfolding e0 by (rule assms(4))
  then have "distinct (map GetPropertyName (props_after S h'))" and ne: "\<forall>g \<in> set (props_after S h'). GetPropertyName g \<noteq> []"
    using assms(2,3,4,5) unfolding call(2) by (auto simp: distinct_map_filter)
  note q = org_quiet_iff [OF refl this, of lib V org desired]
  have "length (filter IsK8sOrgCustomProperty (props_after S h')) = length (filter IsK8sOrgCustomProperty ?old) + length desired"
    unfolding call(2) by (simp add: filter_map comp_def)
  then have n: "length desired = length (filter IsK8sOrgCustomProperty (props_after S h')) \<longleftrightarrow>
      (\<forall>g \<in> set S. IsK8sOrgCustomProperty g \<longrightarrow> GetPropertyName g \<in> op_PropertyName ` set desired)"
    by (auto simp: filter_empty_conv)
  have e: "\<exists>g \<in> set (props_after S h'). IsK8sOrgCustomProperty g \<and> GetPropertyName g = op_PropertyName p \<and>
      K8sOrgCustomPropertyMatchesGitHubCustomProperty lib (with_required p) (Some g) = Inr True" if "p \<in> set desired" for p
    using m [OF that] that unfolding call(2) by (intro bexI [of _ "?new p"]) auto
  have k: "\<forall>g \<in> set S. GetPropertyName g \<notin> op_PropertyName ` set desired \<longrightarrow> g \<in> set (props_after S h')" unfolding call(2) by simp
  show ?thesis using q n e k by blast
qed

section \<open>Values converge\<close>

text \<open>
  What a repository asks for, whatever the type of the definition: the value or the values its entry has, the default of a required property it has no entry for, nothing
  otherwise. The last of several entries for one property counts. GitHub reports a default as a string or as a list of strings.
\<close>

definition given :: "cp_value list \<Rightarrow> string \<Rightarrow> cp_value option" where
  "given raw n = find (\<lambda>cp. cv_PropertyName cp = n) (rev raw)"

definition wanted_value :: "cp_value list \<Rightarrow> gh_property \<Rightarrow> cp_any option" where
  "wanted_value raw g =
     (case given raw (GetPropertyName g) of
        Some cp \<Rightarrow> (case cv_Values cp of Some vs \<Rightarrow> Some (AnyStrings (Some vs)) | None \<Rightarrow> map_option AnyString (cv_Value cp))
      | None \<Rightarrow>
          (if gp_Required g \<noteq> Some True then None
           else (case gp_DefaultValue g of
               AnyAnys vs \<Rightarrow> Some (AnyStrings (Some (List.map_filter (\<lambda>v. case v of AnyString s \<Rightarrow> Some s | _ \<Rightarrow> None) vs)))
             | v \<Rightarrow> Some v)))"

text \<open>
  An entry fits its definition if it has values for a selection from several and at most a single value otherwise, as the resource documents it. Definitions of type \<^verbatim>\<open>url\<close>, whose values
  the mapper drops, do not count. The default of a required property fits as well.
\<close>

definition entry_fits :: "cp_value \<Rightarrow> gh_property \<Rightarrow> bool" where
  "entry_fits cp g \<longleftrightarrow>
     (if gp_ValueType g = ''multi_select'' then cv_Values cp \<noteq> None \<and> cv_Value cp = None
      else gp_ValueType g \<in> {''string'', ''single_select'', ''true_false''} \<and> cv_Values cp = None)"

definition default_fits :: "gh_property \<Rightarrow> bool" where
  "default_fits g \<longleftrightarrow>
     (if gp_ValueType g = ''multi_select'' then \<exists>ss. gp_DefaultValue g = AnyAnys (map AnyString ss)
      else if gp_ValueType g = ''true_false'' then \<exists>b. gp_DefaultValue g = AnyString (bool_str b)
      else gp_ValueType g \<in> {''string'', ''single_select'', ''url''} \<and> (\<exists>s. gp_DefaultValue g = AnyString s))"

definition values_fit :: "cp_value list \<Rightarrow> gh_property list \<Rightarrow> bool" where
  "values_fit raw S \<longleftrightarrow>
     (\<forall>g \<in> set S. case given raw (GetPropertyName g) of Some cp \<Rightarrow> entry_fits cp g | None \<Rightarrow> gp_Required g = Some True \<longrightarrow> default_fits g)"

text \<open>The value of a property, up to the order of a selection.\<close>

definition value_at :: "gh_value list \<Rightarrow> string \<Rightarrow> cp_any option" where
  "value_at V n = map_option (\<lambda>v. norm_any (gv_Value v)) (find (\<lambda>v. gv_PropertyName v = n) V)"

lemma raw_get: "map_get (put_all cv_PropertyName (\<lambda>x. x) raw []) n = given raw n"
  by (simp add: put_all_get given_def option.map_ident split: option.split)

lemma values_loop_names: "values_loop lib m gs = (vs, []) \<Longrightarrow> map gv_PropertyName vs = map GetPropertyName gs \<and>
    list_all2 (\<lambda>g v. value_for lib m g = Inr v) gs vs"
proof (induction gs arbitrary: vs)
  case (Cons g gs)
  obtain ws es where l: "values_loop lib m gs = (ws, es)" by fastforce
  obtain v where v: "value_for lib m g = Inr v" and es: "es = []" "vs = v # ws" using Cons.prems l by (auto split: sum.splits)
  have "gv_PropertyName v = GetPropertyName g"
    using v by (auto simp: value_for_def getDefaultValueAsCPV_def Let_def ToGitHubCustomPropertyValue_def split: option.splits if_splits)
  then show ?case using Cons.IH l es v by simp
qed simp

lemma value_at_mem:
  assumes "distinct (map gv_PropertyName V)"
  shows "value_at V n = Some x \<longleftrightarrow> (n, x) \<in> (\<lambda>v. (gv_PropertyName v, norm_any (gv_Value v))) ` set V"
  using assms
proof (induction V)
  case Nil
  then show ?case by (simp add: value_at_def)
next
  case (Cons v V)
  then show ?case by (auto simp: value_at_def image_iff)
qed

lemma value_at_cong:
  assumes "distinct (map gv_PropertyName V)" and "distinct (map gv_PropertyName W)" and "equal_values V W"
  shows "value_at V n = value_at W n"
proof -
  have p: "(\<lambda>v. (gv_PropertyName v, norm_any (gv_Value v))) ` set U =
      (\<lambda>v. (gv_PropertyName v, gv_Value v)) ` set (map norm_value (sort_key gv_PropertyName U))" for U
    by (simp add: norm_value_def image_image)
  have "value_at V n = Some x \<longleftrightarrow> value_at W n = Some x" for x
    unfolding value_at_mem [OF assms(1)] value_at_mem [OF assms(2)] p assms(3) [unfolded equal_values_def] ..
  then show ?thesis by (metis option.exhaust)
qed

lemma map_filter_strings: "List.map_filter (\<lambda>v. case v of AnyString s \<Rightarrow> Some s | _ \<Rightarrow> None) (map AnyString ss) = ss"
  by (induction ss) (simp_all add: List.map_filter_simps)

lemma default_wanted:
  assumes "getDefaultValueAsCPV lib g = Inr v" and "default_value_laws lib" and "default_fits g" and "given raw (GetPropertyName g) = None" and "gp_Required g = Some True"
  shows "wanted_value raw g = Some (gv_Value v)" and "\<not> json_null (gv_Value v)"
proof -
  consider (multi) ss where "gp_ValueType g = ''multi_select''" "gp_DefaultValue g = AnyAnys (map AnyString ss)"
    | (bool) b where "gp_ValueType g = ''true_false''" "gp_DefaultValue g = AnyString (bool_str b)"
    | (single) s where "List.member [''string'', ''single_select'', ''url''] (gp_ValueType g)" "gp_DefaultValue g = AnyString s"
        "gp_ValueType g \<noteq> ''multi_select''" "gp_ValueType g \<noteq> ''true_false''"
    using assms(3) by (auto simp: default_fits_def split: if_splits)
  then have "wanted_value raw g = Some (gv_Value v) \<and> \<not> json_null (gv_Value v)"
  proof cases
    case multi
    then have "pl_DefaultValueStrings lib g = Some ss" using assms(2) by (simp add: default_value_laws_def)
    then show ?thesis using assms(1,4,5) multi by (auto simp: getDefaultValueAsCPV_def wanted_value_def map_filter_strings json_null_def json_echo_def)
  next
    case bool
    then have "pl_DefaultValueBool lib g = Some b" using assms(2) by (simp add: default_value_laws_def)
    then show ?thesis using assms(1,4,5) bool by (auto simp: getDefaultValueAsCPV_def wanted_value_def json_null_def json_echo_def)
  next
    case single
    then have "pl_DefaultValueString lib g = Some s" using assms(2) unfolding default_value_laws_def by blast
    then show ?thesis using assms(1,4,5) single by (auto simp: getDefaultValueAsCPV_def wanted_value_def json_null_def json_echo_def)
  qed
  then show "wanted_value raw g = Some (gv_Value v)" and "\<not> json_null (gv_Value v)" by simp_all
qed

lemma value_for_wanted:
  assumes "value_for lib (put_all cv_PropertyName (\<lambda>x. x) raw []) g = Inr v" and "default_value_laws lib" and "values_fit raw S" and "g \<in> set S"
  shows "wanted_value raw g = (if gv_Value v = AnyNil then None else Some (gv_Value v))" and "json_null (gv_Value v) \<longleftrightarrow> gv_Value v = AnyNil"
proof -
  have fits: "case given raw (GetPropertyName g) of Some cp \<Rightarrow> entry_fits cp g | None \<Rightarrow> gp_Required g = Some True \<longrightarrow> default_fits g"
    using assms(3,4) by (simp add: values_fit_def)
  have "wanted_value raw g = (if gv_Value v = AnyNil then None else Some (gv_Value v)) \<and> (json_null (gv_Value v) \<longleftrightarrow> gv_Value v = AnyNil)"
  proof (cases "given raw (GetPropertyName g)")
    case None
    show ?thesis
    proof (cases "gp_Required g = Some True")
      case True
      then have d: "getDefaultValueAsCPV lib g = Inr v" "default_fits g" using assms(1) fits None by (simp_all add: value_for_def raw_get)
      have "\<not> json_null (gv_Value v)" "wanted_value raw g = Some (gv_Value v)" using default_wanted [OF d(1) assms(2) d(2) None True] by simp_all
      then show ?thesis by (auto simp: json_null_def json_echo_def)
    next
      case False
      then show ?thesis using assms(1) None by (auto simp: value_for_def raw_get wanted_value_def json_null_def json_echo_def)
    qed
  next
    case (Some cp)
    then show ?thesis using assms(1) fits
      by (auto simp: value_for_def raw_get wanted_value_def entry_fits_def ToGitHubCustomPropertyValue_def json_null_def json_echo_def split: if_splits option.splits)
  qed
  then show "wanted_value raw g = (if gv_Value v = AnyNil then None else Some (gv_Value v))" and "json_null (gv_Value v) \<longleftrightarrow> gv_Value v = AnyNil" by simp_all
qed

text \<open>The values one run computes from the definitions, with those it expects to be reported.\<close>

lemma desired_values:
  assumes "ToGitHubCustomPropertyValues lib raw S = (vs, None)" and "distinct (map GetPropertyName S)"
    and "values_fit raw S" and "default_value_laws lib"
  shows "map gv_PropertyName vs = map GetPropertyName S"
    and "expectedFromDesiredCustomPropertyValues vs = filter (\<lambda>v. \<not> json_null (gv_Value v)) vs"
    and "\<forall>g \<in> set S. value_at (expectedFromDesiredCustomPropertyValues vs) (GetPropertyName g) = map_option norm_any (wanted_value raw g)"
proof -
  let ?m = "put_all cv_PropertyName (\<lambda>x. x) raw []"
  have l: "values_loop lib ?m S = (vs, [])" using assms(1) by (auto simp: ToGitHubCustomPropertyValues_def split: prod.splits)
  note n = values_loop_names [OF l]
  then show names: "map gv_PropertyName vs = map GetPropertyName S" by simp
  have all: "\<exists>g \<in> set S. value_for lib ?m g = Inr v" if "v \<in> set vs" for v using n that by (auto simp: list_all2_conv_all_nth in_set_conv_nth intro!: bexI [OF _ nth_mem])
  have nulls: "json_null (gv_Value v) \<longleftrightarrow> gv_Value v = AnyNil" if "v \<in> set vs" for v using all [OF that] value_for_wanted(2) assms(3,4) by blast
  then show "expectedFromDesiredCustomPropertyValues vs = filter (\<lambda>v. \<not> json_null (gv_Value v)) vs"
    by (auto simp: expectedFromDesiredCustomPropertyValues_def intro: filter_cong)
  have d: "distinct (map gv_PropertyName vs)" unfolding names by (rule assms(2))
  then have de: "distinct (map gv_PropertyName (expectedFromDesiredCustomPropertyValues vs))"
    by (simp add: expectedFromDesiredCustomPropertyValues_def distinct_map_filter)
  show "\<forall>g \<in> set S. value_at (expectedFromDesiredCustomPropertyValues vs) (GetPropertyName g) = map_option norm_any (wanted_value raw g)"
  proof
    fix g
    assume g: "g \<in> set S"
    then obtain i where i: "i < length S" "S ! i = g" by (auto simp: in_set_conv_nth)
    let ?v = "vs ! i"
    have v: "value_for lib ?m g = Inr ?v" "?v \<in> set vs" using n i by (auto simp: list_all2_conv_all_nth)
    have nm: "gv_PropertyName ?v = GetPropertyName g" using names i by (metis length_map nth_map)
    have only: "w = ?v" if "w \<in> set vs" "gv_PropertyName w = GetPropertyName g" for w
      using d that v(2) nm by (metis distinct_map inj_onD)
    have w: "wanted_value raw g = (if gv_Value ?v = AnyNil then None else Some (gv_Value ?v))"
      by (rule value_for_wanted(1) [OF v(1) assms(4,3) g])
    have "value_at (expectedFromDesiredCustomPropertyValues vs) (GetPropertyName g) = Some x \<longleftrightarrow> gv_Value ?v \<noteq> AnyNil \<and> x = norm_any (gv_Value ?v)" for x
    proof
      assume "value_at (expectedFromDesiredCustomPropertyValues vs) (GetPropertyName g) = Some x"
      then obtain w where w: "w \<in> set vs" "gv_Value w \<noteq> AnyNil" "gv_PropertyName w = GetPropertyName g" "x = norm_any (gv_Value w)"
        unfolding value_at_mem [OF de] by (auto simp: expectedFromDesiredCustomPropertyValues_def)
      then show "gv_Value ?v \<noteq> AnyNil \<and> x = norm_any (gv_Value ?v)" using only [OF w(1,3)] by blast
    next
      assume x: "gv_Value ?v \<noteq> AnyNil \<and> x = norm_any (gv_Value ?v)"
      then have "?v \<in> set (expectedFromDesiredCustomPropertyValues vs)" using v(2) by (simp add: expectedFromDesiredCustomPropertyValues_def)
      moreover have "(GetPropertyName g, x) = (gv_PropertyName ?v, norm_any (gv_Value ?v))" using nm x by simp
      ultimately show "value_at (expectedFromDesiredCustomPropertyValues vs) (GetPropertyName g) = Some x"
        unfolding value_at_mem [OF de] by (rule rev_image_eqI)
    qed
    then show "value_at (expectedFromDesiredCustomPropertyValues vs) (GetPropertyName g) = map_option norm_any (wanted_value raw g)"
      unfolding w by (cases "value_at (expectedFromDesiredCustomPropertyValues vs) (GetPropertyName g)") auto
  qed
qed

lemma custom_values_settled:
  assumes "distinct (map GetPropertyName S)" and "distinct (map gv_PropertyName V)" and "gv_PropertyName ` set V \<subseteq> GetPropertyName ` set S"
    and "values_fit raw S" and "default_value_laws lib"
    and "repo_reconcileCustomProperties lib (property_store S V) owner name raw [] = (h', None)"
  shows "(\<forall>g \<in> set S. value_at (values_after V h') (GetPropertyName g) = map_option norm_any (wanted_value raw g)) \<and>
    repo_reconcileCustomProperties lib (property_store S V) owner name raw h' = (h', None)"
proof -
  obtain vs where vs: "ToGitHubCustomPropertyValues lib raw S = (vs, None)"
    using assms(6) by (auto simp: repo_reconcileCustomProperties_def property_store_def props_after_def split: prod.splits option.splits)
  note dv = desired_values [OF vs assms(1,4,5)]
  let ?E = "expectedFromDesiredCustomPropertyValues vs"
  have d: "distinct (map gv_PropertyName vs)" unfolding dv(1) by (rule assms(1))
  have i: "gv_PropertyName ` set vs = GetPropertyName ` set S" using arg_cong [OF dv(1), of set] by (simp only: list.set_map)
  have de: "distinct (map gv_PropertyName ?E)" using d by (simp add: expectedFromDesiredCustomPropertyValues_def distinct_map_filter)
  have run: "h' = (if equal_values V ?E then [] else [SetValues owner name vs])"
    using assms(6) vs by (auto simp: repo_reconcileCustomProperties_def property_store_def props_after_def values_after_def split: if_splits)
  have after: "equal_values (values_after V h') ?E \<and> distinct (map gv_PropertyName (values_after V h'))"
  proof (cases "equal_values V ?E")
    case True
    then show ?thesis using run assms(2) by (simp add: values_after_def)
  next
    case False
    have "filter (\<lambda>s. gv_PropertyName s \<notin> gv_PropertyName ` set vs) V = []" unfolding i using assms(3) by (auto simp: filter_empty_conv)
    then have "values_after V h' = ?E" using run False dv(2) by (simp add: values_after_def put_last_all [OF d])
    then show ?thesis using de by (simp add: equal_values_def)
  qed
  have "props_after S h' = S" using run by (simp add: props_after_def)
  then have "repo_reconcileCustomProperties lib (property_store S V) owner name raw h' = (h', None)"
    using after vs by (simp add: repo_reconcileCustomProperties_def property_store_def)
  moreover have "value_at (values_after V h') n = value_at ?E n" for n using value_at_cong [OF _ de] after by blast
  ultimately show ?thesis using dv(3) by simp
qed


text \<open>A value for a selection without choices is a nil slice in an interface, which the comparison expects to be reported although GitHub has removed it: the call is
  repeated in every run.\<close>

lemma nil_selection_repeats:
  assumes "ToGitHubCustomPropertyValues lib raw S = (vs, None)" and "distinct (map gv_PropertyName vs)" and "v \<in> set vs" and "gv_Value v = AnyStrings None"
    and "values_after V h = filter (\<lambda>v. \<not> json_null (gv_Value v)) vs" and "props_after S h = S"
  shows "fst (repo_reconcileCustomProperties lib (property_store S V) owner name raw h) = h @ [SetValues owner name vs]"
proof -
  let ?E = "expectedFromDesiredCustomPropertyValues vs" and ?K = "filter (\<lambda>v. \<not> json_null (gv_Value v)) vs"
  have sub: "json_null (gv_Value w)" if "gv_Value w = AnyNil" for w using that by (simp add: json_null_def json_echo_def)
  have v: "v \<in> set ?E" "v \<notin> set ?K" using assms(3,4) by (simp_all add: expectedFromDesiredCustomPropertyValues_def json_null_def json_echo_def)
  have "set ?K \<subseteq> set ?E" using sub by (auto simp: expectedFromDesiredCustomPropertyValues_def)
  moreover have "distinct ?K" "distinct ?E" using assms(2) by (auto simp: expectedFromDesiredCustomPropertyValues_def distinct_map)
  ultimately have "length ?K < length ?E" using v psubset_card_mono [of "set ?E" "set ?K"] by (metis distinct_card finite_set psubsetI)
  then have "\<not> equal_values ?K ?E" unfolding equal_values_def by (metis length_map length_sort order_less_irrefl)
  then show ?thesis using assms(1,5,6) by (simp add: repo_reconcileCustomProperties_def property_store_def)
qed

text \<open>Examples: the library's readers as documented, an organization with a property that was dropped from the resource, and a repository with a selection.\<close>

definition as_string :: "cp_any \<Rightarrow> string option" where
  "as_string v = (case v of AnyString s \<Rightarrow> Some s | _ \<Rightarrow> None)"

definition ex_property_lib :: property_lib where
  "ex_property_lib =
     \<lparr>pl_DefaultValueString = (\<lambda>g. if List.member [''string'', ''single_select'', ''url''] (gp_ValueType g) then as_string (gp_DefaultValue g) else None),
      pl_DefaultValueStrings = (\<lambda>g. case gp_DefaultValue g of AnyAnys vs \<Rightarrow> those (map as_string vs) | _ \<Rightarrow> None),
      pl_DefaultValueBool = (\<lambda>g. case gp_DefaultValue g of AnyString s \<Rightarrow> if s = ''true'' then Some True else if s = ''false'' then Some False else None | _ \<Rightarrow> None),
      pl_Format = (\<lambda>v. ''?'')\<rparr>"

lemma ex_property_lib_laws: "default_value_laws ex_property_lib"
proof -
  have "those (map as_string (map AnyString ss)) = Some ss" for ss by (induction ss) (simp_all add: as_string_def)
  then show ?thesis by (simp add: default_value_laws_def ex_property_lib_def as_string_def bool_str_def)
qed

definition ex_org_property :: org_property where
  "ex_org_property = \<lparr>op_PropertyName = ''team'', op_ValueType = ''multi_select'', op_Required = Some True,
     op_DefaultValue = Some \<lparr>cd_Value = None, cd_Values = Some [''b'', ''a'']\<rparr>, op_Description = None, op_AllowedValues = Some [''a'', ''b'', ''c''],
     op_ValuesEditableBy = ''org_actors''\<rparr>"

definition ex_old_property :: gh_property where
  "ex_old_property = stored (ToGitHubCustomProperty (ex_org_property\<lparr>op_PropertyName := ''old''\<rparr>))"

lemma org_properties_converge_witness:
  "\<exists>h'. org_reconcileCustomProperties ex_property_lib (property_store [ex_old_property] []) ''org'' [ex_org_property] [] = (h', None) \<and>
     length h' = 1 \<and> ex_old_property \<in> set (props_after [ex_old_property] h') \<and>
     org_reconcileCustomProperties ex_property_lib (property_store [ex_old_property] []) ''org'' [ex_org_property] h' \<noteq> (h', None)"
proof -
  have "map_prod length (\<lambda>e. e) (org_reconcileCustomProperties ex_property_lib (property_store [ex_old_property] []) ''org'' [ex_org_property] []) = (1, None)" by code_simp
  then obtain h' where h: "org_reconcileCustomProperties ex_property_lib (property_store [ex_old_property] []) ''org'' [ex_org_property] [] = (h', None)" "length h' = 1"
    by (cases "org_reconcileCustomProperties ex_property_lib (property_store [ex_old_property] []) ''org'' [ex_org_property] []") auto
  have n: "GetPropertyName ex_old_property = ''old''" "op_PropertyName ex_org_property = ''team''" "IsK8sOrgCustomProperty ex_old_property"
      "plain_default ex_org_property" by code_simp+
  show ?thesis
    using org_properties_converge [OF ex_property_lib_laws _ _ _ _ h(1)] h n by simp
qed

definition ex_team_definition :: gh_property where
  "ex_team_definition = stored (ToGitHubCustomProperty ex_org_property)"

definition ex_cp_value :: cp_value where
  "ex_cp_value = \<lparr>cv_PropertyName = ''team'', cv_Value = None, cv_Values = Some [''c'', ''a'']\<rparr>"

abbreviation ex_definitions :: "gh_property list" where
  "ex_definitions \<equiv> [ex_team_definition, ex_old_property]"

lemma ex_values_ok:
  "distinct (map GetPropertyName ex_definitions)"
  "values_fit [ex_cp_value] ex_definitions"
  "map (\<lambda>g. (GetPropertyName g, map_option norm_any (wanted_value [ex_cp_value] g))) ex_definitions =
     [(''team'', Some (AnyStrings (Some [''a'', ''c'']))), (''old'', Some (AnyStrings (Some [''a'', ''b''])))]"
proof -
  have n: "GetPropertyName ex_old_property = ''old''" "GetPropertyName ex_team_definition = ''team''" by code_simp+
  then show "distinct (map GetPropertyName ex_definitions)" by simp
  have given: "given [ex_cp_value] ''team'' = Some ex_cp_value" "given [ex_cp_value] ''old'' = None" "entry_fits ex_cp_value ex_team_definition" by code_simp+
  have "gp_DefaultValue ex_old_property = AnyAnys (map AnyString [''b'', ''a''])" "gp_ValueType ex_old_property = ''multi_select''" by code_simp+
  then have "default_fits ex_old_property" unfolding default_fits_def by metis
  then show "values_fit [ex_cp_value] ex_definitions" using n given by (simp add: values_fit_def)
  show "map (\<lambda>g. (GetPropertyName g, map_option norm_any (wanted_value [ex_cp_value] g))) ex_definitions =
     [(''team'', Some (AnyStrings (Some [''a'', ''c'']))), (''old'', Some (AnyStrings (Some [''a'', ''b''])))]" by code_simp
qed


end
