(* ===== verification/HashSync.thy ===== *)
theory HashSync
  imports Errors
begin

text \<open>
  Three reconcilers of a repository work alike (\<^verbatim>\<open>rec_deploykeys.go\<close>, \<^verbatim>\<open>rec_autolinks.go\<close> and \<^verbatim>\<open>rec_webhooks.go\<close>
  under \<^verbatim>\<open>internal/reconciler/reporec\<close>): they file what GitHub has under a hash of its content, decide per
  desired item whether it is there, delete what is left over and create what is missing. This theory holds
  the common steps and proves once, in a locale, what they achieve. As in the synchronization of rulesets, GitHub answers as a function of the
  calls made before, and the order in which Go ranges over a map is an argument.
\<close>

section \<open>The common steps\<close>

datatype 'q item_call =
    DeleteItem int
  | CreateItem 'q

record ('x, 'q) item_api =
  it_List :: "(go_error, 'x list) result"
  it_Delete :: "'q item_call list \<Rightarrow> int \<Rightarrow> go_error option"
  it_Create :: "'q item_call list \<Rightarrow> 'q \<Rightarrow> go_error option"

text \<open>
  The map of the existing items: \<open>hx\<close> is the hash of an item, \<^term>\<open>None\<close> for one that is skipped because a
  field is missing or because it is to be ignored.
\<close>

definition existing_items :: "('x \<Rightarrow> string option) \<Rightarrow> 'x list \<Rightarrow> (string, 'x) gomap" where
  "existing_items hx listed = put_all (\<lambda>x. the (hx x)) (\<lambda>x. x) (filter (\<lambda>x. hx x \<noteq> None) listed) []"

text \<open>The loop over the desired items: \<open>keep\<close> decides whether the item of a hash stays as it is.\<close>

fun plan_items ::
    "('d \<Rightarrow> string) \<Rightarrow> ('d \<Rightarrow> bool) \<Rightarrow> 'd list \<Rightarrow> (string, 'x) gomap \<times> (string, 'd) gomap \<Rightarrow>
     (string, 'x) gomap \<times> (string, 'd) gomap" where
  "plan_items kd keep [] (rm, add) = (rm, add)"
| "plan_items kd keep (d # ds) (rm, add) =
     (if keep d then plan_items kd keep ds (map_delete (kd d) rm, add)
      else plan_items kd keep ds (rm, map_put (kd d) d add))"

fun delete_items ::
    "('x, 'q) item_api \<Rightarrow> ('x \<Rightarrow> int option) \<Rightarrow> (string \<times> 'x) list \<Rightarrow> 'q item_call list \<Rightarrow> 'q item_call list \<times> go_error option" where
  "delete_items api idf [] calls = (calls, None)"
| "delete_items api idf ((h, x) # rest) calls =
     (case idf x of
        None \<Rightarrow> delete_items api idf rest calls
      | Some i \<Rightarrow>
          (case it_Delete api calls i of
             Some e \<Rightarrow> (calls @ [DeleteItem i], Some e)
           | None \<Rightarrow> delete_items api idf rest (calls @ [DeleteItem i])))"

fun create_items ::
    "('x, 'q) item_api \<Rightarrow> ('d \<Rightarrow> 'q) \<Rightarrow> (string \<times> 'd) list \<Rightarrow> 'q item_call list \<Rightarrow> 'q item_call list \<times> go_error option" where
  "create_items api req [] calls = (calls, None)"
| "create_items api req ((h, d) # rest) calls =
     (case it_Create api calls (req d) of
        Some e \<Rightarrow> (calls @ [CreateItem (req d)], Some e)
      | None \<Rightarrow> create_items api req rest (calls @ [CreateItem (req d)]))"

text \<open>The iteration orders of the two maps.\<close>

record ('x, 'd) item_orders =
  od_remove :: "(string \<times> 'x) list \<Rightarrow> (string \<times> 'x) list"
  od_add :: "(string \<times> 'd) list \<Rightarrow> (string \<times> 'd) list"

definition orders_ok :: "('x, 'd) item_orders \<Rightarrow> bool" where
  "orders_ok od \<longleftrightarrow> range_order (od_remove od) \<and> range_order (od_add od)"

definition apply_items ::
    "('x, 'd) item_orders \<Rightarrow> ('x, 'q) item_api \<Rightarrow> ('x \<Rightarrow> int option) \<Rightarrow> ('d \<Rightarrow> string) \<Rightarrow> ('d \<Rightarrow> bool) \<Rightarrow> ('d \<Rightarrow> 'q) \<Rightarrow>
     (string, 'x) gomap \<Rightarrow> 'd list \<Rightarrow> 'q item_call list \<times> go_error option" where
  "apply_items od api idf kd keep req existing ds =
     (case plan_items kd keep ds (existing, []) of
        (rm, add) \<Rightarrow>
          (case delete_items api idf (od_remove od rm) [] of
             (calls, Some e) \<Rightarrow> (calls, Some e)
           | (calls, None) \<Rightarrow> create_items api req (od_add od add) calls))"

section \<open>What the plan contains\<close>

lemma plan_remove:
  "plan_items kd keep ds (rm, add) = (rm', add') \<Longrightarrow>
     map_get rm' = (\<lambda>h. if \<exists>d \<in> set ds. keep d \<and> kd d = h then None else map_get rm h) \<and>
     (gomap_ok rm \<longrightarrow> gomap_ok rm')"
proof (induction ds arbitrary: rm add)
  case (Cons d ds)
  show ?case
    using Cons.prems Cons.IH [of "map_delete (kd d) rm" add] Cons.IH [of rm "map_put (kd d) d add"]
    by (cases "keep d") (auto simp: fun_eq_iff)
qed auto

lemma plan_add:
  "plan_items kd keep ds (rm, add) = (rm', add') \<Longrightarrow> gomap_ok add \<Longrightarrow>
     gomap_ok add' \<and>
     (\<forall>h. map_get add' h = (case find (\<lambda>d. kd d = h \<and> \<not> keep d) (rev ds) of Some d \<Rightarrow> Some d | None \<Rightarrow> map_get add h))"
proof (induction ds arbitrary: rm add)
  case (Cons d ds)
  show ?case
    using Cons.prems Cons.IH [of "map_delete (kd d) rm" add] Cons.IH [of rm "map_put (kd d) d add"]
    by (cases "keep d") (auto simp: find_append split: option.splits)
qed auto

lemma plan_add_dom:
  assumes "plan_items kd keep ds (rm, []) = (rm', add')"
  shows "gomap_ok add'" and "map_get add' h = Some d \<Longrightarrow> d \<in> set ds \<and> \<not> keep d \<and> kd d = h"
    and "fst ` set add' = kd ` {d \<in> set ds. \<not> keep d}"
proof -
  note p = plan_add [OF assms, simplified]
  show ok: "gomap_ok add'" using p by simp
  show s: "d \<in> set ds \<and> \<not> keep d \<and> kd d = h" if "map_get add' h = Some d" for h d
    using p that by (auto simp: find_Some_iff split: option.splits) (metis nth_mem length_rev set_rev)
  show "fst ` set add' = kd ` {d \<in> set ds. \<not> keep d}"
  proof (rule set_eqI)
    fix h
    have "h \<in> fst ` set add' \<longleftrightarrow> map_get add' h \<noteq> None" by (metis domIff dom_map_of_conv_image_fst)
    also have "\<dots> \<longleftrightarrow> (\<exists>d \<in> set ds. kd d = h \<and> \<not> keep d)"
      using p find_None_iff [of "\<lambda>d. kd d = h \<and> \<not> keep d" "rev ds"] by (auto split: option.splits)
    finally show "h \<in> fst ` set add' \<longleftrightarrow> h \<in> kd ` {d \<in> set ds. \<not> keep d}" by auto
  qed
qed

lemma existing_get:
  assumes "distinct (List.map_filter hx s)"
  shows "map_get (existing_items hx s) h = Some x \<longleftrightarrow> x \<in> set s \<and> hx x = Some h"
proof -
  let ?u = "filter (\<lambda>x. hx x \<noteq> None) s"
  have d: "distinct (map (\<lambda>x. the (hx x)) ?u)"
    using assms by (simp add: List.map_filter_def comp_def)
  show ?thesis
    unfolding existing_items_def
    using put_all_distinct [OF d, of x "\<lambda>x. x" "[]"] put_all_get_in [of "\<lambda>x. the (hx x)" "\<lambda>x. x" ?u "[]" h x]
    by auto
qed

lemma existing_ok [simp]: "gomap_ok (existing_items hx s)"
  by (simp add: existing_items_def)

section \<open>A GitHub that stores items\<close>

definition fresh_item_id :: "('x \<Rightarrow> int option) \<Rightarrow> 'x list \<Rightarrow> int" where
  "fresh_item_id idf s = fresh_above (map (\<lambda>x. WithDefault (idf x) 0) s)"

fun item_apply :: "('x \<Rightarrow> int option) \<Rightarrow> (int \<Rightarrow> 'q \<Rightarrow> 'x) \<Rightarrow> 'q item_call \<Rightarrow> 'x list \<Rightarrow> 'x list" where
  "item_apply idf stored (DeleteItem i) s = filter (\<lambda>x. idf x \<noteq> Some i) s"
| "item_apply idf stored (CreateItem q) s = s @ [stored (fresh_item_id idf s) q]"

definition items_after :: "('x \<Rightarrow> int option) \<Rightarrow> (int \<Rightarrow> 'q \<Rightarrow> 'x) \<Rightarrow> 'x list \<Rightarrow> 'q item_call list \<Rightarrow> 'x list" where
  "items_after idf stored s calls = fold (item_apply idf stored) calls s"

definition item_store_api :: "'x list \<Rightarrow> ('x, 'q) item_api" where
  "item_store_api s = \<lparr>it_List = Inr s, it_Delete = (\<lambda>h i. None), it_Create = (\<lambda>h q. None)\<rparr>"

text \<open>Every item has its own ID, and no two usable items have the same hash.\<close>

definition items_ok :: "('x \<Rightarrow> int option) \<Rightarrow> ('x \<Rightarrow> 'h option) \<Rightarrow> 'x list \<Rightarrow> bool" where
  "items_ok idf hx s \<longleftrightarrow> distinct (map idf s) \<and> (\<forall>x \<in> set s. idf x \<noteq> None) \<and> distinct (List.map_filter hx s)"

text \<open>
  The contents of items, and hashes of contents: where the hash is the hash of a text that can be read back, items with different contents have different hashes.
\<close>

definition contents :: "('x \<Rightarrow> 'c option) \<Rightarrow> 'x list \<Rightarrow> 'c set" where
  "contents cx s = {c. \<exists>x \<in> set s. cx x = Some c}"

lemma contents_hashed: "set (List.map_filter (\<lambda>x. map_option h (cx x)) s) = h ` contents cx s"
  by (force simp: List.map_filter_def contents_def)

lemma items_ok_hashed:
  assumes "items_ok idf cx s" and "inj_on h (contents cx s)"
  shows "items_ok idf (\<lambda>x. map_option h (cx x)) s"
proof -
  have "List.map_filter (\<lambda>x. map_option h (cx x)) s = map h (List.map_filter cx s)"
    by (induction s) (simp_all add: List.map_filter_simps split: option.split)
  moreover have "set (List.map_filter cx s) = contents cx s" by (force simp: List.map_filter_def contents_def)
  ultimately show ?thesis using assms by (simp add: items_ok_def distinct_map)
qed

lemma same_contents:
  assumes "inj_on h (contents cx s \<union> cd ` D)" and "h ` contents cx s' = (\<lambda>d. h (cd d)) ` D"
    and "\<forall>x \<in> set s'. x \<in> set s \<or> (\<exists>d \<in> D. cx x = Some (cd d))"
  shows "contents cx s' = cd ` D"
proof -
  have "contents cx s' \<subseteq> contents cx s \<union> cd ` D" using assms(3) unfolding contents_def by force
  moreover have "h ` contents cx s' = h ` (cd ` D)" using assms(2) by (simp add: image_image)
  ultimately show ?thesis using inj_on_image_eq_iff [OF assms(1)] by blast
qed

lemma items_after_simps [simp]:
  "items_after idf stored s [] = s"
  "items_after idf stored s (c # cs) = items_after idf stored (item_apply idf stored c s) cs"
  "items_after idf stored s (cs @ cs') = items_after idf stored (items_after idf stored s cs) cs'"
  by (simp_all add: items_after_def)

lemma delete_items_store:
  assumes "\<And>h i. it_Delete api h i = None"
  shows "\<exists>cs. delete_items api idf es calls = (calls @ cs, None) \<and>
           (\<forall>s. items_after idf stored s cs = filter (\<lambda>y. idf y = None \<or> idf y \<notin> idf ` snd ` set es) s) \<and>
           (es = [] \<longrightarrow> cs = [])"
proof (induction es arbitrary: calls)
  case (Cons e es)
  obtain h x where e: "e = (h, x)" by fastforce
  show ?case
  proof (cases "idf x")
    case None
    obtain cs where cs: "delete_items api idf es calls = (calls @ cs, None)"
        "\<forall>s. items_after idf stored s cs = filter (\<lambda>y. idf y = None \<or> idf y \<notin> idf ` snd ` set es) s"
      using Cons.IH by blast
    then show ?thesis using e None by (intro exI [of _ cs]) (auto intro!: filter_cong)
  next
    case (Some i)
    obtain cs where cs: "delete_items api idf es (calls @ [DeleteItem i]) = ((calls @ [DeleteItem i]) @ cs, None)"
        "\<forall>s. items_after idf stored s cs = filter (\<lambda>y. idf y = None \<or> idf y \<notin> idf ` snd ` set es) s"
      using Cons.IH by blast
    then show ?thesis
      using e Some assms by (intro exI [of _ "DeleteItem i # cs"]) (auto intro!: filter_cong)
  qed
qed auto

lemma create_items_store:
  assumes "\<And>h q. it_Create api h q = None"
  shows "create_items api req es calls = (calls @ map (\<lambda>(h, d). CreateItem (req d)) es, None)"
proof (induction es arbitrary: calls)
  case (Cons e es)
  then show ?case using assms by (cases e) simp
qed simp

text \<open>
  What the reconcilers rely on: GitHub files a created item under the ID it chose, and the item hashes to
  the hash the desired item has. \<open>okd\<close> restricts this to the desired items for which it holds.
\<close>

locale hash_sync =
  fixes hx :: "'x \<Rightarrow> string option" and idf :: "'x \<Rightarrow> int option" and kd :: "'d \<Rightarrow> string" and req :: "'d \<Rightarrow> 'q"
    and stored :: "int \<Rightarrow> 'q \<Rightarrow> 'x" and okd :: "'d \<Rightarrow> bool"
  assumes stored_id: "idf (stored i q) = Some i"
    and stored_hash: "okd d \<Longrightarrow> hx (stored i (req d)) = Some (kd d)"
begin

lemma map_filter_snoc: "List.map_filter hx (s @ [x]) = List.map_filter hx s @ (case hx x of None \<Rightarrow> [] | Some h \<Rightarrow> [h])"
  by (simp add: List.map_filter_def split: option.split)

lemma create_ok:
  assumes "items_ok idf hx s" and "okd d" and "kd d \<notin> set (List.map_filter hx s)"
  shows "items_ok idf hx (item_apply idf stored (CreateItem (req d)) s)"
    and "List.map_filter hx (item_apply idf stored (CreateItem (req d)) s) = List.map_filter hx s @ [kd d]"
proof -
  have "idf x \<noteq> Some (fresh_item_id idf s)" if "x \<in> set s" for x
    using fresh_above_bound [of "WithDefault (idf x) 0" "map (\<lambda>x. WithDefault (idf x) 0) s"] that
    by (auto simp: fresh_item_id_def)
  then have f: "Some (fresh_item_id idf s) \<notin> idf ` set s" by (metis imageE)
  show m: "List.map_filter hx (item_apply idf stored (CreateItem (req d)) s) = List.map_filter hx s @ [kd d]"
    using stored_hash [OF assms(2)] by (simp add: map_filter_snoc)
  have i: "map idf (item_apply idf stored (CreateItem (req d)) s) = map idf s @ [Some (fresh_item_id idf s)]"
    by (simp add: stored_id)
  show "items_ok idf hx (item_apply idf stored (CreateItem (req d)) s)"
    unfolding items_ok_def m i using assms(1,3) f by (auto simp: items_ok_def stored_id)
qed

lemma creates_ok:
  assumes "items_ok idf hx s" and "\<forall>(h, d) \<in> set es. okd d \<and> kd d = h" and "distinct (map fst es)"
    and "fst ` set es \<inter> set (List.map_filter hx s) = {}"
  shows "items_ok idf hx (items_after idf stored s (map (\<lambda>(h, d). CreateItem (req d)) es)) \<and>
         set (List.map_filter hx (items_after idf stored s (map (\<lambda>(h, d). CreateItem (req d)) es))) =
           set (List.map_filter hx s) \<union> fst ` set es \<and>
         set s \<subseteq> set (items_after idf stored s (map (\<lambda>(h, d). CreateItem (req d)) es)) \<and>
         (\<forall>x \<in> set (items_after idf stored s (map (\<lambda>(h, d). CreateItem (req d)) es)).
            x \<in> set s \<or> (\<exists>i. \<exists>d \<in> snd ` set es. x = stored i (req d)))"
  using assms
proof (induction es arbitrary: s)
  case (Cons e es)
  obtain h d where e: "e = (h, d)" by fastforce
  have d: "okd d" "kd d = h" "h \<notin> set (List.map_filter hx s)" using Cons.prems e by auto
  let ?s = "item_apply idf stored (CreateItem (req d)) s"
  note c = create_ok [OF Cons.prems(1) d(1)] d
  have hs: "items_ok idf hx ?s" "set (List.map_filter hx ?s) = insert h (set (List.map_filter hx s))" using c by auto
  have IH: "items_ok idf hx (items_after idf stored ?s (map (\<lambda>(h, d). CreateItem (req d)) es)) \<and>
      set (List.map_filter hx (items_after idf stored ?s (map (\<lambda>(h, d). CreateItem (req d)) es))) =
        set (List.map_filter hx ?s) \<union> fst ` set es \<and>
      set ?s \<subseteq> set (items_after idf stored ?s (map (\<lambda>(h, d). CreateItem (req d)) es)) \<and>
      (\<forall>x \<in> set (items_after idf stored ?s (map (\<lambda>(h, d). CreateItem (req d)) es)).
        x \<in> set ?s \<or> (\<exists>i. \<exists>d \<in> snd ` set es. x = stored i (req d)))"
    using Cons.prems e hs by (intro Cons.IH) auto
  have e1: "items_after idf stored s (map (\<lambda>(h, d). CreateItem (req d)) (e # es)) =
      items_after idf stored ?s (map (\<lambda>(h, d). CreateItem (req d)) es)" by (simp add: e)
  have e2: "set ?s = insert (stored (fresh_item_id idf s) (req d)) (set s)" by simp
  have e3: "snd ` set (e # es) = insert d (snd ` set es)" "fst ` set (e # es) = insert h (fst ` set es)" by (simp_all add: e)
  show ?case unfolding e1 e3 using IH hs unfolding e2 by blast
qed (auto simp: items_after_def)

text \<open>After the deletions: what is left are the skipped items and those to be kept.\<close>

lemma deletions:
  assumes "items_ok idf hx s" and "range_order ord" and "plan_items kd keep ds (existing_items hx s, []) = (rm, add)"
  obtains cs where "delete_items (item_store_api s) idf (ord rm) [] = (cs, None)"
    "items_ok idf hx (items_after idf stored s cs)"
    "set (items_after idf stored s cs) = {x \<in> set s. \<forall>h. hx x = Some h \<longrightarrow> (\<exists>d \<in> set ds. keep d \<and> kd d = h)}"
    "set (List.map_filter hx s) \<subseteq> kd ` {d \<in> set ds. keep d} \<longrightarrow> cs = []"
proof -
  have dx: "distinct (List.map_filter hx s)" "distinct (map idf s)" "\<forall>x \<in> set s. idf x \<noteq> None"
    using assms(1) by (simp_all add: items_ok_def)
  have rmg: "map_get rm h = Some x \<longleftrightarrow> x \<in> set s \<and> hx x = Some h \<and> \<not> (\<exists>d \<in> set ds. keep d \<and> kd d = h)" for h x
    using plan_remove [OF assms(3)] existing_get [OF dx(1), of h x] by auto
  have rmo: "(h, x) \<in> set (ord rm) \<longleftrightarrow> map_get rm h = Some x" for h x
    using plan_remove [OF assms(3)] range_order_keys(3) [OF assms(2)] by simp
  let ?api = "item_store_api s :: ('x, 'q) item_api"
  obtain cs where cs: "delete_items ?api idf (ord rm) [] = (cs, None)"
      "\<forall>s. items_after idf stored s cs = filter (\<lambda>y. idf y = None \<or> idf y \<notin> idf ` snd ` set (ord rm)) s"
      "ord rm = [] \<longrightarrow> cs = []"
    using delete_items_store [of ?api idf "ord rm" "[]" stored] by (auto simp: item_store_api_def)
  have inj: "x = y" if "x \<in> set s" "y \<in> set s" "idf x = idf y" for x y
    using that dx(2) by (metis distinct_map inj_onD)
  have keeps: "idf x \<in> idf ` snd ` set (ord rm) \<longleftrightarrow> (\<exists>h. map_get rm h = Some x)" if "x \<in> set s" for x
  proof -
    have "idf x \<in> idf ` snd ` set (ord rm) \<longleftrightarrow> (\<exists>h y. map_get rm h = Some y \<and> idf x = idf y)"
      using rmo by (force simp: image_iff)
    also have "\<dots> \<longleftrightarrow> (\<exists>h. map_get rm h = Some x)" using inj that rmg by metis
    finally show ?thesis .
  qed
  have s1: "set (items_after idf stored s cs) = {x \<in> set s. idf x \<notin> idf ` snd ` set (ord rm)}"
    using cs(2) dx(3) by auto
  have "set (items_after idf stored s cs) = {x \<in> set s. \<forall>h. hx x = Some h \<longrightarrow> (\<exists>d \<in> set ds. keep d \<and> kd d = h)}"
    unfolding s1
  proof (rule Collect_cong, rule conj_cong [OF refl])
    fix x assume x: "x \<in> set s"
    show "idf x \<notin> idf ` snd ` set (ord rm) \<longleftrightarrow> (\<forall>h. hx x = Some h \<longrightarrow> (\<exists>d \<in> set ds. keep d \<and> kd d = h))"
      unfolding keeps [OF x] using x rmg [of _ x] by auto
  qed
  moreover have "items_ok idf hx (items_after idf stored s cs)"
  proof -
    obtain P where P: "items_after idf stored s cs = filter P s" using cs(2) by blast
    have "distinct (map (the \<circ> hx) (filter P (filter (\<lambda>x. hx x \<noteq> None) s)))"
      by (rule distinct_map_filter) (use dx(1) in \<open>simp add: List.map_filter_def\<close>)
    moreover have "filter P (filter (\<lambda>x. hx x \<noteq> None) s) = filter (\<lambda>x. hx x \<noteq> None) (filter P s)"
      by (simp add: conj_commute)
    ultimately show ?thesis using dx(2,3) P by (simp add: items_ok_def distinct_map_filter List.map_filter_def)
  qed
  moreover have "cs = []" if "set (List.map_filter hx s) \<subseteq> kd ` {d \<in> set ds. keep d}"
  proof -
    have "(h, x) \<notin> set (ord rm)" for h x
      using rmo [of h x] rmg [of h x] that by (force simp: List.map_filter_def)
    then have "ord rm = []" by (cases "ord rm") auto
    then show ?thesis using cs(3) by simp
  qed
  ultimately show thesis using that [OF cs(1)] by blast
qed

text \<open>The theorem of the pattern.\<close>

lemma apply_items_converges:
  assumes "items_ok idf hx s" and "orders_ok od" and "\<forall>d \<in> set ds. okd d"
    and "\<forall>d. keep d \<longrightarrow> map_get (existing_items hx s) (kd d) \<noteq> None"
    and "\<forall>d \<in> set ds. \<forall>d' \<in> set ds. kd d = kd d' \<longrightarrow> keep d = keep d'"
    and "apply_items od (item_store_api s) idf kd keep req (existing_items hx s) ds = (calls, e)"
    and "s' = items_after idf stored s calls"
  shows "e = None \<and> items_ok idf hx s' \<and> set (List.map_filter hx s') = kd ` set ds \<and>
         {x \<in> set s'. hx x = None} = {x \<in> set s. hx x = None} \<and>
         (\<forall>x \<in> set s'. x \<in> set s \<or> (\<exists>i. \<exists>d \<in> set ds. x = stored i (req d))) \<and>
         (\<forall>x \<in> set s'. x \<in> set s \<and> (\<forall>h. hx x = Some h \<longrightarrow> (\<exists>d \<in> set ds. keep d \<and> kd d = h)) \<or> (\<exists>i. \<exists>d \<in> set ds. x = stored i (req d))) \<and>
         (\<forall>d \<in> set ds. keep d \<longrightarrow> (\<forall>x \<in> set s. hx x = Some (kd d) \<longrightarrow> x \<in> set s')) \<and>
         (\<forall>d \<in> set ds. \<not> keep d \<longrightarrow> (\<exists>d' \<in> set ds. kd d' = kd d \<and> CreateItem (req d') \<in> set calls)) \<and>
         ((\<forall>d \<in> set ds. keep d) \<and> set (List.map_filter hx s) \<subseteq> kd ` set ds \<longrightarrow> calls = [])"
proof -
  obtain rm add where p: "plan_items kd keep ds (existing_items hx s, []) = (rm, add)" by fastforce
  note add = plan_add_dom [OF p]
  have orders: "range_order (od_remove od)" "range_order (od_add od)" using assms(2) by (simp_all add: orders_ok_def)
  have addo: "set (od_add od add) = set add" "distinct (map fst (od_add od add))"
    using range_order_keys [OF orders(2) add(1)] by simp_all
  obtain cs where cs: "delete_items (item_store_api s :: ('x, 'q) item_api) idf (od_remove od rm) [] = (cs, None)"
    "items_ok idf hx (items_after idf stored s cs)"
    "set (items_after idf stored s cs) = {x \<in> set s. \<forall>h. hx x = Some h \<longrightarrow> (\<exists>d \<in> set ds. keep d \<and> kd d = h)}"
    "set (List.map_filter hx s) \<subseteq> kd ` {d \<in> set ds. keep d} \<longrightarrow> cs = []"
    by (rule deletions [OF assms(1) orders(1) p])
  have calls: "calls = cs @ map (\<lambda>(h, d). CreateItem (req d)) (od_add od add)" "e = None"
    using assms(6) create_items_store [of "item_store_api s" req "od_add od add" cs] cs(1)
    by (simp_all add: apply_items_def p item_store_api_def)
  define s1 where "s1 = items_after idf stored s cs"
  have hs: "h \<in> set (List.map_filter hx xs) \<longleftrightarrow> (\<exists>x \<in> set xs. hx x = Some h)" for h xs
    by (force simp: List.map_filter_def)
  have "\<exists>x \<in> set s. hx x = Some (kd d)" if "keep d" for d
    using assms(4) [rule_format, OF that] existing_get [of hx s "kd d"] assms(1) by (auto simp: items_ok_def)
  then have h1: "set (List.map_filter hx s1) = kd ` {d \<in> set ds. keep d}"
    unfolding set_eq_iff hs s1_def cs(3) by fastforce
  have addf: "fst ` set (od_add od add) = kd ` {d \<in> set ds. \<not> keep d}" using add(3) addo by simp
  have disj: "fst ` set (od_add od add) \<inter> set (List.map_filter hx s1) = {}"
    unfolding addf h1 using assms(5) by blast
  have okadd: "\<forall>(h, d) \<in> set (od_add od add). okd d \<and> kd d = h"
    using add(1,2) addo(1) assms(3) gomap_in_iff by fastforce
  have s': "s' = items_after idf stored s1 (map (\<lambda>(h, d). CreateItem (req d)) (od_add od add))"
    using assms(7) calls by (simp add: s1_def)
  note fin = creates_ok [OF cs(2) [folded s1_def] okadd addo(2) disj, folded s']
  have quiet: "calls = []" if "\<forall>d \<in> set ds. keep d" "set (List.map_filter hx s) \<subseteq> kd ` set ds"
  proof -
    have "fst ` set add = {}" using add(3) that(1) by simp
    then have "add = []" by simp
    moreover have "{d \<in> set ds. keep d} = set ds" using that(1) by auto
    ultimately show ?thesis using calls(1) cs(4) that(2) addo(1) by simp
  qed
  have origin: "x \<in> set s \<and> (\<forall>h. hx x = Some h \<longrightarrow> (\<exists>d \<in> set ds. keep d \<and> kd d = h)) \<or> (\<exists>i. \<exists>d \<in> set ds. x = stored i (req d))"
    if "x \<in> set s'" for x
  proof -
    have "d \<in> set ds" if "d \<in> snd ` set (od_add od add)" for d
      using that addo(1) add(1,2) gomap_in_iff by fastforce
    moreover have "set s1 = {x \<in> set s. \<forall>h. hx x = Some h \<longrightarrow> (\<exists>d \<in> set ds. keep d \<and> kd d = h)}" by (simp add: s1_def cs(3))
    moreover have "x \<in> set s1 \<or> (\<exists>i. \<exists>d \<in> snd ` set (od_add od add). x = stored i (req d))" using fin that by blast
    ultimately show ?thesis by blast
  qed
  have from_ds: "x \<in> set s \<or> (\<exists>i. \<exists>d \<in> set ds. x = stored i (req d))" if "x \<in> set s'" for x
    using origin [OF that] by blast
  have skipped: "{x \<in> set s'. hx x = None} = {x \<in> set s. hx x = None}"
  proof -
    have "x \<in> set s" if x: "x \<in> set s'" "hx x = None" for x
      using from_ds [OF x(1)] stored_hash assms(3) x(2) by auto
    moreover have "x \<in> set s'" if x: "x \<in> set s" "hx x = None" for x
    proof -
      have "x \<in> set s1" using x by (simp add: s1_def cs(3))
      then show ?thesis using fin by blast
    qed
    ultimately show ?thesis by blast
  qed
  have hashes: "set (List.map_filter hx s') = kd ` set ds" using fin h1 addf by auto
  have stay: "\<forall>d \<in> set ds. keep d \<longrightarrow> (\<forall>x \<in> set s. hx x = Some (kd d) \<longrightarrow> x \<in> set s')"
  proof clarify
    fix d x assume "d \<in> set ds" "keep d" "x \<in> set s" "hx x = Some (kd d)"
    then have "x \<in> set s1" by (auto simp: s1_def cs(3))
    then show "x \<in> set s'" using fin by blast
  qed
  have made: "\<forall>d \<in> set ds. \<not> keep d \<longrightarrow> (\<exists>d' \<in> set ds. kd d' = kd d \<and> CreateItem (req d') \<in> set calls)"
  proof clarify
    fix d assume "d \<in> set ds" "\<not> keep d"
    then obtain d' where d': "(kd d, d') \<in> set (od_add od add)" using addf by force
    then have "map_get add (kd d) = Some d'" using addo(1) add(1) gomap_in_iff by fastforce
    then have "d' \<in> set ds \<and> kd d' = kd d" using add(2) by blast
    moreover have "CreateItem (req d') \<in> set calls" using d' calls(1) by force
    ultimately show "\<exists>d' \<in> set ds. kd d' = kd d \<and> CreateItem (req d') \<in> set calls" by blast
  qed
  have ok: "items_ok idf hx s'" using fin by blast
  show ?thesis
    by (intro conjI calls(2) ok hashes skipped stay made) (use from_ds in blast, use origin in blast, use quiet in blast)
qed

end

end
