(* ===== verification/Dedupe.thy ===== *)
theory Dedupe
  imports Prelude
begin

text \<open>
  Combining definitions from several sources: \<^verbatim>\<open>internal/reconciler/common/merge/merge.go\<close>. Rulesets,
  webhooks and autolinks are deduplicated with it. The loop over the candidates is a fold over its
  three accumulators; the callback \<open>onDuplicate\<close> only logs. The contract that the callers rely on
  is the locale \<open>dedupe\<close>, interpreted for the model of the code.
\<close>

section \<open>Definitions\<close>

definition InlineSource :: "nat \<Rightarrow> string" where
  "InlineSource idx = ''inline['' @ FormatInt (int idx) @ '']''"

record conflict =
  Key :: string
  Sources :: "string list"

record dedupe_info =
  keptIdx :: nat
  sources :: "string list"
  conflicting :: bool

type_synonym 'a dedupe_state = "'a list \<times> (string, dedupe_info) gomap \<times> string list"

definition dedupe_step ::
    "('a \<Rightarrow> string) \<Rightarrow> ('a \<Rightarrow> 'a \<Rightarrow> bool) \<Rightarrow> ('a \<Rightarrow> string) \<Rightarrow> 'a \<Rightarrow> 'a dedupe_state \<Rightarrow> 'a dedupe_state" where
  "dedupe_step keyFn equalFn sourceFn c st =
     (case st of (result, byKey, conflictOrder) \<Rightarrow>
        (let key = keyFn c in
         case map_get byKey key of
           None \<Rightarrow>
             (result @ [c],
              map_put key \<lparr>keptIdx = length result, sources = [sourceFn c], conflicting = False\<rparr> byKey,
              conflictOrder)
         | Some i \<Rightarrow>
             (let kept = result ! keptIdx i;
                  i' = i\<lparr>sources := sources i @ [sourceFn c]\<rparr>
              in if equalFn kept c then (result, map_put key i' byKey, conflictOrder)
                 else if \<not> conflicting i
                 then (result, map_put key (i'\<lparr>conflicting := True\<rparr>) byKey, conflictOrder @ [key])
                 else (result, map_put key i' byKey, conflictOrder))))"

definition Dedupe ::
    "'a list \<Rightarrow> ('a \<Rightarrow> string) \<Rightarrow> ('a \<Rightarrow> 'a \<Rightarrow> bool) \<Rightarrow> ('a \<Rightarrow> string) \<Rightarrow> 'a list \<times> conflict list" where
  "Dedupe candidates keyFn equalFn sourceFn =
     (case fold (dedupe_step keyFn equalFn sourceFn) candidates ([], [], []) of
        (result, byKey, conflictOrder) \<Rightarrow>
          (result,
           map (\<lambda>key. \<lparr>Key = key,
                       Sources = (case map_get byKey key of Some i \<Rightarrow> sources i | None \<Rightarrow> [])\<rparr>)
             conflictOrder))"

section \<open>Specification\<close>

text \<open>The first candidate of every key, in order, and the candidates of one key.\<close>

fun firsts :: "('a \<Rightarrow> string) \<Rightarrow> 'a list \<Rightarrow> 'a list" where
  "firsts keyFn [] = []"
| "firsts keyFn (c # cs) = c # filter (\<lambda>x. keyFn x \<noteq> keyFn c) (firsts keyFn cs)"

definition group_of :: "('a \<Rightarrow> string) \<Rightarrow> string \<Rightarrow> 'a list \<Rightarrow> 'a list" where
  "group_of keyFn k cs = filter (\<lambda>c. keyFn c = k) cs"

definition has_conflict :: "('a \<Rightarrow> string) \<Rightarrow> ('a \<Rightarrow> 'a \<Rightarrow> bool) \<Rightarrow> 'a list \<Rightarrow> string \<Rightarrow> bool" where
  "has_conflict keyFn equalFn cs k \<longleftrightarrow>
     (\<exists>c \<in> set (tl (group_of keyFn k cs)). \<not> equalFn (hd (group_of keyFn k cs)) c)"

lemma group_of_append [simp]: "group_of keyFn k (xs @ ys) = group_of keyFn k xs @ group_of keyFn k ys"
  by (simp add: group_of_def)

lemma group_of_Nil_iff: "group_of keyFn k cs = [] \<longleftrightarrow> k \<notin> keyFn ` set cs"
  by (auto simp: group_of_def filter_empty_conv)

lemma firsts_snoc:
  "firsts keyFn (xs @ [c]) = (if keyFn c \<in> keyFn ` set xs then firsts keyFn xs else firsts keyFn xs @ [c])"
  by (induction xs) auto

lemma set_firsts: "set (firsts keyFn cs) \<subseteq> set cs"
  by (induction cs) auto

lemma keys_firsts: "keyFn ` set (firsts keyFn cs) = keyFn ` set cs"
proof (induction cs)
  case (Cons c cs)
  have "keyFn ` {x \<in> set (firsts keyFn cs). keyFn x \<noteq> keyFn c} = keyFn ` set (firsts keyFn cs) - {keyFn c}"
    by auto
  then show ?case using Cons.IH by auto
qed simp

lemma distinct_firsts: "distinct (map keyFn (firsts keyFn cs))"
proof (induction cs)
  case (Cons c cs)
  then show ?case
    by (auto simp: distinct_map inj_on_def)
qed simp

lemma firsts_is_first:
  "x \<in> set (firsts keyFn cs) \<Longrightarrow> x = hd (group_of keyFn (keyFn x) cs)"
proof (induction cs)
  case (Cons c cs)
  then show ?case by (auto simp: group_of_def)
qed simp

section \<open>The loop invariant\<close>

definition dedupe_inv ::
    "('a \<Rightarrow> string) \<Rightarrow> ('a \<Rightarrow> 'a \<Rightarrow> bool) \<Rightarrow> ('a \<Rightarrow> string) \<Rightarrow> 'a list \<Rightarrow> 'a dedupe_state \<Rightarrow> bool" where
  "dedupe_inv keyFn equalFn sourceFn xs st \<longleftrightarrow>
     (case st of (result, byKey, order) \<Rightarrow>
        result = firsts keyFn xs \<and>
        (\<forall>k. map_get byKey k = None \<longleftrightarrow> k \<notin> keyFn ` set xs) \<and>
        (\<forall>k i. map_get byKey k = Some i \<longrightarrow>
           keptIdx i < length result \<and> result ! keptIdx i = hd (group_of keyFn k xs) \<and>
           sources i = map sourceFn (group_of keyFn k xs) \<and>
           (conflicting i \<longleftrightarrow> has_conflict keyFn equalFn xs k)) \<and>
        distinct order \<and> set order = {k. has_conflict keyFn equalFn xs k})"

lemma has_conflict_key: "has_conflict keyFn equalFn xs k \<Longrightarrow> k \<in> keyFn ` set xs"
proof (rule ccontr)
  assume "has_conflict keyFn equalFn xs k" "k \<notin> keyFn ` set xs"
  then have "group_of keyFn k xs = []" by (simp add: group_of_Nil_iff)
  with \<open>has_conflict keyFn equalFn xs k\<close> show False by (simp add: has_conflict_def)
qed

lemma group_of_single: "group_of keyFn k [c] = (if k = keyFn c then [c] else [])"
  by (simp add: group_of_def)

lemma has_conflict_snoc:
  "has_conflict keyFn equalFn (xs @ [c]) k \<longleftrightarrow>
     has_conflict keyFn equalFn xs k \<or>
     (k = keyFn c \<and> k \<in> keyFn ` set xs \<and> \<not> equalFn (hd (group_of keyFn k xs)) c)"
proof (cases "group_of keyFn k xs")
  case Nil
  then have "k \<notin> keyFn ` set xs" by (simp add: group_of_Nil_iff)
  with Nil show ?thesis by (auto simp: has_conflict_def group_of_single)
next
  case (Cons y ys)
  then have "k \<in> keyFn ` set xs" by (metis group_of_Nil_iff list.distinct(1))
  with Cons show ?thesis by (auto simp: has_conflict_def group_of_single)
qed

lemma dedupe_invI:
  assumes "result = firsts keyFn xs"
    and "\<And>k. map_get byKey k = None \<longleftrightarrow> k \<notin> keyFn ` set xs"
    and "\<And>k i. map_get byKey k = Some i \<Longrightarrow>
           keptIdx i < length result \<and> result ! keptIdx i = hd (group_of keyFn k xs) \<and>
           sources i = map sourceFn (group_of keyFn k xs) \<and>
           (conflicting i \<longleftrightarrow> has_conflict keyFn equalFn xs k)"
    and "distinct order" and "set order = {k. has_conflict keyFn equalFn xs k}"
  shows "dedupe_inv keyFn equalFn sourceFn xs (result, byKey, order)"
  unfolding dedupe_inv_def prod.case using assms by blast

lemma dedupe_step_inv:
  assumes "dedupe_inv keyFn equalFn sourceFn xs st"
  shows "dedupe_inv keyFn equalFn sourceFn (xs @ [c]) (dedupe_step keyFn equalFn sourceFn c st)"
proof -
  obtain result byKey order where st: "st = (result, byKey, order)" using prod_cases3 by blast
  let ?k = "keyFn c"
  have res: "result = firsts keyFn xs"
    and dom: "\<And>k. map_get byKey k = None \<longleftrightarrow> k \<notin> keyFn ` set xs"
    and info: "\<And>k i. map_get byKey k = Some i \<Longrightarrow>
      keptIdx i < length result \<and> result ! keptIdx i = hd (group_of keyFn k xs) \<and>
      sources i = map sourceFn (group_of keyFn k xs) \<and> (conflicting i \<longleftrightarrow> has_conflict keyFn equalFn xs k)"
    and order: "distinct order" "set order = {k. has_conflict keyFn equalFn xs k}"
    using assms by (auto simp: dedupe_inv_def st)
  show ?thesis
  proof (cases "map_get byKey ?k")
    case None
    then have new: "?k \<notin> keyFn ` set xs" using dom by simp
    then have g: "group_of keyFn ?k xs = []" by (simp add: group_of_Nil_iff)
    have hc: "has_conflict keyFn equalFn (xs @ [c]) k = has_conflict keyFn equalFn xs k" for k
      using new by (auto simp: has_conflict_snoc)
    have nc: "\<not> has_conflict keyFn equalFn xs ?k" using new has_conflict_key by blast
    have "dedupe_step keyFn equalFn sourceFn c st =
        (result @ [c], map_put ?k \<lparr>keptIdx = length result, sources = [sourceFn c], conflicting = False\<rparr> byKey, order)"
      by (simp add: st dedupe_step_def None)
    moreover have "dedupe_inv keyFn equalFn sourceFn (xs @ [c])
        (result @ [c], map_put ?k \<lparr>keptIdx = length result, sources = [sourceFn c], conflicting = False\<rparr> byKey, order)"
    proof (rule dedupe_invI)
      fix k i
      assume "map_get (map_put ?k \<lparr>keptIdx = length result, sources = [sourceFn c], conflicting = False\<rparr> byKey) k = Some i"
      then show "keptIdx i < length (result @ [c]) \<and> (result @ [c]) ! keptIdx i = hd (group_of keyFn k (xs @ [c])) \<and>
          sources i = map sourceFn (group_of keyFn k (xs @ [c])) \<and>
          conflicting i = has_conflict keyFn equalFn (xs @ [c]) k"
        using info [of k i] g nc by (auto simp: hc group_of_single nth_append split: if_splits)
    qed (use new dom order in \<open>auto simp: res firsts_snoc hc\<close>)
    ultimately show ?thesis by simp
  next
    case (Some i)
    then have old: "?k \<in> keyFn ` set xs" using dom [of ?k] by auto
    then have g: "group_of keyFn ?k xs \<noteq> []" by (simp add: group_of_Nil_iff)
    note ik = info [OF Some]
    let ?eq = "equalFn (result ! keptIdx i) c"
    let ?i' = "i\<lparr>sources := sources i @ [sourceFn c], conflicting := conflicting i \<or> \<not> ?eq\<rparr>"
    let ?order = "if \<not> ?eq \<and> \<not> conflicting i then order @ [?k] else order"
    have step: "dedupe_step keyFn equalFn sourceFn c st = (result, map_put ?k ?i' byKey, ?order)"
      by (cases i) (simp add: st dedupe_step_def Some Let_def)
    have hc: "has_conflict keyFn equalFn (xs @ [c]) k \<longleftrightarrow>
        has_conflict keyFn equalFn xs k \<or> k = ?k \<and> \<not> ?eq" for k
      using old ik by (auto simp: has_conflict_snoc)
    show ?thesis
      unfolding step
    proof (rule dedupe_invI)
      fix k j
      assume "map_get (map_put ?k ?i' byKey) k = Some j"
      then show "keptIdx j < length result \<and> result ! keptIdx j = hd (group_of keyFn k (xs @ [c])) \<and>
          sources j = map sourceFn (group_of keyFn k (xs @ [c])) \<and>
          conflicting j = has_conflict keyFn equalFn (xs @ [c]) k"
        using info [of k j] ik g by (auto simp: hc group_of_single split: if_splits)
    qed (use old dom order ik in \<open>auto simp: res firsts_snoc hc split: if_splits\<close>)
  qed
qed

lemma dedupe_fold_inv:
  "dedupe_inv keyFn equalFn sourceFn cs (fold (dedupe_step keyFn equalFn sourceFn) cs ([], [], []))"
proof (induction cs rule: rev_induct)
  case Nil
  then show ?case by (simp add: dedupe_inv_def has_conflict_def group_of_def)
next
  case (snoc c cs)
  then show ?case by (simp add: dedupe_step_inv)
qed

lemma Dedupe_spec:
  assumes "Dedupe cs keyFn equalFn sourceFn = (result, conflicts)"
  shows "result = firsts keyFn cs"
    and "distinct (map Key conflicts)"
    and "Key ` set conflicts = {k. has_conflict keyFn equalFn cs k}"
    and "x \<in> set conflicts \<Longrightarrow> Sources x = map sourceFn (group_of keyFn (Key x) cs)"
proof -
  obtain res byKey order where f:
      "fold (dedupe_step keyFn equalFn sourceFn) cs ([], [], []) = (res, byKey, order)"
    using prod_cases3 by blast
  note inv = dedupe_fold_inv [of keyFn equalFn sourceFn cs, unfolded f dedupe_inv_def prod.case]
  have r: "result = res"
    and c: "conflicts = map (\<lambda>key. \<lparr>Key = key,
      Sources = (case map_get byKey key of Some i \<Rightarrow> sources i | None \<Rightarrow> [])\<rparr>) order"
    using assms by (simp_all add: Dedupe_def f)
  show "result = firsts keyFn cs" using inv r by simp
  show "distinct (map Key conflicts)" using inv by (simp add: c comp_def)
  show "Key ` set conflicts = {k. has_conflict keyFn equalFn cs k}"
    using inv by (auto simp: c image_image)
  show "Sources x = map sourceFn (group_of keyFn (Key x) cs)" if "x \<in> set conflicts"
  proof -
    have k: "has_conflict keyFn equalFn cs (Key x)" using that inv by (auto simp: c)
    then obtain i where "map_get byKey (Key x) = Some i"
      using inv has_conflict_key by fastforce
    then show ?thesis using that inv by (auto simp: c)
  qed
qed

section \<open>The contract\<close>

text \<open>What the reconcilers rely on when they merge definitions from presets and from the resource.\<close>

locale dedupe =
  fixes dd :: "'a list \<Rightarrow> ('a \<Rightarrow> string) \<Rightarrow> ('a \<Rightarrow> 'a \<Rightarrow> bool) \<Rightarrow> ('a \<Rightarrow> string) \<Rightarrow> 'a list \<times> conflict list"
  assumes distinct_keys: "distinct (map key (fst (dd cs key eq src)))"
    and kept_is_first: "x \<in> set (fst (dd cs key eq src)) \<Longrightarrow> x \<in> set cs \<and> x = hd (group_of key (key x) cs)"
    and keys_complete: "key ` set (fst (dd cs key eq src)) = key ` set cs"
    and conflict_iff: "Key ` set (snd (dd cs key eq src)) = {k. has_conflict key eq cs k}"
    and conflict_sources: "y \<in> set (snd (dd cs key eq src)) \<Longrightarrow> Sources y = map src (group_of key (Key y) cs)"
begin

text \<open>Without conflicts every definition is represented by an equal one.\<close>

lemma represented:
  assumes "snd (dd cs key eq src) = []" and "c \<in> set cs" and "\<And>x. eq x x"
  shows "\<exists>x \<in> set (fst (dd cs key eq src)). key x = key c \<and> eq x c"
proof -
  obtain x where x: "x \<in> set (fst (dd cs key eq src))" "key x = key c"
    using keys_complete [of key cs eq src] assms(2) by (metis imageE imageI)
  have "\<not> has_conflict key eq cs (key c)"
    using conflict_iff [of cs key eq src] assms(1) by simp
  moreover have "x = hd (group_of key (key c) cs)" using kept_is_first [OF x(1)] x(2) by simp
  moreover have "c \<in> set (group_of key (key c) cs)" using assms(2) by (simp add: group_of_def)
  ultimately have "eq x c"
    using assms(3) by (cases "group_of key (key c) cs") (auto simp: has_conflict_def)
  with x show ?thesis by blast
qed

text \<open>The first definition of a key wins, so the order of the sources decides.\<close>

lemma prefix_wins:
  assumes "x \<in> set (fst (dd (as @ bs) key eq src))" and "key x \<in> key ` set as"
  shows "x \<in> set as"
proof -
  have "x = hd (group_of key (key x) (as @ bs))" using kept_is_first [OF assms(1)] by simp
  moreover have ne: "group_of key (key x) as \<noteq> []" using assms(2) by (simp add: group_of_Nil_iff)
  ultimately have "x = hd (group_of key (key x) as)" by simp
  then have "x \<in> set (group_of key (key x) as)" using ne by (metis hd_in_set)
  then show ?thesis by (simp add: group_of_def)
qed

text \<open>Candidates that are compared by their content: conflicts are keys with two contents.\<close>

lemma content_conflict:
  assumes "\<And>a b. eq a b \<longleftrightarrow> f a = f b"
  shows "snd (dd cs key eq src) \<noteq> [] \<longleftrightarrow> (\<exists>a \<in> set cs. \<exists>b \<in> set cs. key a = key b \<and> f a \<noteq> f b)"
proof -
  have "snd (dd cs key eq src) \<noteq> [] \<longleftrightarrow> (\<exists>k. has_conflict key eq cs k)"
    using conflict_iff [where key = key and cs = cs and eq = eq and src = src] by (metis (no_types, lifting) empty_Collect_eq image_is_empty set_empty)
  also have "\<dots> \<longleftrightarrow> (\<exists>a \<in> set cs. \<exists>b \<in> set cs. key a = key b \<and> f a \<noteq> f b)"
  proof
    assume "\<exists>k. has_conflict key eq cs k"
    then obtain k c where c: "c \<in> set (tl (group_of key k cs))" "f (hd (group_of key k cs)) \<noteq> f c"
      by (auto simp: has_conflict_def assms)
    have "group_of key k cs \<noteq> []" using c(1) by auto
    then have "hd (group_of key k cs) \<in> set (group_of key k cs)" "c \<in> set (group_of key k cs)"
      using c(1) by (auto dest: list.set_sel(2))
    then show "\<exists>a \<in> set cs. \<exists>b \<in> set cs. key a = key b \<and> f a \<noteq> f b"
      using c(2) by (auto simp: group_of_def)
  next
    assume "\<exists>a \<in> set cs. \<exists>b \<in> set cs. key a = key b \<and> f a \<noteq> f b"
    then obtain a b where ab: "a \<in> set cs" "b \<in> set cs" "key a = key b" "f a \<noteq> f b" by blast
    let ?g = "group_of key (key a) cs"
    have g: "a \<in> set ?g" "b \<in> set ?g" using ab by (auto simp: group_of_def)
    then obtain x xs where x: "?g = x # xs" by (cases ?g) auto
    then have "\<exists>c \<in> set xs. f x \<noteq> f c" using g ab(4) by (metis set_ConsD)
    then show "\<exists>k. has_conflict key eq cs k" using x by (auto simp: has_conflict_def assms intro!: exI [of _ "key a"])
  qed
  finally show ?thesis .
qed

lemma content_kept:
  assumes "\<And>a b. eq a b \<longleftrightarrow> f a = f b" and "snd (dd cs key eq src) = []"
  shows "f ` set (fst (dd cs key eq src)) = f ` set cs"
proof -
  have "f x \<in> f ` set cs" if "x \<in> set (fst (dd cs key eq src))" for x
    using kept_is_first [OF that] by blast
  moreover have "f c \<in> f ` set (fst (dd cs key eq src))" if c: "c \<in> set cs" for c
    using represented [OF assms(2) c] assms(1) by (metis imageI)
  ultimately show ?thesis by blast
qed

end

interpretation merge_dedupe: dedupe Dedupe
proof
  fix cs :: "'a list" and key eq src x
  obtain r c where d: "Dedupe cs key eq src = (r, c)" by fastforce
  note spec = Dedupe_spec [OF d]
  show "distinct (map key (fst (Dedupe cs key eq src)))"
    by (simp add: d spec(1) distinct_firsts)
  show "x \<in> set (fst (Dedupe cs key eq src)) \<Longrightarrow> x \<in> set cs \<and> x = hd (group_of key (key x) cs)"
    using set_firsts [of key cs] firsts_is_first [of x key cs] by (auto simp: d spec(1))
  show "key ` set (fst (Dedupe cs key eq src)) = key ` set cs"
    by (simp add: d spec(1) keys_firsts)
  show "Key ` set (snd (Dedupe cs key eq src)) = {k. has_conflict key eq cs k}"
    by (simp add: d spec(3))
next
  fix cs :: "'a list" and key eq src y
  obtain r c where d: "Dedupe cs key eq src = (r, c)" by fastforce
  show "y \<in> set (snd (Dedupe cs key eq src)) \<Longrightarrow> Sources y = map src (group_of key (Key y) cs)"
    unfolding d snd_conv by (rule Dedupe_spec(4) [OF d])
qed

text \<open>Deduplication keeps the first candidate of every key, in order; it reports a conflict for
  exactly the keys that have a later candidate with different content, each once and with the
  sources of all its candidates; without conflicts every candidate is equal to a kept one.\<close>

lemma dedupe_correct:
  assumes "Dedupe cs keyFn equalFn sourceFn = (result, conflicts)"
  shows "result = firsts keyFn cs \<and> distinct (map keyFn result) \<and>
         distinct (map Key conflicts) \<and>
         Key ` set conflicts = {k. has_conflict keyFn equalFn cs k} \<and>
         (\<forall>x \<in> set conflicts. Sources x = map sourceFn (group_of keyFn (Key x) cs)) \<and>
         (conflicts = [] \<longrightarrow> (\<forall>x. equalFn x x) \<longrightarrow>
            (\<forall>c \<in> set cs. \<exists>x \<in> set result. keyFn x = keyFn c \<and> equalFn x c))"
  using Dedupe_spec [OF assms] distinct_firsts [of keyFn cs]
    merge_dedupe.represented [of cs keyFn equalFn sourceFn] assms
  by auto

lemma dedupe_correct_witness:
  "Dedupe [(1::nat, ''a''), (2, ''b''), (3, ''a''), (1, ''a'')] snd (\<lambda>x y. x = y) (\<lambda>x. nat_str (fst x)) =
     ([(1, ''a''), (2, ''b'')], [\<lparr>Key = ''a'', Sources = [''1'', ''3'', ''1'']\<rparr>]) \<and>
   has_conflict snd (\<lambda>x y. x = y) [(1::nat, ''a''), (2, ''b''), (3, ''a''), (1, ''a'')] ''a''"
proof -
  let ?cs = "[(1::nat, ''a''), (2, ''b''), (3, ''a''), (1, ''a'')]"
  have d: "Dedupe ?cs snd (\<lambda>x y. x = y) (\<lambda>x. nat_str (fst x)) =
      ([(1, ''a''), (2, ''b'')], [\<lparr>Key = ''a'', Sources = [''1'', ''3'', ''1'']\<rparr>])"
    by code_simp
  have "''a'' \<in> {k. has_conflict snd (\<lambda>x y. x = y) ?cs k}"
    using dedupe_correct [OF d] by auto
  with d show ?thesis by simp
qed

end
