(* ===== verification/RepoItems.thy ===== *)
theory RepoItems
  imports HashSync Dedupe
begin

text \<open>
  Deploy keys and autolinks of a repository: \<^verbatim>\<open>reporec/rec_deploykeys.go\<close> and \<^verbatim>\<open>reporec/rec_autolinks.go\<close> with
  \<^verbatim>\<open>mapper/github_deploykey_mapper.go\<close> and \<^verbatim>\<open>mapper/github_autolink_mapper.go\<close>. The hash of a string, SHA-256 in the
  code, is the argument \<open>sha\<close>: the theorems hold for every function.
\<close>

section \<open>Deploy keys\<close>

record deploy_key =
  dk_Key :: string
  dk_Title :: string
  dk_ReadOnly :: "bool option"

record gh_key =
  gy_ID :: "int option"
  gy_Key :: "string option"
  gy_Title :: "string option"
  gy_ReadOnly :: "bool option"

record deploy_key_request =
  kr_Key :: string
  kr_Title :: "string option"
  kr_ReadOnly :: "bool option"

definition HashDeployKey :: "(string \<Rightarrow> string) \<Rightarrow> string \<Rightarrow> string \<Rightarrow> bool \<Rightarrow> string" where
  "HashDeployKey sha key title readonly = sha (key @ ''|'' @ title @ ''|'' @ bool_str readonly)"

definition DeployKeyPresetToDeployKeyRequest :: "deploy_key \<Rightarrow> deploy_key_request" where
  "DeployKeyPresetToDeployKeyRequest p =
     \<lparr>kr_Key = dk_Key p, kr_Title = Some (dk_Title p), kr_ReadOnly = WithDefaultAsPtr (dk_ReadOnly p) True\<rparr>"

text \<open>The hash of a listed key; a key with a missing field is skipped.\<close>

definition gh_key_hash :: "(string \<Rightarrow> string) \<Rightarrow> gh_key \<Rightarrow> string option" where
  "gh_key_hash sha k =
     (case (gy_ID k, gy_Key k, gy_Title k, gy_ReadOnly k) of
        (Some i, Some key, Some title, Some ro) \<Rightarrow> Some (HashDeployKey sha key title ro)
      | _ \<Rightarrow> None)"

definition deploy_key_hash :: "(string \<Rightarrow> string) \<Rightarrow> deploy_key \<Rightarrow> string" where
  "deploy_key_hash sha d = HashDeployKey sha (dk_Key d) (dk_Title d) (WithDefault (dk_ReadOnly d) True)"

definition reconcileDeployKeys ::
    "(string \<Rightarrow> string) \<Rightarrow> (gh_key, deploy_key) item_orders \<Rightarrow> (gh_key, deploy_key_request) item_api \<Rightarrow> deploy_key list \<Rightarrow>
     deploy_key_request item_call list \<times> go_error option" where
  "reconcileDeployKeys sha od api desired =
     (case it_List api of
        Inl e \<Rightarrow> ([], Some e)
      | Inr listed \<Rightarrow>
          (let existing = existing_items (gh_key_hash sha) listed in
           apply_items od api gy_ID (deploy_key_hash sha) (\<lambda>d. map_get existing (deploy_key_hash sha d) \<noteq> None)
             DeployKeyPresetToDeployKeyRequest existing desired))"

section \<open>Autolinks\<close>

record autolink =
  al_KeyPrefix :: string
  al_URLTemplate :: string
  al_IsAlphanumeric :: bool

record gh_autolink =
  gal_ID :: "int option"
  gal_KeyPrefix :: "string option"
  gal_URLTemplate :: "string option"
  gal_IsAlphanumeric :: "bool option"

record autolink_request =
  ar_KeyPrefix :: string
  ar_URLTemplate :: string
  ar_IsAlphanumeric :: "bool option"

record desired_autolink =
  da_Source :: string
  da_Spec :: autolink

definition HashAutolink :: "(string \<Rightarrow> string) \<Rightarrow> string \<Rightarrow> string \<Rightarrow> bool \<Rightarrow> string" where
  "HashAutolink sha keyPrefix urlTemplate isAlphanumeric = sha (keyPrefix @ ''|'' @ urlTemplate @ ''|'' @ bool_str isAlphanumeric)"

definition KubernetesAutolinkToGitHubAutolink :: "autolink \<Rightarrow> autolink_request" where
  "KubernetesAutolinkToGitHubAutolink p =
     \<lparr>ar_KeyPrefix = al_KeyPrefix p, ar_URLTemplate = al_URLTemplate p, ar_IsAlphanumeric = Some (al_IsAlphanumeric p)\<rparr>"

definition AutolinksPresetSource :: "string \<Rightarrow> nat \<Rightarrow> string" where
  "AutolinksPresetSource name idx = ''autolinksPreset/'' @ name @ ''['' @ FormatInt (int idx) @ '']''"

text \<open>The candidates: the lists of the presets in the order of the references, then the inline autolinks.\<close>

fun preset_autolinks ::
    "(string \<Rightarrow> (go_error, autolink list) result) \<Rightarrow> string list \<Rightarrow> (go_error, desired_autolink list) result" where
  "preset_autolinks reader [] = Inr []"
| "preset_autolinks reader (ref # refs) =
     (case reader ref of
        Inl e \<Rightarrow> Inl (WrapError (''failed to get autolinks preset '' @ ref) e)
      | Inr links \<Rightarrow>
          (case preset_autolinks reader refs of
             Inl e \<Rightarrow> Inl e
           | Inr ds \<Rightarrow>
               Inr (map (\<lambda>(i, l). \<lparr>da_Source = AutolinksPresetSource ref i, da_Spec = l\<rparr>) (enumerate 0 links) @ ds)))"

definition collectDesiredAutolinks ::
    "(string \<Rightarrow> (go_error, autolink list) result) \<Rightarrow> string list \<Rightarrow> autolink list \<Rightarrow> (go_error, desired_autolink list) result" where
  "collectDesiredAutolinks reader refs inline =
     (case preset_autolinks reader refs of
        Inl e \<Rightarrow> Inl e
      | Inr ps \<Rightarrow>
          (let candidates = ps @ map (\<lambda>(i, l). \<lparr>da_Source = InlineSource i, da_Spec = l\<rparr>) (enumerate 0 inline) in
           case Dedupe candidates (\<lambda>d. al_KeyPrefix (da_Spec d)) (\<lambda>a b. da_Spec a = da_Spec b) da_Source of
             (result, conflicts) \<Rightarrow>
               (if conflicts \<noteq> []
                then Inl (JoinError (map (\<lambda>c. AutolinkConflictError (Key c) (Sources c)) conflicts))
                else Inr result)))"

definition gh_autolink_hash :: "(string \<Rightarrow> string) \<Rightarrow> gh_autolink \<Rightarrow> string option" where
  "gh_autolink_hash sha a =
     (case (gal_KeyPrefix a, gal_URLTemplate a, gal_IsAlphanumeric a) of
        (Some k, Some u, Some n) \<Rightarrow> Some (HashAutolink sha k u n)
      | _ \<Rightarrow> None)"

definition autolink_hash :: "(string \<Rightarrow> string) \<Rightarrow> autolink \<Rightarrow> string" where
  "autolink_hash sha l = HashAutolink sha (al_KeyPrefix l) (al_URLTemplate l) (al_IsAlphanumeric l)"

definition reconcileAutolinks ::
    "(string \<Rightarrow> string) \<Rightarrow> (string \<Rightarrow> (go_error, autolink list) result) \<Rightarrow> (gh_autolink, autolink) item_orders \<Rightarrow>
     (gh_autolink, autolink_request) item_api \<Rightarrow> string list \<Rightarrow> autolink list \<Rightarrow> autolink_request item_call list \<times> go_error option" where
  "reconcileAutolinks sha reader od api refs inline =
     (case collectDesiredAutolinks reader refs inline of
        Inl e \<Rightarrow> ([], Some e)
      | Inr desired \<Rightarrow>
          (case it_List api of
             Inl e \<Rightarrow> ([], Some e)
           | Inr listed \<Rightarrow>
               (let existing = existing_items (gh_autolink_hash sha) listed in
                apply_items od api gal_ID (autolink_hash sha) (\<lambda>l. map_get existing (autolink_hash sha l) \<noteq> None)
                  KubernetesAutolinkToGitHubAutolink existing (map da_Spec desired))))"

section \<open>What the two reconcilers achieve\<close>

definition stored_key :: "int \<Rightarrow> deploy_key_request \<Rightarrow> gh_key" where
  "stored_key i q = \<lparr>gy_ID = Some i, gy_Key = Some (kr_Key q), gy_Title = kr_Title q, gy_ReadOnly = kr_ReadOnly q\<rparr>"

definition stored_autolink :: "int \<Rightarrow> autolink_request \<Rightarrow> gh_autolink" where
  "stored_autolink i q =
     \<lparr>gal_ID = Some i, gal_KeyPrefix = Some (ar_KeyPrefix q), gal_URLTemplate = Some (ar_URLTemplate q),
      gal_IsAlphanumeric = ar_IsAlphanumeric q\<rparr>"

interpretation deploy_keys: hash_sync
  "gh_key_hash sha" gy_ID "deploy_key_hash sha" DeployKeyPresetToDeployKeyRequest stored_key "\<lambda>_. True" for sha
  by unfold_locales
    (simp_all add: stored_key_def gh_key_hash_def deploy_key_hash_def DeployKeyPresetToDeployKeyRequest_def WithDefaultAsPtr_WithDefault)

interpretation autolinks: hash_sync
  "gh_autolink_hash sha" gal_ID "autolink_hash sha" KubernetesAutolinkToGitHubAutolink stored_autolink "\<lambda>_. True" for sha
  by unfold_locales
    (simp_all add: stored_autolink_def gh_autolink_hash_def autolink_hash_def KubernetesAutolinkToGitHubAutolink_def)

context hash_sync
begin

text \<open>The two reconcilers keep an item if its hash is there; a second run then has nothing to do.\<close>

lemma second_run:
  assumes "items_ok idf hx s'" and "orders_ok od" and "\<forall>d \<in> set ds. okd d" and "set (List.map_filter hx s') = kd ` set ds"
  shows "apply_items od (item_store_api s') idf kd (\<lambda>d. map_get (existing_items hx s') (kd d) \<noteq> None) req (existing_items hx s') ds
           = ([], None)"
proof -
  obtain calls e where a: "apply_items od (item_store_api s') idf kd (\<lambda>d. map_get (existing_items hx s') (kd d) \<noteq> None) req
      (existing_items hx s') ds = (calls, e)" by fastforce
  have "map_get (existing_items hx s') (kd d) \<noteq> None" if d: "d \<in> set ds" for d
  proof -
    have "kd d \<in> set (List.map_filter hx s')" using assms(4) d by blast
    then obtain x where "x \<in> set s'" "hx x = Some (kd d)" by (force simp: List.map_filter_def)
    then show ?thesis using existing_get [of hx s' "kd d" x] assms(1) by (simp add: items_ok_def)
  qed
  then show ?thesis
    using apply_items_converges [OF assms(1-3) _ _ a refl] a assms(4) by auto
qed

end

definition key_content :: "gh_key \<Rightarrow> (string \<times> string \<times> bool) option" where
  "key_content k =
     (case (gy_ID k, gy_Key k, gy_Title k, gy_ReadOnly k) of
        (Some i, Some key, Some title, Some ro) \<Rightarrow> Some (key, title, ro)
      | _ \<Rightarrow> None)"

text \<open>What a definition asks for: key, title and access right, which is read-only unless it says otherwise.\<close>

definition deploy_key_content :: "deploy_key \<Rightarrow> string \<times> string \<times> bool" where
  "deploy_key_content d = (dk_Key d, dk_Title d, case dk_ReadOnly d of None \<Rightarrow> True | Some b \<Rightarrow> b)"

text \<open>The text of a key whose hash tells keys apart. It can be read back if the key itself has no bar, which no public key has.\<close>

definition key_line :: "string \<times> string \<times> bool \<Rightarrow> string" where
  "key_line c = (case c of (k, t, r) \<Rightarrow> k @ ''|'' @ t @ ''|'' @ (if r then ''true'' else ''false''))"

lemma key_line_inject:
  assumes "CHR ''|'' \<notin> set k" and "CHR ''|'' \<notin> set k'"
  shows "key_line (k, t, r) = key_line (k', t', r') \<longleftrightarrow> (k, t, r) = (k', t', r')"
proof
  assume "key_line (k, t, r) = key_line (k', t', r')"
  then have e: "k @ CHR ''|'' # (t @ ''|'' @ bool_str r) = k' @ CHR ''|'' # (t' @ ''|'' @ bool_str r')"
    by (simp add: key_line_def bool_str_def)
  from split_first_sep [OF this assms] have "k = k'" "t @ ''|'' @ bool_str r = t' @ ''|'' @ bool_str r'" by auto
  then show "(k, t, r) = (k', t', r')" unfolding bool_tail_inject by simp
qed simp

lemma key_lines_hashed:
  assumes "inj_on sha (key_line ` K)" and "\<forall>(k, t, r) \<in> K. CHR ''|'' \<notin> set k"
  shows "inj_on (\<lambda>c. sha (key_line c)) K"
proof -
  have "inj_on key_line K"
  proof (rule inj_onI)
    fix c c' assume c: "c \<in> K" "c' \<in> K" "key_line c = key_line c'"
    obtain k t r k' t' r' where "c = (k, t, r)" "c' = (k', t', r')" by (metis prod_cases3)
    then show "c = c'" using c assms(2) key_line_inject [of k k' t r t' r'] by blast
  qed
  then show ?thesis using comp_inj_on [of key_line K sha] assms(1) by (simp add: comp_def)
qed

lemma HashDeployKey_line: "HashDeployKey sha k t r = sha (key_line (k, t, r))"
  by (simp add: HashDeployKey_def key_line_def bool_str_def)

lemma key_hash_content: "gh_key_hash sha = (\<lambda>k. map_option (\<lambda>c. sha (key_line c)) (key_content k))"
  by (rule ext) (simp add: gh_key_hash_def key_content_def HashDeployKey_line split: option.split)

lemma deploy_key_hash_content: "deploy_key_hash sha d = sha (key_line (deploy_key_content d))"
  by (simp add: deploy_key_hash_def deploy_key_content_def HashDeployKey_line WithDefault_def)

lemma stored_key_content: "key_content (stored_key i (DeployKeyPresetToDeployKeyRequest d)) = Some (deploy_key_content d)"
  by (simp add: key_content_def stored_key_def DeployKeyPresetToDeployKeyRequest_def deploy_key_content_def WithDefaultAsPtr_WithDefault WithDefault_def)

lemma deploy_keys_settled:
  assumes "K = contents key_content s \<union> deploy_key_content ` set ds" and "inj_on sha (key_line ` K)" and "\<forall>(k, t, r) \<in> K. CHR ''|'' \<notin> set k"
    and "items_ok gy_ID key_content s" and "orders_ok od"
    and "reconcileDeployKeys sha od (item_store_api s) ds = (calls, e)" and "s' = items_after gy_ID stored_key s calls"
  shows "e = None \<and> contents key_content s' = deploy_key_content ` set ds \<and>
         {x \<in> set s'. key_content x = None} = {x \<in> set s. key_content x = None} \<and>
         reconcileDeployKeys sha od (item_store_api s') ds = ([], None)"
proof -
  let ?h = "\<lambda>c. sha (key_line c)"
  have inj: "inj_on ?h (contents key_content s \<union> deploy_key_content ` set ds)" using key_lines_hashed [OF assms(2,3)] assms(1) by simp
  have ok: "items_ok gy_ID (gh_key_hash sha) s"
    unfolding key_hash_content by (rule items_ok_hashed [OF assms(4)]) (use inj in \<open>simp add: inj_on_Un\<close>)
  have run: "apply_items od (item_store_api s) gy_ID (deploy_key_hash sha) (\<lambda>d. map_get (existing_items (gh_key_hash sha) s) (deploy_key_hash sha d) \<noteq> None)
      DeployKeyPresetToDeployKeyRequest (existing_items (gh_key_hash sha) s) ds = (calls, e)"
    using assms(6) by (simp add: reconcileDeployKeys_def item_store_api_def Let_def)
  have r: "e = None \<and> items_ok gy_ID (gh_key_hash sha) s' \<and>
      set (List.map_filter (gh_key_hash sha) s') = deploy_key_hash sha ` set ds \<and>
      {x \<in> set s'. gh_key_hash sha x = None} = {x \<in> set s. gh_key_hash sha x = None} \<and>
      (\<forall>x \<in> set s'. x \<in> set s \<or> (\<exists>i. \<exists>d \<in> set ds. x = stored_key i (DeployKeyPresetToDeployKeyRequest d)))"
    using deploy_keys.apply_items_converges [OF ok assms(5) _ _ _ run assms(7)] by simp
  have "contents key_content s' = deploy_key_content ` set ds"
  proof (rule same_contents [OF inj])
    show "?h ` contents key_content s' = (\<lambda>d. ?h (deploy_key_content d)) ` set ds"
      using r contents_hashed [of ?h key_content s'] by (simp add: key_hash_content deploy_key_hash_content)
    show "\<forall>x \<in> set s'. x \<in> set s \<or> (\<exists>d \<in> set ds. key_content x = Some (deploy_key_content d))"
      using r stored_key_content by blast
  qed
  moreover have "{x \<in> set s'. key_content x = None} = {x \<in> set s. key_content x = None}"
    using r by (simp add: key_hash_content)
  moreover have "reconcileDeployKeys sha od (item_store_api s') ds = ([], None)"
    using deploy_keys.second_run [OF _ assms(5)] r by (simp add: reconcileDeployKeys_def item_store_api_def Let_def)
  ultimately show ?thesis using r by blast
qed

text \<open>C30: the reconciler of the deploy keys leaves exactly the desired keys, with the desired titles and access rights, does not touch keys it cannot read, and has nothing to do in a second run; a key
  whose title or access right has changed is replaced. SHA-256 is assumed not to collide on the keys at hand, and no key contains a bar.\<close>

theorem deploy_keys_converge:
  assumes "K = contents key_content s \<union> deploy_key_content ` set ds" and "inj_on sha (key_line ` K)" and "\<forall>(k, t, r) \<in> K. CHR ''|'' \<notin> set k"
    and "items_ok gy_ID key_content s" and "orders_ok od"
    and "reconcileDeployKeys sha od (item_store_api s) ds = (calls, e)" and "s' = items_after gy_ID stored_key s calls"
  shows "e = None \<and> contents key_content s' = deploy_key_content ` set ds \<and>
         {x \<in> set s'. key_content x = None} = {x \<in> set s. key_content x = None} \<and>
         reconcileDeployKeys sha od (item_store_api s') ds = ([], None)"
  by (rule deploy_keys_settled [OF assms])

text \<open>Examples for the two reconcilers, with the identity as hash.\<close>

definition ex_keys :: "gh_key list" where
  "ex_keys = [\<lparr>gy_ID = Some 1, gy_Key = Some ''ssh-rsa A'', gy_Title = Some ''ci'', gy_ReadOnly = Some True\<rparr>,
              \<lparr>gy_ID = Some 2, gy_Key = Some ''ssh-rsa B'', gy_Title = Some ''old'', gy_ReadOnly = Some True\<rparr>]"

definition ex_deploy_keys :: "deploy_key list" where
  "ex_deploy_keys = [\<lparr>dk_Key = ''ssh-rsa A'', dk_Title = ''ci'', dk_ReadOnly = Some False\<rparr>,
                     \<lparr>dk_Key = ''ssh-rsa C'', dk_Title = ''new'', dk_ReadOnly = Some False\<rparr>]"

definition ex_orders :: "('x, 'd) item_orders" where
  "ex_orders = \<lparr>od_remove = (\<lambda>m. m), od_add = (\<lambda>m. m)\<rparr>"

lemma ex_orders_ok: "orders_ok ex_orders"
  by (simp add: orders_ok_def ex_orders_def)

lemma ex_keys_contents:
  "contents key_content ex_keys = {(''ssh-rsa A'', ''ci'', True), (''ssh-rsa B'', ''old'', True)}"
  "deploy_key_content ` set ex_deploy_keys = {(''ssh-rsa A'', ''ci'', False), (''ssh-rsa C'', ''new'', False)}"
  by (auto simp: contents_def ex_keys_def key_content_def ex_deploy_keys_def deploy_key_content_def)

lemma ex_keys_ok:
  "inj_on (\<lambda>s. s) (key_line ` (contents key_content ex_keys \<union> deploy_key_content ` set ex_deploy_keys))"
  "\<forall>(k, t, r) \<in> contents key_content ex_keys \<union> deploy_key_content ` set ex_deploy_keys. CHR ''|'' \<notin> set k"
  "items_ok gy_ID key_content ex_keys"
  by (simp_all add: ex_keys_contents inj_on_def) (simp add: items_ok_def ex_keys_def key_content_def List.map_filter_simps)

theorem deploy_keys_converge_witness:
  "\<exists>calls. reconcileDeployKeys (\<lambda>s. s) ex_orders (item_store_api ex_keys) ex_deploy_keys = (calls, None) \<and> length calls = 4 \<and>
     contents key_content (items_after gy_ID stored_key ex_keys calls) = {(''ssh-rsa A'', ''ci'', False), (''ssh-rsa C'', ''new'', False)}"
proof -
  have "map_prod length (\<lambda>e. e) (reconcileDeployKeys (\<lambda>s. s) ex_orders (item_store_api ex_keys) ex_deploy_keys) = (4, None)" by code_simp
  then obtain calls where run: "reconcileDeployKeys (\<lambda>s. s) ex_orders (item_store_api ex_keys) ex_deploy_keys = (calls, None)" "length calls = 4"
    by (cases "reconcileDeployKeys (\<lambda>s. s) ex_orders (item_store_api ex_keys) ex_deploy_keys") auto
  from deploy_keys_converge [OF refl ex_keys_ok ex_orders_ok run(1) refl] show ?thesis using run ex_keys_contents(2) by simp
qed

definition autolink_content :: "gh_autolink \<Rightarrow> autolink option" where
  "autolink_content a =
     (case (gal_KeyPrefix a, gal_URLTemplate a, gal_IsAlphanumeric a) of
        (Some k, Some u, Some n) \<Rightarrow> Some \<lparr>al_KeyPrefix = k, al_URLTemplate = u, al_IsAlphanumeric = n\<rparr>
      | _ \<Rightarrow> None)"

text \<open>The prefix of an autolink has no bar; with the line of a key the text of an autolink can be read back.\<close>

definition autolink_line :: "autolink \<Rightarrow> string" where
  "autolink_line l = key_line (al_KeyPrefix l, al_URLTemplate l, al_IsAlphanumeric l)"

lemma autolink_lines_hashed:
  assumes "inj_on sha (autolink_line ` L)" and "\<forall>l \<in> L. CHR ''|'' \<notin> set (al_KeyPrefix l)"
  shows "inj_on (\<lambda>l. sha (autolink_line l)) L"
proof -
  have "inj_on autolink_line L"
  proof (rule inj_onI)
    fix l l' assume l: "l \<in> L" "l' \<in> L" "autolink_line l = autolink_line l'"
    have "CHR ''|'' \<notin> set (al_KeyPrefix l)" "CHR ''|'' \<notin> set (al_KeyPrefix l')" using l(1,2) assms(2) by auto
    from key_line_inject [OF this] l(3) show "l = l'" by (simp add: autolink_line_def)
  qed
  then show ?thesis using comp_inj_on [of autolink_line L sha] assms(1) by (simp add: comp_def)
qed

lemma autolink_hash_line: "autolink_hash sha l = sha (autolink_line l)"
  by (simp add: autolink_hash_def HashAutolink_def autolink_line_def key_line_def bool_str_def)

lemma autolink_hash_content: "gh_autolink_hash sha = (\<lambda>a. map_option (\<lambda>l. sha (autolink_line l)) (autolink_content a))"
  by (rule ext) (simp add: gh_autolink_hash_def autolink_content_def autolink_line_def key_line_def bool_str_def HashAutolink_def split: option.split)

lemma stored_autolink_content: "autolink_content (stored_autolink i (KubernetesAutolinkToGitHubAutolink l)) = Some l"
  by (simp add: autolink_content_def stored_autolink_def KubernetesAutolinkToGitHubAutolink_def)

lemma collect_autolinks:
  assumes "preset_autolinks reader refs = Inr ps" and "defs = map da_Spec ps @ inline"
  shows "if \<exists>a \<in> set defs. \<exists>b \<in> set defs. al_KeyPrefix a = al_KeyPrefix b \<and> a \<noteq> b
         then \<exists>e. collectDesiredAutolinks reader refs inline = Inl e \<and> requires_user_action e
         else \<exists>ds. collectDesiredAutolinks reader refs inline = Inr ds \<and> da_Spec ` set ds = set defs"
proof -
  define cs where "cs = ps @ map (\<lambda>(i, l). \<lparr>da_Source = InlineSource i, da_Spec = l\<rparr>) (enumerate 0 inline)"
  let ?dd = "Dedupe cs (\<lambda>d. al_KeyPrefix (da_Spec d)) (\<lambda>a b. da_Spec a = da_Spec b) da_Source"
  obtain result conflicts where d: "?dd = (result, conflicts)" by fastforce
  have "map (\<lambda>x. da_Spec (case x of (i, l) \<Rightarrow> \<lparr>da_Source = InlineSource i, da_Spec = l\<rparr>)) (enumerate 0 inline) = inline"
    by (simp add: case_prod_beta comp_def flip: map_map)
  then have "map da_Spec cs = defs" using assms(2) by (simp add: cs_def comp_def)
  then have c: "set defs = da_Spec ` set cs" by auto
  have n: "conflicts \<noteq> [] \<longleftrightarrow> (\<exists>a \<in> set defs. \<exists>b \<in> set defs. al_KeyPrefix a = al_KeyPrefix b \<and> a \<noteq> b)"
    using merge_dedupe.content_conflict [where f = da_Spec and cs = cs and eq = "\<lambda>a b. da_Spec a = da_Spec b"
        and key = "\<lambda>d. al_KeyPrefix (da_Spec d)" and src = da_Source] d unfolding c by simp
  have k: "conflicts = [] \<Longrightarrow> da_Spec ` set result = set defs"
    using merge_dedupe.content_kept [where f = da_Spec and cs = cs and eq = "\<lambda>a b. da_Spec a = da_Spec b"
        and key = "\<lambda>d. al_KeyPrefix (da_Spec d)" and src = da_Source] d unfolding c by simp
  have "requires_user_action (JoinError (map (\<lambda>c. AutolinkConflictError (Key c) (Sources c)) conflicts))" if "conflicts \<noteq> []"
    using that by (simp add: requires_user_action.simps [of "AutolinkConflictError _ _"])
  then show ?thesis
    using n k d assms(1) by (cases "conflicts = []") (auto simp: collectDesiredAutolinks_def Let_def cs_def)
qed

text \<open>Autolinks of presets and inline are applied together or not at all. If two definitions give one
  key prefix different contents, nothing is changed on GitHub and the error asks for user action; otherwise
  the reconciler leaves exactly the autolinks that are defined, and has nothing to do in a second run.\<close>

lemma autolinks_all_or_nothing:
  assumes "preset_autolinks reader refs = Inr ps" and "defs = map da_Spec ps @ inline"
    and "items_ok gal_ID autolink_content s" and "orders_ok od"
    and "L = contents autolink_content s \<union> set defs" and "inj_on sha (autolink_line ` L)" and "\<forall>l \<in> L. CHR ''|'' \<notin> set (al_KeyPrefix l)"
    and "reconcileAutolinks sha reader od (item_store_api s) refs inline = (calls, e)"
    and "s' = items_after gal_ID stored_autolink s calls"
  shows "if \<exists>a \<in> set defs. \<exists>b \<in> set defs. al_KeyPrefix a = al_KeyPrefix b \<and> a \<noteq> b
         then calls = [] \<and> RequiresUserAction e
         else e = None \<and> contents autolink_content s' = set defs \<and>
              reconcileAutolinks sha reader od (item_store_api s') refs inline = ([], None)"
proof (cases "\<exists>a \<in> set defs. \<exists>b \<in> set defs. al_KeyPrefix a = al_KeyPrefix b \<and> a \<noteq> b")
  case True
  then show ?thesis
    using collect_autolinks [OF assms(1,2)] assms(8) by (auto simp: reconcileAutolinks_def RequiresUserAction_def)
next
  case False
  then obtain ds where ds: "collectDesiredAutolinks reader refs inline = Inr ds" "da_Spec ` set ds = set defs"
    using collect_autolinks [OF assms(1,2)] by (auto split: if_splits)
  let ?ds = "map da_Spec ds" and ?h = "gh_autolink_hash sha"
  let ?line = "\<lambda>l. sha (autolink_line l)"
  have inj: "inj_on ?line (contents autolink_content s \<union> (\<lambda>l. l) ` set ?ds)"
    using autolink_lines_hashed [OF assms(6,7)] assms(5) ds(2) by simp
  have ok: "items_ok gal_ID ?h s"
    unfolding autolink_hash_content by (rule items_ok_hashed [OF assms(3)]) (use inj in \<open>simp add: inj_on_Un\<close>)
  have run: "apply_items od (item_store_api s) gal_ID (autolink_hash sha)
      (\<lambda>l. map_get (existing_items ?h s) (autolink_hash sha l) \<noteq> None) KubernetesAutolinkToGitHubAutolink
      (existing_items ?h s) ?ds = (calls, e)"
    using assms(8) ds(1) by (simp add: reconcileAutolinks_def item_store_api_def Let_def)
  have r: "e = None \<and> items_ok gal_ID ?h s' \<and> set (List.map_filter ?h s') = autolink_hash sha ` set ?ds \<and>
      (\<forall>x \<in> set s'. x \<in> set s \<or> (\<exists>i. \<exists>d \<in> set ?ds. x = stored_autolink i (KubernetesAutolinkToGitHubAutolink d)))"
    using autolinks.apply_items_converges [OF ok assms(4) _ _ _ run assms(9)] by simp
  have "contents autolink_content s' = (\<lambda>l. l) ` set ?ds"
  proof (rule same_contents [OF inj])
    show "?line ` contents autolink_content s' = ?line ` set ?ds"
      using r contents_hashed [of ?line autolink_content s'] by (simp add: autolink_hash_content autolink_hash_line)
    show "\<forall>x \<in> set s'. x \<in> set s \<or> (\<exists>l \<in> set ?ds. autolink_content x = Some l)" using r stored_autolink_content by blast
  qed
  then have "contents autolink_content s' = set defs" using ds(2) by simp
  moreover have "reconcileAutolinks sha reader od (item_store_api s') refs inline = ([], None)"
    using autolinks.second_run [OF _ assms(4)] r ds(1) by (simp add: reconcileAutolinks_def item_store_api_def Let_def)
  ultimately show ?thesis using r False by auto
qed

definition ex_autolink :: autolink where
  "ex_autolink = \<lparr>al_KeyPrefix = ''JIRA-'', al_URLTemplate = ''u'', al_IsAlphanumeric = False\<rparr>"

lemma ex_no_autolinks:
  "items_ok gal_ID autolink_content []"
  "inj_on (\<lambda>s. s) (autolink_line ` (contents autolink_content [] \<union> set (map da_Spec [\<lparr>da_Source = AutolinksPresetSource ''p'' 0, da_Spec = ex_autolink\<rparr>] @ [ex_autolink])))"
  "\<forall>l \<in> contents autolink_content [] \<union> set (map da_Spec [\<lparr>da_Source = AutolinksPresetSource ''p'' 0, da_Spec = ex_autolink\<rparr>] @ [ex_autolink]). CHR ''|'' \<notin> set (al_KeyPrefix l)"
  by (simp_all add: items_ok_def contents_def ex_autolink_def List.map_filter_simps)

lemma autolinks_all_or_nothing_witness:
  "\<exists>calls. reconcileAutolinks (\<lambda>s. s) (\<lambda>n. Inr [ex_autolink]) ex_orders (item_store_api []) [''p''] [ex_autolink] = (calls, None) \<and>
     contents autolink_content (items_after gal_ID stored_autolink [] calls) = {ex_autolink}"
proof -
  let ?ps = "[\<lparr>da_Source = AutolinksPresetSource ''p'' 0, da_Spec = ex_autolink\<rparr>]"
  have p: "preset_autolinks (\<lambda>n. Inr [ex_autolink]) [''p''] = Inr ?ps" by simp
  obtain calls e where run: "reconcileAutolinks (\<lambda>s. s) (\<lambda>n. Inr [ex_autolink]) ex_orders (item_store_api []) [''p''] [ex_autolink] = (calls, e)"
    by fastforce
  from autolinks_all_or_nothing [OF p refl ex_no_autolinks(1) ex_orders_ok refl ex_no_autolinks(2,3) run refl] show ?thesis using run by auto
qed

end
