(* ===== verification/Webhooks.thy ===== *)
theory Webhooks
  imports RepoItems "HOL-Library.Char_ord" "HOL-Library.List_Lexorder"
begin

text \<open>
  The webhooks of a repository: \<^verbatim>\<open>reporec/rec_webhooks.go\<close> with \<^verbatim>\<open>mapper/github_hook_mapper.go\<close> and
  \<^verbatim>\<open>api/v1alpha1/webhookpreset_methods.go\<close>. Arguments of the model are the hash of a string (SHA-256), the compiler for
  regular expressions, the template engine of the Go library and the reads from Kubernetes and GitHub. The
  reconciler is an instance of the steps in \<^verbatim>\<open>HashSync\<close>; what is special is that it hashes the secrets it
  has set, collects definitions from presets and inline, and may be told to ignore hooks.
\<close>

section \<open>Data\<close>

record webhook_secret_ref =
  ws_Name :: "string option"
  ws_Key :: "string option"
  ws_Namespace :: "string option"

record webhook_spec =
  wh_PayloadURL :: string
  wh_Secret :: "webhook_secret_ref option"
  wh_SecretValue :: "string option"
  wh_ContentType :: string
  wh_Active :: "bool option"
  wh_Events :: "string list"
  wh_SSLVerify :: "bool option"

record gh_hook_config =
  hc_URL :: "string option"
  hc_ContentType :: "string option"
  hc_InsecureSSL :: "string option"
  hc_Secret :: "string option"

record gh_hook =
  hk_ID :: "int option"
  hk_Name :: "string option"
  hk_Active :: "bool option"
  hk_Events :: "string list"
  hk_Config :: "gh_hook_config option"

record desired_webhook =
  dw_Source :: string
  dw_Inline :: bool
  dw_Spec :: webhook_spec
  dw_Hash :: string

definition SetSecretValue :: "string \<Rightarrow> webhook_spec \<Rightarrow> webhook_spec" where
  "SetSecretValue secret s = (if secret = [] then s else s\<lparr>wh_SecretValue := Some secret\<rparr>)"

definition GetSecretValueHash :: "(string \<Rightarrow> string) \<Rightarrow> webhook_spec \<Rightarrow> string" where
  "GetSecretValueHash sha s =
     (case wh_SecretValue s of None \<Rightarrow> [] | Some v \<Rightarrow> if v = [] then [] else sha v)"

section \<open>The mapper\<close>

definition defaultContentType :: string where
  "defaultContentType = ''application/json''"

definition defaultSSLVerify :: string where
  "defaultSSLVerify = ''1''"

definition disabledSSLVerify :: string where
  "disabledSSLVerify = ''0''"

definition WebhookSpecToGithubHook :: "webhook_spec \<Rightarrow> gh_hook" where
  "WebhookSpecToGithubHook spec =
     \<lparr>hk_ID = None, hk_Name = Some ''web'', hk_Active = WithDefaultAsPtr (wh_Active spec) True,
      hk_Events = (if length (wh_Events spec) > 0 then wh_Events spec else [''push'']),
      hk_Config = Some
        \<lparr>hc_URL = Some (wh_PayloadURL spec),
         hc_ContentType = Some (if wh_ContentType spec \<noteq> [] then wh_ContentType spec else defaultContentType),
         hc_InsecureSSL = Some (if \<not> WithDefault (wh_SSLVerify spec) True then disabledSSLVerify else defaultSSLVerify),
         hc_Secret = wh_SecretValue spec\<rparr>\<rparr>"

text \<open>\<^verbatim>\<open>%v\<close> of a slice of strings puts its elements, separated by blanks, in brackets.\<close>

definition HashWebhookConfig :: "(string \<Rightarrow> string) \<Rightarrow> string \<Rightarrow> string \<Rightarrow> string list \<Rightarrow> string" where
  "HashWebhookConfig sha url contentType events =
     sha (url @ ''|'' @ contentType @ ''|['' @ strings_Join (sort events) '' '' @ '']'')"

section \<open>Collecting the desired webhooks\<close>

text \<open>
  The reads and library functions: presets by name, secrets by namespace and name (a map from keys),
  the repository on GitHub, parsing a template and executing it on the repository, compiling a regular
  expression.
\<close>

record 'repo webhook_env =
  we_sha :: "string \<Rightarrow> string"
  we_preset :: "string \<Rightarrow> (go_error, webhook_spec) result"
  we_ignorePreset :: "string \<Rightarrow> (go_error, string option) result"
  we_secret :: "string \<Rightarrow> string \<Rightarrow> (go_error, (string, string) gomap) result"
  we_repository :: "(go_error, 'repo) result"
  we_template :: "string \<Rightarrow> (go_error, 'repo \<Rightarrow> (go_error, string) result) result"
  we_compile :: "string \<Rightarrow> (go_error, string \<Rightarrow> bool) result"
  we_crash :: go_error

definition WebhookPresetSource :: "string \<Rightarrow> string" where
  "WebhookPresetSource name = ''webhookPreset/'' @ name"

text \<open>
  The expression that finds a template: two opening braces, at least one character, two closing braces, all
  on one line. \<open>closes s\<close> looks for the closing braces after at least one character.
\<close>

fun closes :: "string \<Rightarrow> bool" where
  "closes [] = False"
| "closes (c # s) = (c \<noteq> CHR 10 \<and> (HasPrefix s ''}}'' \<or> closes s))"

fun is_template :: "string \<Rightarrow> bool" where
  "is_template [] = False"
| "is_template (c # s) = ((HasPrefix (c # s) ''{{'' \<and> closes (drop 1 s)) \<or> is_template s)"

definition templatePayloadURL :: "'repo webhook_env \<Rightarrow> webhook_spec \<Rightarrow> (go_error, webhook_spec) result" where
  "templatePayloadURL env spec =
     (if \<not> is_template (wh_PayloadURL spec) then Inr spec
      else
        (case we_template env (wh_PayloadURL spec) of
           Inl e \<Rightarrow> Inl e
         | Inr tmpl \<Rightarrow>
             (case we_repository env of
                Inl e \<Rightarrow> Inl (WrapError ''failed to get repository for webhook creation'' e)
              | Inr repo \<Rightarrow>
                  (case tmpl repo of
                     Inl e \<Rightarrow> Inl (WrapError ''failed to template webhook url'' e)
                   | Inr url \<Rightarrow> Inr (spec\<lparr>wh_PayloadURL := url\<rparr>)))))"

definition preset_candidate :: "'repo webhook_env \<Rightarrow> string \<Rightarrow> (go_error, desired_webhook) result" where
  "preset_candidate env name =
     (case we_preset env name of
        Inl e \<Rightarrow> Inl (WrapError (''failed to get webhook preset '' @ name) e)
      | Inr spec \<Rightarrow> Inr \<lparr>dw_Source = WebhookPresetSource name, dw_Inline = False, dw_Spec = spec, dw_Hash = []\<rparr>)"

definition inline_candidate :: "nat \<times> webhook_spec \<Rightarrow> desired_webhook" where
  "inline_candidate x = \<lparr>dw_Source = InlineSource (fst x), dw_Inline = True, dw_Spec = snd x, dw_Hash = []\<rparr>"

definition hash_candidate :: "'repo webhook_env \<Rightarrow> desired_webhook \<Rightarrow> (go_error, desired_webhook) result" where
  "hash_candidate env c =
     (case templatePayloadURL env (dw_Spec c) of
        Inl e \<Rightarrow> Inl (WrapError (''failed to template webhook payload URL of '' @ dw_Source c) e)
      | Inr s \<Rightarrow> Inr (c\<lparr>dw_Spec := s,
          dw_Hash := HashWebhookConfig (we_sha env) (wh_PayloadURL s) (wh_ContentType s) (wh_Events s)\<rparr>))"

definition dedupeDesiredWebhooks :: "desired_webhook list \<Rightarrow> (go_error, desired_webhook list) result" where
  "dedupeDesiredWebhooks candidates =
     (let urls = put_all dw_Hash (\<lambda>c. wh_PayloadURL (dw_Spec c)) candidates [] in
      case Dedupe candidates dw_Hash (\<lambda>a b. dw_Spec a = dw_Spec b) dw_Source of
        (result, conflicts) \<Rightarrow>
          (if conflicts \<noteq> []
           then Inl (JoinError (map (\<lambda>c. WebhookConflictError (WithDefault (map_get urls (Key c)) []) (Key c) (Sources c)) conflicts))
           else Inr result))"

definition loadWebhookSecret :: "'repo webhook_env \<Rightarrow> string \<Rightarrow> desired_webhook \<Rightarrow> (go_error, desired_webhook) result" where
  "loadWebhookSecret env repoNamespace d =
     (case wh_Secret (dw_Spec d) of
        None \<Rightarrow> Inr d
      | Some ref \<Rightarrow>
          (case (ws_Name ref, ws_Key ref) of
             (Some name, Some key) \<Rightarrow>
               (let namespace = (case ws_Namespace ref of
                      Some ns \<Rightarrow> if ns \<noteq> [] then ns else repoNamespace
                    | None \<Rightarrow> repoNamespace) in
                if dw_Inline d \<and> namespace \<noteq> repoNamespace
                then Inl (InvalidWebhookSecretRefError (''inline webhook '' @ dw_Source d @ '' references secret '' @ namespace @ ''/'' @
                  name @ '' outside of the repository namespace '' @ repoNamespace))
                else
                  (case we_secret env namespace name of
                     Inl e \<Rightarrow> Inl (WrapError (''failed to get secret '' @ namespace @ ''/'' @ name) e)
                   | Inr sdata \<Rightarrow>
                       (case map_get sdata key of
                          None \<Rightarrow> Inl (PlainError (''failed to find key '' @ key @ '' in secret '' @ namespace @ ''/'' @ name))
                        | Some token \<Rightarrow> Inr (d\<lparr>dw_Spec := SetSecretValue token (dw_Spec d)\<rparr>))))
           | _ \<Rightarrow> Inl (InvalidWebhookSecretRefError (''webhook secret reference of '' @ dw_Source d @ '' must define name and key''))))"

definition collectDesiredWebhooks ::
    "'repo webhook_env \<Rightarrow> string \<Rightarrow> string list \<Rightarrow> webhook_spec list \<Rightarrow> (go_error, desired_webhook list) result" where
  "collectDesiredWebhooks env ns presets inline =
     (case map_result (preset_candidate env) presets of
        Inl e \<Rightarrow> Inl e
      | Inr ps \<Rightarrow>
          (case map_result (hash_candidate env) (ps @ map inline_candidate (enumerate 0 inline)) of
             Inl e \<Rightarrow> Inl e
           | Inr candidates \<Rightarrow>
               (case dedupeDesiredWebhooks candidates of
                  Inl e \<Rightarrow> Inl e
                | Inr desired \<Rightarrow> map_result (loadWebhookSecret env ns) desired)))"

section \<open>Ignored hooks\<close>

text \<open>The entries with their sources; the loop compiles each expression once.\<close>

fun compile_regexes ::
    "'repo webhook_env \<Rightarrow> (string \<times> string option) list \<Rightarrow> string list \<Rightarrow> (go_error, (string \<Rightarrow> bool) list) result" where
  "compile_regexes env [] seen = Inr []"
| "compile_regexes env ((source, spec) # rest) seen =
     (case spec of
        None \<Rightarrow> compile_regexes env rest seen
      | Some expr \<Rightarrow>
          (if expr = [] \<or> List.member seen expr then compile_regexes env rest seen
           else
             (case we_compile env expr of
                Inl e \<Rightarrow> Inl (WrapError (''failed to compile webhook ignore regex of '' @ source) e)
              | Inr re \<Rightarrow>
                  (case compile_regexes env rest (expr # seen) of Inl e \<Rightarrow> Inl e | Inr res \<Rightarrow> Inr (re # res)))))"

definition collectWebhookIgnoreRegexes ::
    "'repo webhook_env \<Rightarrow> string list \<Rightarrow> string option list \<Rightarrow> (go_error, (string \<Rightarrow> bool) list) result" where
  "collectWebhookIgnoreRegexes env refs inline =
     (case map_result (\<lambda>name. case we_ignorePreset env name of
             Inl e \<Rightarrow> Inl (WrapError (''failed to get webhook ignore preset '' @ name) e)
           | Inr spec \<Rightarrow> Inr (''webhookIgnorePreset/'' @ name, spec)) refs of
        Inl e \<Rightarrow> Inl e
      | Inr ps \<Rightarrow> compile_regexes env (ps @ map (\<lambda>(i, s). (InlineSource i, s)) (enumerate 0 inline)) [])"

definition isIgnoredHook :: "gh_hook \<Rightarrow> (string \<Rightarrow> bool) list \<Rightarrow> bool" where
  "isIgnoredHook hook res =
     (case hk_Config hook of
        None \<Rightarrow> False
      | Some c \<Rightarrow> (case hc_URL c of None \<Rightarrow> False | Some url \<Rightarrow> list_ex (\<lambda>re. re url) res))"

section \<open>The reconciler\<close>

text \<open>The hash under which a listed hook is filed; hooks with missing fields and ignored ones are skipped.\<close>

definition gh_hook_hash :: "(string \<Rightarrow> string) \<Rightarrow> (string \<Rightarrow> bool) list \<Rightarrow> gh_hook \<Rightarrow> string option" where
  "gh_hook_hash sha res hook =
     (case (hk_Config hook, hk_ID hook) of
        (Some c, Some i) \<Rightarrow>
          (case (hc_URL c, hc_ContentType c) of
             (Some url, Some ct) \<Rightarrow>
               (if isIgnoredHook hook res then None else Some (HashWebhookConfig sha url ct (hk_Events hook)))
           | _ \<Rightarrow> None)
      | _ \<Rightarrow> None)"

definition hook_kept :: "(string \<Rightarrow> string) \<Rightarrow> (string, gh_hook) gomap \<Rightarrow> (string, string) gomap \<Rightarrow> desired_webhook \<Rightarrow> bool" where
  "hook_kept sha existing status d \<longleftrightarrow>
     map_get existing (dw_Hash d) \<noteq> None \<and>
     GetSecretValueHash sha (dw_Spec d) = WithDefault (map_get status (dw_Hash d)) []"

definition updateWebhooksStatus :: "(string \<Rightarrow> string) \<Rightarrow> desired_webhook list \<Rightarrow> (string, string) gomap" where
  "updateWebhooksStatus sha desired = put_all dw_Hash (\<lambda>d. GetSecretValueHash sha (dw_Spec d)) desired []"

text \<open>The clean-up and the creation wrap the errors of the API.\<close>

definition hook_api :: "(gh_hook, gh_hook) item_api \<Rightarrow> (gh_hook, gh_hook) item_api" where
  "hook_api api = api
     \<lparr>it_Delete := (\<lambda>h i. map_option (WrapError (''failed to delete unused webhook '' @ FormatInt i)) (it_Delete api h i)),
      it_Create := (\<lambda>h q. map_option (WrapError ''failed to create webhook via GitHub API'') (it_Create api h q))\<rparr>"

text \<open>The error of a failed listing; \<open>crash\<close> stands for the panic on a nil response, which ends the process.\<close>

definition list_error :: "go_error \<Rightarrow> string \<Rightarrow> go_error \<Rightarrow> go_error" where
  "list_error crash repo e =
     (case has_status 404 e of
        None \<Rightarrow> crash
      | Some True \<Rightarrow> WrapError (''repository '' @ repo @ '' not found'') e
      | Some False \<Rightarrow> WrapError ''failed to list webhooks'' e)"

record webhook_config =
  wc_repo :: string
  wc_namespace :: string
  wc_presets :: "string list"
  wc_inline :: "webhook_spec list"
  wc_ignorePresets :: "string list"
  wc_ignores :: "string option list"

definition sync_webhooks ::
    "(string \<Rightarrow> string) \<Rightarrow> (string \<Rightarrow> bool) list \<Rightarrow> (gh_hook, desired_webhook) item_orders \<Rightarrow> (gh_hook, gh_hook) item_api \<Rightarrow>
     (string, string) gomap \<Rightarrow> gh_hook list \<Rightarrow> desired_webhook list \<Rightarrow>
     gh_hook item_call list \<times> (string, string) gomap \<times> go_error option" where
  "sync_webhooks sha res od api status hooks desired =
     (let existing = existing_items (gh_hook_hash sha res) hooks in
      case apply_items od (hook_api api) hk_ID dw_Hash (hook_kept sha existing status)
             (\<lambda>d. WebhookSpecToGithubHook (dw_Spec d)) existing desired of
        (calls, Some e) \<Rightarrow> (calls, status, Some e)
      | (calls, None) \<Rightarrow> (calls, updateWebhooksStatus sha desired, None))"

definition reconcileWebhooks ::
    "'repo webhook_env \<Rightarrow> (gh_hook, desired_webhook) item_orders \<Rightarrow> (gh_hook, gh_hook) item_api \<Rightarrow> webhook_config \<Rightarrow>
     (string, string) gomap \<Rightarrow> gh_hook item_call list \<times> (string, string) gomap \<times> go_error option" where
  "reconcileWebhooks env od api cfg status =
     (case collectWebhookIgnoreRegexes env (wc_ignorePresets cfg) (wc_ignores cfg) of
        Inl e \<Rightarrow> ([], status, Some e)
      | Inr res \<Rightarrow>
          (case collectDesiredWebhooks env (wc_namespace cfg) (wc_presets cfg) (wc_inline cfg) of
             Inl e \<Rightarrow> ([], status, Some e)
           | Inr desired \<Rightarrow>
               (case it_List api of
                  Inl e \<Rightarrow> ([], status, Some (list_error (we_crash env) (wc_repo cfg) e))
                | Inr hooks \<Rightarrow> sync_webhooks (we_sha env) res od api status hooks desired)))"

section \<open>The desired webhooks\<close>

lemma hash_candidate_keeps:
  "hash_candidate env c = Inr c' \<Longrightarrow>
     dw_Hash c' = HashWebhookConfig (we_sha env) (wh_PayloadURL (dw_Spec c')) (wh_ContentType (dw_Spec c')) (wh_Events (dw_Spec c'))"
  by (auto simp: hash_candidate_def split: sum.splits)

lemma load_keeps:
  assumes "loadWebhookSecret env ns d = Inr d'"
  shows "dw_Hash d' = dw_Hash d" and "wh_PayloadURL (dw_Spec d') = wh_PayloadURL (dw_Spec d)"
    and "wh_ContentType (dw_Spec d') = wh_ContentType (dw_Spec d)" and "wh_Events (dw_Spec d') = wh_Events (dw_Spec d)"
  using assms
  by (auto simp: loadWebhookSecret_def SetSecretValue_def Let_def split: option.splits sum.splits if_splits)

lemma collected_webhooks:
  assumes "collectDesiredWebhooks env ns presets inline = Inr ds"
  shows "distinct (map dw_Hash ds)"
    and "\<forall>d \<in> set ds. dw_Hash d =
      HashWebhookConfig (we_sha env) (wh_PayloadURL (dw_Spec d)) (wh_ContentType (dw_Spec d)) (wh_Events (dw_Spec d))"
proof -
  obtain ps cs des where p: "map_result (preset_candidate env) presets = Inr ps"
      and c: "map_result (hash_candidate env) (ps @ map inline_candidate (enumerate 0 inline)) = Inr cs"
      and d: "dedupeDesiredWebhooks cs = Inr des" and l: "map_result (loadWebhookSecret env ns) des = Inr ds"
    using assms by (auto simp: collectDesiredWebhooks_def split: sum.splits)
  have des: "des = fst (Dedupe cs dw_Hash (\<lambda>a b. dw_Spec a = dw_Spec b) dw_Source)"
    using d by (auto simp: dedupeDesiredWebhooks_def Let_def split: prod.splits if_splits)
  have l2: "list_all2 (\<lambda>x y. loadWebhookSecret env ns x = Inr y) des ds" using l by (simp add: map_result_Inr)
  have "map dw_Hash ds = map dw_Hash des"
    using l2 by (induction rule: list_all2_induct) (auto simp: load_keeps)
  then show "distinct (map dw_Hash ds)"
    using merge_dedupe.distinct_keys [of dw_Hash cs "\<lambda>a b. dw_Spec a = dw_Spec b" dw_Source] des by simp
  have cs: "\<forall>x \<in> set cs. dw_Hash x =
      HashWebhookConfig (we_sha env) (wh_PayloadURL (dw_Spec x)) (wh_ContentType (dw_Spec x)) (wh_Events (dw_Spec x))"
    using c hash_candidate_keeps unfolding map_result_Inr list_all2_conv_all_nth by (metis in_set_conv_nth)
  have "set des \<subseteq> set cs"
    using merge_dedupe.kept_is_first [of _ cs dw_Hash "\<lambda>a b. dw_Spec a = dw_Spec b" dw_Source] des by blast
  then have "\<forall>x \<in> set des. dw_Hash x =
      HashWebhookConfig (we_sha env) (wh_PayloadURL (dw_Spec x)) (wh_ContentType (dw_Spec x)) (wh_Events (dw_Spec x))"
    using cs by blast
  with l2 show "\<forall>d \<in> set ds. dw_Hash d =
      HashWebhookConfig (we_sha env) (wh_PayloadURL (dw_Spec d)) (wh_ContentType (dw_Spec d)) (wh_Events (dw_Spec d))"
  proof (induction rule: list_all2_induct)
    case (Cons x xs y ys)
    then show ?case using load_keeps [of env ns x y] by simp
  qed simp
qed

text \<open>An inline webhook, which anyone who may edit the repository resource can write, has no access to
  secrets outside the namespace of that resource: what loading its secret gives, error messages
  included, does not depend on secrets of other namespaces.\<close>

lemma inline_secret_confined:
  assumes "dw_Inline d" and "\<forall>name. we_secret env1 ns name = we_secret env2 ns name"
  shows "loadWebhookSecret env1 ns d = loadWebhookSecret env2 ns d"
  using assms by (auto simp: loadWebhookSecret_def Let_def split: option.splits)

section \<open>Convergence\<close>

definition stored_hook :: "int \<Rightarrow> gh_hook \<Rightarrow> gh_hook" where
  "stored_hook i q = q\<lparr>hk_ID := Some i\<rparr>"

text \<open>A desired webhook that says what it wants: content type and events are given, and no rule ignores its URL.\<close>

definition explicit_webhook :: "(string \<Rightarrow> bool) list \<Rightarrow> desired_webhook \<Rightarrow> bool" where
  "explicit_webhook res d \<longleftrightarrow>
     wh_ContentType (dw_Spec d) \<noteq> [] \<and> wh_Events (dw_Spec d) \<noteq> [] \<and> \<not> list_ex (\<lambda>re. re (wh_PayloadURL (dw_Spec d))) res"

definition hashed_webhook :: "(string \<Rightarrow> string) \<Rightarrow> desired_webhook \<Rightarrow> bool" where
  "hashed_webhook sha d \<longleftrightarrow>
     dw_Hash d = HashWebhookConfig sha (wh_PayloadURL (dw_Spec d)) (wh_ContentType (dw_Spec d)) (wh_Events (dw_Spec d))"

interpretation webhooks: hash_sync
  "gh_hook_hash sha res" hk_ID dw_Hash "\<lambda>d. WebhookSpecToGithubHook (dw_Spec d)" stored_hook
  "\<lambda>d. explicit_webhook res d \<and> hashed_webhook sha d" for sha res
  by unfold_locales
    (auto simp: stored_hook_def gh_hook_hash_def WebhookSpecToGithubHook_def explicit_webhook_def hashed_webhook_def isIgnoredHook_def)

lemma hook_api_store: "hook_api (item_store_api s) = item_store_api s"
  by (simp add: hook_api_def item_store_api_def)

lemma status_get:
  "distinct (map dw_Hash ds) \<Longrightarrow> d \<in> set ds \<Longrightarrow> map_get (updateWebhooksStatus sha ds) (dw_Hash d) = Some (GetSecretValueHash sha (dw_Spec d))"
  by (simp add: updateWebhooksStatus_def put_all_distinct)

lemma sync_webhooks_converges:
  assumes "items_ok hk_ID (gh_hook_hash sha res) s" and "orders_ok od" and "distinct (map dw_Hash ds)"
    and ok: "\<forall>d \<in> set ds. explicit_webhook res d \<and> hashed_webhook sha d"
    and "sync_webhooks sha res od (item_store_api s) status s ds = (calls, status', e)"
    and "s' = items_after hk_ID stored_hook s calls"
  shows "e = None \<and> status' = updateWebhooksStatus sha ds \<and> items_ok hk_ID (gh_hook_hash sha res) s' \<and>
         set (List.map_filter (gh_hook_hash sha res) s') = dw_Hash ` set ds \<and>
         {x \<in> set s'. gh_hook_hash sha res x = None} = {x \<in> set s. gh_hook_hash sha res x = None} \<and>
         (\<forall>x \<in> set s'. x \<in> set s \<and> (\<forall>h. gh_hook_hash sha res x = Some h \<longrightarrow>
              (\<exists>d \<in> set ds. hook_kept sha (existing_items (gh_hook_hash sha res) s) status d \<and> dw_Hash d = h)) \<or>
            (\<exists>i. \<exists>d \<in> set ds. x = stored_hook i (WebhookSpecToGithubHook (dw_Spec d)))) \<and>
         (\<forall>d \<in> set ds. \<not> hook_kept sha (existing_items (gh_hook_hash sha res) s) status d \<longrightarrow>
            CreateItem (WebhookSpecToGithubHook (dw_Spec d)) \<in> set calls) \<and>
         ((\<forall>d \<in> set ds. hook_kept sha (existing_items (gh_hook_hash sha res) s) status d) \<and>
            set (List.map_filter (gh_hook_hash sha res) s) \<subseteq> dw_Hash ` set ds \<longrightarrow> calls = [])"
proof -
  let ?ex = "existing_items (gh_hook_hash sha res) s"
  obtain calls1 e1 where run: "apply_items od (item_store_api s) hk_ID dw_Hash (hook_kept sha ?ex status)
      (\<lambda>d. WebhookSpecToGithubHook (dw_Spec d)) ?ex ds = (calls1, e1)" by fastforce
  have c: "calls = calls1" using assms(5) run by (cases e1) (auto simp: sync_webhooks_def hook_api_store Let_def)
  have cons: "\<forall>d \<in> set ds. \<forall>d' \<in> set ds. dw_Hash d = dw_Hash d' \<longrightarrow> hook_kept sha ?ex status d = hook_kept sha ?ex status d'"
    using assms(3) by (metis distinct_map inj_onD)
  have exk: "\<forall>d. hook_kept sha ?ex status d \<longrightarrow> map_get ?ex (dw_Hash d) \<noteq> None" by (simp add: hook_kept_def)
  note r = webhooks.apply_items_converges [OF assms(1,2) ok exk cons run assms(6) [unfolded c]]
  have e1: "e1 = None" using r by blast
  have "status' = updateWebhooksStatus sha ds" "e = None"
    using assms(5) run unfolding e1 by (simp_all add: sync_webhooks_def hook_api_store Let_def)
  moreover have "\<forall>d \<in> set ds. \<not> hook_kept sha ?ex status d \<longrightarrow> CreateItem (WebhookSpecToGithubHook (dw_Spec d)) \<in> set calls1"
    using r assms(3) by (metis (no_types, lifting) distinct_map inj_onD)
  ultimately show ?thesis using r unfolding c by (elim conjE) (intro conjI; assumption)
qed

lemma stored_status:
  assumes "items_ok hk_ID (gh_hook_hash sha res) s'" and "distinct (map dw_Hash ds)"
    and "set (List.map_filter (gh_hook_hash sha res) s') = dw_Hash ` set ds" and "d \<in> set ds"
  shows "hook_kept sha (existing_items (gh_hook_hash sha res) s') (updateWebhooksStatus sha ds) d"
proof -
  have "dw_Hash d \<in> set (List.map_filter (gh_hook_hash sha res) s')" using assms(3,4) by blast
  then obtain x where "x \<in> set s'" "gh_hook_hash sha res x = Some (dw_Hash d)" by (force simp: List.map_filter_def)
  then have "map_get (existing_items (gh_hook_hash sha res) s') (dw_Hash d) = Some x"
    using existing_get [of "gh_hook_hash sha res" s' "dw_Hash d" x] assms(1) by (simp add: items_ok_def)
  then show ?thesis using status_get [OF assms(2,4)] by (simp add: hook_kept_def)
qed

lemma sync_webhooks_second:
  assumes "items_ok hk_ID (gh_hook_hash sha res) s'" and "orders_ok od" and "distinct (map dw_Hash ds)"
    and "\<forall>d \<in> set ds. explicit_webhook res d \<and> hashed_webhook sha d"
    and "set (List.map_filter (gh_hook_hash sha res) s') = dw_Hash ` set ds"
  shows "sync_webhooks sha res od (item_store_api s') (updateWebhooksStatus sha ds) s' ds = ([], updateWebhooksStatus sha ds, None)"
proof -
  obtain calls status e where run: "sync_webhooks sha res od (item_store_api s') (updateWebhooksStatus sha ds) s' ds = (calls, status, e)"
    by (metis prod_cases3)
  note r = sync_webhooks_converges [OF assms(1-4) run refl]
  have "\<forall>d \<in> set ds. hook_kept sha (existing_items (gh_hook_hash sha res) s') (updateWebhooksStatus sha ds) d"
    using stored_status [OF assms(1,3,5)] by blast
  then have "calls = []" using r assms(5) by blast
  then show ?thesis using r run by simp
qed

text \<open>
  What a hook is, as far as the reconciler tells hooks apart: URL, content type and the set of its events. A hook that lacks one of them, and one whose URL an
  ignore rule matches, is none of the reconciler's hooks.
\<close>

definition hook_content :: "(string \<Rightarrow> bool) list \<Rightarrow> gh_hook \<Rightarrow> (string \<times> string \<times> string list) option" where
  "hook_content res x =
     (case (hk_ID x, hk_Config x) of
        (Some i, Some c) \<Rightarrow>
          (case (hc_URL c, hc_ContentType c) of
             (Some u, Some ct) \<Rightarrow> if \<exists>re \<in> set res. re u then None else Some (u, ct, sort (hk_Events x))
           | _ \<Rightarrow> None)
      | _ \<Rightarrow> None)"

definition spec_content :: "webhook_spec \<Rightarrow> string \<times> string \<times> string list" where
  "spec_content sp = (wh_PayloadURL sp, wh_ContentType sp, sort (wh_Events sp))"

text \<open>The text that is hashed. It can be read back if URL and content type have no bar and the events are words.\<close>

definition hook_line :: "string \<times> string \<times> string list \<Rightarrow> string" where
  "hook_line c = (case c of (u, ct, es) \<Rightarrow> u @ ''|'' @ ct @ ''|['' @ strings_Join es '' '' @ '']'')"

definition plain_hook :: "string \<times> string \<times> string list \<Rightarrow> bool" where
  "plain_hook c \<longleftrightarrow> (case c of (u, ct, es) \<Rightarrow> CHR ''|'' \<notin> set u \<and> CHR ''|'' \<notin> set ct \<and> (\<forall>e \<in> set es. e \<noteq> [] \<and> CHR '' '' \<notin> set e))"

lemma hook_line_inject:
  assumes "plain_hook c" and "plain_hook c'" and "hook_line c = hook_line c'"
  shows "c = c'"
proof -
  obtain u t es u' t' es' where c: "c = (u, t, es)" "c' = (u', t', es')" by (metis prod_cases3)
  have "u @ CHR ''|'' # (t @ CHR ''|'' # (CHR ''['' # strings_Join es '' '' @ '']''))
      = u' @ CHR ''|'' # (t' @ CHR ''|'' # (CHR ''['' # strings_Join es' '' '' @ '']''))"
    using assms(3) by (simp add: c hook_line_def)
  moreover have p: "CHR ''|'' \<notin> set u" "CHR ''|'' \<notin> set u'" "CHR ''|'' \<notin> set t" "CHR ''|'' \<notin> set t'"
    using assms(1,2) by (simp_all add: c plain_hook_def)
  ultimately have 1: "u = u'" and "t @ CHR ''|'' # (CHR ''['' # strings_Join es '' '' @ '']'') = t' @ CHR ''|'' # (CHR ''['' # strings_Join es' '' '' @ '']'')"
    using split_first_sep by metis+
  from split_first_sep [OF this(2) p(3,4)] have 2: "t = t'" and "CHR ''['' # strings_Join es '' '' @ '']'' = CHR ''['' # strings_Join es' '' '' @ '']''"
    by blast+
  then have "strings_Join es [CHR '' ''] = strings_Join es' [CHR '' '']" by simp
  then have "es = es'" using assms(1,2) by (intro join_inject [of es es' "CHR '' ''"]) (auto simp: c plain_hook_def)
  then show ?thesis using 1 2 c by simp
qed

lemma hook_lines_hashed:
  assumes "inj_on sha (hook_line ` H)" and "\<forall>c \<in> H. plain_hook c"
  shows "inj_on (\<lambda>c. sha (hook_line c)) H"
proof -
  have "inj_on hook_line H" using assms(2) hook_line_inject by (meson inj_onI)
  then show ?thesis using comp_inj_on [of hook_line H sha] assms(1) by (simp add: comp_def)
qed

lemma hook_hash_content: "gh_hook_hash sha res = (\<lambda>x. map_option (\<lambda>c. sha (hook_line c)) (hook_content res x))"
proof
  fix x
  show "gh_hook_hash sha res x = map_option (\<lambda>c. sha (hook_line c)) (hook_content res x)"
    by (cases "hk_Config x"; cases "hk_ID x"; cases "hc_URL (the (hk_Config x))"; cases "hc_ContentType (the (hk_Config x))")
      (simp_all add: gh_hook_hash_def hook_content_def isIgnoredHook_def HashWebhookConfig_def hook_line_def list_ex_iff Bex_def)
qed

text \<open>
  The secret a definition asks for: the value in the referenced secret, which is looked up in the namespace of the reference or of the repository and
  takes precedence unless it is empty, else the value written in the definition. The status records its hash, nothing for no secret.
\<close>

definition secret_of :: "'repo webhook_env \<Rightarrow> string \<Rightarrow> webhook_spec \<Rightarrow> string option" where
  "secret_of env ns sp =
     (case wh_Secret sp of
        None \<Rightarrow> wh_SecretValue sp
      | Some ref \<Rightarrow>
          (case we_secret env (if ws_Namespace ref \<in> {None, Some []} then ns else the (ws_Namespace ref)) (the (ws_Name ref)) of
             Inl e \<Rightarrow> None
           | Inr sdata \<Rightarrow> (if map_get sdata (the (ws_Key ref)) = Some [] then wh_SecretValue sp else map_get sdata (the (ws_Key ref)))))"

definition recorded_secret :: "(string \<Rightarrow> string) \<Rightarrow> string option \<Rightarrow> string" where
  "recorded_secret sha v = (if v \<in> {None, Some []} then [] else sha (the v))"

lemma loaded_spec:
  assumes "loadWebhookSecret env ns d = Inr d'"
  shows "dw_Spec d' = (dw_Spec d)\<lparr>wh_SecretValue := secret_of env ns (dw_Spec d)\<rparr>"
  using assms
  by (auto simp: loadWebhookSecret_def SetSecretValue_def secret_of_def Let_def split: option.splits sum.splits if_splits)

lemma recorded_hash: "GetSecretValueHash sha (sp\<lparr>wh_SecretValue := v\<rparr>) = recorded_secret sha v"
  by (auto simp: GetSecretValueHash_def recorded_secret_def split: option.splits)

lemma hash_candidate_spec: "hash_candidate env x = Inr c \<Longrightarrow> templatePayloadURL env (dw_Spec x) = Inr (dw_Spec c)"
  by (auto simp: hash_candidate_def split: sum.splits)

text \<open>The collected definitions are those of the presets and inline, with their URLs filled in and their secrets loaded.\<close>

lemma collected_specs:
  assumes "collectDesiredWebhooks env ns presets inline = Inr ds"
    and "map_result (we_preset env) presets = Inr ps" and "map_result (templatePayloadURL env) (ps @ inline) = Inr specs"
  shows "dw_Spec ` set ds = (\<lambda>sp. sp\<lparr>wh_SecretValue := secret_of env ns sp\<rparr>) ` set specs"
proof -
  obtain pc cs des where p: "map_result (preset_candidate env) presets = Inr pc"
      and c: "map_result (hash_candidate env) (pc @ map inline_candidate (enumerate 0 inline)) = Inr cs"
      and d: "dedupeDesiredWebhooks cs = Inr des" and l: "map_result (loadWebhookSecret env ns) des = Inr ds"
    using assms(1) by (auto simp: collectDesiredWebhooks_def split: sum.splits)
  have len: "length pc = length presets" "length ps = length presets"
    using p assms(2) by (auto simp: map_result_Inr dest: list_all2_lengthD)
  have pcs: "map dw_Spec pc = ps"
  proof (rule nth_equalityI)
    fix i assume i: "i < length (map dw_Spec pc)"
    have "preset_candidate env (presets ! i) = Inr (pc ! i)" "we_preset env (presets ! i) = Inr (ps ! i)"
      using p assms(2) i len by (simp_all add: map_result_Inr list_all2_conv_all_nth)
    then have "pc ! i = \<lparr>dw_Source = WebhookPresetSource (presets ! i), dw_Inline = False, dw_Spec = ps ! i, dw_Hash = []\<rparr>" by (simp add: preset_candidate_def)
    then show "map dw_Spec pc ! i = ps ! i" using i by simp
  qed (simp add: len)
  have "map (\<lambda>x. dw_Spec (inline_candidate x)) (enumerate 0 inline) = map snd (enumerate 0 inline)" by (simp add: inline_candidate_def)
  then have cand: "map dw_Spec (pc @ map inline_candidate (enumerate 0 inline)) = ps @ inline"
    using pcs by (simp add: comp_def)
  have c2: "list_all2 (\<lambda>x y. hash_candidate env x = Inr y) (pc @ map inline_candidate (enumerate 0 inline)) cs"
    using c by (simp add: map_result_Inr)
  have t2: "list_all2 (\<lambda>x y. templatePayloadURL env (dw_Spec x) = Inr y) (pc @ map inline_candidate (enumerate 0 inline)) specs"
    using assms(3) unfolding cand [symmetric] map_result_Inr list_all2_map1 .
  have "map dw_Spec cs = specs"
  proof (rule nth_equalityI)
    fix i assume "i < length (map dw_Spec cs)"
    then show "map dw_Spec cs ! i = specs ! i"
      using list_all2_nthD2 [OF c2, of i] list_all2_nthD [OF t2, of i] list_all2_lengthD [OF c2] hash_candidate_spec by fastforce
  qed (use list_all2_lengthD [OF c2] list_all2_lengthD [OF t2] in simp)
  then have specs: "dw_Spec ` set cs = set specs" by auto
  let ?dd = "Dedupe cs dw_Hash (\<lambda>a b. dw_Spec a = dw_Spec b) dw_Source"
  have dd: "des = fst ?dd" "snd ?dd = []"
    using d by (auto simp: dedupeDesiredWebhooks_def Let_def split: prod.splits if_splits)
  have kept_specs: "dw_Spec ` set des = set specs"
    using merge_dedupe.content_kept [where f = dw_Spec and cs = cs and eq = "\<lambda>a b. dw_Spec a = dw_Spec b" and key = dw_Hash and src = dw_Source] dd specs by simp
  have "list_all2 (\<lambda>x y. loadWebhookSecret env ns x = Inr y) des ds" using l by (simp add: map_result_Inr)
  then have "dw_Spec ` set ds = (\<lambda>sp. sp\<lparr>wh_SecretValue := secret_of env ns sp\<rparr>) ` (dw_Spec ` set des)"
    by (induction rule: list_all2_induct) (simp_all add: loaded_spec)
  then show ?thesis using kept_specs by simp
qed

text \<open>A definition that gives the content type and the events it wants, and that no ignore rule hides from the reconciler.\<close>

definition explicit_spec :: "(string \<Rightarrow> bool) list \<Rightarrow> webhook_spec \<Rightarrow> bool" where
  "explicit_spec res sp \<longleftrightarrow> wh_ContentType sp \<noteq> [] \<and> wh_Events sp \<noteq> [] \<and> \<not> (\<exists>re \<in> set res. re (wh_PayloadURL sp))"

text \<open>What a hook made for a definition carries besides its URL, content type and events.\<close>

definition made_for :: "'repo webhook_env \<Rightarrow> string \<Rightarrow> webhook_spec \<Rightarrow> gh_hook \<Rightarrow> bool" where
  "made_for env ns sp x \<longleftrightarrow>
     hk_Active x = Some (wh_Active sp \<noteq> Some False) \<and> (\<exists>c. hk_Config x = Some c \<and> hc_Secret c = secret_of env ns sp)"

lemma made_hook:
  "made_for env ns sp (stored_hook i (WebhookSpecToGithubHook (sp\<lparr>wh_SecretValue := secret_of env ns sp\<rparr>)))"
  by (cases "wh_Active sp") (auto simp: made_for_def stored_hook_def WebhookSpecToGithubHook_def WithDefaultAsPtr_WithDefault WithDefault_def)

lemma webhooks_settled:
  assumes "collectWebhookIgnoreRegexes env (wc_ignorePresets cfg) (wc_ignores cfg) = Inr res"
    and "collectDesiredWebhooks env (wc_namespace cfg) (wc_presets cfg) (wc_inline cfg) = Inr ds"
    and "map_result (we_preset env) (wc_presets cfg) = Inr ps" and "map_result (templatePayloadURL env) (ps @ wc_inline cfg) = Inr specs"
    and "\<forall>sp \<in> set specs. explicit_spec res sp"
    and "H = contents (hook_content res) s \<union> spec_content ` set specs" and "inj_on (we_sha env) (hook_line ` H)" and "\<forall>c \<in> H. plain_hook c"
    and "items_ok hk_ID (hook_content res) s" and "orders_ok od"
    and "reconcileWebhooks env od (item_store_api s) cfg status = (calls, status', e)"
    and "s' = items_after hk_ID stored_hook s calls"
  shows "e = None \<and> contents (hook_content res) s' = spec_content ` set specs \<and>
         {x \<in> set s'. hook_content res x = None} = {x \<in> set s. hook_content res x = None} \<and>
         (\<forall>sp \<in> set specs. map_get status' (we_sha env (hook_line (spec_content sp))) = Some (recorded_secret (we_sha env) (secret_of env (wc_namespace cfg) sp))) \<and>
         (\<forall>x \<in> set s'. \<forall>sp \<in> set specs. hook_content res x = Some (spec_content sp) \<longrightarrow> made_for env (wc_namespace cfg) sp x \<or>
            x \<in> set s \<and> WithDefault (map_get status (we_sha env (hook_line (spec_content sp)))) [] =
              recorded_secret (we_sha env) (secret_of env (wc_namespace cfg) sp)) \<and>
         reconcileWebhooks env od (item_store_api s') cfg status' = ([], status', None)"
proof -
  let ?sha = "we_sha env" and ?ns = "wc_namespace cfg"
  let ?h = "\<lambda>c. ?sha (hook_line c)" and ?load = "\<lambda>sp. sp\<lparr>wh_SecretValue := secret_of env (wc_namespace cfg) sp\<rparr>"
  note specs = collected_specs [OF assms(2-4)]
  have hashed: "\<forall>d \<in> set ds. hashed_webhook ?sha d" and dd: "distinct (map dw_Hash ds)"
    using collected_webhooks [OF assms(2)] by (simp_all add: hashed_webhook_def)
  have from_spec: "\<exists>sp \<in> set specs. dw_Spec d = ?load sp" if "d \<in> set ds" for d using specs that by blast
  have of_spec: "\<exists>d. d \<in> set ds \<and> dw_Spec d = ?load sp" if "sp \<in> set specs" for sp
  proof -
    have "?load sp \<in> dw_Spec ` set ds" unfolding specs using that by (rule imageI)
    then show ?thesis by (elim imageE) (intro exI conjI, assumption, rule sym)
  qed
  have hash: "dw_Hash d = ?h (spec_content sp)" if "d \<in> set ds" "dw_Spec d = ?load sp" for d sp
    using hashed that by (simp add: hashed_webhook_def HashWebhookConfig_def hook_line_def spec_content_def)
  have expl: "\<forall>d \<in> set ds. explicit_webhook res d \<and> hashed_webhook ?sha d"
    using hashed from_spec assms(5) by (fastforce simp: explicit_webhook_def explicit_spec_def list_ex_iff)
  have inj: "inj_on ?h (contents (hook_content res) s \<union> spec_content ` set specs)" using hook_lines_hashed [OF assms(7,8)] assms(6) by simp
  have ok: "items_ok hk_ID (gh_hook_hash ?sha res) s"
    unfolding hook_hash_content by (rule items_ok_hashed [OF assms(9)]) (use inj in \<open>simp add: inj_on_Un\<close>)
  have rw: "reconcileWebhooks env od (item_store_api t) cfg st = sync_webhooks ?sha res od (item_store_api t) st t ds" for t st
    by (simp add: reconcileWebhooks_def assms(1,2) item_store_api_def)
  note r = sync_webhooks_converges [OF ok assms(10) dd expl assms(11) [unfolded rw] assms(12)]
  have st: "status' = updateWebhooksStatus ?sha ds" and hs: "set (List.map_filter (gh_hook_hash ?sha res) s') = dw_Hash ` set ds"
    and iok: "items_ok hk_ID (gh_hook_hash ?sha res) s'" using r by blast+
  have hds: "dw_Hash ` set ds = (\<lambda>sp. ?h (spec_content sp)) ` set specs"
  proof -
    have "dw_Hash ` set ds = (\<lambda>d. HashWebhookConfig ?sha (wh_PayloadURL (dw_Spec d)) (wh_ContentType (dw_Spec d)) (wh_Events (dw_Spec d))) ` set ds"
      using hashed by (simp add: hashed_webhook_def)
    also have "\<dots> = (\<lambda>sp. HashWebhookConfig ?sha (wh_PayloadURL sp) (wh_ContentType sp) (wh_Events sp)) ` (dw_Spec ` set ds)" by (simp add: image_image)
    also have "\<dots> = (\<lambda>sp. ?h (spec_content sp)) ` set specs"
      by (simp add: specs image_image HashWebhookConfig_def hook_line_def spec_content_def)
    finally show ?thesis .
  qed
  have new: "hook_content res (stored_hook i (WebhookSpecToGithubHook (?load sp))) = Some (spec_content sp)" if "sp \<in> set specs" for i sp
    using assms(5) that by (auto simp: hook_content_def stored_hook_def WebhookSpecToGithubHook_def spec_content_def explicit_spec_def)
  have origin: "x \<in> set s \<and> (\<forall>h. gh_hook_hash ?sha res x = Some h \<longrightarrow> (\<exists>d \<in> set ds. hook_kept ?sha (existing_items (gh_hook_hash ?sha res) s) status d \<and> dw_Hash d = h))
      \<or> (\<exists>i. \<exists>sp \<in> set specs. x = stored_hook i (WebhookSpecToGithubHook (?load sp)))" if "x \<in> set s'" for x
  proof -
    have "\<exists>i. \<exists>sp \<in> set specs. x = stored_hook i (WebhookSpecToGithubHook (?load sp))"
      if made: "\<exists>i. \<exists>d \<in> set ds. x = stored_hook i (WebhookSpecToGithubHook (dw_Spec d))"
    proof -
      obtain i d where d: "d \<in> set ds" "x = stored_hook i (WebhookSpecToGithubHook (dw_Spec d))" using made by blast
      obtain sp where sp: "sp \<in> set specs" "dw_Spec d = ?load sp" using from_spec [OF d(1)] by blast
      show ?thesis using d(2) sp by (intro exI [of _ i] bexI [of _ sp]) simp_all
    qed
    then show ?thesis using r that by blast
  qed
  have "contents (hook_content res) s' = spec_content ` set specs"
  proof (rule same_contents [OF inj])
    show "?h ` contents (hook_content res) s' = (\<lambda>sp. ?h (spec_content sp)) ` set specs"
      using hs hds contents_hashed [of ?h "hook_content res" s'] by (simp add: hook_hash_content)
    show "\<forall>x \<in> set s'. x \<in> set s \<or> (\<exists>sp \<in> set specs. hook_content res x = Some (spec_content sp))" using origin new by blast
  qed
  moreover have "{x \<in> set s'. hook_content res x = None} = {x \<in> set s. hook_content res x = None}" using r by (simp add: hook_hash_content)
  moreover have loaded: "map_get status' (?h (spec_content sp)) = Some (recorded_secret ?sha (secret_of env ?ns sp))" if sp: "sp \<in> set specs" for sp
  proof -
    obtain d where d: "d \<in> set ds" "dw_Spec d = ?load sp" using of_spec [OF sp] by blast
    show ?thesis using status_get [OF dd d(1), of ?sha] st hash [OF d] d(2) by (simp add: recorded_hash)
  qed
  moreover have "made_for env ?ns sp x \<or> x \<in> set s \<and> WithDefault (map_get status (?h (spec_content sp))) [] = recorded_secret ?sha (secret_of env ?ns sp)"
    if x: "x \<in> set s'" "sp \<in> set specs" "hook_content res x = Some (spec_content sp)" for x sp
    using origin [OF x(1)]
  proof
    assume k: "x \<in> set s \<and> (\<forall>h. gh_hook_hash ?sha res x = Some h \<longrightarrow>
      (\<exists>d \<in> set ds. hook_kept ?sha (existing_items (gh_hook_hash ?sha res) s) status d \<and> dw_Hash d = h))"
    have "gh_hook_hash ?sha res x = Some (?h (spec_content sp))" using x(3) by (simp add: hook_hash_content)
    then obtain d where d: "d \<in> set ds" "hook_kept ?sha (existing_items (gh_hook_hash ?sha res) s) status d" "dw_Hash d = ?h (spec_content sp)" using k by blast
    have "map_get status' (dw_Hash d) = Some (GetSecretValueHash ?sha (dw_Spec d))" using status_get [OF dd d(1)] st by simp
    then show ?thesis using d(2,3) loaded [OF x(2)] k by (simp add: hook_kept_def)
  next
    assume "\<exists>i. \<exists>sp \<in> set specs. x = stored_hook i (WebhookSpecToGithubHook (?load sp))"
    then obtain i sp' where i: "sp' \<in> set specs" "x = stored_hook i (WebhookSpecToGithubHook (?load sp'))" by blast
    obtain d d' where d: "d \<in> set ds" "dw_Spec d = ?load sp" "d' \<in> set ds" "dw_Spec d' = ?load sp'"
      using of_spec [OF x(2)] of_spec [OF i(1)] by blast
    have "spec_content sp' = spec_content sp" using new [OF i(1), of i] x(3) i(2) by simp
    then have "dw_Hash d = dw_Hash d'" using hash [OF d(1,2)] hash [OF d(3,4)] by simp
    then have "d = d'" using dd d(1,3) by (metis distinct_map inj_onD)
    then have "?load sp' = ?load sp" using d by simp
    then show ?thesis using made_hook [of env ?ns sp i] i(2) by simp
  qed
  moreover have "reconcileWebhooks env od (item_store_api s') cfg status' = ([], status', None)"
    unfolding rw st by (rule sync_webhooks_second [OF iok assms(10) dd expl hs])
  ultimately show ?thesis using r by (intro conjI ballI impI) blast+
qed


text \<open>An example: a preset and an inline definition, one hook to keep, one that is ignored, one to delete.\<close>

definition ex_hook_env :: "unit webhook_env" where
  "ex_hook_env = \<lparr>we_sha = (\<lambda>s. s),
     we_preset = (\<lambda>n. Inr \<lparr>wh_PayloadURL = ''https://ci'', wh_Secret = None, wh_SecretValue = None, wh_ContentType = ''json'',
                            wh_Active = None, wh_Events = [''push''], wh_SSLVerify = None\<rparr>),
     we_ignorePreset = (\<lambda>n. Inr (Some ''https://other'')),
     we_secret = (\<lambda>ns n. if ns = ''team'' then Inr [(''token'', ''s3cret'')] else Inl (PlainError ''forbidden'')),
     we_repository = Inr (), we_template = (\<lambda>t. Inr (\<lambda>r. Inr t)), we_compile = (\<lambda>e. Inr (\<lambda>u. u = e)), we_crash = PlainError ''panic''\<rparr>"

definition ex_hook_cfg :: webhook_config where
  "ex_hook_cfg = \<lparr>wc_repo = ''org/repo'', wc_namespace = ''team'', wc_presets = [''ci''],
     wc_inline = [\<lparr>wh_PayloadURL = ''https://chat'',
        wh_Secret = Some \<lparr>ws_Name = Some ''hook'', ws_Key = Some ''token'', ws_Namespace = None\<rparr>, wh_SecretValue = None,
        wh_ContentType = ''form'', wh_Active = None, wh_Events = [''push'', ''issues''], wh_SSLVerify = None\<rparr>],
     wc_ignorePresets = [''other''], wc_ignores = [None]\<rparr>"

definition ex_hook :: "int \<Rightarrow> string \<Rightarrow> gh_hook" where
  "ex_hook i url = \<lparr>hk_ID = Some i, hk_Name = Some ''web'', hk_Active = Some True, hk_Events = [''push''],
     hk_Config = Some \<lparr>hc_URL = Some url, hc_ContentType = Some ''json'', hc_InsecureSSL = Some ''0'', hc_Secret = None\<rparr>\<rparr>"

definition ex_desired_hooks :: "desired_webhook list" where
  "ex_desired_hooks = (case collectDesiredWebhooks ex_hook_env ''team'' [''ci''] (wc_inline ex_hook_cfg) of Inl e \<Rightarrow> [] | Inr ds \<Rightarrow> ds)"

definition ex_preset_specs :: "webhook_spec list" where
  "ex_preset_specs = (case we_preset ex_hook_env ''ci'' of Inl e \<Rightarrow> [] | Inr sp \<Rightarrow> [sp])"

lemma ex_desired_hooks_inr: "collectDesiredWebhooks ex_hook_env (wc_namespace ex_hook_cfg) (wc_presets ex_hook_cfg) (wc_inline ex_hook_cfg) = Inr ex_desired_hooks"
  by code_simp

definition ex_hooks :: "gh_hook list" where
  "ex_hooks = [ex_hook 1 ''https://ci'', ex_hook 2 ''https://other'', ex_hook 3 ''https://old'']"

abbreviation ex_ignored :: "(string \<Rightarrow> bool) list" where
  "ex_ignored \<equiv> [\<lambda>u. u = ''https://other'']"

abbreviation ex_specs :: "webhook_spec list" where
  "ex_specs \<equiv> ex_preset_specs @ wc_inline ex_hook_cfg"

lemma ex_hooks_contents:
  "contents (hook_content ex_ignored) ex_hooks = {(''https://ci'', ''json'', [''push'']), (''https://old'', ''json'', [''push''])}"
  "spec_content ` set ex_specs = {(''https://ci'', ''json'', [''push'']), (''https://chat'', ''form'', [''issues'', ''push''])}"
proof -
  have s: "sort [''push'', ''issues''] = [''issues'', ''push'']" by code_simp
  show "contents (hook_content ex_ignored) ex_hooks = {(''https://ci'', ''json'', [''push'']), (''https://old'', ''json'', [''push''])}"
    by (auto simp: contents_def ex_hooks_def ex_hook_def hook_content_def)
  show "spec_content ` set ex_specs = {(''https://ci'', ''json'', [''push'']), (''https://chat'', ''form'', [''issues'', ''push''])}"
    using s by (simp add: ex_preset_specs_def ex_hook_env_def ex_hook_cfg_def spec_content_def)
qed

lemma ex_hooks_ok:
  "collectWebhookIgnoreRegexes ex_hook_env (wc_ignorePresets ex_hook_cfg) (wc_ignores ex_hook_cfg) = Inr ex_ignored"
  "map_result (we_preset ex_hook_env) (wc_presets ex_hook_cfg) = Inr ex_preset_specs"
  "map_result (templatePayloadURL ex_hook_env) (ex_preset_specs @ wc_inline ex_hook_cfg) = Inr ex_specs"
  "\<forall>sp \<in> set ex_specs. explicit_spec ex_ignored sp"
  "inj_on (we_sha ex_hook_env) (hook_line ` (contents (hook_content ex_ignored) ex_hooks \<union> spec_content ` set ex_specs))"
  "\<forall>c \<in> contents (hook_content ex_ignored) ex_hooks \<union> spec_content ` set ex_specs. plain_hook c"
  "items_ok hk_ID (hook_content ex_ignored) ex_hooks"
proof -
  show "collectWebhookIgnoreRegexes ex_hook_env (wc_ignorePresets ex_hook_cfg) (wc_ignores ex_hook_cfg) = Inr ex_ignored"
    by (simp add: collectWebhookIgnoreRegexes_def ex_hook_env_def ex_hook_cfg_def)
  show "map_result (we_preset ex_hook_env) (wc_presets ex_hook_cfg) = Inr ex_preset_specs" by code_simp
  show "map_result (templatePayloadURL ex_hook_env) (ex_preset_specs @ wc_inline ex_hook_cfg) = Inr ex_specs" by code_simp
  show "\<forall>sp \<in> set ex_specs. explicit_spec ex_ignored sp"
    by (simp add: ex_preset_specs_def ex_hook_env_def ex_hook_cfg_def explicit_spec_def)
  show "inj_on (we_sha ex_hook_env) (hook_line ` (contents (hook_content ex_ignored) ex_hooks \<union> spec_content ` set ex_specs))"
    by (simp add: ex_hook_env_def)
  show "\<forall>c \<in> contents (hook_content ex_ignored) ex_hooks \<union> spec_content ` set ex_specs. plain_hook c"
    unfolding ex_hooks_contents by (simp add: plain_hook_def)
  show "items_ok hk_ID (hook_content ex_ignored) ex_hooks"
    by (simp add: items_ok_def ex_hooks_def ex_hook_def hook_content_def List.map_filter_simps)
qed


lemma inline_secret_confined_witness:
  "loadWebhookSecret ex_hook_env ''team'' (ex_desired_hooks ! 1) =
   loadWebhookSecret (ex_hook_env\<lparr>we_secret := (\<lambda>ns n. Inr [(''token'', ''s3cret'')])\<rparr>) ''team'' (ex_desired_hooks ! 1)"
proof -
  have "dw_Inline (ex_desired_hooks ! 1)" by code_simp
  moreover have "\<forall>name. we_secret ex_hook_env ''team'' name = we_secret (ex_hook_env\<lparr>we_secret := (\<lambda>ns n. Inr [(''token'', ''s3cret'')])\<rparr>) ''team'' name"
    by (simp add: ex_hook_env_def)
  ultimately show ?thesis by (rule inline_secret_confined)
qed

section \<open>Defaults\<close>

text \<open>
  The hash of a definition is computed from the fields as written, that of the hook from the defaults
  \<^const>\<open>WebhookSpecToGithubHook\<close> puts in. So a hook created for a definition that leaves the content type or the events
  out is not recognized in the next run.
\<close>

lemma defaulted_hook_unrecognized:
  assumes "inj sha" and "hashed_webhook sha d" and "wh_ContentType (dw_Spec d) = [] \<or> wh_Events (dw_Spec d) = []"
    and "\<not> list_ex (\<lambda>re. re (wh_PayloadURL (dw_Spec d))) res"
  shows "\<exists>h. gh_hook_hash sha res (stored_hook i (WebhookSpecToGithubHook (dw_Spec d))) = Some h \<and> h \<noteq> dw_Hash d"
  using assms
  by (cases "wh_ContentType (dw_Spec d) = []")
    (auto simp: gh_hook_hash_def stored_hook_def WebhookSpecToGithubHook_def isIgnoredHook_def hashed_webhook_def HashWebhookConfig_def
       defaultContentType_def dest: injD)

text \<open>A webhook definition without content type or without events is deleted and created anew in every run.\<close>

lemma defaulted_webhook_recreated:
  assumes "inj sha" and "hashed_webhook sha d" and "wh_ContentType (dw_Spec d) = [] \<or> wh_Events (dw_Spec d) = []"
    and "\<not> list_ex (\<lambda>re. re (wh_PayloadURL (dw_Spec d))) res" and "orders_ok od"
    and "hook = stored_hook i (WebhookSpecToGithubHook (dw_Spec d))"
  shows "sync_webhooks sha res od (item_store_api [hook]) status [hook] [d] =
           ([DeleteItem i, CreateItem (WebhookSpecToGithubHook (dw_Spec d))], updateWebhooksStatus sha [d], None)"
proof -
  obtain h where h: "gh_hook_hash sha res hook = Some h" "h \<noteq> dw_Hash d"
    using defaulted_hook_unrecognized [OF assms(1-4)] assms(6) by blast
  have ex: "existing_items (gh_hook_hash sha res) [hook] = [(h, hook)]" using h(1) by (simp add: existing_items_def)
  have "\<not> hook_kept sha [(h, hook)] status d" using h(2) by (simp add: hook_kept_def)
  moreover have "od_remove od [(h, hook)] = [(h, hook)]" "od_add od [(dw_Hash d, d)] = [(dw_Hash d, d)]"
    using assms(5) by (simp_all add: orders_ok_def range_order_single)
  moreover have "hk_ID hook = Some i" by (simp add: assms(6) stored_hook_def)
  ultimately show ?thesis
    using ex by (simp add: sync_webhooks_def apply_items_def hook_api_store item_store_api_def Let_def hook_api_def)
qed

lemma defaulted_webhook_recreated_witness:
  "\<exists>d. wh_Events (dw_Spec d) = [] \<and>
     sync_webhooks (\<lambda>s. s) [] ex_orders (item_store_api [stored_hook 7 (WebhookSpecToGithubHook (dw_Spec d))]) []
       [stored_hook 7 (WebhookSpecToGithubHook (dw_Spec d))] [d] =
     ([DeleteItem 7, CreateItem (WebhookSpecToGithubHook (dw_Spec d))], updateWebhooksStatus (\<lambda>s. s) [d], None)"
proof -
  define sp where "sp = \<lparr>wh_PayloadURL = ''https://ci'', wh_Secret = None, wh_SecretValue = None, wh_ContentType = ''json'',
    wh_Active = None, wh_Events = [], wh_SSLVerify = None\<rparr>"
  define d where "d = \<lparr>dw_Source = InlineSource 0, dw_Inline = True, dw_Spec = sp, dw_Hash = HashWebhookConfig (\<lambda>s. s) ''https://ci'' ''json'' []\<rparr>"
  have "hashed_webhook (\<lambda>s. s) d" "wh_ContentType (dw_Spec d) = [] \<or> wh_Events (dw_Spec d) = []" "wh_Events (dw_Spec d) = []"
    by (simp_all add: hashed_webhook_def d_def sp_def)
  then show ?thesis
    using defaulted_webhook_recreated [of "\<lambda>s. s" d "[]" ex_orders _ 7 "[]", OF _ _ _ _ ex_orders_ok refl] by auto
qed

end
