(* ===== verification/Admission.thy ===== *)
theory Admission
  imports CustomProperties Webhooks
begin

text \<open>
  The validating webhooks: \<^verbatim>\<open>webhook/v1alpha1/organization_webhook.go\<close>, \<^verbatim>\<open>repository_webhook.go\<close> and \<^verbatim>\<open>shared.go\<close> under \<^verbatim>\<open>internal\<close>, and what the
  reconcilers may rely on once a resource was admitted. A field error keeps its kind, its path and its text; the offending value is left out. Reading the
  organization, getting a client and the definitions from GitHub are arguments.
\<close>

section \<open>Field errors\<close>

datatype field_error =
    FieldRequired string string
  | FieldInvalid string string
  | FieldForbidden string string
  | FieldNotSupported string "string list"
  | FieldDuplicate string string
  | FieldInternalError string string

definition squoted :: "string \<Rightarrow> string" where
  "squoted s = CHR 0x27 # s @ [CHR 0x27]"

definition path_Child :: "string \<Rightarrow> string \<Rightarrow> string" where
  "path_Child p n = p @ ''.'' @ n"

definition path_Index :: "string \<Rightarrow> nat \<Rightarrow> string" where
  "path_Index p i = p @ ''['' @ nat_str i @ '']''"

text \<open>A rejected resource, or a failure on the way.\<close>

datatype admission_error = InvalidResource "field_error list" | AdmissionFailed go_error

section \<open>Values against a definition (shared.go)\<close>

definition validateValueAgainstValueTypeAndAllowedValues ::
    "string \<Rightarrow> string option \<Rightarrow> string list option \<Rightarrow> string \<Rightarrow> string list \<Rightarrow> string \<Rightarrow> field_error list" where
  "validateValueAgainstValueTypeAndAllowedValues validationType v vs valueType allowed path =
     (if valueType = ''string'' \<or> valueType = ''url'' then []
      else if valueType = ''true_false'' then
        (case v of None \<Rightarrow> [] | Some s \<Rightarrow> if s \<noteq> ''true'' \<and> s \<noteq> ''false'' then [FieldNotSupported path [''true'', ''false'']] else [])
      else if valueType = ''single_select'' then
        (case v of None \<Rightarrow> [] | Some s \<Rightarrow> if \<not> List.member allowed s then [FieldNotSupported path allowed] else [])
      else if valueType = ''multi_select'' then
        (case v of
           Some s \<Rightarrow> [FieldInvalid path (validationType @ '' for custom property of type multi_select must be an array given as '' @ squoted ''values'')]
         | None \<Rightarrow> map (\<lambda>s. FieldNotSupported path allowed) (filter (\<lambda>s. \<not> List.member allowed s) (WithDefault vs [])))
      else [FieldInternalError path (''failed to validate '' @ validationType @
        '' against value_type because organization custom property has invalid value type: '' @ valueType)])"

section \<open>Organizations\<close>

record org_admission =
  oa_Login :: string
  oa_Name :: string
  oa_Plan :: string
  oa_CustomProperties :: "org_property list"
  oa_RulesetPresetList :: "string list"
  oa_Rulesets :: "string list"
  oa_CodeSecurityConfigurations :: "string list"
  oa_GitHubAppConfig :: "(int \<times> string) option"
  oa_GitHubAppInstallationId :: "int option"

definition validateCustomPropertyAllowedValues :: "org_property \<Rightarrow> string \<Rightarrow> field_error option" where
  "validateCustomPropertyAllowedValues p path =
     (if op_ValueType p = ''single_select'' \<or> op_ValueType p = ''multi_select'' then
        (if WithDefault (op_AllowedValues p) [] = []
         then Some (FieldRequired path (''allowed_values must be set for custom properties with value_type 'single_select' or '' @ squoted ''multi_select'')) else None)
      else
        (if op_AllowedValues p \<noteq> None
         then Some (FieldInvalid path (''allowed_values must not be set for custom properties with value_type 'string' or '' @ squoted ''true_false'')) else None))"

definition validateDefaultValue :: "org_property \<Rightarrow> string \<Rightarrow> field_error list" where
  "validateDefaultValue p path =
     validateValueAgainstValueTypeAndAllowedValues ''default value'' (case op_DefaultValue p of None \<Rightarrow> None | Some d \<Rightarrow> cd_Value d)
       (case op_DefaultValue p of None \<Rightarrow> None | Some d \<Rightarrow> cd_Values d) (op_ValueType p) (WithDefault (op_AllowedValues p) []) path"

definition validateCustomPropertyDefaultValues :: "org_property \<Rightarrow> string \<Rightarrow> field_error list" where
  "validateCustomPropertyDefaultValues p path =
     (let required = WithDefault (op_Required p) False in
      if required \<and> op_DefaultValue p = None then [FieldRequired path ''default_value must be set for required custom properties'']
      else if \<not> required \<and> op_DefaultValue p \<noteq> None then [FieldInvalid path ''default_value must not be set for non-required custom properties'']
      else validateDefaultValue p path)"

text \<open>The loop over the properties: the errors in order, and the map from a duplicate name to the index of its last occurrence.\<close>

fun properties_loop ::
    "string \<Rightarrow> nat \<Rightarrow> string list \<Rightarrow> org_property list \<Rightarrow> (string, nat) gomap \<Rightarrow> field_error list \<times> (string, nat) gomap" where
  "properties_loop path i seen [] dups = ([], dups)"
| "properties_loop path i seen (p # ps) dups =
     (let field = path_Index path i;
          dups1 = (if List.member seen (op_PropertyName p) then map_put (op_PropertyName p) i dups else dups) in
      case properties_loop path (Suc i) (op_PropertyName p # seen) ps dups1 of
        (errs, dups2) \<Rightarrow>
          ((case validateCustomPropertyAllowedValues p (path_Child field ''allowed_values'') of None \<Rightarrow> [] | Some e \<Rightarrow> [e]) @
           validateCustomPropertyDefaultValues p (path_Child field ''default_value'') @ errs, dups2))"

definition validateCustomProperties ::
    "((string \<times> nat) list \<Rightarrow> (string \<times> nat) list) \<Rightarrow> org_property list \<Rightarrow> string \<Rightarrow> field_error list" where
  "validateCustomProperties ord ps path =
     (case properties_loop path 0 [] ps [] of
        (errs, dups) \<Rightarrow> errs @ map (\<lambda>(n, i). FieldDuplicate (path_Child (path_Index path i) ''property_name'') n) (ord dups))"

definition validatePlanFeatureCombinations :: "org_admission \<Rightarrow> field_error list" where
  "validatePlanFeatureCombinations org =
     (let plan = oa_Plan org in
      if plan = [] \<or> plan = ''enterprise'' then []
      else
        (if plan \<noteq> ''team'' \<and> oa_RulesetPresetList org \<noteq> []
         then [FieldForbidden ''spec.rulesetPresets'' (''organization rulesets require the 'enterprise' or 'team' plan, but plan is '' @ squoted plan)] else []) @
        (if plan \<noteq> ''team'' \<and> oa_Rulesets org \<noteq> []
         then [FieldForbidden ''spec.rulesets'' (''organization rulesets require the 'enterprise' or 'team' plan, but plan is '' @ squoted plan)] else []) @
        (if oa_CodeSecurityConfigurations org \<noteq> []
         then [FieldForbidden ''spec.codeSecurityConfigurations'' (''code security configurations require the 'enterprise' plan, but plan is '' @ squoted plan)] else []))"

definition validateGitHubAppConfig :: "org_admission \<Rightarrow> field_error list" where
  "validateGitHubAppConfig org =
     (if oa_GitHubAppConfig org \<noteq> None \<or> oa_GitHubAppInstallationId org \<noteq> None then []
      else [FieldRequired ''spec'' ''at least one of githubAppConfig or githubAppInstallationId must be set''])"

definition validateOrganization :: "((string \<times> nat) list \<Rightarrow> (string \<times> nat) list) \<Rightarrow> org_admission \<Rightarrow> admission_error option" where
  "validateOrganization ord org =
     (let errs =
        (if oa_Login org = [] \<and> oa_Name org = [] then [FieldRequired ''spec'' ''either 'login' or 'name' must be specified''] else []) @
        validateCustomProperties ord (oa_CustomProperties org) ''spec.customProperties'' @
        validatePlanFeatureCombinations org @ validateGitHubAppConfig org in
      if errs = [] then None else Some (InvalidResource errs))"

text \<open>\<^verbatim>\<open>ValidateCreate\<close> and \<^verbatim>\<open>ValidateUpdate\<close> have the same body but for the message; \<^verbatim>\<open>ValidateDelete\<close> admits everything.\<close>

definition org_ValidateCreate :: "((string \<times> nat) list \<Rightarrow> (string \<times> nat) list) \<Rightarrow> org_admission option \<Rightarrow> admission_error option" where
  "org_ValidateCreate ord x =
     (case x of None \<Rightarrow> Some (AdmissionFailed (PlainError ''expected an Organization object but got nil'')) | Some org \<Rightarrow> validateOrganization ord org)"

definition org_ValidateUpdate :: "((string \<times> nat) list \<Rightarrow> (string \<times> nat) list) \<Rightarrow> org_admission option \<Rightarrow> admission_error option" where
  "org_ValidateUpdate ord x =
     (case x of None \<Rightarrow> Some (AdmissionFailed (PlainError ''expected an Organization object for the new object but got nil''))
      | Some org \<Rightarrow> validateOrganization ord org)"

definition org_ValidateDelete :: "org_admission option \<Rightarrow> admission_error option" where
  "org_ValidateDelete x = (case x of None \<Rightarrow> Some (AdmissionFailed (PlainError ''expected an Organization object but got nil'')) | Some org \<Rightarrow> None)"

section \<open>Repositories\<close>

record repo_admission =
  ra_Name :: string
  ra_Namespace :: string
  ra_OrganizationRef :: string
  ra_WebhookIgnores :: "string option list"
  ra_Webhooks :: "webhook_spec list"
  ra_CustomProperties :: "cp_value list"

text \<open>What the validator reads: the organization, a client for it, and the definitions (pointers, so that an entry may be nil).\<close>

record 'c admission_env =
  ae_Get :: "string \<Rightarrow> string \<Rightarrow> (go_error, org_admission) result"
  ae_GetClient :: "string \<Rightarrow> int \<Rightarrow> string \<Rightarrow> (go_error, 'c) result"
  ae_GetAllCustomPropertiesForOrganization :: "'c \<Rightarrow> string \<Rightarrow> (go_error, gh_property option list) result"

definition ignore_error :: "'r webhook_env \<Rightarrow> nat \<times> string option \<Rightarrow> field_error list" where
  "ignore_error env x =
     (let path = path_Child (path_Index ''spec.webhookIgnores'' (fst x)) ''ignoreURLRegex'' in
      case snd x of
        None \<Rightarrow> [FieldRequired path ''ignoreURLRegex must be set for inline webhook ignores'']
      | Some expr \<Rightarrow>
          (if expr = [] then [FieldRequired path ''ignoreURLRegex must be set for inline webhook ignores'']
           else (case we_compile env expr of Inl e \<Rightarrow> [FieldInvalid path (''invalid regular expression: '' @ error_text e)] | Inr re \<Rightarrow> [])))"

definition webhook_errors :: "'r webhook_env \<Rightarrow> string \<Rightarrow> nat \<times> webhook_spec \<Rightarrow> field_error list" where
  "webhook_errors env ns x =
     (let path = path_Index ''spec.webhooks'' (fst x); w = snd x in
      (case wh_Secret w of
         None \<Rightarrow> []
       | Some ref \<Rightarrow>
           (case ws_Namespace ref of
              None \<Rightarrow> []
            | Some n \<Rightarrow>
                (if n \<noteq> [] \<and> n \<noteq> ns
                 then [FieldForbidden (path_Child (path_Child path ''secret'') ''namespace'')
                   (''inline webhooks may only reference secrets in the repository namespace '' @ quoted ns)] else []))) @
      (if strings_Contains (wh_PayloadURL w) ''{{'' then
         (case we_template env (wh_PayloadURL w) of
            Inl e \<Rightarrow> [FieldInvalid (path_Child path ''payloadUrl'') (''invalid template: '' @ error_text e)] | Inr t \<Rightarrow> [])
       else []))"

definition validateInlinePresets :: "'r webhook_env \<Rightarrow> repo_admission \<Rightarrow> field_error list" where
  "validateInlinePresets env repo =
     concat (map (ignore_error env) (enumerate 0 (ra_WebhookIgnores repo))) @
     concat (map (webhook_errors env (ra_Namespace repo)) (enumerate 0 (ra_Webhooks repo)))"

definition validateCustomPropertyValuesHaveCorrectTypes ::
    "gh_property option list \<Rightarrow> cp_value list \<Rightarrow> string \<Rightarrow> field_error list" where
  "validateCustomPropertyValuesHaveCorrectTypes defs raw path =
     (let byName = put_all cv_PropertyName (\<lambda>x. x) raw [] in
      concat (map (\<lambda>d. case d of
          None \<Rightarrow> [FieldInternalError path ''received nil custom property definition from GitHub'']
        | Some g \<Rightarrow>
            (case map_get byName (GetPropertyName g) of
               None \<Rightarrow> []
             | Some cp \<Rightarrow> validateValueAgainstValueTypeAndAllowedValues ''value'' (cv_Value cp) (cv_Values cp) (gp_ValueType g)
                 (WithDefault (gp_AllowedValues g) []) (path_Child path (GetPropertyName g)))) defs))"

definition oa_GetLogin :: "org_admission \<Rightarrow> string" where
  "oa_GetLogin org = (if oa_Login org \<noteq> [] then oa_Login org else oa_Name org)"

definition GetGitHubAppInstallationID :: "string \<Rightarrow> string \<Rightarrow> org_admission \<Rightarrow> (go_error, int) result" where
  "GetGitHubAppInstallationID ns name org =
     (case oa_GitHubAppConfig org of
        Some (i, s) \<Rightarrow> Inr i
      | None \<Rightarrow>
          (case oa_GitHubAppInstallationId org of
             Some i \<Rightarrow> Inr i
           | None \<Rightarrow> Inl (PlainError (''organization '' @ ns @ ''/'' @ name @ '' has neither githubAppConfig nor githubAppInstallationId set''))))"

definition GetGitHubAppCredentialsSecretName :: "org_admission \<Rightarrow> string" where
  "GetGitHubAppCredentialsSecretName org = (case oa_GitHubAppConfig org of Some (i, s) \<Rightarrow> s | None \<Rightarrow> [])"

definition validateRepository :: "'r webhook_env \<Rightarrow> 'c admission_env \<Rightarrow> repo_admission \<Rightarrow> admission_error option" where
  "validateRepository env ae repo =
     (let statics = validateInlinePresets env repo;
          failed = (\<lambda>what e. Some (AdmissionFailed (WrapError (what @ '' during validation of repository '' @ ra_Name repo) e))) in
      if statics \<noteq> [] then Some (InvalidResource statics)
      else
        (case ae_Get ae (ra_Namespace repo) (ra_OrganizationRef repo) of
           Inl e \<Rightarrow> failed ''failed to fetch organization'' e
         | Inr org \<Rightarrow>
             (let login = oa_GetLogin org in
              case GetGitHubAppInstallationID (ra_Namespace repo) (ra_OrganizationRef repo) org of
                Inl e \<Rightarrow> failed (''failed to resolve GitHub App installation ID for organization '' @ login) e
              | Inr i \<Rightarrow>
                  (case ae_GetClient ae login i (GetGitHubAppCredentialsSecretName org) of
                     Inl e \<Rightarrow> failed (''failed to create GitHub client for organization '' @ login) e
                   | Inr c \<Rightarrow>
                       (case ae_GetAllCustomPropertiesForOrganization ae c login of
                          Inl e \<Rightarrow> failed (''failed to fetch custom properties for GitHub organization '' @ login) e
                        | Inr defs \<Rightarrow>
                            (let errs = validateCustomPropertyValuesHaveCorrectTypes defs (ra_CustomProperties repo) ''spec.customProperties'' in
                             if errs = [] then None else Some (InvalidResource errs)))))))"

definition repo_ValidateCreate :: "'r webhook_env \<Rightarrow> 'c admission_env \<Rightarrow> repo_admission option \<Rightarrow> admission_error option" where
  "repo_ValidateCreate env ae x =
     (case x of None \<Rightarrow> Some (AdmissionFailed (PlainError ''expected a Repository object but got nil'')) | Some repo \<Rightarrow> validateRepository env ae repo)"

definition repo_ValidateUpdate :: "'r webhook_env \<Rightarrow> 'c admission_env \<Rightarrow> repo_admission option \<Rightarrow> admission_error option" where
  "repo_ValidateUpdate env ae x =
     (case x of None \<Rightarrow> Some (AdmissionFailed (PlainError ''expected a Repository object for the new object but got nil''))
      | Some repo \<Rightarrow> validateRepository env ae repo)"

definition repo_ValidateDelete :: "repo_admission option \<Rightarrow> admission_error option" where
  "repo_ValidateDelete x = (case x of None \<Rightarrow> Some (AdmissionFailed (PlainError ''expected a Repository object but got nil'')) | Some repo \<Rightarrow> None)"

section \<open>Admitted organizations\<close>

text \<open>The rules for one property: choices exactly for selections, and a default exactly for required properties, of the right form.\<close>

definition is_selection :: "org_property \<Rightarrow> bool" where
  "is_selection p \<longleftrightarrow> op_ValueType p = ''single_select'' \<or> op_ValueType p = ''multi_select''"

definition choices_ok :: "org_property \<Rightarrow> bool" where
  "choices_ok p \<longleftrightarrow> (if is_selection p then WithDefault (op_AllowedValues p) [] \<noteq> [] else op_AllowedValues p = None)"

definition default_ok :: "org_property \<Rightarrow> bool" where
  "default_ok p \<longleftrightarrow>
     (op_DefaultValue p \<noteq> None \<longleftrightarrow> WithDefault (op_Required p) False) \<and>
     List.member [''string'', ''url'', ''true_false'', ''single_select'', ''multi_select''] (op_ValueType p) \<and>
     (\<forall>d. op_DefaultValue p = Some d \<longrightarrow>
        (\<forall>s. cd_Value d = Some s \<longrightarrow> op_ValueType p \<noteq> ''multi_select'' \<and> (op_ValueType p = ''true_false'' \<longrightarrow> s = ''true'' \<or> s = ''false'') \<and>
           (op_ValueType p = ''single_select'' \<longrightarrow> s \<in> set (WithDefault (op_AllowedValues p) []))) \<and>
        (op_ValueType p = ''multi_select'' \<longrightarrow> set (WithDefault (cd_Values d) []) \<subseteq> set (WithDefault (op_AllowedValues p) [])))"

lemma allowed_values_iff: "validateCustomPropertyAllowedValues p path = None \<longleftrightarrow> choices_ok p"
  by (simp add: validateCustomPropertyAllowedValues_def choices_ok_def is_selection_def)

lemma validate_value_iff:
  "validateValueAgainstValueTypeAndAllowedValues t v vs ty allowed path = [] \<longleftrightarrow>
     List.member [''string'', ''url'', ''true_false'', ''single_select'', ''multi_select''] ty \<and>
     (\<forall>s. v = Some s \<longrightarrow> ty \<noteq> ''multi_select'' \<and> (ty = ''true_false'' \<longrightarrow> s = ''true'' \<or> s = ''false'') \<and> (ty = ''single_select'' \<longrightarrow> s \<in> set allowed)) \<and>
     (ty = ''multi_select'' \<longrightarrow> set (WithDefault vs []) \<subseteq> set allowed)"
proof (cases "List.member [''string'', ''url'', ''true_false'', ''single_select'', ''multi_select''] ty")
  case False
  then have "ty \<noteq> ''string''" "ty \<noteq> ''url''" "ty \<noteq> ''true_false''" "ty \<noteq> ''single_select''" "ty \<noteq> ''multi_select''" by simp_all
  then show ?thesis unfolding validateValueAgainstValueTypeAndAllowedValues_def by simp
next
  case True
  then have "ty = ''string'' \<or> ty = ''url'' \<or> ty = ''true_false'' \<or> ty = ''single_select'' \<or> ty = ''multi_select''" by simp
  then show ?thesis
    by (elim disjE) (simp_all add: validateValueAgainstValueTypeAndAllowedValues_def filter_empty_conv subset_eq split: option.split)
qed

lemma default_values_iff: "validateCustomPropertyDefaultValues p path = [] \<longleftrightarrow> default_ok p"
proof (cases "op_DefaultValue p")
  case None
  then show ?thesis
    unfolding validateCustomPropertyDefaultValues_def validateDefaultValue_def default_ok_def Let_def by (simp add: validate_value_iff)
next
  case (Some d)
  then show ?thesis
    unfolding validateCustomPropertyDefaultValues_def validateDefaultValue_def default_ok_def Let_def by (simp add: validate_value_iff)
qed

lemma properties_loop_iff:
  "properties_loop path i seen ps dups = (errs, dups') \<Longrightarrow>
     (errs = [] \<longleftrightarrow> (\<forall>p \<in> set ps. choices_ok p \<and> default_ok p)) \<and>
     (dups' = [] \<longleftrightarrow> dups = [] \<and> distinct (map op_PropertyName ps) \<and> set (map op_PropertyName ps) \<inter> set seen = {})"
proof (induction path i seen ps dups arbitrary: errs dups' rule: properties_loop.induct)
  case (1 path i seen dups)
  then show ?case by auto
next
  case (2 path i seen p ps dups)
  let ?d = "if List.member seen (op_PropertyName p) then map_put (op_PropertyName p) i dups else dups"
  obtain es ds where rest: "properties_loop path (Suc i) (op_PropertyName p # seen) ps ?d = (es, ds)" by fastforce
  note IH = "2.IH" [OF refl refl rest]
  have ds: "dups' = ds" and errs: "errs = [] \<longleftrightarrow> choices_ok p \<and> default_ok p \<and> es = []"
    using "2.prems" rest allowed_values_iff [of p "path_Child (path_Index path i) ''allowed_values''"]
      default_values_iff [of p "path_Child (path_Index path i) ''default_value''"]
    by (auto simp: Let_def split: option.splits)
  have "?d = [] \<longleftrightarrow> dups = [] \<and> op_PropertyName p \<notin> set seen" by (cases dups) auto
  then show ?case using IH ds errs by auto
qed

lemma custom_properties_iff:
  assumes "range_order ord"
  shows "validateCustomProperties ord ps path = [] \<longleftrightarrow> distinct (map op_PropertyName ps) \<and> (\<forall>p \<in> set ps. choices_ok p \<and> default_ok p)"
proof -
  obtain errs dups where l: "properties_loop path 0 [] ps [] = (errs, dups)" by fastforce
  have "ord dups = [] \<longleftrightarrow> dups = []" using range_order_set [OF assms, of dups] by (metis set_empty)
  then show ?thesis using l properties_loop_iff [OF l] by (auto simp: validateCustomProperties_def)
qed

text \<open>An organization is admitted exactly if it has a login or name and an app installation, uses no feature its plan does not have, and its custom properties have distinct
  names, choices exactly if they are selections, and a default, of the right form, exactly if they are required.\<close>

lemma organization_admitted_iff:
  assumes "range_order ord"
  shows "validateOrganization ord org = None \<longleftrightarrow>
    oa_GetLogin org \<noteq> [] \<and> (\<exists>i. GetGitHubAppInstallationID ns name org = Inr i) \<and>
    (oa_Plan org \<noteq> [] \<and> oa_Plan org \<noteq> ''enterprise'' \<longrightarrow>
       oa_CodeSecurityConfigurations org = [] \<and> (oa_Plan org \<noteq> ''team'' \<longrightarrow> oa_RulesetPresetList org = [] \<and> oa_Rulesets org = [])) \<and>
    distinct (map op_PropertyName (oa_CustomProperties org)) \<and> (\<forall>p \<in> set (oa_CustomProperties org). choices_ok p \<and> default_ok p)"
proof -
  have app: "validateGitHubAppConfig org = [] \<longleftrightarrow> (\<exists>i. GetGitHubAppInstallationID ns name org = Inr i)"
    by (auto simp: validateGitHubAppConfig_def GetGitHubAppInstallationID_def split: option.splits)
  have login: "oa_GetLogin org \<noteq> [] \<longleftrightarrow> \<not> (oa_Login org = [] \<and> oa_Name org = [])" by (auto simp: oa_GetLogin_def)
  have plan: "validatePlanFeatureCombinations org = [] \<longleftrightarrow> (oa_Plan org \<noteq> [] \<and> oa_Plan org \<noteq> ''enterprise'' \<longrightarrow>
       oa_CodeSecurityConfigurations org = [] \<and> (oa_Plan org \<noteq> ''team'' \<longrightarrow> oa_RulesetPresetList org = [] \<and> oa_Rulesets org = []))"
    by (auto simp: validatePlanFeatureCombinations_def Let_def)
  show ?thesis
    unfolding app [symmetric] login plan [symmetric] custom_properties_iff [OF assms, symmetric, of _ "''spec.customProperties''"]
    by (auto simp: validateOrganization_def Let_def)
qed

section \<open>What the reconcilers get from an admitted resource\<close>

text \<open>
  The schema of the resource demands that exactly one of \<^verbatim>\<open>value\<close> and \<^verbatim>\<open>values\<close> is given. The validator rejects \<^verbatim>\<open>value\<close> for a selection of several values, but it admits
  \<^verbatim>\<open>values\<close> for the other types, and then the default that is sent is null.
\<close>

definition exactly_one :: "cp_default \<Rightarrow> bool" where
  "exactly_one d \<longleftrightarrow> (cd_Value d = None) \<noteq> (cd_Values d = None)"

lemma admitted_plain:
  assumes "default_ok p" and "\<forall>d. op_DefaultValue p = Some d \<longrightarrow> exactly_one d" and "op_ValueType p = ''multi_select'' \<or> (\<forall>d. op_DefaultValue p = Some d \<longrightarrow> cd_Value d \<noteq> None)"
  shows "plain_default p"
proof (cases "op_DefaultValue p")
  case None
  then show ?thesis by (simp add: plain_default_def)
next
  case (Some d)
  have e: "exactly_one d" using assms(2) Some by blast
  show ?thesis
  proof (cases "op_ValueType p = ''multi_select''")
    case True
    then have "cd_Value d = None" using assms(1) Some by (cases "cd_Value d") (simp_all add: default_ok_def)
    then show ?thesis using True Some e by (simp add: plain_default_def exactly_one_def)
  next
    case False
    then obtain s where s: "cd_Value d = Some s" "cd_Values d = None" using assms(3) Some e by (auto simp: exactly_one_def)
    have "op_ValueType p = ''true_false'' \<longrightarrow> s = ''true'' \<or> s = ''false''" using assms(1) Some s by (simp add: default_ok_def)
    moreover have "op_ValueType p \<noteq> ''true_false'' \<longrightarrow> List.member [''string'', ''single_select'', ''url''] (op_ValueType p)"
      using assms(1) False by (auto simp: default_ok_def)
    ultimately show ?thesis using False Some s by (simp add: plain_default_def)
  qed
qed

text \<open>An admitted definition of a custom property survives the way to GitHub and back, and so is not written again, exactly if it has no default, selects several values, or its
  default is given as a single value.\<close>

lemma admitted_property_round_trip:
  assumes "default_value_laws lib" and "validateCustomPropertyDefaultValues p path = []" and "\<forall>d. op_DefaultValue p = Some d \<longrightarrow> exactly_one d"
  shows "K8sOrgCustomPropertyMatchesGitHubCustomProperty lib p (Some (stored (ToGitHubCustomProperty p))) = Inr True \<longleftrightarrow>
    op_ValueType p = ''multi_select'' \<or> (\<forall>d. op_DefaultValue p = Some d \<longrightarrow> cd_Value d \<noteq> None)"
proof (cases "op_ValueType p = ''multi_select'' \<or> (\<forall>d. op_DefaultValue p = Some d \<longrightarrow> cd_Value d \<noteq> None)")
  case True
  have "default_ok p" using assms(2) by (simp add: default_values_iff)
  from stored_matches [OF assms(1) admitted_plain [OF this assms(3) True]] show ?thesis using True by blast
next
  case False
  then obtain d where d: "op_ValueType p \<noteq> ''multi_select''" "op_DefaultValue p = Some d" "cd_Value d = None" by blast
  then have "getK8sDefaultValue lib (stored (ToGitHubCustomProperty p)) = Inr None"
    by (simp add: getK8sDefaultValue_def stored_def ToGitHubCustomProperty_def getGitHubDefaultValue_def json_echo_def)
  then have "K8sOrgCustomPropertyMatchesGitHubCustomProperty lib p (Some (stored (ToGitHubCustomProperty p))) = Inr False"
    using d by (simp add: K8sOrgCustomPropertyMatchesGitHubCustomProperty_def ToK8sOrgCustomProperty_def equal_property_def equal_default_def)
  then show ?thesis using False by simp
qed

text \<open>The values of a definition's type.\<close>

definition typed_value :: "gh_property \<Rightarrow> cp_any \<Rightarrow> bool" where
  "typed_value g v \<longleftrightarrow>
     (case v of
        AnyNil \<Rightarrow> True
      | AnyString s \<Rightarrow>
          gp_ValueType g \<noteq> ''multi_select'' \<and> (gp_ValueType g = ''true_false'' \<longrightarrow> s = ''true'' \<or> s = ''false'') \<and>
          (gp_ValueType g = ''single_select'' \<longrightarrow> List.member (WithDefault (gp_AllowedValues g) []) s)
      | AnyStrings ss \<Rightarrow> gp_ValueType g = ''multi_select'' \<and> list_all (List.member (WithDefault (gp_AllowedValues g) [])) (WithDefault ss [])
      | _ \<Rightarrow> False)"

text \<open>The defaults of the definitions, as the library reads them, are among the allowed values.\<close>

definition typed_defaults :: "property_lib \<Rightarrow> gh_property \<Rightarrow> bool" where
  "typed_defaults lib g \<longleftrightarrow>
     (\<forall>s. gp_ValueType g = ''single_select'' \<longrightarrow> pl_DefaultValueString lib g = Some s \<longrightarrow> s \<in> set (WithDefault (gp_AllowedValues g) [])) \<and>
     (\<forall>ss. pl_DefaultValueStrings lib g = Some ss \<longrightarrow> set ss \<subseteq> set (WithDefault (gp_AllowedValues g) []))"

lemma value_for_typed:
  assumes "value_for lib m g = Inr v" and "typed_defaults lib g"
    and "\<forall>cp. map_get m (GetPropertyName g) = Some cp \<longrightarrow>
      validateValueAgainstValueTypeAndAllowedValues t (cv_Value cp) (cv_Values cp) (gp_ValueType g) (WithDefault (gp_AllowedValues g) []) path = []"
  shows "typed_value g (gv_Value v)"
proof (cases "map_get m (GetPropertyName g)")
  case (Some cp)
  have ok: "\<forall>s. cv_Value cp = Some s \<longrightarrow> gp_ValueType g \<noteq> ''multi_select'' \<and> (gp_ValueType g = ''true_false'' \<longrightarrow> s = ''true'' \<or> s = ''false'') \<and>
      (gp_ValueType g = ''single_select'' \<longrightarrow> s \<in> set (WithDefault (gp_AllowedValues g) []))"
      "gp_ValueType g = ''multi_select'' \<longrightarrow> set (WithDefault (cv_Values cp) []) \<subseteq> set (WithDefault (gp_AllowedValues g) [])"
    using assms(3) [rule_format, OF Some] unfolding validate_value_iff by blast+
  have v: "v = ToGitHubCustomPropertyValue cp g" using assms(1) Some by (simp add: value_for_def)
  show ?thesis
  proof (cases "gp_ValueType g = ''multi_select''")
    case True
    then show ?thesis using ok(2) v by (simp add: ToGitHubCustomPropertyValue_def typed_value_def list_all_iff subset_iff)
  next
    case False
    then show ?thesis using ok(1) v by (cases "cv_Value cp") (simp_all add: ToGitHubCustomPropertyValue_def typed_value_def)
  qed
next
  case None
  show ?thesis
  proof (cases "gp_Required g = Some True")
    case True
    then have d: "getDefaultValueAsCPV lib g = Inr v" using assms(1) None by (simp add: value_for_def)
    consider (multi) "gp_ValueType g = ''multi_select''" | (tf) "gp_ValueType g = ''true_false''" | (str) "gp_ValueType g \<noteq> ''multi_select''" "gp_ValueType g \<noteq> ''true_false''"
      by blast
    then show ?thesis
    proof cases
      case multi
      then show ?thesis using d assms(2)
        by (auto simp: getDefaultValueAsCPV_def typed_value_def typed_defaults_def list_all_iff split: option.splits)
    next
      case tf
      then show ?thesis using d by (auto simp: getDefaultValueAsCPV_def typed_value_def bool_str_def split: option.splits)
    next
      case str
      then show ?thesis using d assms(2) by (auto simp: getDefaultValueAsCPV_def typed_value_def typed_defaults_def split: option.splits)
    qed
  next
    case False
    then show ?thesis using assms(1) None by (auto simp: value_for_def typed_value_def)
  qed
qed

text \<open>C33: if the values of a repository were admitted, every value the reconciler computes has the type its definition demands: one of the allowed values, a boolean, or a list of allowed values.\<close>

theorem admitted_values_typed:
  assumes "validateCustomPropertyValuesHaveCorrectTypes (map Some defs) raw path = []"
    and "\<forall>g \<in> set defs. typed_defaults lib g" and "ToGitHubCustomPropertyValues lib raw defs = (vs, None)"
  shows "list_all2 (\<lambda>g v. gv_PropertyName v = GetPropertyName g \<and> typed_value g (gv_Value v)) defs vs"
proof -
  let ?m = "put_all cv_PropertyName (\<lambda>x. x) raw []"
  have l: "values_loop lib ?m defs = (vs, [])" using assms(3) by (auto simp: ToGitHubCustomPropertyValues_def split: prod.splits)
  note n = values_loop_names [OF l]
  have ok: "\<forall>cp. map_get ?m (GetPropertyName g) = Some cp \<longrightarrow>
      validateValueAgainstValueTypeAndAllowedValues ''value'' (cv_Value cp) (cv_Values cp) (gp_ValueType g) (WithDefault (gp_AllowedValues g) []) (path_Child path (GetPropertyName g)) = []"
    if "g \<in> set defs" for g
    using assms(1) that by (auto simp: validateCustomPropertyValuesHaveCorrectTypes_def Let_def)
  show ?thesis
  proof (rule list_all2_all_nthI)
    show len: "length defs = length vs" using n list_all2_lengthD by blast
    fix i
    assume i: "i < length defs"
    have v: "value_for lib ?m (defs ! i) = Inr (vs ! i)" using n i by (simp add: list_all2_conv_all_nth)
    have "gv_PropertyName (vs ! i) = GetPropertyName (defs ! i)" using n i len by (metis nth_map)
    moreover have "typed_value (defs ! i) (gv_Value (vs ! i))"
      using value_for_typed [OF v _ ok [OF nth_mem [OF i]]] assms(2) i by simp
    ultimately show "gv_PropertyName (vs ! i) = GetPropertyName (defs ! i) \<and> typed_value (defs ! i) (gv_Value (vs ! i))" by blast
  qed
qed

text \<open>A value for a property of type \<^verbatim>\<open>url\<close> is admitted and then dropped.\<close>

lemma url_value_dropped:
  "gp_ValueType g = ''url'' \<Longrightarrow> validateValueAgainstValueTypeAndAllowedValues t v vs (gp_ValueType g) allowed path = [] \<and>
     gv_Value (ToGitHubCustomPropertyValue cp g) = AnyNil"
  by (simp add: validateValueAgainstValueTypeAndAllowedValues_def ToGitHubCustomPropertyValue_def)

text \<open>A payload URL the reconciler takes for a template contains two opening braces.\<close>

lemma template_braces: "is_template s \<Longrightarrow> strings_Contains s ''{{''"
  by (induction s) auto

lemma concat_enumerate_nil:
  assumes "concat (map f (enumerate 0 xs)) = []" and "i < length xs"
  shows "f (i, xs ! i) = []"
proof -
  have "(i, xs ! i) \<in> set (enumerate 0 xs)" using assms(2) by (auto simp: in_set_enumerate_eq)
  then show ?thesis using assms(1) by auto
qed

lemma compile_regexes_ok:
  "\<forall>(src, x) \<in> set xs. \<exists>expr re. x = Some expr \<and> we_compile env expr = Inr re \<Longrightarrow> \<exists>res. compile_regexes env xs seen = Inr res"
proof (induction xs arbitrary: seen)
  case (Cons x xs)
  obtain src expr re where x: "x = (src, Some expr)" "we_compile env expr = Inr re" using Cons.prems by (cases x) auto
  obtain res where "compile_regexes env xs (expr # seen) = Inr res" using Cons by fastforce
  moreover obtain res' where "compile_regexes env xs seen = Inr res'" using Cons by fastforce
  ultimately show ?case using x by (cases "expr = [] \<or> List.member seen expr") simp_all
qed simp

text \<open>What an admitted repository defines in line cannot be what its webhook reconciliation fails on. The inline ignore rules compile, a payload URL that is
  taken for a template parses, and a secret reference with a name and a key is looked up in the namespace of the repository.\<close>

lemma admitted_inline_presets_usable:
  assumes "validateRepository env ae repo = None"
  shows "(\<exists>res. collectWebhookIgnoreRegexes env [] (ra_WebhookIgnores repo) = Inr res) \<and>
    (\<forall>i < length (ra_Webhooks repo). let w = ra_Webhooks repo ! i in
      (is_template (wh_PayloadURL w) \<longrightarrow> (\<exists>t. we_template env (wh_PayloadURL w) = Inr t)) \<and>
      (\<forall>ref name key secret token. wh_Secret w = Some ref \<longrightarrow> ws_Name ref = Some name \<longrightarrow> ws_Key ref = Some key \<longrightarrow>
         we_secret env (ra_Namespace repo) name = Inr secret \<longrightarrow> map_get secret key = Some token \<longrightarrow>
         loadWebhookSecret env (ra_Namespace repo) (inline_candidate (i, w)) =
           Inr (inline_candidate (i, SetSecretValue token w))))"
proof -
  have "validateInlinePresets env repo = []" using assms by (auto simp: validateRepository_def Let_def split: if_splits)
  then have ig: "concat (map (ignore_error env) (enumerate 0 (ra_WebhookIgnores repo))) = []"
    and wh: "concat (map (webhook_errors env (ra_Namespace repo)) (enumerate 0 (ra_Webhooks repo))) = []"
    by (simp_all add: validateInlinePresets_def)
  have c: "\<exists>expr re. ra_WebhookIgnores repo ! i = Some expr \<and> we_compile env expr = Inr re" if "i < length (ra_WebhookIgnores repo)" for i
    using concat_enumerate_nil [OF ig that] by (auto simp: ignore_error_def Let_def split: option.splits if_splits sum.splits)
  have "\<exists>res. collectWebhookIgnoreRegexes env [] (ra_WebhookIgnores repo) = Inr res"
    unfolding collectWebhookIgnoreRegexes_def map_result.simps sum.case append_Nil
    by (rule compile_regexes_ok) (use c in \<open>fastforce simp: in_set_enumerate_eq\<close>)
  moreover have "(is_template (wh_PayloadURL w) \<longrightarrow> (\<exists>t. we_template env (wh_PayloadURL w) = Inr t)) \<and>
      (\<forall>ref name key secret token. wh_Secret w = Some ref \<longrightarrow> ws_Name ref = Some name \<longrightarrow> ws_Key ref = Some key \<longrightarrow>
         we_secret env (ra_Namespace repo) name = Inr secret \<longrightarrow> map_get secret key = Some token \<longrightarrow>
         loadWebhookSecret env (ra_Namespace repo) (inline_candidate (i, w)) = Inr (inline_candidate (i, SetSecretValue token w)))"
    if "i < length (ra_Webhooks repo)" "w = ra_Webhooks repo ! i" for i w
  proof -
    have e: "webhook_errors env (ra_Namespace repo) (i, w) = []" using concat_enumerate_nil [OF wh that(1)] that(2) by simp
    have "\<exists>t. we_template env (wh_PayloadURL w) = Inr t" if "is_template (wh_PayloadURL w)"
      using e template_braces [OF that] by (auto simp: webhook_errors_def Let_def split: sum.splits)
    moreover have "(case ws_Namespace ref of Some ns \<Rightarrow> if ns \<noteq> [] then ns else ra_Namespace repo | None \<Rightarrow> ra_Namespace repo) = ra_Namespace repo"
      if "wh_Secret w = Some ref" for ref
      using e that by (auto simp: webhook_errors_def Let_def split: option.splits if_splits)
    ultimately show ?thesis by (auto simp: loadWebhookSecret_def inline_candidate_def Let_def)
  qed
  ultimately show ?thesis unfolding Let_def by blast
qed

text \<open>Examples.\<close>

definition ex_admission_org :: org_admission where
  "ex_admission_org = \<lparr>oa_Login = [], oa_Name = ''org'', oa_Plan = ''team'', oa_CustomProperties = [ex_org_property], oa_RulesetPresetList = [''p''], oa_Rulesets = [],
     oa_CodeSecurityConfigurations = [], oa_GitHubAppConfig = None, oa_GitHubAppInstallationId = Some 5\<rparr>"

lemma organization_admitted_iff_witness:
  "validateOrganization rev ex_admission_org = None \<and> oa_GetLogin ex_admission_org = ''org'' \<and>
   validateOrganization rev (ex_admission_org\<lparr>oa_CustomProperties := [ex_org_property, ex_org_property]\<rparr>) \<noteq> None"
proof -
  have o: "oa_CustomProperties (ex_admission_org\<lparr>oa_CustomProperties := [ex_org_property, ex_org_property]\<rparr>) = [ex_org_property, ex_org_property]" by simp
  have "\<not> distinct (map op_PropertyName [ex_org_property, ex_org_property])" by simp
  then have "validateOrganization rev (ex_admission_org\<lparr>oa_CustomProperties := [ex_org_property, ex_org_property]\<rparr>) \<noteq> None"
    using organization_admitted_iff [OF range_order_rev, of "ex_admission_org\<lparr>oa_CustomProperties := [ex_org_property, ex_org_property]\<rparr>" "[]" "[]"]
    unfolding o by blast
  moreover have "validateOrganization rev ex_admission_org = None" "oa_GetLogin ex_admission_org = ''org''" by code_simp+
  ultimately show ?thesis by blast
qed

lemma admitted_property_round_trip_witness:
  "K8sOrgCustomPropertyMatchesGitHubCustomProperty ex_property_lib ex_org_property (Some (stored (ToGitHubCustomProperty ex_org_property))) = Inr True \<and>
   (let p = ex_org_property\<lparr>op_ValueType := ''string'', op_AllowedValues := None\<rparr> in
    validateCustomPropertyDefaultValues p [] = [] \<and>
    K8sOrgCustomPropertyMatchesGitHubCustomProperty ex_property_lib p (Some (stored (ToGitHubCustomProperty p))) \<noteq> Inr True)"
proof -
  let ?p = "ex_org_property\<lparr>op_ValueType := ''string'', op_AllowedValues := None\<rparr>"
  have v: "validateCustomPropertyDefaultValues ex_org_property [] = []" "validateCustomPropertyDefaultValues ?p [] = []" by code_simp+
  have d: "op_DefaultValue ex_org_property = Some \<lparr>cd_Value = None, cd_Values = Some [''b'', ''a'']\<rparr>" "op_ValueType ex_org_property = ''multi_select''" by code_simp+
  have "\<forall>d. op_DefaultValue ex_org_property = Some d \<longrightarrow> exactly_one d" "\<forall>d. op_DefaultValue ?p = Some d \<longrightarrow> exactly_one d"
    using d by (simp_all add: exactly_one_def)
  from admitted_property_round_trip [OF ex_property_lib_laws v(1) this(1)] admitted_property_round_trip [OF ex_property_lib_laws v(2) this(2)]
  show ?thesis using d v by (simp add: Let_def)
qed

theorem admitted_values_typed_witness:
  "validateCustomPropertyValuesHaveCorrectTypes (map Some [ex_team_definition]) [ex_cp_value] [] = [] \<and>
   (\<exists>vs. ToGitHubCustomPropertyValues ex_property_lib [ex_cp_value] [ex_team_definition] = (vs, None) \<and> length vs = 1 \<and> typed_value ex_team_definition (gv_Value (vs ! 0)))"
proof -
  have v: "validateCustomPropertyValuesHaveCorrectTypes (map Some [ex_team_definition]) [ex_cp_value] [] = []"
      "snd (ToGitHubCustomPropertyValues ex_property_lib [ex_cp_value] [ex_team_definition]) = None" by code_simp+
  then obtain vs where vs: "ToGitHubCustomPropertyValues ex_property_lib [ex_cp_value] [ex_team_definition] = (vs, None)"
    by (cases "ToGitHubCustomPropertyValues ex_property_lib [ex_cp_value] [ex_team_definition]") auto
  have "pl_DefaultValueStrings ex_property_lib ex_team_definition = Some [''b'', ''a'']" "WithDefault (gp_AllowedValues ex_team_definition) [] = [''a'', ''b'', ''c'']"
    "gp_ValueType ex_team_definition = ''multi_select''" by code_simp+
  then have "\<forall>g \<in> set [ex_team_definition]. typed_defaults ex_property_lib g" by (simp add: typed_defaults_def)
  from admitted_values_typed [OF v(1) this vs] show ?thesis using v vs by (auto simp: list_all2_Cons1)
qed

definition ex_admission_webhooks :: "unit webhook_env" where
  "ex_admission_webhooks = \<lparr>we_sha = (\<lambda>s. s), we_preset = (\<lambda>n. Inl (PlainError [])), we_ignorePreset = (\<lambda>n. Inl (PlainError [])), we_secret = (\<lambda>ns n. Inr [(''k'', ns)]),
     we_repository = Inr (), we_template = (\<lambda>s. Inr (\<lambda>r. Inr s)), we_compile = (\<lambda>s. if s = ''('' then Inl (PlainError ''missing closing )'') else Inr (\<lambda>u. u = s)), we_crash = PlainError ''panic''\<rparr>"

definition ex_admission_hook :: webhook_spec where
  "ex_admission_hook = \<lparr>wh_PayloadURL = ''https://a/{{.Name}}'', wh_Secret = Some \<lparr>ws_Name = Some ''s'', ws_Key = Some ''k'', ws_Namespace = Some ''ns''\<rparr>, wh_SecretValue = None,
     wh_ContentType = ''json'', wh_Active = None, wh_Events = [], wh_SSLVerify = None\<rparr>"

definition ex_admission_repo :: repo_admission where
  "ex_admission_repo = \<lparr>ra_Name = ''r'', ra_Namespace = ''ns'', ra_OrganizationRef = ''org'', ra_WebhookIgnores = [Some ''x''], ra_Webhooks = [ex_admission_hook],
     ra_CustomProperties = [ex_cp_value]\<rparr>"

definition ex_admission_env :: "unit admission_env" where
  "ex_admission_env = \<lparr>ae_Get = (\<lambda>ns n. Inr ex_admission_org), ae_GetClient = (\<lambda>l i s. Inr ()), ae_GetAllCustomPropertiesForOrganization = (\<lambda>c l. Inr [Some ex_team_definition])\<rparr>"

lemma admitted_inline_presets_usable_witness:
  "validateRepository ex_admission_webhooks ex_admission_env ex_admission_repo = None \<and>
   (\<exists>res. collectWebhookIgnoreRegexes ex_admission_webhooks [] [Some ''x''] = Inr res) \<and>
   loadWebhookSecret ex_admission_webhooks ''ns'' (inline_candidate (0, ex_admission_hook)) = Inr (inline_candidate (0, SetSecretValue ''ns'' ex_admission_hook))"
proof -
  have v: "validateRepository ex_admission_webhooks ex_admission_env ex_admission_repo = None" by code_simp
  have r: "ra_WebhookIgnores ex_admission_repo = [Some ''x'']" "ra_Webhooks ex_admission_repo = [ex_admission_hook]" "ra_Namespace ex_admission_repo = ''ns''"
    by (simp_all add: ex_admission_repo_def)
  have s: "wh_Secret ex_admission_hook = Some \<lparr>ws_Name = Some ''s'', ws_Key = Some ''k'', ws_Namespace = Some ''ns''\<rparr>" by (simp add: ex_admission_hook_def)
  have e: "we_secret ex_admission_webhooks ''ns'' ''s'' = Inr [(''k'', ''ns'')]" by (simp add: ex_admission_webhooks_def)
  show ?thesis using admitted_inline_presets_usable [OF v] v s e unfolding r Let_def by simp
qed

end
