(* ===== verification/RulesetTypes.thy ===== *)
theory RulesetTypes
  imports Errors
begin

text \<open>
  The data of rulesets: \<^verbatim>\<open>api/v1alpha1/rulesetpreset_types.go\<close>, and what the packages that handle
  rulesets share. Records carry the field names of the structs with a prefix; an optional pointer is
  an option, an enum that may be unset is a string.
\<close>

record ref_name_condition =
  rn_Include :: "string list"
  rn_Exclude :: "string list"

record repository_name_condition =
  rp_Include :: "string list"
  rp_Exclude :: "string list"
  rp_Protected :: "bool option"

record repository_property_target =
  pt_Name :: string
  pt_PropertyValues :: "string list"
  pt_Source :: "string option"

record repository_property_condition =
  pc_Include :: "repository_property_target list"
  pc_Exclude :: "repository_property_target list"

record ruleset_conditions =
  cd_RefName :: "ref_name_condition option"
  cd_RepositoryName :: "repository_name_condition option"
  cd_RepositoryProperty :: "repository_property_condition option"

record ruleset_bypass_actor =
  ba_ActorID :: "int option"
  ba_ActorSlug :: "string option"
  ba_ActorType :: string
  ba_BypassMode :: string

record copilot_review_rule =
  cr_ReviewOnPush :: "bool option"
  cr_ReviewDraftPullRequests :: "bool option"

record rule_workflow =
  wf_Path :: string
  wf_RepositoryName :: string
  wf_Ref :: "string option"
  wf_ResolvedRepositoryID :: "int option"

record workflows_rule =
  wr_DoNotEnforceOnCreate :: "bool option"
  wr_Workflows :: "rule_workflow list"

record reviewer_entity =
  re_ID :: "int option"
  re_Slug :: "string option"
  re_Type :: string

record required_reviewer =
  rv_MinimumApprovals :: int
  rv_FilePatterns :: "string list"
  rv_Reviewer :: reviewer_entity

record pull_request_rule =
  pr_AllowedMergeMethods :: "string list"
  pr_DismissStaleReviewsOnPush :: "bool option"
  pr_RequireCodeOwnerReviews :: "bool option"
  pr_RequireLastPushApproval :: "bool option"
  pr_RequiredApprovingReviewCount :: int
  pr_RequiredReviewThreadResolution :: "bool option"
  pr_RequiredReviewers :: "required_reviewer list"

record status_check =
  ck_Context :: string
  ck_IntegrationID :: "int option"
  ck_AppSlug :: "string option"

record required_status_checks =
  sc_Checks :: "status_check list"
  sc_StrictPolicy :: "bool option"

record pattern_rule =
  pa_Pattern :: string
  pa_Operator :: string
  pa_Negate :: "bool option"

record ruleset_rules =
  ru_Creation :: "bool option"
  ru_Update :: "bool option"
  ru_Deletion :: "bool option"
  ru_RequiredLinearHistory :: "bool option"
  ru_RequiredSignatures :: "bool option"
  ru_PullRequest :: "pull_request_rule option"
  ru_RequiredStatusChecks :: "required_status_checks option"
  ru_NonFastForward :: "bool option"
  ru_CommitMessagePattern :: "pattern_rule option"
  ru_CommitAuthorEmailPattern :: "pattern_rule option"
  ru_CommitterEmailPattern :: "pattern_rule option"
  ru_BranchNamePattern :: "pattern_rule option"
  ru_TagNamePattern :: "pattern_rule option"
  ru_CopilotReview :: "copilot_review_rule option"
  ru_Workflows :: "workflows_rule option"

record ruleset_spec =
  rs_Name :: string
  rs_Extends :: string
  rs_Target :: string
  rs_Conditions :: "ruleset_conditions option"
  rs_Enforcement :: string
  rs_BypassActors :: "ruleset_bypass_actor list"
  rs_Rules :: ruleset_rules

text \<open>The zero value of \<^verbatim>\<open>RulesetRules\<close> and a spec with a given name.\<close>

definition no_rules :: ruleset_rules where
  "no_rules =
     \<lparr>ru_Creation = None, ru_Update = None, ru_Deletion = None, ru_RequiredLinearHistory = None,
      ru_RequiredSignatures = None, ru_PullRequest = None, ru_RequiredStatusChecks = None,
      ru_NonFastForward = None, ru_CommitMessagePattern = None, ru_CommitAuthorEmailPattern = None,
      ru_CommitterEmailPattern = None, ru_BranchNamePattern = None, ru_TagNamePattern = None,
      ru_CopilotReview = None, ru_Workflows = None\<rparr>"

definition bare_spec :: "string \<Rightarrow> string \<Rightarrow> string \<Rightarrow> ruleset_spec" where
  "bare_spec name extends enforcement =
     \<lparr>rs_Name = name, rs_Extends = extends, rs_Target = [], rs_Conditions = None,
      rs_Enforcement = enforcement, rs_BypassActors = [], rs_Rules = no_rules\<rparr>"

end
