(* ===== verification/ExtendsMerge.thy ===== *)
theory ExtendsMerge
  imports RulesetTypes
begin

text \<open>
  Merging a ruleset onto the one it extends:
  \<^verbatim>\<open>internal/reconciler/common/rulesets/extends_merge.go\<close>. Every merge function is shown to be
  associative (the locale \<open>assoc_merge\<close> and its interpretations), so the result of an extends chain
  does not depend on how the chain is grouped; keyed lists are described by what is found under a
  key.
\<close>

section \<open>Definitions\<close>

text \<open>\<^verbatim>\<open>inherit\<close> at the two kinds of types it is used at: pointers (zero is nil) and others.\<close>

definition inherit :: "'a \<Rightarrow> 'a \<Rightarrow> 'a \<Rightarrow> 'a" where
  "inherit zero parent child = (if child \<noteq> zero then child else parent)"

definition mergeObject :: "('a \<Rightarrow> 'a \<Rightarrow> 'a) \<Rightarrow> 'a option \<Rightarrow> 'a option \<Rightarrow> 'a option" where
  "mergeObject merge parent child =
     (case child of
        None \<Rightarrow> parent
      | Some c \<Rightarrow> (case parent of None \<Rightarrow> Some c | Some p \<Rightarrow> Some (merge p c)))"

text \<open>
  \<^verbatim>\<open>mergeKeyed\<close>: \<open>childByKey\<close> is built from the child entries; the two loops thread the set \<open>done\<close> of
  keys written so far.
\<close>

fun merge_parents ::
    "('a \<Rightarrow> string) \<Rightarrow> (string, 'a) gomap \<Rightarrow> (string, bool) gomap \<Rightarrow> 'a list \<Rightarrow> 'a list \<times> (string, bool) gomap" where
  "merge_parents key childByKey done [] = ([], done)"
| "merge_parents key childByKey done (e # es) =
     (let k = key e in
      case map_get childByKey k of
        None \<Rightarrow> (case merge_parents key childByKey done es of (out, d) \<Rightarrow> (e # out, d))
      | Some c \<Rightarrow>
          if map_get done k \<noteq> Some True
          then (case merge_parents key childByKey (map_put k True done) es of (out, d) \<Rightarrow> (c # out, d))
          else merge_parents key childByKey done es)"

fun append_children ::
    "('a \<Rightarrow> string) \<Rightarrow> (string, 'a) gomap \<Rightarrow> (string, bool) gomap \<Rightarrow> 'a list \<Rightarrow> 'a list" where
  "append_children key childByKey done [] = []"
| "append_children key childByKey done (e # es) =
     (let k = key e in
      if map_get done k \<noteq> Some True
      then (case map_get childByKey k of Some c \<Rightarrow> c | None \<Rightarrow> e) #
           append_children key childByKey (map_put k True done) es
      else append_children key childByKey done es)"

definition mergeKeyed :: "'a list \<Rightarrow> 'a list \<Rightarrow> ('a \<Rightarrow> string) \<Rightarrow> 'a list" where
  "mergeKeyed parent child key =
     (if length child = 0 then parent
      else
        (let childByKey = put_all key (\<lambda>e. e) child []
         in case merge_parents key childByKey [] parent of
              (out, done) \<Rightarrow> out @ append_children key childByKey done child))"

definition slugOrID :: "string option \<Rightarrow> int option \<Rightarrow> string" where
  "slugOrID slug ident =
     (case slug of
        Some s \<Rightarrow> ''slug:'' @ s
      | None \<Rightarrow> (case ident of Some i \<Rightarrow> ''id:'' @ FormatInt i | None \<Rightarrow> []))"

definition bypassActorKey :: "ruleset_bypass_actor \<Rightarrow> string" where
  "bypassActorKey a = ba_ActorType a @ ''/'' @ slugOrID (ba_ActorSlug a) (ba_ActorID a)"

definition statusCheckKey :: "status_check \<Rightarrow> string" where
  "statusCheckKey c = ck_Context c @ ''/'' @ slugOrID (ck_AppSlug c) (ck_IntegrationID c)"

definition requiredReviewerKey :: "required_reviewer \<Rightarrow> string" where
  "requiredReviewerKey r =
     re_Type (rv_Reviewer r) @ ''/'' @ slugOrID (re_Slug (rv_Reviewer r)) (re_ID (rv_Reviewer r))"

definition workflowKey :: "rule_workflow \<Rightarrow> string" where
  "workflowKey w = wf_RepositoryName w @ ''/'' @ wf_Path w"

definition mergeWorkflows :: "workflows_rule \<Rightarrow> workflows_rule \<Rightarrow> workflows_rule" where
  "mergeWorkflows parent child =
     \<lparr>wr_DoNotEnforceOnCreate = inherit None (wr_DoNotEnforceOnCreate parent) (wr_DoNotEnforceOnCreate child),
      wr_Workflows = mergeKeyed (wr_Workflows parent) (wr_Workflows child) workflowKey\<rparr>"

definition mergeCopilotReview :: "copilot_review_rule \<Rightarrow> copilot_review_rule \<Rightarrow> copilot_review_rule" where
  "mergeCopilotReview parent child =
     \<lparr>cr_ReviewOnPush = inherit None (cr_ReviewOnPush parent) (cr_ReviewOnPush child),
      cr_ReviewDraftPullRequests =
        inherit None (cr_ReviewDraftPullRequests parent) (cr_ReviewDraftPullRequests child)\<rparr>"

definition mergeStatusChecks :: "required_status_checks \<Rightarrow> required_status_checks \<Rightarrow> required_status_checks" where
  "mergeStatusChecks parent child =
     \<lparr>sc_Checks = mergeKeyed (sc_Checks parent) (sc_Checks child) statusCheckKey,
      sc_StrictPolicy = inherit None (sc_StrictPolicy parent) (sc_StrictPolicy child)\<rparr>"

definition mergePullRequest :: "pull_request_rule \<Rightarrow> pull_request_rule \<Rightarrow> pull_request_rule" where
  "mergePullRequest parent child =
     \<lparr>pr_AllowedMergeMethods =
        (if length (pr_AllowedMergeMethods child) > 0 then pr_AllowedMergeMethods child
         else pr_AllowedMergeMethods parent),
      pr_DismissStaleReviewsOnPush =
        inherit None (pr_DismissStaleReviewsOnPush parent) (pr_DismissStaleReviewsOnPush child),
      pr_RequireCodeOwnerReviews =
        inherit None (pr_RequireCodeOwnerReviews parent) (pr_RequireCodeOwnerReviews child),
      pr_RequireLastPushApproval =
        inherit None (pr_RequireLastPushApproval parent) (pr_RequireLastPushApproval child),
      pr_RequiredApprovingReviewCount =
        inherit 0 (pr_RequiredApprovingReviewCount parent) (pr_RequiredApprovingReviewCount child),
      pr_RequiredReviewThreadResolution =
        inherit None (pr_RequiredReviewThreadResolution parent) (pr_RequiredReviewThreadResolution child),
      pr_RequiredReviewers =
        mergeKeyed (pr_RequiredReviewers parent) (pr_RequiredReviewers child) requiredReviewerKey\<rparr>"

definition mergeRules :: "ruleset_rules \<Rightarrow> ruleset_rules \<Rightarrow> ruleset_rules" where
  "mergeRules parent child =
     \<lparr>ru_Creation = inherit None (ru_Creation parent) (ru_Creation child),
      ru_Update = inherit None (ru_Update parent) (ru_Update child),
      ru_Deletion = inherit None (ru_Deletion parent) (ru_Deletion child),
      ru_RequiredLinearHistory = inherit None (ru_RequiredLinearHistory parent) (ru_RequiredLinearHistory child),
      ru_RequiredSignatures = inherit None (ru_RequiredSignatures parent) (ru_RequiredSignatures child),
      ru_PullRequest = mergeObject mergePullRequest (ru_PullRequest parent) (ru_PullRequest child),
      ru_RequiredStatusChecks =
        mergeObject mergeStatusChecks (ru_RequiredStatusChecks parent) (ru_RequiredStatusChecks child),
      ru_NonFastForward = inherit None (ru_NonFastForward parent) (ru_NonFastForward child),
      ru_CommitMessagePattern = inherit None (ru_CommitMessagePattern parent) (ru_CommitMessagePattern child),
      ru_CommitAuthorEmailPattern =
        inherit None (ru_CommitAuthorEmailPattern parent) (ru_CommitAuthorEmailPattern child),
      ru_CommitterEmailPattern = inherit None (ru_CommitterEmailPattern parent) (ru_CommitterEmailPattern child),
      ru_BranchNamePattern = inherit None (ru_BranchNamePattern parent) (ru_BranchNamePattern child),
      ru_TagNamePattern = inherit None (ru_TagNamePattern parent) (ru_TagNamePattern child),
      ru_CopilotReview = mergeObject mergeCopilotReview (ru_CopilotReview parent) (ru_CopilotReview child),
      ru_Workflows = mergeObject mergeWorkflows (ru_Workflows parent) (ru_Workflows child)\<rparr>"

definition mergeSpec :: "ruleset_spec \<Rightarrow> ruleset_spec \<Rightarrow> ruleset_spec" where
  "mergeSpec parent child =
     \<lparr>rs_Name = rs_Name child,
      rs_Extends = rs_Extends child,
      rs_Target = inherit [] (rs_Target parent) (rs_Target child),
      rs_Conditions = inherit None (rs_Conditions parent) (rs_Conditions child),
      rs_Enforcement = inherit [] (rs_Enforcement parent) (rs_Enforcement child),
      rs_BypassActors = mergeKeyed (rs_BypassActors parent) (rs_BypassActors child) bypassActorKey,
      rs_Rules = mergeRules (rs_Rules parent) (rs_Rules child)\<rparr>"

section \<open>Keyed lists in closed form\<close>

text \<open>
  \<open>lst\<close> finds the last entry of a key, \<open>first_only K\<close> drops the later entries of the keys in \<open>K\<close>,
  \<open>fresh\<close> lists the keys outside a set in order of first occurrence, and \<open>override\<close> replaces an
  entry by the one a map has for its key.
\<close>

definition lst :: "('a \<Rightarrow> string) \<Rightarrow> 'a list \<Rightarrow> string \<Rightarrow> 'a option" where
  "lst key xs k = find (\<lambda>e. key e = k) (rev xs)"

fun first_only :: "('a \<Rightarrow> string) \<Rightarrow> string set \<Rightarrow> string set \<Rightarrow> 'a list \<Rightarrow> 'a list" where
  "first_only key K S [] = []"
| "first_only key K S (e # es) =
     (if key e \<in> K then
        (if key e \<in> S then first_only key K S es else e # first_only key K (insert (key e) S) es)
      else e # first_only key K S es)"

fun fresh :: "string set \<Rightarrow> string list \<Rightarrow> string list" where
  "fresh S [] = []"
| "fresh S (k # ks) = (if k \<in> S then fresh S ks else k # fresh (insert k S) ks)"

definition override :: "('a \<Rightarrow> string) \<Rightarrow> (string \<Rightarrow> 'a option) \<Rightarrow> 'a \<Rightarrow> 'a" where
  "override key M e = (case M (key e) of None \<Rightarrow> e | Some c \<Rightarrow> c)"

abbreviation keys :: "('a \<Rightarrow> string) \<Rightarrow> 'a list \<Rightarrow> string set" where
  "keys key xs \<equiv> key ` set xs"

lemma lst_simps [simp]:
  "lst key [] k = None"
  "lst key (xs @ ys) k = (case lst key ys k of None \<Rightarrow> lst key xs k | Some e \<Rightarrow> Some e)"
  "lst key [e] k = (if key e = k then Some e else None)"
  by (simp_all add: lst_def find_append split: option.splits)

lemma lst_SomeD: "lst key xs k = Some e \<Longrightarrow> e \<in> set xs \<and> key e = k"
  by (auto simp: lst_def find_Some_iff) (metis in_set_conv_nth length_rev set_rev)

lemma lst_None_iff: "lst key xs k = None \<longleftrightarrow> k \<notin> keys key xs"
  by (auto simp: lst_def find_None_iff)

lemma dom_lst: "dom (lst key xs) = keys key xs"
  by (rule set_eqI) (simp add: domIff lst_None_iff)

lemma map_of_put_all: "map_get (put_all key (\<lambda>e. e) c []) = lst key c"
  by (rule ext) (simp add: put_all_get lst_def split: option.split)

lemma lst_map:
  assumes "\<And>e. key (f e) = key e"
  shows "lst key (map f xs) k = map_option f (lst key xs k)"
  by (induction xs rule: rev_induct) (simp_all add: assms split: option.split)

lemma override_key: "key (override key (lst key c) e) = key e"
  by (auto simp: override_def split: option.splits dest: lst_SomeD)

lemma first_only_cong:
  "S \<inter> K = S' \<inter> K \<Longrightarrow> first_only key K S xs = first_only key K S' xs"
proof (induction xs arbitrary: S S')
  case (Cons e es)
  have "key e \<in> K \<Longrightarrow> key e \<in> S \<longleftrightarrow> key e \<in> S'" using Cons.prems by blast
  moreover have "insert (key e) S \<inter> K = insert (key e) S' \<inter> K" using Cons.prems by blast
  ultimately show ?case
    using Cons.IH [OF Cons.prems] Cons.IH [of "insert (key e) S" "insert (key e) S'"] by simp
qed simp

lemma first_only_map:
  assumes "\<And>e. key (f e) = key e"
  shows "first_only key K S (map f xs) = map f (first_only key K S xs)"
  by (induction xs arbitrary: S) (simp_all add: assms)

lemma first_only_twice:
  assumes "S \<inter> B = S1 \<inter> B" and "S \<inter> C = S2 \<inter> C"
  shows "first_only key C S2 (first_only key B S1 xs) = first_only key (B \<union> C) S xs"
  using assms
proof (induction xs arbitrary: S S1 S2)
  case (Cons e es)
  let ?k = "key e"
  have b: "?k \<in> B \<Longrightarrow> ?k \<in> S1 \<longleftrightarrow> ?k \<in> S" and c: "?k \<in> C \<Longrightarrow> ?k \<in> S2 \<longleftrightarrow> ?k \<in> S"
    using Cons.prems by blast+
  have i1: "insert ?k S \<inter> B = (if ?k \<in> B then insert ?k S1 else S1) \<inter> B"
    and i2: "insert ?k S \<inter> C = (if ?k \<in> C then insert ?k S2 else S2) \<inter> C"
    using Cons.prems by auto
  show ?case
    using Cons.IH [OF Cons.prems] Cons.IH [OF i1 i2] b c by auto
qed simp

lemma first_only_append:
  "first_only key K S (xs @ ys) = first_only key K S xs @ first_only key K (S \<union> (keys key xs \<inter> K)) ys"
proof (induction xs arbitrary: S)
  case (Cons e es)
  have "insert (key e) S \<union> (keys key es \<inter> K) = S \<union> (insert (key e) (keys key es) \<inter> K)" if "key e \<in> K"
    using that by auto
  then show ?case using Cons.IH by (auto simp: insert_absorb)
qed simp

lemma first_only_id:
  assumes "distinct (map key xs)" and "keys key xs \<inter> S = {}"
  shows "first_only key K S xs = xs"
  using assms by (induction xs arbitrary: S) auto

lemma keys_first_only_Un: "(S \<inter> K \<inter> keys key xs) \<union> keys key (first_only key K S xs) = keys key xs"
proof (induction xs arbitrary: S)
  case (Cons e es)
  show ?case
    using Cons.IH [of S] Cons.IH [of "insert (key e) S"] by (cases "key e \<in> K"; cases "key e \<in> S") auto
qed simp

lemma keys_first_only: "S \<inter> K = {} \<Longrightarrow> keys key (first_only key K S xs) = keys key xs"
  using keys_first_only_Un [of S K key xs] by simp

lemma lst_first_only:
  assumes "k \<notin> K"
  shows "lst key (first_only key K S xs) k = lst key xs k"
proof -
  have "filter (\<lambda>e. key e = k) (first_only key K S xs) = filter (\<lambda>e. key e = k) xs"
    using assms by (induction xs arbitrary: S) auto
  moreover have "lst key ys k = (if filter (\<lambda>e. key e = k) ys = [] then None
      else Some (last (filter (\<lambda>e. key e = k) ys)))" for ys
    by (induction ys rule: rev_induct) auto
  ultimately show ?thesis by simp
qed

lemma fresh_cong: "S \<inter> set ks = S' \<inter> set ks \<Longrightarrow> fresh S ks = fresh S' ks"
proof (induction ks arbitrary: S S')
  case (Cons k ks)
  have "k \<in> S \<longleftrightarrow> k \<in> S'" using Cons.prems by auto
  moreover have "S \<inter> set ks = S' \<inter> set ks" "insert k S \<inter> set ks = insert k S' \<inter> set ks"
    using Cons.prems by auto
  ultimately show ?case
    using Cons.IH [of S S'] Cons.IH [of "insert k S" "insert k S'"] by simp
qed simp

lemma set_fresh: "set (fresh S ks) = set ks - S"
  by (induction ks arbitrary: S) auto

lemma distinct_fresh: "distinct (fresh S ks)"
  by (induction ks arbitrary: S) (simp_all add: set_fresh)

lemma fresh_append: "fresh S (xs @ ys) = fresh S xs @ fresh (S \<union> set xs) ys"
proof (induction xs arbitrary: S)
  case (Cons k ks)
  then show ?case by (simp add: insert_absorb Un_insert_left)
qed simp

lemma fresh_fresh: "fresh S (fresh T ks) = fresh (S \<union> T) ks"
  by (induction ks arbitrary: S T) (auto simp: insert_absorb Un_insert_left Un_insert_right)

lemma fresh_first_only:
  "S0 \<inter> K \<subseteq> S \<Longrightarrow> fresh S (map key (first_only key K S0 xs)) = fresh S (map key xs)"
proof (induction xs arbitrary: S S0)
  case (Cons e es)
  have i: "S0 \<inter> K \<subseteq> insert (key e) S" "insert (key e) S0 \<inter> K \<subseteq> insert (key e) S"
    using Cons.prems by auto
  have "insert (key e) S0 \<inter> K \<subseteq> S" if "key e \<in> S" using Cons.prems that by auto
  then show ?case
    using Cons.IH [OF Cons.prems] Cons.IH [OF i(1)] Cons.IH [OF i(2)] Cons.IH [of "insert (key e) S0" S] Cons.prems
    by auto
qed simp

text \<open>The loops of \<^verbatim>\<open>mergeKeyed\<close> compute the closed form.\<close>

lemma merge_parents_closed:
  "merge_parents key cb D xs = (out, D') \<Longrightarrow>
     out = map (override key (map_get cb)) (first_only key (dom (map_get cb)) {k. map_get D k = Some True} xs) \<and>
     {k. map_get D' k = Some True} = {k. map_get D k = Some True} \<union> (keys key xs \<inter> dom (map_get cb))"
proof (induction xs arbitrary: D out D')
  case (Cons e es)
  have ins: "{k'. map_get (map_put (key e) True D) k' = Some True} = insert (key e) {k. map_get D k = Some True}"
    by auto
  show ?case
  proof (cases "map_get cb (key e)")
    case None
    then have "key e \<notin> dom (map_get cb)" by (simp add: domIff)
    with None show ?thesis
      using Cons.prems by (auto simp: override_def split: prod.splits dest!: Cons.IH)
  next
    case (Some c)
    then have d: "key e \<in> dom (map_get cb)" by blast
    show ?thesis
    proof (cases "map_get D (key e) = Some True")
      case True
      then show ?thesis using Cons.prems Some d by (auto dest!: Cons.IH)
    next
      case False
      then show ?thesis
        using Cons.prems Some d ins by (auto simp: override_def split: prod.splits dest!: Cons.IH)
    qed
  qed
qed simp

lemma append_children_closed:
  "keys key xs \<subseteq> dom (map_get cb) \<Longrightarrow>
   append_children key cb D xs = map (\<lambda>k. the (map_get cb k)) (fresh {k. map_get D k = Some True} (map key xs))"
proof (induction xs arbitrary: D)
  case (Cons e es)
  have ins: "{k'. map_get (map_put (key e) True D) k' = Some True} = insert (key e) {k. map_get D k = Some True}"
    by auto
  have "\<exists>c. map_get cb (key e) = Some c" using Cons.prems by auto
  then show ?case using Cons.IH Cons.prems ins by (auto simp: Let_def)
qed simp

lemma mergeKeyed_closed:
  "mergeKeyed p c key =
     map (override key (lst key c)) (first_only key (keys key c) {} p) @
     map (\<lambda>k. the (lst key c k)) (fresh (keys key p) (map key c))"
proof (cases "c = []")
  case True
  have "first_only key {} S p = p" for S by (induction p arbitrary: S) auto
  moreover have "override key (lst key []) = (\<lambda>e. e)" by (auto simp: override_def)
  ultimately show ?thesis using True by (simp add: mergeKeyed_def)
next
  case False
  let ?cb = "put_all key (\<lambda>e. e) c []"
  obtain out D where m: "merge_parents key ?cb [] p = (out, D)" by fastforce
  note mp = merge_parents_closed [OF m, unfolded map_of_put_all dom_lst]
  have "append_children key ?cb D c = map (\<lambda>k. the (lst key c k)) (fresh (keys key p \<inter> keys key c) (map key c))"
    using append_children_closed [of key c ?cb D] mp by (simp add: map_of_put_all dom_lst)
  also have "fresh (keys key p \<inter> keys key c) (map key c) = fresh (keys key p) (map key c)"
    by (rule fresh_cong) auto
  finally show ?thesis using False m mp by (simp add: mergeKeyed_def)
qed

lemma keys_mergeKeyed: "keys key (mergeKeyed p c key) = keys key p \<union> keys key c"
proof -
  have a: "keys key (map (override key (lst key c)) (first_only key (keys key c) {} p)) = keys key p"
    using keys_first_only [of "{}" "keys key c" key p] by (simp add: image_image override_key)
  have "key (the (lst key c k)) = k" if "k \<in> keys key c" for k
    using that lst_None_iff [of key c k] lst_SomeD [of key c k] by fastforce
  then have "keys key (map (\<lambda>k. the (lst key c k)) (fresh (keys key p) (map key c))) = keys key c - keys key p"
    by (auto simp: set_fresh image_image)
  with a show ?thesis by (simp add: mergeKeyed_closed image_Un)
qed

lemma key_the_lst: "k \<in> keys key c \<Longrightarrow> key (the (lst key c k)) = k"
  using lst_None_iff [of key c k] lst_SomeD [of key c k] by fastforce

lemma map_the_lst: "map key (map (\<lambda>k. the (lst key c k)) (fresh S (map key c))) = fresh S (map key c)"
proof -
  have "map (\<lambda>k. key (the (lst key c k))) (fresh S (map key c)) = fresh S (map key c)"
    by (rule map_idI) (simp add: key_the_lst set_fresh)
  then show ?thesis by (simp add: comp_def)
qed

lemma lst_mergeKeyed: "lst key (mergeKeyed b c key) = lst key b ++ lst key c"
proof
  fix k
  let ?X = "map (override key (lst key c)) (first_only key (keys key c) {} b)"
  let ?Z = "map (\<lambda>k. the (lst key c k)) (fresh (keys key b) (map key c))"
  have x: "lst key ?X k = map_option (override key (lst key c)) (lst key (first_only key (keys key c) {} b) k)"
    by (rule lst_map) (rule override_key)
  have split: "lst key (mergeKeyed b c key) k = (case lst key ?Z k of None \<Rightarrow> lst key ?X k | Some e \<Rightarrow> Some e)"
    unfolding mergeKeyed_closed by simp
  note zk = key_the_lst [of _ key c]
  have kz: "keys key ?Z = keys key c - keys key b"
    by (auto simp: set_fresh image_image zk)
  show "lst key (mergeKeyed b c key) k = (lst key b ++ lst key c) k"
  proof (cases "lst key c k")
    case None
    then have kc: "k \<notin> keys key c" by (simp add: lst_None_iff)
    then have "lst key ?Z k = None" unfolding lst_None_iff kz by simp
    moreover have "override key (lst key c) e = e" if "lst key b k = Some e" for e
      using None lst_SomeD [OF that] by (simp add: override_def)
    then have "lst key ?X k = lst key b k"
      using x lst_first_only [OF kc, of key "{}" b] by (cases "lst key b k") simp_all
    ultimately show ?thesis using split None by (simp add: map_add_def)
  next
    case (Some e)
    then have kc: "k \<in> keys key c" using lst_None_iff [of key c k] by auto
    show ?thesis
    proof (cases "k \<in> keys key b")
      case True
      then have "lst key ?Z k = None" unfolding lst_None_iff kz by simp
      moreover have "k \<in> keys key (first_only key (keys key c) {} b)"
        using True keys_first_only [of "{}" "keys key c" key b] by simp
      then obtain y where y: "lst key (first_only key (keys key c) {} b) k = Some y"
        by (metis lst_None_iff not_Some_eq)
      have "key y = k" using lst_SomeD [OF y] by simp
      then have "lst key ?X k = Some e" using x y Some by (simp add: override_def)
      ultimately show ?thesis using split Some by simp
    next
      case False
      then have "k \<in> keys key ?Z" unfolding kz using kc by simp
      then obtain y where y: "lst key ?Z k = Some y" by (metis lst_None_iff not_Some_eq)
      then have "y = e"
        using lst_SomeD [OF y] Some by (auto simp: set_fresh zk)
      then show ?thesis using split y Some by simp
    qed
  qed
qed

lemma entries_mergeKeyed:
  "filter (\<lambda>e. key e = k) (mergeKeyed p c key) =
     (case lst key c k of Some e \<Rightarrow> [e] | None \<Rightarrow> filter (\<lambda>e. key e = k) p)"
proof -
  let ?P = "\<lambda>e. key e = k"
  let ?X = "map (override key (lst key c)) (first_only key (keys key c) {} p)"
  let ?Z = "map (\<lambda>k. the (lst key c k)) (fresh (keys key p) (map key c))"
  note zk = key_the_lst [of _ key c]
  have first: "filter ?P (first_only key (keys key c) S p) =
      (if k \<in> keys key c then (if k \<in> S then [] else (case filter ?P p of [] \<Rightarrow> [] | y # ys \<Rightarrow> [y]))
       else filter ?P p)" for S
    by (induction p arbitrary: S) auto
  have fz: "filter ?P ?Z = (if k \<in> keys key c \<and> k \<notin> keys key p then [the (lst key c k)] else [])"
  proof -
    have "filter ?P ?Z = map (\<lambda>k. the (lst key c k)) (filter (\<lambda>k'. k' = k) (fresh (keys key p) (map key c)))"
    proof -
      have "\<forall>k' \<in> set (fresh (keys key p) (map key c)). key (the (lst key c k')) = k'"
        by (auto simp: set_fresh zk)
      then have "filter (\<lambda>k'. key (the (lst key c k')) = k) (fresh (keys key p) (map key c)) =
          filter (\<lambda>k'. k' = k) (fresh (keys key p) (map key c))"
        by (intro filter_cong) auto
      then show ?thesis by (simp add: filter_map comp_def)
    qed
    moreover have "filter (\<lambda>k'. k' = k) (fresh (keys key p) (map key c)) =
        (if k \<in> keys key c \<and> k \<notin> keys key p then [k] else [])"
    proof -
      have d: "distinct xs \<Longrightarrow> filter (\<lambda>k'. k' = k) xs = (if k \<in> set xs then [k] else [])" for xs
        by (induction xs) auto
      show ?thesis using d [OF distinct_fresh] by (simp add: set_fresh)
    qed
    ultimately show ?thesis by simp
  qed
  have fx: "filter ?P ?X = map (override key (lst key c)) (filter ?P (first_only key (keys key c) {} p))"
    by (simp add: filter_map comp_def override_key)
  show ?thesis
  proof (cases "lst key c k")
    case None
    then have kc: "k \<notin> keys key c" by (simp add: lst_None_iff)
    have "map (override key (lst key c)) (filter ?P p) = filter ?P p"
      using None by (intro map_idI) (auto simp: override_def)
    then show ?thesis using kc None by (simp add: mergeKeyed_closed fx first fz)
  next
    case (Some e)
    then have kc: "k \<in> keys key c" using lst_None_iff [of key c k] by auto
    show ?thesis
    proof (cases "k \<in> keys key p")
      case True
      then obtain y ys where "filter ?P p = y # ys" by (cases "filter ?P p") (auto simp: filter_empty_conv)
      moreover have "key y = k" using calculation by (metis (mono_tags, lifting) filter_eq_ConsD)
      ultimately show ?thesis using kc True Some by (simp add: mergeKeyed_closed fx first fz override_def)
    next
      case False
      then have "filter ?P p = []" by (auto simp: filter_empty_conv)
      then show ?thesis using kc False Some by (simp add: mergeKeyed_closed fx first fz)
    qed
  qed
qed

section \<open>Merging is associative\<close>

locale assoc_merge =
  fixes m :: "'a \<Rightarrow> 'a \<Rightarrow> 'a"
  assumes assoc: "m (m a b) c = m a (m b c)"
begin

text \<open>Merging a chain step by step is merging the first entry with the merged rest.\<close>

lemma foldl_merge: "foldl m (m a b) xs = m a (foldl m b xs)"
  by (induction xs arbitrary: b) (simp_all add: assoc)

lemma foldl_append: "foldl m a (xs @ y # ys) = m (foldl m a xs) (foldl m y ys)"
  by (simp add: foldl_merge)

end

lemma inherit_assoc: "inherit z (inherit z a b) c = inherit z a (inherit z b c)"
  by (simp add: inherit_def)

lemma mergeObject_assoc:
  assumes "\<And>a b c. m (m a b) c = m a (m b c)"
  shows "mergeObject m (mergeObject m a b) c = mergeObject m a (mergeObject m b c)"
  by (cases a; cases b; cases c) (simp_all add: mergeObject_def assms)

lemma mergeKeyed_assoc:
  "mergeKeyed (mergeKeyed a b key) c key = mergeKeyed a (mergeKeyed b c key) key"
proof -
  let ?B = "lst key b" and ?C = "lst key c"
  let ?ab = "mergeKeyed a b key" and ?bc = "mergeKeyed b c key"
  let ?X = "map (override key ?B) (first_only key (keys key b) {} a)"
  let ?Y = "map (\<lambda>k. the (?B k)) (fresh (keys key a) (map key b))"
  have bk: "k \<in> keys key b \<Longrightarrow> \<exists>e. ?B k = Some e \<and> key e = k" for k
    using lst_None_iff [of key b k] lst_SomeD [of key b k] by fastforce
  have ck: "k \<in> keys key c \<Longrightarrow> \<exists>e. ?C k = Some e \<and> key e = k" for k
    using lst_None_iff [of key c k] lst_SomeD [of key c k] by fastforce
  have yk: "map key ?Y = fresh (keys key a) (map key b)"
    by (rule map_the_lst)
  have kX: "keys key ?X = keys key a"
    using keys_first_only [of "{}" "keys key b" key a] by (simp add: image_image override_key)
  have kY: "keys key ?Y = keys key b - keys key a"
    using arg_cong [OF yk, of set] by (simp add: set_fresh image_image)
  have ov: "override key ?C (override key ?B e) = override key (?B ++ ?C) e" for e
    by (auto simp: override_def map_add_def split: option.splits dest: lst_SomeD)
  have firstY: "first_only key (keys key c) (keys key ?X \<inter> keys key c) ?Y = ?Y"
  proof (rule first_only_id)
    show "distinct (map key ?Y)" unfolding yk by (rule distinct_fresh)
    show "keys key ?Y \<inter> (keys key ?X \<inter> keys key c) = {}" unfolding kX kY by blast
  qed
  have first: "first_only key (keys key c) {} ?ab =
      map (override key ?B) (first_only key (keys key b \<union> keys key c) {} a) @ ?Y"
    unfolding mergeKeyed_closed [of a b] first_only_append
    using firstY by (simp add: first_only_map override_key first_only_twice [of "{}" _ "{}" _ "{}"])
  have Y: "map (override key ?C) ?Y = map (\<lambda>k. the ((?B ++ ?C) k)) (fresh (keys key a) (map key b))"
    using bk by (auto simp: override_def map_add_def set_fresh split: option.splits dest!: bk)
  have third: "map (\<lambda>k. the (?C k)) (fresh (keys key a \<union> keys key b) (map key c)) =
      map (\<lambda>k. the ((?B ++ ?C) k)) (fresh (keys key a \<union> keys key b) (map key c))"
    by (auto simp: set_fresh dest!: ck)
  have kbc: "fresh (keys key a) (map key ?bc) =
      fresh (keys key a) (map key b) @ fresh (keys key a \<union> keys key b) (map key c)"
  proof -
    have z: "map key (map (\<lambda>k. the (?C k)) (fresh (keys key b) (map key c))) = fresh (keys key b) (map key c)"
      by (rule map_the_lst)
    have "map key ?bc = map key (first_only key (keys key c) {} b) @ fresh (keys key b) (map key c)"
      unfolding mergeKeyed_closed [of b c] using z by (simp add: comp_def override_key)
    moreover have "keys key (first_only key (keys key c) {} b) = keys key b"
      by (rule keys_first_only) simp
    ultimately show ?thesis
      by (simp add: fresh_append fresh_first_only fresh_fresh Un_ac)
  qed
  show ?thesis
    unfolding mergeKeyed_closed [of ?ab c] mergeKeyed_closed [of a ?bc] first keys_mergeKeyed lst_mergeKeyed kbc
    using Y third by (simp add: ov)
qed

lemmas merge_assocs = inherit_assoc mergeKeyed_assoc

lemma mergeWorkflows_assoc: "mergeWorkflows (mergeWorkflows a b) c = mergeWorkflows a (mergeWorkflows b c)"
  by (simp add: mergeWorkflows_def merge_assocs)

lemma mergeCopilotReview_assoc:
  "mergeCopilotReview (mergeCopilotReview a b) c = mergeCopilotReview a (mergeCopilotReview b c)"
  by (simp add: mergeCopilotReview_def merge_assocs)

lemma mergeStatusChecks_assoc:
  "mergeStatusChecks (mergeStatusChecks a b) c = mergeStatusChecks a (mergeStatusChecks b c)"
  by (simp add: mergeStatusChecks_def merge_assocs)

lemma mergePullRequest_assoc:
  "mergePullRequest (mergePullRequest a b) c = mergePullRequest a (mergePullRequest b c)"
  by (simp add: mergePullRequest_def merge_assocs)

lemmas mergeObject_assocs =
  mergeObject_assoc [of mergePullRequest, OF mergePullRequest_assoc]
  mergeObject_assoc [of mergeStatusChecks, OF mergeStatusChecks_assoc]
  mergeObject_assoc [of mergeCopilotReview, OF mergeCopilotReview_assoc]
  mergeObject_assoc [of mergeWorkflows, OF mergeWorkflows_assoc]

lemma mergeRules_assoc: "mergeRules (mergeRules a b) c = mergeRules a (mergeRules b c)"
  by (simp add: mergeRules_def merge_assocs mergeObject_assocs)

lemma mergeSpec_assoc: "mergeSpec (mergeSpec a b) c = mergeSpec a (mergeSpec b c)"
  by (simp add: mergeSpec_def merge_assocs mergeRules_assoc)

interpretation rules_merge: assoc_merge mergeRules
  by unfold_locales (rule mergeRules_assoc)

interpretation spec_merge: assoc_merge mergeSpec
  by unfold_locales (rule mergeSpec_assoc)

interpretation keyed_merge: assoc_merge "\<lambda>a b. mergeKeyed a b key"
  by unfold_locales (rule mergeKeyed_assoc)

section \<open>Identifying keys\<close>

text \<open>
  Keys identify what they are made of. The slug and the number of an actor cannot be confused, and
  since a type never contains a slash the type and the rest of a key can be told apart.
\<close>

lemma slugOrID_inject:
  "slugOrID s i = slugOrID s' i' \<longleftrightarrow>
     s = s' \<and> (s = None \<longrightarrow> i = i')"
  by (auto simp: slugOrID_def split: option.splits)

lemma bypassActorKey_inject:
  assumes "CHR ''/'' \<notin> set (ba_ActorType a)" and "CHR ''/'' \<notin> set (ba_ActorType b)"
  shows "bypassActorKey a = bypassActorKey b \<longleftrightarrow>
           ba_ActorType a = ba_ActorType b \<and> ba_ActorSlug a = ba_ActorSlug b \<and>
           (ba_ActorSlug a = None \<longrightarrow> ba_ActorID a = ba_ActorID b)"
proof
  assume "bypassActorKey a = bypassActorKey b"
  then have "ba_ActorType a @ CHR ''/'' # slugOrID (ba_ActorSlug a) (ba_ActorID a) =
      ba_ActorType b @ CHR ''/'' # slugOrID (ba_ActorSlug b) (ba_ActorID b)"
    by (simp add: bypassActorKey_def)
  then have "ba_ActorType a = ba_ActorType b \<and>
      slugOrID (ba_ActorSlug a) (ba_ActorID a) = slugOrID (ba_ActorSlug b) (ba_ActorID b)"
    by (rule split_first_sep) (use assms in auto)
  then show "ba_ActorType a = ba_ActorType b \<and> ba_ActorSlug a = ba_ActorSlug b \<and>
      (ba_ActorSlug a = None \<longrightarrow> ba_ActorID a = ba_ActorID b)"
    by (simp add: slugOrID_inject)
next
  assume "ba_ActorType a = ba_ActorType b \<and> ba_ActorSlug a = ba_ActorSlug b \<and>
      (ba_ActorSlug a = None \<longrightarrow> ba_ActorID a = ba_ActorID b)"
  then show "bypassActorKey a = bypassActorKey b"
    by (auto simp: bypassActorKey_def slugOrID_def split: option.splits)
qed

section \<open>Properties\<close>

text \<open>Merging a keyed list: under a key the child defines, the result has exactly one entry, the
  child's last one; under every other key it has the parent's entries, unchanged and in order; and
  no key appears that neither of them has.\<close>

lemma keyed_merge_entries:
  "filter (\<lambda>e. key e = k) (mergeKeyed parent child key) =
     (case find (\<lambda>e. key e = k) (rev child) of
        Some e \<Rightarrow> [e]
      | None \<Rightarrow> filter (\<lambda>e. key e = k) parent) \<and>
   key ` set (mergeKeyed parent child key) = key ` set parent \<union> key ` set child"
  using entries_mergeKeyed [of key k parent child] keys_mergeKeyed [of key parent child]
  by (simp add: lst_def)


text \<open>What a ruleset inherits. Its name is its own; a target, an enforcement level or conditions
  it sets are its own and otherwise come from the parent; a rule it does not mention is the
  parent's; a bypass actor it lists replaces the parent's entry for the same actor, and all other
  bypass actors of the parent stay.\<close>

lemma merge_spec_inherits:
  "rs_Name (mergeSpec p c) = rs_Name c \<and>
   (rs_Target c \<noteq> [] \<longrightarrow> rs_Target (mergeSpec p c) = rs_Target c) \<and>
   (rs_Target c = [] \<longrightarrow> rs_Target (mergeSpec p c) = rs_Target p) \<and>
   (rs_Enforcement c \<noteq> [] \<longrightarrow> rs_Enforcement (mergeSpec p c) = rs_Enforcement c) \<and>
   (rs_Enforcement c = [] \<longrightarrow> rs_Enforcement (mergeSpec p c) = rs_Enforcement p) \<and>
   (rs_Conditions c = None \<longrightarrow> rs_Conditions (mergeSpec p c) = rs_Conditions p) \<and>
   (rs_Rules c = no_rules \<longrightarrow> rs_Rules (mergeSpec p c) = rs_Rules p) \<and>
   (\<forall>a \<in> set (rs_BypassActors p). (\<forall>b \<in> set (rs_BypassActors c). bypassActorKey b \<noteq> bypassActorKey a) \<longrightarrow>
      a \<in> set (rs_BypassActors (mergeSpec p c))) \<and>
   (\<forall>a \<in> set (rs_BypassActors (mergeSpec p c)). \<forall>b \<in> set (rs_BypassActors c).
      bypassActorKey a = bypassActorKey b \<longrightarrow> a \<in> set (rs_BypassActors c))"
proof -
  let ?m = "mergeKeyed (rs_BypassActors p) (rs_BypassActors c) bypassActorKey"
  have kept: "a \<in> set ?m"
    if "a \<in> set (rs_BypassActors p)" "\<forall>b \<in> set (rs_BypassActors c). bypassActorKey b \<noteq> bypassActorKey a" for a
  proof -
    have "lst bypassActorKey (rs_BypassActors c) (bypassActorKey a) = None"
      using that(2) by (auto simp: lst_None_iff)
    then have "a \<in> set (filter (\<lambda>e. bypassActorKey e = bypassActorKey a) ?m)"
      using that(1) by (simp add: entries_mergeKeyed)
    then show ?thesis by simp
  qed
  have own: "a \<in> set (rs_BypassActors c)"
    if h: "a \<in> set ?m" "b \<in> set (rs_BypassActors c)" "bypassActorKey a = bypassActorKey b" for a b
  proof -
    obtain e where e: "lst bypassActorKey (rs_BypassActors c) (bypassActorKey b) = Some e"
      using h(2) lst_None_iff [of bypassActorKey "rs_BypassActors c" "bypassActorKey b"] by fastforce
    have "a \<in> set (filter (\<lambda>x. bypassActorKey x = bypassActorKey b) ?m)" using h(1,3) by simp
    then have "a = e" by (simp add: entries_mergeKeyed e)
    then show ?thesis using lst_SomeD [OF e] by simp
  qed
  have rules: "mergeRules x no_rules = x" for x
    by (cases x) (simp add: mergeRules_def no_rules_def inherit_def mergeObject_def)
  show ?thesis
    using kept own by (auto simp: mergeSpec_def inherit_def rules)
qed

lemma merge_spec_inherits_witness:
  "rs_Enforcement (mergeSpec (bare_spec ''base'' [] ''active'') (bare_spec ''child'' ''base'' [])) = ''active'' \<and>
   rs_Name (mergeSpec (bare_spec ''base'' [] ''active'') (bare_spec ''child'' ''base'' [])) = ''child''"
  using merge_spec_inherits [of "bare_spec ''base'' [] ''active''" "bare_spec ''child'' ''base'' []"]
  by (simp add: bare_spec_def)

end
