(* ===== verification/Resolve.thy ===== *)
theory Resolve
  imports ExtendsMerge Dedupe
begin

text \<open>
  Resolving extends chains and collecting the desired rulesets:
  \<^verbatim>\<open>internal/reconciler/common/rulesets/resolve.go\<close> and \<^verbatim>\<open>collect.go\<close>. Reading a preset from the
  Kubernetes cache is an argument, a function of the number of reads made so far and the name, so the
  cluster may change between two reads. The walk along a chain is a \<open>function\<close> with a measure on the
  chain length.
\<close>

section \<open>Presets and the memo (resolve.go)\<close>

record ruleset_preset =
  rps_Name :: string
  rps_Generation :: int
  rps_Spec :: ruleset_spec

definition MaxExtendsDepth :: nat where
  "MaxExtendsDepth = 5"

definition DefaultTarget :: string where
  "DefaultTarget = ''branch''"

type_synonym preset_reader = "nat \<Rightarrow> string \<Rightarrow> (go_error, ruleset_preset) result"

record chain_resolver =
  cr_presets :: "(string, ruleset_preset) gomap"
  cr_reads :: nat

definition NewChainResolver :: chain_resolver where
  "NewChainResolver = \<lparr>cr_presets = [], cr_reads = 0\<rparr>"

definition GetPreset ::
    "preset_reader \<Rightarrow> string \<Rightarrow> chain_resolver \<Rightarrow> chain_resolver \<times> (go_error, ruleset_preset) result" where
  "GetPreset reader name r =
     (case map_get (cr_presets r) name of
        Some p \<Rightarrow> (r, Inr p)
      | None \<Rightarrow>
          (case reader (cr_reads r) name of
             Inl e \<Rightarrow> (r\<lparr>cr_reads := Suc (cr_reads r)\<rparr>, Inl e)
           | Inr p \<Rightarrow>
               (r\<lparr>cr_reads := Suc (cr_reads r), cr_presets := map_put name p (cr_presets r)\<rparr>, Inr p)))"

section \<open>Resolving a chain\<close>

text \<open>The failure of a chain: the names walked, the reason and the cause.\<close>

type_synonym chain_failure = "string list \<times> unresolved_reason \<times> go_error option"

text \<open>
  The loop of \<^verbatim>\<open>Resolve\<close>: \<open>seen\<close> the names met, \<open>chain\<close> the names walked, \<open>specs\<close> the specs collected,
  nearest first. The code compares the length with \<^verbatim>\<open>==\<close>; the chain starts empty and grows by one,
  so the bound is met before it could be passed.
\<close>

function resolve_loop ::
    "preset_reader \<Rightarrow> string \<Rightarrow> string list \<Rightarrow> string list \<Rightarrow> ruleset_spec list \<Rightarrow> chain_resolver \<Rightarrow>
     chain_resolver \<times> (chain_failure, string list \<times> ruleset_spec list) result" where
  "resolve_loop reader nxt seen chain specs r =
     (if nxt = [] then (r, Inr (chain, specs))
      else if List.member seen nxt then (r, Inl (chain @ [nxt], ReasonExtendsCycle, None))
      else if length chain \<ge> MaxExtendsDepth then
        (r, Inl (chain @ [nxt], ReasonExtendsTooDeep,
                 Some (PlainError (''at most '' @ FormatInt (int MaxExtendsDepth) @ '' levels are allowed''))))
      else
        (case GetPreset reader nxt r of
           (r', Inl err) \<Rightarrow>
             if IsNotFound err then (r', Inl (chain @ [nxt], ReasonParentNotFound, None))
             else (r', Inl (chain @ [nxt], ReasonParentUnavailable, Some err))
         | (r', Inr preset) \<Rightarrow>
             resolve_loop reader (rs_Extends (rps_Spec preset)) (nxt # seen) (chain @ [nxt])
               (specs @ [rps_Spec preset]) r'))"
  by pat_completeness auto
termination
  by (relation "measure (\<lambda>(reader, nxt, seen, chain, specs, r). MaxExtendsDepth - length chain)") auto

declare resolve_loop.simps [simp del]

text \<open>Merging the collected specs, root first.\<close>

definition merge_chain :: "ruleset_spec list \<Rightarrow> ruleset_spec" where
  "merge_chain specs = foldl mergeSpec (last specs) (rev (butlast specs))"

definition finish_spec :: "ruleset_spec \<Rightarrow> ruleset_spec" where
  "finish_spec s =
     s\<lparr>rs_Extends := [], rs_Target := (if rs_Target s = [] then DefaultTarget else rs_Target s)\<rparr>"

definition Resolve ::
    "preset_reader \<Rightarrow> ruleset_spec \<Rightarrow> string \<Rightarrow> chain_resolver \<Rightarrow>
     chain_resolver \<times> (go_error, ruleset_spec) result" where
  "Resolve reader spec self r =
     (case resolve_loop reader (rs_Extends spec) (if self \<noteq> [] then [self] else []) [] [spec] r of
        (r', Inl (chain, reason, err)) \<Rightarrow> (r', Inl (UnresolvedError (rs_Name spec) chain reason err))
      | (r', Inr (chain, specs)) \<Rightarrow>
          (let result = finish_spec (merge_chain specs)
           in if rs_Enforcement result = []
              then (r', Inl (UnresolvedError (rs_Name spec) chain ReasonNoEnforcement
                              (Some (PlainError ''no ruleset in the chain sets enforcement''))))
              else (r', Inr result)))"

text \<open>\<^verbatim>\<open>Ancestors\<close>: the same walk, but a missing preset, a cycle or the depth bound end it silently.\<close>

function ancestors_loop ::
    "preset_reader \<Rightarrow> string \<Rightarrow> string list \<Rightarrow> ruleset_preset list \<Rightarrow> chain_resolver \<Rightarrow>
     chain_resolver \<times> (go_error, ruleset_preset list) result" where
  "ancestors_loop reader nxt seen acc r =
     (if nxt \<noteq> [] \<and> \<not> List.member seen nxt \<and> length acc < MaxExtendsDepth then
        (case GetPreset reader nxt r of
           (r', Inl err) \<Rightarrow> if IsNotFound err then (r', Inr acc) else (r', Inl err)
         | (r', Inr preset) \<Rightarrow>
             ancestors_loop reader (rs_Extends (rps_Spec preset)) (nxt # seen) (acc @ [preset]) r')
      else (r, Inr acc))"
  by pat_completeness auto
termination
  by (relation "measure (\<lambda>(reader, nxt, seen, acc, r). MaxExtendsDepth - length acc)") auto

declare ancestors_loop.simps [simp del]

definition Ancestors ::
    "preset_reader \<Rightarrow> string \<Rightarrow> string \<Rightarrow> chain_resolver \<Rightarrow>
     chain_resolver \<times> (go_error, ruleset_preset list) result" where
  "Ancestors reader extends self r =
     ancestors_loop reader extends (if self \<noteq> [] then [self] else []) [] r"

section \<open>Collecting (collect.go)\<close>

record desired =
  ds_Source :: string
  ds_Spec :: ruleset_spec
  ds_Unresolved :: "go_error option"
  ds_raw :: ruleset_spec

definition PresetSource :: "string \<Rightarrow> string" where
  "PresetSource name = ''rulesetPreset/'' @ name"

text \<open>
  \<^verbatim>\<open>resolveDesired\<close>. \<^verbatim>\<open>Resolve\<close> only returns errors of type \<open>UnresolvedError\<close>; the wrapping of any other
  error is kept as in the code.
\<close>

definition resolveDesired ::
    "preset_reader \<Rightarrow> string \<Rightarrow> ruleset_spec \<Rightarrow> string \<Rightarrow> chain_resolver \<Rightarrow> chain_resolver \<times> desired" where
  "resolveDesired reader source spec self r =
     (case Resolve reader spec self r of
        (r', Inr resolved) \<Rightarrow>
          (r', \<lparr>ds_Source = source, ds_Spec = resolved, ds_Unresolved = None, ds_raw = spec\<rparr>)
      | (r', Inl err) \<Rightarrow>
          (let unresolved =
             (case errors_As (\<lambda>e. case e of UnresolvedError n c re x \<Rightarrow> Some e | _ \<Rightarrow> None) err of
                Some e \<Rightarrow> e
              | None \<Rightarrow> UnresolvedError (rs_Name spec) [] ReasonParentUnavailable (Some err))
           in (r', \<lparr>ds_Source = source, ds_Spec = spec, ds_Unresolved = Some unresolved, ds_raw = spec\<rparr>)))"

fun collect_presets ::
    "preset_reader \<Rightarrow> string list \<Rightarrow> chain_resolver \<Rightarrow> chain_resolver \<times> (go_error, desired list) result" where
  "collect_presets reader [] r = (r, Inr [])"
| "collect_presets reader (ref # refs) r =
     (case GetPreset reader ref r of
        (r1, Inl err) \<Rightarrow> (r1, Inl (WrapError (''failed to get ruleset preset '' @ ref) err))
      | (r1, Inr preset) \<Rightarrow>
          (case resolveDesired reader (PresetSource ref) (rps_Spec preset) ref r1 of
             (r2, d) \<Rightarrow>
               (case collect_presets reader refs r2 of
                  (r3, Inl err) \<Rightarrow> (r3, Inl err)
                | (r3, Inr ds) \<Rightarrow> (r3, Inr (d # ds)))))"

fun collect_inline ::
    "preset_reader \<Rightarrow> nat \<Rightarrow> ruleset_spec list \<Rightarrow> chain_resolver \<Rightarrow> chain_resolver \<times> desired list" where
  "collect_inline reader i [] r = (r, [])"
| "collect_inline reader i (spec # specs) r =
     (case resolveDesired reader (InlineSource i) spec [] r of
        (r1, d) \<Rightarrow>
          (case collect_inline reader (Suc i) specs r1 of (r2, ds) \<Rightarrow> (r2, d # ds)))"

text \<open>
  \<open>deepEq\<close> is \<^verbatim>\<open>equality.Semantic.DeepEqual\<close> of the Kubernetes library, which the code applies to two
  specs.
\<close>

definition desired_equal :: "(ruleset_spec \<Rightarrow> ruleset_spec \<Rightarrow> bool) \<Rightarrow> desired \<Rightarrow> desired \<Rightarrow> bool" where
  "desired_equal deepEq a b =
     (if ds_Unresolved a = None \<and> ds_Unresolved b = None then deepEq (ds_Spec a) (ds_Spec b)
      else deepEq (ds_raw a) (ds_raw b))"

definition desired_name :: "desired \<Rightarrow> string" where
  "desired_name d = rs_Name (ds_Spec d)"

definition markUnresolvedDuplicates :: "desired list \<Rightarrow> desired list \<Rightarrow> desired list" where
  "markUnresolvedDuplicates candidates result =
     (let unresolved = put_all desired_name (\<lambda>c. c) (filter (\<lambda>c. ds_Unresolved c \<noteq> None) candidates) []
      in map (\<lambda>d. case map_get unresolved (desired_name d) of
                    Some u \<Rightarrow>
                      if ds_Unresolved d = None
                      then d\<lparr>ds_Spec := ds_Spec u, ds_Unresolved := ds_Unresolved u\<rparr> else d
                  | None \<Rightarrow> d) result)"

definition Collect_rulesets ::
    "preset_reader \<Rightarrow> (ruleset_spec \<Rightarrow> ruleset_spec \<Rightarrow> bool) \<Rightarrow> string list \<Rightarrow> ruleset_spec list \<Rightarrow>
     (go_error, desired list) result" where
  "Collect_rulesets reader deepEq presetRefs inline =
     (case collect_presets reader presetRefs NewChainResolver of
        (r1, Inl err) \<Rightarrow> Inl err
      | (r1, Inr fromPresets) \<Rightarrow>
          (case collect_inline reader 0 inline r1 of
             (r2, fromInline) \<Rightarrow>
               (let candidates = fromPresets @ fromInline in
                case Dedupe candidates desired_name (desired_equal deepEq) ds_Source of
                  (result, conflicts) \<Rightarrow>
                    if conflicts \<noteq> []
                    then Inl (JoinError (map (\<lambda>c. ConflictError (Key c) (Sources c)) conflicts))
                    else Inr (markUnresolvedDuplicates candidates result))))"

section \<open>What a chain is\<close>

text \<open>
  \<open>extends_chain L n names specs\<close>: starting at \<open>n\<close>, the presets \<open>names\<close> of the cluster state \<open>L\<close>
  extend each other and the last one extends nothing; \<open>specs\<close> are their definitions.
\<close>

inductive extends_chain ::
    "(string \<Rightarrow> ruleset_preset option) \<Rightarrow> string \<Rightarrow> string list \<Rightarrow> ruleset_spec list \<Rightarrow> bool" for L where
  chain_end: "extends_chain L [] [] []"
| chain_step: "n \<noteq> [] \<Longrightarrow> L n = Some p \<Longrightarrow> extends_chain L (rs_Extends (rps_Spec p)) ns ss \<Longrightarrow>
    extends_chain L n (n # ns) (rps_Spec p # ss)"

inductive_cases extends_chain_NilE: "extends_chain L [] ns ss"
inductive_cases extends_chain_ConsE: "extends_chain L n (x # ns) ss"

lemma extends_chain_mono: "extends_chain L n ns ss \<Longrightarrow> L \<subseteq>\<^sub>m L' \<Longrightarrow> extends_chain L' n ns ss"
proof (induction rule: extends_chain.induct)
  case (chain_step n p ns ss)
  have "L' n = Some p" using chain_step.hyps(2) chain_step.prems by (metis domI map_le_def)
  then show ?case using chain_step by (intro extends_chain.chain_step) auto
qed (rule chain_end)

lemma extends_chain_det:
  "extends_chain L n ns ss \<Longrightarrow> extends_chain L n ns' ss' \<Longrightarrow> ns' = ns \<and> ss' = ss"
proof (induction arbitrary: ns' ss' rule: extends_chain.induct)
  case chain_end
  then show ?case by (auto elim: extends_chain.cases)
next
  case (chain_step n p ns ss)
  from chain_step.prems show ?case
  proof cases
    case chain_end
    then show ?thesis using chain_step.hyps by simp
  next
    case (chain_step p' ns'' ss'')
    then show ?thesis using \<open>L n = Some p\<close> local.chain_step chain_step.IH by auto
  qed
qed

section \<open>The memo only grows\<close>

lemma GetPreset_memo:
  assumes "GetPreset reader n r = (r', res)"
  shows "map_get (cr_presets r) \<subseteq>\<^sub>m map_get (cr_presets r')"
    and "res = Inr p \<Longrightarrow> map_get (cr_presets r') n = Some p"
  using assms by (auto simp: GetPreset_def map_le_def split: option.splits sum.splits)

lemma resolve_loop_memo:
  "resolve_loop reader nxt seen chain specs r = (r', res) \<Longrightarrow>
     map_get (cr_presets r) \<subseteq>\<^sub>m map_get (cr_presets r')"
proof (induction reader nxt seen chain specs r arbitrary: res rule: resolve_loop.induct)
  case (1 reader nxt seen chain specs r)
  obtain r1 g where g: "GetPreset reader nxt r = (r1, g)" by fastforce
  note m = GetPreset_memo(1) [OF g]
  show ?case
  proof (cases "nxt = [] \<or> List.member seen nxt \<or> length chain \<ge> MaxExtendsDepth")
    case True
    then show ?thesis using "1.prems" by (subst (asm) resolve_loop.simps) (auto split: if_splits)
  next
    case False
    show ?thesis
    proof (cases g)
      case (Inl e)
      then have "r' = r1" using "1.prems" False g by (subst (asm) resolve_loop.simps) (auto split: if_splits)
      then show ?thesis using m by simp
    next
      case (Inr p)
      have "resolve_loop reader (rs_Extends (rps_Spec p)) (nxt # seen) (chain @ [nxt]) (specs @ [rps_Spec p]) r1 = (r', res)"
        using "1.prems" False g Inr by (subst (asm) resolve_loop.simps) auto
      then have "map_get (cr_presets r1) \<subseteq>\<^sub>m map_get (cr_presets r')"
        by (intro "1.IH" [of r1 g p]) (use False g Inr in auto)
      then show ?thesis using m map_le_trans by blast
    qed
  qed
qed

lemma resolve_loop_sound:
  "resolve_loop reader nxt seen chain specs r = (r', Inr (chain', specs')) \<Longrightarrow>
     \<exists>ns ss. chain' = chain @ ns \<and> specs' = specs @ ss \<and>
       extends_chain (map_get (cr_presets r')) nxt ns ss \<and> set ns \<inter> set seen = {} \<and> distinct ns \<and>
       (ns = [] \<or> length chain' \<le> MaxExtendsDepth)"
proof (induction reader nxt seen chain specs r rule: resolve_loop.induct)
  case (1 reader nxt seen chain specs r)
  obtain r1 g where g: "GetPreset reader nxt r = (r1, g)" by fastforce
  show ?case
  proof (cases "nxt = []")
    case True
    then show ?thesis using "1.prems" by (subst (asm) resolve_loop.simps) (auto intro: chain_end)
  next
    case nonempty: False
    have cont: "\<not> List.member seen nxt" "length chain < MaxExtendsDepth"
      using "1.prems" nonempty by (subst (asm) resolve_loop.simps; auto split: if_splits)+
    obtain p where p: "g = Inr p"
      using "1.prems" nonempty cont g by (subst (asm) resolve_loop.simps) (cases g; auto split: if_splits)
    have rec: "resolve_loop reader (rs_Extends (rps_Spec p)) (nxt # seen) (chain @ [nxt]) (specs @ [rps_Spec p]) r1 =
        (r', Inr (chain', specs'))"
      using "1.prems" nonempty cont g p by (subst (asm) resolve_loop.simps) auto
    obtain ns ss where ih: "chain' = (chain @ [nxt]) @ ns" "specs' = (specs @ [rps_Spec p]) @ ss"
        "extends_chain (map_get (cr_presets r')) (rs_Extends (rps_Spec p)) ns ss"
        "set ns \<inter> set (nxt # seen) = {}" "distinct ns" "ns = [] \<or> length chain' \<le> MaxExtendsDepth"
      using "1.IH" [of r1 g p, OF nonempty cont(1) _ g [symmetric] p rec] cont(2) by auto
    have "map_get (cr_presets r') nxt = Some p"
      using GetPreset_memo(2) [OF g p] resolve_loop_memo [OF rec] by (metis domI map_le_def)
    then have "extends_chain (map_get (cr_presets r')) nxt (nxt # ns) (rps_Spec p # ss)"
      using nonempty ih(3) by (intro chain_step)
    moreover have "length chain' \<le> MaxExtendsDepth" using ih(1,6) cont(2) by auto
    ultimately show ?thesis
      using ih cont(1) by (intro exI [of _ "nxt # ns"] exI [of _ "rps_Spec p # ss"]) auto
  qed
qed

section \<open>A cluster that does not change\<close>

definition reads_from :: "(string \<Rightarrow> ruleset_preset option) \<Rightarrow> preset_reader \<Rightarrow> bool" where
  "reads_from L reader \<longleftrightarrow>
     (\<forall>k n. case L n of Some p \<Rightarrow> reader k n = Inr p | None \<Rightarrow> (\<exists>e. reader k n = Inl e \<and> IsNotFound e))"

lemma GetPreset_stable:
  assumes "reads_from L reader" and "map_get (cr_presets r) \<subseteq>\<^sub>m L"
  shows "L n = Some p \<Longrightarrow> \<exists>r'. GetPreset reader n r = (r', Inr p) \<and> map_get (cr_presets r') \<subseteq>\<^sub>m L"
    and "GetPreset reader n r = (r', Inr q) \<Longrightarrow> map_get (cr_presets r') \<subseteq>\<^sub>m L"
    and "GetPreset reader n r = (r', Inl e) \<Longrightarrow> L n = None \<and> IsNotFound e \<and> map_get (cr_presets r') \<subseteq>\<^sub>m L"
proof -
  have memo: "q = p'" if "map_get (cr_presets r) n = Some q" "L n = Some p'" for q p'
    using that assms(2) by (metis domI map_le_def option.inject)
  have memo': "L n = Some q" if "map_get (cr_presets r) n = Some q" for q
    using that assms(2) by (metis domI map_le_def)
  have read: "case L n of Some p \<Rightarrow> reader k n = Inr p | None \<Rightarrow> (\<exists>e. reader k n = Inl e \<and> IsNotFound e)" for k
    using assms(1) by (simp add: reads_from_def)
  have put: "map_get (map_put n p' (cr_presets r)) \<subseteq>\<^sub>m L" if "L n = Some p'" for p'
    using assms(2) that by (auto simp: map_le_def)
  show "\<exists>r'. GetPreset reader n r = (r', Inr p) \<and> map_get (cr_presets r') \<subseteq>\<^sub>m L" if "L n = Some p"
    using that memo read [of "cr_reads r"] put assms(2) by (auto simp: GetPreset_def split: option.splits)
  show "map_get (cr_presets r') \<subseteq>\<^sub>m L" if "GetPreset reader n r = (r', Inr q)"
    using that read [of "cr_reads r"] put assms(2) by (auto simp: GetPreset_def split: option.splits sum.splits)
  show "L n = None \<and> IsNotFound e \<and> map_get (cr_presets r') \<subseteq>\<^sub>m L" if "GetPreset reader n r = (r', Inl e)"
    using that read [of "cr_reads r"] assms(2) by (auto simp: GetPreset_def split: option.splits sum.splits)
qed

lemma resolve_loop_stable:
  "resolve_loop reader nxt seen chain specs r = (r', res) \<Longrightarrow> reads_from L reader \<Longrightarrow>
     map_get (cr_presets r) \<subseteq>\<^sub>m L \<Longrightarrow> map_get (cr_presets r') \<subseteq>\<^sub>m L"
proof (induction reader nxt seen chain specs r rule: resolve_loop.induct)
  case (1 reader nxt seen chain specs r)
  obtain r1 g where g: "GetPreset reader nxt r = (r1, g)" by fastforce
  show ?case
  proof (cases "nxt = [] \<or> List.member seen nxt \<or> length chain \<ge> MaxExtendsDepth")
    case True
    then show ?thesis using "1.prems" by (subst (asm) resolve_loop.simps) (auto split: if_splits)
  next
    case False
    show ?thesis
    proof (cases g)
      case (Inl e)
      then have "r' = r1" using "1.prems"(1) False g by (subst (asm) resolve_loop.simps) (auto split: if_splits)
      then show ?thesis using GetPreset_stable(3) [OF "1.prems"(2,3), of nxt] g Inl by blast
    next
      case (Inr p)
      have "resolve_loop reader (rs_Extends (rps_Spec p)) (nxt # seen) (chain @ [nxt]) (specs @ [rps_Spec p]) r1 = (r', res)"
        using "1.prems"(1) False g Inr by (subst (asm) resolve_loop.simps) auto
      moreover have "map_get (cr_presets r1) \<subseteq>\<^sub>m L"
        using GetPreset_stable(2) [OF "1.prems"(2,3), of nxt] g Inr by blast
      ultimately show ?thesis
        by (intro "1.IH" [of r1 g p]) (use False g Inr "1.prems"(2) in auto)
    qed
  qed
qed

lemma resolve_loop_complete:
  assumes "extends_chain L nxt ns ss" and "reads_from L reader" and "map_get (cr_presets r) \<subseteq>\<^sub>m L"
    and "set ns \<inter> set seen = {}" and "distinct ns" and "length chain + length ns \<le> MaxExtendsDepth"
  shows "\<exists>r'. resolve_loop reader nxt seen chain specs r = (r', Inr (chain @ ns, specs @ ss))"
  using assms
proof (induction arbitrary: seen chain specs r rule: extends_chain.induct)
  case chain_end
  then show ?case by (subst resolve_loop.simps) simp
next
  case (chain_step n p ns ss)
  obtain r1 where r1: "GetPreset reader n r = (r1, Inr p)" "map_get (cr_presets r1) \<subseteq>\<^sub>m L"
    using GetPreset_stable(1) [OF chain_step.prems(1,2) chain_step.hyps(2)] by blast
  obtain r' where "resolve_loop reader (rs_Extends (rps_Spec p)) (n # seen) (chain @ [n]) (specs @ [rps_Spec p]) r1 =
      (r', Inr ((chain @ [n]) @ ns, (specs @ [rps_Spec p]) @ ss))"
    using chain_step.IH [OF chain_step.prems(1) r1(2), of "n # seen" "chain @ [n]" "specs @ [rps_Spec p]"]
      chain_step.prems(3-5) by auto
  then show ?case
    using r1(1) chain_step.hyps(1) chain_step.prems(3,5) by (subst resolve_loop.simps) auto
qed

text \<open>A finite chain never meets the same preset twice.\<close>

lemma extends_chain_tail:
  "extends_chain L n ns ss \<Longrightarrow> m \<in> set ns \<Longrightarrow> \<exists>ns' ss'. extends_chain L m ns' ss' \<and> length ns' \<le> length ns"
proof (induction rule: extends_chain.induct)
  case (chain_step n p ns ss)
  then have "extends_chain L n (n # ns) (rps_Spec p # ss)" by (intro extends_chain.chain_step)
  then show ?case using chain_step by (cases "m = n") (force, force)
qed simp

lemma extends_chain_distinct: "extends_chain L n ns ss \<Longrightarrow> distinct ns"
proof (induction rule: extends_chain.induct)
  case (chain_step n p ns ss)
  have "n \<notin> set ns"
  proof
    assume "n \<in> set ns"
    then obtain ns' ss' where "extends_chain L n ns' ss'" "length ns' \<le> length ns"
      using extends_chain_tail [OF chain_step.hyps(3)] by blast
    moreover have "extends_chain L n (n # ns) (rps_Spec p # ss)"
      using chain_step.hyps by (intro extends_chain.chain_step)
    ultimately show False using extends_chain_det by fastforce
  qed
  then show ?case using chain_step.IH by simp
qed simp

section \<open>Resolve\<close>

lemma merge_chain_Cons: "ss \<noteq> [] \<Longrightarrow> merge_chain (spec # ss) = mergeSpec (merge_chain ss) spec"
  by (simp add: merge_chain_def)

lemma merge_chain_single [simp]: "merge_chain [spec] = spec"
  by (simp add: merge_chain_def)

lemma rs_Name_merge_chain: "rs_Name (merge_chain (spec # ss)) = rs_Name spec"
  by (cases "ss = []") (simp_all add: merge_chain_Cons mergeSpec_def)

lemma finish_spec_simps [simp]:
  "rs_Name (finish_spec s) = rs_Name s" "rs_Extends (finish_spec s) = []"
  "rs_Enforcement (finish_spec s) = rs_Enforcement s" "rs_Rules (finish_spec s) = rs_Rules s"
  "rs_BypassActors (finish_spec s) = rs_BypassActors s" "rs_Target (finish_spec s) \<noteq> []"
  by (simp_all add: finish_spec_def DefaultTarget_def)

lemma Resolve_sound:
  assumes "Resolve reader spec self r = (r', Inr res)"
  shows "\<exists>ns ss. extends_chain (map_get (cr_presets r')) (rs_Extends spec) ns ss \<and>
           length ns \<le> MaxExtendsDepth \<and> (self = [] \<or> self \<notin> set ns) \<and>
           res = finish_spec (merge_chain (spec # ss)) \<and> rs_Enforcement res \<noteq> []"
proof -
  let ?seen = "if self \<noteq> [] then [self] else []"
  obtain chain specs where l: "resolve_loop reader (rs_Extends spec) ?seen [] [spec] r = (r', Inr (chain, specs))"
      and res: "res = finish_spec (merge_chain specs)" "rs_Enforcement res \<noteq> []"
    using assms by (auto simp: Resolve_def Let_def split: prod.splits sum.splits if_splits)
  from resolve_loop_sound [OF l] show ?thesis using res by (fastforce split: if_splits)
qed

lemma Resolve_memo:
  assumes "Resolve reader spec self r = (r', res)"
  shows "map_get (cr_presets r) \<subseteq>\<^sub>m map_get (cr_presets r')"
proof -
  let ?seen = "if self \<noteq> [] then [self] else []"
  obtain l where "resolve_loop reader (rs_Extends spec) ?seen [] [spec] r = (r', l)"
    using assms by (auto simp: Resolve_def Let_def split: prod.splits sum.splits if_splits)
  then show ?thesis by (rule resolve_loop_memo)
qed

lemma Resolve_error:
  assumes "Resolve reader spec self r = (r', Inl e)"
  shows "\<exists>chain reason err. e = UnresolvedError (rs_Name spec) chain reason err"
  using assms by (auto simp: Resolve_def Let_def split: prod.splits sum.splits if_splits)

text \<open>C18: on an unchanging cluster a ruleset resolves exactly if the presets it extends all exist,
  are at most five, do not lead back to the ruleset itself, and the merged result has an
  enforcement level; the result is then the presets merged from the root down with the ruleset on
  top, with a target, and it extends nothing any more. A cycle is therefore always refused.\<close>

theorem resolve_iff:
  assumes "reads_from L reader" and "map_get (cr_presets r) \<subseteq>\<^sub>m L"
  shows "(\<exists>r'. Resolve reader spec self r = (r', Inr res)) \<longleftrightarrow>
           (\<exists>ns ss. extends_chain L (rs_Extends spec) ns ss \<and> length ns \<le> MaxExtendsDepth \<and>
              (self = [] \<or> self \<notin> set ns) \<and>
              res = finish_spec (merge_chain (spec # ss)) \<and> rs_Enforcement res \<noteq> [])"
    (is "?lhs \<longleftrightarrow> ?rhs")
proof
  assume ?lhs
  then obtain r' where r: "Resolve reader spec self r = (r', Inr res)" by blast
  let ?seen = "if self \<noteq> [] then [self] else []"
  obtain l where "resolve_loop reader (rs_Extends spec) ?seen [] [spec] r = (r', l)"
    using r by (auto simp: Resolve_def Let_def split: prod.splits sum.splits if_splits)
  then have "map_get (cr_presets r') \<subseteq>\<^sub>m L" using resolve_loop_stable assms by blast
  then show ?rhs using Resolve_sound [OF r] extends_chain_mono by blast
next
  assume ?rhs
  then obtain ns ss where c: "extends_chain L (rs_Extends spec) ns ss" "length ns \<le> MaxExtendsDepth"
      "self = [] \<or> self \<notin> set ns" "res = finish_spec (merge_chain (spec # ss))" "rs_Enforcement res \<noteq> []"
    by blast
  let ?seen = "if self \<noteq> [] then [self] else []"
  obtain r' where "resolve_loop reader (rs_Extends spec) ?seen [] [spec] r = (r', Inr (ns, spec # ss))"
    using resolve_loop_complete [OF c(1) assms, of ?seen "[]" "[spec]"] c(2,3) extends_chain_distinct [OF c(1)]
    by auto
  then show ?lhs using c(4,5) by (auto simp: Resolve_def Let_def)
qed

definition ex_presets :: "string \<Rightarrow> ruleset_preset option" where
  "ex_presets n =
     (if n = ''base'' then Some \<lparr>rps_Name = ''base'', rps_Generation = 1, rps_Spec = bare_spec ''Base'' [] ''active''\<rparr>
      else if n = ''mid'' then Some \<lparr>rps_Name = ''mid'', rps_Generation = 1, rps_Spec = bare_spec ''Mid'' ''base'' []\<rparr>
      else None)"

definition ex_reader :: preset_reader where
  "ex_reader k n = (case ex_presets n of Some p \<Rightarrow> Inr p | None \<Rightarrow> Inl (APIStatusError ''NotFound'' ''not found''))"

lemma ex_reader_reads: "reads_from ex_presets ex_reader"
  by (auto simp: reads_from_def ex_reader_def IsNotFound_def errors_As.simps is_api_status_def split: option.splits)

theorem resolve_iff_witness:
  "\<exists>r' res. Resolve ex_reader (bare_spec ''Mine'' ''mid'' []) [] NewChainResolver = (r', Inr res) \<and>
     rs_Name res = ''Mine'' \<and> rs_Enforcement res = ''active''"
proof -
  have c: "extends_chain ex_presets ''mid'' [''mid'', ''base''] [bare_spec ''Mid'' ''base'' [], bare_spec ''Base'' [] ''active'']"
  proof -
    let ?base = "\<lparr>rps_Name = ''base'', rps_Generation = 1, rps_Spec = bare_spec ''Base'' [] ''active''\<rparr>"
    let ?mid = "\<lparr>rps_Name = ''mid'', rps_Generation = 1, rps_Spec = bare_spec ''Mid'' ''base'' []\<rparr>"
    have "extends_chain ex_presets ''base'' [''base''] [rps_Spec ?base]"
      by (rule chain_step) (simp_all add: ex_presets_def bare_spec_def chain_end)
    then have "extends_chain ex_presets (rs_Extends (rps_Spec ?mid)) [''base''] [rps_Spec ?base]"
      by (simp add: bare_spec_def)
    then have "extends_chain ex_presets ''mid'' [''mid'', ''base''] [rps_Spec ?mid, rps_Spec ?base]"
      by (rule chain_step [rotated 2]) (simp_all add: ex_presets_def)
    then show ?thesis by simp
  qed
  define res where "res = finish_spec (merge_chain
    [bare_spec ''Mine'' ''mid'' [], bare_spec ''Mid'' ''base'' [], bare_spec ''Base'' [] ''active''])"
  have res: "rs_Name res = ''Mine''" "rs_Enforcement res = ''active''"
    by (simp_all add: res_def merge_chain_def mergeSpec_def bare_spec_def inherit_def)
  have "\<exists>r'. Resolve ex_reader (bare_spec ''Mine'' ''mid'' []) [] NewChainResolver = (r', Inr res)"
  proof (subst resolve_iff [OF ex_reader_reads])
    show "map_get (cr_presets NewChainResolver) \<subseteq>\<^sub>m ex_presets" by (simp add: NewChainResolver_def)
    show "\<exists>ns ss. extends_chain ex_presets (rs_Extends (bare_spec ''Mine'' ''mid'' [])) ns ss \<and>
        length ns \<le> MaxExtendsDepth \<and> ([] = [] \<or> [] \<notin> set ns) \<and>
        res = finish_spec (merge_chain (bare_spec ''Mine'' ''mid'' [] # ss)) \<and> rs_Enforcement res \<noteq> []"
      by (rule exI [of _ "[''mid'', ''base'']"],
          rule exI [of _ "[bare_spec ''Mid'' ''base'' [], bare_spec ''Base'' [] ''active'']"])
        (use c res in \<open>simp add: res_def MaxExtendsDepth_def bare_spec_def [of "''Mine''"]\<close>)
  qed
  with res show ?thesis by blast
qed

section \<open>Collect\<close>

text \<open>
  What is true of a candidate in a memo \<open>M\<close>: it keeps the name of its definition, and if it is
  resolved, its spec is the merged chain of presets as \<open>M\<close> has them.
\<close>

definition candidate_ok :: "(string \<Rightarrow> ruleset_preset option) \<Rightarrow> desired \<Rightarrow> bool" where
  "candidate_ok M d \<longleftrightarrow>
     rs_Name (ds_Spec d) = rs_Name (ds_raw d) \<and>
     (ds_Unresolved d = None \<longrightarrow>
        (\<exists>ns ss. extends_chain M (rs_Extends (ds_raw d)) ns ss \<and> length ns \<le> MaxExtendsDepth \<and>
           ds_Spec d = finish_spec (merge_chain (ds_raw d # ss)) \<and> rs_Enforcement (ds_Spec d) \<noteq> [])) \<and>
     (\<forall>e. ds_Unresolved d = Some e \<longrightarrow> (\<exists>n c re x. e = UnresolvedError n c re x))"

lemma candidate_ok_mono: "candidate_ok M d \<Longrightarrow> M \<subseteq>\<^sub>m M' \<Longrightarrow> candidate_ok M' d"
  unfolding candidate_ok_def using extends_chain_mono by blast

lemma resolveDesired_ok:
  assumes "resolveDesired reader source spec self r = (r', d)"
  shows "candidate_ok (map_get (cr_presets r')) d \<and> ds_Source d = source \<and> ds_raw d = spec \<and>
         map_get (cr_presets r) \<subseteq>\<^sub>m map_get (cr_presets r')"
proof -
  obtain res where res: "Resolve reader spec self r = (r', res)"
    using assms by (auto simp: resolveDesired_def Let_def split: prod.splits sum.splits)
  note memo = Resolve_memo [OF res]
  show ?thesis
  proof (cases res)
    case (Inl e)
    then obtain c re x where "e = UnresolvedError (rs_Name spec) c re x" using Resolve_error res by blast
    then show ?thesis
      using assms res Inl memo by (auto simp: resolveDesired_def Let_def candidate_ok_def errors_As.simps)
  next
    case (Inr s)
    then have d: "d = \<lparr>ds_Source = source, ds_Spec = s, ds_Unresolved = None, ds_raw = spec\<rparr>"
      using assms res by (simp add: resolveDesired_def)
    obtain ns ss where c: "extends_chain (map_get (cr_presets r')) (rs_Extends spec) ns ss"
        "length ns \<le> MaxExtendsDepth" "s = finish_spec (merge_chain (spec # ss))" "rs_Enforcement s \<noteq> []"
      using Resolve_sound res Inr by blast
    then show ?thesis
      using memo unfolding d candidate_ok_def by (auto simp: rs_Name_merge_chain)
  qed
qed

lemma collect_presets_ok:
  "collect_presets reader refs r = (r', Inr ds) \<Longrightarrow>
     map ds_Source ds = map PresetSource refs \<and>
     (\<forall>d \<in> set ds. candidate_ok (map_get (cr_presets r')) d) \<and>
     map_get (cr_presets r) \<subseteq>\<^sub>m map_get (cr_presets r')"
proof (induction refs arbitrary: r ds)
  case (Cons ref refs)
  obtain r1 p r2 d ds' where s: "GetPreset reader ref r = (r1, Inr p)"
      "resolveDesired reader (PresetSource ref) (rps_Spec p) ref r1 = (r2, d)"
      "collect_presets reader refs r2 = (r', Inr ds')" "ds = d # ds'"
    using Cons.prems by (auto split: prod.splits sum.splits)
  note ih = Cons.IH [OF s(3)]
  note d = resolveDesired_ok [OF s(2)]
  have "candidate_ok (map_get (cr_presets r')) d" using d ih candidate_ok_mono by blast
  moreover have "map_get (cr_presets r) \<subseteq>\<^sub>m map_get (cr_presets r')"
    using GetPreset_memo(1) [OF s(1)] d ih map_le_trans by blast
  ultimately show ?case using ih d s(4) by simp
qed simp

lemma collect_inline_ok:
  "collect_inline reader i specs r = (r', ds) \<Longrightarrow>
     map ds_Source ds = map InlineSource [i..<i + length specs] \<and> map ds_raw ds = specs \<and>
     (\<forall>d \<in> set ds. candidate_ok (map_get (cr_presets r')) d) \<and>
     map_get (cr_presets r) \<subseteq>\<^sub>m map_get (cr_presets r')"
proof (induction specs arbitrary: i r ds)
  case (Cons spec specs)
  obtain r1 d ds' where s: "resolveDesired reader (InlineSource i) spec [] r = (r1, d)"
      "collect_inline reader (Suc i) specs r1 = (r', ds')" "ds = d # ds'"
    using Cons.prems by (auto split: prod.splits)
  note ih = Cons.IH [OF s(2)]
  note d = resolveDesired_ok [OF s(1)]
  have "candidate_ok (map_get (cr_presets r')) d" using d ih candidate_ok_mono by blast
  moreover have "map_get (cr_presets r) \<subseteq>\<^sub>m map_get (cr_presets r')" using d ih map_le_trans by blast
  moreover have "[i..<i + length (spec # specs)] = i # [Suc i..<Suc i + length specs]"
    using upt_conv_Cons [of i "Suc i + length specs"] by (simp del: upt_Suc)
  ultimately show ?case using ih d s(3) by simp
qed simp

lemma mark_unresolved:
  assumes "d \<in> set (markUnresolvedDuplicates cands result)"
  shows "\<exists>x \<in> set result. desired_name x = desired_name d \<and>
           (d = x \<or> (\<exists>u \<in> set cands. ds_Unresolved u \<noteq> None \<and> desired_name u = desired_name d \<and>
              d = x\<lparr>ds_Spec := ds_Spec u, ds_Unresolved := ds_Unresolved u\<rparr>)) \<and>
           ((\<exists>u \<in> set cands. desired_name u = desired_name d \<and> ds_Unresolved u \<noteq> None) \<longrightarrow> ds_Unresolved d \<noteq> None)"
proof -
  let ?bad = "filter (\<lambda>c. ds_Unresolved c \<noteq> None) cands"
  let ?m = "map_get (put_all desired_name (\<lambda>c. c) ?bad [])"
  obtain x where x: "x \<in> set result" and d: "d = (case ?m (desired_name x) of
      Some u \<Rightarrow> if ds_Unresolved x = None then x\<lparr>ds_Spec := ds_Spec u, ds_Unresolved := ds_Unresolved u\<rparr> else x
    | None \<Rightarrow> x)"
    using assms by (auto simp: markUnresolvedDuplicates_def Let_def)
  show ?thesis
  proof (cases "?m (desired_name x)")
    case None
    then have nb: "desired_name x \<notin> desired_name ` set ?bad"
      unfolding map_of_put_all lst_None_iff .
    have good: "ds_Unresolved u = None" if "u \<in> set cands" "desired_name u = desired_name x" for u
    proof (rule ccontr)
      assume "ds_Unresolved u \<noteq> None"
      then have "u \<in> set ?bad" using that(1) by simp
      then have "desired_name u \<in> desired_name ` set ?bad" by (rule imageI)
      then show False using nb unfolding that(2) by (rule notE [rotated])
    qed
    have "d = x" using d None by simp
    then show ?thesis
      by (intro bexI [OF _ x] conjI disjI1 impI) (simp_all, use good in fastforce)
  next
    case (Some u)
    then have l: "lst desired_name ?bad (desired_name x) = Some u" unfolding map_of_put_all .
    have u: "u \<in> set ?bad" "desired_name u = desired_name x"
      by (rule lst_SomeD [OF l, THEN conjunct1], rule lst_SomeD [OF l, THEN conjunct2])
    have dv: "d = (if ds_Unresolved x = None
        then x\<lparr>ds_Spec := ds_Spec u, ds_Unresolved := ds_Unresolved u\<rparr> else x)" using d Some by simp
    have n: "desired_name d = desired_name x"
      using u(2) unfolding dv by (simp add: desired_name_def)
    have uc: "ds_Unresolved u \<noteq> None" "u \<in> set cands" using u(1) by simp_all
    have "d = x \<or> (\<exists>u \<in> set cands. ds_Unresolved u \<noteq> None \<and> desired_name u = desired_name d \<and>
        d = x\<lparr>ds_Spec := ds_Spec u, ds_Unresolved := ds_Unresolved u\<rparr>)"
      using uc u(2) n dv by (cases "ds_Unresolved x = None") (simp_all, blast)
    moreover have "ds_Unresolved d \<noteq> None" using uc(1) by (simp add: dv)
    ultimately show ?thesis using x n by (intro bexI [of _ x]) simp_all
  qed
qed



end
