(* ===== verification/PresetIndex.thy ===== *)
theory PresetIndex
  imports Resolve "HOL-Library.Char_ord" "HOL-Library.List_Lexorder"
begin

text \<open>
  Which organizations and repositories a change of a ruleset preset wakes up: \<^verbatim>\<open>controller/rulesetpreset_index.go\<close>. The lists by index come from the cache of
  the controller library and are arguments; what the library documents of them is the predicate \<open>serves_index\<close>. The walk down to the extending presets is compared with the walk
  up that resolves a ruleset (theory \<^verbatim>\<open>Resolve\<close>).
\<close>

section \<open>Data\<close>

text \<open>What an organization or repository has of rulesets.\<close>

record preset_user =
  pu_Name :: string
  pu_Namespace :: string
  pu_RulesetPresetList :: "string list"
  pu_Rulesets :: "ruleset_spec list"

text \<open>The lists by namespace and value of the index.\<close>

record index_reader =
  ix_presets :: "string \<Rightarrow> string \<Rightarrow> (go_error, ruleset_preset list) result"
  ix_organizations :: "string \<Rightarrow> string \<Rightarrow> (go_error, preset_user list) result"
  ix_repositories :: "string \<Rightarrow> string \<Rightarrow> (go_error, preset_user list) result"

section \<open>The index functions\<close>

definition indexRulesetPresetExtends :: "ruleset_preset \<Rightarrow> string list" where
  "indexRulesetPresetExtends p = (let e = rs_Extends (rps_Spec p) in if e = [] then [] else [e])"

definition referencedRulesetPresetNames :: "string list \<Rightarrow> ruleset_spec list \<Rightarrow> string list" where
  "referencedRulesetPresetNames refs inline = remdups_adj (sort (refs @ filter (\<lambda>e. e \<noteq> []) (map rs_Extends inline)))"

definition indexOrganizationRulesetPresets :: "preset_user \<Rightarrow> string list" where
  "indexOrganizationRulesetPresets u = referencedRulesetPresetNames (pu_RulesetPresetList u) (pu_Rulesets u)"

definition indexRepositoryRulesetPresets :: "preset_user \<Rightarrow> string list" where
  "indexRepositoryRulesetPresets u = referencedRulesetPresetNames (pu_RulesetPresetList u) (pu_Rulesets u)"

section \<open>The walk to the extending presets\<close>

text \<open>The keys of \<^verbatim>\<open>seen\<close> are the elements of \<open>names\<close>: the code extends both together.\<close>

definition add_child :: "ruleset_preset \<Rightarrow> string list \<times> string list \<Rightarrow> string list \<times> string list" where
  "add_child c st = (case st of (names, nxt) \<Rightarrow> if List.member names (rps_Name c) then st else (names @ [rps_Name c], nxt @ [rps_Name c]))"

text \<open>One level; the left case is the return on an error of a list.\<close>

fun level_loop :: "index_reader \<Rightarrow> string \<Rightarrow> string list \<Rightarrow> string list \<times> string list \<Rightarrow> (string list, string list \<times> string list) result" where
  "level_loop ix ns [] st = Inr st"
| "level_loop ix ns (parent # level) st =
     (case ix_presets ix ns parent of
        Inl e \<Rightarrow> Inl (fst st)
      | Inr children \<Rightarrow> level_loop ix ns level (fold add_child children st))"

fun descend :: "index_reader \<Rightarrow> string \<Rightarrow> nat \<Rightarrow> string list \<Rightarrow> string list \<Rightarrow> string list" where
  "descend ix ns 0 level names = names"
| "descend ix ns (Suc k) level names =
     (if level = [] then names
      else (case level_loop ix ns level (names, []) of
              Inl found \<Rightarrow> found
            | Inr (found, nxt) \<Rightarrow> descend ix ns k nxt found))"

definition presetWithDescendants :: "index_reader \<Rightarrow> string \<Rightarrow> string \<Rightarrow> string list" where
  "presetWithDescendants ix ns preset = descend ix ns MaxExtendsDepth [preset] [preset]"

section \<open>The requests\<close>

definition add_request :: "preset_user \<Rightarrow> (string \<times> string) list \<Rightarrow> (string \<times> string) list" where
  "add_request u reqs = (let key = (pu_Namespace u, pu_Name u) in if List.member reqs key then reqs else reqs @ [key])"

fun requests_loop :: "(string \<Rightarrow> (go_error, preset_user list) result) \<Rightarrow> string list \<Rightarrow> (string \<times> string) list \<Rightarrow> (string \<times> string) list" where
  "requests_loop users [] reqs = reqs"
| "requests_loop users (name # names) reqs =
     (case users name of
        Inl e \<Rightarrow> requests_loop users names reqs
      | Inr us \<Rightarrow> requests_loop users names (fold add_request us reqs))"

definition preset_requests ::
    "index_reader \<Rightarrow> (string \<Rightarrow> string \<Rightarrow> (go_error, preset_user list) result) \<Rightarrow> string \<Rightarrow> string \<Rightarrow> (string \<times> string) list" where
  "preset_requests ix users ns preset = requests_loop (users ns) (presetWithDescendants ix ns preset) []"

definition OrganizationRequests :: "index_reader \<Rightarrow> string \<Rightarrow> string \<Rightarrow> (string \<times> string) list" where
  "OrganizationRequests ix ns preset = preset_requests ix (ix_organizations ix) ns preset"

definition RepositoryRequests :: "index_reader \<Rightarrow> string \<Rightarrow> string \<Rightarrow> (string \<times> string) list" where
  "RepositoryRequests ix ns preset = preset_requests ix (ix_repositories ix) ns preset"

section \<open>What the walk finds\<close>

text \<open>\<open>extends_steps L k n m\<close>: from the preset \<open>n\<close> the preset \<open>m\<close> is reached by \<open>k\<close> steps up.\<close>

primrec extends_steps :: "(string \<Rightarrow> ruleset_preset option) \<Rightarrow> nat \<Rightarrow> string \<Rightarrow> string \<Rightarrow> bool" where
  "extends_steps L 0 n m \<longleftrightarrow> n = m"
| "extends_steps L (Suc k) n m \<longleftrightarrow>
     (\<exists>p. L n = Some p \<and> rs_Extends (rps_Spec p) \<noteq> [] \<and> extends_steps L k (rs_Extends (rps_Spec p)) m)"

definition extends_within :: "(string \<Rightarrow> ruleset_preset option) \<Rightarrow> nat \<Rightarrow> string \<Rightarrow> string \<Rightarrow> bool" where
  "extends_within L d n m \<longleftrightarrow> (\<exists>k \<le> d. extends_steps L k n m)"

definition children_of :: "(string \<Rightarrow> ruleset_preset option) \<Rightarrow> string \<Rightarrow> string set" where
  "children_of L m = {n. \<exists>p. L n = Some p \<and> rs_Extends (rps_Spec p) = m \<and> m \<noteq> []}"

lemma extends_steps_snoc: "extends_steps L (Suc k) n m \<longleftrightarrow> (\<exists>c \<in> children_of L m. extends_steps L k n c)"
proof (induction k arbitrary: n)
  case 0
  then show ?case by (auto simp: children_of_def)
next
  case (Suc k)
  have "extends_steps L (Suc (Suc k)) n m \<longleftrightarrow>
      (\<exists>p. L n = Some p \<and> rs_Extends (rps_Spec p) \<noteq> [] \<and> (\<exists>c \<in> children_of L m. extends_steps L k (rs_Extends (rps_Spec p)) c))"
    using Suc.IH by (subst extends_steps.simps(2)) blast
  then show ?case by auto
qed

text \<open>The documented behaviour of a cached list: the objects of the namespace for which the index function returns the value.\<close>

definition serves_presets :: "index_reader \<Rightarrow> string \<Rightarrow> (string \<Rightarrow> ruleset_preset option) \<Rightarrow> bool" where
  "serves_presets ix ns L \<longleftrightarrow>
     (\<forall>n p. L n = Some p \<longrightarrow> rps_Name p = n) \<and>
     (\<forall>v. \<exists>cs. ix_presets ix ns v = Inr cs \<and> set cs = {p. L (rps_Name p) = Some p \<and> v \<in> set (indexRulesetPresetExtends p)})"

definition serves_users :: "(string \<Rightarrow> string \<Rightarrow> (go_error, preset_user list) result) \<Rightarrow> (preset_user \<Rightarrow> string list) \<Rightarrow> string \<Rightarrow> preset_user set \<Rightarrow> bool" where
  "serves_users users idx ns us \<longleftrightarrow> (\<forall>v. \<exists>xs. users ns v = Inr xs \<and> set xs = {u \<in> us. pu_Namespace u = ns \<and> v \<in> set (idx u)})"

lemma in_index [simp]: "m \<in> set (indexRulesetPresetExtends p) \<longleftrightarrow> rs_Extends (rps_Spec p) = m \<and> m \<noteq> []"
  by (auto simp: indexRulesetPresetExtends_def Let_def)

lemma extends_within_mono: "extends_within L d n m \<Longrightarrow> d \<le> d' \<Longrightarrow> extends_within L d' n m"
  unfolding extends_within_def by (meson order_trans)

lemma served_children:
  assumes "serves_presets ix ns L"
  obtains cs where "ix_presets ix ns m = Inr cs" and "rps_Name ` set cs = children_of L m"
proof -
  obtain cs where cs: "ix_presets ix ns m = Inr cs" "set cs = {p. L (rps_Name p) = Some p \<and> m \<in> set (indexRulesetPresetExtends p)}"
    and names: "\<And>n p. L n = Some p \<Longrightarrow> rps_Name p = n"
    using assms unfolding serves_presets_def by blast
  have "children_of L m \<subseteq> rps_Name ` set cs"
  proof
    fix n
    assume "n \<in> children_of L m"
    then obtain p where "L n = Some p" "rs_Extends (rps_Spec p) = m" "m \<noteq> []" by (auto simp: children_of_def)
    then show "n \<in> rps_Name ` set cs" unfolding cs(2) using names by (intro image_eqI [of _ _ p]) simp_all
  qed
  moreover have "rps_Name ` set cs \<subseteq> children_of L m" using cs(2) by (auto simp: children_of_def)
  ultimately have "rps_Name ` set cs = children_of L m" by blast
  then show ?thesis using that cs(1) by blast
qed

lemma add_children:
  "fold add_child cs (names, nxt) = (names', nxt') \<Longrightarrow>
     set names' = set names \<union> rps_Name ` set cs \<and> set nxt' = set nxt \<union> (rps_Name ` set cs - set names) \<and> (distinct names \<longrightarrow> distinct names')"
  by (induction cs arbitrary: names nxt) (auto simp: add_child_def split: if_splits)

lemma level_children:
  assumes "serves_presets ix ns L"
  shows "\<exists>names' nxt'. level_loop ix ns level (names, nxt) = Inr (names', nxt') \<and>
    set names' = set names \<union> (\<Union>m \<in> set level. children_of L m) \<and> set nxt' = set nxt \<union> ((\<Union>m \<in> set level. children_of L m) - set names) \<and>
    (distinct names \<longrightarrow> distinct names')"
proof (induction level arbitrary: names nxt)
  case (Cons m level)
  obtain cs where cs: "ix_presets ix ns m = Inr cs" "rps_Name ` set cs = children_of L m" using served_children [OF assms] .
  obtain n1 x1 where f: "fold add_child cs (names, nxt) = (n1, x1)" by fastforce
  note a = add_children [OF f]
  from Cons.IH [of n1 x1] obtain n2 x2 where r: "level_loop ix ns level (n1, x1) = Inr (n2, x2)"
      "set n2 = set n1 \<union> (\<Union>m \<in> set level. children_of L m)" "set x2 = set x1 \<union> ((\<Union>m \<in> set level. children_of L m) - set n1)" "distinct n1 \<longrightarrow> distinct n2"
    by blast
  then show ?case using cs f a by (intro exI [of _ n2] exI [of _ x2]) auto
qed simp

text \<open>The loop over the levels: names outside the current level have all their children among the names already.\<close>

definition explored :: "(string \<Rightarrow> ruleset_preset option) \<Rightarrow> string list \<Rightarrow> string list \<Rightarrow> bool" where
  "explored L level names \<longleftrightarrow> set level \<subseteq> set names \<and> (\<forall>m \<in> set names - set level. children_of L m \<subseteq> set names)"

lemma explored_next:
  assumes "explored L level names" and "set names' = set names \<union> (\<Union>m \<in> set level. children_of L m)"
    and "set nxt = (\<Union>m \<in> set level. children_of L m) - set names"
  shows "explored L nxt names'" and "m \<in> set names \<Longrightarrow> children_of L m \<subseteq> set names'"
  using assms by (auto simp: explored_def)

lemma closed_steps: "\<forall>m \<in> X. children_of L m \<subseteq> X \<Longrightarrow> m \<in> X \<Longrightarrow> extends_steps L k n m \<Longrightarrow> n \<in> X"
proof (induction k arbitrary: m)
  case (Suc k)
  then show ?case using extends_steps_snoc by blast
qed simp

lemma descend_complete:
  assumes "serves_presets ix ns L" and "explored L level names" and "m \<in> set names" and "extends_steps L k n m" and "k \<le> d"
  shows "n \<in> set (descend ix ns d level names)"
  using assms(2-)
proof (induction d arbitrary: level names m k)
  case (Suc d)
  show ?case
  proof (cases "level = []")
    case True
    then show ?thesis using Suc.prems(2,3) closed_steps [of "set names" L m k n] Suc.prems(1) by (auto simp: explored_def)
  next
    case False
    obtain n1 x1 where l: "level_loop ix ns level (names, []) = Inr (n1, x1)" "set n1 = set names \<union> (\<Union>m \<in> set level. children_of L m)"
        "set x1 = (\<Union>m \<in> set level. children_of L m) - set names"
      using level_children [OF assms(1), of level names "[]"] by auto
    note e = explored_next [OF Suc.prems(1) l(2,3)]
    show ?thesis
    proof (cases k)
      case 0
      then have "m \<in> set n1" "extends_steps L 0 n m" using Suc.prems(2,3) l(2) by auto
      from Suc.IH [OF e(1) this] show ?thesis using False l(1) by simp
    next
      case (Suc j)
      then obtain c where "c \<in> children_of L m" "extends_steps L j n c" using Suc.prems(3) extends_steps_snoc by blast
      moreover from this have "c \<in> set n1" using e(2) Suc.prems(2) by blast
      ultimately show ?thesis using Suc.IH [OF e(1), of c j] False l(1) Suc.prems(4) Suc by simp
    qed
  qed
qed simp

lemma descend_sound:
  assumes "serves_presets ix ns L" and "n \<in> set (descend ix ns d level names)" and "set level \<subseteq> set names"
    and "\<forall>m \<in> set names. extends_within L j m preset"
  shows "extends_within L (j + d) n preset"
  using assms(2-)
proof (induction d arbitrary: level names j)
  case (Suc d)
  show ?case
  proof (cases "level = []")
    case True
    then have "n \<in> set names" using Suc.prems(1) by simp
    then show ?thesis using Suc.prems(3) extends_within_mono by fastforce
  next
    case False
    obtain n1 x1 where l: "level_loop ix ns level (names, []) = Inr (n1, x1)" "set n1 = set names \<union> (\<Union>m \<in> set level. children_of L m)"
        "set x1 = (\<Union>m \<in> set level. children_of L m) - set names"
      using level_children [OF assms(1), of level names "[]"] by auto
    have child: "extends_within L (Suc j) c preset" if c: "c \<in> children_of L m" and m: "m \<in> set level" for c m
    proof -
      obtain k where "k \<le> j" "extends_steps L k m preset" using m Suc.prems(2,3) by (auto simp: extends_within_def)
      moreover from this c have "extends_steps L (Suc k) c preset" by (auto simp: children_of_def)
      ultimately show ?thesis unfolding extends_within_def by (meson Suc_le_mono)
    qed
    have old: "extends_within L (Suc j) m preset" if "m \<in> set names" for m
      using that Suc.prems(3) extends_within_mono [of L j m preset "Suc j"] by simp
    have "n \<in> set (descend ix ns d x1 n1)" using Suc.prems(1) False l(1) by simp
    moreover have "set x1 \<subseteq> set n1" using l(2,3) by blast
    moreover have "\<forall>m \<in> set n1. extends_within L (Suc j) m preset" using l(2) child old by blast
    ultimately show ?thesis using Suc.IH [of x1 n1 "Suc j"] by simp
  qed
qed auto

lemma descendants_exact:
  assumes "serves_presets ix ns L"
  shows "set (presetWithDescendants ix ns preset) = {n. extends_within L MaxExtendsDepth n preset}"
proof (intro set_eqI iffI)
  fix n
  assume "n \<in> set (presetWithDescendants ix ns preset)"
  then show "n \<in> {n. extends_within L MaxExtendsDepth n preset}"
    using descend_sound [OF assms, of n MaxExtendsDepth "[preset]" "[preset]" 0 preset] by (simp add: presetWithDescendants_def extends_within_def)
next
  fix n
  assume "n \<in> {n. extends_within L MaxExtendsDepth n preset}"
  then obtain k where "k \<le> MaxExtendsDepth" "extends_steps L k n preset" by (auto simp: extends_within_def)
  then show "n \<in> set (presetWithDescendants ix ns preset)"
    using descend_complete [OF assms, of "[preset]" "[preset]" preset k n] by (simp add: presetWithDescendants_def explored_def)
qed

lemma add_requests:
  "set (fold add_request us reqs) = set reqs \<union> (\<lambda>u. (pu_Namespace u, pu_Name u)) ` set us \<and> (distinct reqs \<longrightarrow> distinct (fold add_request us reqs))"
  by (induction us arbitrary: reqs) (auto simp: add_request_def Let_def)

lemma requests_users:
  assumes "serves_users users idx ns us"
  shows "set (requests_loop (users ns) names reqs) =
      set reqs \<union> {(pu_Namespace u, pu_Name u) |u. u \<in> us \<and> pu_Namespace u = ns \<and> set (idx u) \<inter> set names \<noteq> {}} \<and>
    (distinct reqs \<longrightarrow> distinct (requests_loop (users ns) names reqs))"
proof (induction names arbitrary: reqs)
  case (Cons n names)
  obtain xs where xs: "users ns n = Inr xs" "set xs = {u \<in> us. pu_Namespace u = ns \<and> n \<in> set (idx u)}"
    using assms unfolding serves_users_def by blast
  note a = add_requests [of xs reqs]
  show ?case using Cons.IH [of "fold add_request xs reqs"] a xs by auto
qed simp

lemma index_names: "set (referencedRulesetPresetNames refs inline) = set refs \<union> {rs_Extends s |s. s \<in> set inline \<and> rs_Extends s \<noteq> []}"
  by (auto simp: referencedRulesetPresetNames_def)

text \<open>A resource is requested exactly if one of the presets it names is the changed one or extends it over at most five steps, and it is requested once.\<close>

lemma requests_exact:
  assumes "serves_presets ix ns L" and "serves_users users idx ns us"
  shows "set (preset_requests ix users ns preset) =
      {(pu_Namespace u, pu_Name u) |u. u \<in> us \<and> pu_Namespace u = ns \<and> (\<exists>n \<in> set (idx u). extends_within L MaxExtendsDepth n preset)}"
    and "distinct (preset_requests ix users ns preset)"
  using requests_users [OF assms(2), of "presetWithDescendants ix ns preset" "[]"] descendants_exact [OF assms(1)]
  by (auto simp: preset_requests_def)

section \<open>No relevant change is missed\<close>

text \<open>Two states of the cluster that differ in one preset: the readers agree on all others. A walk that does not come to that preset cannot tell them apart.\<close>

definition agree_but :: "string \<Rightarrow> preset_reader \<Rightarrow> preset_reader \<Rightarrow> bool" where
  "agree_but preset rd rd' \<longleftrightarrow> (\<forall>k n. n \<noteq> preset \<longrightarrow> rd k n = rd' k n)"

lemma get_agree: "agree_but preset rd rd' \<Longrightarrow> n \<noteq> preset \<Longrightarrow> GetPreset rd n r = GetPreset rd' n r"
  unfolding GetPreset_def agree_but_def by (simp split: option.split)

lemma read_preset:
  assumes "reads_from L rd'" and "map_get (cr_presets r) \<subseteq>\<^sub>m L" and "GetPreset rd' n r = (r1, Inr p)"
  shows "L n = Some p" and "map_get (cr_presets r1) \<subseteq>\<^sub>m L"
proof -
  show l: "map_get (cr_presets r1) \<subseteq>\<^sub>m L" using GetPreset_stable(2) [OF assms] .
  have "map_get (cr_presets r1) n = Some p" using GetPreset_memo(2) [OF assms(3)] by simp
  then show "L n = Some p" using l by (metis domI map_le_def)
qed

lemma resolve_loop_agree:
  "agree_but preset rd rd' \<Longrightarrow> reads_from L rd' \<Longrightarrow> map_get (cr_presets r) \<subseteq>\<^sub>m L \<Longrightarrow>
     \<forall>k. length chain + k < MaxExtendsDepth \<longrightarrow> \<not> extends_steps L k nxt preset \<Longrightarrow>
     resolve_loop rd nxt seen chain specs r = resolve_loop rd' nxt seen chain specs r"
proof (induction rd' nxt seen chain specs r rule: resolve_loop.induct)
  case (1 rd' nxt seen chain specs r)
  show ?case
  proof (cases "nxt = [] \<or> List.member seen nxt \<or> length chain \<ge> MaxExtendsDepth")
    case True
    then show ?thesis by (subst (1 2) resolve_loop.simps) auto
  next
    case False
    then have "\<not> extends_steps L 0 nxt preset" using "1.prems"(4) by (metis add.right_neutral not_le)
    then have ne: "nxt \<noteq> preset" by simp
    obtain r1 g where g: "GetPreset rd' nxt r = (r1, g)" by fastforce
    have g': "GetPreset rd nxt r = (r1, g)" using get_agree [OF "1.prems"(1) ne] g by simp
    show ?thesis
    proof (cases g)
      case (Inl e)
      then show ?thesis using g g' False by (subst (1 2) resolve_loop.simps) simp
    next
      case (Inr p)
      note p = read_preset [OF "1.prems"(2,3) g [unfolded Inr]]
      let ?e = "rs_Extends (rps_Spec p)"
      have rec: "resolve_loop rd ?e (nxt # seen) (chain @ [nxt]) (specs @ [rps_Spec p]) r1 = resolve_loop rd' ?e (nxt # seen) (chain @ [nxt]) (specs @ [rps_Spec p]) r1"
      proof (cases "?e = []")
        case True
        then show ?thesis by (subst (1 2) resolve_loop.simps) simp
      next
        case e: False
        have "\<not> extends_steps L k ?e preset" if "length (chain @ [nxt]) + k < MaxExtendsDepth" for k
          using "1.prems"(4) [rule_format, of "Suc k"] that p(1) e by auto
        then show ?thesis using "1.IH" [of r1 g p] False g Inr "1.prems"(1,2) p(2) by auto
      qed
      then show ?thesis using g g' False Inr by (subst (1 2) resolve_loop.simps) simp
    qed
  qed
qed

text \<open>The walk from a spec: nothing below the limit leads to the preset.\<close>

definition untouched :: "(string \<Rightarrow> ruleset_preset option) \<Rightarrow> string \<Rightarrow> ruleset_spec \<Rightarrow> bool" where
  "untouched L preset spec \<longleftrightarrow> rs_Extends spec = [] \<or> (\<forall>k < MaxExtendsDepth. \<not> extends_steps L k (rs_Extends spec) preset)"

lemma resolve_agree:
  assumes "agree_but preset rd rd'" and "reads_from L rd'" and "map_get (cr_presets r) \<subseteq>\<^sub>m L" and "untouched L preset spec"
  shows "Resolve rd spec self r = Resolve rd' spec self r" and "map_get (cr_presets (fst (Resolve rd' spec self r))) \<subseteq>\<^sub>m L"
proof -
  let ?seen = "if self \<noteq> [] then [self] else []"
  have "resolve_loop rd (rs_Extends spec) ?seen [] [spec] r = resolve_loop rd' (rs_Extends spec) ?seen [] [spec] r"
  proof (cases "rs_Extends spec = []")
    case True
    then show ?thesis by (subst (1 2) resolve_loop.simps) simp
  next
    case False
    then show ?thesis using assms(4) by (intro resolve_loop_agree [OF assms(1-3)]) (simp add: untouched_def)
  qed
  then show "Resolve rd spec self r = Resolve rd' spec self r" by (simp add: Resolve_def)
  obtain r1 l where l: "resolve_loop rd' (rs_Extends spec) ?seen [] [spec] r = (r1, l)" by fastforce
  then have "map_get (cr_presets r1) \<subseteq>\<^sub>m L" using resolve_loop_stable assms(2,3) by blast
  moreover have "fst (Resolve rd' spec self r) = r1" using l by (simp add: Resolve_def Let_def split: sum.split prod.split)
  ultimately show "map_get (cr_presets (fst (Resolve rd' spec self r))) \<subseteq>\<^sub>m L" by simp
qed

lemma desired_agree:
  assumes "agree_but preset rd rd'" and "reads_from L rd'" and "map_get (cr_presets r) \<subseteq>\<^sub>m L" and "untouched L preset spec"
  shows "resolveDesired rd source spec self r = resolveDesired rd' source spec self r"
    and "map_get (cr_presets (fst (resolveDesired rd' source spec self r))) \<subseteq>\<^sub>m L"
proof -
  obtain r1 x where x: "Resolve rd' spec self r = (r1, x)" by fastforce
  then have "fst (resolveDesired rd' source spec self r) = r1" by (simp add: resolveDesired_def Let_def split: sum.split)
  then show "map_get (cr_presets (fst (resolveDesired rd' source spec self r))) \<subseteq>\<^sub>m L" using resolve_agree(2) [OF assms, of self] x by simp
  show "resolveDesired rd source spec self r = resolveDesired rd' source spec self r" by (simp add: resolveDesired_def resolve_agree(1) [OF assms])
qed

lemma collect_inline_agree:
  assumes "agree_but preset rd rd'" and "reads_from L rd'"
  shows "map_get (cr_presets r) \<subseteq>\<^sub>m L \<Longrightarrow> list_all (untouched L preset) specs \<Longrightarrow> collect_inline rd i specs r = collect_inline rd' i specs r"
proof (induction specs arbitrary: i r)
  case (Cons s specs)
  obtain r1 d where d: "resolveDesired rd' (InlineSource i) s [] r = (r1, d)" by fastforce
  have u: "untouched L preset s" using Cons.prems(2) by simp
  note a = desired_agree [OF assms Cons.prems(1) u, of "InlineSource i" "[]"]
  have "collect_inline rd (Suc i) specs r1 = collect_inline rd' (Suc i) specs r1" using Cons.IH [of r1 "Suc i"] Cons.prems(2) a(2) d by simp
  then show ?case using a(1) d by simp
qed simp

text \<open>A referenced preset is read itself, so the walk may go one step further than that of an inline ruleset.\<close>

lemma collect_presets_agree:
  assumes "agree_but preset rd rd'" and "reads_from L rd'"
  shows "map_get (cr_presets r) \<subseteq>\<^sub>m L \<Longrightarrow> \<forall>ref \<in> set refs. \<not> extends_within L MaxExtendsDepth ref preset \<Longrightarrow>
    collect_presets rd refs r = collect_presets rd' refs r \<and> map_get (cr_presets (fst (collect_presets rd' refs r))) \<subseteq>\<^sub>m L"
proof (induction refs arbitrary: r)
  case (Cons ref refs)
  have away: "\<not> extends_steps L k ref preset" if "k \<le> MaxExtendsDepth" for k
    using Cons.prems(2) that by (auto simp: extends_within_def)
  have "ref \<noteq> preset" using away [of 0] by auto
  obtain r1 g where g: "GetPreset rd' ref r = (r1, g)" by fastforce
  then have g': "GetPreset rd ref r = (r1, g)" using get_agree [OF assms(1) \<open>ref \<noteq> preset\<close>] by simp
  show ?case
  proof (cases g)
    case (Inl e)
    then have "map_get (cr_presets r1) \<subseteq>\<^sub>m L" using GetPreset_stable(3) [OF assms(2) Cons.prems(1)] g by blast
    then show ?thesis using g g' Inl by simp
  next
    case (Inr p)
    note p = read_preset [OF assms(2) Cons.prems(1) g [unfolded Inr]]
    have "\<not> extends_steps L k (rs_Extends (rps_Spec p)) preset" if "k < MaxExtendsDepth" "rs_Extends (rps_Spec p) \<noteq> []" for k
      using away [of "Suc k"] that p(1) by auto
    then have u: "untouched L preset (rps_Spec p)" by (auto simp: untouched_def)
    obtain r2 d where d: "resolveDesired rd' (PresetSource ref) (rps_Spec p) ref r1 = (r2, d)" by fastforce
    note a = desired_agree [OF assms p(2) u, of "PresetSource ref" ref]
    have "collect_presets rd refs r2 = collect_presets rd' refs r2 \<and> map_get (cr_presets (fst (collect_presets rd' refs r2))) \<subseteq>\<^sub>m L"
      using Cons.IH [of r2] Cons.prems(2) a(2) d by simp
    then show ?thesis using g g' Inr a(1) d by (auto split: prod.splits sum.splits)
  qed
qed simp

lemma collect_agree:
  assumes "agree_but preset rd rd'" and "reads_from L rd'"
    and "\<forall>n \<in> set (referencedRulesetPresetNames refs inline). \<not> extends_within L MaxExtendsDepth n preset"
  shows "Collect_rulesets rd deepEq refs inline = Collect_rulesets rd' deepEq refs inline"
proof -
  have start: "map_get (cr_presets NewChainResolver) \<subseteq>\<^sub>m L" by (simp add: NewChainResolver_def map_le_def)
  have refs: "\<forall>ref \<in> set refs. \<not> extends_within L MaxExtendsDepth ref preset" using assms(3) by (auto simp: index_names)
  have "untouched L preset s" if "s \<in> set inline" for s
  proof (cases "rs_Extends s = []")
    case False
    then have "\<not> extends_within L MaxExtendsDepth (rs_Extends s) preset" using assms(3) that by (auto simp: index_names)
    then show ?thesis by (auto simp: untouched_def extends_within_def)
  qed (simp add: untouched_def)
  then have "list_all (untouched L preset) inline" by (simp add: list_all_iff)
  note p = collect_presets_agree [OF assms(1,2) start refs]
  obtain r1 x where x: "collect_presets rd' refs NewChainResolver = (r1, x)" by fastforce
  then have "map_get (cr_presets r1) \<subseteq>\<^sub>m L" using p by simp
  then have "collect_inline rd 0 inline r1 = collect_inline rd' 0 inline r1"
    using collect_inline_agree [OF assms(1,2)] \<open>list_all (untouched L preset) inline\<close> by blast
  then show ?thesis using x p by (simp add: Collect_rulesets_def split: sum.split)
qed

definition rulesets_for :: "preset_reader \<Rightarrow> (ruleset_spec \<Rightarrow> ruleset_spec \<Rightarrow> bool) \<Rightarrow> preset_user \<Rightarrow> (go_error, desired list) result" where
  "rulesets_for reader deepEq u = Collect_rulesets reader deepEq (pu_RulesetPresetList u) (pu_Rulesets u)"

lemma change_requested:
  assumes "serves_presets ix ns L" and "serves_users users idx ns us" and "\<forall>u. idx u = referencedRulesetPresetNames (pu_RulesetPresetList u) (pu_Rulesets u)"
    and "reads_from L reader" and "agree_but preset before reader" and "u \<in> us" and "pu_Namespace u = ns" and "rulesets_for before deepEq u \<noteq> rulesets_for reader deepEq u"
  shows "(ns, pu_Name u) \<in> set (preset_requests ix users ns preset)"
proof -
  have "\<exists>n \<in> set (idx u). extends_within L MaxExtendsDepth n preset"
    using collect_agree [OF assms(5,4), of "pu_RulesetPresetList u" "pu_Rulesets u" deepEq] assms(3,8) by (auto simp: rulesets_for_def)
  then show ?thesis using assms(6,7) unfolding requests_exact(1) [OF assms(1,2)] by blast
qed

text \<open>C20: no relevant change of a preset is missed. If a preset is created, changed or deleted, and thereby the rulesets that are collected for an organization or a repository change, whether
  to other rulesets or to or from an error, then the organization or repository is among the requests for that preset. Conversely a request is made only for resources that name the preset
  or one that extends it over at most five steps, once for each of them.\<close>

theorem preset_change_wakes_users:
  assumes "serves_presets ix ns L" and "serves_users (ix_organizations ix) indexOrganizationRulesetPresets ns orgs"
    and "serves_users (ix_repositories ix) indexRepositoryRulesetPresets ns repos"
    and "reads_from L reader" and "agree_but preset before reader"
  shows "(\<forall>u \<in> orgs. pu_Namespace u = ns \<and> rulesets_for before deepEq u \<noteq> rulesets_for reader deepEq u \<longrightarrow> (ns, pu_Name u) \<in> set (OrganizationRequests ix ns preset)) \<and>
    (\<forall>u \<in> repos. pu_Namespace u = ns \<and> rulesets_for before deepEq u \<noteq> rulesets_for reader deepEq u \<longrightarrow> (ns, pu_Name u) \<in> set (RepositoryRequests ix ns preset)) \<and>
    set (OrganizationRequests ix ns preset) =
      {(ns, pu_Name u) |u. u \<in> orgs \<and> pu_Namespace u = ns \<and> (\<exists>n \<in> set (indexOrganizationRulesetPresets u). extends_within L MaxExtendsDepth n preset)} \<and>
    set (RepositoryRequests ix ns preset) =
      {(ns, pu_Name u) |u. u \<in> repos \<and> pu_Namespace u = ns \<and> (\<exists>n \<in> set (indexRepositoryRulesetPresets u). extends_within L MaxExtendsDepth n preset)} \<and>
    distinct (OrganizationRequests ix ns preset) \<and> distinct (RepositoryRequests ix ns preset)"
proof (intro conjI ballI impI)
  note org = requests_exact [OF assms(1,2), of preset] and repo = requests_exact [OF assms(1,3), of preset]
  show "(ns, pu_Name u) \<in> set (OrganizationRequests ix ns preset)" if "u \<in> orgs" "pu_Namespace u = ns \<and> rulesets_for before deepEq u \<noteq> rulesets_for reader deepEq u" for u
    unfolding OrganizationRequests_def using that by (intro change_requested [OF assms(1,2) _ assms(4,5)]) (auto simp: indexOrganizationRulesetPresets_def)
  show "(ns, pu_Name u) \<in> set (RepositoryRequests ix ns preset)" if "u \<in> repos" "pu_Namespace u = ns \<and> rulesets_for before deepEq u \<noteq> rulesets_for reader deepEq u" for u
    unfolding RepositoryRequests_def using that by (intro change_requested [OF assms(1,3) _ assms(4,5)]) (auto simp: indexRepositoryRulesetPresets_def)
  show "set (OrganizationRequests ix ns preset) =
      {(ns, pu_Name u) |u. u \<in> orgs \<and> pu_Namespace u = ns \<and> (\<exists>n \<in> set (indexOrganizationRulesetPresets u). extends_within L MaxExtendsDepth n preset)}"
    unfolding OrganizationRequests_def org(1) by blast
  show "set (RepositoryRequests ix ns preset) =
      {(ns, pu_Name u) |u. u \<in> repos \<and> pu_Namespace u = ns \<and> (\<exists>n \<in> set (indexRepositoryRulesetPresets u). extends_within L MaxExtendsDepth n preset)}"
    unfolding RepositoryRequests_def repo(1) by blast
  show "distinct (OrganizationRequests ix ns preset)" "distinct (RepositoryRequests ix ns preset)"
    using org(2) repo(2) by (simp_all add: OrganizationRequests_def RepositoryRequests_def)
qed

text \<open>An example: a repository refers to the preset \<^verbatim>\<open>mid\<close>, which extends \<^verbatim>\<open>base\<close>; \<^verbatim>\<open>base\<close> is created.\<close>

definition ex_preset_list :: "ruleset_preset list" where
  "ex_preset_list = map (\<lambda>n. the (ex_presets n)) [''base'', ''mid'']"

definition ex_preset_user :: preset_user where
  "ex_preset_user = \<lparr>pu_Name = ''r'', pu_Namespace = ''n'', pu_RulesetPresetList = [''mid''], pu_Rulesets = []\<rparr>"

definition ex_index :: index_reader where
  "ex_index = \<lparr>ix_presets = \<lambda>ns v. Inr (filter (\<lambda>p. List.member (indexRulesetPresetExtends p) v) ex_preset_list), ix_organizations = \<lambda>ns v. Inr [],
     ix_repositories = \<lambda>ns v. Inr (filter (\<lambda>u. pu_Namespace u = ns \<and> List.member (indexRepositoryRulesetPresets u) v) [ex_preset_user])\<rparr>"

definition ex_before :: preset_reader where
  "ex_before k n = (if n = ''base'' then Inl (APIStatusError ''NotFound'' ''not found'') else ex_reader k n)"

lemma ex_presets_listed: "ex_presets (rps_Name p) = Some p \<longleftrightarrow> p \<in> set ex_preset_list"
  by (cases p) (auto simp: ex_presets_def ex_preset_list_def)

lemma ex_index_serves:
  "serves_presets ex_index ''n'' ex_presets"
  "serves_users (ix_repositories ex_index) indexRepositoryRulesetPresets ''n'' {ex_preset_user}"
proof -
  have "rps_Name p = n" if "ex_presets n = Some p" for n p using that by (auto simp: ex_presets_def split: if_splits)
  then show "serves_presets ex_index ''n'' ex_presets" unfolding serves_presets_def ex_presets_listed by (auto simp: ex_index_def)
  show "serves_users (ix_repositories ex_index) indexRepositoryRulesetPresets ''n'' {ex_preset_user}" by (auto simp: serves_users_def ex_index_def)
qed

theorem preset_change_wakes_users_witness:
  "rulesets_for ex_before (\<lambda>a b. a = b) ex_preset_user \<noteq> rulesets_for ex_reader (\<lambda>a b. a = b) ex_preset_user \<and>
   (''n'', ''r'') \<in> set (RepositoryRequests ex_index ''n'' ''base'')"
proof -
  have o: "serves_users (ix_organizations ex_index) indexOrganizationRulesetPresets ''n'' {}" by (simp add: serves_users_def ex_index_def)
  have a: "agree_but ''base'' ex_before ex_reader" by (simp add: agree_but_def ex_before_def)
  let ?open = "\<lambda>x. case x of Inl e \<Rightarrow> True | Inr ds \<Rightarrow> list_all (\<lambda>d. ds_Unresolved d = None) ds"
  have "\<not> ?open (rulesets_for ex_before (\<lambda>a b. a = b) ex_preset_user)" "?open (rulesets_for ex_reader (\<lambda>a b. a = b) ex_preset_user)" by code_simp+
  then have d: "rulesets_for ex_before (\<lambda>a b. a = b) ex_preset_user \<noteq> rulesets_for ex_reader (\<lambda>a b. a = b) ex_preset_user" by metis
  have "pu_Namespace ex_preset_user = ''n''" "pu_Name ex_preset_user = ''r''" by (simp_all add: ex_preset_user_def)
  then show ?thesis using preset_change_wakes_users [OF ex_index_serves(1) o ex_index_serves(2) ex_reader_reads a, of "\<lambda>a b. a = b"] d by auto
qed

end
