(* ===== verification/RulesetMapper.thy ===== *)
theory RulesetMapper
  imports ExtendsMerge
begin

text \<open>
  Mapping a ruleset spec to GitHub and comparing it with what GitHub has:
  \<^verbatim>\<open>internal/mapper/github_ruleset_mapper.go\<close>. The first section declares the structs of the
  go-github library that the code fills and reads, with the fields it uses; a slice of pointers is a
  list of structs, because the decoder of the library puts no nil pointers into them. A nil slice and an
  empty one are the same list. The comparison is related to an abstract view of a ruleset: sets instead
  of lists, defaults filled in. It reports a difference exactly if the views differ.
\<close>

section \<open>The rulesets of the GitHub library\<close>

record gh_ref_condition =
  gr_Include :: "string list"
  gr_Exclude :: "string list"

record gh_names_condition =
  gn_Include :: "string list"
  gn_Exclude :: "string list"
  gn_Protected :: "bool option"

record gh_property_target =
  gt_Name :: string
  gt_PropertyValues :: "string list"
  gt_Source :: "string option"

record gh_property_condition =
  gp_Include :: "gh_property_target list"
  gp_Exclude :: "gh_property_target list"

record gh_conditions =
  gc_RefName :: "gh_ref_condition option"
  gc_RepositoryName :: "gh_names_condition option"
  gc_RepositoryProperty :: "gh_property_condition option"

record gh_bypass_actor =
  gb_ActorID :: "int option"
  gb_ActorType :: "string option"
  gb_BypassMode :: "string option"

record gh_reviewer =
  gv_ID :: "int option"
  gv_Type :: "string option"

record gh_required_reviewer =
  gq_MinimumApprovals :: "int option"
  gq_FilePatterns :: "string list"
  gq_Reviewer :: "gh_reviewer option"

record gh_pull_request =
  gl_AllowedMergeMethods :: "string list"
  gl_DismissStaleReviewsOnPush :: bool
  gl_RequireCodeOwnerReview :: bool
  gl_RequireLastPushApproval :: bool
  gl_RequiredApprovingReviewCount :: int
  gl_RequiredReviewThreadResolution :: bool
  gl_RequiredReviewers :: "gh_required_reviewer list"

record gh_status_check =
  gk_Context :: string
  gk_IntegrationID :: "int option"

record gh_status_checks =
  gx_RequiredStatusChecks :: "gh_status_check list"
  gx_StrictRequiredStatusChecksPolicy :: bool

record gh_copilot_review =
  go_ReviewOnPush :: bool
  go_ReviewDraftPullRequests :: bool

record gh_workflow =
  gw_Path :: string
  gw_RepositoryID :: "int option"
  gw_Ref :: "string option"

record gh_workflows =
  gf_DoNotEnforceOnCreate :: "bool option"
  gf_Workflows :: "gh_workflow list"

record gh_pattern =
  ga_Pattern :: string
  ga_Operator :: string
  ga_Negate :: "bool option"

text \<open>The one field of \<^verbatim>\<open>UpdateRuleParameters\<close> is the value kept for \<open>gu_Update\<close>.\<close>

record gh_rules =
  gu_Creation :: "unit option"
  gu_Update :: "bool option"
  gu_Deletion :: "unit option"
  gu_RequiredLinearHistory :: "unit option"
  gu_NonFastForward :: "unit option"
  gu_RequiredSignatures :: "unit option"
  gu_PullRequest :: "gh_pull_request option"
  gu_RequiredStatusChecks :: "gh_status_checks option"
  gu_CopilotCodeReview :: "gh_copilot_review option"
  gu_Workflows :: "gh_workflows option"
  gu_CommitMessagePattern :: "gh_pattern option"
  gu_CommitAuthorEmailPattern :: "gh_pattern option"
  gu_CommitterEmailPattern :: "gh_pattern option"
  gu_BranchNamePattern :: "gh_pattern option"
  gu_TagNamePattern :: "gh_pattern option"

record gh_ruleset =
  gs_ID :: "int option"
  gs_Name :: string
  gs_Target :: "string option"
  gs_Enforcement :: string
  gs_BypassActors :: "gh_bypass_actor list"
  gs_Conditions :: "gh_conditions option"
  gs_Rules :: "gh_rules option"

section \<open>From the spec to GitHub\<close>

definition mapRepositoryPropertyTargets :: "repository_property_target list \<Rightarrow> gh_property_target list" where
  "mapRepositoryPropertyTargets targets =
     map (\<lambda>t. \<lparr>gt_Name = pt_Name t, gt_PropertyValues = pt_PropertyValues t, gt_Source = pt_Source t\<rparr>) targets"

definition mapConditions :: "ruleset_conditions option \<Rightarrow> gh_conditions option" where
  "mapConditions conditions =
     (case conditions of
        None \<Rightarrow> None
      | Some c \<Rightarrow>
          Some \<lparr>gc_RefName =
                  (case cd_RefName c of
                     None \<Rightarrow> None
                   | Some r \<Rightarrow> Some \<lparr>gr_Include = rn_Include r, gr_Exclude = rn_Exclude r\<rparr>),
                gc_RepositoryName =
                  (case cd_RepositoryName c of
                     None \<Rightarrow> None
                   | Some r \<Rightarrow> Some \<lparr>gn_Include = rp_Include r, gn_Exclude = rp_Exclude r,
                       gn_Protected = rp_Protected r\<rparr>),
                gc_RepositoryProperty =
                  (case cd_RepositoryName c of
                     Some _ \<Rightarrow> None
                   | None \<Rightarrow>
                       (case cd_RepositoryProperty c of
                          None \<Rightarrow> None
                        | Some p \<Rightarrow> Some \<lparr>gp_Include = mapRepositoryPropertyTargets (pc_Include p),
                            gp_Exclude = mapRepositoryPropertyTargets (pc_Exclude p)\<rparr>))\<rparr>)"

definition mapRequiredReviewers :: "required_reviewer list \<Rightarrow> gh_required_reviewer list" where
  "mapRequiredReviewers reviewers =
     map (\<lambda>r. \<lparr>gq_MinimumApprovals = Some (rv_MinimumApprovals r), gq_FilePatterns = rv_FilePatterns r,
                gq_Reviewer = Some \<lparr>gv_ID = re_ID (rv_Reviewer r), gv_Type = Some (re_Type (rv_Reviewer r))\<rparr>\<rparr>)
       reviewers"

definition mapMergeMethods :: "string list \<Rightarrow> string list" where
  "mapMergeMethods methods =
     (let ms = map (\<lambda>m. if m = ''rebase'' then ''rebase'' else if m = ''squash'' then ''squash''
                          else if m = ''merge'' then ''merge'' else ''merge'') methods
      in if length ms = 0 then [''merge''] else ms)"

definition map_pattern :: "pattern_rule option \<Rightarrow> gh_pattern option" where
  "map_pattern p =
     (case p of
        None \<Rightarrow> None
      | Some q \<Rightarrow> Some \<lparr>ga_Pattern = pa_Pattern q, ga_Operator = pa_Operator q, ga_Negate = pa_Negate q\<rparr>)"

definition mapPatternRules :: "ruleset_rules \<Rightarrow> gh_rules \<Rightarrow> gh_rules" where
  "mapPatternRules rules g =
     g\<lparr>gu_CommitMessagePattern := map_pattern (ru_CommitMessagePattern rules),
       gu_CommitAuthorEmailPattern := map_pattern (ru_CommitAuthorEmailPattern rules),
       gu_CommitterEmailPattern := map_pattern (ru_CommitterEmailPattern rules),
       gu_BranchNamePattern := map_pattern (ru_BranchNamePattern rules),
       gu_TagNamePattern := map_pattern (ru_TagNamePattern rules)\<rparr>"

definition no_gh_rules :: gh_rules where
  "no_gh_rules =
     \<lparr>gu_Creation = None, gu_Update = None, gu_Deletion = None, gu_RequiredLinearHistory = None,
      gu_NonFastForward = None, gu_RequiredSignatures = None, gu_PullRequest = None,
      gu_RequiredStatusChecks = None, gu_CopilotCodeReview = None, gu_Workflows = None,
      gu_CommitMessagePattern = None, gu_CommitAuthorEmailPattern = None, gu_CommitterEmailPattern = None,
      gu_BranchNamePattern = None, gu_TagNamePattern = None\<rparr>"

definition map_toggle :: "bool option \<Rightarrow> 'a \<Rightarrow> 'a option" where
  "map_toggle b params = (if WithDefault b False then Some params else None)"

definition map_pull_request :: "pull_request_rule \<Rightarrow> gh_pull_request" where
  "map_pull_request p =
     \<lparr>gl_AllowedMergeMethods = mapMergeMethods (pr_AllowedMergeMethods p),
      gl_DismissStaleReviewsOnPush = WithDefault (pr_DismissStaleReviewsOnPush p) False,
      gl_RequireCodeOwnerReview = WithDefault (pr_RequireCodeOwnerReviews p) False,
      gl_RequireLastPushApproval = WithDefault (pr_RequireLastPushApproval p) False,
      gl_RequiredApprovingReviewCount = pr_RequiredApprovingReviewCount p,
      gl_RequiredReviewThreadResolution = WithDefault (pr_RequiredReviewThreadResolution p) False,
      gl_RequiredReviewers = mapRequiredReviewers (pr_RequiredReviewers p)\<rparr>"

definition map_status_checks :: "required_status_checks \<Rightarrow> gh_status_checks" where
  "map_status_checks c =
     \<lparr>gx_RequiredStatusChecks =
        map (\<lambda>k. \<lparr>gk_Context = ck_Context k,
          gk_IntegrationID = (case ck_IntegrationID k of None \<Rightarrow> None | Some i \<Rightarrow> Some i)\<rparr>) (sc_Checks c),
      gx_StrictRequiredStatusChecksPolicy = WithDefault (sc_StrictPolicy c) False\<rparr>"

definition map_copilot_review :: "copilot_review_rule \<Rightarrow> gh_copilot_review" where
  "map_copilot_review c =
     \<lparr>go_ReviewOnPush = WithDefault (cr_ReviewOnPush c) True,
      go_ReviewDraftPullRequests = WithDefault (cr_ReviewDraftPullRequests c) True\<rparr>"

definition map_workflows :: "workflows_rule \<Rightarrow> gh_workflows" where
  "map_workflows w =
     \<lparr>gf_DoNotEnforceOnCreate = wr_DoNotEnforceOnCreate w,
      gf_Workflows =
        map (\<lambda>x. \<lparr>gw_Path = wf_Path x, gw_RepositoryID = wf_ResolvedRepositoryID x, gw_Ref = wf_Ref x\<rparr>)
          (wr_Workflows w)\<rparr>"

definition mapRules :: "ruleset_rules \<Rightarrow> gh_ruleset \<Rightarrow> gh_ruleset" where
  "mapRules rules ruleset =
     (let g = no_gh_rules
        \<lparr>gu_Creation := map_toggle (ru_Creation rules) (),
         gu_Update := map_toggle (ru_Update rules) True,
         gu_Deletion := map_toggle (ru_Deletion rules) (),
         gu_RequiredLinearHistory := map_toggle (ru_RequiredLinearHistory rules) (),
         gu_NonFastForward := map_toggle (ru_NonFastForward rules) (),
         gu_RequiredSignatures := map_toggle (ru_RequiredSignatures rules) (),
         gu_PullRequest := map_option map_pull_request (ru_PullRequest rules),
         gu_RequiredStatusChecks := map_option map_status_checks (ru_RequiredStatusChecks rules),
         gu_CopilotCodeReview := map_option map_copilot_review (ru_CopilotReview rules),
         gu_Workflows := map_option map_workflows (ru_Workflows rules)\<rparr>
      in ruleset\<lparr>gs_Rules := Some (mapPatternRules rules g)\<rparr>)"

definition map_bypass_actor :: "ruleset_bypass_actor \<Rightarrow> gh_bypass_actor" where
  "map_bypass_actor a =
     \<lparr>gb_ActorID = ba_ActorID a, gb_ActorType = Some (ba_ActorType a),
      gb_BypassMode = (if ba_BypassMode a \<noteq> [] then Some (ba_BypassMode a) else None)\<rparr>"

definition RulesetSpecToGithubRuleset :: "ruleset_spec \<Rightarrow> (go_error, gh_ruleset) result" where
  "RulesetSpecToGithubRuleset spec =
     (if rs_Name spec = [] then Inl (PlainError ''ruleset name cannot be empty'')
      else Inr (mapRules (rs_Rules spec)
        \<lparr>gs_ID = None, gs_Name = rs_Name spec, gs_Target = Some (rs_Target spec),
         gs_Enforcement = rs_Enforcement spec,
         gs_BypassActors = map map_bypass_actor (rs_BypassActors spec),
         gs_Conditions = mapConditions (rs_Conditions spec), gs_Rules = None\<rparr>))"

section \<open>Comparing with GitHub\<close>

definition stringSlicesEqual :: "string list \<Rightarrow> string list \<Rightarrow> bool" where
  "stringSlicesEqual a b =
     (if length a \<noteq> length b then False
      else (let mapA = put_all (\<lambda>s. s) (\<lambda>s. True) a []
            in list_all (\<lambda>s. WithDefault (map_get mapA s) False) b))"

definition hasAnyRulesSet :: "ruleset_rules \<Rightarrow> bool" where
  "hasAnyRulesSet rules \<longleftrightarrow>
     WithDefault (ru_Creation rules) False \<or>
     WithDefault (ru_Update rules) False \<or>
     WithDefault (ru_Deletion rules) False \<or>
     WithDefault (ru_RequiredLinearHistory rules) False \<or>
     WithDefault (ru_NonFastForward rules) False \<or>
     WithDefault (ru_RequiredSignatures rules) False \<or>
     ru_PullRequest rules \<noteq> None \<or>
     ru_RequiredStatusChecks rules \<noteq> None \<or>
     ru_CommitMessagePattern rules \<noteq> None \<or>
     ru_CommitAuthorEmailPattern rules \<noteq> None \<or>
     ru_CommitterEmailPattern rules \<noteq> None \<or>
     ru_BranchNamePattern rules \<noteq> None \<or>
     ru_TagNamePattern rules \<noteq> None \<or>
     ru_CopilotReview rules \<noteq> None \<or>
     ru_Workflows rules \<noteq> None"

text \<open>
  The comparison of two lists that four of the functions share: both are put into maps by key, and every
  entry of the first map must have an entry in the second that agrees with it. The range loop returns
  true at the first entry that has none, so the iteration order of the map does not matter.
\<close>

definition keyed_differ ::
    "('a \<Rightarrow> 'k) \<Rightarrow> ('b \<Rightarrow> 'k) \<Rightarrow> ('a \<Rightarrow> 'b \<Rightarrow> bool) \<Rightarrow> 'a list \<Rightarrow> 'b list \<Rightarrow> bool" where
  "keyed_differ kx ky agree xs ys =
     (let mx = put_all kx (\<lambda>x. x) xs []; my = put_all ky (\<lambda>y. y) ys []
      in list_ex (\<lambda>(k, x). case map_get my k of None \<Rightarrow> True | Some y \<Rightarrow> \<not> agree x y) mx)"

definition actor_key :: "string \<Rightarrow> int option \<Rightarrow> string" where
  "actor_key actorType actorID = actorType @ ''/'' @ FormatInt (WithDefault actorID 0)"

definition gh_actor_key :: "gh_bypass_actor \<Rightarrow> string" where
  "gh_actor_key a =
     actor_key (case gb_ActorType a of None \<Rightarrow> ''unknown'' | Some t \<Rightarrow> t) (gb_ActorID a)"

definition actor_agrees :: "ruleset_bypass_actor \<Rightarrow> gh_bypass_actor \<Rightarrow> bool" where
  "actor_agrees p g \<longleftrightarrow>
     (case gb_ActorType g of None \<Rightarrow> False | Some t \<Rightarrow> t = ba_ActorType p) \<and>
     ba_BypassMode p = WithDefault (gb_BypassMode g) []"

definition bypassActorsDiffer :: "ruleset_bypass_actor list \<Rightarrow> gh_bypass_actor list \<Rightarrow> bool" where
  "bypassActorsDiffer presetActors githubActors =
     (if length presetActors \<noteq> length githubActors then True
      else keyed_differ (\<lambda>a. actor_key (ba_ActorType a) (ba_ActorID a)) gh_actor_key actor_agrees
        presetActors githubActors)"

definition refNameConditionsDiffer :: "ref_name_condition option \<Rightarrow> gh_ref_condition option \<Rightarrow> bool" where
  "refNameConditionsDiffer preset gh =
     (case (preset, gh) of
        (None, None) \<Rightarrow> False
      | (Some p, Some g) \<Rightarrow>
          \<not> stringSlicesEqual (rn_Include p) (gr_Include g) \<or> \<not> stringSlicesEqual (rn_Exclude p) (gr_Exclude g)
      | _ \<Rightarrow> True)"

definition repositoryNameConditionsDiffer ::
    "repository_name_condition option \<Rightarrow> gh_names_condition option \<Rightarrow> bool" where
  "repositoryNameConditionsDiffer preset gh =
     (case (preset, gh) of
        (None, None) \<Rightarrow> False
      | (Some p, Some g) \<Rightarrow>
          \<not> stringSlicesEqual (rp_Include p) (gn_Include g) \<or>
          \<not> stringSlicesEqual (rp_Exclude p) (gn_Exclude g) \<or>
          WithDefault (gn_Protected g) False \<noteq> WithDefault (rp_Protected p) False
      | _ \<Rightarrow> True)"

definition target_agrees :: "repository_property_target \<Rightarrow> gh_property_target \<Rightarrow> bool" where
  "target_agrees p g \<longleftrightarrow>
     stringSlicesEqual (pt_PropertyValues p) (gt_PropertyValues g) \<and>
     WithDefault (pt_Source p) ''custom'' = WithDefault (gt_Source g) ''custom''"

definition propertyTargetsDiffer :: "repository_property_target list \<Rightarrow> gh_property_target list \<Rightarrow> bool" where
  "propertyTargetsDiffer preset gh = keyed_differ pt_Name gt_Name target_agrees preset gh"

definition repositoryPropertyConditionsDiffer ::
    "repository_property_condition option \<Rightarrow> gh_property_condition option \<Rightarrow> bool" where
  "repositoryPropertyConditionsDiffer preset gh =
     (case (preset, gh) of
        (None, None) \<Rightarrow> False
      | (Some p, Some g) \<Rightarrow>
          length (pc_Include p) \<noteq> length (gp_Include g) \<or>
          length (pc_Exclude p) \<noteq> length (gp_Exclude g) \<or>
          propertyTargetsDiffer (pc_Include p) (gp_Include g) \<or>
          propertyTargetsDiffer (pc_Exclude p) (gp_Exclude g)
      | _ \<Rightarrow> True)"

definition conditionsDiffer :: "ruleset_conditions option \<Rightarrow> gh_conditions option \<Rightarrow> bool" where
  "conditionsDiffer k8s gh =
     (case (k8s, gh) of
        (None, None) \<Rightarrow> False
      | (Some c, Some g) \<Rightarrow>
          refNameConditionsDiffer (cd_RefName c) (gc_RefName g) \<or>
          repositoryNameConditionsDiffer (cd_RepositoryName c) (gc_RepositoryName g) \<or>
          repositoryPropertyConditionsDiffer (cd_RepositoryProperty c) (gc_RepositoryProperty g)
      | _ \<Rightarrow> True)"

definition copilotCodeReviewDiffer :: "copilot_review_rule option \<Rightarrow> gh_copilot_review option \<Rightarrow> bool" where
  "copilotCodeReviewDiffer k8s gh =
     (case (k8s, gh) of
        (None, None) \<Rightarrow> False
      | (Some c, Some g) \<Rightarrow>
          WithDefault (cr_ReviewDraftPullRequests c) True \<noteq> go_ReviewDraftPullRequests g \<or>
          WithDefault (cr_ReviewOnPush c) True \<noteq> go_ReviewOnPush g
      | _ \<Rightarrow> True)"

definition workflow_key :: "int option \<Rightarrow> string \<Rightarrow> string" where
  "workflow_key i path = FormatInt (WithDefault i (- 1)) @ '':'' @ path"

definition workflow_agrees :: "rule_workflow \<Rightarrow> gh_workflow \<Rightarrow> bool" where
  "workflow_agrees w g \<longleftrightarrow>
     wf_ResolvedRepositoryID w = gw_RepositoryID g \<and> WithDefault (wf_Ref w) [] = WithDefault (gw_Ref g) []"

definition workflowsRuleDiffer :: "workflows_rule option \<Rightarrow> gh_workflows option \<Rightarrow> bool" where
  "workflowsRuleDiffer k8s gh =
     (case (k8s, gh) of
        (None, None) \<Rightarrow> False
      | (Some w, Some g) \<Rightarrow>
          WithDefault (wr_DoNotEnforceOnCreate w) False \<noteq> WithDefault (gf_DoNotEnforceOnCreate g) False \<or>
          length (wr_Workflows w) \<noteq> length (gf_Workflows g) \<or>
          keyed_differ (\<lambda>x. workflow_key (wf_ResolvedRepositoryID x) (wf_Path x))
            (\<lambda>x. workflow_key (gw_RepositoryID x) (gw_Path x)) workflow_agrees (wr_Workflows w) (gf_Workflows g)
      | _ \<Rightarrow> True)"

definition reviewer_key :: "required_reviewer \<Rightarrow> int \<times> string" where
  "reviewer_key r = (WithDefault (re_ID (rv_Reviewer r)) 0, re_Type (rv_Reviewer r))"

definition requiredReviewersDiffer :: "required_reviewer list \<Rightarrow> gh_required_reviewer list \<Rightarrow> bool" where
  "requiredReviewersDiffer presetReviewers githubReviewers =
     (if length presetReviewers \<noteq> length githubReviewers then True
      else
        (let presetMap = put_all reviewer_key (\<lambda>r. r) presetReviewers []
         in list_ex (\<lambda>g.
              case gq_Reviewer g of
                None \<Rightarrow> True
              | Some v \<Rightarrow>
                  (case map_get presetMap (WithDefault (gv_ID v) 0, WithDefault (gv_Type v) []) of
                     None \<Rightarrow> True
                   | Some p \<Rightarrow>
                       rv_MinimumApprovals p \<noteq> WithDefault (gq_MinimumApprovals g) 0 \<or>
                       \<not> stringSlicesEqual (rv_FilePatterns p) (gq_FilePatterns g))) githubReviewers))"

definition pullRequestRulesDiffer :: "pull_request_rule option \<Rightarrow> gh_pull_request option \<Rightarrow> bool" where
  "pullRequestRulesDiffer presetPR githubPR =
     (case (presetPR, githubPR) of
        (None, None) \<Rightarrow> False
      | (Some p, Some g) \<Rightarrow>
          WithDefault (pr_DismissStaleReviewsOnPush p) False \<noteq> gl_DismissStaleReviewsOnPush g \<or>
          WithDefault (pr_RequireCodeOwnerReviews p) False \<noteq> gl_RequireCodeOwnerReview g \<or>
          WithDefault (pr_RequireLastPushApproval p) False \<noteq> gl_RequireLastPushApproval g \<or>
          pr_RequiredApprovingReviewCount p \<noteq> gl_RequiredApprovingReviewCount g \<or>
          WithDefault (pr_RequiredReviewThreadResolution p) False \<noteq> gl_RequiredReviewThreadResolution g \<or>
          requiredReviewersDiffer (pr_RequiredReviewers p) (gl_RequiredReviewers g)
      | _ \<Rightarrow> True)"

definition requiredStatusChecksDiffer :: "required_status_checks option \<Rightarrow> gh_status_checks option \<Rightarrow> bool" where
  "requiredStatusChecksDiffer presetChecks githubChecks =
     (case (presetChecks, githubChecks) of
        (None, None) \<Rightarrow> False
      | (Some p, Some g) \<Rightarrow>
          WithDefault (sc_StrictPolicy p) False \<noteq> gx_StrictRequiredStatusChecksPolicy g \<or>
          length (sc_Checks p) \<noteq> length (gx_RequiredStatusChecks g) \<or>
          keyed_differ ck_Context gk_Context (\<lambda>k c. ck_IntegrationID k = gk_IntegrationID c)
            (sc_Checks p) (gx_RequiredStatusChecks g)
      | _ \<Rightarrow> True)"

definition patternRuleDiffer :: "pattern_rule option \<Rightarrow> gh_pattern option \<Rightarrow> bool" where
  "patternRuleDiffer presetPattern githubPattern =
     (case (presetPattern, githubPattern) of
        (None, None) \<Rightarrow> False
      | (Some p, Some g) \<Rightarrow>
          pa_Pattern p \<noteq> ga_Pattern g \<or> pa_Operator p \<noteq> ga_Operator g \<or>
          WithDefault (pa_Negate p) False \<noteq> WithDefault (ga_Negate g) False
      | _ \<Rightarrow> True)"

definition patternRulesDiffer :: "ruleset_rules \<Rightarrow> gh_rules \<Rightarrow> bool" where
  "patternRulesDiffer p g \<longleftrightarrow>
     patternRuleDiffer (ru_CommitMessagePattern p) (gu_CommitMessagePattern g) \<or>
     patternRuleDiffer (ru_CommitAuthorEmailPattern p) (gu_CommitAuthorEmailPattern g) \<or>
     patternRuleDiffer (ru_CommitterEmailPattern p) (gu_CommitterEmailPattern g) \<or>
     patternRuleDiffer (ru_BranchNamePattern p) (gu_BranchNamePattern g) \<or>
     patternRuleDiffer (ru_TagNamePattern p) (gu_TagNamePattern g)"

definition rulesetRulesDiffer :: "ruleset_rules \<Rightarrow> gh_rules option \<Rightarrow> bool" where
  "rulesetRulesDiffer p githubRules =
     (case githubRules of
        None \<Rightarrow> hasAnyRulesSet p
      | Some g \<Rightarrow>
          WithDefault (ru_Creation p) False \<noteq> (gu_Creation g \<noteq> None) \<or>
          WithDefault (ru_Update p) False \<noteq> (gu_Update g \<noteq> None) \<or>
          WithDefault (ru_Deletion p) False \<noteq> (gu_Deletion g \<noteq> None) \<or>
          WithDefault (ru_RequiredLinearHistory p) False \<noteq> (gu_RequiredLinearHistory g \<noteq> None) \<or>
          WithDefault (ru_NonFastForward p) False \<noteq> (gu_NonFastForward g \<noteq> None) \<or>
          WithDefault (ru_RequiredSignatures p) False \<noteq> (gu_RequiredSignatures g \<noteq> None) \<or>
          pullRequestRulesDiffer (ru_PullRequest p) (gu_PullRequest g) \<or>
          requiredStatusChecksDiffer (ru_RequiredStatusChecks p) (gu_RequiredStatusChecks g) \<or>
          copilotCodeReviewDiffer (ru_CopilotReview p) (gu_CopilotCodeReview g) \<or>
          workflowsRuleDiffer (ru_Workflows p) (gu_Workflows g) \<or>
          patternRulesDiffer p g)"

definition RulesetsDiffer :: "ruleset_spec \<Rightarrow> gh_ruleset \<Rightarrow> bool" where
  "RulesetsDiffer spec g \<longleftrightarrow>
     rs_Name spec \<noteq> gs_Name g \<or>
     Some (rs_Target spec) \<noteq> WithDefaultAsPtr (gs_Target g) ''branch'' \<or>
     rs_Enforcement spec \<noteq> gs_Enforcement g \<or>
     bypassActorsDiffer (rs_BypassActors spec) (gs_BypassActors g) \<or>
     conditionsDiffer (rs_Conditions spec) (gs_Conditions g) \<or>
     rulesetRulesDiffer (rs_Rules spec) (gs_Rules g)"

section \<open>Comparing keyed lists\<close>

text \<open>
  What the comparison loops rely on: two elements with the same key that agree show the same thing, \<open>vx\<close>
  and \<open>vy\<close> being what is shown. The loops then compare the sets of what the lists show.
\<close>

locale keyed_diff =
  fixes kx :: "'a \<Rightarrow> 'k" and ky :: "'b \<Rightarrow> 'k" and agree :: "'a \<Rightarrow> 'b \<Rightarrow> bool"
    and okx :: "'a \<Rightarrow> bool" and oky :: "'b \<Rightarrow> bool" and vx :: "'a \<Rightarrow> 'v" and vy :: "'b \<Rightarrow> 'v"
  assumes view_eq: "okx x \<Longrightarrow> oky y \<Longrightarrow> vx x = vy y \<longleftrightarrow> kx x = ky y \<and> agree x y"
begin

lemma views_subset_eq:
  assumes "length xs = length ys" and "distinct (map kx xs)"
    and "\<forall>x \<in> set xs. okx x" and "\<forall>y \<in> set ys. oky y" and "vx ` set xs \<subseteq> vy ` set ys"
  shows "vx ` set xs = vy ` set ys"
proof (rule card_subset_eq)
  have "inj_on vx (set xs)"
  proof (rule inj_onI)
    fix x x' assume x: "x \<in> set xs" "x' \<in> set xs" "vx x = vx x'"
    then obtain y where y: "y \<in> set ys" "vx x = vy y" using assms(5) by blast
    have "kx x = ky y" "kx x' = ky y" using view_eq [of x y] view_eq [of x' y] x y assms(3,4) by auto
    then show "x = x'" using assms(2) x by (simp add: distinct_map inj_on_def)
  qed
  moreover have "distinct xs" using assms(2) by (simp add: distinct_map)
  ultimately have "card (vx ` set xs) = length ys"
    using assms(1) by (simp add: card_image distinct_card)
  moreover have "card (vy ` set ys) \<le> length ys"
    using card_image_le [of "set ys" vy] card_length [of ys] by simp
  ultimately show "card (vx ` set xs) = card (vy ` set ys)"
    using card_mono [OF _ assms(5)] by simp
qed (use assms(5) in simp_all)

lemma views_supset_eq:
  assumes "length xs = length ys" and "distinct (map ky ys)"
    and "\<forall>x \<in> set xs. okx x" and "\<forall>y \<in> set ys. oky y" and "vy ` set ys \<subseteq> vx ` set xs"
  shows "vx ` set xs = vy ` set ys"
proof (rule sym, rule card_subset_eq)
  have "inj_on vy (set ys)"
  proof (rule inj_onI)
    fix y y' assume y: "y \<in> set ys" "y' \<in> set ys" "vy y = vy y'"
    then obtain x where x: "x \<in> set xs" "vx x = vy y" using assms(5) by (metis imageE image_eqI subsetD)
    have "kx x = ky y" "kx x = ky y'" using view_eq [of x y] view_eq [of x y'] x y assms(3,4) by auto
    then show "y = y'" using assms(2) y by (simp add: distinct_map inj_on_def)
  qed
  moreover have "distinct ys" using assms(2) by (simp add: distinct_map)
  ultimately have "card (vy ` set ys) = length xs"
    using assms(1) by (simp add: card_image distinct_card)
  moreover have "card (vx ` set xs) \<le> length xs"
    using card_image_le [of "set xs" vx] card_length [of xs] by simp
  ultimately show "card (vy ` set ys) = card (vx ` set xs)"
    using card_mono [OF _ assms(5)] by simp
qed (use assms(5) in simp_all)

lemma same_views_same_length:
  assumes "distinct (map kx xs)" and "distinct (map ky ys)"
    and "\<forall>x \<in> set xs. okx x" and "\<forall>y \<in> set ys. oky y" and "vx ` set xs = vy ` set ys"
  shows "length xs = length ys"
proof -
  have a: "\<exists>y \<in> set ys. kx x = ky y" if x: "x \<in> set xs" for x
  proof -
    have "vx x \<in> vy ` set ys" using x assms(5) by auto
    then obtain y where "y \<in> set ys" "vx x = vy y" by auto
    then show ?thesis using view_eq [of x y] x assms(3,4) by auto
  qed
  have b: "\<exists>x \<in> set xs. ky y = kx x" if y: "y \<in> set ys" for y
  proof -
    have "vy y \<in> vx ` set xs" using y assms(5) by auto
    then obtain x where "x \<in> set xs" "vx x = vy y" by auto
    then show ?thesis using view_eq [of x y] y assms(3,4) by (intro bexI [of _ x]) auto
  qed
  have "kx ` set xs = ky ` set ys" using a b by (auto simp: image_iff)
  then show ?thesis using assms(1,2) by (metis distinct_card length_map set_map)
qed

lemma keyed_differ_iff:
  assumes "length xs = length ys" and "distinct (map kx xs)" and "distinct (map ky ys)"
    and "\<forall>x \<in> set xs. okx x" and "\<forall>y \<in> set ys. oky y"
  shows "keyed_differ kx ky agree xs ys \<longleftrightarrow> vx ` set xs \<noteq> vy ` set ys"
proof -
  have "\<not> keyed_differ kx ky agree xs ys \<longleftrightarrow> vx ` set xs \<subseteq> vy ` set ys"
  proof
    assume d: "\<not> keyed_differ kx ky agree xs ys"
    show "vx ` set xs \<subseteq> vy ` set ys"
    proof
      fix v assume "v \<in> vx ` set xs"
      then obtain x where x: "x \<in> set xs" "v = vx x" by blast
      have "map_get (put_all kx (\<lambda>x. x) xs []) (kx x) = Some x"
        using put_all_distinct [OF assms(2) x(1)] .
      then have "(kx x, x) \<in> set (put_all kx (\<lambda>x. x) xs [])" by (rule map_of_SomeD)
      with d obtain y where y: "map_get (put_all ky (\<lambda>y. y) ys []) (kx x) = Some y" "agree x y"
        by (fastforce simp: keyed_differ_def Let_def list_ex_iff split: option.splits)
      then have "y \<in> set ys" "ky y = kx x" using put_all_get_in [OF y(1)] by auto
      then have "vx x = vy y" using view_eq [of x y] x y(2) assms(4,5) by auto
      then show "v \<in> vy ` set ys" using x(2) \<open>y \<in> set ys\<close> by auto
    qed
  next
    assume s: "vx ` set xs \<subseteq> vy ` set ys"
    have "\<exists>y. map_get (put_all ky (\<lambda>y. y) ys []) k = Some y \<and> agree x y"
      if kx: "(k, x) \<in> set (put_all kx (\<lambda>x. x) xs [])" for k x
    proof -
      have "map_get (put_all kx (\<lambda>x. x) xs []) k = Some x"
        using kx gomap_in_iff gomap_ok_put_all gomap_ok_Nil by metis
      then have x: "x \<in> set xs" "k = kx x" using put_all_get_in by force+
      then obtain y where y: "y \<in> set ys" "vx x = vy y" using s by blast
      then have "kx x = ky y" "agree x y" using view_eq [of x y] x assms(4,5) by auto
      then show ?thesis using put_all_distinct [OF assms(3) y(1)] x(2) by auto
    qed
    then show "\<not> keyed_differ kx ky agree xs ys"
      by (force simp: keyed_differ_def Let_def list_ex_iff)
  qed
  then show ?thesis
    using views_subset_eq [OF assms(1,2,4,5)] by blast
qed

end

section \<open>What a ruleset means\<close>

text \<open>
  The abstract view: lists as sets, a missing value as its default. The merge methods a pull request
  rule allows are not part of it.
\<close>

type_synonym actor_view = "string option \<times> int \<times> string"
type_synonym target_view = "string \<times> string set \<times> string"
type_synonym conditions_view =
  "(string set \<times> string set) option \<times> (string set \<times> string set \<times> bool) option \<times>
   (target_view set \<times> target_view set) option"
type_synonym reviewer_view = "(int \<times> string \<times> int \<times> string set) option"

record rules_view =
  vr_toggles :: "bool list"
  vr_PullRequest :: "(bool \<times> bool \<times> bool \<times> int \<times> bool \<times> reviewer_view set) option"
  vr_RequiredStatusChecks :: "(bool \<times> (string \<times> int option) set) option"
  vr_CopilotReview :: "(bool \<times> bool) option"
  vr_Workflows :: "(bool \<times> (int option \<times> string \<times> string) set) option"
  vr_patterns :: "(string \<times> string \<times> bool) option list"

record ruleset_view =
  vw_Name :: string
  vw_Target :: string
  vw_Enforcement :: string
  vw_BypassActors :: "actor_view set"
  vw_Conditions :: "conditions_view option"
  vw_Rules :: rules_view

definition spec_actor :: "ruleset_bypass_actor \<Rightarrow> actor_view" where
  "spec_actor a = (Some (ba_ActorType a), WithDefault (ba_ActorID a) 0, ba_BypassMode a)"

definition gh_actor :: "gh_bypass_actor \<Rightarrow> actor_view" where
  "gh_actor a = (gb_ActorType a, WithDefault (gb_ActorID a) 0, WithDefault (gb_BypassMode a) [])"

definition spec_target :: "repository_property_target \<Rightarrow> target_view" where
  "spec_target t = (pt_Name t, set (pt_PropertyValues t), WithDefault (pt_Source t) ''custom'')"

definition gh_target :: "gh_property_target \<Rightarrow> target_view" where
  "gh_target t = (gt_Name t, set (gt_PropertyValues t), WithDefault (gt_Source t) ''custom'')"

definition spec_conditions :: "ruleset_conditions \<Rightarrow> conditions_view" where
  "spec_conditions c =
     (map_option (\<lambda>r. (set (rn_Include r), set (rn_Exclude r))) (cd_RefName c),
      map_option (\<lambda>r. (set (rp_Include r), set (rp_Exclude r), WithDefault (rp_Protected r) False)) (cd_RepositoryName c),
      map_option (\<lambda>p. (spec_target ` set (pc_Include p), spec_target ` set (pc_Exclude p))) (cd_RepositoryProperty c))"

definition gh_conds :: "gh_conditions \<Rightarrow> conditions_view" where
  "gh_conds c =
     (map_option (\<lambda>r. (set (gr_Include r), set (gr_Exclude r))) (gc_RefName c),
      map_option (\<lambda>r. (set (gn_Include r), set (gn_Exclude r), WithDefault (gn_Protected r) False)) (gc_RepositoryName c),
      map_option (\<lambda>p. (gh_target ` set (gp_Include p), gh_target ` set (gp_Exclude p))) (gc_RepositoryProperty c))"

definition spec_reviewer :: "required_reviewer \<Rightarrow> reviewer_view" where
  "spec_reviewer r =
     Some (WithDefault (re_ID (rv_Reviewer r)) 0, re_Type (rv_Reviewer r), rv_MinimumApprovals r, set (rv_FilePatterns r))"

definition gh_reviewer_of :: "gh_required_reviewer \<Rightarrow> reviewer_view" where
  "gh_reviewer_of g =
     map_option (\<lambda>v. (WithDefault (gv_ID v) 0, WithDefault (gv_Type v) [], WithDefault (gq_MinimumApprovals g) 0,
       set (gq_FilePatterns g))) (gq_Reviewer g)"

definition spec_workflow :: "rule_workflow \<Rightarrow> int option \<times> string \<times> string" where
  "spec_workflow w = (wf_ResolvedRepositoryID w, wf_Path w, WithDefault (wf_Ref w) [])"

definition gh_workflow_of :: "gh_workflow \<Rightarrow> int option \<times> string \<times> string" where
  "gh_workflow_of w = (gw_RepositoryID w, gw_Path w, WithDefault (gw_Ref w) [])"

definition spec_check :: "status_check \<Rightarrow> string \<times> int option" where
  "spec_check c = (ck_Context c, ck_IntegrationID c)"

definition gh_check :: "gh_status_check \<Rightarrow> string \<times> int option" where
  "gh_check c = (gk_Context c, gk_IntegrationID c)"

definition spec_pattern :: "pattern_rule \<Rightarrow> string \<times> string \<times> bool" where
  "spec_pattern p = (pa_Pattern p, pa_Operator p, WithDefault (pa_Negate p) False)"

definition gh_pattern_of :: "gh_pattern \<Rightarrow> string \<times> string \<times> bool" where
  "gh_pattern_of p = (ga_Pattern p, ga_Operator p, WithDefault (ga_Negate p) False)"

definition spec_rules :: "ruleset_rules \<Rightarrow> rules_view" where
  "spec_rules r =
     \<lparr>vr_toggles = map (\<lambda>f. WithDefault (f r) False)
        [ru_Creation, ru_Update, ru_Deletion, ru_RequiredLinearHistory, ru_NonFastForward, ru_RequiredSignatures],
      vr_PullRequest = map_option (\<lambda>p.
        (WithDefault (pr_DismissStaleReviewsOnPush p) False, WithDefault (pr_RequireCodeOwnerReviews p) False,
         WithDefault (pr_RequireLastPushApproval p) False, pr_RequiredApprovingReviewCount p,
         WithDefault (pr_RequiredReviewThreadResolution p) False, spec_reviewer ` set (pr_RequiredReviewers p)))
        (ru_PullRequest r),
      vr_RequiredStatusChecks = map_option (\<lambda>c. (WithDefault (sc_StrictPolicy c) False, spec_check ` set (sc_Checks c)))
        (ru_RequiredStatusChecks r),
      vr_CopilotReview = map_option (\<lambda>c. (WithDefault (cr_ReviewOnPush c) True, WithDefault (cr_ReviewDraftPullRequests c) True))
        (ru_CopilotReview r),
      vr_Workflows = map_option (\<lambda>w. (WithDefault (wr_DoNotEnforceOnCreate w) False, spec_workflow ` set (wr_Workflows w)))
        (ru_Workflows r),
      vr_patterns = map (\<lambda>f. map_option spec_pattern (f r))
        [ru_CommitMessagePattern, ru_CommitAuthorEmailPattern, ru_CommitterEmailPattern, ru_BranchNamePattern, ru_TagNamePattern]\<rparr>"

definition gh_rules_of :: "gh_rules \<Rightarrow> rules_view" where
  "gh_rules_of r =
     \<lparr>vr_toggles = [gu_Creation r \<noteq> None, gu_Update r \<noteq> None, gu_Deletion r \<noteq> None, gu_RequiredLinearHistory r \<noteq> None,
        gu_NonFastForward r \<noteq> None, gu_RequiredSignatures r \<noteq> None],
      vr_PullRequest = map_option (\<lambda>p.
        (gl_DismissStaleReviewsOnPush p, gl_RequireCodeOwnerReview p, gl_RequireLastPushApproval p,
         gl_RequiredApprovingReviewCount p, gl_RequiredReviewThreadResolution p, gh_reviewer_of ` set (gl_RequiredReviewers p)))
        (gu_PullRequest r),
      vr_RequiredStatusChecks = map_option (\<lambda>c.
        (gx_StrictRequiredStatusChecksPolicy c, gh_check ` set (gx_RequiredStatusChecks c))) (gu_RequiredStatusChecks r),
      vr_CopilotReview = map_option (\<lambda>c. (go_ReviewOnPush c, go_ReviewDraftPullRequests c)) (gu_CopilotCodeReview r),
      vr_Workflows = map_option (\<lambda>w. (WithDefault (gf_DoNotEnforceOnCreate w) False, gh_workflow_of ` set (gf_Workflows w)))
        (gu_Workflows r),
      vr_patterns = map (\<lambda>f. map_option gh_pattern_of (f r))
        [gu_CommitMessagePattern, gu_CommitAuthorEmailPattern, gu_CommitterEmailPattern, gu_BranchNamePattern, gu_TagNamePattern]\<rparr>"

definition spec_view :: "ruleset_spec \<Rightarrow> ruleset_view" where
  "spec_view s =
     \<lparr>vw_Name = rs_Name s, vw_Target = rs_Target s, vw_Enforcement = rs_Enforcement s,
      vw_BypassActors = spec_actor ` set (rs_BypassActors s),
      vw_Conditions = map_option spec_conditions (rs_Conditions s), vw_Rules = spec_rules (rs_Rules s)\<rparr>"

text \<open>No rules object at all means no rules; no target means branches.\<close>

definition gh_view :: "gh_ruleset \<Rightarrow> ruleset_view" where
  "gh_view g =
     \<lparr>vw_Name = gs_Name g, vw_Target = WithDefault (gs_Target g) ''branch'', vw_Enforcement = gs_Enforcement g,
      vw_BypassActors = gh_actor ` set (gs_BypassActors g),
      vw_Conditions = map_option gh_conds (gs_Conditions g),
      vw_Rules = gh_rules_of (WithDefault (gs_Rules g) no_gh_rules)\<rparr>"

text \<open>Lists without duplicates: every list of a ruleset stands for a set, or for a map from its keys.\<close>

definition conditions_wf :: "ruleset_conditions \<Rightarrow> bool" where
  "conditions_wf c \<longleftrightarrow>
     pred_option (\<lambda>r. distinct (rn_Include r) \<and> distinct (rn_Exclude r)) (cd_RefName c) \<and>
     pred_option (\<lambda>r. distinct (rp_Include r) \<and> distinct (rp_Exclude r)) (cd_RepositoryName c) \<and>
     pred_option (\<lambda>p. \<forall>ts \<in> {pc_Include p, pc_Exclude p}.
        distinct (map pt_Name ts) \<and> (\<forall>t \<in> set ts. distinct (pt_PropertyValues t))) (cd_RepositoryProperty c)"

definition rules_wf :: "ruleset_rules \<Rightarrow> bool" where
  "rules_wf r \<longleftrightarrow>
     pred_option (\<lambda>p. distinct (map reviewer_key (pr_RequiredReviewers p)) \<and>
        (\<forall>v \<in> set (pr_RequiredReviewers p). distinct (rv_FilePatterns v))) (ru_PullRequest r) \<and>
     pred_option (\<lambda>c. distinct (map ck_Context (sc_Checks c))) (ru_RequiredStatusChecks r) \<and>
     pred_option (\<lambda>w. distinct (map (\<lambda>x. workflow_key (wf_ResolvedRepositoryID x) (wf_Path x)) (wr_Workflows w))) (ru_Workflows r)"

definition spec_wf :: "ruleset_spec \<Rightarrow> bool" where
  "spec_wf s \<longleftrightarrow>
     distinct (map (\<lambda>a. actor_key (ba_ActorType a) (ba_ActorID a)) (rs_BypassActors s)) \<and>
     pred_option conditions_wf (rs_Conditions s) \<and> rules_wf (rs_Rules s)"

definition gh_conditions_wf :: "gh_conditions \<Rightarrow> bool" where
  "gh_conditions_wf c \<longleftrightarrow>
     pred_option (\<lambda>r. distinct (gr_Include r) \<and> distinct (gr_Exclude r)) (gc_RefName c) \<and>
     pred_option (\<lambda>r. distinct (gn_Include r) \<and> distinct (gn_Exclude r)) (gc_RepositoryName c) \<and>
     pred_option (\<lambda>p. \<forall>ts \<in> {gp_Include p, gp_Exclude p}.
        distinct (map gt_Name ts) \<and> (\<forall>t \<in> set ts. distinct (gt_PropertyValues t))) (gc_RepositoryProperty c)"

definition gh_reviewer_key :: "gh_required_reviewer \<Rightarrow> (int \<times> string) option" where
  "gh_reviewer_key g = map_option (\<lambda>v. (WithDefault (gv_ID v) 0, WithDefault (gv_Type v) [])) (gq_Reviewer g)"

definition gh_rules_wf :: "gh_rules \<Rightarrow> bool" where
  "gh_rules_wf r \<longleftrightarrow>
     pred_option (\<lambda>p. distinct (map gh_reviewer_key (gl_RequiredReviewers p)) \<and>
        (\<forall>v \<in> set (gl_RequiredReviewers p). distinct (gq_FilePatterns v))) (gu_PullRequest r) \<and>
     pred_option (\<lambda>c. distinct (map gk_Context (gx_RequiredStatusChecks c))) (gu_RequiredStatusChecks r) \<and>
     pred_option (\<lambda>w. distinct (map (\<lambda>x. workflow_key (gw_RepositoryID x) (gw_Path x)) (gf_Workflows w))) (gu_Workflows r)"

definition gh_wf :: "gh_ruleset \<Rightarrow> bool" where
  "gh_wf g \<longleftrightarrow>
     distinct (map gh_actor_key (gs_BypassActors g)) \<and>
     pred_option gh_conditions_wf (gs_Conditions g) \<and> pred_option gh_rules_wf (gs_Rules g)"

section \<open>The comparison is the comparison of the views\<close>

lemma mapA_get: "WithDefault (map_get (put_all (\<lambda>s. s) (\<lambda>s. True) a []) s) False \<longleftrightarrow> s \<in> set a"
proof (cases "s \<in> set a")
  case True
  then obtain v where "map_get (put_all (\<lambda>s. s) (\<lambda>s. True) a []) s = Some v"
    using put_all_dom [of "\<lambda>s. s" "\<lambda>s. True" a "[]"] by auto
  moreover from put_all_get_in [OF this] have v by auto
  ultimately show ?thesis using True by simp
next
  case False
  then show ?thesis by (simp add: put_all_notin [of s "\<lambda>s. s" a "\<lambda>s. True" "[]", simplified])
qed

lemma stringSlicesEqual_alt: "stringSlicesEqual a b \<longleftrightarrow> length a = length b \<and> set b \<subseteq> set a"
  by (auto simp: stringSlicesEqual_def Let_def list_all_iff mapA_get)

lemma stringSlicesEqual_refl [simp]: "stringSlicesEqual a a"
  by (simp add: stringSlicesEqual_alt)

lemma stringSlicesEqual_iff:
  assumes "distinct a" and "distinct b"
  shows "stringSlicesEqual a b \<longleftrightarrow> set a = set b"
proof -
  have "set b = set a" if "length a = length b" "set b \<subseteq> set a"
    using that assms by (intro card_subset_eq) (simp_all add: distinct_card)
  moreover have "length a = length b" if "set a = set b"
    using that assms by (metis distinct_card)
  ultimately show ?thesis by (auto simp: stringSlicesEqual_alt)
qed

lemma actor_key_inject: "actor_key t i = actor_key t j \<longleftrightarrow> WithDefault i 0 = WithDefault j 0"
  by (simp add: actor_key_def)

interpretation bypass_diff: keyed_diff
  "\<lambda>a. actor_key (ba_ActorType a) (ba_ActorID a)" gh_actor_key actor_agrees "\<lambda>_. True" "\<lambda>_. True" spec_actor gh_actor
  by unfold_locales
    (auto simp: spec_actor_def gh_actor_def gh_actor_key_def actor_agrees_def actor_key_inject split: option.splits)

interpretation target_diff: keyed_diff
  pt_Name gt_Name target_agrees "\<lambda>t. distinct (pt_PropertyValues t)" "\<lambda>t. distinct (gt_PropertyValues t)"
  spec_target gh_target
  by unfold_locales (auto simp: spec_target_def gh_target_def target_agrees_def stringSlicesEqual_iff)

interpretation workflow_diff: keyed_diff
  "\<lambda>x. workflow_key (wf_ResolvedRepositoryID x) (wf_Path x)" "\<lambda>x. workflow_key (gw_RepositoryID x) (gw_Path x)"
  workflow_agrees "\<lambda>_. True" "\<lambda>_. True" spec_workflow gh_workflow_of
  by unfold_locales (auto simp: spec_workflow_def gh_workflow_of_def workflow_agrees_def workflow_key_def)

interpretation check_diff: keyed_diff
  ck_Context gk_Context "\<lambda>k c. ck_IntegrationID k = gk_IntegrationID c" "\<lambda>_. True" "\<lambda>_. True" spec_check gh_check
  by unfold_locales (auto simp: spec_check_def gh_check_def)

definition reviewer_agrees :: "required_reviewer \<Rightarrow> gh_required_reviewer \<Rightarrow> bool" where
  "reviewer_agrees p g \<longleftrightarrow>
     rv_MinimumApprovals p = WithDefault (gq_MinimumApprovals g) 0 \<and> stringSlicesEqual (rv_FilePatterns p) (gq_FilePatterns g)"

interpretation reviewer_diff: keyed_diff
  "\<lambda>r. Some (reviewer_key r)" gh_reviewer_key reviewer_agrees
  "\<lambda>r. distinct (rv_FilePatterns r)" "\<lambda>r. distinct (gq_FilePatterns r)" spec_reviewer gh_reviewer_of
  by unfold_locales
    (auto simp: spec_reviewer_def gh_reviewer_of_def reviewer_key_def gh_reviewer_key_def reviewer_agrees_def stringSlicesEqual_iff
      map_option_case split: option.splits)

lemma bypassActorsDiffer_iff:
  assumes "distinct (map (\<lambda>a. actor_key (ba_ActorType a) (ba_ActorID a)) xs)" and "distinct (map gh_actor_key ys)"
  shows "bypassActorsDiffer xs ys \<longleftrightarrow> spec_actor ` set xs \<noteq> gh_actor ` set ys"
proof (cases "length xs = length ys")
  case True
  then show ?thesis using bypass_diff.keyed_differ_iff [OF _ assms] by (simp add: bypassActorsDiffer_def)
next
  case False
  then show ?thesis using bypass_diff.same_views_same_length [OF assms] by (auto simp: bypassActorsDiffer_def)
qed

lemma propertyTargetsDiffer_iff:
  assumes "distinct (map pt_Name xs) \<and> (\<forall>t \<in> set xs. distinct (pt_PropertyValues t))"
    and "distinct (map gt_Name ys) \<and> (\<forall>t \<in> set ys. distinct (gt_PropertyValues t))"
  shows "length xs \<noteq> length ys \<or> propertyTargetsDiffer xs ys \<longleftrightarrow> spec_target ` set xs \<noteq> gh_target ` set ys"
  using target_diff.keyed_differ_iff [of xs ys] target_diff.same_views_same_length [of xs ys] assms
  by (auto simp: propertyTargetsDiffer_def)

lemma requiredReviewersDiffer_iff:
  assumes "distinct (map reviewer_key xs) \<and> (\<forall>v \<in> set xs. distinct (rv_FilePatterns v))"
    and "distinct (map gh_reviewer_key ys) \<and> (\<forall>v \<in> set ys. distinct (gq_FilePatterns v))"
  shows "requiredReviewersDiffer xs ys \<longleftrightarrow> spec_reviewer ` set xs \<noteq> gh_reviewer_of ` set ys"
proof (cases "length xs = length ys")
  case False
  have "distinct (map (\<lambda>r. Some (reviewer_key r)) xs)" using assms(1) by (simp add: distinct_map inj_on_def)
  then show ?thesis
    using False reviewer_diff.same_views_same_length [of xs ys] assms by (auto simp: requiredReviewersDiffer_def)
next
  case True
  let ?m = "put_all reviewer_key (\<lambda>r. r) xs []"
  have get: "map_get ?m k = Some p \<longleftrightarrow> p \<in> set xs \<and> reviewer_key p = k" for k p
    using put_all_get_in [of reviewer_key "\<lambda>r. r" xs "[]" k p] put_all_distinct [of reviewer_key xs p "\<lambda>r. r" "[]"] assms(1) by auto
  have one: "gh_reviewer_of g \<in> spec_reviewer ` set xs \<longleftrightarrow>
      \<not> (case gq_Reviewer g of None \<Rightarrow> True
         | Some v \<Rightarrow> (case map_get ?m (WithDefault (gv_ID v) 0, WithDefault (gv_Type v) []) of None \<Rightarrow> True
             | Some p \<Rightarrow> rv_MinimumApprovals p \<noteq> WithDefault (gq_MinimumApprovals g) 0 \<or>
                 \<not> stringSlicesEqual (rv_FilePatterns p) (gq_FilePatterns g)))" (is "?L \<longleftrightarrow> ?R")
    if g: "g \<in> set ys" for g
  proof -
    have "?L \<longleftrightarrow> (\<exists>p \<in> set xs. Some (reviewer_key p) = gh_reviewer_key g \<and> reviewer_agrees p g)"
      using reviewer_diff.view_eq [of _ g] assms g by (auto simp: image_iff eq_commute [of "gh_reviewer_of g"])
    also have "\<dots> \<longleftrightarrow> ?R"
    proof (cases "gq_Reviewer g")
      case (Some v)
      let ?k = "(WithDefault (gv_ID v) 0, WithDefault (gv_Type v) [])"
      have "(\<exists>p \<in> set xs. Some (reviewer_key p) = gh_reviewer_key g \<and> reviewer_agrees p g) \<longleftrightarrow>
          (\<exists>p. map_get ?m ?k = Some p \<and> reviewer_agrees p g)"
        unfolding get by (auto simp: gh_reviewer_key_def Some)
      then show ?thesis by (simp add: Some reviewer_agrees_def split: option.split)
    qed (simp add: gh_reviewer_key_def)
    finally show ?thesis .
  qed
  have "\<not> requiredReviewersDiffer xs ys \<longleftrightarrow> gh_reviewer_of ` set ys \<subseteq> spec_reviewer ` set xs"
    using one True by (simp add: requiredReviewersDiffer_def Let_def list_ex_iff image_subset_iff)
  then show ?thesis
    using reviewer_diff.views_supset_eq [of xs ys] True assms by blast
qed

lemma refNameConditionsDiffer_iff:
  assumes "pred_option (\<lambda>r. distinct (rn_Include r) \<and> distinct (rn_Exclude r)) p"
    and "pred_option (\<lambda>r. distinct (gr_Include r) \<and> distinct (gr_Exclude r)) g"
  shows "refNameConditionsDiffer p g \<longleftrightarrow>
    map_option (\<lambda>r. (set (rn_Include r), set (rn_Exclude r))) p \<noteq> map_option (\<lambda>r. (set (gr_Include r), set (gr_Exclude r))) g"
  using assms by (auto simp: refNameConditionsDiffer_def stringSlicesEqual_iff split: option.splits)

lemma repositoryNameConditionsDiffer_iff:
  assumes "pred_option (\<lambda>r. distinct (rp_Include r) \<and> distinct (rp_Exclude r)) p"
    and "pred_option (\<lambda>r. distinct (gn_Include r) \<and> distinct (gn_Exclude r)) g"
  shows "repositoryNameConditionsDiffer p g \<longleftrightarrow>
    map_option (\<lambda>r. (set (rp_Include r), set (rp_Exclude r), WithDefault (rp_Protected r) False)) p \<noteq>
    map_option (\<lambda>r. (set (gn_Include r), set (gn_Exclude r), WithDefault (gn_Protected r) False)) g"
  using assms by (auto simp: repositoryNameConditionsDiffer_def stringSlicesEqual_iff split: option.splits)

lemma repositoryPropertyConditionsDiffer_iff:
  assumes "pred_option (\<lambda>p. \<forall>ts \<in> {pc_Include p, pc_Exclude p}.
        distinct (map pt_Name ts) \<and> (\<forall>t \<in> set ts. distinct (pt_PropertyValues t))) p"
    and "pred_option (\<lambda>p. \<forall>ts \<in> {gp_Include p, gp_Exclude p}.
        distinct (map gt_Name ts) \<and> (\<forall>t \<in> set ts. distinct (gt_PropertyValues t))) g"
  shows "repositoryPropertyConditionsDiffer p g \<longleftrightarrow>
    map_option (\<lambda>p. (spec_target ` set (pc_Include p), spec_target ` set (pc_Exclude p))) p \<noteq>
    map_option (\<lambda>p. (gh_target ` set (gp_Include p), gh_target ` set (gp_Exclude p))) g"
proof (cases "(p, g)")
  case (Pair p' g')
  show ?thesis
  proof (cases p)
    case None
    then show ?thesis by (simp add: repositoryPropertyConditionsDiffer_def split: option.split)
  next
    case p: (Some x)
    show ?thesis
    proof (cases g)
      case None
      then show ?thesis using p by (simp add: repositoryPropertyConditionsDiffer_def)
    next
      case g: (Some y)
      have "length (pc_Include x) \<noteq> length (gp_Include y) \<or> propertyTargetsDiffer (pc_Include x) (gp_Include y) \<longleftrightarrow>
            spec_target ` set (pc_Include x) \<noteq> gh_target ` set (gp_Include y)"
        and "length (pc_Exclude x) \<noteq> length (gp_Exclude y) \<or> propertyTargetsDiffer (pc_Exclude x) (gp_Exclude y) \<longleftrightarrow>
            spec_target ` set (pc_Exclude x) \<noteq> gh_target ` set (gp_Exclude y)"
        using assms p g by (intro propertyTargetsDiffer_iff; simp)+
      then show ?thesis using p g by (auto simp: repositoryPropertyConditionsDiffer_def)
    qed
  qed
qed

lemma conditionsDiffer_iff:
  assumes "pred_option conditions_wf c" and "pred_option gh_conditions_wf g"
  shows "conditionsDiffer c g \<longleftrightarrow> map_option spec_conditions c \<noteq> map_option gh_conds g"
  using assms
  by (auto simp: conditionsDiffer_def conditions_wf_def gh_conditions_wf_def spec_conditions_def gh_conds_def
      refNameConditionsDiffer_iff repositoryNameConditionsDiffer_iff repositoryPropertyConditionsDiffer_iff
      split: option.splits)

lemma pullRequestRulesDiffer_iff:
  assumes "pred_option (\<lambda>p. distinct (map reviewer_key (pr_RequiredReviewers p)) \<and>
        (\<forall>v \<in> set (pr_RequiredReviewers p). distinct (rv_FilePatterns v))) (ru_PullRequest r)"
    and "pred_option (\<lambda>p. distinct (map gh_reviewer_key (gl_RequiredReviewers p)) \<and>
        (\<forall>v \<in> set (gl_RequiredReviewers p). distinct (gq_FilePatterns v))) (gu_PullRequest g)"
  shows "pullRequestRulesDiffer (ru_PullRequest r) (gu_PullRequest g) \<longleftrightarrow>
           vr_PullRequest (spec_rules r) \<noteq> vr_PullRequest (gh_rules_of g)"
  using assms
  by (cases "ru_PullRequest r"; cases "gu_PullRequest g")
    (simp_all add: pullRequestRulesDiffer_def spec_rules_def gh_rules_of_def requiredReviewersDiffer_iff)

lemma requiredStatusChecksDiffer_iff:
  assumes "pred_option (\<lambda>c. distinct (map ck_Context (sc_Checks c))) (ru_RequiredStatusChecks r)"
    and "pred_option (\<lambda>c. distinct (map gk_Context (gx_RequiredStatusChecks c))) (gu_RequiredStatusChecks g)"
  shows "requiredStatusChecksDiffer (ru_RequiredStatusChecks r) (gu_RequiredStatusChecks g) \<longleftrightarrow>
           vr_RequiredStatusChecks (spec_rules r) \<noteq> vr_RequiredStatusChecks (gh_rules_of g)"
proof -
  have "length (sc_Checks a) \<noteq> length (gx_RequiredStatusChecks b) \<or>
        keyed_differ ck_Context gk_Context (\<lambda>k c. ck_IntegrationID k = gk_IntegrationID c) (sc_Checks a) (gx_RequiredStatusChecks b) \<longleftrightarrow>
        spec_check ` set (sc_Checks a) \<noteq> gh_check ` set (gx_RequiredStatusChecks b)"
    if "ru_RequiredStatusChecks r = Some a" "gu_RequiredStatusChecks g = Some b" for a b
    using that assms check_diff.keyed_differ_iff [of "sc_Checks a" "gx_RequiredStatusChecks b"]
      check_diff.same_views_same_length [of "sc_Checks a" "gx_RequiredStatusChecks b"] by auto
  then show ?thesis
    by (cases "ru_RequiredStatusChecks r"; cases "gu_RequiredStatusChecks g")
      (simp_all add: requiredStatusChecksDiffer_def spec_rules_def gh_rules_of_def)
qed

lemma workflowsRuleDiffer_iff:
  assumes "pred_option (\<lambda>w. distinct (map (\<lambda>x. workflow_key (wf_ResolvedRepositoryID x) (wf_Path x)) (wr_Workflows w))) (ru_Workflows r)"
    and "pred_option (\<lambda>w. distinct (map (\<lambda>x. workflow_key (gw_RepositoryID x) (gw_Path x)) (gf_Workflows w))) (gu_Workflows g)"
  shows "workflowsRuleDiffer (ru_Workflows r) (gu_Workflows g) \<longleftrightarrow> vr_Workflows (spec_rules r) \<noteq> vr_Workflows (gh_rules_of g)"
proof -
  have "length (wr_Workflows a) \<noteq> length (gf_Workflows b) \<or>
        keyed_differ (\<lambda>x. workflow_key (wf_ResolvedRepositoryID x) (wf_Path x))
            (\<lambda>x. workflow_key (gw_RepositoryID x) (gw_Path x)) workflow_agrees (wr_Workflows a) (gf_Workflows b) \<longleftrightarrow>
        spec_workflow ` set (wr_Workflows a) \<noteq> gh_workflow_of ` set (gf_Workflows b)"
    if "ru_Workflows r = Some a" "gu_Workflows g = Some b" for a b
    using that assms workflow_diff.keyed_differ_iff [of "wr_Workflows a" "gf_Workflows b"]
      workflow_diff.same_views_same_length [of "wr_Workflows a" "gf_Workflows b"] by auto
  then show ?thesis
    by (cases "ru_Workflows r"; cases "gu_Workflows g")
      (simp_all add: workflowsRuleDiffer_def spec_rules_def gh_rules_of_def)
qed

lemma copilotCodeReviewDiffer_iff:
  "copilotCodeReviewDiffer (ru_CopilotReview r) (gu_CopilotCodeReview g) \<longleftrightarrow>
     vr_CopilotReview (spec_rules r) \<noteq> vr_CopilotReview (gh_rules_of g)"
  by (auto simp: copilotCodeReviewDiffer_def spec_rules_def gh_rules_of_def split: option.splits)

lemma patternRuleDiffer_iff: "patternRuleDiffer p g \<longleftrightarrow> map_option spec_pattern p \<noteq> map_option gh_pattern_of g"
  by (auto simp: patternRuleDiffer_def spec_pattern_def gh_pattern_of_def split: option.splits)

lemma patternRulesDiffer_iff: "patternRulesDiffer r g \<longleftrightarrow> vr_patterns (spec_rules r) \<noteq> vr_patterns (gh_rules_of g)"
  by (simp add: patternRulesDiffer_def patternRuleDiffer_iff spec_rules_def gh_rules_of_def)

lemma rules_view_eq:
  "spec_rules r = gh_rules_of g \<longleftrightarrow>
     vr_toggles (spec_rules r) = vr_toggles (gh_rules_of g) \<and> vr_PullRequest (spec_rules r) = vr_PullRequest (gh_rules_of g) \<and>
     vr_RequiredStatusChecks (spec_rules r) = vr_RequiredStatusChecks (gh_rules_of g) \<and>
     vr_CopilotReview (spec_rules r) = vr_CopilotReview (gh_rules_of g) \<and>
     vr_Workflows (spec_rules r) = vr_Workflows (gh_rules_of g) \<and> vr_patterns (spec_rules r) = vr_patterns (gh_rules_of g)"
  by (rule iffI) (simp_all add: rules_view.equality)

lemma hasAnyRulesSet_iff: "hasAnyRulesSet r \<longleftrightarrow> spec_rules r \<noteq> gh_rules_of no_gh_rules"
  unfolding rules_view_eq by (auto simp: hasAnyRulesSet_def spec_rules_def gh_rules_of_def no_gh_rules_def)

lemma rulesetRulesDiffer_iff:
  assumes "rules_wf r" and "pred_option gh_rules_wf g"
  shows "rulesetRulesDiffer r g \<longleftrightarrow> spec_rules r \<noteq> gh_rules_of (WithDefault g no_gh_rules)"
proof (cases g)
  case None
  then show ?thesis by (simp add: rulesetRulesDiffer_def hasAnyRulesSet_iff)
next
  case (Some x)
  have w: "gh_rules_wf x" using assms(2) Some by simp
  have t: "vr_toggles (spec_rules r) = vr_toggles (gh_rules_of x) \<longleftrightarrow>
      WithDefault (ru_Creation r) False = (gu_Creation x \<noteq> None) \<and>
      WithDefault (ru_Update r) False = (gu_Update x \<noteq> None) \<and>
      WithDefault (ru_Deletion r) False = (gu_Deletion x \<noteq> None) \<and>
      WithDefault (ru_RequiredLinearHistory r) False = (gu_RequiredLinearHistory x \<noteq> None) \<and>
      WithDefault (ru_NonFastForward r) False = (gu_NonFastForward x \<noteq> None) \<and>
      WithDefault (ru_RequiredSignatures r) False = (gu_RequiredSignatures x \<noteq> None)"
    by (simp add: spec_rules_def gh_rules_of_def)
  note parts = pullRequestRulesDiffer_iff [of r x] requiredStatusChecksDiffer_iff [of r x] workflowsRuleDiffer_iff [of r x]
  show ?thesis
    using parts assms(1) w
    unfolding Some rulesetRulesDiffer_def WithDefault_simps option.case rules_view_eq t rules_wf_def gh_rules_wf_def
      copilotCodeReviewDiffer_iff patternRulesDiffer_iff
    by argo
qed


section \<open>A mapped ruleset and its spec\<close>

lemma put_all_map:
  assumes "\<And>x. ky (f x) = kx x" and "\<And>k. map_get my k = map_option f (map_get mx k)"
  shows "map_get (put_all ky (\<lambda>y. y) (map f xs) my) k = map_option f (map_get (put_all kx (\<lambda>x. x) xs mx) k)"
  using assms(2)
proof (induction xs arbitrary: mx my)
  case (Cons x xs)
  show ?case
    unfolding list.map put_all_simps
    by (rule Cons.IH) (simp add: assms(1) Cons.prems)
qed simp

lemma keyed_differ_map:
  assumes "\<And>x. ky (f x) = kx x" and "\<And>x. agree x (f x)"
  shows "\<not> keyed_differ kx ky agree xs (map f xs)"
proof -
  have "map_get (put_all kx (\<lambda>x. x) xs []) k = Some x" if "(k, x) \<in> set (put_all kx (\<lambda>x. x) xs [])" for k x
    using that by (metis gomap_in_iff gomap_ok_put_all gomap_ok_Nil)
  then show ?thesis
    by (auto simp: keyed_differ_def Let_def list_ex_iff put_all_map [where f = f and kx = kx and mx = "[]"] assms)
qed

lemma mapped_actors_match: "\<not> bypassActorsDiffer xs (map map_bypass_actor xs)"
  by (simp add: bypassActorsDiffer_def) (rule keyed_differ_map,
    simp_all add: gh_actor_key_def map_bypass_actor_def actor_agrees_def)

lemma mapped_targets_match: "\<not> propertyTargetsDiffer xs (mapRepositoryPropertyTargets xs)"
  unfolding propertyTargetsDiffer_def mapRepositoryPropertyTargets_def
  by (rule keyed_differ_map) (simp_all add: target_agrees_def)

lemma mapped_conditions_match:
  "conditionsDiffer cs (mapConditions cs) \<longleftrightarrow>
     (\<exists>c. cs = Some c \<and> cd_RepositoryName c \<noteq> None \<and> cd_RepositoryProperty c \<noteq> None)"
proof (cases cs)
  case (Some c)
  have "length (mapRepositoryPropertyTargets ts) = length ts" for ts by (simp add: mapRepositoryPropertyTargets_def)
  then show ?thesis
    by (auto simp: Some conditionsDiffer_def mapConditions_def refNameConditionsDiffer_def
        repositoryNameConditionsDiffer_def repositoryPropertyConditionsDiffer_def mapped_targets_match split: option.splits)
qed (simp add: conditionsDiffer_def mapConditions_def)

lemma mapped_reviewers_match:
  assumes "distinct (map reviewer_key xs)"
  shows "\<not> requiredReviewersDiffer xs (mapRequiredReviewers xs)"
proof -
  have "map_get (put_all reviewer_key (\<lambda>r. r) xs []) (reviewer_key r) = Some r" if "r \<in> set xs" for r
    using put_all_distinct [OF assms that] .
  then show ?thesis
    by (auto simp: requiredReviewersDiffer_def mapRequiredReviewers_def Let_def list_ex_iff reviewer_key_def)
qed

lemma mapped_checks_match: "\<not> requiredStatusChecksDiffer c (map_option map_status_checks c)"
proof (cases c)
  case (Some x)
  have "\<not> keyed_differ ck_Context gk_Context (\<lambda>k c. ck_IntegrationID k = gk_IntegrationID c) (sc_Checks x)
          (map (\<lambda>k. \<lparr>gk_Context = ck_Context k,
            gk_IntegrationID = (case ck_IntegrationID k of None \<Rightarrow> None | Some i \<Rightarrow> Some i)\<rparr>) (sc_Checks x))"
    by (rule keyed_differ_map) (simp_all split: option.split)
  then show ?thesis by (simp add: Some requiredStatusChecksDiffer_def map_status_checks_def)
qed (simp add: requiredStatusChecksDiffer_def)

lemma mapped_workflows_match: "\<not> workflowsRuleDiffer w (map_option map_workflows w)"
proof (cases w)
  case (Some x)
  have "\<not> keyed_differ (\<lambda>x. workflow_key (wf_ResolvedRepositoryID x) (wf_Path x))
      (\<lambda>x. workflow_key (gw_RepositoryID x) (gw_Path x)) workflow_agrees (wr_Workflows x)
      (map (\<lambda>x. \<lparr>gw_Path = wf_Path x, gw_RepositoryID = wf_ResolvedRepositoryID x, gw_Ref = wf_Ref x\<rparr>) (wr_Workflows x))"
    by (rule keyed_differ_map) (simp_all add: workflow_agrees_def)
  then show ?thesis by (simp add: Some workflowsRuleDiffer_def map_workflows_def)
qed (simp add: workflowsRuleDiffer_def)

lemma mapped_pattern_matches: "\<not> patternRuleDiffer p (map_pattern p)"
  by (simp add: patternRuleDiffer_def map_pattern_def split: option.split)

lemma mapped_toggle: "(map_toggle b x \<noteq> None) = WithDefault b False"
  by (simp add: map_toggle_def)

lemma mapped_rules_match:
  assumes "pred_option (\<lambda>p. distinct (map reviewer_key (pr_RequiredReviewers p))) (ru_PullRequest r)"
  shows "\<not> rulesetRulesDiffer r (gs_Rules (mapRules r g))"
proof -
  have pr: "\<not> pullRequestRulesDiffer (ru_PullRequest r) (map_option map_pull_request (ru_PullRequest r))"
    using assms by (cases "ru_PullRequest r") (simp_all add: pullRequestRulesDiffer_def map_pull_request_def mapped_reviewers_match)
  have cp: "\<not> copilotCodeReviewDiffer (ru_CopilotReview r) (map_option map_copilot_review (ru_CopilotReview r))"
    by (simp add: copilotCodeReviewDiffer_def map_copilot_review_def split: option.split)
  show ?thesis
    using pr cp
    by (simp add: mapRules_def mapPatternRules_def rulesetRulesDiffer_def patternRulesDiffer_def no_gh_rules_def Let_def
        mapped_pattern_matches mapped_checks_match mapped_workflows_match mapped_toggle del: not_None_eq)
qed

definition ex_spec :: ruleset_spec where
  "ex_spec = (bare_spec ''main'' [] ''active'')
     \<lparr>rs_Target := ''branch'',
      rs_BypassActors := [\<lparr>ba_ActorID = Some 5, ba_ActorSlug = None, ba_ActorType = ''Team'', ba_BypassMode = ''always''\<rparr>],
      rs_Conditions := Some \<lparr>cd_RefName = Some \<lparr>rn_Include = [''a'', ''b''], rn_Exclude = []\<rparr>,
        cd_RepositoryName = None, cd_RepositoryProperty = None\<rparr>,
      rs_Rules := no_rules\<lparr>ru_Deletion := Some True,
        ru_RequiredStatusChecks := Some \<lparr>sc_Checks = [\<lparr>ck_Context = ''ci'', ck_IntegrationID = Some 7, ck_AppSlug = None\<rparr>],
          sc_StrictPolicy = None\<rparr>\<rparr>\<rparr>"

definition ex_on_github :: gh_ruleset where
  "ex_on_github =
     \<lparr>gs_ID = Some 1, gs_Name = ''main'', gs_Target = None, gs_Enforcement = ''active'',
      gs_BypassActors = [\<lparr>gb_ActorID = Some 5, gb_ActorType = Some ''Team'', gb_BypassMode = Some ''always''\<rparr>],
      gs_Conditions = Some \<lparr>gc_RefName = Some \<lparr>gr_Include = [''b'', ''a''], gr_Exclude = []\<rparr>,
        gc_RepositoryName = None, gc_RepositoryProperty = None\<rparr>,
      gs_Rules = Some (no_gh_rules\<lparr>gu_Deletion := Some (),
        gu_RequiredStatusChecks := Some \<lparr>gx_RequiredStatusChecks = [\<lparr>gk_Context = ''ci'', gk_IntegrationID = Some 7\<rparr>],
          gx_StrictRequiredStatusChecksPolicy = False\<rparr>\<rparr>)\<rparr>"

lemma ex_wf: "spec_wf ex_spec" "gh_wf ex_on_github"
  by (simp_all add: spec_wf_def gh_wf_def ex_spec_def ex_on_github_def bare_spec_def no_rules_def no_gh_rules_def
      conditions_wf_def gh_conditions_wf_def rules_wf_def gh_rules_wf_def)




definition with_merge_methods :: "string list \<Rightarrow> gh_ruleset \<Rightarrow> gh_ruleset" where
  "with_merge_methods ms g =
     g\<lparr>gs_Rules := map_option (\<lambda>r. r\<lparr>gu_PullRequest :=
         map_option (\<lambda>p. p\<lparr>gl_AllowedMergeMethods := ms\<rparr>) (gu_PullRequest r)\<rparr>) (gs_Rules g)\<rparr>"

text \<open>The merge methods of an existing ruleset are never compared: whatever they are on GitHub, the
  answer of the comparison is the same, so changing only the allowed merge methods of a spec is not
  rolled out to a ruleset that exists.\<close>

lemma merge_methods_not_compared:
  "RulesetsDiffer spec (with_merge_methods ms g) = RulesetsDiffer spec g"
proof -
  have "pullRequestRulesDiffer p (map_option (\<lambda>q. q\<lparr>gl_AllowedMergeMethods := ms\<rparr>) q) = pullRequestRulesDiffer p q" for p q
    by (simp add: pullRequestRulesDiffer_def split: option.split)
  then have "rulesetRulesDiffer r (gs_Rules (with_merge_methods ms g)) = rulesetRulesDiffer r (gs_Rules g)" for r
    by (simp add: with_merge_methods_def rulesetRulesDiffer_def patternRulesDiffer_def split: option.split)
  then show ?thesis by (simp add: RulesetsDiffer_def) (simp add: with_merge_methods_def)
qed

end
