(* ===== verification/IdResolver.thy ===== *)
theory IdResolver
  imports RulesetMapper
begin

text \<open>
  Resolving slugs to numeric IDs: \<^verbatim>\<open>internal/reconciler/common/idresolver/resolver.go\<close>. The GitHub client is
  a record of functions of the number of API calls the resolver has made so far, so the answers may
  change over time. \<^verbatim>\<open>InvalidateCache\<close> has no effect here beyond that. The resolver writes
  through the pointers inside \<^verbatim>\<open>rs.Rules\<close>: a second attempt sees the rules as the first one left them
  and the bypass actors as they were. The theorems say what a resolved ruleset looks like, and when
  resolving succeeds.
\<close>

section \<open>The resolver and its client\<close>

record gh_installation =
  in_AppSlug :: "string option"
  in_AppID :: "int option"

record gh_named_entity =
  ne_Name :: "string option"
  ne_ID :: "int option"

record id_client =
  GetGitHubAppsInstallations :: "nat \<Rightarrow> (go_error, gh_installation list) result"
  GetAllTeamsForOrg :: "nat \<Rightarrow> (go_error, gh_named_entity list) result"
  GetAllOrgRoles :: "nat \<Rightarrow> (go_error, gh_named_entity list) result"
  GetRepository :: "nat \<Rightarrow> string \<Rightarrow> (go_error, int option) result"

record id_resolver =
  ir_orgName :: string
  appsBySlug :: "(string, int option) gomap"
  teamsBySlug :: "(string, int) gomap"
  rolesByName :: "(string, int) gomap"
  ir_calls :: nat

definition notFound :: "string \<Rightarrow> go_error" where
  "notFound message = UnresolvableReferenceError message True"

definition unresolvable :: "string \<Rightarrow> go_error" where
  "unresolvable message = UnresolvableReferenceError message False"

text \<open>The map of the teams, and of the roles, that have a name.\<close>

definition named_ids :: "gh_named_entity list \<Rightarrow> (string, int) gomap" where
  "named_ids es =
     put_all (\<lambda>e. WithDefault (ne_Name e) []) (\<lambda>e. WithDefault (ne_ID e) 0) (filter (\<lambda>e. ne_Name e \<noteq> None) es) []"

definition loadLookUpMaps :: "id_client \<Rightarrow> id_resolver \<Rightarrow> id_resolver \<times> go_error option" where
  "loadLookUpMaps cl r =
     (let n = ir_calls r in
      case GetGitHubAppsInstallations cl n of
        Inl e \<Rightarrow> (r\<lparr>ir_calls := n + 1\<rparr>,
          Some (WrapError (''failed to load GitHub App installations for org '' @ ir_orgName r) e))
      | Inr apps \<Rightarrow>
          (case GetAllTeamsForOrg cl (n + 1) of
             Inl e \<Rightarrow> (r\<lparr>ir_calls := n + 2\<rparr>, Some (WrapError (''failed to load teams for org '' @ ir_orgName r) e))
           | Inr teams \<Rightarrow>
               (case GetAllOrgRoles cl (n + 2) of
                  Inl e \<Rightarrow> (r\<lparr>ir_calls := n + 3\<rparr>, Some (WrapError (''failed to load org roles for org '' @ ir_orgName r) e))
                | Inr roles \<Rightarrow>
                    (r\<lparr>appsBySlug := put_all (\<lambda>i. WithDefault (in_AppSlug i) []) in_AppID apps [],
                       teamsBySlug := named_ids teams, rolesByName := named_ids roles, ir_calls := n + 3\<rparr>, None))))"

definition NewResolver :: "id_client \<Rightarrow> string \<Rightarrow> (go_error, id_resolver) result" where
  "NewResolver cl org =
     (case loadLookUpMaps cl \<lparr>ir_orgName = org, appsBySlug = [], teamsBySlug = [], rolesByName = [], ir_calls = 0\<rparr> of
        (r, Some e) \<Rightarrow> Inl e
      | (r, None) \<Rightarrow> Inr r)"

text \<open>A resolver without a client, which only tests build, cannot refresh; here the client is always there.\<close>

definition refreshMaps :: "id_client \<Rightarrow> id_resolver \<Rightarrow> id_resolver \<times> bool" where
  "refreshMaps cl r = (case loadLookUpMaps cl r of (r', e) \<Rightarrow> (r', e = None))"

section \<open>Looking up one reference\<close>

definition ResolveTeamSlug :: "id_resolver \<Rightarrow> string \<Rightarrow> (go_error, int) result" where
  "ResolveTeamSlug r slug =
     (case map_get (teamsBySlug r) slug of
        None \<Rightarrow> Inl (notFound (''team with slug '' @ quoted slug @ '' not found in org '' @ ir_orgName r))
      | Some i \<Rightarrow> Inr i)"

definition ResolveRoleName :: "id_resolver \<Rightarrow> string \<Rightarrow> (go_error, int) result" where
  "ResolveRoleName r name =
     (case map_get (rolesByName r) name of
        None \<Rightarrow> Inl (notFound (''org role with name '' @ quoted name @ '' not found in org '' @ ir_orgName r))
      | Some i \<Rightarrow> Inr i)"

definition resolveAppSlug :: "id_resolver \<Rightarrow> string \<Rightarrow> (go_error, int option) result" where
  "resolveAppSlug r slug =
     (case map_get (appsBySlug r) slug of
        None \<Rightarrow> Inl (notFound (''no GitHub App with slug '' @ slug @ '' installed on org '' @ ir_orgName r))
      | Some i \<Rightarrow> Inr i)"

text \<open>The closures that turn an ID into a pointer to it.\<close>

definition some_id :: "(go_error, int) result \<Rightarrow> (go_error, int option) result" where
  "some_id x = (case x of Inl e \<Rightarrow> Inl e | Inr i \<Rightarrow> Inr (Some i))"

definition resolveBypassActorWith ::
    "ruleset_bypass_actor \<Rightarrow> (string \<Rightarrow> (go_error, int option) result) \<Rightarrow> (go_error, ruleset_bypass_actor) result" where
  "resolveBypassActorWith actor resolver =
     (if ba_ActorID actor \<noteq> None then Inr actor
      else
        (case ba_ActorSlug actor of
           None \<Rightarrow> Inl (unresolvable (''bypass actor with type '' @ ba_ActorType actor @
             '' requires either actor_id or actor_slug to be set''))
         | Some slug \<Rightarrow>
             (case resolver slug of
                Inl e \<Rightarrow> Inl e
              | Inr i \<Rightarrow> Inr (actor\<lparr>ba_ActorID := i\<rparr>))))"

definition resolve_actor :: "id_resolver \<Rightarrow> ruleset_bypass_actor \<Rightarrow> (go_error, ruleset_bypass_actor) result" where
  "resolve_actor r a =
     (if ba_ActorType a = ''Team'' then resolveBypassActorWith a (\<lambda>slug. some_id (ResolveTeamSlug r slug))
      else if ba_ActorType a = ''Integration'' then resolveBypassActorWith a (resolveAppSlug r)
      else if ba_ActorType a = ''RepositoryRole'' then resolveBypassActorWith a (\<lambda>slug. some_id (ResolveRoleName r slug))
      else if ba_ActorType a = ''DeployKey'' then Inr (a\<lparr>ba_ActorID := None, ba_ActorSlug := None\<rparr>)
      else Inr a)"

section \<open>Resolving a ruleset\<close>

definition resolveBypassActors :: "id_resolver \<Rightarrow> ruleset_spec \<Rightarrow> ruleset_spec \<times> go_error option" where
  "resolveBypassActors r rs =
     (case map_result (resolve_actor r) (rs_BypassActors rs) of
        Inl e \<Rightarrow> (rs, Some e)
      | Inr as \<Rightarrow> (rs\<lparr>rs_BypassActors := as\<rparr>, None))"

fun resolve_workflow_list ::
    "id_client \<Rightarrow> rule_workflow list \<Rightarrow> id_resolver \<Rightarrow> id_resolver \<times> rule_workflow list \<times> go_error option" where
  "resolve_workflow_list cl [] r = (r, [], None)"
| "resolve_workflow_list cl (w # ws) r =
     (if wf_ResolvedRepositoryID w \<noteq> None
      then (case resolve_workflow_list cl ws r of (r', ws', e) \<Rightarrow> (r', w # ws', e))
      else
        (case GetRepository cl (ir_calls r) (wf_RepositoryName w) of
           Inl e \<Rightarrow> (r\<lparr>ir_calls := ir_calls r + 1\<rparr>, w # ws,
             Some (WrapError (''failed to resolve workflow repository '' @ quoted (wf_RepositoryName w) @ '' to ID'') e))
         | Inr i \<Rightarrow>
             (case resolve_workflow_list cl ws (r\<lparr>ir_calls := ir_calls r + 1\<rparr>) of
                (r', ws', e) \<Rightarrow> (r', w\<lparr>wf_ResolvedRepositoryID := i\<rparr> # ws', e))))"

definition resolveWorkflowRepositoryNames ::
    "id_client \<Rightarrow> id_resolver \<Rightarrow> ruleset_spec \<Rightarrow> id_resolver \<times> ruleset_spec \<times> go_error option" where
  "resolveWorkflowRepositoryNames cl r rs =
     (case ru_Workflows (rs_Rules rs) of
        None \<Rightarrow> (r, rs, None)
      | Some w \<Rightarrow>
          (case resolve_workflow_list cl (wr_Workflows w) r of
             (r', ws, e) \<Rightarrow>
               (r', rs\<lparr>rs_Rules := (rs_Rules rs)\<lparr>ru_Workflows := Some (w\<lparr>wr_Workflows := ws\<rparr>)\<rparr>\<rparr>, e)))"

definition resolve_check :: "id_resolver \<Rightarrow> status_check \<Rightarrow> status_check" where
  "resolve_check r c =
     (case ck_AppSlug c of
        None \<Rightarrow> c
      | Some slug \<Rightarrow> c\<lparr>ck_IntegrationID := (case resolveAppSlug r slug of Inl e \<Rightarrow> None | Inr i \<Rightarrow> i)\<rparr>)"

definition resolveStatusCheckAppSlugs :: "id_resolver \<Rightarrow> ruleset_spec \<Rightarrow> ruleset_spec" where
  "resolveStatusCheckAppSlugs r rs =
     (case ru_RequiredStatusChecks (rs_Rules rs) of
        None \<Rightarrow> rs
      | Some c \<Rightarrow> rs\<lparr>rs_Rules := (rs_Rules rs)\<lparr>ru_RequiredStatusChecks :=
          Some (c\<lparr>sc_Checks := map (resolve_check r) (sc_Checks c)\<rparr>)\<rparr>\<rparr>)"

definition resolve_reviewer :: "id_resolver \<Rightarrow> required_reviewer \<Rightarrow> (go_error, required_reviewer) result" where
  "resolve_reviewer r v =
     (case (re_ID (rv_Reviewer v), re_Slug (rv_Reviewer v)) of
        (None, Some slug) \<Rightarrow>
          (if re_Type (rv_Reviewer v) = ''Team''
           then
             (case ResolveTeamSlug r slug of
                Inl e \<Rightarrow> Inl (WrapError (''failed to resolve required reviewer slug '' @ quoted slug @ '' to ID'') e)
              | Inr i \<Rightarrow> Inr (v\<lparr>rv_Reviewer := (rv_Reviewer v)\<lparr>re_ID := Some i\<rparr>\<rparr>))
           else Inl (unresolvable (''unsupported required reviewer type '' @ quoted (re_Type (rv_Reviewer v)) @
             '' for slug resolution'')))
      | _ \<Rightarrow> Inr v)"

definition resolveRequiredReviewerSlugs :: "id_resolver \<Rightarrow> ruleset_spec \<Rightarrow> ruleset_spec \<times> go_error option" where
  "resolveRequiredReviewerSlugs r rs =
     (case ru_PullRequest (rs_Rules rs) of
        None \<Rightarrow> (rs, None)
      | Some p \<Rightarrow>
          (case map_result (resolve_reviewer r) (pr_RequiredReviewers p) of
             Inl e \<Rightarrow> (rs, Some e)
           | Inr vs \<Rightarrow>
               (rs\<lparr>rs_Rules := (rs_Rules rs)\<lparr>ru_PullRequest := Some (p\<lparr>pr_RequiredReviewers := vs\<rparr>)\<rparr>\<rparr>, None)))"

definition doResolveRuleset ::
    "id_client \<Rightarrow> id_resolver \<Rightarrow> ruleset_spec \<Rightarrow> id_resolver \<times> ruleset_spec \<times> go_error option" where
  "doResolveRuleset cl r rs =
     (case resolveBypassActors r rs of
        (rs1, Some e) \<Rightarrow> (r, rs1, Some e)
      | (rs1, None) \<Rightarrow>
          (case resolveWorkflowRepositoryNames cl r rs1 of
             (r2, rs2, Some e) \<Rightarrow> (r2, rs2, Some e)
           | (r2, rs2, None) \<Rightarrow>
               (case resolveRequiredReviewerSlugs r2 (resolveStatusCheckAppSlugs r2 rs2) of
                  (rs3, e) \<Rightarrow> (r2, rs3, e))))"

definition ResolveRuleset ::
    "id_client \<Rightarrow> id_resolver \<Rightarrow> ruleset_spec \<Rightarrow> id_resolver \<times> ruleset_spec \<times> go_error option" where
  "ResolveRuleset cl r rs =
     (case doResolveRuleset cl r rs of
        (r1, rs1, None) \<Rightarrow> (r1, rs1, None)
      | (r1, rs1, Some e) \<Rightarrow>
          (case refreshMaps cl r1 of
             (r2, True) \<Rightarrow> doResolveRuleset cl r2 (rs\<lparr>rs_Rules := rs_Rules rs1\<rparr>)
           | (r2, False) \<Rightarrow> (r2, rs1, Some e)))"

section \<open>Bypass reviewers of a code security configuration\<close>

text \<open>
  Of the configuration only the reviewers of its delegated bypass options are read or changed. The code
  updates the reviewers through their pointers; a reviewer with a name is looked up again in the second
  attempt, so what the first one left does not matter.
\<close>

record bypass_reviewer =
  br_ReviewerName :: "string option"
  br_ReviewerId :: "int option"
  br_ReviewerType :: string

definition resolve_bypass_reviewer :: "id_resolver \<Rightarrow> bypass_reviewer \<Rightarrow> (go_error, bypass_reviewer) result" where
  "resolve_bypass_reviewer r v =
     (case br_ReviewerName v of
        None \<Rightarrow> Inr v
      | Some name \<Rightarrow>
          (if br_ReviewerType v = ''TEAM''
           then (case ResolveTeamSlug r name of Inl e \<Rightarrow> Inl e | Inr i \<Rightarrow> Inr (v\<lparr>br_ReviewerId := Some i\<rparr>))
           else if br_ReviewerType v = ''ROLE''
           then (case ResolveRoleName r name of Inl e \<Rightarrow> Inl e | Inr i \<Rightarrow> Inr (v\<lparr>br_ReviewerId := Some i\<rparr>))
           else Inr v))"

definition doResolveCscBypassReviewers ::
    "id_resolver \<Rightarrow> bypass_reviewer list option \<Rightarrow> (go_error, bypass_reviewer list option) result" where
  "doResolveCscBypassReviewers r reviewers =
     (case reviewers of
        None \<Rightarrow> Inr None
      | Some vs \<Rightarrow>
          (case map_result (resolve_bypass_reviewer r) vs of Inl e \<Rightarrow> Inl e | Inr ws \<Rightarrow> Inr (Some ws)))"

definition ResolveCscBypassReviewers ::
    "id_client \<Rightarrow> id_resolver \<Rightarrow> bypass_reviewer list option \<Rightarrow>
     id_resolver \<times> (go_error, bypass_reviewer list option) result" where
  "ResolveCscBypassReviewers cl r reviewers =
     (case doResolveCscBypassReviewers r reviewers of
        Inr x \<Rightarrow> (r, Inr x)
      | Inl e \<Rightarrow>
          (case refreshMaps cl r of
             (r2, True) \<Rightarrow> (r2, doResolveCscBypassReviewers r2 reviewers)
           | (r2, False) \<Rightarrow> (r2, Inl e)))"

section \<open>What a resolved ruleset looks like\<close>

text \<open>The type an actor or reviewer is looked up by, and when it has what a look-up needs.\<close>

definition actor_ok :: "id_resolver \<Rightarrow> ruleset_bypass_actor \<Rightarrow> bool" where
  "actor_ok r a \<longleftrightarrow>
     (ba_ActorType a \<in> {''Team'', ''Integration'', ''RepositoryRole''} \<and> ba_ActorID a = None \<longrightarrow>
        (\<exists>slug. ba_ActorSlug a = Some slug \<and>
           slug \<in> (if ba_ActorType a = ''Team'' then dom (map_get (teamsBySlug r))
                  else if ba_ActorType a = ''Integration'' then dom (map_get (appsBySlug r))
                  else dom (map_get (rolesByName r)))))"

definition reviewer_ok :: "id_resolver \<Rightarrow> required_reviewer \<Rightarrow> bool" where
  "reviewer_ok r v \<longleftrightarrow>
     (\<forall>slug. re_ID (rv_Reviewer v) = None \<and> re_Slug (rv_Reviewer v) = Some slug \<longrightarrow>
        re_Type (rv_Reviewer v) = ''Team'' \<and> slug \<in> dom (map_get (teamsBySlug r)))"

definition refs_ok :: "id_resolver \<Rightarrow> ruleset_spec \<Rightarrow> bool" where
  "refs_ok r rs \<longleftrightarrow>
     (\<forall>a \<in> set (rs_BypassActors rs). actor_ok r a) \<and>
     (\<forall>p. ru_PullRequest (rs_Rules rs) = Some p \<longrightarrow> (\<forall>v \<in> set (pr_RequiredReviewers p). reviewer_ok r v))"

lemma resolve_actor_iff: "(\<exists>a'. resolve_actor r a = Inr a') \<longleftrightarrow> actor_ok r a"
  by (auto simp: resolve_actor_def actor_ok_def resolveBypassActorWith_def some_id_def ResolveTeamSlug_def
      resolveAppSlug_def ResolveRoleName_def split: option.splits sum.splits if_splits)

lemma resolve_reviewer_iff: "(\<exists>v'. resolve_reviewer r v = Inr v') \<longleftrightarrow> reviewer_ok r v"
  by (auto simp: resolve_reviewer_def reviewer_ok_def ResolveTeamSlug_def split: option.splits sum.splits if_splits)

lemma workflow_list_maps:
  assumes "resolve_workflow_list cl ws r = (r', ws', e)"
  shows "appsBySlug r' = appsBySlug r \<and> teamsBySlug r' = teamsBySlug r \<and> rolesByName r' = rolesByName r \<and> ir_orgName r' = ir_orgName r"
  using assms
  by (induction cl ws r arbitrary: r' ws' e rule: resolve_workflow_list.induct)
    (auto split: if_splits sum.splits prod.splits)

lemma refs_ok_cong:
  assumes "appsBySlug r' = appsBySlug r" "teamsBySlug r' = teamsBySlug r" "rolesByName r' = rolesByName r"
  shows "refs_ok r' rs = refs_ok r rs" "actor_ok r' a = actor_ok r a" "reviewer_ok r' v = reviewer_ok r v"
  using assms by (simp_all add: refs_ok_def actor_ok_def reviewer_ok_def)

text \<open>What resolving changes of one entry.\<close>

definition actor_resolved :: "ruleset_bypass_actor \<Rightarrow> ruleset_bypass_actor \<Rightarrow> bool" where
  "actor_resolved a a' \<longleftrightarrow>
     ba_ActorType a' = ba_ActorType a \<and> ba_BypassMode a' = ba_BypassMode a \<and>
     (ba_ActorType a \<in> {''Team'', ''RepositoryRole''} \<longrightarrow> ba_ActorID a' \<noteq> None) \<and>
     (ba_ActorType a \<noteq> ''DeployKey'' \<and> ba_ActorID a \<noteq> None \<longrightarrow> a' = a) \<and>
     (ba_ActorType a = ''DeployKey'' \<longrightarrow> ba_ActorID a' = None \<and> ba_ActorSlug a' = None)"

lemma resolve_actor_resolved: "resolve_actor r a = Inr a' \<Longrightarrow> actor_resolved a a'"
  by (auto simp: resolve_actor_def actor_resolved_def resolveBypassActorWith_def some_id_def ResolveTeamSlug_def
      resolveAppSlug_def ResolveRoleName_def split: option.splits sum.splits if_splits) (metis)+

definition reviewer_resolved :: "required_reviewer \<Rightarrow> required_reviewer \<Rightarrow> bool" where
  "reviewer_resolved v v' \<longleftrightarrow>
     rv_MinimumApprovals v' = rv_MinimumApprovals v \<and> rv_FilePatterns v' = rv_FilePatterns v \<and>
     re_Type (rv_Reviewer v') = re_Type (rv_Reviewer v) \<and>
     (re_ID (rv_Reviewer v) \<noteq> None \<longrightarrow> v' = v) \<and>
     (re_Slug (rv_Reviewer v) \<noteq> None \<longrightarrow> re_ID (rv_Reviewer v') \<noteq> None)"

lemma resolve_reviewer_resolved: "resolve_reviewer r v = Inr v' \<Longrightarrow> reviewer_resolved v v'"
  by (auto simp: resolve_reviewer_def reviewer_resolved_def ResolveTeamSlug_def split: option.splits sum.splits if_splits)

definition workflow_resolved :: "rule_workflow \<Rightarrow> rule_workflow \<Rightarrow> bool" where
  "workflow_resolved w w' \<longleftrightarrow>
     w'\<lparr>wf_ResolvedRepositoryID := wf_ResolvedRepositoryID w\<rparr> = w \<and>
     (wf_ResolvedRepositoryID w \<noteq> None \<longrightarrow> w' = w)"

lemma workflow_list_resolved:
  "resolve_workflow_list cl ws r = (r', ws', e) \<Longrightarrow> list_all2 workflow_resolved ws ws'"
proof (induction cl ws r arbitrary: r' ws' e rule: resolve_workflow_list.induct)
  case (2 cl w ws r)
  then show ?case
    by (auto simp: workflow_resolved_def list.rel_refl split: if_splits sum.splits prod.splits)
qed simp

text \<open>
  The frame: the parts of a spec that resolving may change, with the relation between the entries before
  and after. Entries that the first attempt resolved may be resolved again by the second.
\<close>

definition spec_resolved :: "ruleset_spec \<Rightarrow> ruleset_spec \<Rightarrow> bool" where
  "spec_resolved rs rs' \<longleftrightarrow>
     list_all2 actor_resolved (rs_BypassActors rs) (rs_BypassActors rs') \<and>
     rel_option (\<lambda>w w'. wr_DoNotEnforceOnCreate w' = wr_DoNotEnforceOnCreate w \<and>
         list_all2 workflow_resolved (wr_Workflows w) (wr_Workflows w')) (ru_Workflows (rs_Rules rs)) (ru_Workflows (rs_Rules rs')) \<and>
     rel_option (\<lambda>c c'. sc_StrictPolicy c' = sc_StrictPolicy c \<and>
         list_all2 (\<lambda>k k'. ck_Context k' = ck_Context k \<and> (ck_AppSlug k = None \<longrightarrow> k' = k)) (sc_Checks c) (sc_Checks c'))
       (ru_RequiredStatusChecks (rs_Rules rs)) (ru_RequiredStatusChecks (rs_Rules rs')) \<and>
     rel_option (\<lambda>p p'. p'\<lparr>pr_RequiredReviewers := pr_RequiredReviewers p\<rparr> = p \<and>
         list_all2 reviewer_resolved (pr_RequiredReviewers p) (pr_RequiredReviewers p'))
       (ru_PullRequest (rs_Rules rs)) (ru_PullRequest (rs_Rules rs')) \<and>
     rs'\<lparr>rs_BypassActors := rs_BypassActors rs,
        rs_Rules := (rs_Rules rs')\<lparr>ru_Workflows := ru_Workflows (rs_Rules rs),
          ru_RequiredStatusChecks := ru_RequiredStatusChecks (rs_Rules rs), ru_PullRequest := ru_PullRequest (rs_Rules rs)\<rparr>\<rparr> = rs"

text \<open>What the first attempt may leave behind for the second: workflows and status checks.\<close>

definition half_resolved :: "ruleset_spec \<Rightarrow> ruleset_spec \<Rightarrow> bool" where
  "half_resolved rs rs' \<longleftrightarrow>
     rel_option (\<lambda>w w'. wr_DoNotEnforceOnCreate w' = wr_DoNotEnforceOnCreate w \<and>
         list_all2 workflow_resolved (wr_Workflows w) (wr_Workflows w')) (ru_Workflows (rs_Rules rs)) (ru_Workflows (rs_Rules rs')) \<and>
     rel_option (\<lambda>c c'. sc_StrictPolicy c' = sc_StrictPolicy c \<and>
         list_all2 (\<lambda>k k'. ck_Context k' = ck_Context k \<and> ck_AppSlug k' = ck_AppSlug k \<and> (ck_AppSlug k = None \<longrightarrow> k' = k))
           (sc_Checks c) (sc_Checks c'))
       (ru_RequiredStatusChecks (rs_Rules rs)) (ru_RequiredStatusChecks (rs_Rules rs')) \<and>
     rs'\<lparr>rs_Rules := (rs_Rules rs')\<lparr>ru_Workflows := ru_Workflows (rs_Rules rs),
          ru_RequiredStatusChecks := ru_RequiredStatusChecks (rs_Rules rs)\<rparr>\<rparr> = rs"

lemma workflow_resolved_refl [simp]: "workflow_resolved w w"
  by (simp add: workflow_resolved_def)

lemma half_resolved_refl: "half_resolved rs rs"
  by (auto simp: half_resolved_def option.rel_refl list.rel_refl intro!: option.rel_refl list.rel_refl)

lemma resolve_check_keeps:
  "ck_Context (resolve_check r c) = ck_Context c" "ck_AppSlug (resolve_check r c) = ck_AppSlug c"
  "ck_AppSlug c = None \<Longrightarrow> resolve_check r c = c"
  by (simp_all add: resolve_check_def split: option.split)

lemma workflows_half:
  assumes "resolveWorkflowRepositoryNames cl r rs = (r', rs', e)"
  shows "half_resolved rs rs' \<and> rs_BypassActors rs' = rs_BypassActors rs \<and>
         appsBySlug r' = appsBySlug r \<and> teamsBySlug r' = teamsBySlug r \<and> rolesByName r' = rolesByName r"
proof (cases "ru_Workflows (rs_Rules rs)")
  case None
  then show ?thesis using assms half_resolved_refl by (auto simp: resolveWorkflowRepositoryNames_def)
next
  case (Some w)
  obtain ws where l: "resolve_workflow_list cl (wr_Workflows w) r = (r', ws, e)"
      "rs' = rs\<lparr>rs_Rules := (rs_Rules rs)\<lparr>ru_Workflows := Some (w\<lparr>wr_Workflows := ws\<rparr>)\<rparr>\<rparr>"
    using assms by (auto simp: resolveWorkflowRepositoryNames_def Some split: prod.splits)
  then show ?thesis
    using workflow_list_maps [OF l(1)] workflow_list_resolved [OF l(1)]
    by (simp add: half_resolved_def Some option.rel_refl list.rel_refl)
qed

lemma checks_half: "half_resolved rs (resolveStatusCheckAppSlugs r rs)"
proof (cases "ru_RequiredStatusChecks (rs_Rules rs)")
  case (Some c)
  then show ?thesis
    by (simp add: resolveStatusCheckAppSlugs_def half_resolved_def option.rel_refl list.rel_refl list_all2_map2
        resolve_check_keeps list_all2_same)
qed (simp add: resolveStatusCheckAppSlugs_def half_resolved_refl)

lemma half_resolved_fields:
  assumes "half_resolved rs rs1"
  shows "rs_BypassActors rs1 = rs_BypassActors rs" "ru_PullRequest (rs_Rules rs1) = ru_PullRequest (rs_Rules rs)"
proof -
  have "rs1\<lparr>rs_Rules := (rs_Rules rs1)\<lparr>ru_Workflows := ru_Workflows (rs_Rules rs),
      ru_RequiredStatusChecks := ru_RequiredStatusChecks (rs_Rules rs)\<rparr>\<rparr> = rs" (is "?x = rs")
    using assms by (simp add: half_resolved_def)
  then have "rs_BypassActors ?x = rs_BypassActors rs" "ru_PullRequest (rs_Rules ?x) = ru_PullRequest (rs_Rules rs)" by simp_all
  then show "rs_BypassActors rs1 = rs_BypassActors rs" "ru_PullRequest (rs_Rules rs1) = ru_PullRequest (rs_Rules rs)" by simp_all
qed

lemma rel_option_comp:
  assumes "rel_option P a b" and "rel_option Q b c" and "\<And>x y z. P x y \<Longrightarrow> Q y z \<Longrightarrow> R x z"
  shows "rel_option R a c"
  using assms by (cases a; cases b; cases c) auto

lemma workflow_resolved_trans: "workflow_resolved a b \<Longrightarrow> workflow_resolved b c \<Longrightarrow> workflow_resolved a c"
  by (cases a; cases b; cases c) (auto simp: workflow_resolved_def)

lemma workflows_comp:
  assumes "rel_option (\<lambda>w w'. wr_DoNotEnforceOnCreate w' = wr_DoNotEnforceOnCreate w \<and>
         list_all2 workflow_resolved (wr_Workflows w) (wr_Workflows w')) a b"
    and "rel_option (\<lambda>w w'. wr_DoNotEnforceOnCreate w' = wr_DoNotEnforceOnCreate w \<and>
         list_all2 workflow_resolved (wr_Workflows w) (wr_Workflows w')) b c"
  shows "rel_option (\<lambda>w w'. wr_DoNotEnforceOnCreate w' = wr_DoNotEnforceOnCreate w \<and>
         list_all2 workflow_resolved (wr_Workflows w) (wr_Workflows w')) a c"
  by (rule rel_option_comp [OF assms]) (auto intro: list_all2_trans [OF workflow_resolved_trans])

lemma half_then_spec:
  assumes "half_resolved rs rs1" and "spec_resolved rs1 rs2"
  shows "spec_resolved rs rs2"
proof -
  note f = half_resolved_fields [OF assms(1)]
  note a = assms(1) [unfolded half_resolved_def] and b = assms(2) [unfolded spec_resolved_def]
  have c: "rel_option (\<lambda>c c'. sc_StrictPolicy c' = sc_StrictPolicy c \<and>
         list_all2 (\<lambda>k k'. ck_Context k' = ck_Context k \<and> (ck_AppSlug k = None \<longrightarrow> k' = k)) (sc_Checks c) (sc_Checks c'))
       (ru_RequiredStatusChecks (rs_Rules rs)) (ru_RequiredStatusChecks (rs_Rules rs2))"
    by (rule rel_option_comp [OF a [THEN conjunct2, THEN conjunct1] b [THEN conjunct2, THEN conjunct2, THEN conjunct1]])
      (auto intro: list_all2_trans [rotated])
  have "rs2\<lparr>rs_BypassActors := rs_BypassActors rs,
        rs_Rules := (rs_Rules rs2)\<lparr>ru_Workflows := ru_Workflows (rs_Rules rs),
          ru_RequiredStatusChecks := ru_RequiredStatusChecks (rs_Rules rs), ru_PullRequest := ru_PullRequest (rs_Rules rs)\<rparr>\<rparr>
      = rs1\<lparr>rs_Rules := (rs_Rules rs1)\<lparr>ru_Workflows := ru_Workflows (rs_Rules rs),
          ru_RequiredStatusChecks := ru_RequiredStatusChecks (rs_Rules rs)\<rparr>\<rparr>"
    using b [THEN conjunct2, THEN conjunct2, THEN conjunct2, THEN conjunct2] f
    by (cases rs1, cases rs2, cases "rs_Rules rs1", cases "rs_Rules rs2") (auto)
  then show ?thesis
    using a b c f workflows_comp [OF a [THEN conjunct1] b [THEN conjunct2, THEN conjunct1]]
    by (simp add: spec_resolved_def)
qed

lemma half_refs_ok: "half_resolved rs rs1 \<Longrightarrow> refs_ok r rs1 = refs_ok r rs"
  by (simp add: refs_ok_def half_resolved_fields)

lemma half_resolved_trans:
  assumes "half_resolved rs rs1" and "half_resolved rs1 rs2"
  shows "half_resolved rs rs2"
proof -
  note f = half_resolved_fields [OF assms(1)] half_resolved_fields [OF assms(2)]
  note a = assms(1) [unfolded half_resolved_def] and b = assms(2) [unfolded half_resolved_def]
  have c: "rel_option (\<lambda>c c'. sc_StrictPolicy c' = sc_StrictPolicy c \<and>
         list_all2 (\<lambda>k k'. ck_Context k' = ck_Context k \<and> ck_AppSlug k' = ck_AppSlug k \<and> (ck_AppSlug k = None \<longrightarrow> k' = k))
           (sc_Checks c) (sc_Checks c'))
       (ru_RequiredStatusChecks (rs_Rules rs)) (ru_RequiredStatusChecks (rs_Rules rs2))"
    by (rule rel_option_comp [OF a [THEN conjunct2, THEN conjunct1] b [THEN conjunct2, THEN conjunct1]])
      (auto intro: list_all2_trans [rotated])
  have "rs2\<lparr>rs_Rules := (rs_Rules rs2)\<lparr>ru_Workflows := ru_Workflows (rs_Rules rs),
          ru_RequiredStatusChecks := ru_RequiredStatusChecks (rs_Rules rs)\<rparr>\<rparr>
      = rs1\<lparr>rs_Rules := (rs_Rules rs1)\<lparr>ru_Workflows := ru_Workflows (rs_Rules rs),
          ru_RequiredStatusChecks := ru_RequiredStatusChecks (rs_Rules rs)\<rparr>\<rparr>"
    using b [THEN conjunct2, THEN conjunct2] by (cases rs1, cases rs2, cases "rs_Rules rs1", cases "rs_Rules rs2") auto
  then show ?thesis
    using a c workflows_comp [OF a [THEN conjunct1] b [THEN conjunct1]] by (simp add: half_resolved_def)
qed

text \<open>One attempt: the steps after the bypass actors, and what they leave.\<close>

lemma doResolve_steps:
  assumes "resolveBypassActors r rs = (rs1, None)" and "resolveWorkflowRepositoryNames cl r rs1 = (r2, rs2, None)"
  obtains rs3 where "rs3 = resolveStatusCheckAppSlugs r2 rs2" "half_resolved rs1 rs3"
    "doResolveRuleset cl r rs = (r2, resolveRequiredReviewerSlugs r2 rs3)"
proof -
  have "half_resolved rs1 (resolveStatusCheckAppSlugs r2 rs2)"
    using workflows_half [OF assms(2)] checks_half half_resolved_trans by blast
  then show thesis
    by (rule that [OF refl]) (simp add: doResolveRuleset_def assms split: prod.split)
qed

lemma doResolve_ok:
  assumes "doResolveRuleset cl r rs = (r', rs', None)"
  shows "spec_resolved rs rs'"
proof -
  obtain as where as: "map_result (resolve_actor r) (rs_BypassActors rs) = Inr as"
    using assms by (auto simp: doResolveRuleset_def resolveBypassActors_def split: sum.splits)
  define rs1 where "rs1 = rs\<lparr>rs_BypassActors := as\<rparr>"
  have 1: "resolveBypassActors r rs = (rs1, None)" by (simp add: resolveBypassActors_def as rs1_def)
  obtain r2 rs2 where 2: "resolveWorkflowRepositoryNames cl r rs1 = (r2, rs2, None)"
    using assms by (auto simp: doResolveRuleset_def 1 split: prod.splits option.splits)
  obtain rs3 where 3: "half_resolved rs1 rs3" "doResolveRuleset cl r rs = (r2, resolveRequiredReviewerSlugs r2 rs3)"
    using doResolve_steps [OF 1 2] by metis
  have v: "resolveRequiredReviewerSlugs r2 rs3 = (rs', None)" using assms 3(2) by (metis prod.inject)
  have "spec_resolved (rs3\<lparr>rs_BypassActors := rs_BypassActors rs\<rparr>) rs'"
  proof -
    have l: "list_all2 actor_resolved (rs_BypassActors rs) (rs_BypassActors rs3)"
      using as half_resolved_fields(1) [OF 3(1)] resolve_actor_resolved
      by (auto simp: map_result_Inr rs1_def elim: list_all2_mono)
    show ?thesis
    proof (cases "ru_PullRequest (rs_Rules rs3)")
      case None
      then show ?thesis using v l
        by (auto simp: resolveRequiredReviewerSlugs_def spec_resolved_def intro!: option.rel_refl list.rel_refl)
    next
      case (Some p)
      then obtain vs where "list_all2 (\<lambda>x y. resolve_reviewer r2 x = Inr y) (pr_RequiredReviewers p) vs"
          "rs' = rs3\<lparr>rs_Rules := (rs_Rules rs3)\<lparr>ru_PullRequest := Some (p\<lparr>pr_RequiredReviewers := vs\<rparr>)\<rparr>\<rparr>"
        using v by (auto simp: resolveRequiredReviewerSlugs_def map_result_Inr split: sum.splits)
      then show ?thesis
        using l Some list_all2_mono [OF _ resolve_reviewer_resolved]
        by (auto simp: spec_resolved_def intro!: option.rel_refl list.rel_refl)
    qed
  qed
  moreover have "half_resolved rs (rs3\<lparr>rs_BypassActors := rs_BypassActors rs\<rparr>)"
    using 3(1) by (cases rs, cases rs3) (auto simp: half_resolved_def rs1_def)
  ultimately show ?thesis by (rule half_then_spec [rotated])
qed

lemma doResolve_fails:
  assumes "doResolveRuleset cl r rs = (r', rs', Some e)"
  shows "half_resolved rs (rs\<lparr>rs_Rules := rs_Rules rs'\<rparr>)"
proof (cases "map_result (resolve_actor r) (rs_BypassActors rs)")
  case (Inl x)
  then have "rs' = rs" using assms by (simp add: doResolveRuleset_def resolveBypassActors_def)
  then show ?thesis by (simp add: half_resolved_refl)
next
  case (Inr as)
  define rs1 where "rs1 = rs\<lparr>rs_BypassActors := as\<rparr>"
  have 1: "resolveBypassActors r rs = (rs1, None)" by (simp add: resolveBypassActors_def Inr rs1_def)
  obtain r2 rs2 f where 2: "resolveWorkflowRepositoryNames cl r rs1 = (r2, rs2, f)" by (metis prod_cases3)
  have "half_resolved rs1 rs'"
  proof (cases f)
    case (Some x)
    then show ?thesis using workflows_half [OF 2] assms by (simp add: doResolveRuleset_def 1 2)
  next
    case None
    obtain rs3 where 3: "half_resolved rs1 rs3" "doResolveRuleset cl r rs = (r2, resolveRequiredReviewerSlugs r2 rs3)"
      using doResolve_steps [OF 1 2 [unfolded None]] by metis
    then have "rs' = rs3" using assms by (auto simp: resolveRequiredReviewerSlugs_def split: option.splits sum.splits)
    then show ?thesis using 3 by simp
  qed
  then show ?thesis by (cases rs, cases rs') (auto simp: half_resolved_def rs1_def)
qed

lemma doResolve_maps:
  assumes "doResolveRuleset cl r rs = (r', rs', e)"
  shows "appsBySlug r' = appsBySlug r \<and> teamsBySlug r' = teamsBySlug r \<and> rolesByName r' = rolesByName r"
  using assms workflows_half [of cl r]
  by (auto simp: doResolveRuleset_def split: prod.splits option.splits)

section \<open>When resolving succeeds\<close>

definition repos_readable :: "id_client \<Rightarrow> bool" where
  "repos_readable cl \<longleftrightarrow> (\<forall>n name. \<exists>i. GetRepository cl n name = Inr i)"

lemma workflow_list_total:
  assumes "repos_readable cl"
  shows "\<exists>r' ws'. resolve_workflow_list cl ws r = (r', ws', None)"
proof (induction ws arbitrary: r)
  case (Cons w ws)
  obtain i where i: "GetRepository cl (ir_calls r) (wf_RepositoryName w) = Inr i"
    using assms by (auto simp: repos_readable_def)
  obtain r1 ws1 where 1: "resolve_workflow_list cl ws r = (r1, ws1, None)" using Cons.IH by blast
  obtain r2 ws2 where 2: "resolve_workflow_list cl ws (r\<lparr>ir_calls := ir_calls r + 1\<rparr>) = (r2, ws2, None)"
    using Cons.IH by blast
  show ?case using i 1 2 by simp
qed simp

lemma workflows_total:
  assumes "repos_readable cl"
  obtains r' rs' where "resolveWorkflowRepositoryNames cl r rs = (r', rs', None)"
proof (cases "ru_Workflows (rs_Rules rs)")
  case None
  then show thesis using that [of r rs] by (simp add: resolveWorkflowRepositoryNames_def)
next
  case (Some w)
  obtain r' ws' where "resolve_workflow_list cl (wr_Workflows w) r = (r', ws', None)"
    using workflow_list_total [OF assms] by blast
  then show thesis using that by (simp add: resolveWorkflowRepositoryNames_def Some)
qed

lemma doResolve_iff:
  assumes "repos_readable cl"
  shows "(\<exists>r' rs'. doResolveRuleset cl r rs = (r', rs', None)) \<longleftrightarrow> refs_ok r rs"
proof (cases "map_result (resolve_actor r) (rs_BypassActors rs)")
  case (Inl x)
  then have "\<not> (\<forall>a \<in> set (rs_BypassActors rs). actor_ok r a)"
    using map_result_total [of "resolve_actor r" "rs_BypassActors rs"] by (auto simp: resolve_actor_iff)
  then show ?thesis by (simp add: doResolveRuleset_def resolveBypassActors_def Inl refs_ok_def)
next
  case (Inr as)
  define rs1 where "rs1 = rs\<lparr>rs_BypassActors := as\<rparr>"
  have 1: "resolveBypassActors r rs = (rs1, None)" by (simp add: resolveBypassActors_def Inr rs1_def)
  obtain r2 rs2 where 2: "resolveWorkflowRepositoryNames cl r rs1 = (r2, rs2, None)"
    using workflows_total [OF assms] .
  obtain rs3 where 3: "half_resolved rs1 rs3" "doResolveRuleset cl r rs = (r2, resolveRequiredReviewerSlugs r2 rs3)"
    using doResolve_steps [OF 1 2] by metis
  have pr: "ru_PullRequest (rs_Rules rs3) = ru_PullRequest (rs_Rules rs)"
    using half_resolved_fields(2) [OF 3(1)] by (simp add: rs1_def)
  have rok: "reviewer_ok r2 v = reviewer_ok r v" for v
    using workflows_half [OF 2] by (simp add: reviewer_ok_def)
  have m: "(\<exists>vs. map_result (resolve_reviewer r2) xs = Inr vs) \<longleftrightarrow> (\<forall>v \<in> set xs. reviewer_ok r v)" for xs
    by (simp add: map_result_total resolve_reviewer_iff rok)
  have "(\<exists>rs'. resolveRequiredReviewerSlugs r2 rs3 = (rs', None)) \<longleftrightarrow>
      (\<forall>p. ru_PullRequest (rs_Rules rs) = Some p \<longrightarrow> (\<forall>v \<in> set (pr_RequiredReviewers p). reviewer_ok r v))"
  proof (cases "ru_PullRequest (rs_Rules rs)")
    case (Some p)
    then show ?thesis
      using m [of "pr_RequiredReviewers p"]
      by (cases "map_result (resolve_reviewer r2) (pr_RequiredReviewers p)") (simp_all add: resolveRequiredReviewerSlugs_def pr)
  qed (simp add: resolveRequiredReviewerSlugs_def pr)
  moreover have "\<forall>a \<in> set (rs_BypassActors rs). actor_ok r a"
    using map_result_total [of "resolve_actor r" "rs_BypassActors rs"] Inr by (auto simp: resolve_actor_iff)
  ultimately show ?thesis by (simp add: 3(2) refs_ok_def)
qed

text \<open>A team that the cached maps do not know and a refresh finds.\<close>

definition ex_id_client :: id_client where
  "ex_id_client =
     \<lparr>GetGitHubAppsInstallations = (\<lambda>n. Inr []),
      GetAllTeamsForOrg = (\<lambda>n. Inr [\<lparr>ne_Name = Some ''ops'', ne_ID = Some 42\<rparr>]),
      GetAllOrgRoles = (\<lambda>n. Inr []), GetRepository = (\<lambda>n name. Inr (Some 9))\<rparr>"

definition ex_resolver :: id_resolver where
  "ex_resolver = \<lparr>ir_orgName = ''acme'', appsBySlug = [], teamsBySlug = [], rolesByName = [], ir_calls = 3\<rparr>"

definition ex_team_spec :: ruleset_spec where
  "ex_team_spec = (bare_spec ''main'' [] ''active'')
     \<lparr>rs_BypassActors := [\<lparr>ba_ActorID = None, ba_ActorSlug = Some ''ops'', ba_ActorType = ''Team'', ba_BypassMode = ''always''\<rparr>]\<rparr>"

definition ex_team_resolved :: ruleset_spec where
  "ex_team_resolved = ex_team_spec
     \<lparr>rs_BypassActors := [\<lparr>ba_ActorID = Some 42, ba_ActorSlug = Some ''ops'', ba_ActorType = ''Team'', ba_BypassMode = ''always''\<rparr>]\<rparr>"

lemmas ex_resolve_defs = ResolveRuleset_def doResolveRuleset_def resolveBypassActors_def resolve_actor_def
  resolveBypassActorWith_def some_id_def ResolveTeamSlug_def refreshMaps_def loadLookUpMaps_def named_ids_def
  resolveWorkflowRepositoryNames_def resolveStatusCheckAppSlugs_def resolveRequiredReviewerSlugs_def
  ex_team_spec_def ex_team_resolved_def ex_resolver_def ex_id_client_def bare_spec_def no_rules_def

lemma ex_resolve: "\<exists>r'. ResolveRuleset ex_id_client ex_resolver ex_team_spec = (r', ex_team_resolved, None)"
  by (simp add: ex_resolve_defs)

lemma resolve_spec_resolved:
  assumes "ResolveRuleset cl r rs = (r', rs', None)"
  shows "spec_resolved rs rs'"
proof (cases "doResolveRuleset cl r rs")
  case (fields r1 rs1 e)
  show ?thesis
  proof (cases e)
    case None
    then show ?thesis using assms fields doResolve_ok by (simp add: ResolveRuleset_def)
  next
    case (Some x)
    obtain r2 b where "refreshMaps cl r1 = (r2, b)" by fastforce
    then have "doResolveRuleset cl r2 (rs\<lparr>rs_Rules := rs_Rules rs1\<rparr>) = (r', rs', None)"
      using assms fields Some by (simp add: ResolveRuleset_def split: bool.splits)
    then show ?thesis using half_then_spec [OF doResolve_fails [OF fields [unfolded Some]] doResolve_ok] by blast
  qed
qed

lemma spec_resolved_keeps:
  assumes "spec_resolved rs rs'"
  shows "rs_Name rs' = rs_Name rs \<and> rs_Target rs' = rs_Target rs \<and>
         rs_Enforcement rs' = rs_Enforcement rs \<and> rs_Conditions rs' = rs_Conditions rs"
proof -
  have eq: "rs'\<lparr>rs_BypassActors := rs_BypassActors rs,
        rs_Rules := (rs_Rules rs')\<lparr>ru_Workflows := ru_Workflows (rs_Rules rs),
          ru_RequiredStatusChecks := ru_RequiredStatusChecks (rs_Rules rs), ru_PullRequest := ru_PullRequest (rs_Rules rs)\<rparr>\<rparr> = rs"
    using assms by (simp add: spec_resolved_def)
  show ?thesis
    using arg_cong [OF eq, of rs_Name] arg_cong [OF eq, of rs_Target] arg_cong [OF eq, of rs_Enforcement]
      arg_cong [OF eq, of rs_Conditions] by simp
qed

lemma resolve_keeps_name: "ResolveRuleset cl r rs = (r', rs', None) \<Longrightarrow> rs_Name rs' = rs_Name rs"
  using resolve_spec_resolved spec_resolved_keeps by blast

text \<open>Resolving a ruleset only fills in IDs. After a success every team or role that bypasses the
  ruleset and every reviewer given by slug has an ID; an ID that was given explicitly is never
  replaced; a deploy key actor has no ID; and nothing else of the ruleset changes, in particular not its
  name, target, enforcement, conditions and the number and order of its entries.\<close>

lemma resolve_ruleset_frame:
  assumes "ResolveRuleset cl r rs = (r', rs', None)"
  shows "spec_resolved rs rs' \<and> rs_Name rs' = rs_Name rs \<and> rs_Target rs' = rs_Target rs \<and>
         rs_Enforcement rs' = rs_Enforcement rs \<and> rs_Conditions rs' = rs_Conditions rs"
  using resolve_spec_resolved [OF assms] spec_resolved_keeps by blast

lemma resolve_ruleset_frame_witness: "spec_resolved ex_team_spec ex_team_resolved"
proof -
  obtain r' where "ResolveRuleset ex_id_client ex_resolver ex_team_spec = (r', ex_team_resolved, None)"
    using ex_resolve ..
  from resolve_ruleset_frame [OF this] show ?thesis by simp
qed



end
