(* ===== verification/ReconcilerFactory.thy ===== *)
theory ReconcilerFactory
  imports ClientFactory Admission PresetIndex IdResolver
begin

text \<open>
  The factory that a controller asks for the reconciler of a resource: \<^verbatim>\<open>reconciler/reconcilerfactory/factory.go\<close>. It reads the resource, the generations of what the resource
  refers to, asks the spreading manager whether the run may be delayed (theory \<^verbatim>\<open>Requeue\<close>), and gets a client for each organization (theory \<^verbatim>\<open>ClientFactory\<close>)
  with a resolver of names (theory \<^verbatim>\<open>IdResolver\<close>). Reads of Kubernetes are arguments; the state is that of the client factory.
\<close>

section \<open>Data\<close>

text \<open>What the factory reads of the three resources; \<open>kstate\<close> has their generation, conditions and observed generations.\<close>

record 'w factory_org =
  fo_Name :: string
  fo_Namespace :: string
  fo_Spec :: org_admission
  fo_Rulesets :: "ruleset_spec list"
  fo_State :: "'w kstate"

record 'w factory_repo =
  fr_Name :: string
  fr_Namespace :: string
  fr_OrganizationRef :: string
  fr_SpecName :: string
  fr_RulesetPresetList :: "string list"
  fr_Rulesets :: "ruleset_spec list"
  fr_WebhookPresetList :: "string list"
  fr_WebhookIgnorePresetsList :: "string list"
  fr_AttachedCodeSecurityConfiguration :: "string option"
  fr_AutolinksPresetList :: "string list"
  fr_State :: "'w kstate"

record 'w factory_team =
  ft_Name :: string
  ft_Namespace :: string
  ft_SpecName :: string
  ft_OrganizationRefs :: "string list"
  ft_PreviousOrganizationRefs :: "string list"
  ft_Slug :: "string option"
  ft_State :: "'w kstate"

text \<open>The types of the resources whose generations are tracked.\<close>

datatype sub_type = RulesetPresetT | WebhookPresetT | WebhookIgnorePresetT | CodeSecurityConfigurationT | AutolinksPresetT

text \<open>
  The environment of a call. \<open>fe_Kind\<close> is the kind an object of a type reports about itself, which the Kubernetes library fills in. The last group is what a call of
  \<open>GetClient\<close> needs, by the number of the call.
\<close>

record ('w, 'key) factory_env =
  fe_GetOrganization :: "string \<Rightarrow> string \<Rightarrow> (go_error, 'w factory_org) result"
  fe_GetRepository :: "string \<Rightarrow> string \<Rightarrow> (go_error, 'w factory_repo) result"
  fe_GetTeam :: "string \<Rightarrow> string \<Rightarrow> (go_error, 'w factory_team) result"
  fe_GetSub :: "sub_type \<Rightarrow> string \<Rightarrow> string \<Rightarrow> (go_error, int) result"
  fe_GetRulesetPreset :: "string \<Rightarrow> string \<Rightarrow> (go_error, ruleset_preset) result"
  fe_PresetReader :: "string \<Rightarrow> preset_reader"
  fe_Kind :: "sub_type \<Rightarrow> string"
  fe_Config :: operator_config
  fe_SpreadingManager :: "spread_config option"
  fe_lib :: k8s_lib
  fe_render :: "int \<Rightarrow> string"
  fe_rnd :: "int \<Rightarrow> int"
  fe_now1 :: int
  fe_now2 :: int
  fe_gate :: "nat \<Rightarrow> gate_clock"
  fe_secrets :: "'key secret_env"
  fe_getRateLimit :: "nat \<Rightarrow> 'key gh_client \<Rightarrow> refresh_call"
  fe_others :: "nat \<Rightarrow> 'key client_factory \<Rightarrow> 'key client_factory"
  fe_id_client :: "'key gh_client \<Rightarrow> id_client"

text \<open>What is handed to the executor.\<close>

record ('w, 'key) org_executor =
  ox_Resource :: "'w factory_org"
  ox_Generations :: "(string, int) gomap option"
  ox_Client :: "'key gh_client"
  ox_Login :: string
  ox_Features :: features
  ox_IdResolver :: id_resolver

record ('w, 'key) repo_executor =
  rx_Resource :: "'w factory_repo"
  rx_Generations :: "(string, int) gomap option"
  rx_Client :: "'key gh_client"
  rx_Owner :: string
  rx_Name :: string
  rx_FinalizeMode :: string
  rx_Features :: features
  rx_NameResolver :: id_resolver

record ('w, 'key) team_executor =
  tx_Resource :: "'w factory_team"
  tx_Name :: string
  tx_Slug :: "string option"
  tx_Current :: "('key gh_client \<times> string) list"
  tx_Previous :: "('key gh_client \<times> string) list"
  tx_MemberSuffix :: string

section \<open>Generations of what a resource refers to\<close>

definition getSubResourceKey :: "('w, 'key) factory_env \<Rightarrow> sub_type \<Rightarrow> string \<Rightarrow> string \<Rightarrow> string" where
  "getSubResourceKey env t ns name = fe_Kind env t @ ''/'' @ ns @ ''/'' @ name"

definition collectSubResourceGeneration ::
    "('w, 'key) factory_env \<Rightarrow> sub_type \<Rightarrow> string \<Rightarrow> string \<Rightarrow> (string, int) gomap \<Rightarrow> (go_error, (string, int) gomap) result" where
  "collectSubResourceGeneration env t ns name m =
     (case fe_GetSub env t ns name of
        Inl e \<Rightarrow> if IsNotFound e then Inr m else Inl e
      | Inr g \<Rightarrow> Inr (map_put (getSubResourceKey env t ns name) g m))"

fun sub_loop :: "('w, 'key) factory_env \<Rightarrow> sub_type \<Rightarrow> string \<Rightarrow> string list \<Rightarrow> (string, int) gomap \<Rightarrow> (go_error, (string, int) gomap) result" where
  "sub_loop env t ns [] m = Inr m"
| "sub_loop env t ns (name # names) m =
     (case collectSubResourceGeneration env t ns name m of Inl e \<Rightarrow> Inl e | Inr m1 \<Rightarrow> sub_loop env t ns names m1)"

definition collectAncestors ::
    "('w, 'key) factory_env \<Rightarrow> string \<Rightarrow> string \<Rightarrow> string \<Rightarrow> chain_resolver \<Rightarrow> (string, int) gomap \<Rightarrow>
     chain_resolver \<times> (go_error, (string, int) gomap) result" where
  "collectAncestors env ns extends self r m =
     (case Ancestors (fe_PresetReader env ns) extends self r of
        (r1, Inl e) \<Rightarrow> (r1, Inl e)
      | (r1, Inr ps) \<Rightarrow> (r1, Inr (put_all (\<lambda>p. getSubResourceKey env RulesetPresetT ns (rps_Name p)) rps_Generation ps m)))"

text \<open>One referenced preset. It is read into an empty object, so one that is missing extends nothing.\<close>

definition preset_ref ::
    "('w, 'key) factory_env \<Rightarrow> string \<Rightarrow> string \<Rightarrow> chain_resolver \<Rightarrow> (string, int) gomap \<Rightarrow> chain_resolver \<times> (go_error, (string, int) gomap) result" where
  "preset_ref env ns ref r m =
     (case fe_GetRulesetPreset env ns ref of
        Inl e \<Rightarrow> if IsNotFound e then collectAncestors env ns [] ref r m else (r, Inl e)
      | Inr p \<Rightarrow> collectAncestors env ns (rs_Extends (rps_Spec p)) ref r (map_put (getSubResourceKey env RulesetPresetT ns ref) (rps_Generation p) m))"

fun preset_refs ::
    "('w, 'key) factory_env \<Rightarrow> string \<Rightarrow> string list \<Rightarrow> chain_resolver \<Rightarrow> (string, int) gomap \<Rightarrow> chain_resolver \<times> (go_error, (string, int) gomap) result" where
  "preset_refs env ns [] r m = (r, Inr m)"
| "preset_refs env ns (ref # refs) r m =
     (case preset_ref env ns ref r m of (r1, Inl e) \<Rightarrow> (r1, Inl e) | (r1, Inr m1) \<Rightarrow> preset_refs env ns refs r1 m1)"

fun inline_refs ::
    "('w, 'key) factory_env \<Rightarrow> string \<Rightarrow> ruleset_spec list \<Rightarrow> chain_resolver \<Rightarrow> (string, int) gomap \<Rightarrow> chain_resolver \<times> (go_error, (string, int) gomap) result" where
  "inline_refs env ns [] r m = (r, Inr m)"
| "inline_refs env ns (s # specs) r m =
     (case collectAncestors env ns (rs_Extends s) [] r m of (r1, Inl e) \<Rightarrow> (r1, Inl e) | (r1, Inr m1) \<Rightarrow> inline_refs env ns specs r1 m1)"

definition collectRulesetPresetGenerations ::
    "('w, 'key) factory_env \<Rightarrow> string \<Rightarrow> string list \<Rightarrow> ruleset_spec list \<Rightarrow> (string, int) gomap \<Rightarrow> (go_error, (string, int) gomap) result" where
  "collectRulesetPresetGenerations env ns refs specs m =
     (case preset_refs env ns refs NewChainResolver m of
        (r1, Inl e) \<Rightarrow> Inl e
      | (r1, Inr m1) \<Rightarrow> snd (inline_refs env ns specs r1 m1))"

text \<open>An empty map is returned as nil.\<close>

definition nil_if_empty :: "(string, int) gomap \<Rightarrow> (string, int) gomap option" where
  "nil_if_empty m = (if m = [] then None else Some m)"

text \<open>The loops over the other references, one after the other.\<close>

fun sub_loops ::
    "('w, 'key) factory_env \<Rightarrow> string \<Rightarrow> (sub_type \<times> string list) list \<Rightarrow> (string, int) gomap \<Rightarrow> (go_error, (string, int) gomap) result" where
  "sub_loops env ns [] m = Inr m"
| "sub_loops env ns ((t, names) # rest) m = (case sub_loop env t ns names m of Inl e \<Rightarrow> Inl e | Inr m1 \<Rightarrow> sub_loops env ns rest m1)"

definition fetchSubResourceGenerationsForOrg :: "('w, 'key) factory_env \<Rightarrow> 'w factory_org \<Rightarrow> (go_error, (string, int) gomap option) result" where
  "fetchSubResourceGenerationsForOrg env org =
     (case collectRulesetPresetGenerations env (fo_Namespace org) (oa_RulesetPresetList (fo_Spec org)) (fo_Rulesets org) [] of
        Inl e \<Rightarrow> Inl e
      | Inr m \<Rightarrow>
          (case sub_loops env (fo_Namespace org) [(CodeSecurityConfigurationT, oa_CodeSecurityConfigurations (fo_Spec org))] m of
             Inl e \<Rightarrow> Inl e
           | Inr m1 \<Rightarrow> Inr (nil_if_empty m1)))"

definition repo_subs :: "'w factory_repo \<Rightarrow> (sub_type \<times> string list) list" where
  "repo_subs repo =
     [(WebhookPresetT, fr_WebhookPresetList repo), (WebhookIgnorePresetT, fr_WebhookIgnorePresetsList repo),
      (CodeSecurityConfigurationT, case fr_AttachedCodeSecurityConfiguration repo of None \<Rightarrow> [] | Some n \<Rightarrow> [n]),
      (AutolinksPresetT, fr_AutolinksPresetList repo)]"

definition fetchSubResourceGenerationsForRepo :: "('w, 'key) factory_env \<Rightarrow> 'w factory_repo \<Rightarrow> (go_error, (string, int) gomap option) result" where
  "fetchSubResourceGenerationsForRepo env repo =
     (case collectRulesetPresetGenerations env (fr_Namespace repo) (fr_RulesetPresetList repo) (fr_Rulesets repo) [] of
        Inl e \<Rightarrow> Inl e
      | Inr m \<Rightarrow> (case sub_loops env (fr_Namespace repo) (repo_subs repo) m of Inl e \<Rightarrow> Inl e | Inr m1 \<Rightarrow> Inr (nil_if_empty m1)))"

section \<open>Clients\<close>

definition orgAppConfig :: "'w factory_org \<Rightarrow> (go_error, app_config) result" where
  "orgAppConfig org =
     (case GetGitHubAppInstallationID (fo_Namespace org) (fo_Name org) (fo_Spec org) of
        Inl e \<Rightarrow> Inl e
      | Inr i \<Rightarrow> Inr \<lparr>InstallationID = i, CredentialsSecretName = GetGitHubAppCredentialsSecretName (fo_Spec org)\<rparr>)"

text \<open>The client of an organization, with the number of the call.\<close>

definition org_client :: "('w, 'key) factory_env \<Rightarrow> nat \<Rightarrow> 'w factory_org \<Rightarrow> 'key client_factory \<Rightarrow> 'key client_factory \<times> (go_error, 'key gh_client) result" where
  "org_client env i org m =
     (case orgAppConfig org of
        Inl e \<Rightarrow> (m, Inl e)
      | Inr app \<Rightarrow> GetClient (fe_gate env i) (fe_secrets env) (fe_getRateLimit env i) (fe_others env i) (oa_GetLogin (fo_Spec org)) app m)"

definition spread_run :: "('w, 'key) factory_env \<Rightarrow> 'w kstate \<Rightarrow> (string, int) gomap option \<Rightarrow> go_error option" where
  "spread_run env s gens = Spread (fe_lib env) (fe_render env) (fe_rnd env) (fe_now1 env) (fe_now2 env) (fe_SpreadingManager env) s gens"

text \<open>\<^verbatim>\<open>client.IgnoreNotFound\<close>: a resource that is gone is no error.\<close>

definition IgnoreNotFound :: "go_error \<Rightarrow> (go_error, 'a option) result" where
  "IgnoreNotFound e = (if IsNotFound e then Inr None else Inl e)"

section \<open>The three constructors\<close>

definition CreateForOrg ::
    "('w, 'key) factory_env \<Rightarrow> string \<Rightarrow> string \<Rightarrow> 'key client_factory \<Rightarrow> 'key client_factory \<times> (go_error, ('w, 'key) org_executor option) result" where
  "CreateForOrg env ns name m =
     (case fe_GetOrganization env ns name of
        Inl e \<Rightarrow> (m, IgnoreNotFound e)
      | Inr org \<Rightarrow>
          (case fetchSubResourceGenerationsForOrg env org of
             Inl e \<Rightarrow> (m, Inl e)
           | Inr gens \<Rightarrow>
               (case spread_run env (fo_State org) gens of
                  Some e \<Rightarrow> (m, Inl e)
                | None \<Rightarrow>
                    (case org_client env 0 org m of
                       (m1, Inl e) \<Rightarrow> (m1, Inl e)
                     | (m1, Inr c) \<Rightarrow>
                         (let login = oa_GetLogin (fo_Spec org) in
                          case NewResolver (fe_id_client env c) login of
                            Inl e \<Rightarrow> (m1, Inl e)
                          | Inr res \<Rightarrow> (m1, Inr (Some \<lparr>ox_Resource = org, ox_Generations = gens, ox_Client = c, ox_Login = login,
                              ox_Features = Features (fe_Config env), ox_IdResolver = res\<rparr>)))))))"

definition CreateForRepo ::
    "('w, 'key) factory_env \<Rightarrow> string \<Rightarrow> string \<Rightarrow> 'key client_factory \<Rightarrow> 'key client_factory \<times> (go_error, ('w, 'key) repo_executor option) result" where
  "CreateForRepo env ns name m =
     (case fe_GetRepository env ns name of
        Inl e \<Rightarrow> (m, IgnoreNotFound e)
      | Inr repo \<Rightarrow>
          (case fetchSubResourceGenerationsForRepo env repo of
             Inl e \<Rightarrow> (m, Inl e)
           | Inr gens \<Rightarrow>
               (case spread_run env (fr_State repo) gens of
                  Some e \<Rightarrow> (m, Inl e)
                | None \<Rightarrow>
                    (case fe_GetOrganization env (fr_Namespace repo) (fr_OrganizationRef repo) of
                       Inl e \<Rightarrow> (m, Inl e)
                     | Inr org \<Rightarrow>
                         (case org_client env 0 org m of
                            (m1, Inl e) \<Rightarrow> (m1, Inl e)
                          | (m1, Inr c) \<Rightarrow>
                              (let login = oa_GetLogin (fo_Spec org) in
                               case NewResolver (fe_id_client env c) login of
                                 Inl e \<Rightarrow> (m1, Inl e)
                               | Inr res \<Rightarrow> (m1, Inr (Some \<lparr>rx_Resource = repo, rx_Generations = gens, rx_Client = c, rx_Owner = login, rx_Name = fr_SpecName repo,
                                   rx_FinalizeMode = RepositoryFinalizerMode (fe_Config env), rx_Features = Features (fe_Config env), rx_NameResolver = res\<rparr>))))))))"

fun org_clients ::
    "('w, 'key) factory_env \<Rightarrow> nat \<Rightarrow> 'w factory_org list \<Rightarrow> 'key client_factory \<Rightarrow> 'key client_factory \<times> (go_error, ('key gh_client \<times> string) list) result" where
  "org_clients env i [] m = (m, Inr [])"
| "org_clients env i (org # orgs) m =
     (case org_client env i org m of
        (m1, Inl e) \<Rightarrow> (m1, Inl e)
      | (m1, Inr c) \<Rightarrow>
          (case org_clients env (Suc i) orgs m1 of
             (m2, Inl e) \<Rightarrow> (m2, Inl e)
           | (m2, Inr cs) \<Rightarrow> (m2, Inr ((c, oa_GetLogin (fo_Spec org)) # cs))))"

text \<open>First all organizations are read, then the clients are made.\<close>

definition buildGitHubOrgsSlice ::
    "('w, 'key) factory_env \<Rightarrow> nat \<Rightarrow> string \<Rightarrow> string list \<Rightarrow> 'key client_factory \<Rightarrow> 'key client_factory \<times> (go_error, ('key gh_client \<times> string) list) result" where
  "buildGitHubOrgsSlice env i ns refs m =
     (case map_result (fe_GetOrganization env ns) refs of
        Inl e \<Rightarrow> (m, Inl e)
      | Inr orgs \<Rightarrow> org_clients env i orgs m)"

definition CreateForTeam ::
    "('w, 'key) factory_env \<Rightarrow> string \<Rightarrow> string \<Rightarrow> 'key client_factory \<Rightarrow> 'key client_factory \<times> (go_error, ('w, 'key) team_executor option) result" where
  "CreateForTeam env ns name m =
     (case fe_GetTeam env ns name of
        Inl e \<Rightarrow> (m, IgnoreNotFound e)
      | Inr team \<Rightarrow>
          (case spread_run env (ft_State team) None of
             Some e \<Rightarrow> (m, Inl e)
           | None \<Rightarrow>
               (case buildGitHubOrgsSlice env 0 (ft_Namespace team) (ft_OrganizationRefs team) m of
                  (m1, Inl e) \<Rightarrow> (m1, Inl e)
                | (m1, Inr current) \<Rightarrow>
                    (if current = [] then (m1, Inl (PlainError (''no organizations found for Team '' @ ft_Namespace team @ ''/'' @ ft_Name team)))
                     else
                       (case buildGitHubOrgsSlice env (length current) (ft_Namespace team) (ft_PreviousOrganizationRefs team) m1 of
                          (m2, Inl e) \<Rightarrow> (m2, Inl e)
                        | (m2, Inr previous) \<Rightarrow>
                            (m2, Inr (Some \<lparr>tx_Resource = team, tx_Name = ft_SpecName team, tx_Slug = ft_Slug team, tx_Current = current, tx_Previous = previous,
                              tx_MemberSuffix = GitHubMemberSuffix (fe_Config env)\<rparr>)))))))"

section \<open>The ancestors\<close>

text \<open>What a walk in an unchanging cluster returns: presets under their names, and all that are reached within the limit, up to a cycle.\<close>

definition named_cluster :: "(string \<Rightarrow> ruleset_preset option) \<Rightarrow> bool" where
  "named_cluster L \<longleftrightarrow> (\<forall>n p. L n = Some p \<longrightarrow> rps_Name p = n)"

lemma ancestors_loop_sound:
  "ancestors_loop rd nxt seen acc r = (r', Inr ps) \<Longrightarrow> reads_from L rd \<Longrightarrow> map_get (cr_presets r) \<subseteq>\<^sub>m L \<Longrightarrow> named_cluster L \<Longrightarrow>
     (\<forall>p \<in> set acc. L (rps_Name p) = Some p) \<Longrightarrow> map_get (cr_presets r') \<subseteq>\<^sub>m L \<and> set acc \<subseteq> set ps \<and> (\<forall>p \<in> set ps. L (rps_Name p) = Some p)"
proof (induction rd nxt seen acc r rule: ancestors_loop.induct)
  case (1 rd nxt seen acc r)
  show ?case
  proof (cases "nxt \<noteq> [] \<and> \<not> List.member seen nxt \<and> length acc < MaxExtendsDepth")
    case False
    then have "r' = r" "ps = acc" using "1.prems"(1) by (subst (asm) ancestors_loop.simps; auto)+
    then show ?thesis using "1.prems" by simp
  next
    case True
    obtain r1 g where g: "GetPreset rd nxt r = (r1, g)" by fastforce
    show ?thesis
    proof (cases g)
      case (Inl e)
      then have "map_get (cr_presets r1) \<subseteq>\<^sub>m L" using GetPreset_stable(3) [OF "1.prems"(2,3)] g by blast
      moreover have "r' = r1" "ps = acc" using "1.prems"(1) True g Inl by (subst (asm) ancestors_loop.simps; auto split: if_splits)+
      ultimately show ?thesis using "1.prems" by simp
    next
      case (Inr p)
      note p = read_preset [OF "1.prems"(2,3) g [unfolded Inr]]
      have rec: "ancestors_loop rd (rs_Extends (rps_Spec p)) (nxt # seen) (acc @ [p]) r1 = (r', Inr ps)"
        using "1.prems"(1) True g Inr by (subst (asm) ancestors_loop.simps) auto
      have "rps_Name p = nxt" using p(1) "1.prems"(4) by (auto simp: named_cluster_def)
      then have "\<forall>q \<in> set (acc @ [p]). L (rps_Name q) = Some q" using p(1) "1.prems"(5) by auto
      from "1.IH" [of r1 g p, OF True g [symmetric] Inr rec "1.prems"(2) p(2) "1.prems"(4) this] show ?thesis by simp
    qed
  qed
qed

text \<open>The names seen are closed under extension, but for the next one.\<close>

definition seen_closed :: "(string \<Rightarrow> ruleset_preset option) \<Rightarrow> string list \<Rightarrow> string \<Rightarrow> bool" where
  "seen_closed L seen nxt \<longleftrightarrow>
     (\<forall>v p. v \<in> set seen \<and> L v = Some p \<longrightarrow> rs_Extends (rps_Spec p) = [] \<or> rs_Extends (rps_Spec p) = nxt \<or> rs_Extends (rps_Spec p) \<in> set seen)"

lemma closed_walk:
  "seen_closed L seen nxt \<Longrightarrow> nxt \<in> set seen \<Longrightarrow> v \<in> set seen \<Longrightarrow> extends_steps L k v n \<Longrightarrow> n \<in> set seen"
proof (induction k arbitrary: v)
  case (Suc k)
  then obtain p where p: "L v = Some p" "rs_Extends (rps_Spec p) \<noteq> []" "extends_steps L k (rs_Extends (rps_Spec p)) n" by auto
  have "rs_Extends (rps_Spec p) = nxt \<or> rs_Extends (rps_Spec p) \<in> set seen" using Suc.prems(1,3) p(1,2) unfolding seen_closed_def by blast
  then have "rs_Extends (rps_Spec p) \<in> set seen" using Suc.prems(2) by auto
  then show ?case using Suc.IH Suc.prems(1,2) p(3) by blast
qed simp

lemma ancestors_loop_complete:
  "ancestors_loop rd nxt seen acc r = (r', Inr ps) \<Longrightarrow> reads_from L rd \<Longrightarrow> map_get (cr_presets r) \<subseteq>\<^sub>m L \<Longrightarrow> named_cluster L \<Longrightarrow>
     (\<forall>p \<in> set acc. L (rps_Name p) = Some p) \<Longrightarrow> seen_closed L seen nxt \<Longrightarrow> nxt \<noteq> [] \<Longrightarrow> extends_steps L k nxt n \<Longrightarrow> length acc + k < MaxExtendsDepth \<Longrightarrow>
     L n = Some p \<Longrightarrow> n \<in> set seen \<or> p \<in> set ps"
proof (induction rd nxt seen acc r arbitrary: k rule: ancestors_loop.induct)
  case (1 rd nxt seen acc r)
  show ?case
  proof (cases "nxt \<in> set seen")
    case True
    then show ?thesis using closed_walk "1.prems"(6,8) by blast
  next
    case False
    then have go: "nxt \<noteq> [] \<and> \<not> List.member seen nxt \<and> length acc < MaxExtendsDepth" using "1.prems"(7,9) by simp
    obtain r1 g where g: "GetPreset rd nxt r = (r1, g)" by fastforce
    show ?thesis
    proof (cases g)
      case (Inl e)
      then have "L nxt = None" using GetPreset_stable(3) [OF "1.prems"(2,3)] g by blast
      then show ?thesis using "1.prems"(8,10) by (cases k) auto
    next
      case (Inr q)
      note q = read_preset [OF "1.prems"(2,3) g [unfolded Inr]]
      have rec: "ancestors_loop rd (rs_Extends (rps_Spec q)) (nxt # seen) (acc @ [q]) r1 = (r', Inr ps)"
        using "1.prems"(1) go g Inr by (subst (asm) ancestors_loop.simps) auto
      have acc: "\<forall>p \<in> set (acc @ [q]). L (rps_Name p) = Some p" using q(1) "1.prems"(4,5) by (auto simp: named_cluster_def)
      have qs: "q \<in> set ps" using ancestors_loop_sound [OF rec "1.prems"(2) q(2) "1.prems"(4) acc] by auto
      have closed: "seen_closed L (nxt # seen) (rs_Extends (rps_Spec q))" using "1.prems"(6) q(1) by (auto simp: seen_closed_def)
      show ?thesis
      proof (cases k)
        case 0
        then show ?thesis using "1.prems"(8,10) q(1) qs by simp
      next
        case (Suc j)
        then have e: "rs_Extends (rps_Spec q) \<noteq> []" "extends_steps L j (rs_Extends (rps_Spec q)) n" "length (acc @ [q]) + j < MaxExtendsDepth"
          using "1.prems"(8,9) q(1) by auto
        have "n \<in> set (nxt # seen) \<or> p \<in> set ps"
          using "1.IH" [of r1 g q, OF go g [symmetric] Inr rec "1.prems"(2) q(2) "1.prems"(4) acc closed e] "1.prems"(10) by blast
        then show ?thesis using q(1) qs "1.prems"(10) by auto
      qed
    qed
  qed
qed

section \<open>The tracked generations\<close>

text \<open>The generation an object has, if it exists, in a cluster that does not change during the call.\<close>

definition generation_of :: "('w, 'key) factory_env \<Rightarrow> string \<Rightarrow> (string \<Rightarrow> ruleset_preset option) \<Rightarrow> sub_type \<Rightarrow> string \<Rightarrow> int option" where
  "generation_of env ns L t n =
     (if t = RulesetPresetT then map_option rps_Generation (L n) else (case fe_GetSub env t ns n of Inl e \<Rightarrow> None | Inr g \<Rightarrow> Some g))"

definition stable_presets :: "('w, 'key) factory_env \<Rightarrow> string \<Rightarrow> (string \<Rightarrow> ruleset_preset option) \<Rightarrow> bool" where
  "stable_presets env ns L \<longleftrightarrow> named_cluster L \<and> reads_from L (fe_PresetReader env ns) \<and>
     (\<forall>n. case L n of Some p \<Rightarrow> fe_GetRulesetPreset env ns n = Inr p | None \<Rightarrow> \<exists>e. fe_GetRulesetPreset env ns n = Inl e \<and> IsNotFound e)"

definition kinds_ok :: "('w, 'key) factory_env \<Rightarrow> bool" where
  "kinds_ok env \<longleftrightarrow> inj (fe_Kind env) \<and> (\<forall>t. CHR ''/'' \<notin> set (fe_Kind env t))"

lemma key_inject: "kinds_ok env \<Longrightarrow> getSubResourceKey env t ns n = getSubResourceKey env t' ns n' \<longleftrightarrow> t = t' \<and> n = n'"
  using split_first_sep [of "fe_Kind env t" "CHR ''/''" _ "fe_Kind env t'"] by (auto simp: getSubResourceKey_def kinds_ok_def dest: injD)

text \<open>Every entry is the generation of an object; and an object is tracked if it has an entry, unless it does not exist.\<close>

definition gens_ok :: "('w, 'key) factory_env \<Rightarrow> string \<Rightarrow> (string \<Rightarrow> ruleset_preset option) \<Rightarrow> (string, int) gomap \<Rightarrow> bool" where
  "gens_ok env ns L m \<longleftrightarrow> gomap_ok m \<and> (\<forall>k g. map_get m k = Some g \<longrightarrow> (\<exists>t n. k = getSubResourceKey env t ns n \<and> generation_of env ns L t n = Some g))"

definition tracked :: "('w, 'key) factory_env \<Rightarrow> string \<Rightarrow> (string \<Rightarrow> ruleset_preset option) \<Rightarrow> (string, int) gomap \<Rightarrow> sub_type \<Rightarrow> string \<Rightarrow> bool" where
  "tracked env ns L m t n \<longleftrightarrow> generation_of env ns L t n = None \<or> getSubResourceKey env t ns n \<in> dom (map_get m)"

lemma tracked_value:
  assumes "kinds_ok env" and "gens_ok env ns L m" and "tracked env ns L m t n" and "generation_of env ns L t n = Some g"
  shows "map_get m (getSubResourceKey env t ns n) = Some g"
proof -
  obtain g' where g': "map_get m (getSubResourceKey env t ns n) = Some g'" using assms(3,4) by (auto simp: tracked_def)
  then obtain t' n' where "getSubResourceKey env t ns n = getSubResourceKey env t' ns n'" "generation_of env ns L t' n' = Some g'"
    using assms(2) unfolding gens_ok_def by blast
  then show ?thesis using g' assms(1,4) by (simp add: key_inject)
qed

text \<open>Progress of the collection: the new map is right, and what was tracked stays tracked.\<close>

definition grows :: "('w, 'key) factory_env \<Rightarrow> string \<Rightarrow> (string \<Rightarrow> ruleset_preset option) \<Rightarrow> (string, int) gomap \<Rightarrow> (string, int) gomap \<Rightarrow> bool" where
  "grows env ns L m m' \<longleftrightarrow> gens_ok env ns L m' \<and> dom (map_get m) \<subseteq> dom (map_get m')"

lemma grows_trans: "grows env ns L m m1 \<Longrightarrow> grows env ns L m1 m2 \<Longrightarrow> grows env ns L m m2"
  by (auto simp: grows_def)

lemma grows_tracked: "grows env ns L m m' \<Longrightarrow> tracked env ns L m t n \<Longrightarrow> tracked env ns L m' t n"
  by (auto simp: grows_def tracked_def)

lemma grows_put:
  "gens_ok env ns L m \<Longrightarrow> generation_of env ns L t n = Some g \<Longrightarrow>
     grows env ns L m (map_put (getSubResourceKey env t ns n) g m) \<and> tracked env ns L (map_put (getSubResourceKey env t ns n) g m) t n"
  by (auto simp: grows_def gens_ok_def tracked_def)

lemma sub_loop_tracks:
  "sub_loop env t ns names m = Inr m' \<Longrightarrow> t \<noteq> RulesetPresetT \<Longrightarrow> gens_ok env ns L m \<Longrightarrow> grows env ns L m m' \<and> (\<forall>n \<in> set names. tracked env ns L m' t n)"
proof (induction names arbitrary: m)
  case Nil
  then show ?case by (simp add: grows_def)
next
  case (Cons n names)
  then obtain m1 where m1: "collectSubResourceGeneration env t ns n m = Inr m1" "sub_loop env t ns names m1 = Inr m'" by (auto split: sum.splits)
  have s: "grows env ns L m m1 \<and> tracked env ns L m1 t n"
  proof (cases "fe_GetSub env t ns n")
    case (Inl e)
    then have "m1 = m" using m1(1) by (simp add: collectSubResourceGeneration_def split: if_splits)
    then show ?thesis using Inl Cons.prems(2,3) by (simp add: grows_def tracked_def generation_of_def)
  next
    case (Inr g)
    then have "m1 = map_put (getSubResourceKey env t ns n) g m" using m1(1) by (simp add: collectSubResourceGeneration_def)
    then show ?thesis using grows_put [OF Cons.prems(3), of t n g] Inr Cons.prems(2) by (simp add: generation_of_def)
  qed
  then have "gens_ok env ns L m1" by (simp add: grows_def)
  from Cons.IH [OF m1(2) Cons.prems(2) this] have r: "grows env ns L m1 m'" "\<forall>n \<in> set names. tracked env ns L m' t n" by blast+
  then show ?case using s grows_tracked [OF r(1)] grows_trans [OF _ r(1)] by simp
qed

lemma sub_loops_track:
  "sub_loops env ns subs m = Inr m' \<Longrightarrow> RulesetPresetT \<notin> fst ` set subs \<Longrightarrow> gens_ok env ns L m \<Longrightarrow>
     grows env ns L m m' \<and> (\<forall>(t, names) \<in> set subs. \<forall>n \<in> set names. tracked env ns L m' t n)"
proof (induction subs arbitrary: m)
  case Nil
  then show ?case by (simp add: grows_def)
next
  case (Cons x subs)
  obtain t names where x: "x = (t, names)" by fastforce
  then obtain m1 where m1: "sub_loop env t ns names m = Inr m1" "sub_loops env ns subs m1 = Inr m'" using Cons.prems(1) by (auto split: sum.splits)
  have s: "grows env ns L m m1 \<and> (\<forall>n \<in> set names. tracked env ns L m1 t n)" using sub_loop_tracks [OF m1(1)] Cons.prems(2,3) x by auto
  then have "gens_ok env ns L m1" by (simp add: grows_def)
  moreover have "RulesetPresetT \<notin> fst ` set subs" using Cons.prems(2) by auto
  ultimately have r: "grows env ns L m1 m'" "\<forall>(t, names) \<in> set subs. \<forall>n \<in> set names. tracked env ns L m' t n" using Cons.IH [OF m1(2)] by blast+
  have "\<forall>n \<in> set names. tracked env ns L m' t n" using s grows_tracked [OF r(1)] by blast
  then show ?case using r(2) grows_trans [OF conjunct1 [OF s] r(1)] by (simp add: x)
qed

lemma put_ancestors:
  "\<forall>p \<in> set ps. L (rps_Name p) = Some p \<Longrightarrow> gens_ok env ns L m \<Longrightarrow>
     grows env ns L m (put_all (\<lambda>p. getSubResourceKey env RulesetPresetT ns (rps_Name p)) rps_Generation ps m) \<and>
     (\<forall>p \<in> set ps. tracked env ns L (put_all (\<lambda>p. getSubResourceKey env RulesetPresetT ns (rps_Name p)) rps_Generation ps m) RulesetPresetT (rps_Name p))"
proof (induction ps arbitrary: m)
  case Nil
  then show ?case by (simp add: grows_def)
next
  case (Cons p ps)
  let ?m = "map_put (getSubResourceKey env RulesetPresetT ns (rps_Name p)) (rps_Generation p) m"
  have s: "grows env ns L m ?m \<and> tracked env ns L ?m RulesetPresetT (rps_Name p)" using grows_put [OF Cons.prems(2)] Cons.prems(1) by (simp add: generation_of_def)
  then have "gens_ok env ns L ?m" by (simp add: grows_def)
  from Cons.IH [OF _ this] s show ?case using Cons.prems(1) grows_trans grows_tracked by (simp add: put_all_simps) blast
qed

lemma collect_ancestors_tracks:
  assumes "collectAncestors env ns ext self r m = (r', Inr m')" and "stable_presets env ns L" and "map_get (cr_presets r) \<subseteq>\<^sub>m L" and "gens_ok env ns L m"
    and "self = [] \<or> (\<forall>p. L self = Some p \<longrightarrow> rs_Extends (rps_Spec p) = ext)"
  shows "map_get (cr_presets r') \<subseteq>\<^sub>m L" and "grows env ns L m m'"
    and "ext \<noteq> [] \<Longrightarrow> k < MaxExtendsDepth \<Longrightarrow> extends_steps L k ext n \<Longrightarrow> n = self \<or> tracked env ns L m' RulesetPresetT n"
proof -
  let ?seen = "if self \<noteq> [] then [self] else []"
  obtain ps where ps: "ancestors_loop (fe_PresetReader env ns) ext ?seen [] r = (r', Inr ps)"
      "m' = put_all (\<lambda>p. getSubResourceKey env RulesetPresetT ns (rps_Name p)) rps_Generation ps m"
    using assms(1) by (auto simp: collectAncestors_def Ancestors_def split: prod.splits sum.splits)
  have st: "reads_from L (fe_PresetReader env ns)" "named_cluster L" using assms(2) by (simp_all add: stable_presets_def)
  have s: "map_get (cr_presets r') \<subseteq>\<^sub>m L \<and> set [] \<subseteq> set ps \<and> (\<forall>p \<in> set ps. L (rps_Name p) = Some p)"
    by (rule ancestors_loop_sound [OF ps(1) st(1) assms(3) st(2)]) simp
  then show "map_get (cr_presets r') \<subseteq>\<^sub>m L" by simp
  have g: "grows env ns L m m'" "\<forall>p \<in> set ps. tracked env ns L m' RulesetPresetT (rps_Name p)"
    using put_ancestors [of ps L env ns m] s assms(4) unfolding ps(2) by blast+
  then show "grows env ns L m m'" by simp
  show "n = self \<or> tracked env ns L m' RulesetPresetT n" if "ext \<noteq> []" "k < MaxExtendsDepth" "extends_steps L k ext n"
  proof (cases "L n")
    case None
    then show ?thesis by (simp add: tracked_def generation_of_def)
  next
    case (Some p)
    have "seen_closed L ?seen ext" using assms(5) by (auto simp: seen_closed_def)
    then have "n \<in> set ?seen \<or> p \<in> set ps"
      using ancestors_loop_complete [OF ps(1) st(1) assms(3) st(2) _ _ that(1,3) _ Some] that(2) by simp
    moreover have "rps_Name p = n" using Some st(2) by (simp add: named_cluster_def)
    ultimately show ?thesis using g(2) by (auto split: if_splits)
  qed
qed

lemma preset_ref_tracks:
  assumes "preset_ref env ns ref r m = (r', Inr m')" and "stable_presets env ns L" and "map_get (cr_presets r) \<subseteq>\<^sub>m L" and "gens_ok env ns L m"
  shows "map_get (cr_presets r') \<subseteq>\<^sub>m L" and "grows env ns L m m'" and "extends_within L MaxExtendsDepth ref n \<Longrightarrow> tracked env ns L m' RulesetPresetT n"
proof -
  have read: "case L ref of Some p \<Rightarrow> fe_GetRulesetPreset env ns ref = Inr p | None \<Rightarrow> \<exists>e. fe_GetRulesetPreset env ns ref = Inl e \<and> IsNotFound e"
    using assms(2) by (simp add: stable_presets_def)
  have all: "map_get (cr_presets r') \<subseteq>\<^sub>m L \<and> grows env ns L m m' \<and> (extends_within L MaxExtendsDepth ref n \<longrightarrow> tracked env ns L m' RulesetPresetT n)"
  proof (cases "L ref")
    case None
    then have c: "collectAncestors env ns [] ref r m = (r', Inr m')" using assms(1) read by (auto simp: preset_ref_def)
    note t = collect_ancestors_tracks(1,2) [OF c assms(2-4)]
    have "n = ref" if "extends_within L MaxExtendsDepth ref n"
      using that None unfolding extends_within_def by (metis extends_steps.simps(1) extends_steps.simps(2) not0_implies_Suc option.distinct(1))
    then show ?thesis using t None by (auto simp: tracked_def generation_of_def)
  next
    case (Some p)
    let ?m = "map_put (getSubResourceKey env RulesetPresetT ns ref) (rps_Generation p) m"
    have put: "grows env ns L m ?m \<and> tracked env ns L ?m RulesetPresetT ref" using grows_put [OF assms(4)] Some by (simp add: generation_of_def)
    then have ok: "gens_ok env ns L ?m" by (simp add: grows_def)
    have c: "collectAncestors env ns (rs_Extends (rps_Spec p)) ref r ?m = (r', Inr m')" using assms(1) read Some by (simp add: preset_ref_def)
    note t = collect_ancestors_tracks [OF c assms(2,3) ok]
    have self: "tracked env ns L m' RulesetPresetT ref" using put t(2) grows_tracked Some by fastforce
    have "tracked env ns L m' RulesetPresetT n" if w: "extends_within L MaxExtendsDepth ref n"
    proof -
      obtain k where k: "k \<le> MaxExtendsDepth" "extends_steps L k ref n" using w by (auto simp: extends_within_def)
      show ?thesis
      proof (cases k)
        case 0
        then show ?thesis using k self by simp
      next
        case (Suc j)
        then show ?thesis using k t(3) [of j n] self Some by auto
      qed
    qed
    then show ?thesis using t(1,2) Some grows_trans put by fastforce
  qed
  then show "map_get (cr_presets r') \<subseteq>\<^sub>m L" "grows env ns L m m'" "extends_within L MaxExtendsDepth ref n \<Longrightarrow> tracked env ns L m' RulesetPresetT n" by auto
qed

lemma preset_refs_track:
  "preset_refs env ns refs r m = (r', Inr m') \<Longrightarrow> stable_presets env ns L \<Longrightarrow> map_get (cr_presets r) \<subseteq>\<^sub>m L \<Longrightarrow> gens_ok env ns L m \<Longrightarrow>
     map_get (cr_presets r') \<subseteq>\<^sub>m L \<and> grows env ns L m m' \<and> (\<forall>ref \<in> set refs. \<forall>n. extends_within L MaxExtendsDepth ref n \<longrightarrow> tracked env ns L m' RulesetPresetT n)"
proof (induction refs arbitrary: r m)
  case Nil
  then show ?case by (simp add: grows_def)
next
  case (Cons ref refs)
  then obtain r1 m1 where m1: "preset_ref env ns ref r m = (r1, Inr m1)" "preset_refs env ns refs r1 m1 = (r', Inr m')" by (auto split: prod.splits sum.splits)
  note s = preset_ref_tracks [OF m1(1) Cons.prems(2-4)]
  then have "gens_ok env ns L m1" by (simp add: grows_def)
  from Cons.IH [OF m1(2) Cons.prems(2) s(1) this] have r: "map_get (cr_presets r') \<subseteq>\<^sub>m L" "grows env ns L m1 m'"
      "\<forall>ref \<in> set refs. \<forall>n. extends_within L MaxExtendsDepth ref n \<longrightarrow> tracked env ns L m' RulesetPresetT n" by blast+
  then show ?case using s(3) grows_tracked [OF r(2)] grows_trans [OF s(2) r(2)] by simp
qed

lemma inline_refs_track:
  "inline_refs env ns specs r m = (r', Inr m') \<Longrightarrow> stable_presets env ns L \<Longrightarrow> map_get (cr_presets r) \<subseteq>\<^sub>m L \<Longrightarrow> gens_ok env ns L m \<Longrightarrow>
     grows env ns L m m' \<and> (\<forall>s \<in> set specs. \<forall>n k. rs_Extends s \<noteq> [] \<and> k < MaxExtendsDepth \<and> extends_steps L k (rs_Extends s) n \<and> n \<noteq> [] \<longrightarrow> tracked env ns L m' RulesetPresetT n)"
proof (induction specs arbitrary: r m)
  case Nil
  then show ?case by (simp add: grows_def)
next
  case (Cons s specs)
  then obtain r1 m1 where m1: "collectAncestors env ns (rs_Extends s) [] r m = (r1, Inr m1)" "inline_refs env ns specs r1 m1 = (r', Inr m')" by (auto split: prod.splits sum.splits)
  note t = collect_ancestors_tracks [OF m1(1) Cons.prems(2-4)]
  then have "gens_ok env ns L m1" by (simp add: grows_def)
  from Cons.IH [OF m1(2) Cons.prems(2) _ this] t(1) have r: "grows env ns L m1 m'"
      "\<forall>s \<in> set specs. \<forall>n k. rs_Extends s \<noteq> [] \<and> k < MaxExtendsDepth \<and> extends_steps L k (rs_Extends s) n \<and> n \<noteq> [] \<longrightarrow> tracked env ns L m' RulesetPresetT n"
    by auto
  have "tracked env ns L m' RulesetPresetT n" if "rs_Extends s \<noteq> []" "k < MaxExtendsDepth" "extends_steps L k (rs_Extends s) n" "n \<noteq> []" for n k
    using t(3) [OF _ that(1-3)] that(4) grows_tracked [OF r(1)] by auto
  then show ?case using r t(2) grows_trans [OF _ r(1)] by auto
qed

lemma extends_target: "extends_steps L k a n \<Longrightarrow> a \<noteq> [] \<Longrightarrow> n \<noteq> []"
  by (induction k arbitrary: a) auto

text \<open>What the rulesets of a resource depend on: the presets it refers to, those its inline rulesets extend, and their ancestors.\<close>

definition ruleset_uses :: "(string \<Rightarrow> ruleset_preset option) \<Rightarrow> string list \<Rightarrow> ruleset_spec list \<Rightarrow> string \<Rightarrow> bool" where
  "ruleset_uses L refs specs n \<longleftrightarrow>
     (\<exists>ref \<in> set refs. extends_within L MaxExtendsDepth ref n) \<or> (\<exists>s \<in> set specs. rs_Extends s \<noteq> [] \<and> (\<exists>k < MaxExtendsDepth. extends_steps L k (rs_Extends s) n))"

lemma ruleset_generations_track:
  assumes "collectRulesetPresetGenerations env ns refs specs [] = Inr m" and "stable_presets env ns L"
  shows "gens_ok env ns L m" and "ruleset_uses L refs specs n \<Longrightarrow> tracked env ns L m RulesetPresetT n"
proof -
  obtain r1 m1 where p: "preset_refs env ns refs NewChainResolver [] = (r1, Inr m1)" "snd (inline_refs env ns specs r1 m1) = Inr m"
    using assms(1) by (auto simp: collectRulesetPresetGenerations_def split: prod.splits sum.splits)
  obtain r2 where i: "inline_refs env ns specs r1 m1 = (r2, Inr m)" using p(2) by (metis prod.collapse)
  have "map_get (cr_presets NewChainResolver) \<subseteq>\<^sub>m L" "gens_ok env ns L []" by (simp_all add: NewChainResolver_def map_le_def gens_ok_def)
  from preset_refs_track [OF p(1) assms(2) this] have a: "map_get (cr_presets r1) \<subseteq>\<^sub>m L" "grows env ns L [] m1"
      "\<forall>ref \<in> set refs. \<forall>n. extends_within L MaxExtendsDepth ref n \<longrightarrow> tracked env ns L m1 RulesetPresetT n" by blast+
  then have "gens_ok env ns L m1" by (simp add: grows_def)
  from inline_refs_track [OF i assms(2) a(1) this] have b: "grows env ns L m1 m"
      "\<forall>s \<in> set specs. \<forall>n k. rs_Extends s \<noteq> [] \<and> k < MaxExtendsDepth \<and> extends_steps L k (rs_Extends s) n \<and> n \<noteq> [] \<longrightarrow> tracked env ns L m RulesetPresetT n" by blast+
  then show "gens_ok env ns L m" by (simp add: grows_def)
  show "tracked env ns L m RulesetPresetT n" if "ruleset_uses L refs specs n"
    using that a(3) grows_tracked [OF b(1)] b(2) extends_target unfolding ruleset_uses_def by blast
qed

text \<open>A run that spreading delays: the observed generations are the current ones, for everything that is tracked.\<close>

lemma delayed_observed:
  assumes "spread_run env s (nil_if_empty m) = Some e" and "kinds_ok env" and "gens_ok env ns L m" and "\<forall>o1. ks_ObservedSubResourceGenerations s = Some o1 \<longrightarrow> gomap_ok o1"
    and "tracked env ns L m t n" and "generation_of env ns L t n = Some g"
  shows "\<exists>o1. ks_ObservedSubResourceGenerations s = Some o1 \<and> map_get o1 (getSubResourceKey env t ns n) = Some g"
proof -
  have v: "map_get m (getSubResourceKey env t ns n) = Some g" using tracked_value [OF assms(2,3,5,6)] .
  then have "nil_if_empty m = Some m" by (auto simp: nil_if_empty_def)
  moreover obtain mgr where "fe_SpreadingManager env = Some mgr" using assms(1) by (cases "fe_SpreadingManager env") (simp_all add: spread_run_def Spread_def)
  then have "\<not> subResourcesChanged (nil_if_empty m) (ks_ObservedSubResourceGenerations s)" using assms(1) Spread_SomeD by (fastforce simp: spread_run_def)
  ultimately have "map_option map_get (Some m) = map_option map_get (ks_ObservedSubResourceGenerations s)"
    using subResourcesChanged_spec [of "Some m" "ks_ObservedSubResourceGenerations s"] assms(3,4) by (simp add: gens_ok_def)
  then show ?thesis using v by (cases "ks_ObservedSubResourceGenerations s") simp_all
qed

text \<open>
  The objects a repository is built from: the presets it names for webhooks, ignore rules and autolinks, the code security configuration it names, and the ruleset presets it names or
  extends. Its organization and the secrets of its webhooks are read anew in every run and have no part in this.
\<close>

definition repo_uses :: "(string \<Rightarrow> ruleset_preset option) \<Rightarrow> 'w factory_repo \<Rightarrow> sub_type \<Rightarrow> string \<Rightarrow> bool" where
  "repo_uses L repo t n \<longleftrightarrow>
     (case t of
        RulesetPresetT \<Rightarrow> ruleset_uses L (fr_RulesetPresetList repo) (fr_Rulesets repo) n
      | WebhookPresetT \<Rightarrow> n \<in> set (fr_WebhookPresetList repo)
      | WebhookIgnorePresetT \<Rightarrow> n \<in> set (fr_WebhookIgnorePresetsList repo)
      | CodeSecurityConfigurationT \<Rightarrow> fr_AttachedCodeSecurityConfiguration repo = Some n
      | AutolinksPresetT \<Rightarrow> n \<in> set (fr_AutolinksPresetList repo))"


section \<open>A stalled organization\<close>

lemma stall_delay_range:
  assumes "ShouldStall now org [] r = (True, d)"
  shows "0 < d" and "d < 2 ^ 63"
proof -
  obtain st where st: "map_get (states r) org = Some st" using assms by (auto simp: ShouldStall_def split: option.splits)
  obtain j cat where sd: "stall_delay (rg_config r) st (now j) cat = Some d" using ShouldStall_spec(3) [OF st, of now "[]"] assms by auto
  show "0 < d" using sd by (rule stall_delay_pos)
  have "time_Sub x y < 2 ^ 63" for x y by (simp add: time_Sub_def)
  moreover have "\<exists>x y. d = time_Sub x y" using sd unfolding stall_delay_def Let_def by (simp split: option.splits if_splits) blast
  ultimately show "d < 2 ^ 63" by auto
qed

text \<open>An organization whose client is in the cache.\<close>

definition has_client :: "'w factory_org \<Rightarrow> 'key client_factory \<Rightarrow> bool" where
  "has_client org m \<longleftrightarrow>
     (case orgAppConfig org of
        Inl e \<Rightarrow> False
      | Inr app \<Rightarrow> getCachedClient (oa_GetLogin (fo_Spec org)) (if CredentialsSecretName app = [] then fa_legacySecretName m else CredentialsSecretName app) m \<noteq> None)"

lemma org_client_stalled:
  assumes "has_client org m" and "fa_orgRegistry m = Some r" and "ShouldStall (gk_stall1 (fe_gate env i)) (oa_GetLogin (fo_Spec org)) [] r = (True, d)"
  shows "org_client env i org m = (m, Inl (RateLimitedError (gk_err1 (fe_gate env i) + d) (gk_render (fe_gate env i) (gk_err1 (fe_gate env i) + d))))"
proof (cases "orgAppConfig org")
  case (Inl e)
  then show ?thesis using assms(1) by (simp add: has_client_def)
next
  case (Inr app)
  then obtain c where "getCachedClient (oa_GetLogin (fo_Spec org)) (if CredentialsSecretName app = [] then fa_legacySecretName m else CredentialsSecretName app) m = Some c"
    using assms(1) by (auto simp: has_client_def)
  then show ?thesis using Inr assms(2,3) by (simp add: org_client_def GetClient_def Let_def checkRateLimit_def)
qed

lemma factory_error_waits:
  assumes "t - now < 2 ^ 63"
  shows "\<exists>w. OnFactoryError False now (RateLimitedError t txt) = (w, None) \<and> 30 * Second \<le> w \<and> t \<le> now + w"
proof -
  have "rate_limit_reset (RateLimitedError t txt) = Some t"
    by (simp add: rate_limit_reset_def errors_As.simps is_RateLimitReached_def is_RateLimited_def)
  moreover have "t \<le> now + max (time_Sub t now) (30 * Second)" using assms by (auto simp: time_Sub_def Second_def)
  ultimately show ?thesis by (simp add: OnFactoryError_def minRateLimitRequeueDelay_def)
qed

lemma stalled_waits:
  assumes "has_client org m" and "fa_orgRegistry m = Some r" and "fst (ShouldStall (gk_stall1 (fe_gate env i)) (oa_GetLogin (fo_Spec org)) [] r)"
    and "\<forall>j. gk_stall1 (fe_gate env i) j \<le> gk_err1 (fe_gate env i)" and "gk_err1 (fe_gate env i) \<le> now"
    and "resets_in_range r (oa_GetLogin (fo_Spec org)) (gk_stall1 (fe_gate env i))"
  shows "\<exists>err w. org_client env i org m = (m, Inl err) \<and> OnFactoryError False now err = (w, None) \<and> 30 * Second \<le> w \<and>
    resumes_by r (oa_GetLogin (fo_Spec org)) (now + w)"
proof -
  let ?g = "fe_gate env i" and ?login = "oa_GetLogin (fo_Spec org)"
  obtain d where d: "ShouldStall (gk_stall1 ?g) ?login [] r = (True, d)" using assms(3) by (metis prod.collapse)
  let ?t = "gk_err1 ?g + d"
  have "resumes_by r ?login ?t" using stalled_resumes [OF d _ assms(6)] assms(4) by blast
  moreover have "?t - now < 2 ^ 63" using stall_delay_range(2) [OF d] assms(5) by simp
  then obtain w where "OnFactoryError False now (RateLimitedError ?t (gk_render ?g ?t)) = (w, None)" "30 * Second \<le> w" "?t \<le> now + w"
    using factory_error_waits by blast
  ultimately show ?thesis using org_client_stalled [OF assms(1,2) d] by (force simp: resumes_by_def)
qed

text \<open>A missing resource is the only reason for neither an error nor an executor.\<close>

lemma create_nothing_iff:
  "snd (CreateForRepo env ns name m) = Inr None \<longleftrightarrow> (\<exists>e. fe_GetRepository env ns name = Inl e \<and> IsNotFound e)"
  "snd (CreateForOrg env ns name m) = Inr None \<longleftrightarrow> (\<exists>e. fe_GetOrganization env ns name = Inl e \<and> IsNotFound e)"
  "snd (CreateForTeam env ns name m) = Inr None \<longleftrightarrow> (\<exists>e. fe_GetTeam env ns name = Inl e \<and> IsNotFound e)"
  by (auto simp: CreateForRepo_def CreateForOrg_def CreateForTeam_def IgnoreNotFound_def Let_def split: sum.splits option.splits prod.splits if_splits)

section \<open>An example\<close>

text \<open>A repository that refers to the preset \<^verbatim>\<open>mid\<close>, which extends \<^verbatim>\<open>base\<close>, and to a webhook preset; its organization is out of API budget.\<close>

definition ex_kind :: "sub_type \<Rightarrow> string" where
  "ex_kind t = (case t of RulesetPresetT \<Rightarrow> ''RulesetPreset'' | WebhookPresetT \<Rightarrow> ''WebhookPreset'' | WebhookIgnorePresetT \<Rightarrow> ''WebhookIgnorePreset''
     | CodeSecurityConfigurationT \<Rightarrow> ''CodeSecurityConfiguration'' | AutolinksPresetT \<Rightarrow> ''AutolinksPreset'')"

definition ex_frepo :: "nat factory_repo" where
  "ex_frepo = \<lparr>fr_Name = ''r'', fr_Namespace = ''n'', fr_OrganizationRef = ''o'', fr_SpecName = ''r'', fr_RulesetPresetList = [''mid''], fr_Rulesets = [], fr_WebhookPresetList = [''w''],
     fr_WebhookIgnorePresetsList = [], fr_AttachedCodeSecurityConfiguration = None, fr_AutolinksPresetList = [],
     fr_State = ex_warm\<lparr>ks_ObservedSubResourceGenerations := Some [(''RulesetPreset/n/mid'', 1), (''RulesetPreset/n/base'', 1), (''WebhookPreset/n/w'', 4)]\<rparr>\<rparr>"

definition ex_forg :: "nat factory_org" where
  "ex_forg = \<lparr>fo_Name = ''o'', fo_Namespace = ''n'', fo_Spec = ex_admission_org\<lparr>oa_Login := ''acme''\<rparr>, fo_Rulesets = [], fo_State = ex_warm\<rparr>"

definition ex_fenv :: "spread_config option \<Rightarrow> (nat, unit) factory_env" where
  "ex_fenv mgr = \<lparr>fe_GetOrganization = \<lambda>ns n. Inr ex_forg, fe_GetRepository = \<lambda>ns n. Inr ex_frepo, fe_GetTeam = \<lambda>ns n. Inl (APIStatusError ''NotFound'' ''not found''),
     fe_GetSub = \<lambda>t ns n. if t = WebhookPresetT \<and> n = ''w'' then Inr 4 else Inl (APIStatusError ''NotFound'' ''not found''),
     fe_GetRulesetPreset = \<lambda>ns. ex_reader 0, fe_PresetReader = \<lambda>ns. ex_reader, fe_Kind = ex_kind, fe_Config = ex_config, fe_SpreadingManager = mgr, fe_lib = ex_lib,
     fe_render = FormatInt, fe_rnd = ex_rand, fe_now1 = 2 * Minute, fe_now2 = 2 * Minute, fe_gate = \<lambda>i. ex_gate_clock, fe_secrets = ex_env, fe_getRateLimit = \<lambda>i c. ([], Inr None),
     fe_others = \<lambda>i m. m,
     fe_id_client = \<lambda>c. \<lparr>GetGitHubAppsInstallations = \<lambda>n. Inr [], GetAllTeamsForOrg = \<lambda>n. Inr [], GetAllOrgRoles = \<lambda>n. Inr [], GetRepository = \<lambda>n r. Inr None\<rparr>\<rparr>"

definition ex_ffactory :: "unit client_factory" where
  "ex_ffactory = ex_factory\<lparr>fa_clients := [(''acme'', \<lparr>ci_Client = ex_client, ci_InstallationID = 5, ci_CacheKey = ''acme'', ci_SecretName = ''legacy'', ci_OrgLogin = ''acme''\<rparr>)]\<rparr>"

lemma ex_fenv_ok: "kinds_ok (ex_fenv mgr)" "stable_presets (ex_fenv mgr) ns ex_presets"
proof -
  have "inj ex_kind" by (rule injI) (auto simp: ex_kind_def split: sub_type.splits)
  moreover have "CHR ''/'' \<notin> set (ex_kind t)" for t by (cases t) (simp_all add: ex_kind_def)
  ultimately show "kinds_ok (ex_fenv mgr)" by (simp add: kinds_ok_def ex_fenv_def)
  have "named_cluster ex_presets" by (auto simp: named_cluster_def ex_presets_def split: if_splits)
  moreover have "case ex_presets n of Some p \<Rightarrow> ex_reader 0 n = Inr p | None \<Rightarrow> \<exists>e. ex_reader 0 n = Inl e \<and> IsNotFound e" for n
    using ex_reader_reads by (simp add: reads_from_def)
  moreover have f: "fe_GetRulesetPreset (ex_fenv mgr) ns = ex_reader 0" "fe_PresetReader (ex_fenv mgr) ns = ex_reader" by (simp_all add: ex_fenv_def)
  ultimately show "stable_presets (ex_fenv mgr) ns ex_presets" unfolding stable_presets_def f using ex_reader_reads by blast
qed

lemma ex_fenv_gens:
  "fetchSubResourceGenerationsForRepo (ex_fenv mgr) ex_frepo =
     Inr (Some [(''RulesetPreset/n/mid'', 1), (''RulesetPreset/n/base'', 1), (''WebhookPreset/n/w'', 4)])"
  by code_simp


end
