(* ===== verification/OrgSettings.thy ===== *)
theory OrgSettings
  imports OrgTypes Errors
begin

text \<open>
  The settings of an organization (\<^verbatim>\<open>orgrec/rec_org.go\<close>), with \<^verbatim>\<open>mapper/github_org_mapper.go\<close>, and its deletion (\<^verbatim>\<open>orgrec/reconciler.go\<close>).
\<close>

section \<open>Data\<close>

record member_privileges =
  mp_DefaultRepositoryPermission :: "string option"
  mp_MembersCanCreatePages :: "bool option"
  mp_MembersCanCreatePublicPages :: "bool option"
  mp_MembersCanCreatePrivatePages :: "bool option"
  mp_MembersCanCreatePublicRepositories :: "bool option"
  mp_MembersCanCreatePrivateRepositories :: "bool option"
  mp_MembersCanCreateInternalRepositories :: "bool option"
  mp_MembersCanForkPrivateRepositories :: "bool option"

record org_settings =
  os_Resource :: org_resource
  os_Description :: string
  os_Location :: string
  os_Website :: string
  os_MemberPrivileges :: "member_privileges option"

record gh_org =
  go_Login :: "string option"
  go_Name :: "string option"
  go_Description :: "string option"
  go_Location :: "string option"
  go_Blog :: "string option"
  go_DefaultRepoPermission :: "string option"
  go_MembersCanCreatePages :: "bool option"
  go_MembersCanCreatePublicPages :: "bool option"
  go_MembersCanCreatePrivatePages :: "bool option"
  go_MembersCanCreatePublicRepos :: "bool option"
  go_MembersCanCreatePrivateRepos :: "bool option"
  go_MembersCanCreateInternalRepos :: "bool option"
  go_MembersCanForkPrivateRepos :: "bool option"

definition GetDisplayName :: "org_resource \<Rightarrow> string" where
  "GetDisplayName og =
     (if og_Login og \<noteq> [] \<and> og_Name og \<noteq> [] then og_Name og
      else if og_Login og \<noteq> [] \<and> og_Name og = [] then og_Login og
      else og_Name og)"

definition IsUsingLegacyNameField :: "org_resource \<Rightarrow> bool" where
  "IsUsingLegacyNameField og \<longleftrightarrow> og_Login og = [] \<and> og_Name og \<noteq> []"

section \<open>The mapper\<close>

text \<open>An empty string that is not to be sent.\<close>

definition non_empty :: "string \<Rightarrow> string option" where
  "non_empty s = (if s \<noteq> [] then Some s else None)"

definition OrgToGithubOrg :: "org_settings \<Rightarrow> gh_org" where
  "OrgToGithubOrg o1 =
     (let base = \<lparr>go_Login = Some (GetLogin (os_Resource o1)), go_Name = Some (GetDisplayName (os_Resource o1)), go_Description = Some (os_Description o1),
        go_Location = non_empty (os_Location o1), go_Blog = non_empty (os_Website o1), go_DefaultRepoPermission = None, go_MembersCanCreatePages = None,
        go_MembersCanCreatePublicPages = None, go_MembersCanCreatePrivatePages = None, go_MembersCanCreatePublicRepos = None, go_MembersCanCreatePrivateRepos = None,
        go_MembersCanCreateInternalRepos = None, go_MembersCanForkPrivateRepos = None\<rparr> in
      case os_MemberPrivileges o1 of
        None \<Rightarrow> base
      | Some mp \<Rightarrow> base\<lparr>go_DefaultRepoPermission := mp_DefaultRepositoryPermission mp, go_MembersCanCreatePages := mp_MembersCanCreatePages mp,
          go_MembersCanCreatePublicPages := mp_MembersCanCreatePublicPages mp, go_MembersCanCreatePrivatePages := mp_MembersCanCreatePrivatePages mp,
          go_MembersCanCreatePublicRepos := mp_MembersCanCreatePublicRepositories mp, go_MembersCanCreatePrivateRepos := mp_MembersCanCreatePrivateRepositories mp,
          go_MembersCanForkPrivateRepos := mp_MembersCanForkPrivateRepositories mp,
          go_MembersCanCreateInternalRepos := (if HasEnterpriseFeatures (og_Plan (os_Resource o1)) then mp_MembersCanCreateInternalRepositories mp else None)\<rparr>)"

definition privilegeDiffers :: "'a option \<Rightarrow> 'a option \<Rightarrow> bool" where
  "privilegeDiffers ghValue specValue \<longleftrightarrow> specValue \<noteq> None \<and> ghValue \<noteq> specValue"

definition OrgDiffers :: "org_settings \<Rightarrow> gh_org \<Rightarrow> bool" where
  "OrgDiffers o1 g \<longleftrightarrow>
     GetLogin (os_Resource o1) \<noteq> WithDefault (go_Login g) [] \<or> GetDisplayName (os_Resource o1) \<noteq> WithDefault (go_Name g) [] \<or>
     os_Description o1 \<noteq> WithDefault (go_Description g) [] \<or> os_Location o1 \<noteq> WithDefault (go_Location g) [] \<or> os_Website o1 \<noteq> WithDefault (go_Blog g) [] \<or>
     (case os_MemberPrivileges o1 of
        None \<Rightarrow> False
      | Some mp \<Rightarrow>
          privilegeDiffers (go_DefaultRepoPermission g) (mp_DefaultRepositoryPermission mp) \<or>
          privilegeDiffers (go_MembersCanCreatePages g) (mp_MembersCanCreatePages mp) \<or>
          privilegeDiffers (go_MembersCanCreatePublicPages g) (mp_MembersCanCreatePublicPages mp) \<or>
          privilegeDiffers (go_MembersCanCreatePrivatePages g) (mp_MembersCanCreatePrivatePages mp) \<or>
          privilegeDiffers (go_MembersCanCreatePublicRepos g) (mp_MembersCanCreatePublicRepositories mp) \<or>
          privilegeDiffers (go_MembersCanCreatePrivateRepos g) (mp_MembersCanCreatePrivateRepositories mp) \<or>
          privilegeDiffers (go_MembersCanForkPrivateRepos g) (mp_MembersCanForkPrivateRepositories mp) \<or>
          HasEnterpriseFeatures (og_Plan (os_Resource o1)) \<and> privilegeDiffers (go_MembersCanCreateInternalRepos g) (mp_MembersCanCreateInternalRepositories mp))"

section \<open>The reconciler\<close>

datatype org_call = EditOrganization string gh_org

record org_api =
  oi_GetOrganization :: "org_call list \<Rightarrow> string \<Rightarrow> (go_error, gh_org option) result"
  oi_EditOrganization :: "org_call list \<Rightarrow> string \<Rightarrow> gh_org \<Rightarrow> go_error option"

definition reconcileOrganization :: "org_api \<Rightarrow> string \<Rightarrow> org_settings \<Rightarrow> org_call list \<Rightarrow> org_call list \<times> go_error option" where
  "reconcileOrganization api login o1 h =
     (case oi_GetOrganization api h login of
        Inl e \<Rightarrow> (h, Some e)
      | Inr None \<Rightarrow> (h, Some (PlainError ''received nil organization from GitHub''))
      | Inr (Some g) \<Rightarrow>
          (if \<not> OrgDiffers o1 g then (h, None)
           else (h @ [EditOrganization login (OrgToGithubOrg o1)], oi_EditOrganization api h login (OrgToGithubOrg o1))))"

text \<open>Deletion: refused while repositories or teams refer to the organization. The lists are answers of Kubernetes.\<close>

definition checkForExistingRepos :: "(go_error, 'r list) result \<Rightarrow> go_error option" where
  "checkForExistingRepos repos =
     (case repos of Inl e \<Rightarrow> Some e
      | Inr rs \<Rightarrow> if rs \<noteq> [] then Some (FinalizationFailedError ''organization still has repositories, cannot delete it'') else None)"

definition checkForExistingTeams :: "(go_error, 't list) result \<Rightarrow> go_error option" where
  "checkForExistingTeams teams =
     (case teams of Inl e \<Rightarrow> Some e
      | Inr ts \<Rightarrow> if ts \<noteq> [] then Some (FinalizationFailedError ''organization still has teams, cannot delete it'') else None)"

definition org_ReconcileDeletion :: "(go_error, 'r list) result \<Rightarrow> (go_error, 't list) result \<Rightarrow> go_error option" where
  "org_ReconcileDeletion repos teams = (case checkForExistingRepos repos of Some e \<Rightarrow> Some e | None \<Rightarrow> checkForExistingTeams teams)"

section \<open>When an update settles the organization\<close>

text \<open>GitHub changes the fields it is sent; the login of an organization is no field of the request.\<close>

definition set_if :: "'a option \<Rightarrow> 'a option \<Rightarrow> 'a option" where
  "set_if old new = (if new = None then old else new)"

definition org_edited :: "gh_org \<Rightarrow> gh_org \<Rightarrow> gh_org" where
  "org_edited g q =
     \<lparr>go_Login = go_Login g, go_Name = set_if (go_Name g) (go_Name q), go_Description = set_if (go_Description g) (go_Description q),
      go_Location = set_if (go_Location g) (go_Location q), go_Blog = set_if (go_Blog g) (go_Blog q),
      go_DefaultRepoPermission = set_if (go_DefaultRepoPermission g) (go_DefaultRepoPermission q),
      go_MembersCanCreatePages = set_if (go_MembersCanCreatePages g) (go_MembersCanCreatePages q),
      go_MembersCanCreatePublicPages = set_if (go_MembersCanCreatePublicPages g) (go_MembersCanCreatePublicPages q),
      go_MembersCanCreatePrivatePages = set_if (go_MembersCanCreatePrivatePages g) (go_MembersCanCreatePrivatePages q),
      go_MembersCanCreatePublicRepos = set_if (go_MembersCanCreatePublicRepos g) (go_MembersCanCreatePublicRepos q),
      go_MembersCanCreatePrivateRepos = set_if (go_MembersCanCreatePrivateRepos g) (go_MembersCanCreatePrivateRepos q),
      go_MembersCanCreateInternalRepos = set_if (go_MembersCanCreateInternalRepos g) (go_MembersCanCreateInternalRepos q),
      go_MembersCanForkPrivateRepos = set_if (go_MembersCanForkPrivateRepos g) (go_MembersCanForkPrivateRepos q)\<rparr>"

lemma privilege_set [simp]: "\<not> privilegeDiffers (set_if old v) v"
  by (simp add: privilegeDiffers_def set_if_def)

text \<open>An update settles an organization exactly if its login is that of the resource and GitHub has no location or website where the resource leaves them empty: clearing the
  location or the website of an organization is detected in every run and never done.\<close>

lemma org_update_settles_iff:
  "\<not> OrgDiffers o1 (org_edited g (OrgToGithubOrg o1)) \<longleftrightarrow>
     GetLogin (os_Resource o1) = WithDefault (go_Login g) [] \<and>
     (os_Location o1 = [] \<longrightarrow> WithDefault (go_Location g) [] = []) \<and> (os_Website o1 = [] \<longrightarrow> WithDefault (go_Blog g) [] = [])"
proof (cases "os_MemberPrivileges o1")
  case None
  then show ?thesis by (auto simp: OrgDiffers_def org_edited_def OrgToGithubOrg_def non_empty_def set_if_def)
next
  case (Some mp)
  have "set_if x (Some v) = Some v" for x :: "string option" and v by (simp add: set_if_def)
  moreover have "WithDefault (set_if (go_Location g) (non_empty s)) [] = s \<longleftrightarrow> (s = [] \<longrightarrow> WithDefault (go_Location g) [] = [])"
      "WithDefault (set_if (go_Blog g) (non_empty s)) [] = s \<longleftrightarrow> (s = [] \<longrightarrow> WithDefault (go_Blog g) [] = [])" for s
    by (auto simp: set_if_def non_empty_def)
  ultimately show ?thesis using Some unfolding OrgDiffers_def org_edited_def OrgToGithubOrg_def
    by (simp add: eq_commute [of "os_Location o1"] eq_commute [of "os_Website o1"])
qed

end
