(* ===== verification/Watches.thy ===== *)
theory Watches
  imports ReconcilerFactory OrgSettings
begin

text \<open>
  What the controllers watch and the indexes they register for it (\<^verbatim>\<open>SetupWithManager\<close> and the \<^verbatim>\<open>find...\<close> functions of \<^verbatim>\<open>controller/repository_controller.go\<close>,
  \<^verbatim>\<open>organization_controller.go\<close> and \<^verbatim>\<open>team_controller.go\<close>). The cache of the controller library is an argument; \<open>cache_serves\<close> is what the library documents: a list by a
  registered field gives the objects for which the index function returns the value, a list by a field without an index is an error.
\<close>

section \<open>Indexes\<close>

definition attachedCSC :: "'w factory_repo \<Rightarrow> string list" where
  "attachedCSC repo = (case fr_AttachedCodeSecurityConfiguration repo of None \<Rightarrow> [] | Some n \<Rightarrow> [n])"

text \<open>The fields under which the controllers register index functions, by kind.\<close>

definition repository_indexes :: "(string \<times> ('w factory_repo \<Rightarrow> string list)) list" where
  "repository_indexes =
     [(''spec.organizationRef.name'', \<lambda>r. [fr_OrganizationRef r]),
      (''spec.attachedCodeSecurityConfiguration.name'', attachedCSC),
      (''spec.webhookPresets.name'', fr_WebhookPresetList),
      (''spec.webhookIgnorePresets.name'', fr_WebhookIgnorePresetsList),
      (''spec.autolinksPresets.name'', fr_AutolinksPresetList)]"

definition organization_indexes :: "(string \<times> ('w factory_org \<Rightarrow> string list)) list" where
  "organization_indexes = [(''spec.codeSecurityConfigurationAttachments.name'', \<lambda>org. oa_CodeSecurityConfigurations (fo_Spec org))]"

definition team_indexes :: "(string \<times> ('w factory_team \<Rightarrow> string list)) list" where
  "team_indexes = [(''spec.organizationRefs'', ft_OrganizationRefs)]"

text \<open>A list from the cache: the namespace, if one is given, the field and its value.\<close>

type_synonym 'o field_list = "string option \<Rightarrow> string \<Rightarrow> string \<Rightarrow> (go_error, 'o list) result"

record 'w watch_cache =
  wc_Repositories :: "'w factory_repo field_list"
  wc_Organizations :: "'w factory_org field_list"
  wc_Teams :: "'w factory_team field_list"

section \<open>Requests\<close>

definition repo_requests :: "(go_error, 'w factory_repo list) result \<Rightarrow> (string \<times> string) list" where
  "repo_requests res = (case res of Inl e \<Rightarrow> [] | Inr rs \<Rightarrow> map (\<lambda>r. (fr_Namespace r, fr_Name r)) rs)"

definition findRepositoriesForWebhookPreset :: "'w watch_cache \<Rightarrow> string \<Rightarrow> (string \<times> string) list" where
  "findRepositoriesForWebhookPreset c name = repo_requests (wc_Repositories c None ''spec.webhookPresets.name'' name)"

definition findRepositoriesForWebhookIgnorePreset :: "'w watch_cache \<Rightarrow> string \<Rightarrow> (string \<times> string) list" where
  "findRepositoriesForWebhookIgnorePreset c name = repo_requests (wc_Repositories c None ''spec.webhookIgnorePresets.name'' name)"

definition findRepositoriesForAutolinksPreset :: "'w watch_cache \<Rightarrow> string \<Rightarrow> (string \<times> string) list" where
  "findRepositoriesForAutolinksPreset c name = repo_requests (wc_Repositories c None ''spec.autolinksPresets.name'' name)"

definition findOrganizationsForCodeSecurityConfiguration :: "'w watch_cache \<Rightarrow> string \<Rightarrow> (string \<times> string) list" where
  "findOrganizationsForCodeSecurityConfiguration c name =
     (case wc_Organizations c None ''spec.codeSecurityConfigurationAttachments.name'' name of
        Inl e \<Rightarrow> []
      | Inr os \<Rightarrow> map (\<lambda>o1. (fo_Namespace o1, fo_Name o1)) os)"

text \<open>The watches of the repository controller: the requests for a changed object. There is none for code security configurations.\<close>

definition repository_watch :: "'w watch_cache \<Rightarrow> index_reader \<Rightarrow> sub_type \<Rightarrow> string \<Rightarrow> string \<Rightarrow> (string \<times> string) list" where
  "repository_watch c ix t ns name =
     (case t of
        WebhookPresetT \<Rightarrow> findRepositoriesForWebhookPreset c name
      | WebhookIgnorePresetT \<Rightarrow> findRepositoriesForWebhookIgnorePreset c name
      | RulesetPresetT \<Rightarrow> RepositoryRequests ix ns name
      | AutolinksPresetT \<Rightarrow> findRepositoriesForAutolinksPreset c name
      | CodeSecurityConfigurationT \<Rightarrow> [])"

definition organization_watch :: "'w watch_cache \<Rightarrow> index_reader \<Rightarrow> sub_type \<Rightarrow> string \<Rightarrow> string \<Rightarrow> (string \<times> string) list" where
  "organization_watch c ix t ns name =
     (case t of
        CodeSecurityConfigurationT \<Rightarrow> findOrganizationsForCodeSecurityConfiguration c name
      | RulesetPresetT \<Rightarrow> OrganizationRequests ix ns name
      | _ \<Rightarrow> [])"

text \<open>The lists that guard the deletion of an organization (\<^verbatim>\<open>orgrec/reconciler.go\<close>).\<close>

definition getReferencingK8sRepos :: "'w watch_cache \<Rightarrow> string \<Rightarrow> string \<Rightarrow> (go_error, 'w factory_repo list) result" where
  "getReferencingK8sRepos c ns name = wc_Repositories c (Some ns) ''spec.organizationRef.name'' name"

definition list_teams_of_org :: "'w watch_cache \<Rightarrow> string \<Rightarrow> string \<Rightarrow> (go_error, 'w factory_team list) result" where
  "list_teams_of_org c ns name = wc_Teams c (Some ns) ''spec.organizationRefs.name'' name"

section \<open>What the cache promises\<close>

definition serves_fields :: "'o field_list \<Rightarrow> (string \<times> ('o \<Rightarrow> string list)) list \<Rightarrow> ('o \<Rightarrow> string) \<Rightarrow> 'o set \<Rightarrow> bool" where
  "serves_fields listing indexes namespace objs \<longleftrightarrow>
     (\<forall>ns field v.
        case map_of indexes field of
          None \<Rightarrow> (\<exists>e. listing ns field v = Inl e)
        | Some idx \<Rightarrow> (\<exists>xs. listing ns field v = Inr xs \<and> set xs = {x \<in> objs. (ns = None \<or> ns = Some (namespace x)) \<and> v \<in> set (idx x)}))"

definition cache_serves :: "'w watch_cache \<Rightarrow> 'w factory_repo set \<Rightarrow> 'w factory_org set \<Rightarrow> 'w factory_team set \<Rightarrow> bool" where
  "cache_serves c repos orgs teams \<longleftrightarrow> serves_fields (wc_Repositories c) repository_indexes fr_Namespace repos \<and>
     serves_fields (wc_Organizations c) organization_indexes fo_Namespace orgs \<and> serves_fields (wc_Teams c) team_indexes ft_Namespace teams"

lemma served_field:
  assumes "serves_fields listing indexes namespace objs" and "map_of indexes field = Some idx"
  shows "\<exists>xs. listing ns field v = Inr xs \<and> set xs = {x \<in> objs. (ns = None \<or> ns = Some (namespace x)) \<and> v \<in> set (idx x)}"
  using assms(1) [unfolded serves_fields_def, rule_format, of ns field v] assms(2) by simp

lemma unserved_field:
  assumes "serves_fields listing indexes namespace objs" and "map_of indexes field = None"
  shows "\<exists>e. listing ns field v = Inl e"
  using assms(1) [unfolded serves_fields_def, rule_format, of ns field v] assms(2) by simp

text \<open>The requests of a watch with a registered field: the repositories that name the object, of any namespace.\<close>

lemma watch_field:
  assumes "serves_fields (wc_Repositories c) repository_indexes fr_Namespace repos" and "map_of repository_indexes field = Some idx"
  shows "set (repo_requests (wc_Repositories c None field v)) = {(fr_Namespace r, fr_Name r) |r. r \<in> repos \<and> v \<in> set (idx r)}"
proof -
  obtain xs where xs: "wc_Repositories c None field v = Inr xs" "set xs = {r \<in> repos. v \<in> set (idx r)}"
    using served_field [OF assms, of None v] by auto
  then have "set (repo_requests (wc_Repositories c None field v)) = (\<lambda>r. (fr_Namespace r, fr_Name r)) ` {r \<in> repos. v \<in> set (idx r)}" by (simp add: repo_requests_def)
  then show ?thesis by blast
qed

lemma registered_fields:
  "map_of repository_indexes ''spec.webhookPresets.name'' = Some fr_WebhookPresetList"
  "map_of repository_indexes ''spec.webhookIgnorePresets.name'' = Some fr_WebhookIgnorePresetsList"
  "map_of repository_indexes ''spec.autolinksPresets.name'' = Some fr_AutolinksPresetList"
  "map_of team_indexes ''spec.organizationRefs.name'' = None"
  by (simp_all add: repository_indexes_def team_indexes_def)

section \<open>Everything that is tracked is watched\<close>

text \<open>What a repository has of rulesets, as the index of presets sees it.\<close>

definition repo_user :: "'w factory_repo \<Rightarrow> preset_user" where
  "repo_user r = \<lparr>pu_Name = fr_Name r, pu_Namespace = fr_Namespace r, pu_RulesetPresetList = fr_RulesetPresetList r, pu_Rulesets = fr_Rulesets r\<rparr>"

lemma ruleset_uses_indexed:
  assumes "ruleset_uses L refs specs n"
  shows "\<exists>x \<in> set (referencedRulesetPresetNames refs specs). extends_within L MaxExtendsDepth x n"
proof -
  have "extends_within L MaxExtendsDepth (rs_Extends s) n" if "extends_steps L k (rs_Extends s) n" "k < MaxExtendsDepth" for s k
    unfolding extends_within_def using that less_imp_le by blast
  then show ?thesis using assms unfolding ruleset_uses_def index_names by blast
qed


section \<open>The deletion of an organization\<close>


text \<open>An example: the cache of a cluster with the repository of the last theory.\<close>

definition field_cache :: "(string \<times> ('o \<Rightarrow> string list)) list \<Rightarrow> ('o \<Rightarrow> string) \<Rightarrow> 'o list \<Rightarrow> 'o field_list" where
  "field_cache indexes namespace objs ns field v =
     (case map_of indexes field of
        None \<Rightarrow> Inl (PlainError (''index with name field:'' @ field @ '' does not exist''))
      | Some idx \<Rightarrow> Inr (filter (\<lambda>x. (ns = None \<or> ns = Some (namespace x)) \<and> List.member (idx x) v) objs))"

lemma field_cache_serves: "serves_fields (field_cache indexes namespace objs) indexes namespace (set objs)"
  by (auto simp: serves_fields_def field_cache_def split: option.split)

definition ex_watch_cache :: "nat watch_cache" where
  "ex_watch_cache = \<lparr>wc_Repositories = field_cache repository_indexes fr_Namespace [ex_frepo], wc_Organizations = field_cache organization_indexes fo_Namespace [ex_forg],
     wc_Teams = field_cache team_indexes ft_Namespace []\<rparr>"

lemma ex_watch_cache_serves: "cache_serves ex_watch_cache {ex_frepo} {ex_forg} {}"
  using field_cache_serves [of repository_indexes fr_Namespace "[ex_frepo]"] field_cache_serves [of organization_indexes fo_Namespace "[ex_forg]"]
    field_cache_serves [of team_indexes ft_Namespace "[]"]
  by (simp add: cache_serves_def ex_watch_cache_def)



end
