(* ===== verification/StatusApply.thy ===== *)
theory StatusApply
  imports ReconcilerFactory
begin

text \<open>
  What a run leaves behind in the cluster: the apply configurations that the three reconcilers build for the status and the metadata of their resources
  (\<^verbatim>\<open>BuildStatusApplyConfig\<close> and \<^verbatim>\<open>BuildMetadataApplyConfig\<close> of \<^verbatim>\<open>orgrec\<close>, \<^verbatim>\<open>reporec\<close> and \<^verbatim>\<open>teamrec\<close>, \<^verbatim>\<open>conditions/applyconfig.go\<close>, the builders under
  \<^verbatim>\<open>api/v1alpha1/applyconfiguration\<close>), what is read back from them, and what the next start of the operator makes of it: a resource that was reconciled without an error
  and has not changed is recognised as warm.
\<close>

section \<open>Builders\<close>

text \<open>
  A field of a configuration that was not set is nil and is left out of the request. \<open>ConditionApplyConfiguration\<close> comes from the Kubernetes client library: its builder is a parameter. \<open>cl_read\<close>
  is the condition that the server returns for it, \<open>cl_Round\<close> the precision of a stored time.
\<close>

record 'cc condition_lib =
  cl_Condition :: 'cc
  cl_WithType :: "string \<Rightarrow> 'cc \<Rightarrow> 'cc"
  cl_WithStatus :: "condition_status \<Rightarrow> 'cc \<Rightarrow> 'cc"
  cl_WithObservedGeneration :: "int \<Rightarrow> 'cc \<Rightarrow> 'cc"
  cl_WithLastTransitionTime :: "int option \<Rightarrow> 'cc \<Rightarrow> 'cc"
  cl_WithReason :: "string \<Rightarrow> 'cc \<Rightarrow> 'cc"
  cl_WithMessage :: "string \<Rightarrow> 'cc \<Rightarrow> 'cc"
  cl_read :: "'cc \<Rightarrow> condition"
  cl_Round :: "int \<Rightarrow> int"

text \<open>Each call sets the field it is named after and no other.\<close>

definition condition_lib_law :: "'cc condition_lib \<Rightarrow> bool" where
  "condition_lib_law cl \<longleftrightarrow>
     (\<forall>v x. cl_read cl (cl_WithType cl v x) = (cl_read cl x)\<lparr>cond_Type := v\<rparr>) \<and>
     (\<forall>v x. cl_read cl (cl_WithStatus cl v x) = (cl_read cl x)\<lparr>cond_Status := v\<rparr>) \<and>
     (\<forall>v x. cl_read cl (cl_WithObservedGeneration cl v x) = (cl_read cl x)\<lparr>cond_ObservedGeneration := v\<rparr>) \<and>
     (\<forall>v x. cl_read cl (cl_WithLastTransitionTime cl v x) = (cl_read cl x)\<lparr>cond_LastTransitionTime := map_option (cl_Round cl) v\<rparr>) \<and>
     (\<forall>v x. cl_read cl (cl_WithReason cl v x) = (cl_read cl x)\<lparr>cond_Reason := v\<rparr>) \<and>
     (\<forall>v x. cl_read cl (cl_WithMessage cl v x) = (cl_read cl x)\<lparr>cond_Message := v\<rparr>)"

definition ToApplyConfig :: "'cc condition_lib \<Rightarrow> condition \<Rightarrow> 'cc" where
  "ToApplyConfig cl c =
     cl_WithMessage cl (cond_Message c) (cl_WithReason cl (cond_Reason c) (cl_WithLastTransitionTime cl (cond_LastTransitionTime c)
       (cl_WithObservedGeneration cl (cond_ObservedGeneration c) (cl_WithStatus cl (cond_Status c) (cl_WithType cl (cond_Type c) (cl_Condition cl))))))"

definition ToApplyConfigs :: "'cc condition_lib \<Rightarrow> condition list \<Rightarrow> 'cc list" where
  "ToApplyConfigs cl cs = map (ToApplyConfig cl) cs"

text \<open>Entries written into a map field in the order \<open>ord\<close>; the map is made when there is something to write.\<close>

definition with_entries :: "(('k \<times> 'v) list \<Rightarrow> ('k \<times> 'v) list) \<Rightarrow> ('k, 'v) gomap \<Rightarrow> ('k, 'v) gomap option \<Rightarrow> ('k, 'v) gomap option" where
  "with_entries ord entries b =
     (let b1 = (if b = None \<and> entries \<noteq> [] then Some [] else b)
      in map_option (put_all fst snd (ord entries)) b1)"

text \<open>The configuration of an object: type, metadata and status. The three kinds differ in the status.\<close>

record object_meta_config =
  om_Name :: "string option"
  om_Namespace :: "string option"
  om_Labels :: "(string, string) gomap option"
  om_Annotations :: "(string, string) gomap option"
  om_Finalizers :: "string list"

record 'st object_config =
  oc_Kind :: "string option"
  oc_APIVersion :: "string option"
  oc_ObjectMeta :: "object_meta_config option"
  oc_Status :: "'st option"

definition ensureObjectMeta :: "'st object_config \<Rightarrow> object_meta_config" where
  "ensureObjectMeta b =
     (case oc_ObjectMeta b of
        None \<Rightarrow> \<lparr>om_Name = None, om_Namespace = None, om_Labels = None, om_Annotations = None, om_Finalizers = []\<rparr>
      | Some m \<Rightarrow> m)"

definition WithKind :: "string \<Rightarrow> 'st object_config \<Rightarrow> 'st object_config" where
  "WithKind v b = b\<lparr>oc_Kind := Some v\<rparr>"

definition WithAPIVersion :: "string \<Rightarrow> 'st object_config \<Rightarrow> 'st object_config" where
  "WithAPIVersion v b = b\<lparr>oc_APIVersion := Some v\<rparr>"

definition WithName :: "string \<Rightarrow> 'st object_config \<Rightarrow> 'st object_config" where
  "WithName v b = b\<lparr>oc_ObjectMeta := Some ((ensureObjectMeta b)\<lparr>om_Name := Some v\<rparr>)\<rparr>"

definition WithNamespace :: "string \<Rightarrow> 'st object_config \<Rightarrow> 'st object_config" where
  "WithNamespace v b = b\<lparr>oc_ObjectMeta := Some ((ensureObjectMeta b)\<lparr>om_Namespace := Some v\<rparr>)\<rparr>"

definition WithLabels :: "((string \<times> string) list \<Rightarrow> (string \<times> string) list) \<Rightarrow> (string, string) gomap \<Rightarrow> 'st object_config \<Rightarrow> 'st object_config" where
  "WithLabels ord entries b =
     (let m = ensureObjectMeta b in b\<lparr>oc_ObjectMeta := Some (m\<lparr>om_Labels := with_entries ord entries (om_Labels m)\<rparr>)\<rparr>)"

definition WithAnnotations :: "((string \<times> string) list \<Rightarrow> (string \<times> string) list) \<Rightarrow> (string, string) gomap \<Rightarrow> 'st object_config \<Rightarrow> 'st object_config" where
  "WithAnnotations ord entries b =
     (let m = ensureObjectMeta b in b\<lparr>oc_ObjectMeta := Some (m\<lparr>om_Annotations := with_entries ord entries (om_Annotations m)\<rparr>)\<rparr>)"

definition WithFinalizers :: "string list \<Rightarrow> 'st object_config \<Rightarrow> 'st object_config" where
  "WithFinalizers values b =
     (let m = ensureObjectMeta b in b\<lparr>oc_ObjectMeta := Some (m\<lparr>om_Finalizers := om_Finalizers m @ values\<rparr>)\<rparr>)"

definition WithStatus :: "'st \<Rightarrow> 'st object_config \<Rightarrow> 'st object_config" where
  "WithStatus v b = b\<lparr>oc_Status := Some v\<rparr>"

definition empty_object :: "'st object_config" where
  "empty_object = \<lparr>oc_Kind = None, oc_APIVersion = None, oc_ObjectMeta = None, oc_Status = None\<rparr>"

definition APIVersion :: string where
  "APIVersion = ''github.interhyp.de/v1alpha1''"

definition ac_Repository :: "string \<Rightarrow> string \<Rightarrow> 'st object_config" where
  "ac_Repository name ns = WithAPIVersion APIVersion (WithKind ''Repository'' (WithNamespace ns (WithName name empty_object)))"

definition ac_Organization :: "string \<Rightarrow> string \<Rightarrow> 'st object_config" where
  "ac_Organization name ns = WithAPIVersion APIVersion (WithKind ''Organization'' (WithNamespace ns (WithName name empty_object)))"

definition ac_Team :: "string \<Rightarrow> string \<Rightarrow> 'st object_config" where
  "ac_Team name ns = WithAPIVersion APIVersion (WithKind ''Team'' (WithNamespace ns (WithName name empty_object)))"

section \<open>The status of the three kinds\<close>

record webhook_status_config =
  wsc_SecretHash :: "string option"

definition WithSecretHash :: "string \<Rightarrow> webhook_status_config \<Rightarrow> webhook_status_config" where
  "WithSecretHash v b = b\<lparr>wsc_SecretHash := Some v\<rparr>"

definition WebhookStatus :: webhook_status_config where
  "WebhookStatus = \<lparr>wsc_SecretHash = None\<rparr>"

record 'cc repository_status_config =
  rsc_Webhooks :: "(string, webhook_status_config) gomap option"
  rsc_Conditions :: "'cc list"
  rsc_ID :: "int option"
  rsc_ObservedSubResourceGenerations :: "(string, int) gomap option"

definition RepositoryStatusConfig :: "'cc repository_status_config" where
  "RepositoryStatusConfig = \<lparr>rsc_Webhooks = None, rsc_Conditions = [], rsc_ID = None, rsc_ObservedSubResourceGenerations = None\<rparr>"

text \<open>The values added to a list are never nil: the callers make them with a constructor.\<close>

definition Repo_WithWebhooks ::
    "((string \<times> webhook_status_config) list \<Rightarrow> (string \<times> webhook_status_config) list) \<Rightarrow> (string, webhook_status_config) gomap \<Rightarrow> 'cc repository_status_config \<Rightarrow> 'cc repository_status_config" where
  "Repo_WithWebhooks ord entries b = b\<lparr>rsc_Webhooks := with_entries ord entries (rsc_Webhooks b)\<rparr>"

definition Repo_WithConditions :: "'cc list \<Rightarrow> 'cc repository_status_config \<Rightarrow> 'cc repository_status_config" where
  "Repo_WithConditions values b = b\<lparr>rsc_Conditions := rsc_Conditions b @ values\<rparr>"

definition Repo_WithID :: "int \<Rightarrow> 'cc repository_status_config \<Rightarrow> 'cc repository_status_config" where
  "Repo_WithID v b = b\<lparr>rsc_ID := Some v\<rparr>"

definition Repo_WithObservedSubResourceGenerations ::
    "((string \<times> int) list \<Rightarrow> (string \<times> int) list) \<Rightarrow> (string, int) gomap \<Rightarrow> 'cc repository_status_config \<Rightarrow> 'cc repository_status_config" where
  "Repo_WithObservedSubResourceGenerations ord entries b =
     b\<lparr>rsc_ObservedSubResourceGenerations := with_entries ord entries (rsc_ObservedSubResourceGenerations b)\<rparr>"

record 'cc organization_status_config =
  osc_Conditions :: "'cc list"
  osc_ObservedSubResourceGenerations :: "(string, int) gomap option"

definition OrganizationStatusConfig :: "'cc organization_status_config" where
  "OrganizationStatusConfig = \<lparr>osc_Conditions = [], osc_ObservedSubResourceGenerations = None\<rparr>"

definition Org_WithConditions :: "'cc list \<Rightarrow> 'cc organization_status_config \<Rightarrow> 'cc organization_status_config" where
  "Org_WithConditions values b = b\<lparr>osc_Conditions := osc_Conditions b @ values\<rparr>"

definition Org_WithObservedSubResourceGenerations ::
    "((string \<times> int) list \<Rightarrow> (string \<times> int) list) \<Rightarrow> (string, int) gomap \<Rightarrow> 'cc organization_status_config \<Rightarrow> 'cc organization_status_config" where
  "Org_WithObservedSubResourceGenerations ord entries b =
     b\<lparr>osc_ObservedSubResourceGenerations := with_entries ord entries (osc_ObservedSubResourceGenerations b)\<rparr>"

record organization_ref_config =
  orc_Name :: "string option"

definition OrganizationRef_WithName :: "string \<Rightarrow> organization_ref_config \<Rightarrow> organization_ref_config" where
  "OrganizationRef_WithName v b = b\<lparr>orc_Name := Some v\<rparr>"

definition OrganizationRefConfig :: organization_ref_config where
  "OrganizationRefConfig = \<lparr>orc_Name = None\<rparr>"

record 'cc team_status_config =
  tsc_Conditions :: "'cc list"
  tsc_PreviousOrganizationRefs :: "organization_ref_config list"
  tsc_Slug :: "string option"

definition TeamStatusConfig :: "'cc team_status_config" where
  "TeamStatusConfig = \<lparr>tsc_Conditions = [], tsc_PreviousOrganizationRefs = [], tsc_Slug = None\<rparr>"

definition Team_WithConditions :: "'cc list \<Rightarrow> 'cc team_status_config \<Rightarrow> 'cc team_status_config" where
  "Team_WithConditions values b = b\<lparr>tsc_Conditions := tsc_Conditions b @ values\<rparr>"

definition Team_WithPreviousOrganizationRefs :: "organization_ref_config list \<Rightarrow> 'cc team_status_config \<Rightarrow> 'cc team_status_config" where
  "Team_WithPreviousOrganizationRefs values b = b\<lparr>tsc_PreviousOrganizationRefs := tsc_PreviousOrganizationRefs b @ values\<rparr>"

definition Team_WithSlug :: "string \<Rightarrow> 'cc team_status_config \<Rightarrow> 'cc team_status_config" where
  "Team_WithSlug v b = b\<lparr>tsc_Slug := Some v\<rparr>"

text \<open>The orders in which the maps are iterated: the webhooks, their configurations and the generations.\<close>

record range_orders =
  ro_Webhooks :: "(string \<times> string) list \<Rightarrow> (string \<times> string) list"
  ro_WebhookConfigs :: "(string \<times> webhook_status_config) list \<Rightarrow> (string \<times> webhook_status_config) list"
  ro_Generations :: "(string \<times> int) list \<Rightarrow> (string \<times> int) list"

definition range_orders_ok :: "range_orders \<Rightarrow> bool" where
  "range_orders_ok ro \<longleftrightarrow> range_order (ro_Webhooks ro) \<and> range_order (ro_WebhookConfigs ro) \<and> range_order (ro_Generations ro)"

text \<open>What the status of a repository holds besides conditions and generations: the secret hashes of its webhooks by key, and its id.\<close>

record repository_extras =
  rex_Webhooks :: "(string, string) gomap option"
  rex_ID :: "int option"

definition Repo_BuildStatusApplyConfig ::
    "'cc condition_lib \<Rightarrow> range_orders \<Rightarrow> string \<Rightarrow> string \<Rightarrow> ('w \<Rightarrow> repository_extras) \<Rightarrow> 'w kstate \<Rightarrow> 'cc repository_status_config object_config" where
  "Repo_BuildStatusApplyConfig cl ro name ns extras s =
     (let x = extras (ks_world s);
          s1 = Repo_WithConditions (ToApplyConfigs cl (ks_Conditions s)) RepositoryStatusConfig;
          s2 = (case rex_ID x of None \<Rightarrow> s1 | Some i \<Rightarrow> Repo_WithID i s1);
          s3 = (case rex_Webhooks x of
                  None \<Rightarrow> s2
                | Some webhooks \<Rightarrow>
                    (let whAC = put_all fst (\<lambda>(k, hash). WithSecretHash hash WebhookStatus) (ro_Webhooks ro webhooks) []
                     in Repo_WithWebhooks (ro_WebhookConfigs ro) whAC s2));
          s4 = (case ks_ObservedSubResourceGenerations s of
                  None \<Rightarrow> s3
                | Some gens \<Rightarrow> Repo_WithObservedSubResourceGenerations (ro_Generations ro) gens s3)
      in WithStatus s4 (ac_Repository name ns))"

definition Org_BuildStatusApplyConfig ::
    "'cc condition_lib \<Rightarrow> range_orders \<Rightarrow> string \<Rightarrow> string \<Rightarrow> 'w kstate \<Rightarrow> 'cc organization_status_config object_config" where
  "Org_BuildStatusApplyConfig cl ro name ns s =
     (let s1 = Org_WithConditions (ToApplyConfigs cl (ks_Conditions s)) OrganizationStatusConfig;
          s2 = (case ks_ObservedSubResourceGenerations s of
                  None \<Rightarrow> s1
                | Some gens \<Rightarrow> Org_WithObservedSubResourceGenerations (ro_Generations ro) gens s1)
      in WithStatus s2 (ac_Organization name ns))"

text \<open>What the status of a team holds besides conditions: its slug and the organizations of its last run.\<close>

record team_extras =
  tex_Slug :: "string option"
  tex_PreviousOrganizationRefs :: "string list option"

definition Team_BuildStatusApplyConfig ::
    "'cc condition_lib \<Rightarrow> string \<Rightarrow> string \<Rightarrow> ('w \<Rightarrow> team_extras) \<Rightarrow> 'w kstate \<Rightarrow> 'cc team_status_config object_config" where
  "Team_BuildStatusApplyConfig cl name ns extras s =
     (let x = extras (ks_world s);
          s1 = Team_WithConditions (ToApplyConfigs cl (ks_Conditions s)) TeamStatusConfig;
          s2 = (case tex_Slug x of None \<Rightarrow> s1 | Some slug \<Rightarrow> Team_WithSlug slug s1);
          s3 = (case tex_PreviousOrganizationRefs x of
                  None \<Rightarrow> s2
                | Some refs \<Rightarrow> Team_WithPreviousOrganizationRefs (map (\<lambda>ref. OrganizationRef_WithName ref OrganizationRefConfig) refs) s2)
      in WithStatus s3 (ac_Team name ns))"

section \<open>The metadata of the three kinds\<close>

text \<open>The three methods differ in the constructor \<open>new\<close> only. Nil arguments are left out.\<close>

definition metadata_config ::
    "((string \<times> string) list \<Rightarrow> (string \<times> string) list) \<Rightarrow> 'st object_config \<Rightarrow> (string, string) gomap option \<Rightarrow> (string, string) gomap option \<Rightarrow> string list option \<Rightarrow> 'st object_config" where
  "metadata_config ord new lbls annotations finalizers =
     (let c1 = (case lbls of None \<Rightarrow> new | Some l \<Rightarrow> WithLabels ord l new);
          c2 = (case annotations of None \<Rightarrow> c1 | Some a \<Rightarrow> WithAnnotations ord a c1)
      in case finalizers of None \<Rightarrow> c2 | Some f \<Rightarrow> WithFinalizers f c2)"

definition Repo_BuildMetadataApplyConfig where
  "Repo_BuildMetadataApplyConfig ord name ns = metadata_config ord (ac_Repository name ns)"

definition Org_BuildMetadataApplyConfig where
  "Org_BuildMetadataApplyConfig ord name ns = metadata_config ord (ac_Organization name ns)"

definition Team_BuildMetadataApplyConfig where
  "Team_BuildMetadataApplyConfig ord name ns = metadata_config ord (ac_Team name ns)"

section \<open>Reading back\<close>

definition round_condition :: "(int \<Rightarrow> int) \<Rightarrow> condition \<Rightarrow> condition" where
  "round_condition r c = c\<lparr>cond_LastTransitionTime := map_option r (cond_LastTransitionTime c)\<rparr>"

lemma round_condition_fields [simp]:
  "cond_Type (round_condition r c) = cond_Type c" "cond_Status (round_condition r c) = cond_Status c"
  "cond_ObservedGeneration (round_condition r c) = cond_ObservedGeneration c"
  by (simp_all add: round_condition_def)

lemma read_conditions:
  assumes "condition_lib_law cl"
  shows "map (cl_read cl) (ToApplyConfigs cl cs) = map (round_condition (cl_Round cl)) cs"
proof -
  have "cl_read cl (ToApplyConfig cl c) = round_condition (cl_Round cl) c" for c
    using assms by (cases c) (simp add: condition_lib_law_def ToApplyConfig_def round_condition_def)
  then show ?thesis by (simp add: ToApplyConfigs_def)
qed

lemma find_rounded: "find_condition t (map (round_condition r) cs) = map_option (round_condition r) (find_condition t cs)"
  unfolding find_condition_def by (induction cs) auto

text \<open>A copied map has the entries of the original; an empty one becomes nil.\<close>

definition nil_map :: "('k, 'v) gomap option \<Rightarrow> ('k, 'v) gomap option" where
  "nil_map g = (if g = Some [] then None else g)"

lemma copied_map:
  assumes "range_order ord" and "gomap_ok m"
  shows "map_get (put_all fst vf (ord m) []) k = map_option (\<lambda>v. vf (k, v)) (map_get m k)"
proof (cases "map_get m k")
  case None
  then have "k \<notin> fst ` set (ord m)" unfolding range_order_keys(1) [OF assms] by (simp add: map_of_eq_None_iff)
  then show ?thesis using None by (simp add: put_all_notin)
next
  case (Some v)
  then have "(k, v) \<in> set (ord m)" using range_order_keys(3) [OF assms] by simp
  from put_all_distinct [OF range_order_keys(2) [OF assms] this, of vf] show ?thesis using Some by simp
qed

lemma copied_nil:
  assumes "range_order ord" and "gomap_ok m" and "put_all fst vf (ord m) [] = []"
  shows "m = []"
proof (rule ccontr)
  assume "m \<noteq> []"
  then obtain k v rest where "m = (k, v) # rest" by (metis neq_Nil_conv prod.collapse)
  then have "map_get m k = Some v" by simp
  then show False using copied_map [OF assms(1,2), of vf k] assms(3) by simp
qed

lemma with_entries_None:
  "with_entries ord m None = (if m = [] then None else Some (put_all fst snd (ord m) []))"
  by (simp add: with_entries_def)

lemma with_entries_get:
  assumes "range_order ord" and "gomap_ok m"
  shows "map_option map_get (with_entries ord m None) = map_option map_get (nil_map (Some m))"
  using copied_map [OF assms, of snd] by (auto simp: with_entries_None nil_map_def option.map_ident)

lemma with_entries_ok: "pred_option gomap_ok (with_entries ord m None)"
  by (simp add: with_entries_None)

lemmas build_defs = WithStatus_def ac_Repository_def ac_Organization_def ac_Team_def RepositoryStatusConfig_def OrganizationStatusConfig_def TeamStatusConfig_def
  Repo_WithWebhooks_def Repo_WithConditions_def Repo_WithID_def Repo_WithObservedSubResourceGenerations_def Org_WithConditions_def Org_WithObservedSubResourceGenerations_def
  Team_WithConditions_def Team_WithPreviousOrganizationRefs_def Team_WithSlug_def

section \<open>A status that survives\<close>

text \<open>
  The interface of the three kinds to the executor and to spreading: the configuration built from a state holds its conditions, up to the precision of times, and its observed generations, where
  the kind records them (\<open>kept\<close>). What the server stores for the last accepted configuration is its status; the operator is the only writer of the fields of the status.
\<close>

definition stores_status :: "('w \<Rightarrow> 'st option) \<Rightarrow> ('w, 'st object_config) reconciler \<Rightarrow> bool" where
  "stores_status status_in rc \<longleftrightarrow> (\<forall>cfg w w'. rc_StatusApply rc cfg w = (w', None) \<longrightarrow> status_in w' = oc_Status cfg)"

text \<open>The resource as the operator reads it again: nothing but its status has changed.\<close>

definition reread :: "condition list \<Rightarrow> (string, int) gomap option \<Rightarrow> 'w kstate \<Rightarrow> 'w kstate" where
  "reread cs gens s = s\<lparr>ks_Conditions := cs, ks_ObservedSubResourceGenerations := gens\<rparr>"

text \<open>The last configuration of a run without an error was accepted by the server and has the final conditions and generations.\<close>

lemma reconcile_nil_applied:
  assumes "Reconcile lib ck sched rc s = Some (s', None)" and "ks_DeletionTimestamp s = None"
  shows "\<exists>s3. ks_Conditions s3 = ks_Conditions s' \<and> ks_ObservedSubResourceGenerations s3 = ks_ObservedSubResourceGenerations s' \<and>
           rc_StatusApply rc (rc_BuildStatusApplyConfig rc s3) (ks_world s3) = (ks_world s', None)"
  using assms(1)
proof (cases rule: Reconcile_cases)
  case run
  then obtain s3 where "applyStatus rc s3 = (s', None)"
    by (auto simp: reconcile_run_def Let_def split: option.splits prod.splits)
  then show ?thesis
    using applyStatus_frame [of rc s3] by (intro exI [of _ s3]) (auto simp: applyStatus_def split: prod.splits)
qed (use assms(2) in auto)

text \<open>Inside the window the delay is positive.\<close>

lemma spread_delay_positive:
  assumes "rand_law rnd" and "Minute \<le> sc_SpreadInterval m" and "sc_SpreadInterval m < 2 ^ 63" and "now < StartTime m + sc_SpreadPeriod m"
  shows "0 < calculateSpreadDelay rnd now m"
proof -
  define n where "n = sc_SpreadInterval m sdiv Minute"
  have n: "n = sc_SpreadInterval m div Minute" using assms(2) by (simp add: n_def sdiv_nonneg Minute_def)
  then have n1: "1 \<le> n" using assms(2) zdiv_mono1 [OF assms(2), of Minute] by (simp add: Minute_def)
  have nle: "n * Minute \<le> sc_SpreadInterval m" unfolding n Minute_def by simp
  have r: "0 \<le> rnd n" "rnd n \<le> n - 1" using rand_lawD [OF assms(1), of n] n1 by auto
  have w: "wrap64 (rnd n * Minute) = rnd n * Minute"
    by (rule wrap64_id) (use r nle assms(3) in \<open>auto simp: Minute_def\<close>)
  have "0 < time_Sub (StartTime m + sc_SpreadPeriod m + rnd n * Minute) now"
    using assms(4) r by (simp add: time_Sub_def Minute_def max_def min_def)
  then show ?thesis using n1 w by (simp add: calculateSpreadDelay_def Let_def n_def)
qed

lemma window_open:
  assumes "now < StartTime m + sc_SpreadPeriod m" and "0 \<le> sc_SpreadPeriod m"
  shows "time_Sub now (StartTime m) \<le> sc_SpreadPeriod m"
  using assms by (auto simp: time_Sub_def max_def min_def)

text \<open>An open window: spreading is on, the clock is read before the end of the window, and the interval has at least a minute.\<close>

definition window :: "(int \<Rightarrow> int) \<Rightarrow> int \<Rightarrow> int \<Rightarrow> spread_config \<Rightarrow> bool" where
  "window rnd now1 now2 m \<longleftrightarrow> rand_law rnd \<and> Enabled m \<and> 0 \<le> sc_SpreadPeriod m \<and> Minute \<le> sc_SpreadInterval m \<and> sc_SpreadInterval m < 2 ^ 63 \<and>
     now1 < StartTime m + sc_SpreadPeriod m \<and> now2 < StartTime m + sc_SpreadPeriod m"

text \<open>Organizations and repositories record a non-empty map or nil, teams nothing.\<close>

definition records_map :: "(string, int) gomap option \<Rightarrow> bool" where
  "records_map g \<longleftrightarrow> pred_option gomap_ok g \<and> g \<noteq> Some []"

lemma copied_generations:
  assumes "range_orders_ok ro" and "records_map g"
  shows "map_option map_get (case g of None \<Rightarrow> None | Some m \<Rightarrow> with_entries (ro_Generations ro) m None) = map_option map_get g \<and>
         pred_option gomap_ok (case g of None \<Rightarrow> None | Some m \<Rightarrow> with_entries (ro_Generations ro) m None)"
proof (cases g)
  case (Some m)
  then show ?thesis
    using assms with_entries_get [of "ro_Generations ro" m] with_entries_ok [of "ro_Generations ro" m]
    by (simp add: range_orders_ok_def records_map_def nil_map_def)
qed simp

locale applied_status =
  fixes cl :: "'cc condition_lib" and ro :: range_orders and build :: "'w kstate \<Rightarrow> 'st object_config"
    and conds :: "'st \<Rightarrow> condition list" and gens :: "'st \<Rightarrow> (string, int) gomap option" and recorded :: "(string, int) gomap option \<Rightarrow> bool"
  assumes built: "condition_lib_law cl \<Longrightarrow> range_orders_ok ro \<Longrightarrow> recorded (ks_ObservedSubResourceGenerations s) \<Longrightarrow>
      \<exists>st. oc_Status (build s) = Some st \<and> conds st = map (round_condition (cl_Round cl)) (ks_Conditions s) \<and>
        map_option map_get (gens st) = map_option map_get (ks_ObservedSubResourceGenerations s) \<and> pred_option gomap_ok (gens st)"
    and recorded_ok: "recorded g \<Longrightarrow> pred_option gomap_ok g"
begin

lemma healthy_after_restart:
  assumes "condition_lib_law cl" and "range_orders_ok ro" and "find_condition_law lib"
    and "find_condition TypeReady (ks_Conditions s') = Some c" and "cond_Status c = ConditionTrue" and "cond_ObservedGeneration c = ks_Generation s"
    and "conds st = map (round_condition (cl_Round cl)) (ks_Conditions s')"
  shows "IsHealthy lib (reread (conds st) g s) \<and> GetObservedGeneration lib (reread (conds st) g s) = ks_Generation s"
  using assms by (simp add: IsHealthy_def GetObservedGeneration_def reread_def find_condition_law_def find_rounded)

lemma restart_delayed:
  assumes env: "condition_lib_law cl" "range_orders_ok ro" "set_condition_law lib" "find_condition_law lib"
    and rc: "rc_BuildStatusApplyConfig rc = build" "stores_status status_in rc"
    and run: "Reconcile lib ck sched rc s = Some (s', None)" "ks_DeletionTimestamp s = None"
    and cur: "rc_SetObservedSubResourceGeneration rc (ks_ObservedSubResourceGenerations s) (rc_CurrentSubResourceGenerations rc) = cur" "recorded cur"
    and win: "window rnd now1 now2 m"
  shows "\<exists>st d. status_in (ks_world s') = Some st \<and> 0 < d \<and>
           Spread lib render rnd now1 now2 (Some m) (reread (conds st) (gens st) s) cur = Some (RequiresSpreadError d (render d))"
proof -
  have ready: "\<exists>c. find_condition TypeReady (ks_Conditions s') = Some c \<and> cond_Status c = ConditionTrue \<and> cond_ObservedGeneration c = ks_Generation s"
      and obs: "ks_ObservedSubResourceGenerations s' = cur"
    using nil_run_ready [OF env(3) run(2,1)] cur(1) by blast+
  then obtain c where c: "find_condition TypeReady (ks_Conditions s') = Some c" "cond_Status c = ConditionTrue" "cond_ObservedGeneration c = ks_Generation s"
    by blast
  obtain s3 where s3: "ks_Conditions s3 = ks_Conditions s'" "ks_ObservedSubResourceGenerations s3 = ks_ObservedSubResourceGenerations s'"
      "rc_StatusApply rc (build s3) (ks_world s3) = (ks_world s', None)"
    using reconcile_nil_applied [OF run] rc(1) by metis
  have "recorded (ks_ObservedSubResourceGenerations s3)" using s3(2) obs cur(2) by simp
  from built [OF env(1,2) this] obtain st where st: "oc_Status (build s3) = Some st" "conds st = map (round_condition (cl_Round cl)) (ks_Conditions s')"
      "map_option map_get (gens st) = map_option map_get cur" "pred_option gomap_ok (gens st)"
    using s3(1,2) obs by metis
  have in_server: "status_in (ks_world s') = Some st" using rc(2) s3(3) st(1) by (auto simp: stores_status_def)
  let ?r = "reread (conds st) (gens st) s"
  have "\<not> subResourcesChanged cur (gens st)"
    using subResourcesChanged_spec [of cur "gens st"] recorded_ok [OF cur(2)] st(3,4) by (metis option.pred_inject(2))
  moreover have "IsHealthy lib ?r" "GetObservedGeneration lib ?r = ks_Generation s"
    using healthy_after_restart [OF env(1,2,4) c st(2)] by blast+
  moreover have "0 < calculateSpreadDelay rnd now2 m" using spread_delay_positive win by (simp add: window_def)
  moreover have "time_Sub now1 (StartTime m) \<le> sc_SpreadPeriod m" using window_open [of now1 m] win by (simp add: window_def)
  ultimately have "Spread lib render rnd now1 now2 (Some m) ?r cur =
      Some (RequiresSpreadError (calculateSpreadDelay rnd now2 m) (render (calculateSpreadDelay rnd now2 m)))"
    using win run(2) by (simp add: Spread_def Let_def window_def reread_def)
  then show ?thesis using in_server \<open>0 < calculateSpreadDelay rnd now2 m\<close> by blast
qed

end

section \<open>The three kinds\<close>

interpretation repo_status: applied_status cl ro "Repo_BuildStatusApplyConfig cl ro name ns extras"
    "\<lambda>st. map (cl_read cl) (rsc_Conditions st)" rsc_ObservedSubResourceGenerations records_map
  for cl :: "'cc condition_lib" and ro name ns and extras :: "'w \<Rightarrow> repository_extras"
proof
  fix s :: "'w kstate"
  assume a: "condition_lib_law cl" "range_orders_ok ro" "records_map (ks_ObservedSubResourceGenerations s)"
  let ?st = "the (oc_Status (Repo_BuildStatusApplyConfig cl ro name ns extras s))"
  have st: "oc_Status (Repo_BuildStatusApplyConfig cl ro name ns extras s) = Some ?st" "rsc_Conditions ?st = ToApplyConfigs cl (ks_Conditions s)"
      "rsc_ObservedSubResourceGenerations ?st = (case ks_ObservedSubResourceGenerations s of None \<Rightarrow> None | Some g \<Rightarrow> with_entries (ro_Generations ro) g None)"
    by (simp_all add: Repo_BuildStatusApplyConfig_def build_defs Let_def split: option.split)
  have "map_option map_get (rsc_ObservedSubResourceGenerations ?st) = map_option map_get (ks_ObservedSubResourceGenerations s) \<and> pred_option gomap_ok (rsc_ObservedSubResourceGenerations ?st)"
    unfolding st(3) by (rule copied_generations [OF a(2,3)])
  then show "\<exists>st. oc_Status (Repo_BuildStatusApplyConfig cl ro name ns extras s) = Some st \<and> map (cl_read cl) (rsc_Conditions st) = map (round_condition (cl_Round cl)) (ks_Conditions s) \<and>
      map_option map_get (rsc_ObservedSubResourceGenerations st) = map_option map_get (ks_ObservedSubResourceGenerations s) \<and> pred_option gomap_ok (rsc_ObservedSubResourceGenerations st)"
    using st(1,2) read_conditions [OF a(1)] by metis
qed (simp add: records_map_def)

interpretation org_status: applied_status cl ro "Org_BuildStatusApplyConfig cl ro name ns"
    "\<lambda>st. map (cl_read cl) (osc_Conditions st)" osc_ObservedSubResourceGenerations records_map
  for cl :: "'cc condition_lib" and ro name ns
proof
  fix s :: "'w kstate"
  assume a: "condition_lib_law cl" "range_orders_ok ro" "records_map (ks_ObservedSubResourceGenerations s)"
  let ?st = "the (oc_Status (Org_BuildStatusApplyConfig cl ro name ns s))"
  have st: "oc_Status (Org_BuildStatusApplyConfig cl ro name ns s) = Some ?st" "osc_Conditions ?st = ToApplyConfigs cl (ks_Conditions s)"
      "osc_ObservedSubResourceGenerations ?st = (case ks_ObservedSubResourceGenerations s of None \<Rightarrow> None | Some g \<Rightarrow> with_entries (ro_Generations ro) g None)"
    by (simp_all add: Org_BuildStatusApplyConfig_def build_defs Let_def split: option.split)
  have "map_option map_get (osc_ObservedSubResourceGenerations ?st) = map_option map_get (ks_ObservedSubResourceGenerations s) \<and> pred_option gomap_ok (osc_ObservedSubResourceGenerations ?st)"
    unfolding st(3) by (rule copied_generations [OF a(2,3)])
  then show "\<exists>st. oc_Status (Org_BuildStatusApplyConfig cl ro name ns s) = Some st \<and> map (cl_read cl) (osc_Conditions st) = map (round_condition (cl_Round cl)) (ks_Conditions s) \<and>
      map_option map_get (osc_ObservedSubResourceGenerations st) = map_option map_get (ks_ObservedSubResourceGenerations s) \<and> pred_option gomap_ok (osc_ObservedSubResourceGenerations st)"
    using st(1,2) read_conditions [OF a(1)] by metis
qed (simp add: records_map_def)

interpretation team_status: applied_status cl ro "Team_BuildStatusApplyConfig cl name ns extras"
    "\<lambda>st. map (cl_read cl) (tsc_Conditions st)" "\<lambda>st. None" "\<lambda>g. g = None"
  for cl :: "'cc condition_lib" and ro name ns and extras :: "'w \<Rightarrow> team_extras"
proof
  fix s :: "'w kstate"
  assume a: "condition_lib_law cl" "ks_ObservedSubResourceGenerations s = None"
  let ?st = "the (oc_Status (Team_BuildStatusApplyConfig cl name ns extras s))"
  have "oc_Status (Team_BuildStatusApplyConfig cl name ns extras s) = Some ?st" "tsc_Conditions ?st = ToApplyConfigs cl (ks_Conditions s)"
    by (simp_all add: Team_BuildStatusApplyConfig_def build_defs Let_def split: option.split)
  then show "\<exists>st. oc_Status (Team_BuildStatusApplyConfig cl name ns extras s) = Some st \<and> map (cl_read cl) (tsc_Conditions st) = map (round_condition (cl_Round cl)) (ks_Conditions s) \<and>
      map_option map_get None = map_option map_get (ks_ObservedSubResourceGenerations s) \<and> pred_option gomap_ok None"
    using a(2) read_conditions [OF a(1)] by (metis option.map_disc_iff option.pred_inject(1))
qed simp

section \<open>Generations the factory collects\<close>

lemma sub_loop_ok: "sub_loop env t ns names m = Inr m' \<Longrightarrow> gomap_ok m \<Longrightarrow> gomap_ok m'"
  by (induction env t ns names m rule: sub_loop.induct) (auto simp: collectSubResourceGeneration_def split: sum.splits if_splits)

lemma sub_loops_ok: "sub_loops env ns subs m = Inr m' \<Longrightarrow> gomap_ok m \<Longrightarrow> gomap_ok m'"
  by (induction env ns subs m rule: sub_loops.induct) (auto split: sum.splits dest: sub_loop_ok)

lemma collectAncestors_ok: "collectAncestors env ns extends self r m = (r', Inr m') \<Longrightarrow> gomap_ok m \<Longrightarrow> gomap_ok m'"
  by (auto simp: collectAncestors_def split: sum.splits prod.splits)

lemma preset_refs_ok: "preset_refs env ns refs r m = (r', Inr m') \<Longrightarrow> gomap_ok m \<Longrightarrow> gomap_ok m'"
proof (induction env ns refs r m rule: preset_refs.induct)
  case (2 env ns ref refs r m)
  obtain r1 m1 where 1: "preset_ref env ns ref r m = (r1, Inr m1)" using "2.prems"(1) by (auto split: prod.splits sum.splits)
  have "gomap_ok m1" using 1 "2.prems"(2) by (auto simp: preset_ref_def split: sum.splits if_splits dest!: collectAncestors_ok)
  then show ?case using "2.IH" [OF 1 [symmetric] refl] "2.prems"(1) 1 by simp
qed simp

lemma inline_refs_ok: "inline_refs env ns specs r m = (r', Inr m') \<Longrightarrow> gomap_ok m \<Longrightarrow> gomap_ok m'"
proof (induction env ns specs r m rule: inline_refs.induct)
  case (2 env ns s specs r m)
  obtain r1 m1 where 1: "collectAncestors env ns (rs_Extends s) [] r m = (r1, Inr m1)" using "2.prems"(1) by (auto split: prod.splits sum.splits)
  then show ?case using "2.IH" [OF 1 [symmetric] refl] "2.prems" collectAncestors_ok [OF 1] by simp
qed simp

lemma ruleset_generations_ok:
  assumes "collectRulesetPresetGenerations env ns refs specs [] = Inr m"
  shows "gomap_ok m"
proof -
  obtain r1 m1 where p: "preset_refs env ns refs NewChainResolver [] = (r1, Inr m1)" "snd (inline_refs env ns specs r1 m1) = Inr m"
    using assms by (auto simp: collectRulesetPresetGenerations_def split: prod.splits sum.splits)
  then show ?thesis using preset_refs_ok [OF p(1)] inline_refs_ok by (metis prod.collapse gomap_ok_Nil)
qed

lemma nil_if_empty_recorded: "gomap_ok m \<Longrightarrow> records_map (nil_if_empty m)"
  by (simp add: nil_if_empty_def records_map_def)

lemma fetched_recorded:
  "fetchSubResourceGenerationsForRepo env repo = Inr g \<Longrightarrow> records_map g"
  "fetchSubResourceGenerationsForOrg env org = Inr g \<Longrightarrow> records_map g"
  by (auto simp: fetchSubResourceGenerationsForRepo_def fetchSubResourceGenerationsForOrg_def split: sum.splits
      intro!: nil_if_empty_recorded dest!: ruleset_generations_ok sub_loop_ok sub_loops_ok)

section \<open>Properties\<close>

text \<open>How the executor of a repository, an organization or a team records its run.\<close>

definition records_generations :: "(string, int) gomap option \<Rightarrow> ('w, 'c) reconciler \<Rightarrow> bool" where
  "records_generations g rc \<longleftrightarrow> rc_CurrentSubResourceGenerations rc = g \<and> rc_SetObservedSubResourceGeneration rc = (\<lambda>old new. new)"

text \<open>C15: a run that succeeds is remembered over a restart. If \<open>Reconcile\<close> returns nil for a repository, the status in the cluster is such that, when the operator starts again and reads the repository with
  nothing changed but that status, it delays the run into the spreading interval and asks nothing of GitHub.\<close>

theorem restarted_repo_delayed:
  assumes "condition_lib_law cl" and "range_orders_ok ro" and "set_condition_law (fe_lib env')" and "find_condition_law (fe_lib env')"
    and "rc_BuildStatusApplyConfig rc = Repo_BuildStatusApplyConfig cl ro (fr_Name repo) (fr_Namespace repo) extras" and "stores_status status_in rc"
    and "fetchSubResourceGenerationsForRepo env repo = Inr g" and "records_generations g rc"
    and "Reconcile (fe_lib env') ck sched rc (fr_State repo) = Some (s', None)" and "ks_DeletionTimestamp (fr_State repo) = None"
    and "fe_GetRepository env' ns name =
           Inr (repo\<lparr>fr_State := reread (map (cl_read cl) (rsc_Conditions (the (status_in (ks_world s')))))
                   (rsc_ObservedSubResourceGenerations (the (status_in (ks_world s')))) (fr_State repo)\<rparr>)"
    and "fetchSubResourceGenerationsForRepo env' repo = Inr g"
    and "fe_SpreadingManager env' = Some mgr" and "window (fe_rnd env') (fe_now1 env') (fe_now2 env') mgr"
  shows "\<exists>d. 0 < d \<and> CreateForRepo env' ns name m = (m, Inl (RequiresSpreadError d (fe_render env' d)))"
proof -
  let ?st = "the (status_in (ks_world s'))"
  have "rc_SetObservedSubResourceGeneration rc (ks_ObservedSubResourceGenerations (fr_State repo)) (rc_CurrentSubResourceGenerations rc) = g"
    using assms(8) by (simp add: records_generations_def)
  from repo_status.restart_delayed [OF assms(1-6,9,10) this fetched_recorded(1) [OF assms(7)] assms(14)]
  obtain st d where "status_in (ks_world s') = Some st" and d: "0 < d"
      and sp: "Spread (fe_lib env') (fe_render env') (fe_rnd env') (fe_now1 env') (fe_now2 env') (Some mgr)
         (reread (map (cl_read cl) (rsc_Conditions st)) (rsc_ObservedSubResourceGenerations st) (fr_State repo)) g = Some (RequiresSpreadError d (fe_render env' d))"
    by blast
  then have "st = ?st" by simp
  have "fetchSubResourceGenerationsForRepo env' (repo\<lparr>fr_State := x\<rparr>) = fetchSubResourceGenerationsForRepo env' repo" for x
    by (simp add: fetchSubResourceGenerationsForRepo_def repo_subs_def cong: sum.case_cong)
  then show ?thesis using d sp assms(11,12,13) \<open>st = ?st\<close> by (auto simp: CreateForRepo_def spread_run_def)
qed

text \<open>The same for an organization, and for a team, which has no generations to compare.\<close>

lemma restarted_org_delayed:
  assumes "condition_lib_law cl" and "range_orders_ok ro" and "set_condition_law (fe_lib env')" and "find_condition_law (fe_lib env')"
    and "rc_BuildStatusApplyConfig rc = Org_BuildStatusApplyConfig cl ro (fo_Name org) (fo_Namespace org)" and "stores_status status_in rc"
    and "fetchSubResourceGenerationsForOrg env org = Inr g" and "records_generations g rc"
    and "Reconcile (fe_lib env') ck sched rc (fo_State org) = Some (s', None)" and "ks_DeletionTimestamp (fo_State org) = None"
    and "fe_GetOrganization env' ns name =
           Inr (org\<lparr>fo_State := reread (map (cl_read cl) (osc_Conditions (the (status_in (ks_world s')))))
                   (osc_ObservedSubResourceGenerations (the (status_in (ks_world s')))) (fo_State org)\<rparr>)"
    and "fetchSubResourceGenerationsForOrg env' org = Inr g"
    and "fe_SpreadingManager env' = Some mgr" and "window (fe_rnd env') (fe_now1 env') (fe_now2 env') mgr"
  shows "\<exists>d. 0 < d \<and> CreateForOrg env' ns name m = (m, Inl (RequiresSpreadError d (fe_render env' d)))"
proof -
  have "rc_SetObservedSubResourceGeneration rc (ks_ObservedSubResourceGenerations (fo_State org)) (rc_CurrentSubResourceGenerations rc) = g"
    using assms(8) by (simp add: records_generations_def)
  from org_status.restart_delayed [OF assms(1-6,9,10) this fetched_recorded(2) [OF assms(7)] assms(14)]
  obtain st d where st: "status_in (ks_world s') = Some st" and d: "0 < d"
      and sp: "Spread (fe_lib env') (fe_render env') (fe_rnd env') (fe_now1 env') (fe_now2 env') (Some mgr)
         (reread (map (cl_read cl) (osc_Conditions st)) (osc_ObservedSubResourceGenerations st) (fo_State org)) g = Some (RequiresSpreadError d (fe_render env' d))"
    by blast
  have "fetchSubResourceGenerationsForOrg env' (org\<lparr>fo_State := x\<rparr>) = fetchSubResourceGenerationsForOrg env' org" for x
    by (simp add: fetchSubResourceGenerationsForOrg_def cong: sum.case_cong)
  then show ?thesis using d sp st assms(11,12,13) by (auto simp: CreateForOrg_def spread_run_def)
qed

lemma restarted_team_delayed:
  assumes "condition_lib_law cl" and "range_orders_ok ro" and "set_condition_law (fe_lib env')" and "find_condition_law (fe_lib env')"
    and "rc_BuildStatusApplyConfig rc = Team_BuildStatusApplyConfig cl (ft_Name team) (ft_Namespace team) extras" and "stores_status status_in rc"
    and "rc_SetObservedSubResourceGeneration rc = (\<lambda>old new. old)" and "ks_ObservedSubResourceGenerations (ft_State team) = None"
    and "Reconcile (fe_lib env') ck sched rc (ft_State team) = Some (s', None)" and "ks_DeletionTimestamp (ft_State team) = None"
    and "fe_GetTeam env' ns name = Inr (team\<lparr>ft_State := reread (map (cl_read cl) (tsc_Conditions (the (status_in (ks_world s'))))) None (ft_State team)\<rparr>)"
    and "fe_SpreadingManager env' = Some mgr" and "window (fe_rnd env') (fe_now1 env') (fe_now2 env') mgr"
  shows "\<exists>d. 0 < d \<and> CreateForTeam env' ns name m = (m, Inl (RequiresSpreadError d (fe_render env' d)))"
proof -
  have "rc_SetObservedSubResourceGeneration rc (ks_ObservedSubResourceGenerations (ft_State team)) (rc_CurrentSubResourceGenerations rc) = None"
    using assms(7,8) by simp
  from team_status.restart_delayed [OF assms(1-6,9,10) this refl assms(13)]
  obtain st d where "status_in (ks_world s') = Some st" and "0 < d"
      and "Spread (fe_lib env') (fe_render env') (fe_rnd env') (fe_now1 env') (fe_now2 env') (Some mgr)
         (reread (map (cl_read cl) (tsc_Conditions st)) None (ft_State team)) None = Some (RequiresSpreadError d (fe_render env' d))"
    by blast
  then show ?thesis using assms(11,12) by (auto simp: CreateForTeam_def spread_run_def)
qed

text \<open>The webhook hashes and the id of a repository are read back as they were, nil for an empty map; so are the slug and the organizations of a team.\<close>

lemma repo_status_roundtrip:
  assumes "range_orders_ok ro" and "pred_option gomap_ok (rex_Webhooks (extras (ks_world s)))"
  shows "\<exists>st. oc_Status (Repo_BuildStatusApplyConfig cl ro name ns extras s) = Some st \<and> rsc_ID st = rex_ID (extras (ks_world s)) \<and>
           map_option (\<lambda>m k. map_option wsc_SecretHash (map_get m k)) (rsc_Webhooks st) =
             map_option (\<lambda>m k. map_option Some (map_get m k)) (nil_map (rex_Webhooks (extras (ks_world s))))"
proof -
  let ?st = "the (oc_Status (Repo_BuildStatusApplyConfig cl ro name ns extras s))"
  let ?copy = "\<lambda>m. put_all fst (\<lambda>(k, hash). WithSecretHash hash WebhookStatus) (ro_Webhooks ro m) []"
  have st: "oc_Status (Repo_BuildStatusApplyConfig cl ro name ns extras s) = Some ?st" "rsc_ID ?st = rex_ID (extras (ks_world s))"
      "rsc_Webhooks ?st = (case rex_Webhooks (extras (ks_world s)) of None \<Rightarrow> None | Some m \<Rightarrow> with_entries (ro_WebhookConfigs ro) (?copy m) None)"
    by (simp_all add: Repo_BuildStatusApplyConfig_def build_defs Let_def split: option.split)
  have ro: "range_order (ro_Webhooks ro)" "range_order (ro_WebhookConfigs ro)" using assms(1) by (simp_all add: range_orders_ok_def)
  have "map_option (\<lambda>m k. map_option wsc_SecretHash (map_get m k)) (with_entries (ro_WebhookConfigs ro) (?copy m) None) =
      map_option (\<lambda>m k. map_option Some (map_get m k)) (nil_map (Some m))" if m: "gomap_ok m" for m
  proof (cases "m = []")
    case True
    then have "?copy m = []" using range_order_set [OF ro(1), of "[]"] by simp
    then show ?thesis using True by (simp add: with_entries_None nil_map_def)
  next
    case False
    then have "?copy m \<noteq> []" using copied_nil [OF ro(1) m] by blast
    moreover have "gomap_ok (?copy m)" by simp
    ultimately show ?thesis
      using False copied_map [OF ro(2), of "?copy m" snd] copied_map [OF ro(1) m, of "\<lambda>(k, hash). WithSecretHash hash WebhookStatus"]
      by (simp add: with_entries_None nil_map_def option.map_comp comp_def WithSecretHash_def)
  qed
  then have "map_option (\<lambda>m k. map_option wsc_SecretHash (map_get m k)) (rsc_Webhooks ?st) =
      map_option (\<lambda>m k. map_option Some (map_get m k)) (nil_map (rex_Webhooks (extras (ks_world s))))"
    unfolding st(3) using assms(2) by (cases "rex_Webhooks (extras (ks_world s))") (simp_all add: nil_map_def [of None])
  with st(1,2) show ?thesis by blast
qed

lemma team_status_roundtrip:
  "\<exists>st. oc_Status (Team_BuildStatusApplyConfig cl name ns extras s) = Some st \<and> tsc_Slug st = tex_Slug (extras (ks_world s)) \<and>
     map orc_Name (tsc_PreviousOrganizationRefs st) = map Some (case tex_PreviousOrganizationRefs (extras (ks_world s)) of None \<Rightarrow> [] | Some refs \<Rightarrow> refs)"
  by (simp add: Team_BuildStatusApplyConfig_def build_defs Let_def OrganizationRef_WithName_def comp_def split: option.split)

text \<open>The metadata that the executor applies: exactly the finalizers it passes and a copy of the labels, and no status.\<close>

lemmas meta_defs = metadata_config_def WithLabels_def WithFinalizers_def ensureObjectMeta_def WithAPIVersion_def WithKind_def WithNamespace_def WithName_def
  empty_object_def ac_Repository_def ac_Organization_def ac_Team_def

lemma metadata_built:
  assumes "new \<in> {ac_Repository name ns, ac_Organization name ns, ac_Team name ns}" and "range_order ord" and "gomap_ok lbls"
  shows "\<exists>m. oc_ObjectMeta (metadata_config ord new (Some lbls) None (Some fin)) = Some m \<and> om_Name m = Some name \<and> om_Namespace m = Some ns \<and>
           om_Finalizers m = fin \<and> map_option map_get (om_Labels m) = map_option map_get (nil_map (Some lbls)) \<and> om_Annotations m = None"
    and "oc_Status (metadata_config ord new (Some lbls) None (Some fin)) = None"
proof -
  have n: "oc_ObjectMeta new = Some \<lparr>om_Name = Some name, om_Namespace = Some ns, om_Labels = None, om_Annotations = None, om_Finalizers = []\<rparr>" "oc_Status new = None"
    using assms(1) by (auto simp: meta_defs)
  then show "\<exists>m. oc_ObjectMeta (metadata_config ord new (Some lbls) None (Some fin)) = Some m \<and> om_Name m = Some name \<and> om_Namespace m = Some ns \<and>
      om_Finalizers m = fin \<and> map_option map_get (om_Labels m) = map_option map_get (nil_map (Some lbls)) \<and> om_Annotations m = None"
    using with_entries_get [OF assms(2,3)] by (simp add: metadata_config_def WithLabels_def WithFinalizers_def ensureObjectMeta_def Let_def)
  show "oc_Status (metadata_config ord new (Some lbls) None (Some fin)) = None"
    using n by (simp add: metadata_config_def WithLabels_def WithFinalizers_def Let_def)
qed

section \<open>An example\<close>

text \<open>The conditions as their own configurations, with times rounded to a thousand; a server that keeps the last status; the repository of the factory example.\<close>

type_synonym ex_world = "condition repository_status_config option"

definition ex_conditions :: "condition condition_lib" where
  "ex_conditions = \<lparr>cl_Condition = \<lparr>cond_Type = [], cond_Status = ConditionUnknown, cond_ObservedGeneration = 0, cond_LastTransitionTime = None, cond_Reason = [], cond_Message = []\<rparr>,
     cl_WithType = \<lambda>v c. c\<lparr>cond_Type := v\<rparr>, cl_WithStatus = \<lambda>v c. c\<lparr>cond_Status := v\<rparr>, cl_WithObservedGeneration = \<lambda>v c. c\<lparr>cond_ObservedGeneration := v\<rparr>,
     cl_WithLastTransitionTime = \<lambda>v c. c\<lparr>cond_LastTransitionTime := map_option (\<lambda>t. t - t mod 1000) v\<rparr>, cl_WithReason = \<lambda>v c. c\<lparr>cond_Reason := v\<rparr>,
     cl_WithMessage = \<lambda>v c. c\<lparr>cond_Message := v\<rparr>, cl_read = \<lambda>c. c, cl_Round = \<lambda>t. t - t mod 1000\<rparr>"

definition ex_orders :: range_orders where
  "ex_orders = \<lparr>ro_Webhooks = rev, ro_WebhookConfigs = \<lambda>m. m, ro_Generations = rev\<rparr>"

definition ex_extras :: "ex_world \<Rightarrow> repository_extras" where
  "ex_extras w = \<lparr>rex_Webhooks = Some [(''hook'', ''hash'')], rex_ID = Some 11\<rparr>"

definition ex_generations :: "(string, int) gomap option" where
  "ex_generations = Some [(''RulesetPreset/n/mid'', 1), (''RulesetPreset/n/base'', 1), (''WebhookPreset/n/w'', 4)]"

definition ex_recorder :: "(ex_world, condition repository_status_config object_config) reconciler" where
  "ex_recorder =
     \<lparr>rc_GetAdditionalLabels = \<lambda>w. [], rc_RequiredReconciliations = \<lambda>w. [[\<lparr>rec_Function = Done None, rec_Condition = ''TopicsSynced''\<rparr>]], rc_FinalizerName = ''fin'',
      rc_ReconcileDeletion = \<lambda>w. (w, None), rc_BuildMetadataApplyConfig = \<lambda>l f. Repo_BuildMetadataApplyConfig rev ''r'' ''n'' (Some l) None (Some f),
      rc_BuildStatusApplyConfig = Repo_BuildStatusApplyConfig ex_conditions ex_orders ''r'' ''n'' ex_extras, rc_ClientApply = \<lambda>c w. (w, None),
      rc_StatusApply = \<lambda>c w. (oc_Status c, None), rc_SetObservedSubResourceGeneration = \<lambda>old new. new, rc_CurrentSubResourceGenerations = ex_generations\<rparr>"

definition ex_resource :: "ex_world kstate" where
  "ex_resource = \<lparr>ks_Conditions = [], ks_Generation = 7, ks_DeletionTimestamp = None, ks_Finalizers = [''fin''], ks_Labels = [], ks_ObservedSubResourceGenerations = None, ks_world = None, ks_ticks = 0\<rparr>"

definition ex_recorded :: "ex_world factory_repo" where
  "ex_recorded = \<lparr>fr_Name = ''r'', fr_Namespace = ''n'', fr_OrganizationRef = ''o'', fr_SpecName = ''r'', fr_RulesetPresetList = [''mid''], fr_Rulesets = [], fr_WebhookPresetList = [''w''],
     fr_WebhookIgnorePresetsList = [], fr_AttachedCodeSecurityConfiguration = None, fr_AutolinksPresetList = [], fr_State = ex_resource\<rparr>"

definition ex_restart :: "ex_world factory_repo \<Rightarrow> (ex_world, unit) factory_env" where
  "ex_restart repo = (let e = ex_fenv (Some (NewManager 0 ex_config)) in
     \<lparr>fe_GetOrganization = \<lambda>ns n. Inl (APIStatusError ''NotFound'' ''not found''), fe_GetRepository = \<lambda>ns n. Inr repo, fe_GetTeam = \<lambda>ns n. Inl (APIStatusError ''NotFound'' ''not found''),
      fe_GetSub = fe_GetSub e, fe_GetRulesetPreset = fe_GetRulesetPreset e, fe_PresetReader = fe_PresetReader e, fe_Kind = fe_Kind e, fe_Config = fe_Config e,
      fe_SpreadingManager = fe_SpreadingManager e, fe_lib = fe_lib e, fe_render = fe_render e, fe_rnd = fe_rnd e, fe_now1 = fe_now1 e, fe_now2 = fe_now2 e, fe_gate = fe_gate e,
      fe_secrets = fe_secrets e, fe_getRateLimit = fe_getRateLimit e, fe_others = fe_others e, fe_id_client = fe_id_client e\<rparr>)"

lemma ex_recorder_ok:
  "condition_lib_law ex_conditions" "range_orders_ok ex_orders" "stores_status (\<lambda>w. w) ex_recorder" "records_generations ex_generations ex_recorder"
  by (simp_all add: condition_lib_law_def ex_conditions_def range_orders_ok_def ex_orders_def stores_status_def records_generations_def ex_recorder_def)

lemma ex_recorded_run: "map_option snd (Reconcile ex_lib ex_clock ex_sched ex_recorder ex_resource) = Some None"
  by code_simp

lemma ex_restart_generations: "fetchSubResourceGenerationsForRepo (ex_restart repo) ex_recorded = Inr ex_generations"
  by code_simp

lemma ex_restart_fields:
  "fe_lib (ex_restart repo) = ex_lib" "fe_SpreadingManager (ex_restart repo) = Some (NewManager 0 ex_config)" "fe_GetRepository (ex_restart repo) ns n = Inr repo"
  "window (fe_rnd (ex_restart repo)) (fe_now1 (ex_restart repo)) (fe_now2 (ex_restart repo)) (NewManager 0 ex_config)"
  using ex_rand_law
  by (simp_all add: ex_restart_def ex_fenv_def Let_def window_def NewManager_def ex_config_def ex_features_def SpreadPeriod_def SpreadInterval_def wrap64_def Minute_def)

theorem restarted_repo_delayed_witness:
  "\<exists>s' repo d. Reconcile ex_lib ex_clock ex_sched ex_recorder ex_resource = Some (s', None) \<and>
     repo = ex_recorded\<lparr>fr_State := reread (rsc_Conditions (the (ks_world s'))) (rsc_ObservedSubResourceGenerations (the (ks_world s'))) ex_resource\<rparr> \<and> 0 < d \<and>
     CreateForRepo (ex_restart repo) ''n'' ''r'' ex_ffactory = (ex_ffactory, Inl (RequiresSpreadError d (fe_render (ex_restart repo) d)))"
proof -
  obtain s' where s': "Reconcile ex_lib ex_clock ex_sched ex_recorder ex_resource = Some (s', None)" using ex_recorded_run by auto
  let ?st = "the (ks_world s')"
  let ?repo = "ex_recorded\<lparr>fr_State := reread (map (cl_read ex_conditions) (rsc_Conditions ?st)) (rsc_ObservedSubResourceGenerations ?st) (fr_State ex_recorded)\<rparr>"
  let ?env = "ex_restart ?repo"
  have f: "fr_State ex_recorded = ex_resource" "fr_Name ex_recorded = ''r''" "fr_Namespace ex_recorded = ''n''" by (simp_all add: ex_recorded_def)
  have run: "Reconcile (fe_lib ?env) ex_clock ex_sched ex_recorder (fr_State ex_recorded) = Some (s', None)" using s' by (simp add: ex_restart_fields f)
  have b: "rc_BuildStatusApplyConfig ex_recorder = Repo_BuildStatusApplyConfig ex_conditions ex_orders (fr_Name ex_recorded) (fr_Namespace ex_recorded) ex_extras"
    by (simp add: ex_recorder_def f)
  have del: "ks_DeletionTimestamp (fr_State ex_recorded) = None" by (simp add: f ex_resource_def)
  obtain d where d: "0 < d" "CreateForRepo ?env ''n'' ''r'' ex_ffactory = (ex_ffactory, Inl (RequiresSpreadError d (fe_render ?env d)))"
    using restarted_repo_delayed [OF ex_recorder_ok(1,2) ex_lib_laws(1,3) [folded ex_restart_fields(1) [of ?repo]] b ex_recorder_ok(3) ex_restart_generations
      ex_recorder_ok(4) run del ex_restart_fields(3) ex_restart_generations ex_restart_fields(2,4)] by blast
  moreover have "?repo = ex_recorded\<lparr>fr_State := reread (rsc_Conditions ?st) (rsc_ObservedSubResourceGenerations ?st) ex_resource\<rparr>"
    by (simp add: f ex_conditions_def)
  ultimately show ?thesis using s' by blast
qed

end
