(* ===== verification/Transport.thy ===== *)
theory Transport
  imports Errors
begin

text \<open>
  The HTTP layer below the GitHub client: \<^verbatim>\<open>ghclient/transport.go\<close> (authentication as an App installation, shared by
  concurrent requests), \<^verbatim>\<open>ghclient/retry.go\<close> (which failed attempts are repeated) and \<^verbatim>\<open>ghclient/caching_client.go\<close> (a cache for one
  response, shared by concurrent calls). What the code does under a mutex is one function; the goroutines
  interleave between these functions, so the two shared objects are step relations.
\<close>

section \<open>Requests\<close>

datatype http_body = BodyNil | NoBody | BodyStream string

record http_request =
  rq_Method :: string
  rq_Path :: string
  rq_Body :: http_body
  rq_GetBody :: "(go_error, http_body) result option"
  rq_RetryableCodes :: "int list"

definition replayableRequest :: "http_request \<Rightarrow> http_request option" where
  "replayableRequest req =
     (if rq_Body req = BodyNil \<or> rq_Body req = NoBody then Some req
      else
        (case rq_GetBody req of
           None \<Rightarrow> None
         | Some (Inl e) \<Rightarrow> None
         | Some (Inr b) \<Rightarrow> Some (req\<lparr>rq_Body := b\<rparr>)))"

section \<open>Retries (retry.go)\<close>

text \<open>
  An error of the transport: the sentinel errors \<^verbatim>\<open>errors.Is\<close> finds in its chain, and its message.
\<close>

datatype sentinel = CtxCanceled | CtxDeadlineExceeded | IoEOF | IoErrUnexpectedEOF | SysECONNRESET | SysEPIPE

record transport_error =
  te_Chain :: "sentinel list"
  te_Message :: string

record attempt =
  at_Index :: nat
  at_Request :: "http_request option"
  at_StatusCode :: "int option"
  at_Error :: "transport_error option"

definition retryByContextCodes :: "attempt \<Rightarrow> bool" where
  "retryByContextCodes att =
     (case (at_StatusCode att, at_Request att) of
        (Some code, Some req) \<Rightarrow> List.member (rq_RetryableCodes req) code
      | _ \<Rightarrow> False)"

definition transportRetryMaxRetries :: nat where
  "transportRetryMaxRetries = 3"

definition HasSuffix :: "string \<Rightarrow> string \<Rightarrow> bool" where
  "HasSuffix s p = HasPrefix (rev s) (rev p)"

definition isSafeToRetry :: "http_request \<Rightarrow> bool" where
  "isSafeToRetry req =
     (if rq_Method req = ''POST'' \<and> HasSuffix (rq_Path req) ''/access_tokens'' then True
      else if rq_Body req \<noteq> BodyNil \<and> rq_Body req \<noteq> NoBody then False
      else rq_Method req = ''GET'' \<or> rq_Method req = ''HEAD'' \<or> rq_Method req = ''OPTIONS'')"

definition transient_messages :: "string list" where
  "transient_messages = [''PROTOCOL_ERROR'', ''GOAWAY'', ''REFUSED_STREAM'', ''connection reset by peer'', ''http2: server sent'', ''http2: client conn'']"

definition isTransientTransportError :: "transport_error \<Rightarrow> bool" where
  "isTransientTransportError e =
     (if List.member (te_Chain e) CtxCanceled \<or> List.member (te_Chain e) CtxDeadlineExceeded then False
      else if List.member (te_Chain e) IoEOF \<or> List.member (te_Chain e) IoErrUnexpectedEOF \<or>
              List.member (te_Chain e) SysECONNRESET \<or> List.member (te_Chain e) SysEPIPE then True
      else list_ex (strings_Contains (te_Message e)) transient_messages)"

definition retryOnTransportError :: "attempt \<Rightarrow> bool" where
  "retryOnTransportError att =
     (case (at_Error att, at_Request att) of
        (Some e, Some req) \<Rightarrow>
          (if \<not> at_Index att < transportRetryMaxRetries then False
           else if \<not> isTransientTransportError e then False
           else isSafeToRetry req)
      | _ \<Rightarrow> False)"

section \<open>Authentication (transport.go)\<close>

text \<open>Installation transports are numbered in the order in which they are made.\<close>

record auth_state =
  au_installation :: "nat option"
  au_made :: nat

definition currentInstallation :: "auth_state \<Rightarrow> nat \<times> auth_state" where
  "currentInstallation a =
     (case au_installation a of
        Some i \<Rightarrow> (i, a)
      | None \<Rightarrow> (au_made a, a\<lparr>au_installation := Some (au_made a), au_made := Suc (au_made a)\<rparr>))"

definition invalidate :: "nat \<Rightarrow> auth_state \<Rightarrow> auth_state" where
  "invalidate rejected a = (if au_installation a = Some rejected then a\<lparr>au_installation := None\<rparr> else a)"

text \<open>
  Where a goroutine is in \<^verbatim>\<open>RoundTrip\<close> (resilient mode): the request is about to be sent, sent, rejected with a 401, to be
  replayed, sent again, or answered. Answers are an error or a status code.
\<close>

datatype rt_pc =
    Idle
  | Start http_request
  | Sent http_request nat
  | Rejected http_request nat
  | Replay http_request nat
  | SentAgain http_request nat nat
  | Returned "(go_error, int) result"

text \<open>
  The whole system: the shared state, the goroutines, and two records for the theorems, namely which transports
  have been invalidated and what was sent through which transport.
\<close>

record auth_sys =
  as_auth :: auth_state
  as_pc :: "nat \<Rightarrow> rt_pc"
  as_rejected :: "nat set"
  as_sends :: "(nat \<times> nat) list"

inductive auth_step :: "auth_sys \<Rightarrow> auth_sys \<Rightarrow> bool" where
  arrive: "as_pc s k = Idle \<Longrightarrow> auth_step s (s\<lparr>as_pc := (as_pc s)(k := Start req)\<rparr>)"
| send: "as_pc s k = Start req \<Longrightarrow> currentInstallation (as_auth s) = (i, a) \<Longrightarrow>
    auth_step s (s\<lparr>as_auth := a, as_pc := (as_pc s)(k := Sent req i), as_sends := as_sends s @ [(k, i)]\<rparr>)"
| answer: "as_pc s k = Sent req i \<Longrightarrow> r \<noteq> Inr 401 \<Longrightarrow> auth_step s (s\<lparr>as_pc := (as_pc s)(k := Returned r)\<rparr>)"
| reject: "as_pc s k = Sent req i \<Longrightarrow> auth_step s (s\<lparr>as_pc := (as_pc s)(k := Rejected req i)\<rparr>)"
| drop_token: "as_pc s k = Rejected req i \<Longrightarrow>
    auth_step s (s\<lparr>as_auth := invalidate i (as_auth s), as_rejected := insert i (as_rejected s),
      as_pc := (as_pc s)(k := (case replayableRequest req of None \<Rightarrow> Returned (Inr 401) | Some rp \<Rightarrow> Replay rp i))\<rparr>)"
| resend: "as_pc s k = Replay rp i \<Longrightarrow> currentInstallation (as_auth s) = (j, a) \<Longrightarrow>
    auth_step s (s\<lparr>as_auth := a, as_pc := (as_pc s)(k := SentAgain rp i j), as_sends := as_sends s @ [(k, j)]\<rparr>)"
| answer_again: "as_pc s k = SentAgain rp i j \<Longrightarrow> auth_step s (s\<lparr>as_pc := (as_pc s)(k := Returned r)\<rparr>)"

inductive_cases auth_stepE: "auth_step s s'"

definition auth_start :: auth_sys where
  "auth_start = \<lparr>as_auth = \<lparr>au_installation = None, au_made = 0\<rparr>, as_pc = (\<lambda>k. Idle), as_rejected = {}, as_sends = []\<rparr>"

inductive auth_reachable :: "auth_sys \<Rightarrow> bool" where
  start: "auth_reachable auth_start"
| step: "auth_reachable s \<Longrightarrow> auth_step s s' \<Longrightarrow> auth_reachable s'"

section \<open>Tokens are not reused after a 401\<close>

text \<open>Every transport made so far is the current one or was rejected, but not both.\<close>

definition tokens_ok :: "auth_sys \<Rightarrow> bool" where
  "tokens_ok s \<longleftrightarrow>
     as_rejected s \<subseteq> {..<au_made (as_auth s)} \<and>
     {..<au_made (as_auth s)} = as_rejected s \<union> set_option (au_installation (as_auth s)) \<and>
     as_rejected s \<inter> set_option (au_installation (as_auth s)) = {}"

definition threads_ok :: "auth_sys \<Rightarrow> bool" where
  "threads_ok s \<longleftrightarrow>
     (\<forall>k req i. as_pc s k = Sent req i \<or> as_pc s k = Rejected req i \<longrightarrow> i < au_made (as_auth s)) \<and>
     (\<forall>k req i. as_pc s k = Replay req i \<longrightarrow> i \<in> as_rejected s) \<and>
     (\<forall>k req i j. as_pc s k = SentAgain req i j \<longrightarrow> i \<in> as_rejected s \<and> i \<noteq> j)"

fun sends_bound :: "rt_pc \<Rightarrow> nat" where
  "sends_bound Idle = 0"
| "sends_bound (Start req) = 0"
| "sends_bound (Sent req i) = 1"
| "sends_bound (Rejected req i) = 1"
| "sends_bound (Replay req i) = 1"
| "sends_bound (SentAgain req i j) = 2"
| "sends_bound (Returned r) = 2"

lemma tokens_ok_cong: "tokens_ok t \<Longrightarrow> as_auth s = as_auth t \<Longrightarrow> as_rejected s = as_rejected t \<Longrightarrow> tokens_ok s"
  by (simp add: tokens_ok_def)

lemma current_installation_ok:
  assumes "tokens_ok s" and "currentInstallation (as_auth s) = (i, a)"
  shows "tokens_ok (s\<lparr>as_auth := a\<rparr>)" and "i < au_made a" and "i \<notin> as_rejected s" and "au_made (as_auth s) \<le> au_made a"
proof -
  show "tokens_ok (s\<lparr>as_auth := a\<rparr>)"
  proof (cases "au_installation (as_auth s)")
    case None
    then have a: "a = (as_auth s)\<lparr>au_installation := Some (au_made (as_auth s)), au_made := Suc (au_made (as_auth s))\<rparr>"
      using assms(2) by (auto simp: currentInstallation_def)
    have "as_rejected s = {..<au_made (as_auth s)}" using assms(1) None by (simp add: tokens_ok_def)
    then show ?thesis unfolding a by (auto simp: tokens_ok_def lessThan_Suc)
  next
    case (Some j)
    then show ?thesis by (intro tokens_ok_cong [OF assms(1)]) (use assms(2) in \<open>auto simp: currentInstallation_def\<close>)
  qed
  have r: "as_rejected s \<subseteq> {..<au_made (as_auth s)}"
      "{..<au_made (as_auth s)} = as_rejected s \<union> set_option (au_installation (as_auth s))"
      "as_rejected s \<inter> set_option (au_installation (as_auth s)) = {}" using assms(1) unfolding tokens_ok_def by blast+
  have "i < au_made a \<and> i \<notin> as_rejected s \<and> au_made (as_auth s) \<le> au_made a"
  proof (cases "au_installation (as_auth s)")
    case None
    then have "i = au_made (as_auth s)" "au_made a = Suc i" using assms(2) by (auto simp: currentInstallation_def)
    then show ?thesis using r(1) by auto
  next
    case (Some j)
    then have ia: "i = j" "a = as_auth s" using assms(2) by (auto simp: currentInstallation_def)
    have "j \<in> {..<au_made (as_auth s)}" unfolding r(2) by (simp add: Some)
    moreover have "j \<notin> as_rejected s" using r(3) by (simp add: Some)
    ultimately show ?thesis using ia by simp
  qed
  then show "i < au_made a" "i \<notin> as_rejected s" "au_made (as_auth s) \<le> au_made a" by simp_all
qed

lemma invalidate_ok:
  assumes "tokens_ok s" and "i < au_made (as_auth s)"
  shows "tokens_ok (s\<lparr>as_auth := invalidate i (as_auth s), as_rejected := insert i (as_rejected s)\<rparr>)"
    and "au_made (invalidate i (as_auth s)) = au_made (as_auth s)"
  using assms by (auto simp: tokens_ok_def invalidate_def)

lemma tokens_ok_pc [simp]: "tokens_ok (s\<lparr>as_pc := p\<rparr>) = tokens_ok s" "tokens_ok (s\<lparr>as_sends := l\<rparr>) = tokens_ok s"
  by (simp_all add: tokens_ok_def)

definition sends_ok :: "auth_sys \<Rightarrow> bool" where
  "sends_ok s \<longleftrightarrow> (\<forall>k. count_list (map fst (as_sends s)) k \<le> sends_bound (as_pc s k))"

lemma sends_ok_update:
  assumes "sends_ok s" and "as_pc s' = (as_pc s)(k := p)"
    and "as_sends s' = as_sends s \<and> sends_bound (as_pc s k) \<le> sends_bound p \<or>
         (\<exists>i. as_sends s' = as_sends s @ [(k, i)]) \<and> Suc (sends_bound (as_pc s k)) \<le> sends_bound p"
  shows "sends_ok s'"
  unfolding sends_ok_def
proof
  fix k'
  have old: "count_list (map fst (as_sends s)) k' \<le> sends_bound (as_pc s k')" using assms(1) by (simp add: sends_ok_def)
  show "count_list (map fst (as_sends s')) k' \<le> sends_bound (as_pc s' k')"
    using assms(2,3) old by (cases "k' = k") auto
qed

lemma auth_invariant: "auth_reachable s \<Longrightarrow> tokens_ok s \<and> threads_ok s \<and> sends_ok s"
proof (induction rule: auth_reachable.induct)
  case start
  then show ?case by (simp add: auth_start_def tokens_ok_def threads_ok_def sends_ok_def)
next
  case (step s s')
  then have ok: "tokens_ok s" "threads_ok s" "sends_ok s" by auto
  show ?case
    using step.hyps(2)
  proof cases
    case (arrive k req)
    have "sends_ok s'" by (rule sends_ok_update [OF ok(3)]) (use arrive in auto)
    then show ?thesis using ok arrive by (auto simp: threads_ok_def)
  next
    case (send k req i a)
    note c = current_installation_ok [OF ok(1) send(3)]
    have "tokens_ok s'" by (rule tokens_ok_cong [OF c(1)]) (simp_all add: send(1))
    moreover have "threads_ok s'" using ok(2) c(2,4) unfolding send(1) threads_ok_def by (auto; meson order.strict_trans2)
    moreover have "sends_ok s'" by (rule sends_ok_update [OF ok(3)]) (use send in auto)
    ultimately show ?thesis by blast
  next
    case (answer k req i r)
    have "sends_ok s'" by (rule sends_ok_update [OF ok(3)]) (use answer in auto)
    then show ?thesis using ok answer by (auto simp: threads_ok_def)
  next
    case (reject k req i)
    have "sends_ok s'" by (rule sends_ok_update [OF ok(3)]) (use reject in auto)
    then show ?thesis using ok reject by (auto simp: threads_ok_def)
  next
    case (drop_token k req i)
    have i: "i < au_made (as_auth s)" using ok(2) drop_token(2) by (auto simp: threads_ok_def)
    note v = invalidate_ok [OF ok(1) i]
    have "tokens_ok s'" by (rule tokens_ok_cong [OF v(1)]) (simp_all add: drop_token(1))
    moreover have "threads_ok s'" using ok(2) v(2) unfolding drop_token(1) threads_ok_def by (auto split: option.splits)
    moreover have "sends_ok s'" by (rule sends_ok_update [OF ok(3)]) (use drop_token in \<open>auto split: option.splits\<close>)
    ultimately show ?thesis by blast
  next
    case (resend k rp i j a)
    note c = current_installation_ok [OF ok(1) resend(3)]
    have "tokens_ok s'" by (rule tokens_ok_cong [OF c(1)]) (simp_all add: resend(1))
    moreover have "i \<in> as_rejected s" using ok(2) resend(2) by (auto simp: threads_ok_def)
    then have "threads_ok s'" using ok(2) c(3,4) unfolding resend(1) threads_ok_def by (auto; meson order.strict_trans2)
    moreover have "sends_ok s'" by (rule sends_ok_update [OF ok(3)]) (use resend in auto)
    ultimately show ?thesis by blast
  next
    case (answer_again k rp i j r)
    have "sends_ok s'" by (rule sends_ok_update [OF ok(3)]) (use answer_again in auto)
    then show ?thesis using ok answer_again by (auto simp: threads_ok_def)
  qed
qed

lemma sends_unrejected:
  assumes "auth_reachable s" and "auth_step s s'" and "as_sends s' = as_sends s @ [(k, i)]"
  shows "i \<notin> as_rejected s"
proof -
  have ok: "tokens_ok s" using auth_invariant [OF assms(1)] by blast
  from assms(2) show ?thesis
  proof cases
    case (send k' req i' a)
    then show ?thesis using current_installation_ok(3) [OF ok send(3)] assms(3) by simp
  next
    case (resend k' rp i' j a)
    then show ?thesis using current_installation_ok(3) [OF ok resend(3)] assms(3) by simp
  qed (use assms(3) in simp_all)
qed


text \<open>Any number of requests that get a 401 for the same token cause one new token: as many transports are made as tokens were
  rejected, plus the current one.\<close>

lemma one_token_per_rejection:
  assumes "auth_reachable s"
  shows "au_made (as_auth s) = card (as_rejected s) + (case au_installation (as_auth s) of None \<Rightarrow> 0 | Some i \<Rightarrow> 1)"
proof -
  let ?c = "set_option (au_installation (as_auth s))"
  have t: "{..<au_made (as_auth s)} = as_rejected s \<union> ?c" "as_rejected s \<inter> ?c = {}"
    using auth_invariant [OF assms] unfolding tokens_ok_def by blast+
  have "finite (as_rejected s)" using t(1) by (metis finite_Un finite_lessThan)
  then have "card {..<au_made (as_auth s)} = card (as_rejected s) + card ?c"
    unfolding t(1) by (rule card_Un_disjoint) (simp_all add: t(2))
  then show ?thesis by (simp split: option.split)
qed

text \<open>An example: two requests get a 401 for the first token; both are replayed with the second.\<close>

definition ex_get :: http_request where
  "ex_get = \<lparr>rq_Method = ''GET'', rq_Path = ''/orgs/o'', rq_Body = BodyNil, rq_GetBody = None, rq_RetryableCodes = []\<rparr>"

definition ex_auth :: auth_sys where
  "ex_auth = \<lparr>as_auth = \<lparr>au_installation = Some 1, au_made = 2\<rparr>,
     as_pc = (\<lambda>k. Idle)(0 := SentAgain ex_get 0 1, 1 := SentAgain ex_get 0 1), as_rejected = {0},
     as_sends = [(0, 0), (1, 0), (0, 1), (1, 1)]\<rparr>"

definition ex_auth_at :: "rt_pc \<Rightarrow> rt_pc \<Rightarrow> nat option \<Rightarrow> nat \<Rightarrow> nat set \<Rightarrow> (nat \<times> nat) list \<Rightarrow> auth_sys" where
  "ex_auth_at p q inst made rej sends = \<lparr>as_auth = \<lparr>au_installation = inst, au_made = made\<rparr>,
     as_pc = (\<lambda>k. Idle)(0 := p, 1 := q), as_rejected = rej, as_sends = sends\<rparr>"

lemma ex_replay: "replayableRequest ex_get = Some ex_get"
  by (simp add: replayableRequest_def ex_get_def)

lemma auth_step_to:
  "as_pc s k = Idle \<Longrightarrow> t = s\<lparr>as_pc := (as_pc s)(k := Start req)\<rparr> \<Longrightarrow> auth_step s t"
  "as_pc s k = Start req \<Longrightarrow> currentInstallation (as_auth s) = (i, a) \<Longrightarrow>
     t = s\<lparr>as_auth := a, as_pc := (as_pc s)(k := Sent req i), as_sends := as_sends s @ [(k, i)]\<rparr> \<Longrightarrow> auth_step s t"
  "as_pc s k = Sent req i \<Longrightarrow> t = s\<lparr>as_pc := (as_pc s)(k := Rejected req i)\<rparr> \<Longrightarrow> auth_step s t"
  "as_pc s k = Rejected req i \<Longrightarrow>
     t = s\<lparr>as_auth := invalidate i (as_auth s), as_rejected := insert i (as_rejected s),
       as_pc := (as_pc s)(k := (case replayableRequest req of None \<Rightarrow> Returned (Inr 401) | Some rp \<Rightarrow> Replay rp i))\<rparr> \<Longrightarrow> auth_step s t"
  "as_pc s k = Replay req i \<Longrightarrow> currentInstallation (as_auth s) = (j, a) \<Longrightarrow>
     t = s\<lparr>as_auth := a, as_pc := (as_pc s)(k := SentAgain req i j), as_sends := as_sends s @ [(k, j)]\<rparr> \<Longrightarrow> auth_step s t"
  using auth_step.intros by simp_all

lemma ex_auth_reachable: "auth_reachable ex_auth"
proof -
  have "auth_reachable (ex_auth_at Idle Idle None 0 {} [])"
    using auth_reachable.start by (simp add: auth_start_def ex_auth_at_def fun_upd_idem)
  then have "auth_reachable (ex_auth_at (Start ex_get) Idle None 0 {} [])"
    by (rule auth_reachable.step [OF _ auth_step_to(1) [where k = 0 and req = ex_get]]) (auto simp: ex_auth_at_def fun_eq_iff currentInstallation_def invalidate_def ex_replay)
  then have "auth_reachable (ex_auth_at (Start ex_get) (Start ex_get) None 0 {} [])"
    by (rule auth_reachable.step [OF _ auth_step_to(1) [where k = 1 and req = ex_get]]) (auto simp: ex_auth_at_def fun_eq_iff currentInstallation_def invalidate_def ex_replay)
  then have "auth_reachable (ex_auth_at (Sent ex_get 0) (Start ex_get) (Some 0) 1 {} [(0, 0)])"
    by (rule auth_reachable.step [OF _ auth_step_to(2) [where k = 0 and req = ex_get]]) (auto simp: ex_auth_at_def fun_eq_iff currentInstallation_def invalidate_def ex_replay)
  then have "auth_reachable (ex_auth_at (Sent ex_get 0) (Sent ex_get 0) (Some 0) 1 {} [(0, 0), (1, 0)])"
    by (rule auth_reachable.step [OF _ auth_step_to(2) [where k = 1 and req = ex_get]]) (auto simp: ex_auth_at_def fun_eq_iff currentInstallation_def invalidate_def ex_replay)
  then have "auth_reachable (ex_auth_at (Rejected ex_get 0) (Sent ex_get 0) (Some 0) 1 {} [(0, 0), (1, 0)])"
    by (rule auth_reachable.step [OF _ auth_step_to(3) [where k = 0 and req = ex_get]]) (auto simp: ex_auth_at_def fun_eq_iff currentInstallation_def invalidate_def ex_replay)
  then have "auth_reachable (ex_auth_at (Rejected ex_get 0) (Rejected ex_get 0) (Some 0) 1 {} [(0, 0), (1, 0)])"
    by (rule auth_reachable.step [OF _ auth_step_to(3) [where k = 1 and req = ex_get]]) (auto simp: ex_auth_at_def fun_eq_iff currentInstallation_def invalidate_def ex_replay)
  then have "auth_reachable (ex_auth_at (Replay ex_get 0) (Rejected ex_get 0) None 1 {0} [(0, 0), (1, 0)])"
    by (rule auth_reachable.step [OF _ auth_step_to(4) [where k = 0 and req = ex_get]]) (auto simp: ex_auth_at_def fun_eq_iff currentInstallation_def invalidate_def ex_replay)
  then have "auth_reachable (ex_auth_at (SentAgain ex_get 0 1) (Rejected ex_get 0) (Some 1) 2 {0} [(0, 0), (1, 0), (0, 1)])"
    by (rule auth_reachable.step [OF _ auth_step_to(5) [where k = 0 and req = ex_get]]) (auto simp: ex_auth_at_def fun_eq_iff currentInstallation_def invalidate_def ex_replay)
  then have "auth_reachable (ex_auth_at (SentAgain ex_get 0 1) (Replay ex_get 0) (Some 1) 2 {0} [(0, 0), (1, 0), (0, 1)])"
    by (rule auth_reachable.step [OF _ auth_step_to(4) [where k = 1 and req = ex_get]]) (auto simp: ex_auth_at_def fun_eq_iff currentInstallation_def invalidate_def ex_replay)
  then have "auth_reachable (ex_auth_at (SentAgain ex_get 0 1) (SentAgain ex_get 0 1) (Some 1) 2 {0} [(0, 0), (1, 0), (0, 1), (1, 1)])"
    by (rule auth_reachable.step [OF _ auth_step_to(5) [where k = 1 and req = ex_get]]) (auto simp: ex_auth_at_def fun_eq_iff currentInstallation_def invalidate_def ex_replay)
  then show ?thesis by (simp add: ex_auth_at_def ex_auth_def)
qed


lemma one_token_per_rejection_witness:
  "au_made (as_auth ex_auth) = card (as_rejected ex_auth) + 1"
  using one_token_per_rejection [OF ex_auth_reachable] by (simp add: ex_auth_def)

text \<open>The retries below the authentication repeat only requests without effect or the one for a token, and only three times.\<close>

lemma retry_is_safe:
  assumes "retryOnTransportError att"
  shows "at_Index att < 3 \<and> (\<exists>req. at_Request att = Some req \<and> (isSafeToRetry req \<and>
           (rq_Method req = ''GET'' \<or> rq_Method req = ''HEAD'' \<or> rq_Method req = ''OPTIONS'' \<or>
            rq_Method req = ''POST'' \<and> (\<exists>prefix. rq_Path req = prefix @ ''/access_tokens''))))"
proof -
  obtain e req where r: "at_Error att = Some e" "at_Request att = Some req" "at_Index att < 3" "isSafeToRetry req"
    using assms by (auto simp: retryOnTransportError_def transportRetryMaxRetries_def split: option.splits if_splits)
  have "\<exists>prefix. s = prefix @ p" if "HasSuffix s p" for s p
    using that by (auto simp: HasSuffix_def HasPrefix_iff) (metis rev_append rev_rev_ident)
  then show ?thesis using r by (auto simp: isSafeToRetry_def split: if_splits)
qed

section \<open>The response cache (caching\_client.go)\<close>

text \<open>
  A cache for one response: the data with the time it expires. What the two critical sections of \<^verbatim>\<open>GetOrFetch\<close> and the one
  of \<^verbatim>\<open>Invalidate\<close> do:
\<close>

record 'd response_cache =
  rcache_entry :: "('d \<times> int) option"
  rcache_ttl :: int

definition newResponseCache :: "int \<Rightarrow> 'd response_cache" where
  "newResponseCache ttl = \<lparr>rcache_entry = None, rcache_ttl = ttl\<rparr>"

definition cache_hit :: "int \<Rightarrow> 'd response_cache \<Rightarrow> 'd option" where
  "cache_hit now c = (case rcache_entry c of None \<Rightarrow> None | Some (d, expiresAt) \<Rightarrow> if now < expiresAt then Some d else None)"

definition cache_store :: "int \<Rightarrow> 'd \<Rightarrow> 'd response_cache \<Rightarrow> 'd response_cache" where
  "cache_store now d c = c\<lparr>rcache_entry := Some (d, now + rcache_ttl c)\<rparr>"

definition cache_invalidate :: "'d response_cache \<Rightarrow> 'd response_cache" where
  "cache_invalidate c = c\<lparr>rcache_entry := None\<rparr>"

text \<open>A call without interference: the clock is read at most twice.\<close>

definition GetOrFetch :: "int \<Rightarrow> int \<Rightarrow> (go_error, 'd) result \<Rightarrow> 'd response_cache \<Rightarrow> (go_error, 'd) result \<times> 'd response_cache" where
  "GetOrFetch now later fetched c =
     (case cache_hit now c of
        Some d \<Rightarrow> (Inr d, c)
      | None \<Rightarrow>
          (case fetched of
             Inl e \<Rightarrow> (Inl e, c)
           | Inr d \<Rightarrow> (Inr d, cache_store later d c)))"

text \<open>
  Concurrent calls. GitHub's answer at time \<open>t\<close> is \<open>world t\<close>. A caller has not called yet, is fetching, has fetched (at the time
  recorded) but not stored, or has its result: \<open>CacheGot d t hit\<close> is data fetched at time \<open>t\<close>.
\<close>

datatype 'd cache_pc = CacheIdle | CacheFetching | CacheFetched 'd int | CacheGot 'd bool | CacheFailed go_error

record 'd cache_sys =
  cs_cache :: "'d response_cache"
  cs_now :: int
  cs_pc :: "nat \<Rightarrow> 'd cache_pc"
  cs_invalidated :: "int option"

inductive cache_step :: "(int \<Rightarrow> 'd) \<Rightarrow> 'd cache_sys \<Rightarrow> 'd cache_sys \<Rightarrow> bool" for world where
  tick: "cs_now s \<le> t \<Longrightarrow> cache_step world s (s\<lparr>cs_now := t\<rparr>)"
| hit: "cs_pc s k = CacheIdle \<Longrightarrow> cache_hit (cs_now s) (cs_cache s) = Some d \<Longrightarrow>
    cache_step world s (s\<lparr>cs_pc := (cs_pc s)(k := CacheGot d True)\<rparr>)"
| miss: "cs_pc s k = CacheIdle \<Longrightarrow> cache_hit (cs_now s) (cs_cache s) = None \<Longrightarrow>
    cache_step world s (s\<lparr>cs_pc := (cs_pc s)(k := CacheFetching)\<rparr>)"
| fetched: "cs_pc s k = CacheFetching \<Longrightarrow>
    cache_step world s (s\<lparr>cs_pc := (cs_pc s)(k := CacheFetched (world (cs_now s)) (cs_now s))\<rparr>)"
| failed: "cs_pc s k = CacheFetching \<Longrightarrow> cache_step world s (s\<lparr>cs_pc := (cs_pc s)(k := CacheFailed e)\<rparr>)"
| stored: "cs_pc s k = CacheFetched d t \<Longrightarrow>
    cache_step world s (s\<lparr>cs_cache := cache_store (cs_now s) d (cs_cache s), cs_pc := (cs_pc s)(k := CacheGot d False)\<rparr>)"
| invalidated: "cache_step world s (s\<lparr>cs_cache := cache_invalidate (cs_cache s), cs_invalidated := Some (cs_now s)\<rparr>)"

inductive cache_reachable :: "(int \<Rightarrow> 'd) \<Rightarrow> int \<Rightarrow> 'd cache_sys \<Rightarrow> bool" for world ttl where
  cache_start: "cache_reachable world ttl \<lparr>cs_cache = newResponseCache ttl, cs_now = t, cs_pc = (\<lambda>k. CacheIdle), cs_invalidated = None\<rparr>"
| cache_next: "cache_reachable world ttl s \<Longrightarrow> cache_step world s s' \<Longrightarrow> cache_reachable world ttl s'"

text \<open>What is in the cache was fetched before it was stored, and it was stored within the last \<open>ttl\<close>.\<close>

definition cache_ok :: "(int \<Rightarrow> 'd) \<Rightarrow> int \<Rightarrow> 'd cache_sys \<Rightarrow> bool" where
  "cache_ok world ttl s \<longleftrightarrow>
     rcache_ttl (cs_cache s) = ttl \<and>
     (\<forall>d x. rcache_entry (cs_cache s) = Some (d, x) \<longrightarrow> (\<exists>f. d = world f \<and> f \<le> x - ttl \<and> x - ttl \<le> cs_now s)) \<and>
     (\<forall>k d f. cs_pc s k = CacheFetched d f \<longrightarrow> d = world f \<and> f \<le> cs_now s)"

lemma cache_invariant: "cache_reachable world ttl s \<Longrightarrow> cache_ok world ttl s"
proof (induction rule: cache_reachable.induct)
  case (cache_start t)
  then show ?case by (simp add: cache_ok_def newResponseCache_def)
next
  case (cache_next s s')
  note ok = cache_next.IH [unfolded cache_ok_def]
  show ?case
    using cache_next.hyps(2)
  proof cases
    case (tick t)
    then show ?thesis using ok unfolding cache_ok_def by (auto; meson order_trans)
  next
    case (stored k d t)
    have "d = world t" "t \<le> cs_now s" using ok stored(2) by auto
    then show ?thesis using ok unfolding cache_ok_def stored(1) by (auto simp: cache_store_def)
  qed (use ok in \<open>auto simp: cache_ok_def cache_invalidate_def\<close>)
qed


text \<open>
  \<^verbatim>\<open>Invalidate\<close> does not reach a fetch that is under way: data fetched before the invalidation may be stored after it, and the
  next call is answered with it.
\<close>

definition ex_cache :: "int \<Rightarrow> int cache_pc \<Rightarrow> (int \<times> int) option \<Rightarrow> int option \<Rightarrow> int cache_sys" where
  "ex_cache now p entry iv =
     \<lparr>cs_cache = \<lparr>rcache_entry = entry, rcache_ttl = 10\<rparr>, cs_now = now, cs_pc = (\<lambda>k. CacheIdle)(0 := p), cs_invalidated = iv\<rparr>"

lemma cache_step_to:
  "cs_now s \<le> t \<Longrightarrow> s' = s\<lparr>cs_now := t\<rparr> \<Longrightarrow> cache_step world s s'"
  "cs_pc s k = CacheIdle \<Longrightarrow> cache_hit (cs_now s) (cs_cache s) = None \<Longrightarrow> s' = s\<lparr>cs_pc := (cs_pc s)(k := CacheFetching)\<rparr> \<Longrightarrow> cache_step world s s'"
  "cs_pc s k = CacheFetching \<Longrightarrow> s' = s\<lparr>cs_pc := (cs_pc s)(k := CacheFetched (world (cs_now s)) (cs_now s))\<rparr> \<Longrightarrow> cache_step world s s'"
  "cs_pc s k = CacheFetched d u \<Longrightarrow>
     s' = s\<lparr>cs_cache := cache_store (cs_now s) d (cs_cache s), cs_pc := (cs_pc s)(k := CacheGot d False)\<rparr> \<Longrightarrow> cache_step world s s'"
  "s' = s\<lparr>cs_cache := cache_invalidate (cs_cache s), cs_invalidated := Some (cs_now s)\<rparr> \<Longrightarrow> cache_step world s s'"
  using cache_step.intros by simp_all

lemma ex_cache_reachable: "cache_reachable (\<lambda>t. t) 10 (ex_cache 1 (CacheGot 0 False) (Some (0, 11)) (Some 1))"
proof -
  note defs = ex_cache_def fun_eq_iff cache_hit_def cache_store_def cache_invalidate_def newResponseCache_def
  have "cache_reachable (\<lambda>t. t) 10 (ex_cache 0 CacheIdle None None)"
    using cache_start [of "\<lambda>t. t" 10 0] by (simp add: defs fun_upd_idem)
  then have "cache_reachable (\<lambda>t. t) 10 (ex_cache 0 CacheFetching None None)"
    by (rule cache_next [OF _ cache_step_to(2) [where k = 0]]) (auto simp: defs)
  then have "cache_reachable (\<lambda>t. t) 10 (ex_cache 0 (CacheFetched 0 0) None None)"
    by (rule cache_next [OF _ cache_step_to(3) [where k = 0]]) (auto simp: defs)
  then have "cache_reachable (\<lambda>t. t) 10 (ex_cache 1 (CacheFetched 0 0) None None)"
    by (rule cache_next [OF _ cache_step_to(1) [where t = 1]]) (auto simp: defs)
  then have "cache_reachable (\<lambda>t. t) 10 (ex_cache 1 (CacheFetched 0 0) None (Some 1))"
    by (rule cache_next [OF _ cache_step_to(5)]) (auto simp: defs)
  then show ?thesis
    by (rule cache_next [OF _ cache_step_to(4) [where k = 0 and d = 0 and u = 0]]) (auto simp: defs)
qed

lemma invalidate_race:
  "\<exists>s. cache_reachable (\<lambda>t. t) 10 s \<and> cs_invalidated s = Some 1 \<and> cs_now s = 1 \<and> cache_hit (cs_now s) (cs_cache s) = Some 0"
  using ex_cache_reachable by (intro exI [of _ "ex_cache 1 (CacheGot 0 False) (Some (0, 11)) (Some 1)"]) (simp add: ex_cache_def cache_hit_def)


text \<open>The three lists a client caches, and when: only with a context that asks for it.\<close>

record ('t, 'a, 'r) caching_client =
  cc_teams :: "'t response_cache"
  cc_apps :: "'a response_cache"
  cc_roles :: "'r response_cache"

definition NewCachingClient :: "int \<Rightarrow> ('t, 'a, 'r) caching_client" where
  "NewCachingClient ttl = \<lparr>cc_teams = newResponseCache ttl, cc_apps = newResponseCache ttl, cc_roles = newResponseCache ttl\<rparr>"

definition cached_GetAllTeamsForOrg ::
    "bool \<Rightarrow> int \<Rightarrow> int \<Rightarrow> (go_error, 't) result \<Rightarrow> ('t, 'a, 'r) caching_client \<Rightarrow> (go_error, 't) result \<times> ('t, 'a, 'r) caching_client" where
  "cached_GetAllTeamsForOrg enabled now later fetched c =
     (if \<not> enabled then (fetched, c)
      else (case GetOrFetch now later fetched (cc_teams c) of (r, t) \<Rightarrow> (r, c\<lparr>cc_teams := t\<rparr>)))"

definition cached_GetGitHubAppsInstallations ::
    "bool \<Rightarrow> int \<Rightarrow> int \<Rightarrow> (go_error, 'a) result \<Rightarrow> ('t, 'a, 'r) caching_client \<Rightarrow> (go_error, 'a) result \<times> ('t, 'a, 'r) caching_client" where
  "cached_GetGitHubAppsInstallations enabled now later fetched c =
     (if \<not> enabled then (fetched, c)
      else (case GetOrFetch now later fetched (cc_apps c) of (r, t) \<Rightarrow> (r, c\<lparr>cc_apps := t\<rparr>)))"

definition cached_GetAllOrgRoles ::
    "bool \<Rightarrow> int \<Rightarrow> int \<Rightarrow> (go_error, 'r) result \<Rightarrow> ('t, 'a, 'r) caching_client \<Rightarrow> (go_error, 'r) result \<times> ('t, 'a, 'r) caching_client" where
  "cached_GetAllOrgRoles enabled now later fetched c =
     (if \<not> enabled then (fetched, c)
      else (case GetOrFetch now later fetched (cc_roles c) of (r, t) \<Rightarrow> (r, c\<lparr>cc_roles := t\<rparr>)))"

definition InvalidateAll :: "('t, 'a, 'r) caching_client \<Rightarrow> ('t, 'a, 'r) caching_client" where
  "InvalidateAll c =
     \<lparr>cc_teams = cache_invalidate (cc_teams c), cc_apps = cache_invalidate (cc_apps c), cc_roles = cache_invalidate (cc_roles c)\<rparr>"

text \<open>Without interference, the first cached call after an invalidation asks GitHub.\<close>

lemma invalidated_call_fetches:
  "fst (cached_GetAllTeamsForOrg enabled now later fetched (InvalidateAll c)) = fetched"
  "fst (cached_GetGitHubAppsInstallations enabled now later fetched' (InvalidateAll c)) = fetched'"
  "fst (cached_GetAllOrgRoles enabled now later fetched'' (InvalidateAll c)) = fetched''"
  by (auto simp: cached_GetAllTeamsForOrg_def cached_GetGitHubAppsInstallations_def cached_GetAllOrgRoles_def InvalidateAll_def
      GetOrFetch_def cache_hit_def cache_invalidate_def split: sum.splits)

end
