(* ===== verification/RulesetSync.thy ===== *)
theory RulesetSync
  imports Resolve IdResolver OrgTypes
begin

text \<open>
  Applying the desired rulesets to GitHub: \<^verbatim>\<open>internal/reconciler/common/rulesets/sync.go\<close> and its two
  callers, \<^verbatim>\<open>orgrec/rec_rulesets.go\<close> and \<^verbatim>\<open>reporec/rec_rulesets.go\<close>. A target answers each call as a function
  of the calls made before it, so one model serves two kinds of statements: what is safe whatever GitHub
  answers, and what a GitHub that stores rulesets holds in the end. The order in which Go ranges over the
  rulesets to delete is an argument.
\<close>

section \<open>Targets and options\<close>

datatype sync_call =
    CreateCall gh_ruleset desired
  | UpdateCall int gh_ruleset desired
  | DeleteCall int string

record sync_target =
  tg_Scope :: string
  tg_List :: "(go_error, gh_ruleset option list) result"
  tg_Get :: "sync_call list \<Rightarrow> int \<Rightarrow> (go_error, gh_ruleset) result"
  tg_Create :: "sync_call list \<Rightarrow> gh_ruleset \<Rightarrow> desired \<Rightarrow> go_error option"
  tg_Update :: "sync_call list \<Rightarrow> int \<Rightarrow> gh_ruleset \<Rightarrow> desired \<Rightarrow> go_error option"
  tg_Delete :: "sync_call list \<Rightarrow> int \<Rightarrow> string \<Rightarrow> go_error option"

record 'r sync_options =
  so_Resolver :: "'r \<Rightarrow> ruleset_spec \<Rightarrow> 'r \<times> ruleset_spec \<times> go_error option"
  so_EnableRequiredReviewersRules :: bool
  so_Skip :: "(desired \<Rightarrow> bool) option"
  so_Adjust :: "(ruleset_spec \<Rightarrow> ruleset_spec) option"

text \<open>
  The state of the loop: the resolver, the calls made (in order), the rulesets to delete and the errors of
  unresolved rulesets.
\<close>

record 'r sync_state =
  st_resolver :: 'r
  st_calls :: "sync_call list"
  st_toDelete :: "(string, gh_ruleset) gomap"
  st_unresolved :: "go_error list"

section \<open>The loop over the desired rulesets\<close>

text \<open>Required reviewers are a beta feature: without it they are removed before anything else.\<close>

definition strip_reviewers :: "'r sync_options \<Rightarrow> ruleset_spec \<Rightarrow> ruleset_spec" where
  "strip_reviewers opts spec =
     (case ru_PullRequest (rs_Rules spec) of
        None \<Rightarrow> spec
      | Some p \<Rightarrow>
          (if so_EnableRequiredReviewersRules opts then spec
           else spec\<lparr>rs_Rules := (rs_Rules spec)\<lparr>ru_PullRequest := Some (p\<lparr>pr_RequiredReviewers := []\<rparr>)\<rparr>\<rparr>))"

definition is_skipped :: "'r sync_options \<Rightarrow> desired \<Rightarrow> bool" where
  "is_skipped opts d = (case so_Skip opts of None \<Rightarrow> False | Some skip \<Rightarrow> skip d)"

definition adjusted :: "'r sync_options \<Rightarrow> ruleset_spec \<Rightarrow> ruleset_spec" where
  "adjusted opts spec = (case so_Adjust opts of None \<Rightarrow> spec | Some f \<Rightarrow> f spec)"

text \<open>The part of the loop body after mapping: create the ruleset, or compare and update it.\<close>

definition apply_ruleset ::
    "sync_target \<Rightarrow> (string, gh_ruleset) gomap \<Rightarrow> desired \<Rightarrow> gh_ruleset \<Rightarrow> 'r sync_state \<Rightarrow> 'r sync_state \<times> go_error option" where
  "apply_ruleset tgt existing d g st =
     (case map_get existing (rs_Name (ds_Spec d)) of
        None \<Rightarrow> (st\<lparr>st_calls := st_calls st @ [CreateCall g d]\<rparr>, tg_Create tgt (st_calls st) g d)
      | Some ex \<Rightarrow>
          (case gs_ID ex of
             None \<Rightarrow> (st, None)
           | Some i \<Rightarrow>
               (case tg_Get tgt (st_calls st) i of
                  Inl e \<Rightarrow> (st, Some (WrapError (''failed to get existing '' @ tg_Scope tgt @ '' ruleset '' @ rs_Name (ds_Spec d)) e))
                | Inr full \<Rightarrow>
                    (let st' = st\<lparr>st_toDelete := map_delete (rs_Name (ds_Spec d)) (st_toDelete st)\<rparr> in
                     if \<not> RulesetsDiffer (ds_Spec d) full then (st', None)
                     else
                       (case gs_ID full of
                          None \<Rightarrow> (st', None)
                        | Some j \<Rightarrow>
                            (st'\<lparr>st_calls := st_calls st @ [UpdateCall j g d]\<rparr>, tg_Update tgt (st_calls st) j g d))))))"

definition sync_step ::
    "sync_target \<Rightarrow> 'r sync_options \<Rightarrow> (string, gh_ruleset) gomap \<Rightarrow> desired \<Rightarrow> 'r sync_state \<Rightarrow>
     'r sync_state \<times> go_error option" where
  "sync_step tgt opts existing d st =
     (case ds_Unresolved d of
        Some e \<Rightarrow>
          (st\<lparr>st_toDelete := map_delete (rs_Name (ds_Spec d)) (st_toDelete st),
              st_unresolved := st_unresolved st @ [e]\<rparr>, None)
      | None \<Rightarrow>
          (if is_skipped opts d then (st, None)
           else
             (case so_Resolver opts (st_resolver st) (strip_reviewers opts (ds_Spec d)) of
                (r', spec1, Some e) \<Rightarrow>
                  (st\<lparr>st_resolver := r'\<rparr>,
                   Some (WrapError (''failed to resolve slugs of ruleset '' @ rs_Name spec1 @ '' ('' @ ds_Source d @ '') to IDs'') e))
              | (r', spec1, None) \<Rightarrow>
                  (let st1 = st\<lparr>st_resolver := r'\<rparr>; spec2 = adjusted opts spec1 in
                   case RulesetSpecToGithubRuleset spec2 of
                     Inl e \<Rightarrow>
                       (st1, Some (WrapError (''failed to convert ruleset '' @ rs_Name spec2 @ '' ('' @ ds_Source d @ '') to GitHub ruleset'') e))
                   | Inr g \<Rightarrow> apply_ruleset tgt existing (d\<lparr>ds_Spec := spec2\<rparr>) g st1))))"

fun sync_loop ::
    "sync_target \<Rightarrow> 'r sync_options \<Rightarrow> (string, gh_ruleset) gomap \<Rightarrow> desired list \<Rightarrow> 'r sync_state \<Rightarrow>
     'r sync_state \<times> go_error option" where
  "sync_loop tgt opts existing [] st = (st, None)"
| "sync_loop tgt opts existing (d # ds) st =
     (case sync_step tgt opts existing d st of
        (st', Some e) \<Rightarrow> (st', Some e)
      | (st', None) \<Rightarrow> sync_loop tgt opts existing ds st')"

fun delete_loop :: "sync_target \<Rightarrow> (string \<times> gh_ruleset) list \<Rightarrow> sync_call list \<Rightarrow> sync_call list \<times> go_error option" where
  "delete_loop tgt [] calls = (calls, None)"
| "delete_loop tgt ((name, g) # rest) calls =
     (case gs_ID g of
        None \<Rightarrow> delete_loop tgt rest calls
      | Some i \<Rightarrow>
          (case tg_Delete tgt calls i name of
             Some e \<Rightarrow> (calls @ [DeleteCall i name], Some e)
           | None \<Rightarrow> delete_loop tgt rest (calls @ [DeleteCall i name])))"

text \<open>The maps built from the listed rulesets; nil entries and rulesets without a name are ignored.\<close>

definition rulesets_by_name :: "gh_ruleset option list \<Rightarrow> (string, gh_ruleset) gomap" where
  "rulesets_by_name listed =
     put_all gs_Name (\<lambda>g. g) (filter (\<lambda>g. gs_Name g \<noteq> []) (List.map_filter (\<lambda>x. x) listed)) []"

type_synonym delete_order = "(string \<times> gh_ruleset) list \<Rightarrow> (string \<times> gh_ruleset) list"

definition Sync ::
    "delete_order \<Rightarrow> sync_target \<Rightarrow> desired list \<Rightarrow> 'r sync_options \<Rightarrow> 'r \<Rightarrow> 'r sync_state \<times> go_error option" where
  "Sync ord tgt desiredRulesets opts r =
     (let st0 = \<lparr>st_resolver = r, st_calls = [], st_toDelete = [], st_unresolved = []\<rparr> in
      case tg_List tgt of
        Inl e \<Rightarrow> (st0, Some (WrapError (''failed to get existing '' @ tg_Scope tgt @ '' rulesets'') e))
      | Inr listed \<Rightarrow>
          (let existing = rulesets_by_name listed in
           case sync_loop tgt opts existing desiredRulesets (st0\<lparr>st_toDelete := existing\<rparr>) of
             (st, Some e) \<Rightarrow> (st, Some e)
           | (st, None) \<Rightarrow>
               (case delete_loop tgt (ord (st_toDelete st)) (st_calls st) of
                  (calls, Some e) \<Rightarrow> (st\<lparr>st_calls := calls\<rparr>, Some e)
                | (calls, None) \<Rightarrow> (st\<lparr>st_calls := calls\<rparr>, errors_Join (st_unresolved st)))))"

section \<open>The two callers\<close>

text \<open>
  The ruleset calls of the GitHub client, as functions of the calls made before. The wrappers of both
  reconcilers only add the text of the error.
\<close>

record ruleset_api =
  api_List :: "(go_error, gh_ruleset option list) result"
  api_Get :: "sync_call list \<Rightarrow> int \<Rightarrow> (go_error, gh_ruleset) result"
  api_Create :: "sync_call list \<Rightarrow> gh_ruleset \<Rightarrow> go_error option"
  api_Update :: "sync_call list \<Rightarrow> int \<Rightarrow> gh_ruleset \<Rightarrow> go_error option"
  api_Delete :: "sync_call list \<Rightarrow> int \<Rightarrow> go_error option"

definition ruleset_target :: "string \<Rightarrow> ruleset_api \<Rightarrow> sync_target" where
  "ruleset_target scope api =
     \<lparr>tg_Scope = scope, tg_List = api_List api, tg_Get = api_Get api,
      tg_Create = (\<lambda>h g d. map_option (WrapError (''failed to create '' @ scope @ '' ruleset '' @ rs_Name (ds_Spec d) @
        '' ('' @ ds_Source d @ '')'')) (api_Create api h g)),
      tg_Update = (\<lambda>h i g d. map_option (WrapError (''failed to update '' @ scope @ '' ruleset '' @ rs_Name (ds_Spec d) @
        '' ('' @ ds_Source d @ '')'')) (api_Update api h i g)),
      tg_Delete = (\<lambda>h i name. map_option (WrapError (''failed to delete '' @ scope @ '' ruleset '' @ name)) (api_Delete api h i))\<rparr>"

definition org_target :: "ruleset_api \<Rightarrow> sync_target" where
  "org_target api = ruleset_target ''organization'' api"

definition repo_target :: "ruleset_api \<Rightarrow> sync_target" where
  "repo_target api = ruleset_target ''repository'' api"

definition addDefaultOrgRepositoryConditions :: "ruleset_conditions option \<Rightarrow> ruleset_conditions option" where
  "addDefaultOrgRepositoryConditions conditions =
     (case conditions of
        None \<Rightarrow> None
      | Some c \<Rightarrow>
          (if cd_RepositoryName c = None \<and> cd_RepositoryProperty c = None
           then Some (c\<lparr>cd_RepositoryName := Some \<lparr>rp_Include = [''~ALL''], rp_Exclude = [], rp_Protected = Some False\<rparr>\<rparr>)
           else Some c))"

definition org_options :: "id_client \<Rightarrow> bool \<Rightarrow> id_resolver sync_options" where
  "org_options cl reviewers =
     \<lparr>so_Resolver = ResolveRuleset cl, so_EnableRequiredReviewersRules = reviewers, so_Skip = None,
      so_Adjust = Some (\<lambda>spec. spec\<lparr>rs_Conditions := addDefaultOrgRepositoryConditions (rs_Conditions spec)\<rparr>)\<rparr>"

definition repo_options :: "id_client \<Rightarrow> bool \<Rightarrow> id_resolver sync_options" where
  "repo_options cl reviewers =
     \<lparr>so_Resolver = ResolveRuleset cl, so_EnableRequiredReviewersRules = reviewers,
      so_Skip = Some (\<lambda>d. rs_Target (ds_Spec d) = ''repository''), so_Adjust = None\<rparr>"

text \<open>The outcome of a reconciler: the calls it made and the error it returned.\<close>

type_synonym sync_outcome = "sync_call list \<times> go_error option"

definition org_reconcileRulesets ::
    "delete_order \<Rightarrow> preset_reader \<Rightarrow> (ruleset_spec \<Rightarrow> ruleset_spec \<Rightarrow> bool) \<Rightarrow> string \<Rightarrow> string list \<Rightarrow> ruleset_spec list \<Rightarrow>
     id_client \<Rightarrow> bool \<Rightarrow> ruleset_api \<Rightarrow> id_resolver \<Rightarrow> sync_outcome" where
  "org_reconcileRulesets ord reader deepEq plan refs inline cl reviewers api r =
     (if \<not> HasEnterpriseFeatures plan then ([], None)
      else
        (case Collect_rulesets reader deepEq refs inline of
           Inl e \<Rightarrow> ([], Some e)
         | Inr ds \<Rightarrow>
             (case Sync ord (org_target api) ds (org_options cl reviewers) r of
                (st, e) \<Rightarrow> (st_calls st, e))))"

text \<open>The organization that owns the repository is read first; of it only the plan matters.\<close>

definition repo_reconcileRuleSets ::
    "delete_order \<Rightarrow> preset_reader \<Rightarrow> (ruleset_spec \<Rightarrow> ruleset_spec \<Rightarrow> bool) \<Rightarrow> (go_error, string) result \<Rightarrow> string \<Rightarrow>
     string list \<Rightarrow> ruleset_spec list \<Rightarrow> id_client \<Rightarrow> bool \<Rightarrow> ruleset_api \<Rightarrow> id_resolver \<Rightarrow> sync_outcome" where
  "repo_reconcileRuleSets ord reader deepEq plan visibility refs inline cl reviewers api r =
     (case plan of
        Inl e \<Rightarrow> ([], Some e)
      | Inr p \<Rightarrow>
          (if GetPlan p = ''free'' \<and> visibility \<noteq> ''public'' then ([], None)
           else
             (case Collect_rulesets reader deepEq refs inline of
                Inl e \<Rightarrow> ([], Some e)
              | Inr ds \<Rightarrow>
                  (case Sync ord (repo_target api) ds (repo_options cl reviewers) r of
                     (st, e) \<Rightarrow> (st_calls st, e)))))"

section \<open>What both callers rely on\<close>

text \<open>
  The interface between the loop and the options: resolving and adjusting a ruleset keep its name, by
  which the loop identifies it.
\<close>

locale ruleset_resolver =
  fixes resolve :: "'r \<Rightarrow> ruleset_spec \<Rightarrow> 'r \<times> ruleset_spec \<times> go_error option"
  assumes resolve_name: "resolve r s = (r', s', None) \<Longrightarrow> rs_Name s' = rs_Name s"

locale sync_opts =
  fixes opts :: "'r sync_options"
  assumes resolver: "ruleset_resolver (so_Resolver opts)"
    and adjust_name: "rs_Name (adjusted opts s) = rs_Name s"

definition applied :: "'r sync_options \<Rightarrow> desired \<Rightarrow> bool" where
  "applied opts d \<longleftrightarrow> ds_Unresolved d = None \<and> \<not> is_skipped opts d"

text \<open>The spec that is applied for a desired ruleset, for some state of the resolver.\<close>

definition applied_spec :: "'r sync_options \<Rightarrow> desired \<Rightarrow> ruleset_spec \<Rightarrow> bool" where
  "applied_spec opts d spec \<longleftrightarrow>
     (\<exists>r r' s. so_Resolver opts r (strip_reviewers opts (ds_Spec d)) = (r', s, None) \<and> spec = adjusted opts s)"

text \<open>Which calls are safe for the desired rulesets \<open>ds\<close> and the rulesets GitHub listed.\<close>

fun call_ok :: "sync_target \<Rightarrow> 'r sync_options \<Rightarrow> (string, gh_ruleset) gomap \<Rightarrow> desired list \<Rightarrow> sync_call \<Rightarrow> bool" where
  "call_ok tgt opts existing ds (CreateCall g d') \<longleftrightarrow>
     (\<exists>d \<in> set ds. applied opts d \<and> gs_Name g = desired_name d \<and> map_get existing (desired_name d) = None \<and>
        applied_spec opts d (ds_Spec d') \<and> RulesetSpecToGithubRuleset (ds_Spec d') = Inr g)"
| "call_ok tgt opts existing ds (UpdateCall j g d') \<longleftrightarrow>
     (\<exists>d \<in> set ds. applied opts d \<and> gs_Name g = desired_name d \<and>
        applied_spec opts d (ds_Spec d') \<and> RulesetSpecToGithubRuleset (ds_Spec d') = Inr g \<and>
        (\<exists>x i h full. map_get existing (desired_name d) = Some x \<and> gs_ID x = Some i \<and>
           tg_Get tgt h i = Inr full \<and> gs_ID full = Some j \<and> RulesetsDiffer (ds_Spec d') full))"
| "call_ok tgt opts existing ds (DeleteCall i n) \<longleftrightarrow>
     (\<exists>x. map_get existing n = Some x \<and> gs_ID x = Some i) \<and>
     (\<forall>d \<in> set ds. desired_name d = n \<longrightarrow> ds_Unresolved d = None \<and> is_skipped opts d)"

lemma strip_reviewers_name [simp]: "rs_Name (strip_reviewers opts s) = rs_Name s"
  by (simp add: strip_reviewers_def split: option.split)

lemma mapped_name: "RulesetSpecToGithubRuleset s = Inr g \<Longrightarrow> gs_Name g = rs_Name s \<and> rs_Name s \<noteq> []"
  by (auto simp: RulesetSpecToGithubRuleset_def mapRules_def Let_def split: if_splits)

abbreviation with_id :: "(string \<times> gh_ruleset) list \<Rightarrow> (string \<times> gh_ruleset) list" where
  "with_id es \<equiv> filter (\<lambda>(n, g). gs_ID g \<noteq> None) es"

abbreviation delete_calls :: "(string \<times> gh_ruleset) list \<Rightarrow> sync_call list" where
  "delete_calls es \<equiv> map (\<lambda>(n, g). DeleteCall (the (gs_ID g)) n) es"

lemma delete_loop_calls:
  "delete_loop tgt es calls = (calls', e) \<Longrightarrow> \<exists>k. calls' = calls @ delete_calls (take k (with_id es))"
proof (induction tgt es calls rule: delete_loop.induct)
  case (2 tgt name g rest calls)
  show ?case
  proof (cases "gs_ID g")
    case None
    then show ?thesis using 2 by simp
  next
    case i: (Some i)
    show ?thesis
    proof (cases "tg_Delete tgt calls i name")
      case None
      then obtain k where "calls' = (calls @ [DeleteCall i name]) @ delete_calls (take k (with_id rest))"
        using 2 i by auto
      then show ?thesis using i by (intro exI [of _ "Suc k"]) simp
    next
      case (Some x)
      then show ?thesis using 2(3) i by (intro exI [of _ 1]) auto
    qed
  qed
qed auto

lemma delete_loop_all:
  "delete_loop tgt es calls = (calls', None) \<Longrightarrow> calls' = calls @ delete_calls (with_id es)"
  by (induction tgt es calls rule: delete_loop.induct) (auto split: option.splits)

context sync_opts
begin

lemma applied_spec_name: "applied_spec opts d spec \<Longrightarrow> rs_Name spec = desired_name d"
  using ruleset_resolver.resolve_name [OF resolver] by (auto simp: applied_spec_def adjust_name desired_name_def)

text \<open>The steps of the loop: unresolved, skipped, failed before any call, or applied.\<close>

lemma sync_step_cases:
  assumes "sync_step tgt opts existing d st = (st', e)"
  obtains (unresolved) x where "ds_Unresolved d = Some x" "e = None"
      "st' = st\<lparr>st_toDelete := map_delete (desired_name d) (st_toDelete st), st_unresolved := st_unresolved st @ [x]\<rparr>"
    | (skipped) "ds_Unresolved d = None" "is_skipped opts d" "st' = st" "e = None"
    | (failed) r' p x where "applied opts d" "st' = st\<lparr>st_resolver := r'\<rparr>" "e = Some (WrapError p x)"
    | (applies) r' spec g where "applied opts d" "applied_spec opts d spec" "RulesetSpecToGithubRuleset spec = Inr g"
      "apply_ruleset tgt existing (d\<lparr>ds_Spec := spec\<rparr>) g (st\<lparr>st_resolver := r'\<rparr>) = (st', e)"
proof (cases "ds_Unresolved d")
  case (Some x)
  then show thesis using assms unresolved by (simp add: sync_step_def desired_name_def)
next
  case None
  show thesis
  proof (cases "is_skipped opts d")
    case True
    then show thesis using assms skipped None by (simp add: sync_step_def)
  next
    case False
    obtain r' s1 f where r: "so_Resolver opts (st_resolver st) (strip_reviewers opts (ds_Spec d)) = (r', s1, f)"
      by (metis prod_cases3)
    have a: "applied opts d" using None False by (simp add: applied_def)
    show thesis
    proof (cases f)
      case (Some x)
      then have "st' = st\<lparr>st_resolver := r'\<rparr> \<and> (\<exists>p. e = Some (WrapError p x))"
        using assms None False r by (auto simp: sync_step_def)
      then show thesis using failed [OF a] by blast
    next
      case N: None
      show thesis
      proof (cases "RulesetSpecToGithubRuleset (adjusted opts s1)")
        case (Inl x)
        then have "st' = st\<lparr>st_resolver := r'\<rparr> \<and> (\<exists>p. e = Some (WrapError p x))"
          using assms None False r N by (auto simp: sync_step_def Let_def)
        then show thesis using failed [OF a] by blast
      next
        case (Inr g)
        moreover have "applied_spec opts d (adjusted opts s1)" using r N by (auto simp: applied_spec_def)
        ultimately show thesis using assms applies [OF a] None False r N by (simp add: sync_step_def Let_def)
      qed
    qed
  qed
qed

lemma apply_ruleset_cases:
  assumes "apply_ruleset tgt existing d g st = (st', e)"
  obtains (create) "map_get existing (desired_name d) = None" "st' = st\<lparr>st_calls := st_calls st @ [CreateCall g d]\<rparr>"
      "e = tg_Create tgt (st_calls st) g d"
    | (no_id) x where "map_get existing (desired_name d) = Some x" "gs_ID x = None" "st' = st" "e = None"
    | (unread) x i f p where "map_get existing (desired_name d) = Some x" "gs_ID x = Some i"
      "tg_Get tgt (st_calls st) i = Inl f" "st' = st" "e = Some (WrapError p f)"
    | (kept) x i full where "map_get existing (desired_name d) = Some x" "gs_ID x = Some i"
      "tg_Get tgt (st_calls st) i = Inr full" "\<not> RulesetsDiffer (ds_Spec d) full \<or> gs_ID full = None"
      "st' = st\<lparr>st_toDelete := map_delete (desired_name d) (st_toDelete st)\<rparr>" "e = None"
    | (update) x i full j where "map_get existing (desired_name d) = Some x" "gs_ID x = Some i"
      "tg_Get tgt (st_calls st) i = Inr full" "RulesetsDiffer (ds_Spec d) full" "gs_ID full = Some j"
      "st' = st\<lparr>st_toDelete := map_delete (desired_name d) (st_toDelete st), st_calls := st_calls st @ [UpdateCall j g d]\<rparr>"
      "e = tg_Update tgt (st_calls st) j g d"
proof (cases "map_get existing (desired_name d)")
  case None
  then show thesis using assms create by (simp add: apply_ruleset_def desired_name_def)
next
  case (Some x)
  show thesis
  proof (cases "gs_ID x")
    case None
    then show thesis using assms no_id [OF Some] Some by (simp add: apply_ruleset_def desired_name_def)
  next
    case i: (Some i)
    show thesis
    proof (cases "tg_Get tgt (st_calls st) i")
      case (Inl f)
      then have "st' = st \<and> (\<exists>p. e = Some (WrapError p f))"
        using assms Some i by (auto simp: apply_ruleset_def desired_name_def)
      then show thesis using unread [OF Some i Inl] by blast
    next
      case (Inr full)
      show thesis
      proof (cases "\<not> RulesetsDiffer (ds_Spec d) full \<or> gs_ID full = None")
        case True
        then show thesis using assms kept [OF Some i Inr True] Some i Inr
          by (auto simp: apply_ruleset_def desired_name_def Let_def split: if_splits)
      next
        case False
        then obtain j where j: "gs_ID full = Some j" "RulesetsDiffer (ds_Spec d) full" by auto
        then show thesis using assms update [OF Some i Inr j(2,1)] Some i Inr
          by (simp add: apply_ruleset_def desired_name_def Let_def)
      qed
    qed
  qed
qed

lemma call_ok_weaken: "call_ok tgt opts existing ds c \<Longrightarrow> set ds \<subseteq> set ds' \<Longrightarrow> \<forall>i n. c \<noteq> DeleteCall i n \<Longrightarrow> call_ok tgt opts existing ds' c"
  by (cases c) (auto; blast)+

lemma sync_step_safe:
  assumes "sync_step tgt opts existing d st = (st', e)" and "gomap_ok (st_toDelete st)"
  shows "\<exists>cs. st_calls st' = st_calls st @ cs \<and> (\<forall>c \<in> set cs. call_ok tgt opts existing [d] c \<and> (\<forall>i n. c \<noteq> DeleteCall i n)) \<and>
           gomap_ok (st_toDelete st') \<and> map_get (st_toDelete st') \<subseteq>\<^sub>m map_get (st_toDelete st) \<and>
           st_unresolved st' = st_unresolved st @ (case ds_Unresolved d of None \<Rightarrow> [] | Some x \<Rightarrow> [x]) \<and>
           (e = None \<longrightarrow> ds_Unresolved d \<noteq> None \<longrightarrow> map_get (st_toDelete st') (desired_name d) = None) \<and>
           (e = None \<longrightarrow> applied opts d \<longrightarrow> map_get existing (desired_name d) = None \<or>
              map_get (st_toDelete st') (desired_name d) = None \<or> (\<exists>x. map_get existing (desired_name d) = Some x \<and> gs_ID x = None))"
  using assms(1)
proof (cases rule: sync_step_cases)
  case (unresolved x)
  then show ?thesis using assms(2) by (auto simp: map_le_def applied_def)
next
  case skipped
  then show ?thesis using assms(2) by (auto simp: applied_def)
next
  case (failed r' p x)
  then show ?thesis using assms(2) by (auto simp: applied_def)
next
  case (applies r' spec g)
  let ?d = "d\<lparr>ds_Spec := spec\<rparr>"
  have n: "desired_name ?d = desired_name d" "gs_Name g = desired_name d"
    using applied_spec_name [OF applies(2)] mapped_name [OF applies(3)] by (simp_all add: desired_name_def)
  note ok = applies(1-3) n
  from applies(4) show ?thesis
  proof (cases rule: apply_ruleset_cases)
    case create
    then show ?thesis using assms(2) ok by (auto simp: applied_def)
  next
    case (no_id x)
    then show ?thesis using assms(2) ok by (auto simp: applied_def)
  next
    case (unread x i f p)
    then show ?thesis using assms(2) ok by (auto simp: applied_def)
  next
    case (kept x i full)
    then show ?thesis using assms(2) ok by (auto simp: applied_def map_le_def)
  next
    case (update x i full j)
    have "call_ok tgt opts existing [d] (UpdateCall j g ?d)"
      using update ok by auto
    then show ?thesis using update assms(2) ok by (auto simp: applied_def map_le_def)
  qed
qed

lemma sync_loop_safe:
  assumes "sync_loop tgt opts existing ds st = (st', e)" and "gomap_ok (st_toDelete st)"
  shows "(\<exists>cs. st_calls st' = st_calls st @ cs \<and> (\<forall>c \<in> set cs. call_ok tgt opts existing ds c \<and> (\<forall>i n. c \<noteq> DeleteCall i n))) \<and>
         gomap_ok (st_toDelete st') \<and> map_get (st_toDelete st') \<subseteq>\<^sub>m map_get (st_toDelete st) \<and>
         (e = None \<longrightarrow> st_unresolved st' = st_unresolved st @ List.map_filter ds_Unresolved ds) \<and>
         (e = None \<longrightarrow> (\<forall>d \<in> set ds. map_get (st_toDelete st') (desired_name d) \<noteq> None \<longrightarrow>
            ds_Unresolved d = None \<and> (is_skipped opts d \<or> map_get existing (desired_name d) = None \<or>
              (\<exists>x. map_get existing (desired_name d) = Some x \<and> gs_ID x = None))))"
  using assms
proof (induction ds arbitrary: st)
  case Nil
  then show ?case by (simp add: List.map_filter_simps)
next
  case (Cons d ds)
  obtain st1 f where s: "sync_step tgt opts existing d st = (st1, f)" by fastforce
  obtain cs where cs: "st_calls st1 = st_calls st @ cs" "\<forall>c \<in> set cs. call_ok tgt opts existing (d # ds) c \<and> (\<forall>i n. c \<noteq> DeleteCall i n)"
    using sync_step_safe [OF s Cons.prems(2)] call_ok_weaken [of tgt existing "[d]" _ "d # ds"] by fastforce
  note step = sync_step_safe [OF s Cons.prems(2)]
  show ?case
  proof (cases f)
    case (Some x)
    then show ?thesis using step cs Cons.prems(1) s by auto
  next
    case None
    have l: "sync_loop tgt opts existing ds st1 = (st', e)" using Cons.prems(1) s None by simp
    have g1: "gomap_ok (st_toDelete st1)" using step by blast
    note IH = Cons.IH [OF l g1]
    obtain cs' where cs': "st_calls st' = st_calls st1 @ cs'" "\<forall>c \<in> set cs'. call_ok tgt opts existing ds c \<and> (\<forall>i n. c \<noteq> DeleteCall i n)" using IH by blast
    have le: "map_get (st_toDelete st') \<subseteq>\<^sub>m map_get (st_toDelete st1)" using IH by blast
    have none: "map_get (st_toDelete st1) k = None \<Longrightarrow> map_get (st_toDelete st') k = None" for k
      using le by (metis domIff map_le_def)
    have "\<forall>c \<in> set cs'. call_ok tgt opts existing (d # ds) c \<and> (\<forall>i n. c \<noteq> DeleteCall i n)"
      using cs'(2) call_ok_weaken [OF _ set_subset_Cons] by blast
    moreover have "st_unresolved st' = st_unresolved st @ List.map_filter ds_Unresolved (d # ds)" if "e = None"
      using IH step that by (auto simp: List.map_filter_simps split: option.splits)
    moreover have "map_get (st_toDelete st') \<subseteq>\<^sub>m map_get (st_toDelete st)"
      using le step map_le_trans by blast
    moreover have "\<forall>x \<in> set (d # ds). map_get (st_toDelete st') (desired_name x) \<noteq> None \<longrightarrow>
            ds_Unresolved x = None \<and> (is_skipped opts x \<or> map_get existing (desired_name x) = None \<or>
              (\<exists>y. map_get existing (desired_name x) = Some y \<and> gs_ID y = None))" if "e = None"
      using IH step that None none by (auto simp: applied_def)
    ultimately show ?thesis using cs cs' IH by (auto simp: Ball_def)
  qed
qed

lemma Sync_safe:
  assumes "Sync ord tgt ds opts r = (st, e)" and "tg_List tgt = Inr listed" and "range_order ord"
    and "c \<in> set (st_calls st)"
  shows "call_ok tgt opts (rulesets_by_name listed) ds c"
proof -
  let ?ex = "rulesets_by_name listed"
  let ?st0 = "\<lparr>st_resolver = r, st_calls = [], st_toDelete = ?ex, st_unresolved = []\<rparr>"
  have gx: "gomap_ok (st_toDelete ?st0)" by (simp add: rulesets_by_name_def)
  obtain st1 f where l: "sync_loop tgt opts ?ex ds ?st0 = (st1, f)" by fastforce
  note loop = sync_loop_safe [OF l gx]
  show ?thesis
  proof (cases f)
    case (Some x)
    then have "st = st1" using assms(1,2) l by (simp add: Sync_def Let_def)
    then show ?thesis using loop assms(4) by auto
  next
    case None
    obtain calls h where d: "delete_loop tgt (ord (st_toDelete st1)) (st_calls st1) = (calls, h)" by fastforce
    have sc: "st_calls st = calls" using assms(1,2) l d None by (cases h) (auto simp: Sync_def Let_def)
    consider (loop) "c \<in> set (st_calls st1)"
      | (del) n g i where "c = DeleteCall i n" "(n, g) \<in> set (ord (st_toDelete st1))" "gs_ID g = Some i"
      using delete_loop_calls [OF d] assms(4) sc by (auto dest!: in_set_takeD)
    then show ?thesis
    proof cases
      case loop
      then show ?thesis using \<open>sync_loop _ _ _ _ _ = _\<close> sync_loop_safe [OF l gx] by auto
    next
      case del
      have m: "map_get (st_toDelete st1) n = Some g"
        using del(2) loop range_order_set [OF assms(3)] gomap_in_iff by metis
      have "map_get (st_toDelete st1) \<subseteq>\<^sub>m map_get ?ex" using loop by simp
      then have x: "map_get ?ex n = Some g" using m unfolding map_le_def by (metis domI)
      have "ds_Unresolved d = None \<and> is_skipped opts d" if "d \<in> set ds" "desired_name d = n" for d
        using loop None that m x del(3) by fastforce
      then show ?thesis using x del by simp
    qed
  qed
qed

end

interpretation id_resolver_names: ruleset_resolver "ResolveRuleset cl" for cl
  by unfold_locales (rule resolve_keeps_name)

interpretation org_sync: sync_opts "org_options cl reviewers" for cl reviewers
  by unfold_locales (simp_all add: org_options_def adjusted_def resolve_keeps_name)

interpretation repo_sync: sync_opts "repo_options cl reviewers" for cl reviewers
  by unfold_locales (simp_all add: repo_options_def adjusted_def resolve_keeps_name)

section \<open>A GitHub that stores rulesets\<close>

text \<open>
  The abstract GitHub: a list of rulesets with distinct IDs and names. Creating gives a fresh ID, updating
  and deleting work on the ruleset with the ID. \<open>store_after\<close> replays calls, \<open>store_target\<close> is the target that
  answers from the store and never fails.
\<close>

definition store_ok :: "gh_ruleset list \<Rightarrow> bool" where
  "store_ok s \<longleftrightarrow> distinct (map gs_Name s) \<and> distinct (map gs_ID s) \<and> (\<forall>x \<in> set s. gs_ID x \<noteq> None \<and> gs_Name x \<noteq> [])"

definition fresh_id :: "gh_ruleset list \<Rightarrow> int" where
  "fresh_id s = fresh_above (map (\<lambda>x. WithDefault (gs_ID x) 0) s)"

fun apply_call :: "sync_call \<Rightarrow> gh_ruleset list \<Rightarrow> gh_ruleset list" where
  "apply_call (CreateCall g d) s = s @ [g\<lparr>gs_ID := Some (fresh_id s)\<rparr>]"
| "apply_call (UpdateCall i g d) s = map (\<lambda>x. if gs_ID x = Some i then g\<lparr>gs_ID := Some i\<rparr> else x) s"
| "apply_call (DeleteCall i n) s = filter (\<lambda>x. gs_ID x \<noteq> Some i) s"

definition store_after :: "gh_ruleset list \<Rightarrow> sync_call list \<Rightarrow> gh_ruleset list" where
  "store_after s calls = fold apply_call calls s"

definition store_get :: "gh_ruleset list \<Rightarrow> int \<Rightarrow> (go_error, gh_ruleset) result" where
  "store_get s i = (case find (\<lambda>x. gs_ID x = Some i) s of
     None \<Rightarrow> Inl (PlainError ''404 Not Found'') | Some x \<Rightarrow> Inr x)"

definition store_api :: "gh_ruleset list \<Rightarrow> ruleset_api" where
  "store_api s =
     \<lparr>api_List = Inr (map Some s), api_Get = (\<lambda>h i. store_get (store_after s h) i), api_Create = (\<lambda>h g. None),
      api_Update = (\<lambda>h i g. None), api_Delete = (\<lambda>h i. None)\<rparr>"

definition by_name :: "gh_ruleset list \<Rightarrow> string \<Rightarrow> gh_ruleset option" where
  "by_name s n = find (\<lambda>x. gs_Name x = n) s"

lemma store_after_simps [simp]:
  "store_after s [] = s" "store_after s (cs @ cs') = store_after (store_after s cs) cs'"
  "store_after s [c] = apply_call c s" "store_after s (c # cs) = store_after (apply_call c s) cs"
  by (simp_all add: store_after_def)

lemma find_unique:
  assumes "distinct (map f s)"
  shows "find (\<lambda>x. f x = k) s = Some x \<longleftrightarrow> x \<in> set s \<and> f x = k"
  using assms by (induction s) auto

lemma by_name_iff: "store_ok s \<Longrightarrow> by_name s n = Some x \<longleftrightarrow> x \<in> set s \<and> gs_Name x = n"
  by (simp add: by_name_def find_unique store_ok_def)

lemma by_name_None: "by_name s n = None \<longleftrightarrow> n \<notin> gs_Name ` set s"
  by (auto simp: by_name_def find_None_iff)

lemma store_get_ok: "store_ok s \<Longrightarrow> x \<in> set s \<Longrightarrow> gs_ID x = Some i \<Longrightarrow> store_get s i = Inr x"
  using find_unique [of gs_ID s "Some i" x] by (simp add: store_get_def store_ok_def)

lemma map_eqI: "(\<And>n x. f n = Some x \<longleftrightarrow> g n = Some x) \<Longrightarrow> f = g"
  by (rule ext) (metis not_Some_eq)

lemma fresh_id_bound: "x \<in> set s \<Longrightarrow> gs_ID x = Some i \<Longrightarrow> i < fresh_id s"
  unfolding fresh_id_def by (rule fresh_above_bound) force

lemma by_name_put:
  assumes "store_ok s" and "store_ok s'" and "set s' = insert z {y \<in> set s. gs_Name y \<noteq> n}" and "gs_Name z = n"
  shows "by_name s' = (by_name s)(n \<mapsto> z)"
proof (rule map_eqI)
  fix m y
  show "by_name s' m = Some y \<longleftrightarrow> ((by_name s)(n \<mapsto> z)) m = Some y"
    using assms(4) by (cases "m = n") (auto simp: by_name_iff [OF assms(1)] by_name_iff [OF assms(2)] assms(3))
qed

lemma by_name_del:
  assumes "store_ok s" and "store_ok s'" and "set s' = {y \<in> set s. gs_Name y \<noteq> n}"
  shows "by_name s' = (by_name s)(n := None)"
proof (rule map_eqI)
  fix m y
  show "by_name s' m = Some y \<longleftrightarrow> ((by_name s)(n := None)) m = Some y"
    by (cases "m = n") (auto simp: by_name_iff [OF assms(1)] by_name_iff [OF assms(2)] assms(3))
qed

text \<open>In a well-formed store the ID and the name of a ruleset identify each other.\<close>

lemma store_unique:
  assumes "store_ok s" and "by_name s n = Some x" and "gs_ID x = Some i" and "y \<in> set s"
  shows "gs_ID y = Some i \<longleftrightarrow> y = x" and "gs_Name y = n \<longleftrightarrow> y = x"
proof -
  have x: "x \<in> set s" "gs_Name x = n" using assms by (auto simp: by_name_iff)
  have "inj_on gs_ID (set s)" "inj_on gs_Name (set s)" using assms(1) by (simp_all add: store_ok_def distinct_map)
  then show "gs_ID y = Some i \<longleftrightarrow> y = x" "gs_Name y = n \<longleftrightarrow> y = x"
    using x assms(3,4) by (metis inj_onD)+
qed

lemma create_store:
  assumes "store_ok s" and "by_name s (gs_Name g) = None" and "gs_Name g \<noteq> []"
  shows "store_ok (apply_call (CreateCall g d) s)"
    and "by_name (apply_call (CreateCall g d) s) = (by_name s)(gs_Name g \<mapsto> g\<lparr>gs_ID := Some (fresh_id s)\<rparr>)"
proof -
  have "Some (fresh_id s) \<notin> gs_ID ` set s" using fresh_id_bound [of _ s "fresh_id s"] by fastforce
  then show ok: "store_ok (apply_call (CreateCall g d) s)"
    using assms by (auto simp: store_ok_def by_name_None)
  show "by_name (apply_call (CreateCall g d) s) = (by_name s)(gs_Name g \<mapsto> g\<lparr>gs_ID := Some (fresh_id s)\<rparr>)"
    by (rule by_name_put [OF assms(1) ok]) (use assms(2) in \<open>auto simp: by_name_None image_iff\<close>)
qed

lemma update_store:
  assumes "store_ok s" and "by_name s (gs_Name g) = Some x" and "gs_ID x = Some i"
  shows "store_ok (apply_call (UpdateCall i g d) s)"
    and "by_name (apply_call (UpdateCall i g d) s) = (by_name s)(gs_Name g \<mapsto> g\<lparr>gs_ID := Some i\<rparr>)"
proof -
  have x: "x \<in> set s" "gs_Name x = gs_Name g" using assms by (auto simp: by_name_iff)
  note u = store_unique [OF assms]
  have names: "map gs_Name (apply_call (UpdateCall i g d) s) = map gs_Name s"
    unfolding apply_call.simps map_map by (rule map_cong [OF refl]) (simp add: u(1) x(2))
  have ids: "map gs_ID (apply_call (UpdateCall i g d) s) = map gs_ID s"
    unfolding apply_call.simps map_map by (rule map_cong [OF refl]) simp
  have "\<forall>y \<in> set (apply_call (UpdateCall i g d) s). gs_ID y \<noteq> None \<and> gs_Name y \<noteq> []"
    using assms(1) x by (auto simp: store_ok_def)
  then show ok: "store_ok (apply_call (UpdateCall i g d) s)"
    using assms(1) by (simp only: store_ok_def names ids)
  have "(if gs_ID y = Some i then g\<lparr>gs_ID := Some i\<rparr> else y) = (if gs_Name y = gs_Name g then g\<lparr>gs_ID := Some i\<rparr> else y)"
    if "y \<in> set s" for y using u [OF that] by simp
  then have "set (apply_call (UpdateCall i g d) s) = (\<lambda>y. if gs_Name y = gs_Name g then g\<lparr>gs_ID := Some i\<rparr> else y) ` set s"
    by simp
  then show "by_name (apply_call (UpdateCall i g d) s) = (by_name s)(gs_Name g \<mapsto> g\<lparr>gs_ID := Some i\<rparr>)"
    by (intro by_name_put [OF assms(1) ok]) (use x in force)+
qed

lemma delete_store:
  assumes "store_ok s" and "by_name s n = Some x" and "gs_ID x = Some i"
  shows "store_ok (apply_call (DeleteCall i n) s)" and "by_name (apply_call (DeleteCall i n) s) = (by_name s)(n := None)"
proof -
  show ok: "store_ok (apply_call (DeleteCall i n) s)"
    using assms(1) by (simp add: store_ok_def distinct_map_filter)
  show "by_name (apply_call (DeleteCall i n) s) = (by_name s)(n := None)"
    by (rule by_name_del [OF assms(1) ok]) (use store_unique [OF assms] in auto)
qed

lemma listed_by_name: "store_ok s \<Longrightarrow> map_get (rulesets_by_name (map Some s)) = by_name s"
proof -
  assume ok: "store_ok s"
  have f: "filter (\<lambda>g. gs_Name g \<noteq> []) (List.map_filter (\<lambda>x. x) (map Some s)) = s"
    using ok by (induction s) (auto simp: List.map_filter_simps store_ok_def)
  show ?thesis
  proof (rule map_eqI)
    fix n x
    show "map_get (rulesets_by_name (map Some s)) n = Some x \<longleftrightarrow> by_name s n = Some x"
      unfolding rulesets_by_name_def f by_name_iff [OF ok]
      using put_all_get_in [of gs_Name "\<lambda>g. g" s "[]" n x] put_all_distinct [of gs_Name s x "\<lambda>g. g" "[]"] ok
      by (auto simp: store_ok_def)
  qed
qed

section \<open>Convergence\<close>

text \<open>What a desired ruleset has become: it matches, or it is what the mapping produces.\<close>

definition settled :: "'r sync_options \<Rightarrow> desired \<Rightarrow> gh_ruleset \<Rightarrow> bool" where
  "settled opts d x \<longleftrightarrow>
     (\<exists>spec. applied_spec opts d spec \<and>
        (\<not> RulesetsDiffer spec x \<or> (\<exists>g i. RulesetSpecToGithubRuleset spec = Inr g \<and> x = g\<lparr>gs_ID := Some i\<rparr>)))"

definition names_of :: "(desired \<Rightarrow> bool) \<Rightarrow> desired list \<Rightarrow> string set" where
  "names_of P ds = desired_name ` {d \<in> set ds. P d}"

definition store_inv :: "'r sync_options \<Rightarrow> gh_ruleset list \<Rightarrow> desired list \<Rightarrow> 'r sync_state \<Rightarrow> bool" where
  "store_inv opts s0 ds st \<longleftrightarrow>
     (let s = store_after s0 (st_calls st) in
      store_ok s \<and> gomap_ok (st_toDelete st) \<and>
      (\<forall>n. n \<notin> names_of (applied opts) ds \<longrightarrow> by_name s n = by_name s0 n) \<and>
      (\<forall>d \<in> set ds. applied opts d \<longrightarrow> (\<exists>x. by_name s (desired_name d) = Some x \<and> settled opts d x)) \<and>
      (\<forall>n. map_get (st_toDelete st) n =
         (if n \<in> names_of (\<lambda>d. \<not> is_skipped opts d \<or> ds_Unresolved d \<noteq> None) ds then None else by_name s0 n)))"

lemma names_of_snoc: "names_of P (ds @ [d]) = (if P d then insert (desired_name d) (names_of P ds) else names_of P ds)"
  by (auto simp: names_of_def)

lemma names_of_mono: "names_of P ds \<subseteq> desired_name ` set ds"
  by (auto simp: names_of_def)

text \<open>A step that leaves the store alone, or changes the entry of one name.\<close>

lemma store_inv_put:
  assumes "store_inv opts s0 ds st" and "desired_name d \<notin> desired_name ` set ds" and "applied opts d"
    and "store_ok (store_after s0 (st_calls st'))"
    and "by_name (store_after s0 (st_calls st')) = (by_name (store_after s0 (st_calls st)))(desired_name d \<mapsto> x)"
    and "settled opts d x" and "st_toDelete st' = map_delete (desired_name d) (st_toDelete st)"
  shows "store_inv opts s0 (ds @ [d]) st'"
proof -
  have ne: "desired_name e \<noteq> desired_name d" if "e \<in> set ds" for e using that assms(2) by (metis imageI)
  then show ?thesis
    using assms(1,3-7) by (auto simp: store_inv_def Let_def names_of_snoc applied_def)
qed

context sync_opts
begin

lemma store_step:
  assumes "store_ok s0" and "store_inv opts s0 ds st" and "desired_name d \<notin> desired_name ` set ds"
    and "map_get existing = by_name s0" and "sync_step (ruleset_target scope (store_api s0)) opts existing d st = (st', None)"
  shows "store_inv opts s0 (ds @ [d]) st'"
  using assms(5)
proof (cases rule: sync_step_cases)
  case (unresolved x)
  then show ?thesis
    using assms(2) by (auto simp: store_inv_def Let_def names_of_snoc applied_def)
next
  case skipped
  then show ?thesis
    using assms(2) by (auto simp: store_inv_def Let_def names_of_snoc applied_def)
next
  case (failed r' p x)
  then show ?thesis by simp
next
  case (applies r' spec g)
  let ?d = "d\<lparr>ds_Spec := spec\<rparr>" and ?s = "store_after s0 (st_calls st)"
  have n: "desired_name ?d = desired_name d" "gs_Name g = desired_name d" "gs_Name g \<noteq> []"
    using applied_spec_name [OF applies(2)] mapped_name [OF applies(3)] by (simp_all add: desired_name_def)
  have ok: "store_ok ?s" using assms(2) by (simp add: store_inv_def Let_def)
  have same: "by_name ?s (desired_name d) = by_name s0 (desired_name d)"
    using assms(2,3) names_of_mono [of "applied opts" ds] by (auto simp: store_inv_def Let_def)
  have new: "settled opts d (g\<lparr>gs_ID := Some i\<rparr>)" for i
    using applies(2,3) by (auto simp: settled_def)
  note put = store_inv_put [OF assms(2,3) applies(1)]
  have del: "map_delete (desired_name d) (st_toDelete st) = st_toDelete st" if "by_name s0 (desired_name d) = None"
  proof -
    have "map_get (st_toDelete st) (desired_name d) = None"
      using assms(2) that by (auto simp: store_inv_def Let_def)
    then show ?thesis by (simp add: delete_notin_dom map_of_eq_None_iff)
  qed
  from applies(4) show ?thesis
  proof (cases rule: apply_ruleset_cases)
    case create
    then have none: "by_name ?s (gs_Name g) = None" "by_name s0 (desired_name d) = None" using assms(4) same n by auto
    show ?thesis
      using create_store [OF ok none(1) n(3), of ?d] new create del [OF none(2)] n
      by (intro put [where x = "g\<lparr>gs_ID := Some (fresh_id ?s)\<rparr>"]) auto
  next
    case (no_id x)
    then have "x \<in> set s0" using assms(1,4) n by (auto simp: by_name_iff)
    then show ?thesis using no_id(2) assms(1) by (auto simp: store_ok_def)
  next
    case (kept x i full)
    have x: "by_name ?s (desired_name d) = Some x" using kept(1) assms(4) same n by simp
    then have "full = x"
      using kept(2,3) store_get_ok [OF ok _ kept(2)] by (auto simp: by_name_iff [OF ok] ruleset_target_def store_api_def)
    then have "settled opts d x" using kept applies(2) by (auto simp: settled_def)
    then show ?thesis
      using kept x ok n by (intro put [where x = x]) auto
  next
    case (update x i full j)
    have x: "by_name ?s (desired_name d) = Some x" using update(1) assms(4) same n by simp
    then have "full = x"
      using update(2,3) store_get_ok [OF ok _ update(2)] by (auto simp: by_name_iff [OF ok] ruleset_target_def store_api_def)
    then have j: "j = i" using update by simp
    show ?thesis
      using update_store [OF ok x [folded n(2)] update(2), of ?d] new update j n
      by (intro put [where x = "g\<lparr>gs_ID := Some i\<rparr>"]) auto
  qed (simp_all)
qed

lemma store_loop:
  assumes "store_ok s0" and "map_get existing = by_name s0" and "distinct (map desired_name (ds @ ds'))"
    and "store_inv opts s0 ds st" and "sync_loop (ruleset_target scope (store_api s0)) opts existing ds' st = (st', None)"
  shows "store_inv opts s0 (ds @ ds') st'"
  using assms(3-5)
proof (induction ds' arbitrary: ds st)
  case (Cons d ds')
  obtain st1 f where s: "sync_step (ruleset_target scope (store_api s0)) opts existing d st = (st1, f)" by fastforce
  have f: "f = None" using Cons.prems(3) s by (cases f) auto
  have "desired_name d \<notin> desired_name ` set ds" using Cons.prems(1) by auto
  then have "store_inv opts s0 (ds @ [d]) st1"
    using store_step [OF assms(1) Cons.prems(2) _ assms(2)] s f by blast
  then show ?case using Cons.IH [of "ds @ [d]" st1] Cons.prems s f by simp
qed simp

end

lemma delete_store_loop:
  assumes "store_ok s" and "distinct (map fst es)" and "\<forall>(n, x) \<in> set es. by_name s n = Some x"
  shows "store_ok (store_after s (delete_calls (with_id es))) \<and>
         (\<forall>n. by_name (store_after s (delete_calls (with_id es))) n = (if n \<in> fst ` set es then None else by_name s n))"
  using assms
proof (induction es arbitrary: s)
  case (Cons e es)
  obtain n x where e: "e = (n, x)" by fastforce
  have "x \<in> set s" using Cons.prems e by (auto simp: by_name_iff)
  then obtain i where i: "gs_ID x = Some i" using Cons.prems(1) by (auto simp: store_ok_def)
  note d = delete_store [OF Cons.prems(1) _ i]
  have 1: "by_name s n = Some x" using Cons.prems(3) e by auto
  have 2: "\<forall>(m, y) \<in> set es. by_name (apply_call (DeleteCall i n) s) m = Some y"
    using Cons.prems(2,3) e d(2) [OF 1] by (force)
  show ?case using Cons.IH [OF d(1) [OF 1] _ 2] Cons.prems(2) d(2) [OF 1] e i by auto
qed simp

text \<open>The loop only returns wrapped errors, if the target does.\<close>

definition wrapped :: "go_error option \<Rightarrow> bool" where
  "wrapped e \<longleftrightarrow> (\<forall>es. e \<noteq> Some (JoinError es))"

lemma store_errors:
  "wrapped (tg_Create (ruleset_target scope api) h g d)" "wrapped (tg_Update (ruleset_target scope api) h i g d)"
  by (auto simp: ruleset_target_def wrapped_def)

lemma delete_loop_ok:
  "delete_loop tgt es calls = (calls', e) \<Longrightarrow> (\<And>h i n. tg_Delete tgt h i n = None) \<Longrightarrow> e = None"
  by (induction tgt es calls rule: delete_loop.induct) (auto split: option.splits)

context sync_opts
begin

lemma sync_loop_error:
  assumes "sync_loop tgt opts existing ds st = (st', e)"
    and "\<And>h g d. wrapped (tg_Create tgt h g d)" and "\<And>h i g d. wrapped (tg_Update tgt h i g d)"
  shows "wrapped e"
  using assms(1)
proof (induction ds arbitrary: st)
  case (Cons d ds)
  obtain st1 f where s: "sync_step tgt opts existing d st = (st1, f)" by fastforce
  have "wrapped f"
    using s
  proof (cases rule: sync_step_cases)
    case (applies r' spec g)
    from applies(4) show ?thesis by (cases rule: apply_ruleset_cases) (use assms(2,3) in \<open>auto simp: wrapped_def\<close>)
  qed (auto simp: wrapped_def)
  then show ?case using Cons.IH [of st1] Cons.prems s by (cases f) auto
qed (simp add: wrapped_def)

end

context sync_opts
begin

lemma Sync_converges:
  assumes "store_ok s0" and "distinct (map desired_name ds)" and "range_order ord"
    and "Sync ord (ruleset_target scope (store_api s0)) ds opts r = (st, e)" and "e = errors_Join es"
  shows "es = List.map_filter ds_Unresolved ds \<and> store_ok (store_after s0 (st_calls st)) \<and>
         (\<forall>d \<in> set ds. applied opts d \<longrightarrow>
            (\<exists>x. by_name (store_after s0 (st_calls st)) (desired_name d) = Some x \<and> settled opts d x)) \<and>
         (\<forall>n. n \<notin> names_of (applied opts) ds \<longrightarrow>
            by_name (store_after s0 (st_calls st)) n =
              (if n \<in> names_of (\<lambda>d. ds_Unresolved d \<noteq> None) ds then by_name s0 n else None))"
proof -
  let ?tgt = "ruleset_target scope (store_api s0)" and ?ex = "rulesets_by_name (map Some s0)"
  let ?st0 = "\<lparr>st_resolver = r, st_calls = [], st_toDelete = ?ex, st_unresolved = []\<rparr>"
  have ex: "map_get ?ex = by_name s0" by (rule listed_by_name [OF assms(1)])
  have gx: "gomap_ok (st_toDelete ?st0)" by (simp add: rulesets_by_name_def)
  have lst: "tg_List ?tgt = Inr (map Some s0)" by (simp add: ruleset_target_def store_api_def)
  obtain st1 f where l: "sync_loop ?tgt opts ?ex ds ?st0 = (st1, f)" by fastforce
  have f: "f = None"
    using sync_loop_error [OF l store_errors] assms(4,5) l lst
    by (cases f) (auto simp: Sync_def Let_def errors_Join_def wrapped_def split: if_splits)
  have "store_inv opts s0 [] ?st0"
    using assms(1) gx ex by (simp add: store_inv_def names_of_def)
  then have inv: "store_inv opts s0 ds st1"
    using store_loop [OF assms(1) ex, of "[]" ds] assms(2) l f by simp
  let ?s1 = "store_after s0 (st_calls st1)" and ?del = "ord (st_toDelete st1)"
  obtain calls h where d: "delete_loop ?tgt ?del (st_calls st1) = (calls, h)" by fastforce
  have h: "h = None" using delete_loop_ok [OF d] by (simp add: ruleset_target_def store_api_def)
  have st: "st_calls st = st_calls st1 @ delete_calls (with_id ?del)" "e = errors_Join (st_unresolved st1)"
    using assms(4) l f d h delete_loop_all [OF d [unfolded h]] lst by (auto simp: Sync_def Let_def)
  have un: "st_unresolved st1 = List.map_filter ds_Unresolved ds" using sync_loop_safe [OF l gx] f by simp
  have es: "es = List.map_filter ds_Unresolved ds"
    using st(2) assms(5) un by (auto simp: errors_Join_def split: if_splits)
  have td: "map_get (st_toDelete st1) n =
      (if n \<in> names_of (\<lambda>d. \<not> is_skipped opts d \<or> ds_Unresolved d \<noteq> None) ds then None else by_name s0 n)" for n
    using inv by (simp add: store_inv_def Let_def)
  have keep: "n \<notin> names_of (applied opts) ds \<Longrightarrow> by_name ?s1 n = by_name s0 n" for n
    using inv by (simp add: store_inv_def Let_def)
  have ap: "names_of (applied opts) ds \<subseteq> names_of (\<lambda>d. \<not> is_skipped opts d \<or> ds_Unresolved d \<noteq> None) ds"
    by (auto simp: names_of_def applied_def)
  have gd: "gomap_ok (st_toDelete st1)" using inv by (simp add: store_inv_def Let_def)
  have dd: "distinct (map fst ?del)"
    using gd assms(3) unfolding gomap_ok_def range_order_def by (metis mset_map mset_eq_imp_distinct_iff)
  have b: "\<forall>(n, x) \<in> set ?del. by_name ?s1 n = Some x"
  proof clarify
    fix n x assume that: "(n, x) \<in> set ?del"
    have "map_get (st_toDelete st1) n = Some x" using that range_order_set [OF assms(3)] gomap_in_iff [OF gd] by blast
    then show "by_name ?s1 n = Some x" using td [of n] keep [of n] ap by (auto split: if_splits)
  qed
  have ok1: "store_ok ?s1" using inv by (simp add: store_inv_def Let_def)
  have fin: "store_ok (store_after s0 (st_calls st)) \<and>
      (\<forall>n. by_name (store_after s0 (st_calls st)) n = (if n \<in> fst ` set ?del then None else by_name ?s1 n))"
    unfolding st(1) store_after_simps by (rule delete_store_loop [OF ok1 dd b])
  have dn: "n \<in> fst ` set ?del \<longleftrightarrow> map_get (st_toDelete st1) n \<noteq> None" for n
    using range_order_set [OF assms(3)] by (metis dom_map_of_conv_image_fst domIff)
  have "\<exists>x. by_name (store_after s0 (st_calls st)) (desired_name d) = Some x \<and> settled opts d x"
    if "d \<in> set ds" "applied opts d" for d
  proof -
    have "desired_name d \<in> names_of (applied opts) ds" using that by (auto simp: names_of_def)
    then have "desired_name d \<notin> fst ` set ?del" using dn td ap by auto
    then show ?thesis using fin inv that by (auto simp: store_inv_def Let_def)
  qed
  moreover have "by_name (store_after s0 (st_calls st)) n =
      (if n \<in> names_of (\<lambda>d. ds_Unresolved d \<noteq> None) ds then by_name s0 n else None)"
    if "n \<notin> names_of (applied opts) ds" for n
  proof -
    have "n \<in> names_of (\<lambda>d. \<not> is_skipped opts d \<or> ds_Unresolved d \<noteq> None) ds \<longleftrightarrow> n \<in> names_of (\<lambda>d. ds_Unresolved d \<noteq> None) ds"
      using that unfolding names_of_def applied_def by blast
    then show ?thesis using fin keep [OF that] dn [of n] td [of n] by auto
  qed
  ultimately show ?thesis using fin es by blast
qed

end


section \<open>Properties of the two callers\<close>

lemma caller_opts: "opts \<in> {org_options cl b, repo_options cl b} \<Longrightarrow> sync_opts opts"
  using org_sync.sync_opts_axioms repo_sync.sync_opts_axioms by blast

text \<open>An organization with an old ruleset, one that cannot be resolved, and a new one to create.\<close>

definition ex_stored :: "int \<Rightarrow> string \<Rightarrow> gh_ruleset" where
  "ex_stored i n = \<lparr>gs_ID = Some i, gs_Name = n, gs_Target = None, gs_Enforcement = ''active'', gs_BypassActors = [],
     gs_Conditions = None, gs_Rules = None\<rparr>"

definition ex_store :: "gh_ruleset list" where
  "ex_store = [ex_stored 3 ''old'', ex_stored 4 ''broken'']"

definition ex_broken :: go_error where
  "ex_broken = UnresolvedError ''broken'' [] ReasonParentNotFound None"

definition ex_wanted :: "desired list" where
  "ex_wanted =
     [\<lparr>ds_Source = ''inline[0]'', ds_Spec = ex_team_spec, ds_Unresolved = None, ds_raw = ex_team_spec\<rparr>,
      \<lparr>ds_Source = ''inline[1]'', ds_Spec = bare_spec ''broken'' ''gone'' [], ds_Unresolved = Some ex_broken,
       ds_raw = bare_spec ''broken'' ''gone'' []\<rparr>]"

definition ex_sync :: "id_resolver sync_state \<times> go_error option" where
  "ex_sync = Sync (\<lambda>m. m) (ruleset_target ''organization'' (store_api ex_store)) ex_wanted (org_options ex_id_client True) ex_resolver"

lemma ex_sync_result: "snd ex_sync = errors_Join [ex_broken]"
  by code_simp

lemma ex_sync_calls: "map (\<lambda>c. case c of DeleteCall i n \<Rightarrow> (i, n) | _ \<Rightarrow> (0, [])) (st_calls (fst ex_sync)) = [(0, []), (3, ''old'')]"
  by code_simp

text \<open>C27: whatever GitHub answers, and in whatever order rulesets are deleted, the calls are safe. A ruleset
  is created only if GitHub listed none with its name, and updated only if the one it has differs; a
  ruleset is deleted only if no desired ruleset has its name except those to be skipped. In particular
  a ruleset whose definition could not be resolved is neither changed nor deleted.\<close>

theorem ruleset_calls_safe:
  assumes "opts \<in> {org_options cl b, repo_options cl b}" and "Sync ord tgt ds opts r = (st, e)"
    and "tg_List tgt = Inr listed" and "range_order ord" and "c \<in> set (st_calls st)"
  shows "call_ok tgt opts (rulesets_by_name listed) ds c"
  by (rule sync_opts.Sync_safe [OF caller_opts [OF assms(1)] assms(2-5)])

theorem ruleset_calls_safe_witness:
  "call_ok (ruleset_target ''organization'' (store_api ex_store)) (org_options ex_id_client True)
     (rulesets_by_name (map Some ex_store)) ex_wanted (DeleteCall 3 ''old'')"
proof (rule ruleset_calls_safe [where ord = "\<lambda>m. m" and r = ex_resolver and cl = ex_id_client and b = True])
  show "Sync (\<lambda>m. m) (ruleset_target ''organization'' (store_api ex_store)) ex_wanted (org_options ex_id_client True) ex_resolver =
        (fst ex_sync, snd ex_sync)" by (simp add: ex_sync_def)
  show "DeleteCall 3 ''old'' \<in> set (st_calls (fst ex_sync))"
    using ex_sync_calls by (auto split: sync_call.splits)
qed (simp_all add: ruleset_target_def store_api_def)



end
