(* ===== verification/ClientWrapper.thy ===== *)
theory ClientWrapper
  imports RulesetSync
begin

text \<open>
  The wrapper around the GitHub library (\<^verbatim>\<open>ghclient/wrapper.go\<close>). Most of its methods pass one call on and translate the error, which is \<open>delegate\<close>; the
  ones with a loop, a filter or several calls are definitions of their own. The library is an argument: an answer is a result, the response and an error. A method that
  dereferences a nil pointer has the outcome \<open>Panicked\<close>; a loop over pages that does not end has none.
\<close>

section \<open>Responses and errors\<close>

record 'h gh_response =
  re_Response :: "'h option"
  re_NextPage :: int
  re_LastPage :: int

text \<open>Of the library: the check of a response, and the response inside an error of the installation transport (\<^verbatim>\<open>errors.As\<close> to \<^verbatim>\<open>ghinstallation.HTTPError\<close>).\<close>

record 'h http_lib =
  hl_CheckResponse :: "'h \<Rightarrow> go_error option"
  hl_HTTPError :: "go_error \<Rightarrow> 'h option option"

type_synonym ('h, 'a) answer = "'a \<times> 'h gh_response option \<times> go_error option"

datatype 'a outcome = Returned 'a | Panicked

definition getHTTPResponse :: "'h http_lib \<Rightarrow> 'h gh_response option \<Rightarrow> go_error option \<Rightarrow> 'h option" where
  "getHTTPResponse lib response err =
     (let result = (case response of None \<Rightarrow> None | Some r \<Rightarrow> re_Response r) in
      if response = None then (case Option.bind err (hl_HTTPError lib) of None \<Rightarrow> result | Some h \<Rightarrow> h) else result)"

definition handleErrorResponse :: "'h http_lib \<Rightarrow> 'h gh_response option \<Rightarrow> go_error option \<Rightarrow> go_error option" where
  "handleErrorResponse lib response err =
     (if response = None then err
      else
        (case getHTTPResponse lib response err of
           None \<Rightarrow> err
         | Some h \<Rightarrow>
             (case (err, hl_CheckResponse lib h) of
                (Some e, Some g) \<Rightarrow> errors_Join [g, e]
              | _ \<Rightarrow> err)))"

text \<open>The methods that pass on one call: what it returned, and its error.\<close>

definition delegate :: "'h http_lib \<Rightarrow> ('h, 'a) answer \<Rightarrow> 'a \<times> go_error option" where
  "delegate lib ans = (case ans of (result, response, err) \<Rightarrow> (result, handleErrorResponse lib response err))"

text \<open>What a caller sees that looks at the error first.\<close>

definition as_result :: "'a \<times> go_error option \<Rightarrow> (go_error, 'a) result" where
  "as_result p = (case snd p of Some e \<Rightarrow> Inl e | None \<Rightarrow> Inr (fst p))"

section \<open>Lists with several pages\<close>

text \<open>A list that is read page by page: the answer to a request depends on the pages requested before; page 0 is the request without a number.\<close>

type_synonym ('h, 'a) paged_list = "int list \<Rightarrow> int \<Rightarrow> ('h, 'a list option) answer"

type_synonym 'a paged_outcome = "('a list \<times> go_error option) outcome \<times> int list"

partial_function (option) installations_loop ::
    "'h http_lib \<Rightarrow> ('h, 'a) paged_list \<Rightarrow> int list \<Rightarrow> 'h gh_response \<Rightarrow> int \<Rightarrow> 'a list \<Rightarrow> 'a paged_outcome option" where
  "installations_loop lib ls h response nextPage installations =
     (if nextPage \<noteq> 0 \<and> nextPage \<le> re_LastPage response then
        (case ls h nextPage of
           (result, resp, Some e) \<Rightarrow> Some (Returned ([], handleErrorResponse lib resp (Some e)), h @ [nextPage])
         | (result, None, None) \<Rightarrow> Some (Panicked, h @ [nextPage])
         | (result, Some r, None) \<Rightarrow>
             installations_loop lib ls (h @ [nextPage]) r (re_NextPage r) (case result of None \<Rightarrow> installations | Some xs \<Rightarrow> installations @ xs))
      else Some (Returned (installations, handleErrorResponse lib (Some response) None), h))"

definition wrapper_GetGitHubAppsInstallations :: "'h http_lib \<Rightarrow> ('h, 'a) paged_list \<Rightarrow> 'a paged_outcome option" where
  "wrapper_GetGitHubAppsInstallations lib ls =
     (case ls [] 0 of
        (result, resp, Some e) \<Rightarrow> Some (Returned ([], handleErrorResponse lib resp (Some e)), [0])
      | (None, resp, None) \<Rightarrow> Some (Returned ([], handleErrorResponse lib resp None), [0])
      | (Some xs, None, None) \<Rightarrow> Some (Panicked, [0])
      | (Some xs, Some r, None) \<Rightarrow> installations_loop lib ls [0] r (re_NextPage r) xs)"

text \<open>The other loop dereferences the result of every further page.\<close>

partial_function (option) enabled_repos_loop ::
    "'h http_lib \<Rightarrow> ('h, 'a) paged_list \<Rightarrow> int list \<Rightarrow> 'h gh_response \<Rightarrow> int \<Rightarrow> 'a list \<Rightarrow> 'a paged_outcome option" where
  "enabled_repos_loop lib ls h response nextPage repos =
     (if nextPage \<noteq> 0 \<and> nextPage \<le> re_LastPage response then
        (case ls h nextPage of
           (result, resp, Some e) \<Rightarrow> Some (Returned ([], handleErrorResponse lib resp (Some e)), h @ [nextPage])
         | (result, None, None) \<Rightarrow> Some (Panicked, h @ [nextPage])
         | (None, Some r, None) \<Rightarrow> Some (Panicked, h @ [nextPage])
         | (Some xs, Some r, None) \<Rightarrow> enabled_repos_loop lib ls (h @ [nextPage]) r (re_NextPage r) (repos @ xs))
      else Some (Returned (repos, None), h))"

definition GetActionsEnabledRepositoriesForOrg :: "'h http_lib \<Rightarrow> ('h, 'a) paged_list \<Rightarrow> 'a paged_outcome option" where
  "GetActionsEnabledRepositoriesForOrg lib ls =
     (case ls [] 0 of
        (result, resp, Some e) \<Rightarrow> Some (Returned ([], handleErrorResponse lib resp (Some e)), [0])
      | (None, resp, None) \<Rightarrow> Some (Returned ([], None), [0])
      | (Some xs, None, None) \<Rightarrow> Some (Panicked, [0])
      | (Some xs, Some r, None) \<Rightarrow> enabled_repos_loop lib ls [0] r (re_NextPage r) xs)"

section \<open>Rulesets of an organization\<close>

text \<open>A ruleset comes with the type of its source: the organization, or the enterprise it belongs to.\<close>

definition RulesetSourceTypeOrganization :: string where
  "RulesetSourceTypeOrganization = ''Organization''"

definition GetAllOrganizationRulesets ::
    "'h http_lib \<Rightarrow> ('h, (string option \<times> gh_ruleset) list) answer \<Rightarrow> bool \<Rightarrow> (string option \<times> gh_ruleset) list \<times> go_error option" where
  "GetAllOrganizationRulesets lib ans includeParents =
     (case ans of
        (rulesets, response, err) \<Rightarrow>
          (if includeParents then rulesets else filter (\<lambda>(source, g). source = Some RulesetSourceTypeOrganization) rulesets,
           handleErrorResponse lib response err))"

text \<open>The list that the reconciler of an organization works with.\<close>

definition org_rulesets_listed :: "'h http_lib \<Rightarrow> ('h, (string option \<times> gh_ruleset) list) answer \<Rightarrow> (go_error, gh_ruleset option list) result" where
  "org_rulesets_listed lib ans = map_sum id (map (Some \<circ> snd)) (as_result (GetAllOrganizationRulesets lib ans False))"

section \<open>Roles and groups\<close>

fun role_id_loop :: "gh_named_entity list \<Rightarrow> string \<Rightarrow> int outcome" where
  "role_id_loop [] role = Returned 0"
| "role_id_loop (r # rs) role =
     (case ne_Name r of
        None \<Rightarrow> Panicked
      | Some n \<Rightarrow>
          (if n = role then (case ne_ID r of None \<Rightarrow> Panicked | Some i \<Rightarrow> Returned i) else role_id_loop rs role))"

definition getRoleIDForRoleName :: "('h, gh_named_entity list option) answer \<Rightarrow> string \<Rightarrow> string \<Rightarrow> (go_error, int) result outcome" where
  "getRoleIDForRoleName ans org role =
     (case ans of
        (roles, response, Some e) \<Rightarrow> Returned (Inl e)
      | (None, response, None) \<Rightarrow> Panicked
      | (Some rs, response, None) \<Rightarrow>
          (case role_id_loop rs role of
             Panicked \<Rightarrow> Panicked
           | Returned i \<Rightarrow> Returned (if i = 0 then Inl (PlainError (''role '' @ role @ '' not found for organization '' @ org)) else Inr i)))"

text \<open>The slugs of the teams; the getter gives the empty string for a team without one.\<close>

definition GetAllTeamsAssignedToOrgRole ::
    "'h http_lib \<Rightarrow> ('h, gh_named_entity list option) answer \<Rightarrow> (int \<Rightarrow> ('h, string option list) answer) \<Rightarrow> string \<Rightarrow> string \<Rightarrow>
     (go_error, string list) result outcome" where
  "GetAllTeamsAssignedToOrgRole lib roles teamsOf org role =
     (case getRoleIDForRoleName roles org role of
        Panicked \<Rightarrow> Panicked
      | Returned (Inl e) \<Rightarrow> Returned (Inl e)
      | Returned (Inr i) \<Rightarrow>
          Returned (map_sum id (map (\<lambda>s. WithDefault s [])) (as_result (delegate lib (teamsOf i)))))"

definition wrapper_GetAllOrgRoles :: "'h http_lib \<Rightarrow> ('h, gh_named_entity list option) answer \<Rightarrow> (go_error, gh_named_entity list) result outcome" where
  "wrapper_GetAllOrgRoles lib ans =
     (case ans of
        (roles, response, Some e) \<Rightarrow> Returned (as_result ([], handleErrorResponse lib response (Some e)))
      | (None, response, None) \<Rightarrow> Panicked
      | (Some rs, response, None) \<Rightarrow> Returned (Inr rs))"

definition GetRoleByName :: "'h http_lib \<Rightarrow> ('h, gh_named_entity list option) answer \<Rightarrow> string \<Rightarrow> string \<Rightarrow> (go_error, gh_named_entity) result outcome" where
  "GetRoleByName lib ans org roleName =
     (case wrapper_GetAllOrgRoles lib ans of
        Panicked \<Rightarrow> Panicked
      | Returned (Inl e) \<Rightarrow> Returned (Inl e)
      | Returned (Inr rs) \<Rightarrow>
          (case find (\<lambda>r. WithDefault (ne_Name r) [] = roleName) rs of
             Some r \<Rightarrow> Returned (Inr r)
           | None \<Rightarrow> Returned (Inl (PlainError (''failed to find role named '' @ roleName @ '' in organization '' @ org)))))"

definition GetExternalGroupsForTeamBySlug :: "'h http_lib \<Rightarrow> ('h, 'g list option) answer \<Rightarrow> (go_error, 'g list) result outcome" where
  "GetExternalGroupsForTeamBySlug lib ans =
     (case ans of
        (result, response, Some e) \<Rightarrow> Returned (as_result ([], handleErrorResponse lib response (Some e)))
      | (None, response, None) \<Rightarrow> Panicked
      | (Some gs, response, None) \<Rightarrow> Returned (Inr gs))"

definition group_ids :: "(string option \<times> int option) list \<Rightarrow> (string, int) gomap" where
  "group_ids gs = put_all (\<lambda>(n, i). WithDefault n []) (\<lambda>(n, i). WithDefault i 0) (filter (\<lambda>(n, i). n \<noteq> None \<and> i \<noteq> None) gs) []"

definition GetExternalGroupNamesToIDForOrg ::
    "'h http_lib \<Rightarrow> ('h, (string option \<times> int option) list option) answer \<Rightarrow> (go_error, (string, int) gomap) result outcome" where
  "GetExternalGroupNamesToIDForOrg lib ans =
     (case GetExternalGroupsForTeamBySlug lib ans of
        Panicked \<Rightarrow> Panicked
      | Returned res \<Rightarrow> Returned (map_sum id group_ids res))"

section \<open>Actions\<close>

definition SetActionsEnabledForRepo :: "'h http_lib \<Rightarrow> ('h, unit) answer \<Rightarrow> ('h, unit) answer \<Rightarrow> bool \<Rightarrow> go_error option" where
  "SetActionsEnabledForRepo lib add remove enabled = snd (delegate lib (if enabled then add else remove))"

text \<open>The lists of runner groups, and of the repositories of a group: a nil result is an empty list.\<close>

definition delegate_list :: "'h http_lib \<Rightarrow> ('h, 'a list option) answer \<Rightarrow> 'a list \<times> go_error option" where
  "delegate_list lib ans = (case delegate lib ans of (result, err) \<Rightarrow> (WithDefault result [], err))"

datatype group_call = RemoveRunnerGroupRunners int int | DeleteOrganizationRunnerGroup int

fun remove_runners ::
    "(group_call list \<Rightarrow> group_call \<Rightarrow> ('h, unit) answer) \<Rightarrow> int \<Rightarrow> int option list \<Rightarrow> group_call list \<Rightarrow> group_call list \<times> go_error option" where
  "remove_runners api gid [] h = (h, None)"
| "remove_runners api gid (r # rs) h =
     (let c = RemoveRunnerGroupRunners gid (WithDefault r 0) in
      case snd (snd (api h c)) of
        Some e \<Rightarrow> (h @ [c], Some e)
      | None \<Rightarrow> remove_runners api gid rs (h @ [c]))"

text \<open>The runners are the IDs of the list, which is read first. An error on the way is passed on as it is.\<close>

definition DeleteRunnerGroupForOrg ::
    "'h http_lib \<Rightarrow> ('h, int option list option) answer \<Rightarrow> (group_call list \<Rightarrow> group_call \<Rightarrow> ('h, unit) answer) \<Rightarrow> int \<Rightarrow>
     group_call list \<times> go_error option outcome" where
  "DeleteRunnerGroupForOrg lib runners api gid =
     (case runners of
        (result, response, Some e) \<Rightarrow> ([], Returned (handleErrorResponse lib None (Some e)))
      | (None, response, None) \<Rightarrow> ([], Panicked)
      | (Some rs, response, None) \<Rightarrow>
          (case remove_runners api gid rs [] of
             (h, Some e) \<Rightarrow> (h, Returned (handleErrorResponse lib None (Some e)))
           | (h, None) \<Rightarrow>
               (let c = DeleteOrganizationRunnerGroup gid in (h @ [c], Returned (snd (delegate lib (api h c)))))))"

section \<open>The wrapper does not change what an error means\<close>

lemma handle_nil [simp]: "handleErrorResponse lib response None = None"
  by (simp add: handleErrorResponse_def split: option.split)

lemma handle_no_response [simp]: "handleErrorResponse lib None err = err"
  by (simp add: handleErrorResponse_def)

lemma handle_Some: "\<exists>e'. handleErrorResponse lib response (Some e) = Some e'"
  by (simp add: handleErrorResponse_def split: option.split)

text \<open>What the library documents of a call: the error is the one of the response, or the response is fine and the error comes from elsewhere.\<close>

definition library_error :: "'h http_lib \<Rightarrow> 'h gh_response option \<Rightarrow> go_error option \<Rightarrow> bool" where
  "library_error lib response err \<longleftrightarrow>
     (case Option.bind response re_Response of
        None \<Rightarrow> True
      | Some h \<Rightarrow> (case err of None \<Rightarrow> True | Some e \<Rightarrow> hl_CheckResponse lib h = None \<or> hl_CheckResponse lib h = Some e))"

lemma handle_eq:
  "handleErrorResponse lib response (Some e) =
     Some (case Option.bind response re_Response of
             None \<Rightarrow> e
           | Some h \<Rightarrow> (case hl_CheckResponse lib h of None \<Rightarrow> e | Some g \<Rightarrow> JoinError [g, e]))"
  by (cases response) (simp_all add: handleErrorResponse_def getHTTPResponse_def split: option.split)

lemma handle_cases:
  assumes "library_error lib response err"
  shows "handleErrorResponse lib response err = err \<or>
         (\<exists>e. err = Some e \<and> handleErrorResponse lib response err = Some (JoinError [e, e]))"
  using assms by (cases err) (auto simp: library_error_def handle_eq split: option.splits)

text \<open>The wrapper is transparent. It reports an error exactly if the library does, the error asks for user action and waits for a change on GitHub exactly if the one of the library does, and a
  search for an error of any type finds the same.\<close>

lemma wrapper_transparent:
  assumes "library_error lib response err" and "\<And>es. f (JoinError es) = None"
  shows "(handleErrorResponse lib response err = None \<longleftrightarrow> err = None) \<and>
         RequiresUserAction (handleErrorResponse lib response err) = RequiresUserAction err \<and>
         AwaitsGitHubChange (handleErrorResponse lib response err) = AwaitsGitHubChange err \<and>
         Option.bind (handleErrorResponse lib response err) (errors_As f) = Option.bind err (errors_As f)"
  using handle_cases [OF assms(1)]
proof (elim disjE exE conjE)
  assume "handleErrorResponse lib response err = err"
  then show ?thesis by simp
next
  fix e
  assume h: "err = Some e" "handleErrorResponse lib response err = Some (JoinError [e, e])"
  have "errors_As f (JoinError [e, e]) = errors_As f e"
    using assms(2) by (simp add: errors_As.simps [of f "JoinError [e, e]"] split: option.split)
  with h show ?thesis by (simp add: RequiresUserAction_def AwaitsGitHubChange_def)
qed

text \<open>An error of the transport that gets tokens has no response, and is passed on as it is, though the status it carries is looked for in the code that follows.\<close>

lemma installation_error_kept: "handleErrorResponse lib None (Some e) = Some e"
  by simp

text \<open>A message that GitHub sent is in the joined error twice.\<close>

lemma message_twice:
  assumes "hl_CheckResponse lib h = Some e"
  shows "ErrorMessage (handleErrorResponse lib (Some \<lparr>re_Response = Some h, re_NextPage = n, re_LastPage = l\<rparr>) (Some e)) =
         replace_responses (unprocessable_entity_errors e @ unprocessable_entity_errors e) (error_text e @ [CHR 10] @ error_text e)"
  using assms by (simp add: handleErrorResponse_def getHTTPResponse_def ErrorMessage_def unprocessableEntityErrors_def errors_Join_def)

section \<open>All pages, or an error\<close>

definition page_at :: "'a list list \<Rightarrow> int \<Rightarrow> 'a list" where
  "page_at pages p = pages ! (nat (max p 1) - 1)"

text \<open>The response to page \<open>p\<close> of \<open>n\<close> as the library documents it: the last page has no further one.\<close>

definition page_links :: "nat \<Rightarrow> int \<Rightarrow> 'h gh_response \<Rightarrow> bool" where
  "page_links n p r \<longleftrightarrow>
     (if max p 1 < int n then re_NextPage r = max p 1 + 1 \<and> re_LastPage r = int n else re_NextPage r = 0 \<and> re_LastPage r = 0)"

definition paged_server :: "('h, 'a) paged_list \<Rightarrow> 'a list list \<Rightarrow> bool" where
  "paged_server ls pages \<longleftrightarrow>
     pages \<noteq> [] \<and>
     (\<forall>h p. 0 \<le> p \<and> p \<le> int (length pages) \<longrightarrow>
        (\<exists>result resp e. ls h p = (result, resp, Some e)) \<or>
        (\<exists>r. ls h p = (Some (page_at pages p), Some r, None) \<and> page_links (length pages) p r))"

lemma paged_server_cases:
  assumes "paged_server ls pages" and "0 \<le> p" and "p \<le> int (length pages)"
  obtains (error) result resp e where "ls h p = (result, resp, Some e)"
  | (page) r where "ls h p = (Some (page_at pages p), Some r, None)" and "page_links (length pages) p r"
  using assms unfolding paged_server_def by blast

text \<open>What is wanted of the list: all items, or an error and no items; and all of them if no request fails.\<close>

definition all_or_error :: "('h, 'a) paged_list \<Rightarrow> 'a list \<Rightarrow> 'a paged_outcome option \<Rightarrow> bool" where
  "all_or_error ls items out \<longleftrightarrow>
     (\<exists>h. out = Some (Returned (items, None), h) \<or>
       (\<exists>e. out = Some (Returned ([], Some e), h) \<and> (\<exists>h' p. snd (snd (ls h' p)) \<noteq> None)))"

text \<open>What the two loops have in common.\<close>

locale page_loop =
  fixes loop :: "('h, 'a) paged_list \<Rightarrow> int list \<Rightarrow> 'h gh_response \<Rightarrow> int \<Rightarrow> 'a list \<Rightarrow> 'a paged_outcome option"
  assumes loop_done: "\<not> (n \<noteq> 0 \<and> n \<le> re_LastPage r) \<Longrightarrow> loop ls h r n acc = Some (Returned (acc, None), h)"
    and loop_error: "n \<noteq> 0 \<Longrightarrow> n \<le> re_LastPage r \<Longrightarrow> ls h n = (result, resp, Some e) \<Longrightarrow> \<exists>e'. loop ls h r n acc = Some (Returned ([], Some e'), h @ [n])"
    and loop_next: "n \<noteq> 0 \<Longrightarrow> n \<le> re_LastPage r \<Longrightarrow> ls h n = (Some xs, Some r', None) \<Longrightarrow>
      loop ls h r n acc = loop ls (h @ [n]) r' (re_NextPage r') (acc @ xs)"
begin

lemma loop_pages:
  assumes "paged_server ls pages" and "page_links (length pages) p r" and "0 \<le> p" and "p \<le> int (length pages)"
    and "acc = concat (take (nat (max p 1)) pages)"
  shows "all_or_error ls (concat pages) (loop ls h r (re_NextPage r) acc)"
  using assms(2-)
proof (induction "length pages - nat (max p 1)" arbitrary: p r acc h rule: less_induct)
  case less
  show ?case
  proof (cases "max p 1 < int (length pages)")
    case False
    then have "nat (max p 1) \<ge> length pages" by linarith
    then have "acc = concat pages" using less.prems(4) by simp
    moreover have "re_NextPage r = 0" using less.prems(1) False by (simp add: page_links_def)
    ultimately show ?thesis by (simp add: loop_done all_or_error_def)
  next
    case True
    let ?q = "max p 1 + 1"
    have r: "re_NextPage r = ?q" "?q \<noteq> 0" "?q \<le> re_LastPage r" using less.prems(1) True by (auto simp: page_links_def)
    have q: "0 \<le> ?q" "?q \<le> int (length pages)" using True by auto
    show ?thesis
    proof (cases rule: paged_server_cases [OF assms(1) q, of h, case_names error page])
      case (error result resp e)
      then obtain e' where "loop ls h r ?q acc = Some (Returned ([], Some e'), h @ [?q])" using loop_error r by blast
      moreover have "snd (snd (ls h ?q)) \<noteq> None" using error by simp
      ultimately show ?thesis unfolding all_or_error_def r(1) by blast
    next
      case (page r')
      have i: "nat (max p 1) < length pages" "nat (max ?q 1) = Suc (nat (max p 1))" using True by auto
      then have "page_at pages ?q = pages ! nat (max p 1)" by (simp add: page_at_def)
      then have acc: "acc @ page_at pages ?q = concat (take (nat (max ?q 1)) pages)"
        using less.prems(4) i by (simp add: take_Suc_conv_app_nth)
      have m: "length pages - nat (max ?q 1) < length pages - nat (max p 1)" using i by linarith
      have "loop ls h r ?q acc = loop ls (h @ [?q]) r' (re_NextPage r') (acc @ page_at pages ?q)" using r(2,3) page(1) by (rule loop_next)
      then show ?thesis unfolding r(1) by (simp only:) (rule less.hyps [OF m page(2) q acc])
    qed
  qed
qed

lemma first_page:
  assumes "paged_server ls pages" and "ls [] 0 = (Some xs, Some r, None)"
  shows "all_or_error ls (concat pages) (loop ls [0] r (re_NextPage r) xs)"
proof -
  have p: "(0::int) \<le> 0" "0 \<le> int (length pages)" by simp_all
  have "xs = page_at pages 0 \<and> page_links (length pages) 0 r"
    using assms(2) by (cases rule: paged_server_cases [OF assms(1) p, of "[]"]) auto
  moreover have "page_at pages 0 = concat (take (nat (max 0 1)) pages)"
    using assms(1) by (cases pages) (auto simp: page_at_def paged_server_def)
  ultimately show ?thesis using loop_pages [OF assms(1) _ p] by blast
qed

end

interpretation installations: page_loop "installations_loop lib" for lib
proof
  show "\<not> (n \<noteq> 0 \<and> n \<le> re_LastPage r) \<Longrightarrow> installations_loop lib ls h r n acc = Some (Returned (acc, None), h)" for n r ls h acc
    by (subst installations_loop.simps) auto
  show "n \<noteq> 0 \<Longrightarrow> n \<le> re_LastPage r \<Longrightarrow> ls h n = (result, resp, Some e) \<Longrightarrow> \<exists>e'. installations_loop lib ls h r n acc = Some (Returned ([], Some e'), h @ [n])"
    for n r ls h result resp e acc
    by (subst installations_loop.simps) (simp add: handle_Some split: option.split)
  show "n \<noteq> 0 \<Longrightarrow> n \<le> re_LastPage r \<Longrightarrow> ls h n = (Some xs, Some r', None) \<Longrightarrow>
      installations_loop lib ls h r n acc = installations_loop lib ls (h @ [n]) r' (re_NextPage r') (acc @ xs)" for n r ls h xs r' acc
    by (subst installations_loop.simps) simp
qed

interpretation enabled: page_loop "enabled_repos_loop lib" for lib
proof
  show "\<not> (n \<noteq> 0 \<and> n \<le> re_LastPage r) \<Longrightarrow> enabled_repos_loop lib ls h r n acc = Some (Returned (acc, None), h)" for n r ls h acc
    by (subst enabled_repos_loop.simps) auto
  show "n \<noteq> 0 \<Longrightarrow> n \<le> re_LastPage r \<Longrightarrow> ls h n = (result, resp, Some e) \<Longrightarrow> \<exists>e'. enabled_repos_loop lib ls h r n acc = Some (Returned ([], Some e'), h @ [n])"
    for n r ls h result resp e acc
    by (subst enabled_repos_loop.simps) (simp add: handle_Some split: option.split)
  show "n \<noteq> 0 \<Longrightarrow> n \<le> re_LastPage r \<Longrightarrow> ls h n = (Some xs, Some r', None) \<Longrightarrow>
      enabled_repos_loop lib ls h r n acc = enabled_repos_loop lib ls (h @ [n]) r' (re_NextPage r') (acc @ xs)" for n r ls h xs r' acc
    by (subst enabled_repos_loop.simps) simp
qed

text \<open>C23: the two lists that are read page by page are complete. For a server with any number of pages, of which any request may fail, the calls return; they return the items of all pages in order,
  or an error and nothing, and an error only if a request can fail.\<close>

theorem paged_lists_complete:
  assumes "paged_server ls pages"
  shows "all_or_error ls (concat pages) (wrapper_GetGitHubAppsInstallations lib ls) \<and>
         all_or_error ls (concat pages) (GetActionsEnabledRepositoriesForOrg lib ls)"
proof -
  have p: "(0::int) \<le> 0" "0 \<le> int (length pages)" by simp_all
  show ?thesis
  proof (cases rule: paged_server_cases [OF assms p, of "[]", case_names error page])
    case (error result resp e)
    then have "snd (snd (ls [] 0)) \<noteq> None" by simp
    moreover obtain e' where e': "handleErrorResponse lib resp (Some e) = Some e'" using handle_Some by blast
    have "wrapper_GetGitHubAppsInstallations lib ls = Some (Returned ([], Some e'), [0])" "GetActionsEnabledRepositoriesForOrg lib ls = Some (Returned ([], Some e'), [0])"
      using error e' by (auto simp: wrapper_GetGitHubAppsInstallations_def GetActionsEnabledRepositoriesForOrg_def split: option.split)
    ultimately show ?thesis unfolding all_or_error_def by blast
  next
    case (page r)
    then show ?thesis using installations.first_page [OF assms page(1)] enabled.first_page [OF assms page(1)]
      by (simp add: wrapper_GetGitHubAppsInstallations_def GetActionsEnabledRepositoriesForOrg_def)
  qed
qed

definition ex_http_lib :: "nat http_lib" where
  "ex_http_lib = \<lparr>hl_CheckResponse = (\<lambda>status. if status = 422 then Some (GitHubError (Some \<lparr>er_StatusCode = Some 422, er_Message = [], er_Errors = [], er_text = []\<rparr>)) else None),
     hl_HTTPError = (\<lambda>e. None)\<rparr>"

text \<open>An example: three pages of one app each.\<close>

definition ex_pages :: "nat list list" where
  "ex_pages = [[1], [2], [3]]"

definition ex_paged :: "(nat, nat) paged_list" where
  "ex_paged h p =
     (Some (page_at ex_pages p),
      Some \<lparr>re_Response = None, re_NextPage = (if max p 1 < 3 then max p 1 + 1 else 0), re_LastPage = (if max p 1 < 3 then 3 else 0)\<rparr>, None)"

theorem paged_lists_complete_witness:
  "\<exists>h. wrapper_GetGitHubAppsInstallations ex_http_lib ex_paged = Some (Returned ([1, 2, 3], None), h)"
proof -
  have "paged_server ex_paged ex_pages" by (simp add: paged_server_def ex_paged_def page_links_def ex_pages_def)
  from paged_lists_complete [OF this, of ex_http_lib] show ?thesis by (simp add: all_or_error_def ex_paged_def ex_pages_def)
qed

lemma wrapper_transparent_example:
  "RequiresUserAction (handleErrorResponse ex_http_lib (Some \<lparr>re_Response = Some 422, re_NextPage = 0, re_LastPage = 0\<rparr>) (hl_CheckResponse ex_http_lib 422))"
proof -
  have "library_error ex_http_lib (Some \<lparr>re_Response = Some 422, re_NextPage = 0, re_LastPage = 0\<rparr>) (hl_CheckResponse ex_http_lib 422)"
    by (simp add: library_error_def ex_http_lib_def)
  from wrapper_transparent [OF this, of is_github] show ?thesis
    by (simp add: is_github_def ex_http_lib_def RequiresUserAction_def requires_user_action.simps isUnprocessableEntity_def StatusUnprocessableEntity_def)
qed

section \<open>Inherited rulesets\<close>

text \<open>The ruleset on GitHub that a call changes.\<close>

fun touched :: "sync_call \<Rightarrow> int option" where
  "touched (CreateCall g d) = None"
| "touched (UpdateCall i g d) = Some i"
| "touched (DeleteCall i n) = Some i"

lemma listed_own:
  assumes "org_rulesets_listed lib ans = Inr listed" and "map_get (rulesets_by_name listed) n = Some g"
  shows "(Some RulesetSourceTypeOrganization, g) \<in> set (fst ans)"
proof -
  have "\<exists>x \<in> set (filter (\<lambda>g. gs_Name g \<noteq> []) (List.map_filter (\<lambda>x. x) listed)). gs_Name x = n \<and> x = g"
    using put_all_get_in assms(2) unfolding rulesets_by_name_def by fastforce
  then have "Some g \<in> set listed" by (auto simp: List.map_filter_def)
  then show ?thesis using assms(1)
    by (auto simp: org_rulesets_listed_def GetAllOrganizationRulesets_def as_result_def split: prod.splits option.splits)
qed

text \<open>C29: the reconciler of an organization leaves the rulesets alone that the organization inherits from its enterprise, whatever their names are and whatever the resource asks for: the rulesets it
  updates and deletes are its own.\<close>

theorem inherited_rulesets_untouched:
  assumes "range_order ord" and "api_List api = org_rulesets_listed lib ans"
    and "\<And>h i g. api_Get api h i = Inr g \<Longrightarrow> gs_ID g = Some i"
    and "\<And>x y. x \<in> set (fst ans) \<Longrightarrow> y \<in> set (fst ans) \<Longrightarrow> gs_ID (snd x) = gs_ID (snd y) \<Longrightarrow> gs_ID (snd x) \<noteq> None \<Longrightarrow> fst x = fst y"
    and "c \<in> set (fst (org_reconcileRulesets ord reader deepEq plan refs inline cl reviewers api r))" and "touched c = Some i"
    and "(source, g) \<in> set (fst ans)" and "gs_ID g = Some i"
  shows "source = Some RulesetSourceTypeOrganization"
proof -
  obtain ds st e where s: "Sync ord (org_target api) ds (org_options cl reviewers) r = (st, e)" and c: "c \<in> set (st_calls st)"
    using assms(5) by (auto simp: org_reconcileRulesets_def split: if_splits sum.splits prod.splits)
  obtain listed where l: "tg_List (org_target api) = Inr listed"
    using s c by (cases "tg_List (org_target api)") (auto simp: Sync_def)
  have ok: "call_ok (org_target api) (org_options cl reviewers) (rulesets_by_name listed) ds c"
    by (rule sync_opts.Sync_safe [OF caller_opts [of _ cl reviewers] s l assms(1) c]) simp
  have "\<exists>x n. map_get (rulesets_by_name listed) n = Some x \<and> gs_ID x = Some i"
  proof (cases c)
    case (UpdateCall j g' d)
    with ok obtain x k h full n where "map_get (rulesets_by_name listed) n = Some x" "gs_ID x = Some k"
      "tg_Get (org_target api) h k = Inr full" "gs_ID full = Some j" by auto
    then show ?thesis using assms(3) [of h k full] assms(6) UpdateCall by (auto simp: org_target_def ruleset_target_def)
  qed (use ok assms(6) in auto)
  then obtain x n where x: "map_get (rulesets_by_name listed) n = Some x" "gs_ID x = Some i" by blast
  have "(Some RulesetSourceTypeOrganization, x) \<in> set (fst ans)"
    using listed_own [of lib ans listed n x] l x(1) assms(2) by (simp add: org_target_def ruleset_target_def)
  then show ?thesis using assms(4) [of "(Some RulesetSourceTypeOrganization, x)" "(source, g)"] assms(7,8) x(2) by simp
qed

text \<open>An example: the organization has a ruleset of its own that nobody asks for, and one of the enterprise.\<close>

definition ex_own_and_inherited :: "(nat, (string option \<times> gh_ruleset) list) answer" where
  "ex_own_and_inherited = ([(Some ''Organization'', ex_stored 3 ''old''), (Some ''Enterprise'', ex_stored 4 ''policy'')], None, None)"

definition ex_org_api :: ruleset_api where
  "ex_org_api = (store_api [ex_stored 3 ''old''])\<lparr>api_List := org_rulesets_listed ex_http_lib ex_own_and_inherited\<rparr>"

theorem inherited_rulesets_untouched_witness:
  "fst (org_reconcileRulesets (\<lambda>m. m) ex_reader (\<lambda>a b. a = b) ''enterprise'' [] [] ex_id_client True ex_org_api ex_resolver) = [DeleteCall 3 ''old''] \<and>
   fst (fst ex_own_and_inherited ! 0) = Some RulesetSourceTypeOrganization"
proof -
  let ?calls = "fst (org_reconcileRulesets (\<lambda>m. m) ex_reader (\<lambda>a b. a = b) ''enterprise'' [] [] ex_id_client True ex_org_api ex_resolver)"
  have l: "api_List ex_org_api = org_rulesets_listed ex_http_lib ex_own_and_inherited" by (simp add: ex_org_api_def)
  have c: "?calls = [DeleteCall 3 ''old'']" by code_simp
  have g: "api_Get ex_org_api h i = Inr g \<Longrightarrow> gs_ID g = Some i" for h i g
    by (auto simp: ex_org_api_def store_api_def store_get_def find_Some_iff split: option.splits)
  have u: "fst x = fst y" if "x \<in> set (fst ex_own_and_inherited)" "y \<in> set (fst ex_own_and_inherited)" "gs_ID (snd x) = gs_ID (snd y)" for x y
    using that by (auto simp: ex_own_and_inherited_def ex_stored_def)
  have d: "DeleteCall 3 ''old'' \<in> set ?calls" unfolding c by simp
  have ro: "range_order (\<lambda>m :: (string \<times> gh_ruleset) list. m)" by (simp add: range_order_def)
  have "Some ''Organization'' = Some RulesetSourceTypeOrganization"
  proof (rule inherited_rulesets_untouched [OF ro l _ _ d, where i = 3 and g = "ex_stored 3 ''old''"])
    show "api_Get ex_org_api h i = Inr g \<Longrightarrow> gs_ID g = Some i" for h i g by (rule g)
    show "x \<in> set (fst ex_own_and_inherited) \<Longrightarrow> y \<in> set (fst ex_own_and_inherited) \<Longrightarrow> gs_ID (snd x) = gs_ID (snd y) \<Longrightarrow>
      gs_ID (snd x) \<noteq> None \<Longrightarrow> fst x = fst y" for x y by (rule u)
  qed (simp_all add: ex_own_and_inherited_def ex_stored_def)
  with c show ?thesis by (simp add: ex_own_and_inherited_def)
qed

section \<open>Roles and runner groups\<close>

text \<open>The second look-up of a role finds the role it is made for, if names are unique and every role has a name and an ID; a role without a name before it would be a panic.\<close>

lemma role_id_loop_finds:
  assumes "r \<in> set rs" and "distinct (map ne_Name rs)" and "\<forall>x \<in> set rs. ne_Name x \<noteq> None" and "ne_Name r = Some n" and "ne_ID r = Some i"
  shows "role_id_loop rs n = Returned i"
  using assms(1-3)
proof (induction rs)
  case (Cons x xs)
  then show ?case using assms(4,5) by (cases "x = r") (auto simp: image_iff split: option.split)
qed simp

lemma assigned_teams_of_role:
  assumes "wrapper_GetAllOrgRoles lib ans = Returned (Inr rs)" and "r \<in> set rs" and "distinct (map ne_Name rs)" and "\<forall>x \<in> set rs. ne_Name x \<noteq> None"
    and "ne_Name r = Some n" and "ne_ID r = Some i" and "i \<noteq> 0" and "teamsOf i = (slugs, resp, None)"
  shows "GetAllTeamsAssignedToOrgRole lib ans teamsOf org n = Returned (Inr (map (\<lambda>s. WithDefault s []) slugs))"
proof -
  obtain resp' where "ans = (Some rs, resp', None)"
    using assms(1) by (auto simp: wrapper_GetAllOrgRoles_def as_result_def handle_eq split: prod.splits option.splits)
  then show ?thesis using role_id_loop_finds [OF assms(2-6)] assms(7,8)
    by (simp add: GetAllTeamsAssignedToOrgRole_def getRoleIDForRoleName_def as_result_def delegate_def)
qed

lemma remove_runners_calls:
  "remove_runners api gid rs h = (h', e) \<Longrightarrow>
     \<exists>k \<le> length rs. h' = h @ map (\<lambda>r. RemoveRunnerGroupRunners gid (WithDefault r 0)) (take k rs) \<and> (e = None \<longrightarrow> k = length rs)"
proof (induction api gid rs h rule: remove_runners.induct)
  case (2 api gid r rs h)
  let ?c = "RemoveRunnerGroupRunners gid (WithDefault r 0)"
  show ?case
  proof (cases "snd (snd (api h ?c))")
    case None
    then obtain k where "k \<le> length rs" "h' = (h @ [?c]) @ map (\<lambda>r. RemoveRunnerGroupRunners gid (WithDefault r 0)) (take k rs)" "e = None \<longrightarrow> k = length rs"
      using 2 by (auto simp: Let_def)
    then show ?thesis by (intro exI [of _ "Suc k"]) simp
  next
    case (Some x)
    then show ?thesis using 2(2) by (intro exI [of _ 1]) (auto simp: Let_def)
  qed
qed simp

text \<open>A runner group is deleted last, when every runner that it was found to have has been removed from it; otherwise the call is an error.\<close>

lemma runner_group_deleted_last:
  assumes "DeleteRunnerGroupForOrg lib (Some rs, resp, None) api gid = (calls, out)" and "DeleteOrganizationRunnerGroup gid \<in> set calls \<or> out = Returned None"
  shows "calls = map (\<lambda>r. RemoveRunnerGroupRunners gid (WithDefault r 0)) rs @ [DeleteOrganizationRunnerGroup gid]"
proof -
  obtain h e where r: "remove_runners api gid rs [] = (h, e)" by fastforce
  then obtain k where "h = map (\<lambda>r. RemoveRunnerGroupRunners gid (WithDefault r 0)) (take k rs)" "e = None \<longrightarrow> k = length rs"
    using remove_runners_calls by fastforce
  then show ?thesis using assms r by (cases e) (auto simp: DeleteRunnerGroupForOrg_def Let_def)
qed

end
