(* ===== verification/RepoSettings.thy ===== *)
theory RepoSettings
  imports Errors "HOL-Library.Char_ord" "HOL-Library.List_Lexorder" "HOL-Library.Sublist"
begin

text \<open>
  The settings of a repository: \<^verbatim>\<open>rec_repo.go\<close>, \<^verbatim>\<open>rec_topics.go\<close> and the deletion in \<^verbatim>\<open>reconciler.go\<close> under \<^verbatim>\<open>internal/reconciler/reporec\<close>, with
  \<^verbatim>\<open>mapper/github_repo_mapper.go\<close>. GitHub and Kubernetes answer as a function of the calls made so far; the time since the creation of a
  repository and the conversion to kebab case (a library) are arguments.
\<close>

section \<open>Data\<close>

record repo_spec =
  rp_Name :: string
  rp_Visibility :: string
  rp_Archived :: "bool option"
  rp_HasIssues :: "bool option"
  rp_HasProjects :: "bool option"
  rp_HasWiki :: "bool option"
  rp_HasDownloads :: "bool option"
  rp_IsTemplate :: "bool option"
  rp_AllowedMergeStrategies :: "string list"
  rp_DeleteBranchOnMerge :: "bool option"
  rp_MergeCommitTitle :: string
  rp_MergeCommitMessage :: string
  rp_Website :: string
  rp_Description :: string
  rp_Topics :: "string list"
  rp_DefaultBranch :: string
  rp_OrganizationRef :: string

record gh_repo =
  gr_ID :: "int option"
  gr_Name :: "string option"
  gr_Visibility :: "string option"
  gr_Archived :: "bool option"
  gr_HasIssues :: "bool option"
  gr_HasProjects :: "bool option"
  gr_HasWiki :: "bool option"
  gr_HasDownloads :: "bool option"
  gr_IsTemplate :: "bool option"
  gr_AllowSquashMerge :: "bool option"
  gr_AllowRebaseMerge :: "bool option"
  gr_AllowMergeCommit :: "bool option"
  gr_DeleteBranchOnMerge :: "bool option"
  gr_MergeCommitTitle :: "string option"
  gr_MergeCommitMessage :: "string option"
  gr_Homepage :: "string option"
  gr_Description :: "string option"
  gr_DefaultBranch :: "string option"
  gr_CreatedAt :: "int option"

definition empty_repo :: gh_repo where
  "empty_repo =
     \<lparr>gr_ID = None, gr_Name = None, gr_Visibility = None, gr_Archived = None, gr_HasIssues = None, gr_HasProjects = None, gr_HasWiki = None,
      gr_HasDownloads = None, gr_IsTemplate = None, gr_AllowSquashMerge = None, gr_AllowRebaseMerge = None, gr_AllowMergeCommit = None,
      gr_DeleteBranchOnMerge = None, gr_MergeCommitTitle = None, gr_MergeCommitMessage = None, gr_Homepage = None, gr_Description = None,
      gr_DefaultBranch = None, gr_CreatedAt = None\<rparr>"

text \<open>The request to create a repository.\<close>

record create_repo =
  cr_Name :: string
  cr_Visibility :: "string option"
  cr_HasIssues :: "bool option"
  cr_HasProjects :: "bool option"
  cr_HasWiki :: "bool option"
  cr_IsTemplate :: "bool option"
  cr_AllowSquashMerge :: "bool option"
  cr_AllowRebaseMerge :: "bool option"
  cr_AllowMergeCommit :: "bool option"
  cr_DeleteBranchOnMerge :: "bool option"
  cr_MergeCommitTitle :: "string option"
  cr_MergeCommitMessage :: "string option"
  cr_Homepage :: "string option"
  cr_Description :: "string option"
  cr_AutoInit :: "bool option"

section \<open>The mapper\<close>

definition getMergeStrategy :: "repo_spec \<Rightarrow> string \<Rightarrow> bool option" where
  "getMergeStrategy repo strategy = Some (List.member (rp_AllowedMergeStrategies repo) strategy)"

definition RepoToGithubRepo :: "repo_spec \<Rightarrow> gh_repo" where
  "RepoToGithubRepo repo = empty_repo
     \<lparr>gr_Name := Some (rp_Name repo), gr_Visibility := Some (rp_Visibility repo), gr_Archived := rp_Archived repo,
      gr_HasIssues := rp_HasIssues repo, gr_HasProjects := rp_HasProjects repo, gr_HasWiki := rp_HasWiki repo,
      gr_HasDownloads := rp_HasDownloads repo, gr_IsTemplate := rp_IsTemplate repo,
      gr_AllowSquashMerge := getMergeStrategy repo ''squash'', gr_AllowRebaseMerge := getMergeStrategy repo ''rebase'',
      gr_AllowMergeCommit := getMergeStrategy repo ''merge'', gr_DeleteBranchOnMerge := rp_DeleteBranchOnMerge repo,
      gr_MergeCommitTitle := Some (rp_MergeCommitTitle repo), gr_MergeCommitMessage := Some (rp_MergeCommitMessage repo),
      gr_Homepage := WithDefaultAsPtr (Some (rp_Website repo)) [], gr_Description := WithDefaultAsPtr (Some (rp_Description repo)) [],
      gr_DefaultBranch := Some (rp_DefaultBranch repo)\<rparr>"

definition RepoToGithubCreateRepositoryRequest :: "repo_spec \<Rightarrow> create_repo" where
  "RepoToGithubCreateRepositoryRequest repo =
     \<lparr>cr_Name = rp_Name repo, cr_Visibility = Some (rp_Visibility repo), cr_HasIssues = rp_HasIssues repo,
      cr_HasProjects = rp_HasProjects repo, cr_HasWiki = rp_HasWiki repo, cr_IsTemplate = rp_IsTemplate repo,
      cr_AllowSquashMerge = getMergeStrategy repo ''squash'', cr_AllowRebaseMerge = getMergeStrategy repo ''rebase'',
      cr_AllowMergeCommit = getMergeStrategy repo ''merge'', cr_DeleteBranchOnMerge = rp_DeleteBranchOnMerge repo,
      cr_MergeCommitTitle = Some (rp_MergeCommitTitle repo), cr_MergeCommitMessage = Some (rp_MergeCommitMessage repo),
      cr_Homepage = WithDefaultAsPtr (Some (rp_Website repo)) [], cr_Description = WithDefaultAsPtr (Some (rp_Description repo)) [],
      cr_AutoInit = None\<rparr>"

definition RepoStaysArchived :: "repo_spec \<Rightarrow> gh_repo \<Rightarrow> bool" where
  "RepoStaysArchived repo g =
     (let wantArchived = (case rp_Archived repo of None \<Rightarrow> False | Some b \<Rightarrow> b); archived = WithDefault (gr_Archived g) False in
      archived \<and> archived = wantArchived)"

text \<open>A field of GitHub differs from what is wanted if it is missing or has another value.\<close>

definition field_differs :: "'a option \<Rightarrow> 'a \<Rightarrow> bool" where
  "field_differs g want = (case g of None \<Rightarrow> True | Some v \<Rightarrow> v \<noteq> want)"

definition RepoDiffers :: "repo_spec \<Rightarrow> gh_repo \<Rightarrow> bool" where
  "RepoDiffers repo g =
     (if gr_Name g = None then True
      else if gr_Name g \<noteq> Some (rp_Name repo) then True
      else if (case gr_Archived g of
                 None \<Rightarrow> WithDefault (rp_Archived repo) False
               | Some a \<Rightarrow> WithDefault (rp_Archived repo) False \<noteq> a) then True
      else if field_differs (gr_Visibility g) (rp_Visibility repo) then True
      else if field_differs (gr_HasIssues g) (WithDefault (rp_HasIssues repo) True) then True
      else if field_differs (gr_HasProjects g) (WithDefault (rp_HasProjects repo) False) then True
      else if field_differs (gr_HasWiki g) (WithDefault (rp_HasWiki repo) False) then True
      else if field_differs (gr_HasDownloads g) (WithDefault (rp_HasDownloads repo) False) then True
      else if field_differs (gr_IsTemplate g) (WithDefault (rp_IsTemplate repo) False) then True
      else if field_differs (gr_AllowSquashMerge g) (the (getMergeStrategy repo ''squash'')) then True
      else if field_differs (gr_AllowRebaseMerge g) (the (getMergeStrategy repo ''rebase'')) then True
      else if field_differs (gr_AllowMergeCommit g) (the (getMergeStrategy repo ''merge'')) then True
      else if field_differs (gr_DeleteBranchOnMerge g) (WithDefault (rp_DeleteBranchOnMerge repo) True) then True
      else if field_differs (gr_MergeCommitTitle g) (rp_MergeCommitTitle repo) then True
      else if field_differs (gr_MergeCommitMessage g) (rp_MergeCommitMessage repo) then True
      else if field_differs (gr_Homepage g) (rp_Website repo) then True
      else if WithDefault (gr_Description g) [] \<noteq> rp_Description repo then True
      else if field_differs (gr_DefaultBranch g) (rp_DefaultBranch repo) then True
      else False)"

section \<open>The reconciler (rec\_repo.go)\<close>

datatype repo_call =
    CreateRepository string create_repo
  | EditRepository string string gh_repo
  | DeleteRepository string string
  | TriggerOrganization string
  | ReplaceAllTopics string string "string list"

text \<open>
  Lookups return nil or a repository, or an error. The error of \<^verbatim>\<open>GetBranch\<close> is all that is used of it. \<open>rg_Since\<close> is the time since the
  creation of a repository. A panic ends the process; as a value it is \<open>rg_Crash\<close>, about which nothing is assumed.
\<close>

record repo_api =
  rg_GetRepositoryByID :: "repo_call list \<Rightarrow> int \<Rightarrow> (go_error, gh_repo option) result"
  rg_GetRepository :: "repo_call list \<Rightarrow> string \<Rightarrow> string \<Rightarrow> (go_error, gh_repo option) result"
  rg_CreateRepository :: "repo_call list \<Rightarrow> string \<Rightarrow> create_repo \<Rightarrow> (go_error, gh_repo option) result"
  rg_EditRepository :: "repo_call list \<Rightarrow> string \<Rightarrow> string \<Rightarrow> gh_repo \<Rightarrow> (go_error, gh_repo option) result"
  rg_DeleteRepository :: "repo_call list \<Rightarrow> string \<Rightarrow> string \<Rightarrow> go_error option"
  rg_GetBranch :: "repo_call list \<Rightarrow> string \<Rightarrow> string \<Rightarrow> string \<Rightarrow> go_error option"
  rg_Apply :: "repo_call list \<Rightarrow> string \<Rightarrow> go_error option"
  rg_GetAllTopics :: "repo_call list \<Rightarrow> string \<Rightarrow> string \<Rightarrow> (go_error, string list) result"
  rg_ReplaceAllTopics :: "repo_call list \<Rightarrow> string \<Rightarrow> string \<Rightarrow> string list \<Rightarrow> go_error option"
  rg_Since :: "repo_call list \<Rightarrow> int \<Rightarrow> int"
  rg_Crash :: go_error

record repo_state =
  rx_Owner :: string
  rx_Name :: string
  rx_ID :: "int option"
  rx_StatusID :: "int option"
  rx_calls :: "repo_call list"

definition repo_called :: "repo_call \<Rightarrow> repo_state \<Rightarrow> repo_state" where
  "repo_called c st = st\<lparr>rx_calls := rx_calls st @ [c]\<rparr>"

definition updateRecFieldsFromGitHub :: "gh_repo option \<Rightarrow> repo_state \<Rightarrow> (go_error, repo_state) result" where
  "updateRecFieldsFromGitHub g st =
     (case g of
        None \<Rightarrow> Inl (PlainError ''unable to update reconciler fields with nil data'')
      | Some r \<Rightarrow>
          (case (gr_ID r, gr_Name r) of
             (Some i, Some n) \<Rightarrow> Inr (st\<lparr>rx_Name := n, rx_ID := Some i, rx_StatusID := Some i\<rparr>)
           | _ \<Rightarrow> Inl (PlainError ''unable to update reconciler fields with nil data'')))"

definition status_is :: "int list \<Rightarrow> go_error \<Rightarrow> bool" where
  "status_is codes e =
     (case errors_As is_github e of
        Some (Some g) \<Rightarrow> (case er_StatusCode g of None \<Rightarrow> False | Some c \<Rightarrow> List.member codes c)
      | _ \<Rightarrow> False)"

text \<open>The call that makes the parent organization reconcile; its error is only logged.\<close>

definition triggerOrganizationReconciliation :: "repo_spec \<Rightarrow> repo_state \<Rightarrow> repo_state" where
  "triggerOrganizationReconciliation spec st =
     (if rp_OrganizationRef spec = [] then st else repo_called (TriggerOrganization (rp_OrganizationRef spec)) st)"

text \<open>First by the ID in the status; if that gives nothing, by name.\<close>

definition find_repo :: "repo_api \<Rightarrow> repo_state \<Rightarrow> (go_error, gh_repo option) result" where
  "find_repo api st =
     (let by_name = rg_GetRepository api (rx_calls st) (rx_Owner st) (rx_Name st) in
      case rx_StatusID st of
        None \<Rightarrow> by_name
      | Some i \<Rightarrow>
          (case rg_GetRepositoryByID api (rx_calls st) i of
             Inr (Some g) \<Rightarrow> Inr (Some g)
           | _ \<Rightarrow> by_name))"

definition getRepo :: "repo_api \<Rightarrow> repo_spec \<Rightarrow> repo_state \<Rightarrow> repo_state \<times> (go_error, gh_repo option) result" where
  "getRepo api spec st =
     (case (case find_repo api st of
              Inr g \<Rightarrow> (st, Inr g)
            | Inl e \<Rightarrow>
                (case has_status 404 e of
                   None \<Rightarrow> (st, Inl (rg_Crash api))
                 | Some False \<Rightarrow> (st, Inl e)
                 | Some True \<Rightarrow>
                     (let q = (RepoToGithubCreateRepositoryRequest spec)\<lparr>cr_AutoInit := Some True\<rparr>;
                          st1 = repo_called (CreateRepository (rx_Owner st) q) st in
                      case rg_CreateRepository api (rx_calls st) (rx_Owner st) q of
                        Inl e \<Rightarrow> (st1, Inl e)
                      | Inr g \<Rightarrow> (triggerOrganizationReconciliation spec st1, Inr g)))) of
        (st1, Inl e) \<Rightarrow> (st1, Inl e)
      | (st1, Inr g) \<Rightarrow>
          (case updateRecFieldsFromGitHub g st1 of Inl e \<Rightarrow> (st1, Inl e) | Inr st2 \<Rightarrow> (st2, Inr g)))"

definition ensureDefaultBranchExists :: "repo_api \<Rightarrow> repo_spec \<Rightarrow> repo_state \<Rightarrow> gh_repo \<Rightarrow> go_error option" where
  "ensureDefaultBranchExists api spec st g =
     (if rp_DefaultBranch spec = [] \<or> WithDefault (gr_DefaultBranch g) [] = rp_DefaultBranch spec then None
      else
        (case rg_GetBranch api (rx_calls st) (rx_Owner st) (rx_Name st) (rp_DefaultBranch spec) of
           None \<Rightarrow> None
         | Some e \<Rightarrow>
             (if status_is [404, 301] e then Some (DefaultBranchNotFoundError (rx_Owner st) (rx_Name st) (rp_DefaultBranch spec))
              else Some e)))"

definition updateRepo :: "repo_api \<Rightarrow> repo_spec \<Rightarrow> repo_state \<Rightarrow> repo_state \<times> (go_error, gh_repo option) result" where
  "updateRepo api spec st =
     (let st1 = repo_called (EditRepository (rx_Owner st) (rx_Name st) (RepoToGithubRepo spec)) st in
      case rg_EditRepository api (rx_calls st) (rx_Owner st) (rx_Name st) (RepoToGithubRepo spec) of
        Inl e \<Rightarrow> (st1, Inl e)
      | Inr g \<Rightarrow>
          (case updateRecFieldsFromGitHub g st1 of Inl e \<Rightarrow> (st1, Inl e) | Inr st2 \<Rightarrow> (st2, Inr g)))"

text \<open>One minute, in nanoseconds.\<close>

definition newRepositoryGracePeriod :: int where
  "newRepositoryGracePeriod = 60000000000"

definition ArchivedMessage :: string where
  "ArchivedMessage = ''repository is archived (read-only); settings are not reconciled until it is unarchived''"

definition reconcileRepository :: "repo_api \<Rightarrow> repo_spec \<Rightarrow> repo_state \<Rightarrow> repo_state \<times> go_error option" where
  "reconcileRepository api spec st =
     (case getRepo api spec st of
        (st1, Inl e) \<Rightarrow> (st1, Some e)
      | (st1, Inr None) \<Rightarrow> (st1, Some (PlainError ''unexpected nil repository after ensuring existence''))
      | (st1, Inr (Some g)) \<Rightarrow>
          (if RepoStaysArchived spec g then (st1, Some (StopReconciliation ArchivedMessage))
           else if \<not> RepoDiffers spec g then (st1, None)
           else
             (case ensureDefaultBranchExists api spec st1 g of
                Some e \<Rightarrow> (st1, Some e)
              | None \<Rightarrow>
                  (case updateRepo api spec st1 of
                     (st2, Inl e) \<Rightarrow>
                       (st2, Some (case gr_CreatedAt g of
                           None \<Rightarrow> e
                         | Some t \<Rightarrow> if rg_Since api (rx_calls st2) t < newRepositoryGracePeriod then NewRepositoryUpdateError e else e))
                   | (st2, Inr g2) \<Rightarrow>
                       (st2, if WithDefault (case g2 of None \<Rightarrow> None | Some r \<Rightarrow> gr_Archived r) False
                             then Some (StopReconciliation ArchivedMessage) else None)))))"

section \<open>Deletion (reconciler.go)\<close>

datatype finalize_mode = ModeUnset | ModeIgnore | ModeDelete | ModeArchive | ModeOther string

definition deleteRepository :: "repo_api \<Rightarrow> repo_state \<Rightarrow> repo_state \<times> go_error option" where
  "deleteRepository api st =
     (repo_called (DeleteRepository (rx_Owner st) (rx_Name st)) st,
      case rg_DeleteRepository api (rx_calls st) (rx_Owner st) (rx_Name st) of
        None \<Rightarrow> None
      | Some e \<Rightarrow> if status_is [404] e then None else Some e)"

text \<open>A nil repository counts as not archived.\<close>

definition archiveRepository :: "repo_api \<Rightarrow> repo_state \<Rightarrow> repo_state \<times> go_error option" where
  "archiveRepository api st =
     (case rg_GetRepository api (rx_calls st) (rx_Owner st) (rx_Name st) of
        Inl e \<Rightarrow> (st, Some e)
      | Inr g \<Rightarrow>
          (if WithDefault (case g of None \<Rightarrow> None | Some r \<Rightarrow> gr_Archived r) False then (st, None)
           else
             (let q = empty_repo\<lparr>gr_Archived := Some True\<rparr> in
              (repo_called (EditRepository (rx_Owner st) (rx_Name st) q) st,
               case rg_EditRepository api (rx_calls st) (rx_Owner st) (rx_Name st) q of Inl e \<Rightarrow> Some e | Inr _ \<Rightarrow> None))))"

definition repo_ReconcileDeletion :: "repo_api \<Rightarrow> finalize_mode \<Rightarrow> repo_state \<Rightarrow> repo_state \<times> go_error option" where
  "repo_ReconcileDeletion api mode st =
     (case mode of
        ModeUnset \<Rightarrow> (st, None)
      | ModeIgnore \<Rightarrow> (st, None)
      | ModeDelete \<Rightarrow> deleteRepository api st
      | ModeArchive \<Rightarrow> archiveRepository api st
      | ModeOther m \<Rightarrow> (st, Some (PlainError (''invalid finalize mode: '' @ m))))"

section \<open>Topics (rec\_topics.go)\<close>

definition uniqueKebabCasedSorted :: "(string \<Rightarrow> string) \<Rightarrow> string list \<Rightarrow> string list" where
  "uniqueKebabCasedSorted kebab input = sort (remdups (map kebab input))"

definition uniqueKebabCasedSortedTopics :: "(string \<Rightarrow> string) \<Rightarrow> repo_spec \<Rightarrow> string list" where
  "uniqueKebabCasedSortedTopics kebab spec = uniqueKebabCasedSorted kebab (filter (\<lambda>t. t \<noteq> []) (rp_Topics spec))"

definition reconcileTopics :: "(string \<Rightarrow> string) \<Rightarrow> repo_api \<Rightarrow> repo_spec \<Rightarrow> repo_state \<Rightarrow> repo_state \<times> go_error option" where
  "reconcileTopics kebab api spec st =
     (case rg_GetAllTopics api (rx_calls st) (rx_Owner st) (rx_Name st) of
        Inl e \<Rightarrow> (st, Some e)
      | Inr current \<Rightarrow>
          (let desired = uniqueKebabCasedSortedTopics kebab spec in
           if uniqueKebabCasedSorted kebab current \<noteq> desired
           then (repo_called (ReplaceAllTopics (rx_Owner st) (rx_Name st) desired) st,
                 rg_ReplaceAllTopics api (rx_calls st) (rx_Owner st) (rx_Name st) desired)
           else (st, None)))"

text \<open>Topics that are set are not set again, if converting twice is converting once.\<close>

lemma topics_settled:
  assumes "\<And>t. kebab (kebab t) = kebab t"
  shows "uniqueKebabCasedSorted kebab (uniqueKebabCasedSortedTopics kebab spec) = uniqueKebabCasedSortedTopics kebab spec"
proof -
  let ?ts = "filter (\<lambda>t. t \<noteq> []) (rp_Topics spec)"
  have "map kebab (sort (remdups (map kebab ?ts))) = sort (remdups (map kebab ?ts))"
    by (rule map_idI) (use assms in auto)
  then show ?thesis
    by (simp add: uniqueKebabCasedSorted_def uniqueKebabCasedSortedTopics_def sorted_sort_id distinct_remdups_id)
qed

section \<open>Safety\<close>

text \<open>The calls of a run, whatever GitHub answers.\<close>

definition repo_created_calls :: "repo_spec \<Rightarrow> repo_state \<Rightarrow> repo_call list" where
  "repo_created_calls spec st =
     CreateRepository (rx_Owner st) ((RepoToGithubCreateRepositoryRequest spec)\<lparr>cr_AutoInit := Some True\<rparr>) #
     (if rp_OrganizationRef spec = [] then [] else [TriggerOrganization (rp_OrganizationRef spec)])"

lemma trigger_calls:
  "rx_calls (triggerOrganizationReconciliation spec st) = rx_calls st @ (if rp_OrganizationRef spec = [] then [] else [TriggerOrganization (rp_OrganizationRef spec)])"
  "rx_Owner (triggerOrganizationReconciliation spec st) = rx_Owner st"
  by (simp_all add: triggerOrganizationReconciliation_def repo_called_def)

lemma update_fields:
  assumes "updateRecFieldsFromGitHub g st = Inr st'"
  shows "rx_calls st' = rx_calls st \<and> rx_Owner st' = rx_Owner st \<and> (\<exists>r i n. g = Some r \<and> gr_ID r = Some i \<and> gr_Name r = Some n \<and>
           rx_Name st' = n \<and> rx_ID st' = Some i \<and> rx_StatusID st' = Some i)"
  using assms by (auto simp: updateRecFieldsFromGitHub_def split: option.splits)

lemma has_status_iff: "has_status c e = Some True \<longleftrightarrow> status_is [c] e"
  by (auto simp: has_status_def status_is_def split: option.splits)

lemma getRepo_found:
  assumes "getRepo api spec st = (st', Inr g)"
  shows "(\<exists>r i n. g = Some r \<and> gr_ID r = Some i \<and> gr_Name r = Some n \<and> rx_Name st' = n \<and> rx_ID st' = Some i \<and> rx_StatusID st' = Some i) \<and>
    rx_Owner st' = rx_Owner st \<and>
    (rx_calls st' = rx_calls st \<and> find_repo api st = Inr g \<or>
     rx_calls st' = rx_calls st @ repo_created_calls spec st \<and> (\<exists>e. find_repo api st = Inl e \<and> status_is [404] e))"
proof (cases "find_repo api st")
  case (Inl e)
  then have ns: "has_status 404 e = Some True" using assms by (auto simp: getRepo_def split: option.splits bool.splits)
  then have nf: "status_is [404] e" by (simp add: has_status_iff)
  let ?q = "(RepoToGithubCreateRepositoryRequest spec)\<lparr>cr_AutoInit := Some True\<rparr>"
  obtain r where c: "rg_CreateRepository api (rx_calls st) (rx_Owner st) ?q = Inr r" "g = r"
      "updateRecFieldsFromGitHub r (triggerOrganizationReconciliation spec (repo_called (CreateRepository (rx_Owner st) ?q) st)) = Inr st'"
    using assms Inl ns by (auto simp: getRepo_def Let_def split: sum.splits)
  then show ?thesis
    using update_fields [OF c(3)] Inl nf trigger_calls by (auto simp: repo_created_calls_def repo_called_def)
next
  case (Inr r)
  then have "updateRecFieldsFromGitHub r st = Inr st'" "g = r" using assms by (auto simp: getRepo_def split: sum.splits)
  then show ?thesis using update_fields Inr by auto
qed

lemma getRepo_failed:
  assumes "getRepo api spec st = (st', Inl e)"
  shows "\<exists>cs. rx_calls st' = rx_calls st @ cs \<and> (cs \<noteq> [] \<longrightarrow> prefix cs (repo_created_calls spec st) \<and> (\<exists>e. find_repo api st = Inl e \<and> status_is [404] e))"
proof -
  have "\<exists>cs. rx_calls st' = rx_calls st @ cs \<and> prefix cs (repo_created_calls spec st) \<and> ((\<exists>e. find_repo api st = Inl e \<and> status_is [404] e) \<or> cs = [])"
    using assms by (auto simp: getRepo_def Let_def trigger_calls repo_called_def repo_created_calls_def
        simp flip: has_status_iff split: sum.splits if_splits option.splits bool.splits)
  then show ?thesis by blast
qed

lemma updateRepo_calls:
  "updateRepo api spec st = (st', r) \<Longrightarrow>
     rx_calls st' = rx_calls st @ [EditRepository (rx_Owner st) (rx_Name st) (RepoToGithubRepo spec)]"
  using update_fields by (auto simp: updateRepo_def Let_def repo_called_def split: sum.splits)

lemma branch_ok:
  "ensureDefaultBranchExists api spec st g = None \<Longrightarrow>
     rp_DefaultBranch spec = [] \<or> gr_DefaultBranch g = Some (rp_DefaultBranch spec) \<or>
     rg_GetBranch api (rx_calls st) (rx_Owner st) (rx_Name st) (rp_DefaultBranch spec) = None"
  by (cases "gr_DefaultBranch g") (auto simp: ensureDefaultBranchExists_def split: if_splits option.splits)

text \<open>
  The three ways a run can go on GitHub: nothing is changed; the repository is created (and the organization told); the repository found or
  created is edited.
\<close>

lemma repo_run:
  assumes "reconcileRepository api spec st = (st', err)" and "rx_calls st = []"
  obtains (only_get) cs where "rx_calls st' = cs" "cs = [] \<or> prefix cs (repo_created_calls spec st)"
      "cs \<noteq> [] \<longrightarrow> (\<exists>e. find_repo api st = Inl e \<and> status_is [404] e)"
  | (edited) cs st1 g where "getRepo api spec st = (st1, Inr (Some g))" "rx_calls st1 = cs" "RepoDiffers spec g" "\<not> RepoStaysArchived spec g"
      "ensureDefaultBranchExists api spec st1 g = None" "cs = [] \<or> cs = repo_created_calls spec st"
      "cs \<noteq> [] \<longrightarrow> (\<exists>e. find_repo api st = Inl e \<and> status_is [404] e)"
      "rx_calls st' = cs @ [EditRepository (rx_Owner st1) (rx_Name st1) (RepoToGithubRepo spec)]"
      "rx_Owner st1 = rx_Owner st" "gr_Name g = Some (rx_Name st1)"
proof -
  obtain st1 r where gr: "getRepo api spec st = (st1, r)" by fastforce
  show thesis
  proof (cases r)
    case (Inl e)
    then have "st' = st1" using assms(1) gr by (simp add: reconcileRepository_def)
    then show thesis using only_get getRepo_failed [of api spec st st1 e] gr Inl assms(2) by auto
  next
    case (Inr og)
    note f = getRepo_found [OF gr [unfolded Inr]]
    obtain g i n where g: "og = Some g" "gr_Name g = Some n" "rx_Name st1 = n" using f by blast
    have calls1: "rx_calls st1 = [] \<and> find_repo api st = Inr og \<or> rx_calls st1 = repo_created_calls spec st \<and> (\<exists>e. find_repo api st = Inl e \<and> status_is [404] e)"
      using f assms(2) by simp
    then have c1: "rx_calls st1 = [] \<or> rx_calls st1 = repo_created_calls spec st" "rx_calls st1 \<noteq> [] \<longrightarrow> (\<exists>e. find_repo api st = Inl e \<and> status_is [404] e)"
      by auto
    consider (quiet) "st' = st1" | (edit) r2 st2 where "RepoDiffers spec g" "\<not> RepoStaysArchived spec g" "ensureDefaultBranchExists api spec st1 g = None"
        "updateRepo api spec st1 = (st2, r2)" "st' = st2"
      using assms(1) gr Inr g by (auto simp: reconcileRepository_def split: if_splits option.splits prod.splits sum.splits)
    then show thesis
    proof cases
      case quiet
      then show thesis using only_get c1 by auto
    next
      case edit
      then show thesis
        using edited [OF gr [unfolded Inr g(1)] refl edit(1-3) c1] updateRepo_calls [OF edit(4)] f g by simp
    qed
  qed
qed

lemma created_calls:
  assumes "set cs \<subseteq> set (repo_created_calls spec st)" and "cs \<noteq> [] \<longrightarrow> (\<exists>e. find_repo api st = Inl e \<and> status_is [404] e)" and "rx_calls st = []"
  shows "filter (\<lambda>c. case c of EditRepository _ _ _ \<Rightarrow> True | _ \<Rightarrow> False) cs = []"
    and "CreateRepository owner q \<in> set cs \<Longrightarrow> owner = rx_Owner st \<and> cr_Name q = rp_Name spec \<and>
           (\<exists>e. rg_GetRepository api [] (rx_Owner st) (rx_Name st) = Inl e \<and> status_is [404] e)"
    and "EditRepository owner n g \<notin> set cs" and "DeleteRepository owner n \<notin> set cs"
proof -
  show "filter (\<lambda>c. case c of EditRepository _ _ _ \<Rightarrow> True | _ \<Rightarrow> False) cs = []"
    using assms(1) by (auto simp: filter_empty_conv repo_created_calls_def split: if_splits)
  show "EditRepository owner n g \<notin> set cs" "DeleteRepository owner n \<notin> set cs"
    using assms(1) by (auto simp: repo_created_calls_def split: if_splits)
  assume c: "CreateRepository owner q \<in> set cs"
  then have "cs \<noteq> []" by auto
  then have "\<exists>e. rg_GetRepository api [] (rx_Owner st) (rx_Name st) = Inl e \<and> status_is [404] e"
    using assms(2,3) by (auto simp: find_repo_def Let_def split: option.splits sum.splits)
  moreover have "owner = rx_Owner st \<and> cr_Name q = rp_Name spec"
    using c assms(1) by (auto simp: repo_created_calls_def RepoToGithubCreateRepositoryRequest_def split: if_splits)
  ultimately show "owner = rx_Owner st \<and> cr_Name q = rp_Name spec \<and>
      (\<exists>e. rg_GetRepository api [] (rx_Owner st) (rx_Name st) = Inl e \<and> status_is [404] e)" by blast
qed

text \<open>C39: what the repository reconciler does on GitHub, whatever GitHub answers. It creates a repository only after the lookup by name was
  answered with 404; it edits at most once, under the name GitHub has for the repository found, and only if the repository differs from
  the resource, does not stay archived, and the default branch it asks for exists; and it deletes nothing.\<close>

theorem repo_calls_safe:
  assumes "reconcileRepository api spec st = (st', err)" and "rx_calls st = []"
  shows "(\<forall>owner q. CreateRepository owner q \<in> set (rx_calls st') \<longrightarrow>
            owner = rx_Owner st \<and> cr_Name q = rp_Name spec \<and>
            (\<exists>e. rg_GetRepository api [] (rx_Owner st) (rx_Name st) = Inl e \<and> status_is [404] e)) \<and>
         (\<forall>owner n q. EditRepository owner n q \<in> set (rx_calls st') \<longrightarrow>
            owner = rx_Owner st \<and> q = RepoToGithubRepo spec \<and>
            (\<exists>st1 g. getRepo api spec st = (st1, Inr (Some g)) \<and> gr_Name g = Some n \<and> RepoDiffers spec g \<and> \<not> RepoStaysArchived spec g \<and>
               (rp_DefaultBranch spec = [] \<or> gr_DefaultBranch g = Some (rp_DefaultBranch spec) \<or>
                rg_GetBranch api (rx_calls st1) owner n (rp_DefaultBranch spec) = None))) \<and>
         length (filter (\<lambda>c. case c of EditRepository _ _ _ \<Rightarrow> True | _ \<Rightarrow> False) (rx_calls st')) \<le> 1 \<and>
         (\<forall>owner n. DeleteRepository owner n \<notin> set (rx_calls st'))"
  using assms
proof (cases rule: repo_run)
  case (only_get cs)
  have sub: "set cs \<subseteq> set (repo_created_calls spec st)" using only_get(2) set_mono_prefix by auto
  note c = created_calls [OF sub only_get(3) assms(2)]
  show ?thesis unfolding only_get(1) using c by (intro conjI allI impI) (auto dest: c(2))
next
  case (edited cs st1 g)
  have sub: "set cs \<subseteq> set (repo_created_calls spec st)" using edited(6) by auto
  note c = created_calls [OF sub edited(7) assms(2)]
  have "rp_DefaultBranch spec = [] \<or> gr_DefaultBranch g = Some (rp_DefaultBranch spec) \<or>
      rg_GetBranch api (rx_calls st1) (rx_Owner st1) (rx_Name st1) (rp_DefaultBranch spec) = None" by (rule branch_ok [OF edited(5)])
  then show ?thesis unfolding edited(8) using c edited(1,3,4,9,10) by (intro conjI allI impI) (auto simp: c)
qed

section \<open>When an update settles\<close>

text \<open>GitHub changes the fields an edit mentions and leaves the others.\<close>

definition set_field :: "'a option \<Rightarrow> 'a option \<Rightarrow> 'a option" where
  "set_field old new = (case new of None \<Rightarrow> old | Some v \<Rightarrow> Some v)"

definition repo_edited :: "gh_repo \<Rightarrow> gh_repo \<Rightarrow> gh_repo" where
  "repo_edited g q = g
     \<lparr>gr_Name := set_field (gr_Name g) (gr_Name q), gr_Visibility := set_field (gr_Visibility g) (gr_Visibility q),
      gr_Archived := set_field (gr_Archived g) (gr_Archived q), gr_HasIssues := set_field (gr_HasIssues g) (gr_HasIssues q),
      gr_HasProjects := set_field (gr_HasProjects g) (gr_HasProjects q), gr_HasWiki := set_field (gr_HasWiki g) (gr_HasWiki q),
      gr_HasDownloads := set_field (gr_HasDownloads g) (gr_HasDownloads q), gr_IsTemplate := set_field (gr_IsTemplate g) (gr_IsTemplate q),
      gr_AllowSquashMerge := set_field (gr_AllowSquashMerge g) (gr_AllowSquashMerge q),
      gr_AllowRebaseMerge := set_field (gr_AllowRebaseMerge g) (gr_AllowRebaseMerge q),
      gr_AllowMergeCommit := set_field (gr_AllowMergeCommit g) (gr_AllowMergeCommit q),
      gr_DeleteBranchOnMerge := set_field (gr_DeleteBranchOnMerge g) (gr_DeleteBranchOnMerge q),
      gr_MergeCommitTitle := set_field (gr_MergeCommitTitle g) (gr_MergeCommitTitle q),
      gr_MergeCommitMessage := set_field (gr_MergeCommitMessage g) (gr_MergeCommitMessage q),
      gr_Homepage := set_field (gr_Homepage g) (gr_Homepage q), gr_Description := set_field (gr_Description g) (gr_Description q),
      gr_DefaultBranch := set_field (gr_DefaultBranch g) (gr_DefaultBranch q)\<rparr>"

text \<open>The fields the resource leaves open have, on GitHub, the value the comparison assumes for them.\<close>

definition open_field :: "'a option \<Rightarrow> 'a option \<Rightarrow> 'a \<Rightarrow> bool" where
  "open_field want g dflt \<longleftrightarrow> (want = None \<longrightarrow> g = Some dflt)"

definition defaults_met :: "repo_spec \<Rightarrow> gh_repo \<Rightarrow> bool" where
  "defaults_met spec g \<longleftrightarrow>
     (rp_Archived spec = None \<longrightarrow> gr_Archived g \<noteq> Some True) \<and>
     open_field (rp_HasIssues spec) (gr_HasIssues g) True \<and> open_field (rp_HasProjects spec) (gr_HasProjects g) False \<and>
     open_field (rp_HasWiki spec) (gr_HasWiki g) False \<and> open_field (rp_HasDownloads spec) (gr_HasDownloads g) False \<and>
     open_field (rp_IsTemplate spec) (gr_IsTemplate g) False \<and> open_field (rp_DeleteBranchOnMerge spec) (gr_DeleteBranchOnMerge g) True"

lemma field_differs_Some [simp]: "field_differs (Some v) w \<longleftrightarrow> v \<noteq> w"
  by (simp add: field_differs_def)

lemma field_differs_set [simp]:
  "field_differs (set_field g (Some v)) w \<longleftrightarrow> v \<noteq> w"
  "field_differs (set_field g want) (WithDefault want d) \<longleftrightarrow> \<not> open_field want g d"
  by (cases want; cases g; simp add: field_differs_def set_field_def open_field_def)+

lemma archived_differs:
  "(case set_field g want of None \<Rightarrow> WithDefault want False | Some a \<Rightarrow> WithDefault want False \<noteq> a) \<longleftrightarrow> \<not> (want = None \<longrightarrow> g \<noteq> Some True)"
  by (cases want; cases g) (auto simp: set_field_def)

text \<open>An update settles a repository exactly if every setting the resource leaves open already has the value the comparison assumes. The
  comparison fills in defaults for these settings, the request does not send them: otherwise the repository is edited in every run.\<close>

lemma repo_update_settles_iff:
  "RepoDiffers spec (repo_edited g (RepoToGithubRepo spec)) \<longleftrightarrow> \<not> defaults_met spec g"
proof -
  let ?q = "RepoToGithubRepo spec"
  have q: "gr_Name ?q = Some (rp_Name spec)" "gr_Visibility ?q = Some (rp_Visibility spec)" "gr_Archived ?q = rp_Archived spec"
    "gr_HasIssues ?q = rp_HasIssues spec" "gr_HasProjects ?q = rp_HasProjects spec" "gr_HasWiki ?q = rp_HasWiki spec"
    "gr_HasDownloads ?q = rp_HasDownloads spec" "gr_IsTemplate ?q = rp_IsTemplate spec"
    "gr_AllowSquashMerge ?q = Some (the (getMergeStrategy spec ''squash''))" "gr_AllowRebaseMerge ?q = Some (the (getMergeStrategy spec ''rebase''))"
    "gr_AllowMergeCommit ?q = Some (the (getMergeStrategy spec ''merge''))" "gr_DeleteBranchOnMerge ?q = rp_DeleteBranchOnMerge spec"
    "gr_MergeCommitTitle ?q = Some (rp_MergeCommitTitle spec)" "gr_MergeCommitMessage ?q = Some (rp_MergeCommitMessage spec)"
    "gr_Homepage ?q = Some (rp_Website spec)" "gr_Description ?q = Some (rp_Description spec)" "gr_DefaultBranch ?q = Some (rp_DefaultBranch spec)"
    by (simp_all add: RepoToGithubRepo_def getMergeStrategy_def)
  have n: "set_field x (Some v) = Some v" for x :: "string option" and v by (simp add: set_field_def)
  show ?thesis
    unfolding RepoDiffers_def repo_edited_def defaults_met_def by (simp add: q n archived_differs)
qed

text \<open>An example: a repository that is found and has to be renamed.\<close>

definition ex_repo_spec :: repo_spec where
  "ex_repo_spec = \<lparr>rp_Name = ''new'', rp_Visibility = ''private'', rp_Archived = None, rp_HasIssues = None, rp_HasProjects = None, rp_HasWiki = None,
     rp_HasDownloads = None, rp_IsTemplate = None, rp_AllowedMergeStrategies = [''squash''], rp_DeleteBranchOnMerge = None, rp_MergeCommitTitle = [],
     rp_MergeCommitMessage = [], rp_Website = [], rp_Description = [], rp_Topics = [], rp_DefaultBranch = ''main'', rp_OrganizationRef = ''org''\<rparr>"

definition ex_gh_repo :: gh_repo where
  "ex_gh_repo = (repo_edited empty_repo (RepoToGithubRepo ex_repo_spec))\<lparr>gr_Name := Some ''old'', gr_ID := Some 7\<rparr>"

definition ex_repo_api :: repo_api where
  "ex_repo_api = \<lparr>rg_GetRepositoryByID = (\<lambda>h i. Inr (Some ex_gh_repo)), rg_GetRepository = (\<lambda>h ow n. Inr (Some ex_gh_repo)),
     rg_CreateRepository = (\<lambda>h ow q. Inr None), rg_EditRepository = (\<lambda>h ow n q. Inr (Some (repo_edited ex_gh_repo q))),
     rg_DeleteRepository = (\<lambda>h ow n. None), rg_GetBranch = (\<lambda>h ow n b. None), rg_Apply = (\<lambda>h n. None),
     rg_GetAllTopics = (\<lambda>h ow n. Inr []), rg_ReplaceAllTopics = (\<lambda>h ow n ts. None), rg_Since = (\<lambda>h t. 0), rg_Crash = PlainError ''panic''\<rparr>"

definition ex_repo_state :: repo_state where
  "ex_repo_state = \<lparr>rx_Owner = ''org'', rx_Name = ''new'', rx_ID = None, rx_StatusID = Some 7, rx_calls = []\<rparr>"

theorem repo_calls_safe_witness:
  "\<exists>st'. reconcileRepository ex_repo_api ex_repo_spec ex_repo_state = (st', None) \<and>
     rx_calls st' = [EditRepository ''org'' ''old'' (RepoToGithubRepo ex_repo_spec)] \<and>
     (\<exists>st1 g. getRepo ex_repo_api ex_repo_spec ex_repo_state = (st1, Inr (Some g)) \<and> RepoDiffers ex_repo_spec g)"
proof -
  have "map_prod rx_calls (\<lambda>e. e) (reconcileRepository ex_repo_api ex_repo_spec ex_repo_state) =
      ([EditRepository ''org'' ''old'' (RepoToGithubRepo ex_repo_spec)], None)" by code_simp
  then obtain st' where run: "reconcileRepository ex_repo_api ex_repo_spec ex_repo_state = (st', None)"
      and calls: "rx_calls st' = [EditRepository ''org'' ''old'' (RepoToGithubRepo ex_repo_spec)]"
    by (cases "reconcileRepository ex_repo_api ex_repo_spec ex_repo_state") auto
  have "rx_calls ex_repo_state = []" by (simp add: ex_repo_state_def)
  from repo_calls_safe [OF run this]
  have "\<exists>st1 g. getRepo ex_repo_api ex_repo_spec ex_repo_state = (st1, Inr (Some g)) \<and> RepoDiffers ex_repo_spec g" unfolding calls by auto
  then show ?thesis using run calls by blast
qed

end
