(* ===== verification/ResourceRuns.thy ===== *)
theory ResourceRuns
  imports Executor RepoSettings
begin

text \<open>
  The executor with the reconcilers of a repository: the groups of \<^verbatim>\<open>RequiredReconciliations\<close> in \<^verbatim>\<open>reporec/reconciler.go\<close>. The
  first group has one member, which makes sure that the repository exists; the others run in parallel after it. As the first one runs
  alone, it is one step on the world; what the others do step by step is an argument.
\<close>

definition alone :: "('w \<Rightarrow> 'w \<times> go_error option) \<Rightarrow> 'w proc" where
  "alone f = Step (\<lambda>w. case f w of (w', e) \<Rightarrow> (w', Done e))"

section \<open>A run whose first group is one function\<close>

lemma group_of_one:
  assumes "runReconciliationGroup ck sched [\<lparr>rec_Function = alone f, rec_Condition = c\<rparr>] s = Some (s1, raw)" and "f (ks_world s) = (w', e)"
  shows "s1 = s\<lparr>ks_world := w', ks_ticks := Suc (ks_ticks s)\<rparr> \<and>
    raw = [\<lparr>rr_Condition = c, rr_Error = e, rr_FinishedAt = ck_Now ck (ks_ticks s), rr_Stop = None, rr_SkippedBy = None\<rparr>]"
proof -
  let ?grp = "[\<lparr>rec_Function = alone f, rec_Condition = c\<rparr>]" and ?w = "ks_world s" and ?n = "ks_ticks s"
  let ?r = "\<lparr>rr_Condition = c, rr_Error = e, rr_FinishedAt = ck_Now ck ?n, rr_Stop = None, rr_SkippedBy = None\<rparr>"
  let ?mid = "\<lparr>gs_world = w', gs_ticks = ?n, gs_procs = [Done e], gs_slots = [None]\<rparr>"
  let ?fin = "\<lparr>gs_world = w', gs_ticks = Suc ?n, gs_procs = [Done e], gs_slots = [Some ?r]\<rparr>"
  have step: "goroutine_step ck ?grp i g \<in> {group_start ?grp ?w ?n, ?mid, ?fin}" if "g \<in> {group_start ?grp ?w ?n, ?mid, ?fin}" for i g
    using that assms(2) by (cases i) (auto simp: goroutine_step_def group_start_def alone_def)
  have "group_run ck ?grp sch g \<in> {group_start ?grp ?w ?n, ?mid, ?fin}" if "g \<in> {group_start ?grp ?w ?n, ?mid, ?fin}" for sch g
    using that unfolding group_run_def
  proof (induction sch arbitrary: g)
    case (Cons i sch)
    show ?case using Cons.IH [OF step [OF Cons.prems, of i]] by simp
  qed simp
  then have "group_run ck ?grp sched (group_start ?grp ?w ?n) \<in> {group_start ?grp ?w ?n, ?mid, ?fin}" by blast
  moreover have "list_all (\<lambda>r. r \<noteq> None) (gs_slots (group_run ck ?grp sched (group_start ?grp ?w ?n)))"
    and res: "s1 = s\<lparr>ks_world := gs_world (group_run ck ?grp sched (group_start ?grp ?w ?n)), ks_ticks := gs_ticks (group_run ck ?grp sched (group_start ?grp ?w ?n))\<rparr>"
      "raw = map the (gs_slots (group_run ck ?grp sched (group_start ?grp ?w ?n)))"
    using assms(1) by (auto simp: runReconciliationGroup_def Let_def split: if_splits)
  ultimately have "group_run ck ?grp sched (group_start ?grp ?w ?n) = ?fin" by (auto simp: group_start_def)
  then show ?thesis using res by simp
qed

text \<open>
  The contract between the executor and a resource: the first function changes its own part of the world only. Then, if it returns an error
  or asks to stop, the rest of the world is as it was, whatever the functions of the later groups would do.
\<close>

locale first_alone =
  fixes f :: "'w \<Rightarrow> 'w \<times> go_error option" and other :: "'w \<Rightarrow> 'o"
  assumes frame: "other (fst (f w)) = other w"
begin

lemma not_reached:
  assumes "runReconciliations ck sched rc s = Some (s', results, err)"
    and "rc_RequiredReconciliations rc (ks_world s) = [\<lparr>rec_Function = alone f, rec_Condition = c\<rparr>] # later"
    and "f (ks_world s) = (w', Some e)"
  shows "ks_world s' = w' \<and> other (ks_world s') = other (ks_world s) \<and>
    (case errors_As is_stop e of
       Some m \<Rightarrow> err = None \<and> map rr_Condition results = c # map rec_Condition (concat later) \<and> (\<forall>r \<in> set (tl results). rr_SkippedBy r = Some m)
     | None \<Rightarrow> err = Some (JoinError [e]) \<and> map rr_Condition results = [c])"
proof -
  let ?g = "[\<lparr>rec_Function = alone f, rec_Condition = c\<rparr>]"
  obtain errs where run: "run_groups ck sched 0 (?g # later) s = Some (s', results, errs)" and err: "err = errors_Join errs"
    using assms(1,2) by (auto simp: runReconciliations_def split: option.splits)
  obtain s1 raw where g: "runReconciliationGroup ck (sched 0) ?g s = Some (s1, raw)"
    using run by (cases "runReconciliationGroup ck (sched 0) ?g s") auto
  note one = group_of_one [OF g assms(3)]
  have o: "other w' = other (ks_world s)" using frame [of "ks_world s"] assms(3) by simp
  show ?thesis
  proof (cases "errors_As is_stop e")
    case None
    then show ?thesis using run g one err o by (auto simp: asStopReconciliation_def)
  next
    case (Some m)
    then show ?thesis using run g one err o by (auto simp: asStopReconciliation_def skippedResults_def comp_def)
  qed
qed

end

section \<open>Repositories\<close>

text \<open>The world of a repository: what \<^verbatim>\<open>reconcileRepository\<close> works on, and the rest (hooks, rulesets, keys and so on).\<close>

record 'o repo_world =
  rw_repo :: repo_state
  rw_other :: 'o

record 'w repo_procs =
  rf_CustomProperties :: "'w proc"
  rf_Webhooks :: "'w proc"
  rf_RuleSets :: "'w proc"
  rf_ActionsSettings :: "'w proc"
  rf_Topics :: "'w proc"
  rf_Autolinks :: "'w proc"
  rf_DeployKeys :: "'w proc"

definition repository_step :: "repo_api \<Rightarrow> repo_spec \<Rightarrow> 'o repo_world \<Rightarrow> 'o repo_world \<times> go_error option" where
  "repository_step api spec w = (case reconcileRepository api spec (rw_repo w) of (st, e) \<Rightarrow> (w\<lparr>rw_repo := st\<rparr>, e))"

definition repo_RequiredReconciliations ::
    "repo_api \<Rightarrow> repo_spec \<Rightarrow> 'o repo_world repo_procs \<Rightarrow> 'o repo_world reconciliation list list" where
  "repo_RequiredReconciliations api spec fs =
     [[\<lparr>rec_Function = alone (repository_step api spec), rec_Condition = ''GitHubSynced''\<rparr>],
      [\<lparr>rec_Function = rf_CustomProperties fs, rec_Condition = ''CustomPropertiesValuesSynced''\<rparr>,
       \<lparr>rec_Function = rf_Webhooks fs, rec_Condition = ''WebhooksSynced''\<rparr>,
       \<lparr>rec_Function = rf_RuleSets fs, rec_Condition = ''RulesetsSynced''\<rparr>,
       \<lparr>rec_Function = rf_ActionsSettings fs, rec_Condition = ''ActionsConfigurationSynced''\<rparr>,
       \<lparr>rec_Function = rf_Topics fs, rec_Condition = ''TopicsSynced''\<rparr>,
       \<lparr>rec_Function = rf_Autolinks fs, rec_Condition = ''AutolinksSynced''\<rparr>,
       \<lparr>rec_Function = rf_DeployKeys fs, rec_Condition = ''DeployKeysSynced''\<rparr>]]"

interpretation repository_first: first_alone "repository_step api spec" rw_other for api spec
  by unfold_locales (simp add: repository_step_def split: prod.split)

section \<open>Archived repositories\<close>

lemma archived_stops:
  assumes "getRepo api spec st = (st', Inr (Some g))" and "RepoStaysArchived spec g"
  shows "reconcileRepository api spec st = (st', Some (StopReconciliation ArchivedMessage))"
  using assms by (simp add: reconcileRepository_def)

text \<open>C40: an archived repository is left alone. If the resource wants the repository archived and it is, a run of the executor, under any schedule,
  changes nothing but the record of the repository's ID and name; it reports no error, and every other component of the repository is reported as skipped because
  the repository is archived.\<close>

theorem archived_repository_left_alone:
  assumes "runReconciliations ck sched rc s = Some (s', results, err)"
    and "rc_RequiredReconciliations rc (ks_world s) = repo_RequiredReconciliations api spec fs"
    and "getRepo api spec (rw_repo (ks_world s)) = (st', Inr (Some g))" and "RepoStaysArchived spec g"
  shows "err = None \<and> ks_world s' = (ks_world s)\<lparr>rw_repo := st'\<rparr> \<and>
    map (\<lambda>r. (rr_Condition r, rr_SkippedBy r)) results =
      (''GitHubSynced'', None) # map (\<lambda>c. (c, Some ArchivedMessage))
        [''CustomPropertiesValuesSynced'', ''WebhooksSynced'', ''RulesetsSynced'', ''ActionsConfigurationSynced'', ''TopicsSynced'', ''AutolinksSynced'', ''DeployKeysSynced'']"
proof -
  let ?e = "StopReconciliation ArchivedMessage"
  have f: "repository_step api spec (ks_world s) = ((ks_world s)\<lparr>rw_repo := st'\<rparr>, Some ?e)"
    using archived_stops [OF assms(3,4)] by (simp add: repository_step_def)
  have st: "errors_As is_stop ?e = Some ArchivedMessage" by (simp add: errors_As.simps is_stop_def)
  note r = repository_first.not_reached [OF assms(1) assms(2) [unfolded repo_RequiredReconciliations_def] f, unfolded st]
  have w: "err = None" "ks_world s' = (ks_world s)\<lparr>rw_repo := st'\<rparr>"
    and conds: "map rr_Condition results = ''GitHubSynced'' # [''CustomPropertiesValuesSynced'', ''WebhooksSynced'', ''RulesetsSynced'', ''ActionsConfigurationSynced'', ''TopicsSynced'', ''AutolinksSynced'', ''DeployKeysSynced'']"
    and skip: "\<forall>r \<in> set (tl results). rr_SkippedBy r = Some ArchivedMessage"
    using r by simp_all
  obtain r0 rs where rs: "results = r0 # rs" "rr_Condition r0 = ''GitHubSynced''" using conds by auto
  have r0: "rr_SkippedBy r0 = None"
    using assms(1,2) rs f st
    by (auto simp: runReconciliations_def repo_RequiredReconciliations_def asStopReconciliation_def dest!: group_of_one split: option.splits prod.splits if_splits)
  have cr: "map rr_Condition rs = [''CustomPropertiesValuesSynced'', ''WebhooksSynced'', ''RulesetsSynced'', ''ActionsConfigurationSynced'', ''TopicsSynced'', ''AutolinksSynced'', ''DeployKeysSynced'']"
    using conds rs by simp
  have "map (\<lambda>r. (rr_Condition r, rr_SkippedBy r)) rs = map (\<lambda>c. (c, Some ArchivedMessage)) (map rr_Condition rs)"
    using skip rs by auto
  then have "map (\<lambda>r. (rr_Condition r, rr_SkippedBy r)) results =
      (''GitHubSynced'', None) # map (\<lambda>c. (c, Some ArchivedMessage)) (map rr_Condition rs)"
    using rs r0 by (simp del: map_map)
  then show ?thesis using w unfolding cr by blast
qed

section \<open>Organizations\<close>

text \<open>All reconciliations of an organization are in one group (\<^verbatim>\<open>orgrec/reconciler.go\<close>), so a failure of one keeps none of the others from running.\<close>

record 'w org_procs =
  of_Organization :: "'w proc"
  of_CustomProperties :: "'w proc"
  of_Rulesets :: "'w proc"
  of_CodeSecurityConfigurations :: "'w proc"
  of_ActionsSettings :: "'w proc"

definition org_RequiredReconciliations :: "'w org_procs \<Rightarrow> 'w reconciliation list list" where
  "org_RequiredReconciliations fs =
     [[\<lparr>rec_Function = of_Organization fs, rec_Condition = ''GitHubSynced''\<rparr>,
       \<lparr>rec_Function = of_CustomProperties fs, rec_Condition = ''CustomPropertyDefinitionsSynced''\<rparr>,
       \<lparr>rec_Function = of_Rulesets fs, rec_Condition = ''RulesetsSynced''\<rparr>,
       \<lparr>rec_Function = of_CodeSecurityConfigurations fs, rec_Condition = ''CodeSecurityConfigurationsSynced''\<rparr>,
       \<lparr>rec_Function = of_ActionsSettings fs, rec_Condition = ''ActionsConfigurationSynced''\<rparr>]]"

lemma org_run_reports_all:
  assumes "runReconciliations ck sched rc s = Some (s', results, err)" and "rc_RequiredReconciliations rc (ks_world s) = org_RequiredReconciliations fs"
  shows "map rr_Condition results =
      [''GitHubSynced'', ''CustomPropertyDefinitionsSynced'', ''RulesetsSynced'', ''CodeSecurityConfigurationsSynced'', ''ActionsConfigurationSynced''] \<and>
    (\<forall>r \<in> set results. rr_SkippedBy r = None) \<and> err = errors_Join (result_errors results)"
proof -
  let ?grp = "hd (org_RequiredReconciliations fs)"
  have g: "org_RequiredReconciliations fs = [?grp]" by (simp add: org_RequiredReconciliations_def)
  obtain errs where r: "run_groups ck sched 0 [?grp] s = Some (s', results, errs)" and e: "err = errors_Join errs"
    using assms g by (auto simp: runReconciliations_def split: option.splits)
  obtain s1 raw where one: "runReconciliationGroup ck (sched 0) ?grp s = Some (s1, raw)" using r by (auto split: option.splits)
  obtain stop where pg: "process_group raw = (results, stop, errs)"
    using r one by (auto simp: skippedResults_def split: prod.splits if_splits option.splits)
  have sp: "map rr_Condition results = map rr_Condition raw \<and> errs = result_errors results \<and> (\<forall>x \<in> set results. rr_SkippedBy x = None)"
    using process_group_spec [OF pg runReconciliationGroup_results(2) [OF one]] by blast
  then show ?thesis using e runReconciliationGroup_results(1) [OF one] by (simp add: org_RequiredReconciliations_def)
qed

text \<open>The repository of the example, archived on GitHub and in the resource; the functions of the second group would all change the rest of the world.\<close>

definition ex_archived_spec :: repo_spec where
  "ex_archived_spec = ex_repo_spec\<lparr>rp_Archived := Some True\<rparr>"

definition ex_archived_repo :: gh_repo where
  "ex_archived_repo = ex_gh_repo\<lparr>gr_Archived := Some True\<rparr>"

definition ex_archived_api :: repo_api where
  "ex_archived_api = ex_repo_api\<lparr>rg_GetRepositoryByID := (\<lambda>h i. Inr (Some ex_archived_repo))\<rparr>"

definition ex_touch :: "nat repo_world proc" where
  "ex_touch = Step (\<lambda>w. (w\<lparr>rw_other := Suc (rw_other w)\<rparr>, Done None))"

definition ex_repo_procs :: "nat repo_world repo_procs" where
  "ex_repo_procs = \<lparr>rf_CustomProperties = ex_touch, rf_Webhooks = ex_touch, rf_RuleSets = ex_touch, rf_ActionsSettings = ex_touch,
     rf_Topics = ex_touch, rf_Autolinks = ex_touch, rf_DeployKeys = ex_touch\<rparr>"

definition ex_repo_rc :: "(nat repo_world, unit) reconciler" where
  "ex_repo_rc =
     \<lparr>rc_GetAdditionalLabels = (\<lambda>w. []),
      rc_RequiredReconciliations = (\<lambda>w. repo_RequiredReconciliations ex_archived_api ex_archived_spec ex_repo_procs),
      rc_FinalizerName = ''repository.github.interhyp.de/finalizer'', rc_ReconcileDeletion = (\<lambda>w. (w, None)),
      rc_BuildMetadataApplyConfig = (\<lambda>l f. ()), rc_BuildStatusApplyConfig = (\<lambda>s. ()), rc_ClientApply = (\<lambda>c w. (w, None)),
      rc_StatusApply = (\<lambda>c w. (w, None)), rc_SetObservedSubResourceGeneration = (\<lambda>old new. new), rc_CurrentSubResourceGenerations = None\<rparr>"

definition ex_repo_kstate :: "nat repo_world kstate" where
  "ex_repo_kstate =
     \<lparr>ks_Conditions = [], ks_Generation = 7, ks_DeletionTimestamp = None, ks_Finalizers = [], ks_Labels = [],
      ks_ObservedSubResourceGenerations = None, ks_world = \<lparr>rw_repo = ex_repo_state, rw_other = 5\<rparr>, ks_ticks = 0\<rparr>"

theorem archived_repository_left_alone_witness:
  "\<exists>s' results. runReconciliations ex_clock (\<lambda>k. [0, 0]) ex_repo_rc ex_repo_kstate = Some (s', results, None) \<and>
     rw_other (ks_world s') = 5 \<and> length results = 8 \<and> rx_calls (rw_repo (ks_world s')) = []"
proof -
  have get: "getRepo ex_archived_api ex_archived_spec (rw_repo (ks_world ex_repo_kstate)) =
      (ex_repo_state\<lparr>rx_Name := ''old'', rx_ID := Some 7, rx_StatusID := Some 7\<rparr>, Inr (Some ex_archived_repo))" by code_simp
  have arch: "RepoStaysArchived ex_archived_spec ex_archived_repo" by code_simp
  have req: "rc_RequiredReconciliations ex_repo_rc (ks_world ex_repo_kstate) = repo_RequiredReconciliations ex_archived_api ex_archived_spec ex_repo_procs"
    by (simp add: ex_repo_rc_def)
  have "map_option (\<lambda>x. ()) (runReconciliations ex_clock (\<lambda>k. [0, 0]) ex_repo_rc ex_repo_kstate) = Some ()" by code_simp
  then obtain s' results err where run: "runReconciliations ex_clock (\<lambda>k. [0, 0]) ex_repo_rc ex_repo_kstate = Some (s', results, err)" by auto
  note p = archived_repository_left_alone [OF run req get arch]
  have len: "length results = 8" using p by (auto dest!: arg_cong [where f = length])
  have calls: "rx_calls ex_repo_state = []" "rw_other (ks_world ex_repo_kstate) = 5" by (simp_all add: ex_repo_state_def ex_repo_kstate_def)
  show ?thesis using run p len calls by simp
qed

end
