(* ===== verification/ParallelRuns.thy ===== *)
theory ParallelRuns
  imports ResourceRuns
begin

text \<open>
  Groups of reconciliations that run in parallel (\<^verbatim>\<open>runReconciliationGroup\<close> of \<^verbatim>\<open>reconciler/executor.go\<close>) compared with the same reconciliations one after another. The world is
  seen as parts; a part is given by the function that copies it from one world to another. When every function of a group keeps to a part of its own, the outcome of the group is
  that of a sequential run, whatever the schedule is.
\<close>

section \<open>One after another\<close>

text \<open>A function that runs alone to its end.\<close>

primrec run_alone :: "'w proc \<Rightarrow> 'w \<Rightarrow> 'w \<times> go_error option" where
  "run_alone (Done e) = (\<lambda>w. (w, e))"
| "run_alone (Step f) = (\<lambda>w. case (map_prod id run_alone \<circ> f) w of (w', k) \<Rightarrow> k w')"

lemma run_alone_simps [simp]:
  "run_alone (Done e) w = (w, e)"
  "run_alone (Step f) w = run_alone (snd (f w)) (fst (f w))"
  by (simp_all add: case_prod_beta)

declare run_alone.simps [simp del]

lemma run_alone_alone [simp]: "run_alone (alone f) w = f w"
  by (simp add: alone_def case_prod_beta)

fun run_each :: "'w proc list \<Rightarrow> 'w \<Rightarrow> 'w \<times> go_error option list" where
  "run_each [] w = (w, [])"
| "run_each (p # ps) w = (case run_alone p w of (w1, e) \<Rightarrow> (case run_each ps w1 of (w2, es) \<Rightarrow> (w2, e # es)))"

lemma run_each_append: "run_each (ps @ qs) w = (case run_each ps w of (w1, es) \<Rightarrow> (case run_each qs w1 of (w2, es') \<Rightarrow> (w2, es @ es')))"
  by (induction ps arbitrary: w) (auto split: prod.splits)

lemma run_each_done: "(\<forall>p \<in> set ps. \<exists>e. p = Done e) \<Longrightarrow> run_each ps w = (w, map (snd \<circ> (\<lambda>p. run_alone p w)) ps)"
  by (induction ps) auto

section \<open>Parts of the world\<close>

text \<open>A function that keeps to a part: apart from what is shared and never changes, it neither sees nor changes anything else.\<close>

inductive confined :: "('w \<Rightarrow> 'c) \<Rightarrow> ('w \<Rightarrow> 'w \<Rightarrow> 'w) \<Rightarrow> 'w proc \<Rightarrow> bool" for sh cp where
  confined_done: "confined sh cp (Done e)"
| confined_step: "(\<And>w v. sh w = sh v \<Longrightarrow> f (cp w v) = (cp (fst (f w)) v, snd (f w))) \<Longrightarrow> (\<And>w. confined sh cp (snd (f w))) \<Longrightarrow> confined sh cp (Step f)"

inductive_cases confined_StepE: "confined sh cp (Step f)"

text \<open>The parts of a world do not overlap, and what is shared is in none of them.\<close>

locale world_parts =
  fixes cp :: "nat \<Rightarrow> 'w \<Rightarrow> 'w \<Rightarrow> 'w" and sh :: "'w \<Rightarrow> 'c"
  assumes copy_same: "cp i w w = w"
    and copy_commute: "i \<noteq> j \<Longrightarrow> cp i u (cp j v w) = cp j v (cp i u w)"
    and copy_shared: "sh (cp i u w) = sh w"
begin

abbreviation confined_from :: "nat \<Rightarrow> 'w proc list \<Rightarrow> bool" where
  "confined_from k ps \<equiv> \<forall>m < length ps. confined sh (cp (k + m)) (ps ! m)"

lemma confined_run_alone:
  assumes "confined sh (cp i) p" and "sh w = sh v"
  shows "run_alone p (cp i w v) = (cp i (fst (run_alone p w)) v, snd (run_alone p w))"
  using assms
proof (induction arbitrary: w v)
  case (confined_step f)
  have "fst (f w) = cp i (fst (f w)) w" using confined_step.hyps(1) [of w w] by (simp add: copy_same prod_eq_iff)
  then have "sh (fst (f w)) = sh v" using copy_shared [of i "fst (f w)" w] confined_step.prems by simp
  from confined_step.IH [OF this] show ?case by (simp add: confined_step.hyps(1) [OF confined_step.prems])
qed simp

lemma run_alone_part: "confined sh (cp i) p \<Longrightarrow> cp i (fst (run_alone p w)) w = fst (run_alone p w)"
  using confined_run_alone [of i p w w] by (simp add: copy_same prod_eq_iff)

lemma run_alone_other:
  assumes "confined sh (cp i) p" and "i \<noteq> j"
  shows "run_alone p (cp j u w) = (cp j u (fst (run_alone p w)), snd (run_alone p w))"
proof -
  have "cp j u w = cp i w (cp j u w)" using copy_commute [OF assms(2), of w u w] by (simp add: copy_same)
  then have "run_alone p (cp j u w) = (cp i (fst (run_alone p w)) (cp j u w), snd (run_alone p w))"
    using confined_run_alone [OF assms(1), of w "cp j u w"] by (simp add: copy_shared)
  then show ?thesis using copy_commute [OF assms(2)] run_alone_part [OF assms(1), of w] by simp
qed

lemma run_each_shared:
  assumes "confined_from k ps"
  shows "sh (fst (run_each ps w)) = sh w"
  using assms
proof (induction ps arbitrary: k w)
  case (Cons p ps)
  have p: "confined sh (cp k) p" using Cons.prems by (metis add_0_right length_greater_0_conv list.distinct(1) nth_Cons_0)
  have ps: "confined_from (Suc k) ps" using Cons.prems by fastforce
  have "sh (fst (run_alone p w)) = sh w" using run_alone_part [OF p, of w] copy_shared by metis
  then show ?case using Cons.IH [OF ps, of "fst (run_alone p w)"] by (simp add: case_prod_beta)
qed simp

lemma run_each_other:
  assumes "confined_from k ps" and "j < k \<or> k + length ps \<le> j"
  shows "run_each ps (cp j u w) = (cp j u (fst (run_each ps w)), snd (run_each ps w))"
  using assms
proof (induction ps arbitrary: k w)
  case (Cons p ps)
  have p: "confined sh (cp k) p" using Cons.prems(1) by (metis add_0_right length_greater_0_conv list.distinct(1) nth_Cons_0)
  have ps: "confined_from (Suc k) ps" using Cons.prems(1) by fastforce
  have "run_each ps (cp j u (fst (run_alone p w))) = (cp j u (fst (run_each ps (fst (run_alone p w)))), snd (run_each ps (fst (run_alone p w))))"
    by (rule Cons.IH [OF ps]) (use Cons.prems(2) in auto)
  then show ?case using run_alone_other [OF p, of j u w] Cons.prems(2) by (auto simp: case_prod_beta)
qed simp

text \<open>A step of one function does not change what a sequential run from there on gives.\<close>

lemma run_each_step:
  assumes "confined_from 0 ps" and "j < length ps" and "ps ! j = Step f" and "f w = (w', p')"
  shows "run_each (ps[j := p']) w' = run_each ps w"
proof -
  let ?pre = "take j ps" and ?post = "drop (Suc j) ps"
  have f: "f (cp j v u) = (cp j (fst (f v)) u, snd (f v))" if "sh v = sh u" for u v
    using assms(1-3) that by (metis add_0 confined_StepE)
  have pre: "confined_from 0 ?pre" "j < 0 \<or> 0 + length ?pre \<le> j" using assms(1,2) by auto
  obtain w1 es where r: "run_each ?pre w = (w1, es)" by fastforce
  have w': "w' = cp j w' w" using f [of w w] assms(4) by (simp add: copy_same)
  have w1: "cp j w w1 = w1" using run_each_other [OF pre, of w w] r by (simp add: copy_same)
  have "sh w1 = sh w" using run_each_shared [OF pre(1), of w] r by simp
  then have s1: "f w1 = (cp j w' w1, p')" using f [of w w1] w1 assms(4) by simp
  have s2: "run_each ?pre w' = (cp j w' w1, es)" using run_each_other [OF pre, of w' w] r w' by simp
  have "ps = ?pre @ Step f # ?post" using assms(2,3) by (metis id_take_nth_drop)
  then have "run_each ps w = run_each (?pre @ Step f # ?post) w" by simp
  also have "\<dots> = run_each (?pre @ p' # ?post) w'" using r s1 s2 by (simp add: run_each_append)
  also have "?pre @ p' # ?post = ps[j := p']" using assms(2) by (simp add: upd_conv_take_nth_drop)
  finally show ?thesis by simp
qed

lemma confined_from_step:
  assumes "confined_from 0 ps" and "j < length ps" and "ps ! j = Step f"
  shows "confined_from 0 (ps[j := snd (f w)])"
proof (intro allI impI)
  fix m assume "m < length (ps[j := snd (f w)])"
  moreover have "confined sh (cp j) (snd (f w))" using assms by (metis add_0 confined_StepE)
  ultimately show "confined sh (cp (0 + m)) (ps[j := snd (f w)] ! m)" using assms(1) by (cases "m = j") auto
qed

text \<open>What stays the same while a group runs.\<close>

definition keeps :: "'w reconciliation list \<Rightarrow> 'w \<times> go_error option list \<Rightarrow> 'w group_state \<Rightarrow> bool" where
  "keeps grp out g \<longleftrightarrow>
     length (gs_procs g) = length grp \<and> length (gs_slots g) = length grp \<and> confined_from 0 (gs_procs g) \<and> run_each (gs_procs g) (gs_world g) = out \<and>
     (\<forall>i < length grp. \<forall>r. gs_slots g ! i = Some r \<longrightarrow> gs_procs g ! i = Done (rr_Error r))"

lemma keeps_step:
  assumes "keeps grp out g"
  shows "keeps grp out (goroutine_step ck grp i g)"
proof (cases "length grp \<le> i \<or> gs_slots g ! i \<noteq> None")
  case True
  then show ?thesis using assms by (simp add: goroutine_step_def)
next
  case False
  note k = assms [unfolded keeps_def]
  show ?thesis
  proof (cases "gs_procs g ! i")
    case (Done e)
    then show ?thesis using False k by (auto simp: goroutine_step_def keeps_def nth_list_update)
  next
    case (Step f)
    obtain w' p' where f: "f (gs_world g) = (w', p')" by fastforce
    have i: "i < length (gs_procs g)" using False k by simp
    have c: "confined_from 0 (gs_procs g)" using k by blast
    have "run_each ((gs_procs g)[i := p']) w' = out" using run_each_step [OF c i Step f] k by simp
    moreover have "confined_from 0 ((gs_procs g)[i := p'])" using confined_from_step [OF c i Step, of "gs_world g"] f by simp
    ultimately show ?thesis using False k Step f by (auto simp: goroutine_step_def keeps_def nth_list_update)
  qed
qed

lemma group_is_sequential:
  assumes "confined_from 0 (map rec_Function grp)" and "runReconciliationGroup ck sched grp s = Some (s', raw)"
  shows "run_each (map rec_Function grp) (ks_world s) = (ks_world s', map rr_Error raw)"
proof -
  let ?out = "run_each (map rec_Function grp) (ks_world s)"
  let ?g = "group_run ck grp sched (group_start grp (ks_world s) (ks_ticks s))"
  have "keeps grp ?out (group_start grp (ks_world s) (ks_ticks s))" using assms(1) by (simp add: keeps_def group_start_def)
  then have k: "keeps grp ?out ?g" unfolding group_run_def
    by (induction sched arbitrary: s rule: rev_induct) (simp_all add: keeps_step)
  have all: "\<forall>i < length grp. gs_slots ?g ! i \<noteq> None" and out: "ks_world s' = gs_world ?g" "raw = map the (gs_slots ?g)"
    using assms(2) k by (auto simp: runReconciliationGroup_def Let_def keeps_def list_all_length split: if_splits)
  have d: "gs_procs ?g ! i = Done (rr_Error (raw ! i))" if "i < length grp" for i
    using all that k out(2) by (auto simp: keeps_def)
  have "gs_procs ?g = map (\<lambda>r. Done (rr_Error r)) raw"
    by (rule nth_equalityI) (use k d out(2) in \<open>auto simp: keeps_def\<close>)
  then have "run_each (gs_procs ?g) (gs_world ?g) = (gs_world ?g, map rr_Error raw)" by (simp add: run_each_done comp_def)
  then show ?thesis using k out(1) by (simp add: keeps_def)
qed

end

section \<open>A whole run\<close>

datatype verdict = Synced | Failed go_error | Stopped string | Skipped string

definition verdict_of :: "go_error option \<Rightarrow> verdict" where
  "verdict_of err = (case asStopReconciliation err of Some m \<Rightarrow> Stopped m | None \<Rightarrow> (case err of Some e \<Rightarrow> Failed e | None \<Rightarrow> Synced))"

text \<open>What a result of the executor says.\<close>

definition result_verdict :: "reconciliation_result \<Rightarrow> verdict" where
  "result_verdict r =
     (case rr_Error r of
        Some e \<Rightarrow> Failed e
      | None \<Rightarrow> (case rr_Stop r of Some m \<Rightarrow> Stopped m | None \<Rightarrow> (case rr_SkippedBy r of Some m \<Rightarrow> Skipped m | None \<Rightarrow> Synced)))"

definition failures :: "verdict list \<Rightarrow> go_error list" where
  "failures vs = List.map_filter (\<lambda>v. case v of Failed e \<Rightarrow> Some e | _ \<Rightarrow> None) vs"

definition stops :: "verdict list \<Rightarrow> string list" where
  "stops vs = List.map_filter (\<lambda>v. case v of Stopped m \<Rightarrow> Some m | _ \<Rightarrow> None) vs"

text \<open>The reference: the functions run one after another in the order of the source; a group that fails or stops is the last one.\<close>

fun run_in_order :: "'w reconciliation list list \<Rightarrow> 'w \<Rightarrow> 'w \<times> (string \<times> verdict) list" where
  "run_in_order [] w = (w, [])"
| "run_in_order (grp # groups) w =
     (case run_each (map rec_Function grp) w of
        (w1, errs) \<Rightarrow>
          (let vs = zip (map rec_Condition grp) (map verdict_of errs) in
           if failures (map snd vs) \<noteq> [] then (w1, vs)
           else
             (case stops (map snd vs) of
                m # ms \<Rightarrow> (w1, vs @ map (\<lambda>r. (rec_Condition r, Skipped m)) (concat groups))
              | [] \<Rightarrow> (case run_in_order groups w1 of (w2, vs2) \<Rightarrow> (w2, vs @ vs2)))))"

text \<open>The functions of a group have separate parts.\<close>

definition separate :: "'w reconciliation list \<Rightarrow> bool" where
  "separate grp \<longleftrightarrow> (\<exists>cp. \<exists>sh :: 'w \<Rightarrow> 'w. world_parts cp sh \<and> (\<forall>m < length grp. confined sh (cp m) (rec_Function (grp ! m))))"

lemma separate_group:
  assumes "separate grp" and "runReconciliationGroup ck sched grp s = Some (s', raw)"
  shows "run_each (map rec_Function grp) (ks_world s) = (ks_world s', map rr_Error raw)"
proof -
  obtain cp and sh :: "'a \<Rightarrow> 'a" where w: "world_parts cp sh" and c: "\<forall>m < length grp. confined sh (cp m) (rec_Function (grp ! m))"
    using assms(1) unfolding separate_def by blast
  have "\<forall>m < length (map rec_Function grp). confined sh (cp (0 + m)) (map rec_Function grp ! m)" using c by simp
  from world_parts.group_is_sequential [OF w this assms(2)] show ?thesis .
qed

text \<open>A group of one function is separate, whatever the function does.\<close>

lemma confined_whole: "confined sh (\<lambda>u w. u) p"
proof (induction p)
  case (Step f)
  then show ?case by (intro confined_step) (auto simp: prod_eq_iff intro: Step snds.intros)
qed (rule confined_done)

lemma separate_single: "separate [r]"
proof -
  have "world_parts (\<lambda>i u w. if i = 0 then u else w) (\<lambda>w. undefined)" by unfold_locales auto
  then show ?thesis unfolding separate_def using confined_whole [of _ "rec_Function r"] by (intro exI conjI) auto
qed

lemma verdict_simps [simp]:
  "failures [] = []" "stops [] = []"
  "failures (v # vs) = (case v of Failed e \<Rightarrow> e # failures vs | _ \<Rightarrow> failures vs)"
  "stops (v # vs) = (case v of Stopped m \<Rightarrow> m # stops vs | _ \<Rightarrow> stops vs)"
  by (simp_all add: failures_def stops_def List.map_filter_simps split: verdict.split)

lemma failures_append: "failures (us @ vs) = failures us @ failures vs"
  by (simp add: failures_def List.map_filter_def)

lemma process_group_verdicts:
  assumes "process_group raw = (rs, stop, errs)" and "\<forall>r \<in> set raw. rr_Stop r = None \<and> rr_SkippedBy r = None"
  shows "map rr_Condition rs = map rr_Condition raw \<and> map result_verdict rs = map (\<lambda>r. verdict_of (rr_Error r)) raw \<and>
         errs = failures (map (\<lambda>r. verdict_of (rr_Error r)) raw) \<and>
         stop = (case stops (map (\<lambda>r. verdict_of (rr_Error r)) raw) of [] \<Rightarrow> None | m # ms \<Rightarrow> Some m)"
  using assms
proof (induction raw arbitrary: rs stop errs)
  case (Cons r raw)
  obtain rs' stop' errs' where p: "process_group raw = (rs', stop', errs')" by (cases "process_group raw") auto
  have IH: "map rr_Condition rs' = map rr_Condition raw \<and> map result_verdict rs' = map (\<lambda>r. verdict_of (rr_Error r)) raw \<and>
         errs' = failures (map (\<lambda>r. verdict_of (rr_Error r)) raw) \<and>
         stop' = (case stops (map (\<lambda>r. verdict_of (rr_Error r)) raw) of [] \<Rightarrow> None | m # ms \<Rightarrow> Some m)"
    using Cons.IH [OF p] Cons.prems(2) by simp
  have r: "rr_Stop r = None" "rr_SkippedBy r = None" using Cons.prems(2) by simp_all
  show ?case
  proof (cases "asStopReconciliation (rr_Error r)")
    case (Some m)
    then have "verdict_of (rr_Error r) = Stopped m" by (simp add: verdict_of_def)
    moreover have "rs = r\<lparr>rr_Error := None, rr_Stop := Some m\<rparr> # rs'" "stop = Some m" "errs = errs'" using Cons.prems(1) p Some by auto
    moreover have "result_verdict (r\<lparr>rr_Error := None, rr_Stop := Some m\<rparr>) = Stopped m" by (simp add: result_verdict_def)
    ultimately show ?thesis using IH by simp
  next
    case None
    have "rs = r # rs'" "stop = stop'" "errs = (case rr_Error r of Some e \<Rightarrow> e # errs' | None \<Rightarrow> errs')"
      using Cons.prems(1) p None by (auto split: option.splits)
    moreover have "result_verdict r = verdict_of (rr_Error r)" using r None by (simp add: verdict_of_def result_verdict_def split: option.split)
    moreover have "verdict_of (rr_Error r) = (case rr_Error r of Some e \<Rightarrow> Failed e | None \<Rightarrow> Synced)" using None by (simp add: verdict_of_def)
    ultimately show ?thesis using IH by (simp split: option.split)
  qed
qed simp

lemma run_groups_in_order:
  assumes "run_groups ck sched k groups s = Some (s', results, errs)" and "\<forall>grp \<in> set groups. separate grp"
  shows "run_in_order groups (ks_world s) = (ks_world s', map (\<lambda>r. (rr_Condition r, result_verdict r)) results) \<and> errs = failures (map result_verdict results)"
  using assms
proof (induction groups arbitrary: k s s' results errs)
  case (Cons grp groups)
  obtain s1 raw where g: "runReconciliationGroup ck (sched k) grp s = Some (s1, raw)"
    using Cons.prems(1) by (cases "runReconciliationGroup ck (sched k) grp s") auto
  obtain rs stop es where p: "process_group raw = (rs, stop, es)" by (cases "process_group raw") auto
  have sep: "separate grp" using Cons.prems(2) by simp
  note seq = separate_group [OF sep g]
  have n: "\<forall>r \<in> set raw. rr_Stop r = None \<and> rr_SkippedBy r = None" and c: "map rr_Condition raw = map rec_Condition grp"
    using runReconciliationGroup_results [OF g] by blast+
  note v = process_group_verdicts [OF p n]
  let ?vs = "zip (map rec_Condition grp) (map verdict_of (map rr_Error raw))"
  have vs: "?vs = map (\<lambda>r. (rr_Condition r, result_verdict r)) rs"
    using v c zip_map_fst_snd [of "map (\<lambda>r. (rr_Condition r, result_verdict r)) rs"] by (simp add: comp_def)
  have snds: "map snd (map (\<lambda>r. (rr_Condition r, result_verdict r)) rs) = map result_verdict rs" by (simp add: comp_def)
  have es: "es = failures (map result_verdict rs)" "stop = (case stops (map result_verdict rs) of [] \<Rightarrow> None | m # ms \<Rightarrow> Some m)"
    using v by simp_all
  let ?V = "map (\<lambda>r. (rr_Condition r, result_verdict r))"
  have ro: "run_in_order (grp # groups) (ks_world s) =
      (if es \<noteq> [] then (ks_world s1, ?V rs)
       else
         (case stops (map result_verdict rs) of
            m # ms \<Rightarrow> (ks_world s1, ?V rs @ map (\<lambda>r. (rec_Condition r, Skipped m)) (concat groups))
          | [] \<Rightarrow> (case run_in_order groups (ks_world s1) of (w2, vs2) \<Rightarrow> (w2, ?V rs @ vs2))))"
    by (simp only: run_in_order.simps seq prod.case Let_def vs snds es(1))
  show ?case
  proof (cases "es = []")
    case False
    then show ?thesis using Cons.prems(1) g p es(1) unfolding ro by auto
  next
    case ok: True
    show ?thesis
    proof (cases stop)
      case (Some m)
      then obtain ms where ms: "stops (map result_verdict rs) = m # ms" using es(2) by (cases "stops (map result_verdict rs)") auto
      have sk: "map (\<lambda>r. (rr_Condition r, result_verdict r)) (skippedResults now groups m) = map (\<lambda>r. (rec_Condition r, Skipped m)) (concat groups)"
        "failures (map result_verdict (skippedResults now groups m)) = []" for now
        by (induction groups) (auto simp: skippedResults_def result_verdict_def failures_def List.map_filter_def)
      have "s' = s1\<lparr>ks_ticks := Suc (ks_ticks s1)\<rparr>" "results = rs @ skippedResults (ck_Now ck (ks_ticks s1)) groups m" "errs = []"
        using Cons.prems(1) g p ok Some by auto
      then show ?thesis using es(1) ok ms sk unfolding ro by (simp add: failures_append)
    next
      case None
      then have ms: "stops (map result_verdict rs) = []" using es(2) by (cases "stops (map result_verdict rs)") auto
      obtain s2 rest errs' where r: "run_groups ck sched (Suc k) groups s1 = Some (s2, rest, errs')" and o: "s' = s2" "results = rs @ rest" "errs = errs'"
        using Cons.prems(1) g p ok None by (auto split: option.splits)
      have IH: "run_in_order groups (ks_world s1) = (ks_world s2, map (\<lambda>r. (rr_Condition r, result_verdict r)) rest) \<and> errs' = failures (map result_verdict rest)"
        using Cons.IH [OF r] Cons.prems(2) by simp
      show ?thesis using IH o es(1) ok ms unfolding ro by (simp add: failures_append)
    qed
  qed
qed simp

text \<open>C3: the parallel execution of a run is equivalent to a sequential one. If the functions of each group keep to parts of the world of their own, then every run, whatever the interleaving of its
  goroutines, leaves the world and reports the verdicts that the functions give when they run one after another in the order of the source; the error of the run joins the failures in that order.\<close>

theorem parallel_run_is_sequential:
  assumes "runReconciliations ck sched rc s = Some (s', results, err)" and "\<forall>grp \<in> set (rc_RequiredReconciliations rc (ks_world s)). separate grp"
  shows "run_in_order (rc_RequiredReconciliations rc (ks_world s)) (ks_world s) = (ks_world s', map (\<lambda>r. (rr_Condition r, result_verdict r)) results) \<and>
         err = errors_Join (failures (map result_verdict results))"
proof -
  obtain errs where r: "run_groups ck sched 0 (rc_RequiredReconciliations rc (ks_world s)) s = Some (s', results, errs)" and e: "err = errors_Join errs"
    using assms(1) by (auto simp: runReconciliations_def split: option.splits)
  show ?thesis using run_groups_in_order [OF r assms(2)] e by simp
qed

section \<open>Runs that report everything as synced\<close>

lemma verdict_of_synced: "verdict_of e = Synced \<longleftrightarrow> e = None"
  by (auto simp: verdict_of_def asStopReconciliation_def split: option.splits)

lemma run_each_length: "run_each ps w = (w', es) \<Longrightarrow> length es = length ps"
  by (induction ps arbitrary: w es) (auto split: prod.splits)

lemma no_failures: "\<forall>v \<in> set vs. v = Synced \<Longrightarrow> failures vs = [] \<and> stops vs = []"
  by (induction vs) auto

text \<open>Every function has run to its end without an error, in the order of the source.\<close>

lemma synced_in_order:
  "run_in_order groups w = (w', vs) \<Longrightarrow> \<forall>v \<in> snd ` set vs. v = Synced \<Longrightarrow>
   run_each (map rec_Function (concat groups)) w = (w', replicate (length (concat groups)) None)"
proof (induction groups arbitrary: w vs)
  case (Cons grp groups)
  obtain w1 errs where g: "run_each (map rec_Function grp) w = (w1, errs)" by fastforce
  let ?vs = "zip (map rec_Condition grp) (map verdict_of errs)"
  have len: "length errs = length grp" using run_each_length [OF g] by simp
  then have snds: "map snd ?vs = map verdict_of errs" by simp
  have "set ?vs \<subseteq> set vs"
    using Cons.prems(1) g by (auto simp: Let_def split: if_splits list.splits prod.splits)
  then have "\<forall>v \<in> set (map snd ?vs). v = Synced" using Cons.prems(2) by auto
  then have s: "\<forall>v \<in> set (map verdict_of errs). v = Synced" unfolding snds .
  then have "\<forall>e \<in> set errs. e = None" by (simp add: verdict_of_synced)
  then have errs: "errs = replicate (length grp) None" using len by (metis replicate_eqI)
  obtain w2 vs2 where r: "run_in_order groups w1 = (w2, vs2)" by fastforce
  then have o: "w' = w2" "vs = ?vs @ vs2"
    using Cons.prems(1) g no_failures [OF s] snds by (auto simp: Let_def)
  then have "\<forall>v \<in> snd ` set vs2. v = Synced" using Cons.prems(2) by auto
  from Cons.IH [OF r [folded o(1)] this] show ?case by (simp add: run_each_append g errs replicate_add)
qed simp

lemma synced_run_each:
  assumes "runReconciliations ck sched rc s = Some (s', results, err)" and "rc_RequiredReconciliations rc (ks_world s) = groups"
    and "\<forall>grp \<in> set groups. separate grp" and "\<forall>r \<in> set results. result_verdict r = Synced"
  shows "run_each (map rec_Function (concat groups)) (ks_world s) = (ks_world s', replicate (length (concat groups)) None)"
proof -
  obtain errs where r: "run_groups ck sched 0 groups s = Some (s', results, errs)"
    using assms(1,2) by (auto simp: runReconciliations_def split: option.splits)
  show ?thesis
    using run_groups_in_order [OF r assms(3)] assms(4) by (intro synced_in_order [of groups _ "ks_world s'"]) auto
qed

section \<open>Functions on one field of the world\<close>

text \<open>A function that works on a field, and reads what is shared when it starts.\<close>

primrec on_field :: "('w \<Rightarrow> 'p) \<Rightarrow> ('p \<Rightarrow> 'w \<Rightarrow> 'w) \<Rightarrow> 'p proc \<Rightarrow> 'w proc" where
  "on_field get put (Done e) = Done e"
| "on_field get put (Step f) = Step (\<lambda>w. case (map_prod id (on_field get put) \<circ> f) (get w) of (x, p) \<Rightarrow> (put x w, p))"

definition reading :: "('w \<Rightarrow> 'c) \<Rightarrow> ('w \<Rightarrow> 'p) \<Rightarrow> ('p \<Rightarrow> 'w \<Rightarrow> 'w) \<Rightarrow> ('c \<Rightarrow> 'p proc) \<Rightarrow> 'w proc" where
  "reading sh get put q = Step (\<lambda>w. (w, on_field get put (q (sh w))))"

definition field :: "('w \<Rightarrow> 'p) \<Rightarrow> ('p \<Rightarrow> 'w \<Rightarrow> 'w) \<Rightarrow> bool" where
  "field get put \<longleftrightarrow> (\<forall>x w. get (put x w) = x) \<and> (\<forall>x y w. put x (put y w) = put x w) \<and> (\<forall>w. put (get w) w = w)"

lemma fieldD:
  assumes "field get put"
  shows "get (put x w) = x" and "put x (put y w) = put x w" and "put (get w) w = w"
  using assms by (simp_all add: field_def)

lemma on_field_confined:
  assumes "field get put"
  shows "confined sh (\<lambda>u w. put (get u) w) (on_field get put q)"
proof (induction q)
  case (Step f)
  show ?case unfolding on_field.simps
  proof (rule confined_step)
    show "confined sh (\<lambda>u w. put (get u) w) (snd (case (map_prod id (on_field get put) \<circ> f) (get w) of (x, p) \<Rightarrow> (put x w, p)))" for w
      using Step [of "f (get w)" "snd (f (get w))"] by (simp add: case_prod_beta snds.simps) 
  qed (simp add: case_prod_beta fieldD [OF assms])
qed (simp add: confined_done)

lemma reading_confined:
  assumes "field get put" and "\<And>x w. sh (put x w) = sh w"
  shows "confined sh (\<lambda>u w. put (get u) w) (reading sh get put q)"
  unfolding reading_def
  by (rule confined_step) (auto simp: fieldD [OF assms(1)] assms(2) on_field_confined [OF assms(1)])

lemma run_on_field:
  assumes "field get put"
  shows "run_alone (on_field get put q) w = (put (fst (run_alone q (get w))) w, snd (run_alone q (get w)))"
proof (induction q arbitrary: w)
  case (Step f)
  have "run_alone (on_field get put (snd (f (get w)))) (put (fst (f (get w))) w) =
      (put (fst (run_alone (snd (f (get w))) (fst (f (get w))))) (put (fst (f (get w))) w), snd (run_alone (snd (f (get w))) (fst (f (get w)))))"
    using Step [of "f (get w)" "snd (f (get w))" "put (fst (f (get w))) w"] by (simp add: snds.simps fieldD [OF assms])
  then show ?case by (simp add: case_prod_beta fieldD [OF assms])
qed (simp add: fieldD [OF assms])

lemma run_reading:
  assumes "field get put"
  shows "run_alone (reading sh get put q) w = (put (fst (run_alone (q (sh w)) (get w))) w, snd (run_alone (q (sh w)) (get w)))"
  by (simp add: reading_def run_on_field [OF assms])

lemma confined_coarser:
  assumes "confined sh cp p" and "\<And>w v. sh' w = sh' v \<Longrightarrow> sh w = sh v"
  shows "confined sh' cp p"
  using assms(1)
proof (induction rule: confined.induct)
  case (confined_step f)
  show ?case by (rule confined.confined_step) (use confined_step assms(2) in blast)+
qed (rule confined.confined_done)

text \<open>
  A process \<open>q\<close> that makes its calls in any number of steps stands for a function if it has the same outcome when it runs alone.
\<close>

definition stands_for :: "('c \<Rightarrow> 'p proc) \<Rightarrow> ('c \<Rightarrow> 'p \<Rightarrow> 'p \<times> go_error option) \<Rightarrow> bool" where
  "stands_for q f \<longleftrightarrow> (\<forall>c x. run_alone (q c) x = f c x)"

end
