(* ===== verification/ActionsSettings.thy ===== *)
theory ActionsSettings
  imports OrgTypes Errors "HOL-Library.Char_ord" "HOL-Library.List_Lexorder"
begin

text \<open>
  The GitHub Actions settings of an organization (\<^verbatim>\<open>orgrec/rec_actions_settings.go\<close>) and of a repository (\<^verbatim>\<open>reporec/rec_actions_settings.go\<close>) with
  \<^verbatim>\<open>mapper/github_actions_settings.go\<close>. GitHub answers as a function of the calls made so far. The login of the organization, an argument of every
  call, is left out, as are the answers of the setters, which the code ignores.
\<close>

section \<open>Data\<close>

record selected_allowed =
  sa_GitHubOwnedAllowed :: "bool option"
  sa_VerifiedAllowed :: "bool option"
  sa_PatternsAllowed :: "string list option"

record runner_group =
  ru_Name :: string
  ru_Visibility :: "string option"
  ru_RestrictedToWorkflows :: "bool option"
  ru_SelectedWorkflows :: "string list option"

record actions_settings =
  as_EnabledRepositories :: "string option"
  as_AllowedActions :: "string option"
  as_SelectedAllowedActions :: "selected_allowed option"
  as_ShaPinningRequired :: "bool option"
  as_DefaultWorkflowPermissions :: "string option"
  as_CanApprovePullRequestReviews :: "bool option"
  as_ArtifactAndLogRetentionDays :: "int option"
  as_RunnerGroups :: "runner_group list"

text \<open>What the reconciler reads of the repositories of the organization.\<close>

record actions_repo =
  ar_ID :: "int option"
  ar_ActionsEnabled :: "bool option"
  ar_AvailableActionsRunnerGroups :: "string list"

record gh_permissions =
  pm_EnabledRepositories :: string
  pm_AllowedActions :: "string option"
  pm_SHAPinningRequired :: "bool option"

record gh_allowed =
  al_GithubOwnedAllowed :: "bool option"
  al_VerifiedAllowed :: "bool option"
  al_PatternsAllowed :: "string list option"

record gh_workflow_permissions =
  wp_DefaultWorkflowPermissions :: "string option"
  wp_CanApprovePullRequestReviews :: "bool option"

record gh_runner_group =
  gg_ID :: "int option"
  gg_Name :: "string option"
  gg_Visibility :: "string option"
  gg_RestrictedToWorkflows :: "bool option"
  gg_SelectedWorkflows :: "string list option"

record create_group =
  cg_Name :: string
  cg_Visibility :: "string option"
  cg_SelectedRepositoryIDs :: "int list option"
  cg_RestrictedToWorkflows :: "bool option"
  cg_SelectedWorkflows :: "string list option"

record update_group =
  ug_Name :: string
  ug_Visibility :: "string option"
  ug_RestrictedToWorkflows :: "bool option"
  ug_SelectedWorkflows :: "string list option"

section \<open>The mapper\<close>

text \<open>\<^verbatim>\<open>cmp.Equal\<close> with \<^verbatim>\<open>SortSlices(strings.Compare)\<close> but without \<^verbatim>\<open>EquateEmpty\<close>: nil is not an empty slice.\<close>

definition equal_sorted :: "string list option \<Rightarrow> string list option \<Rightarrow> bool" where
  "equal_sorted xs ys \<longleftrightarrow> map_option sort xs = map_option sort ys"

definition equal_ptr :: "('a \<Rightarrow> 'a \<Rightarrow> bool) \<Rightarrow> 'a option \<Rightarrow> 'a option \<Rightarrow> bool" where
  "equal_ptr eq x y \<longleftrightarrow> (case (x, y) of (None, None) \<Rightarrow> True | (Some a, Some b) \<Rightarrow> eq a b | _ \<Rightarrow> False)"

definition EqualActionsPermissions :: "gh_permissions option \<Rightarrow> gh_permissions option \<Rightarrow> bool" where
  "EqualActionsPermissions = equal_ptr (\<lambda>c d. pm_SHAPinningRequired c = pm_SHAPinningRequired d \<and>
     pm_AllowedActions c = pm_AllowedActions d \<and> pm_EnabledRepositories c = pm_EnabledRepositories d)"

definition EqualActionsAllowed :: "gh_allowed option \<Rightarrow> gh_allowed option \<Rightarrow> bool" where
  "EqualActionsAllowed = equal_ptr (\<lambda>c d. al_GithubOwnedAllowed c = al_GithubOwnedAllowed d \<and>
     al_VerifiedAllowed c = al_VerifiedAllowed d \<and> equal_sorted (al_PatternsAllowed c) (al_PatternsAllowed d))"

definition EqualDefaultWorkflowPermissions :: "gh_workflow_permissions option \<Rightarrow> gh_workflow_permissions option \<Rightarrow> bool" where
  "EqualDefaultWorkflowPermissions = equal_ptr (\<lambda>c d. wp_DefaultWorkflowPermissions c = wp_DefaultWorkflowPermissions d \<and>
     wp_CanApprovePullRequestReviews c = wp_CanApprovePullRequestReviews d)"

definition EqualRunnerGroup :: "runner_group \<Rightarrow> gh_runner_group \<Rightarrow> bool" where
  "EqualRunnerGroup k g \<longleftrightarrow>
     (let equalRestricted = (ru_RestrictedToWorkflows k = gg_RestrictedToWorkflows g);
          equalWorkflows = (if equalRestricted \<and> ru_RestrictedToWorkflows k = Some True
            then equal_sorted (ru_SelectedWorkflows k) (gg_SelectedWorkflows g) else True) in
      ru_Name k = WithDefault (gg_Name g) [] \<and> equalRestricted \<and> ru_Visibility k = gg_Visibility g \<and> equalWorkflows)"

definition GetSelectedRepositoryIDsForRunnerGroup :: "runner_group \<Rightarrow> actions_repo list \<Rightarrow> int list option" where
  "GetSelectedRepositoryIDsForRunnerGroup k repos =
     (if ru_Visibility k = Some ''selected''
      then Some (List.map_filter (\<lambda>r. if List.member (ar_AvailableActionsRunnerGroups r) (ru_Name k) then ar_ID r else None) repos)
      else None)"

definition MapRunnerGroupToCreateRequest :: "runner_group \<Rightarrow> actions_repo list \<Rightarrow> create_group" where
  "MapRunnerGroupToCreateRequest k repos =
     \<lparr>cg_Name = ru_Name k, cg_Visibility = ru_Visibility k, cg_SelectedRepositoryIDs = GetSelectedRepositoryIDsForRunnerGroup k repos,
      cg_RestrictedToWorkflows = ru_RestrictedToWorkflows k, cg_SelectedWorkflows = ru_SelectedWorkflows k\<rparr>"

definition MapRunnerGroupToUpdateRequest :: "runner_group \<Rightarrow> update_group" where
  "MapRunnerGroupToUpdateRequest k =
     \<lparr>ug_Name = ru_Name k, ug_Visibility = ru_Visibility k, ug_RestrictedToWorkflows = ru_RestrictedToWorkflows k,
      ug_SelectedWorkflows = ru_SelectedWorkflows k\<rparr>"

text \<open>Repositories on GitHub are given by their IDs.\<close>

definition EqualRepositoryIDs :: "int list option \<Rightarrow> int list \<Rightarrow> bool" where
  "EqualRepositoryIDs expected current \<longleftrightarrow>
     length (WithDefault expected []) = length current \<and> list_all (List.member (WithDefault expected [])) current"

section \<open>The organization\<close>

datatype actions_call =
    SetActionsPermissions gh_permissions
  | SetActionsEnabledRepositories "int list"
  | SetActionsRetention int
  | SetActionsAllowed gh_allowed
  | SetDefaultWorkflowPermissions gh_workflow_permissions
  | SetSelfHostedRunnersSettings string
  | UpdateRunnerGroup int update_group
  | DeleteRunnerGroup int
  | CreateRunnerGroup create_group
  | SetSelectedRepositoriesForRunnerGroup int "int list option"

record actions_api =
  aa_GetActionsPermissions :: "actions_call list \<Rightarrow> (go_error, gh_permissions option) result"
  aa_GetActionsEnabledRepositories :: "actions_call list \<Rightarrow> (go_error, int list) result"
  aa_GetActionsRetention :: "actions_call list \<Rightarrow> (go_error, int) result"
  aa_GetActionsAllowed :: "actions_call list \<Rightarrow> (go_error, gh_allowed option) result"
  aa_GetDefaultWorkflowPermissions :: "actions_call list \<Rightarrow> (go_error, gh_workflow_permissions option) result"
  aa_GetSelfHostedRunnersSettings :: "actions_call list \<Rightarrow> (go_error, string) result"
  aa_GetRunnerGroups :: "actions_call list \<Rightarrow> (go_error, gh_runner_group list) result"
  aa_GetSelectedRepositoriesForRunnerGroup :: "actions_call list \<Rightarrow> int \<Rightarrow> (go_error, int list) result"
  aa_getReferencingK8sRepos :: "actions_call list \<Rightarrow> (go_error, actions_repo list) result"
  aa_call :: "actions_call list \<Rightarrow> actions_call \<Rightarrow> go_error option"

text \<open>A reconciliation, and several of them up to the first error.\<close>

type_synonym 'c rec_step = "'c list \<Rightarrow> 'c list \<times> go_error option"

fun run_all :: "'c rec_step list \<Rightarrow> 'c rec_step" where
  "run_all [] h = (h, None)"
| "run_all (f # fs) h = (case f h of (h1, Some e) \<Rightarrow> (h1, Some e) | (h1, None) \<Rightarrow> run_all fs h1)"

text \<open>The common form: read a setting, and write it unless the comparison holds.\<close>

definition sync_setting ::
    "('c list \<Rightarrow> (go_error, 'a) result) \<Rightarrow> ('a \<Rightarrow> bool) \<Rightarrow> ('c list \<Rightarrow> 'c \<Rightarrow> go_error option) \<Rightarrow> 'c \<Rightarrow> 'c rec_step" where
  "sync_setting get same do_call c h =
     (case get h of
        Inl e \<Rightarrow> (h, Some e)
      | Inr cur \<Rightarrow> if same cur then (h, None) else (h @ [c], do_call h c))"

definition enabledReposNone :: string where
  "enabledReposNone = ''none''"

definition IsActionsDisabled :: "actions_settings \<Rightarrow> bool" where
  "IsActionsDisabled s \<longleftrightarrow> as_EnabledRepositories s = None \<or> as_EnabledRepositories s = Some ''none''"

definition GetEnabledRepositories :: "gh_permissions option \<Rightarrow> string" where
  "GetEnabledRepositories p = (case p of None \<Rightarrow> [] | Some q \<Rightarrow> pm_EnabledRepositories q)"

definition disableActionsForGHOrg :: "actions_api \<Rightarrow> actions_call rec_step" where
  "disableActionsForGHOrg api =
     sync_setting (aa_GetActionsPermissions api) (\<lambda>cur. GetEnabledRepositories cur = enabledReposNone) (aa_call api)
       (SetActionsPermissions \<lparr>pm_EnabledRepositories = enabledReposNone, pm_AllowedActions = None, pm_SHAPinningRequired = None\<rparr>)"

definition containsSameIDs :: "int list \<Rightarrow> int list \<Rightarrow> bool" where
  "containsSameIDs current ids \<longleftrightarrow> length current = length ids \<and> list_all (List.member ids) current"

text \<open>The keys of the map of expected IDs; \<open>ord\<close> is the order in which they are collected.\<close>

definition expectedIDs :: "actions_repo list \<Rightarrow> int list" where
  "expectedIDs repos = remdups (List.map_filter (\<lambda>r. if WithDefault (ar_ActionsEnabled r) True then ar_ID r else None) repos)"

definition reconcileActionsEnabledRepositories :: "(int list \<Rightarrow> int list) \<Rightarrow> actions_api \<Rightarrow> actions_call rec_step" where
  "reconcileActionsEnabledRepositories ord api h =
     (case aa_getReferencingK8sRepos api h of
        Inl e \<Rightarrow> (h, Some e)
      | Inr repos \<Rightarrow>
          sync_setting (aa_GetActionsEnabledRepositories api) (\<lambda>cur. containsSameIDs cur (expectedIDs repos)) (aa_call api)
            (SetActionsEnabledRepositories (ord (expectedIDs repos))) h)"

definition expectedPermissions :: "actions_settings \<Rightarrow> gh_permissions" where
  "expectedPermissions s =
     \<lparr>pm_EnabledRepositories = WithDefault (as_EnabledRepositories s) enabledReposNone,
      pm_AllowedActions = WithDefaultAsPtr (as_AllowedActions s) ''selected'',
      pm_SHAPinningRequired = WithDefaultAsPtr (as_ShaPinningRequired s) False\<rparr>"

definition reconcilePermissions :: "(int list \<Rightarrow> int list) \<Rightarrow> actions_settings \<Rightarrow> actions_api \<Rightarrow> actions_call rec_step" where
  "reconcilePermissions ord s api h =
     (case aa_GetActionsPermissions api h of
        Inl e \<Rightarrow> (h, Some e)
      | Inr current \<Rightarrow>
          (let expected = expectedPermissions s in
           if \<not> EqualActionsPermissions (Some expected) current
           then (h @ [SetActionsPermissions expected], aa_call api h (SetActionsPermissions expected))
           else if pm_EnabledRepositories expected = ''selected'' then reconcileActionsEnabledRepositories ord api h
           else (h, None)))"

definition expectedRetention :: "actions_settings \<Rightarrow> int" where
  "expectedRetention s = WithDefault (as_ArtifactAndLogRetentionDays s) 400"

definition reconcileRetention :: "actions_settings \<Rightarrow> actions_api \<Rightarrow> actions_call rec_step" where
  "reconcileRetention s api =
     sync_setting (aa_GetActionsRetention api) (\<lambda>cur. expectedRetention s = cur) (aa_call api) (SetActionsRetention (expectedRetention s))"

definition expectedAllowed :: "actions_settings \<Rightarrow> gh_allowed" where
  "expectedAllowed s =
     (case as_SelectedAllowedActions s of
        None \<Rightarrow> \<lparr>al_GithubOwnedAllowed = Some False, al_VerifiedAllowed = Some False, al_PatternsAllowed = Some []\<rparr>
      | Some a \<Rightarrow> \<lparr>al_GithubOwnedAllowed = WithDefaultAsPtr (sa_GitHubOwnedAllowed a) False, al_VerifiedAllowed = WithDefaultAsPtr (sa_VerifiedAllowed a) False,
          al_PatternsAllowed = WithEmptyDefault (sa_PatternsAllowed a)\<rparr>)"

definition reconcileAllowedActions :: "actions_settings \<Rightarrow> actions_api \<Rightarrow> actions_call rec_step" where
  "reconcileAllowedActions s api h =
     (if IsActionsDisabled s \<or> as_AllowedActions s \<noteq> Some ''selected'' then (h, None)
      else sync_setting (aa_GetActionsAllowed api) (EqualActionsAllowed (Some (expectedAllowed s))) (aa_call api) (SetActionsAllowed (expectedAllowed s)) h)"

definition expectedWorkflowPermissions :: "actions_settings \<Rightarrow> gh_workflow_permissions" where
  "expectedWorkflowPermissions s =
     \<lparr>wp_DefaultWorkflowPermissions = WithDefaultAsPtr (as_DefaultWorkflowPermissions s) ''read'',
      wp_CanApprovePullRequestReviews = WithDefaultAsPtr (as_CanApprovePullRequestReviews s) False\<rparr>"

definition reconcileDefaultWorkflowPermissions :: "actions_settings \<Rightarrow> actions_api \<Rightarrow> actions_call rec_step" where
  "reconcileDefaultWorkflowPermissions s api =
     sync_setting (aa_GetDefaultWorkflowPermissions api) (EqualDefaultWorkflowPermissions (Some (expectedWorkflowPermissions s))) (aa_call api)
       (SetDefaultWorkflowPermissions (expectedWorkflowPermissions s))"

definition reconcileSelfHostedRunnerSettings :: "actions_api \<Rightarrow> actions_call rec_step" where
  "reconcileSelfHostedRunnerSettings api =
     sync_setting (aa_GetSelfHostedRunnersSettings api) (\<lambda>cur. cur = enabledReposNone) (aa_call api) (SetSelfHostedRunnersSettings enabledReposNone)"

section \<open>Runner groups\<close>

definition updateSelectedRepositoriesForRunnerGroup :: "actions_api \<Rightarrow> runner_group \<Rightarrow> actions_repo list \<Rightarrow> gh_runner_group \<Rightarrow> actions_call rec_step" where
  "updateSelectedRepositoriesForRunnerGroup api k repos g =
     (let ids = GetSelectedRepositoryIDsForRunnerGroup k repos; i = WithDefault (gg_ID g) 0 in
      sync_setting (\<lambda>h. aa_GetSelectedRepositoriesForRunnerGroup api h i) (EqualRepositoryIDs ids) (aa_call api) (SetSelectedRepositoriesForRunnerGroup i ids))"

text \<open>One iteration of the loop over the groups GitHub has.\<close>

definition sync_group :: "actions_api \<Rightarrow> (string, runner_group) gomap \<Rightarrow> actions_repo list \<Rightarrow> gh_runner_group \<Rightarrow> actions_call rec_step" where
  "sync_group api expectedByName repos g h =
     (let i = WithDefault (gg_ID g) 0 in
      case map_get expectedByName (WithDefault (gg_Name g) []) of
        None \<Rightarrow> (h @ [DeleteRunnerGroup i], aa_call api h (DeleteRunnerGroup i))
      | Some k \<Rightarrow>
          (let c = UpdateRunnerGroup i (MapRunnerGroupToUpdateRequest k) in
           case (if EqualRunnerGroup k g then (h, None) else (h @ [c], aa_call api h c)) of
             (h1, Some e) \<Rightarrow> (h1, Some e)
           | (h1, None) \<Rightarrow>
               (if ru_Visibility k \<noteq> None \<and> ru_Visibility k \<noteq> Some ''selected'' then (h1, None)
                else updateSelectedRepositoriesForRunnerGroup api k repos g h1)))"

definition create_missing :: "actions_api \<Rightarrow> actions_repo list \<Rightarrow> runner_group \<Rightarrow> actions_call rec_step" where
  "create_missing api repos k h =
     (let c = CreateRunnerGroup (MapRunnerGroupToCreateRequest k repos) in (h @ [c], aa_call api h c))"

text \<open>The names in \<^verbatim>\<open>expectedSeen\<close> when the loop has ended are those of the listed groups that have a match.\<close>

definition reconcileRunnerGroups :: "actions_settings \<Rightarrow> actions_api \<Rightarrow> actions_call rec_step" where
  "reconcileRunnerGroups s api h =
     (case aa_GetRunnerGroups api h of
        Inl e \<Rightarrow> (h, Some e)
      | Inr current \<Rightarrow>
          (case aa_getReferencingK8sRepos api h of
             Inl e \<Rightarrow> (h, Some e)
           | Inr repos \<Rightarrow>
               (let expected = as_RunnerGroups s;
                    byName = put_all ru_Name (\<lambda>k. k) expected [];
                    seen = List.map_filter (\<lambda>g. map_option ru_Name (map_get byName (WithDefault (gg_Name g) []))) current in
                run_all (map (sync_group api byName repos) current @
                  map (create_missing api repos) (filter (\<lambda>k. \<not> List.member seen (ru_Name k)) expected)) h)))"

section \<open>The whole reconciliation\<close>

definition org_reconcileActionsSettings :: "(int list \<Rightarrow> int list) \<Rightarrow> actions_settings \<Rightarrow> actions_api \<Rightarrow> actions_call rec_step" where
  "org_reconcileActionsSettings ord s api =
     (if IsActionsDisabled s then disableActionsForGHOrg api
      else run_all [reconcilePermissions ord s api, reconcileRetention s api, reconcileAllowedActions s api,
        reconcileDefaultWorkflowPermissions s api, reconcileSelfHostedRunnerSettings api, reconcileRunnerGroups s api])"

section \<open>A repository\<close>

datatype access_call = SetAccessLevel string

record access_api =
  xa_GetOrganization :: "(go_error, actions_settings \<times> string) result"
  xa_GetAccessLevel :: "access_call list \<Rightarrow> (go_error, string) result"
  xa_call :: "access_call list \<Rightarrow> access_call \<Rightarrow> go_error option"

definition reconcileActionsAccessLevelForExternalWorkflows :: "string option \<Rightarrow> access_api \<Rightarrow> access_call rec_step" where
  "reconcileActionsAccessLevelForExternalWorkflows level api =
     sync_setting (xa_GetAccessLevel api) (\<lambda>cur. cur = WithDefault level ''none'') (xa_call api) (SetAccessLevel (WithDefault level ''none''))"

definition repo_reconcileActionsSettings :: "string \<Rightarrow> string option \<Rightarrow> access_api \<Rightarrow> access_call rec_step" where
  "repo_reconcileActionsSettings visibility level api h =
     (case xa_GetOrganization api of
        Inl e \<Rightarrow> (h, Some e)
      | Inr (s, plan) \<Rightarrow>
          (if IsActionsDisabled s then (h, None)
           else if HasEnterpriseFeatures plan \<and> visibility \<noteq> ''public''
           then reconcileActionsAccessLevelForExternalWorkflows level api h
           else (h, None)))"

end
