(* ===== verification/RepositoryRun.thy ===== *)
theory RepositoryRun
  imports ParallelRuns Webhooks CustomProperties RulesetSync ActionsSettings
begin

text \<open>
  A whole run for a repository: the executor, the order of its groups and the reconcilers together. The reconcilers of the second group run in parallel on parts of the world of their own: the
  property values, hooks, rulesets, access level, topics, autolinks and deploy keys of the repository on GitHub, with the status of the hooks in the resource. All of them read the owner, name
  and ID that the first group has set.
\<close>

section \<open>The world of a repository\<close>

record repo_parts =
  pt_Properties :: "property_call list"
  pt_Hooks :: "gh_hook list \<times> (string, string) gomap"
  pt_Rulesets :: "gh_ruleset list"
  pt_Actions :: "access_call list"
  pt_Topics :: "repo_call list"
  pt_Autolinks :: "gh_autolink list"
  pt_Keys :: "gh_key list"

text \<open>The functions of the second group, each a process on its part; they are given the state that the first group leaves.\<close>

record repo_functions =
  fn_Properties :: "repo_state \<Rightarrow> property_call list proc"
  fn_Hooks :: "repo_state \<Rightarrow> (gh_hook list \<times> (string, string) gomap) proc"
  fn_Rulesets :: "repo_state \<Rightarrow> gh_ruleset list proc"
  fn_Actions :: "repo_state \<Rightarrow> access_call list proc"
  fn_Topics :: "repo_state \<Rightarrow> repo_call list proc"
  fn_Autolinks :: "repo_state \<Rightarrow> gh_autolink list proc"
  fn_Keys :: "repo_state \<Rightarrow> gh_key list proc"

abbreviation on_part :: "(repo_parts \<Rightarrow> 'p) \<Rightarrow> (('p \<Rightarrow> 'p) \<Rightarrow> repo_parts \<Rightarrow> repo_parts) \<Rightarrow> (repo_state \<Rightarrow> 'p proc) \<Rightarrow> repo_parts repo_world proc" where
  "on_part get upd q \<equiv> reading rw_repo (\<lambda>w. get (rw_other w)) (\<lambda>x w. w\<lparr>rw_other := upd (\<lambda>y. x) (rw_other w)\<rparr>) q"

definition repo_procs_of :: "repo_functions \<Rightarrow> repo_parts repo_world repo_procs" where
  "repo_procs_of q =
     \<lparr>rf_CustomProperties = on_part pt_Properties pt_Properties_update (fn_Properties q),
      rf_Webhooks = on_part pt_Hooks pt_Hooks_update (fn_Hooks q),
      rf_RuleSets = on_part pt_Rulesets pt_Rulesets_update (fn_Rulesets q),
      rf_ActionsSettings = on_part pt_Actions pt_Actions_update (fn_Actions q),
      rf_Topics = on_part pt_Topics pt_Topics_update (fn_Topics q),
      rf_Autolinks = on_part pt_Autolinks pt_Autolinks_update (fn_Autolinks q),
      rf_DeployKeys = on_part pt_Keys pt_Keys_update (fn_Keys q)\<rparr>"

section \<open>The parts are separate\<close>

definition part_copy :: "nat \<Rightarrow> repo_parts repo_world \<Rightarrow> repo_parts repo_world \<Rightarrow> repo_parts repo_world" where
  "part_copy i u w = w\<lparr>rw_other :=
     (let o1 = rw_other u; o2 = rw_other w in
      if i = 0 then o2\<lparr>pt_Properties := pt_Properties o1\<rparr> else if i = 1 then o2\<lparr>pt_Hooks := pt_Hooks o1\<rparr>
      else if i = 2 then o2\<lparr>pt_Rulesets := pt_Rulesets o1\<rparr> else if i = 3 then o2\<lparr>pt_Actions := pt_Actions o1\<rparr>
      else if i = 4 then o2\<lparr>pt_Topics := pt_Topics o1\<rparr> else if i = 5 then o2\<lparr>pt_Autolinks := pt_Autolinks o1\<rparr>
      else if i = 6 then o2\<lparr>pt_Keys := pt_Keys o1\<rparr> else o2)\<rparr>"

text \<open>What the functions share is the state of the repository.\<close>

definition repo_shared :: "repo_parts repo_world \<Rightarrow> repo_parts repo_world" where
  "repo_shared w = w\<lparr>rw_other := \<lparr>pt_Properties = [], pt_Hooks = ([], []), pt_Rulesets = [], pt_Actions = [], pt_Topics = [], pt_Autolinks = [], pt_Keys = []\<rparr>\<rparr>"

interpretation repo_world_parts: world_parts part_copy repo_shared
proof
  show "part_copy i w w = w" for i w by (simp add: part_copy_def Let_def)
  show "repo_shared (part_copy i u w) = repo_shared w" for i u w by (simp add: part_copy_def repo_shared_def)
  show "i \<noteq> j \<Longrightarrow> part_copy i u (part_copy j v w) = part_copy j v (part_copy i u w)" for i j u v w
    by (simp add: part_copy_def Let_def)
qed

lemma shared_repo: "repo_shared w = repo_shared v \<Longrightarrow> rw_repo w = rw_repo v"
  by (metis repo_shared_def repo_world.select_convs(1) repo_world.surjective repo_world.update_convs(2))

lemma part_confined:
  assumes "field (\<lambda>w :: repo_parts repo_world. get (rw_other w)) (\<lambda>x w. w\<lparr>rw_other := upd (\<lambda>y. x) (rw_other w)\<rparr>)"
  shows "confined repo_shared (\<lambda>u w. w\<lparr>rw_other := upd (\<lambda>y. get (rw_other u)) (rw_other w)\<rparr>) (on_part get upd q)"
proof (rule confined_coarser)
  show "confined rw_repo (\<lambda>u w. w\<lparr>rw_other := upd (\<lambda>y. get (rw_other u)) (rw_other w)\<rparr>) (on_part get upd q)"
    by (rule reading_confined [OF assms]) simp
qed (rule shared_repo)

lemma repo_fields:
  "field (\<lambda>w :: repo_parts repo_world. pt_Properties (rw_other w)) (\<lambda>x w. w\<lparr>rw_other := pt_Properties_update (\<lambda>y. x) (rw_other w)\<rparr>)"
  "field (\<lambda>w :: repo_parts repo_world. pt_Hooks (rw_other w)) (\<lambda>x w. w\<lparr>rw_other := pt_Hooks_update (\<lambda>y. x) (rw_other w)\<rparr>)"
  "field (\<lambda>w :: repo_parts repo_world. pt_Rulesets (rw_other w)) (\<lambda>x w. w\<lparr>rw_other := pt_Rulesets_update (\<lambda>y. x) (rw_other w)\<rparr>)"
  "field (\<lambda>w :: repo_parts repo_world. pt_Actions (rw_other w)) (\<lambda>x w. w\<lparr>rw_other := pt_Actions_update (\<lambda>y. x) (rw_other w)\<rparr>)"
  "field (\<lambda>w :: repo_parts repo_world. pt_Topics (rw_other w)) (\<lambda>x w. w\<lparr>rw_other := pt_Topics_update (\<lambda>y. x) (rw_other w)\<rparr>)"
  "field (\<lambda>w :: repo_parts repo_world. pt_Autolinks (rw_other w)) (\<lambda>x w. w\<lparr>rw_other := pt_Autolinks_update (\<lambda>y. x) (rw_other w)\<rparr>)"
  "field (\<lambda>w :: repo_parts repo_world. pt_Keys (rw_other w)) (\<lambda>x w. w\<lparr>rw_other := pt_Keys_update (\<lambda>y. x) (rw_other w)\<rparr>)"
  by (simp_all add: field_def)

lemma all_less_seven: "(\<forall>m < (7 :: nat). P m) \<longleftrightarrow> P 0 \<and> P 1 \<and> P 2 \<and> P 3 \<and> P 4 \<and> P 5 \<and> P 6"
  by (simp add: numeral_eq_Suc All_less_Suc2 del: One_nat_def) (auto simp: numeral_eq_Suc)

lemma repository_separate: "\<forall>grp \<in> set (repo_RequiredReconciliations api spec (repo_procs_of q)). separate grp"
proof -
  let ?grp = "repo_RequiredReconciliations api spec (repo_procs_of q) ! 1"
  have copies: "part_copy 0 = (\<lambda>u w. w\<lparr>rw_other := pt_Properties_update (\<lambda>y. pt_Properties (rw_other u)) (rw_other w)\<rparr>)"
    "part_copy (Suc 0) = (\<lambda>u w. w\<lparr>rw_other := pt_Hooks_update (\<lambda>y. pt_Hooks (rw_other u)) (rw_other w)\<rparr>)"
    "part_copy 2 = (\<lambda>u w. w\<lparr>rw_other := pt_Rulesets_update (\<lambda>y. pt_Rulesets (rw_other u)) (rw_other w)\<rparr>)"
    "part_copy 3 = (\<lambda>u w. w\<lparr>rw_other := pt_Actions_update (\<lambda>y. pt_Actions (rw_other u)) (rw_other w)\<rparr>)"
    "part_copy 4 = (\<lambda>u w. w\<lparr>rw_other := pt_Topics_update (\<lambda>y. pt_Topics (rw_other u)) (rw_other w)\<rparr>)"
    "part_copy 5 = (\<lambda>u w. w\<lparr>rw_other := pt_Autolinks_update (\<lambda>y. pt_Autolinks (rw_other u)) (rw_other w)\<rparr>)"
    "part_copy 6 = (\<lambda>u w. w\<lparr>rw_other := pt_Keys_update (\<lambda>y. pt_Keys (rw_other u)) (rw_other w)\<rparr>)"
    by (simp_all add: part_copy_def fun_eq_iff Let_def)
  have l: "length ?grp = 7" by (simp add: repo_RequiredReconciliations_def)
  have "\<forall>m < 7. confined repo_shared (part_copy m) (rec_Function (?grp ! m))"
    unfolding all_less_seven
    by (simp add: repo_RequiredReconciliations_def repo_procs_of_def copies repo_fields [THEN part_confined])
  then have "\<forall>m < length ?grp. confined repo_shared (part_copy m) (rec_Function (?grp ! m))" unfolding l .
  then have "separate ?grp" unfolding separate_def using repo_world_parts.world_parts_axioms by blast
  then show ?thesis using separate_single by (simp add: repo_RequiredReconciliations_def)
qed

section \<open>The outcome of a run\<close>

text \<open>A run that reports every component as synced has run every function to its end without an error.\<close>

lemma synced_run:
  assumes "runReconciliations ck sched rc s = Some (s', results, err)"
    and "rc_RequiredReconciliations rc (ks_world s) = repo_RequiredReconciliations api spec (repo_procs_of q)"
    and "\<forall>r \<in> set results. result_verdict r = Synced"
    and "reconcileRepository api spec (rw_repo (ks_world s)) = (c, e)"
  shows "e = None \<and>
    run_alone (fn_Properties q c) (pt_Properties (rw_other (ks_world s))) = (pt_Properties (rw_other (ks_world s')), None) \<and>
    run_alone (fn_Hooks q c) (pt_Hooks (rw_other (ks_world s))) = (pt_Hooks (rw_other (ks_world s')), None) \<and>
    run_alone (fn_Autolinks q c) (pt_Autolinks (rw_other (ks_world s))) = (pt_Autolinks (rw_other (ks_world s')), None) \<and>
    run_alone (fn_Keys q c) (pt_Keys (rw_other (ks_world s))) = (pt_Keys (rw_other (ks_world s')), None)"
proof -
  let ?groups = "repo_RequiredReconciliations api spec (repo_procs_of q)" and ?w = "ks_world s"
  have step: "repository_step api spec ?w = (?w\<lparr>rw_repo := c\<rparr>, e)" using assms(4) by (simp add: repository_step_def)
  have each: "run_each (map rec_Function (concat ?groups)) ?w = (ks_world s', replicate (length (concat ?groups)) None)"
    by (rule synced_run_each [OF assms(1,2) repository_separate assms(3)])
  have "length (concat ?groups) = 8" by (simp add: repo_RequiredReconciliations_def)
  then have "replicate (length (concat ?groups)) (None :: go_error option) = [None, None, None, None, None, None, None, None]"
    by (simp add: numeral_eq_Suc)
  note r = each [unfolded this repo_RequiredReconciliations_def repo_procs_of_def]
  show ?thesis
    using r [symmetric] by (auto simp: step prod_eq_iff run_reading [OF repo_fields(1)] run_reading [OF repo_fields(2)] run_reading [OF repo_fields(3)]
      run_reading [OF repo_fields(4)] run_reading [OF repo_fields(5)] run_reading [OF repo_fields(6)] run_reading [OF repo_fields(7)])
qed

section \<open>What is reported as synced is synced\<close>

text \<open>
  The functions of the second group on a GitHub that stores what it is told; what the theorems on the reconcilers ask for is part of the definitions below.
\<close>

definition keys_function :: "(string \<Rightarrow> string) \<Rightarrow> (gh_key, deploy_key) item_orders \<Rightarrow> deploy_key list \<Rightarrow> gh_key list \<Rightarrow> gh_key list \<times> go_error option" where
  "keys_function sha od ds s = (case reconcileDeployKeys sha od (item_store_api s) ds of (calls, e) \<Rightarrow> (items_after gy_ID stored_key s calls, e))"

definition autolinks_function ::
    "(string \<Rightarrow> string) \<Rightarrow> (string \<Rightarrow> (go_error, autolink list) result) \<Rightarrow> (gh_autolink, autolink) item_orders \<Rightarrow> string list \<Rightarrow> autolink list \<Rightarrow>
     gh_autolink list \<Rightarrow> gh_autolink list \<times> go_error option" where
  "autolinks_function sha reader od refs inline s =
     (case reconcileAutolinks sha reader od (item_store_api s) refs inline of (calls, e) \<Rightarrow> (items_after gal_ID stored_autolink s calls, e))"

definition hooks_function ::
    "'repo webhook_env \<Rightarrow> (gh_hook, desired_webhook) item_orders \<Rightarrow> webhook_config \<Rightarrow>
     gh_hook list \<times> (string, string) gomap \<Rightarrow> (gh_hook list \<times> (string, string) gomap) \<times> go_error option" where
  "hooks_function env od cfg p =
     (case reconcileWebhooks env od (item_store_api (fst p)) cfg (snd p) of (calls, status, e) \<Rightarrow> ((items_after hk_ID stored_hook (fst p) calls, status), e))"

lemma synced_hooks_collected:
  "reconcileWebhooks env od (item_store_api s) cfg st = (calls, st', None) \<Longrightarrow>
     \<exists>ds. collectDesiredWebhooks env (wc_namespace cfg) (wc_presets cfg) (wc_inline cfg) = Inr ds"
  by (auto simp: reconcileWebhooks_def split: sum.splits)


text \<open>An example: the repository of the examples of the four reconcilers, whose calls are interleaved.\<close>

definition ex_repo_parts :: repo_parts where
  "ex_repo_parts = \<lparr>pt_Properties = [], pt_Hooks = (ex_hooks, []), pt_Rulesets = [], pt_Actions = [], pt_Topics = [], pt_Autolinks = [], pt_Keys = ex_keys\<rparr>"

definition ex_repo_functions :: repo_functions where
  "ex_repo_functions =
     \<lparr>fn_Properties = (\<lambda>c. alone (repo_reconcileCustomProperties ex_property_lib (property_store ex_definitions []) (rx_Owner c) (rx_Name c) [ex_cp_value])),
      fn_Hooks = (\<lambda>c. alone (hooks_function ex_hook_env ex_orders ex_hook_cfg)), fn_Rulesets = (\<lambda>c. Done None), fn_Actions = (\<lambda>c. Done None),
      fn_Topics = (\<lambda>c. Done None), fn_Autolinks = (\<lambda>c. alone (autolinks_function (\<lambda>s. s) (\<lambda>n. Inr [ex_autolink]) ex_orders [''p''] [ex_autolink])),
      fn_Keys = (\<lambda>c. alone (keys_function (\<lambda>s. s) ex_orders ex_deploy_keys))\<rparr>"

definition ex_synced_rc :: "(repo_parts repo_world, unit) reconciler" where
  "ex_synced_rc =
     \<lparr>rc_GetAdditionalLabels = (\<lambda>w. []),
      rc_RequiredReconciliations = (\<lambda>w. repo_RequiredReconciliations ex_repo_api ex_repo_spec (repo_procs_of ex_repo_functions)),
      rc_FinalizerName = ''repository.github.interhyp.de/finalizer'', rc_ReconcileDeletion = (\<lambda>w. (w, None)),
      rc_BuildMetadataApplyConfig = (\<lambda>l f. ()), rc_BuildStatusApplyConfig = (\<lambda>s. ()), rc_ClientApply = (\<lambda>c w. (w, None)),
      rc_StatusApply = (\<lambda>c w. (w, None)), rc_SetObservedSubResourceGeneration = (\<lambda>old new. new), rc_CurrentSubResourceGenerations = None\<rparr>"

definition ex_synced_kstate :: "repo_parts repo_world kstate" where
  "ex_synced_kstate =
     \<lparr>ks_Conditions = [], ks_Generation = 7, ks_DeletionTimestamp = None, ks_Finalizers = [], ks_Labels = [],
      ks_ObservedSubResourceGenerations = None, ks_world = \<lparr>rw_repo = ex_repo_state, rw_other = ex_repo_parts\<rparr>, ks_ticks = 0\<rparr>"

definition ex_schedule :: "nat \<Rightarrow> nat list" where
  "ex_schedule k = (if k = 0 then [0, 0] else [6, 0, 1, 5, 2, 3, 4, 1, 6, 0, 5, 2, 3, 4, 0, 1, 5, 6])"

lemma ex_synced_runs:
  "map_option (\<lambda>(s', results, err). list_all (\<lambda>r. result_verdict r = Synced) results) (runReconciliations ex_clock ex_schedule ex_synced_rc ex_synced_kstate) = Some True"
  by code_simp


theorem parallel_run_is_sequential_witness:
  "\<exists>s' results err. runReconciliations ex_clock ex_schedule ex_synced_rc ex_synced_kstate = Some (s', results, err) \<and> err = errors_Join [] \<and>
     run_in_order (repo_RequiredReconciliations ex_repo_api ex_repo_spec (repo_procs_of ex_repo_functions)) (ks_world ex_synced_kstate) =
       (ks_world s', map (\<lambda>r. (rr_Condition r, Synced)) results)"
proof -
  obtain s' results err where run: "runReconciliations ex_clock ex_schedule ex_synced_rc ex_synced_kstate = Some (s', results, err)"
      and synced: "\<forall>r \<in> set results. result_verdict r = Synced"
    using ex_synced_runs by (auto simp: list_all_iff)
  have req: "rc_RequiredReconciliations ex_synced_rc (ks_world ex_synced_kstate) = repo_RequiredReconciliations ex_repo_api ex_repo_spec (repo_procs_of ex_repo_functions)"
    by (simp add: ex_synced_rc_def)
  note p = parallel_run_is_sequential [OF run, unfolded req, OF repository_separate]
  have "map (\<lambda>r. (rr_Condition r, result_verdict r)) results = map (\<lambda>r. (rr_Condition r, Synced)) results" "failures (map result_verdict results) = []"
    using synced by (auto simp: failures_def List.map_filter_def)
  then show ?thesis using run p by (intro exI [of _ s'] exI [of _ results] exI [of _ err]) simp
qed

end
