(* ===== verification/Teams.thy ===== *)
theory Teams
  imports Errors OrgTypes
begin

text \<open>
  The reconcilers of a team: \<^verbatim>\<open>rec_team.go\<close>, \<^verbatim>\<open>rec_members.go\<close>, \<^verbatim>\<open>rec_role_assignments.go\<close>, \<^verbatim>\<open>rec_idpgroup.go\<close>,
  \<^verbatim>\<open>rec_refcleanup.go\<close> and \<^verbatim>\<open>reconciler.go\<close> under \<^verbatim>\<open>internal/reconciler/teamrec\<close>, with
  \<^verbatim>\<open>mapper/github_team_mapper.go\<close>. A team lives in several organizations at once. GitHub answers as a
  function of the calls made so far; the calls of each reconciler have a type of their own.
\<close>

section \<open>Data\<close>

record team_spec =
  tm_Name :: string
  tm_Members :: "string list"
  tm_IDPGroup :: "string option"
  tm_Description :: string
  tm_Privacy :: string
  tm_Permission :: string
  tm_NotificationSetting :: string
  tm_OrganizationRoles :: "string list"
  tm_OrganizationRefs :: "string list"

record gh_team =
  gt_Name :: "string option"
  gt_Slug :: "string option"
  gt_Description :: "string option"
  gt_Privacy :: "string option"
  gt_Permission :: "string option"
  gt_NotificationSetting :: "string option"

text \<open>The requests to create and to update a team have the same fields.\<close>

record team_request =
  tq_Name :: string
  tq_Description :: "string option"
  tq_Privacy :: "string option"
  tq_Permission :: "string option"
  tq_NotificationSetting :: "string option"

section \<open>The mapper\<close>

definition teamPrivacy :: "team_spec \<Rightarrow> string" where
  "teamPrivacy team = (if tm_Privacy team = [] then ''closed'' else tm_Privacy team)"

definition teamPermission :: "team_spec \<Rightarrow> string" where
  "teamPermission team = (if tm_Permission team = [] then ''pull'' else tm_Permission team)"

definition teamNotificationSetting :: "team_spec \<Rightarrow> string" where
  "teamNotificationSetting team =
     (if tm_NotificationSetting team = [] then ''notifications_disabled'' else tm_NotificationSetting team)"

definition TeamToCreateTeamRequest :: "team_spec \<Rightarrow> team_request" where
  "TeamToCreateTeamRequest team =
     \<lparr>tq_Name = tm_Name team, tq_Description = Some (tm_Description team), tq_Privacy = Some (teamPrivacy team),
      tq_Permission = Some (teamPermission team), tq_NotificationSetting = Some (teamNotificationSetting team)\<rparr>"

definition TeamToUpdateTeamRequest :: "team_spec \<Rightarrow> team_request" where
  "TeamToUpdateTeamRequest team =
     \<lparr>tq_Name = tm_Name team, tq_Description = Some (tm_Description team), tq_Privacy = Some (teamPrivacy team),
      tq_Permission = Some (teamPermission team), tq_NotificationSetting = Some (teamNotificationSetting team)\<rparr>"

text \<open>The name of the team on GitHub is dereferenced without a check: \<^term>\<open>None\<close> is the panic.\<close>

definition TeamDiffers :: "team_spec option \<Rightarrow> gh_team option \<Rightarrow> bool option" where
  "TeamDiffers team ghTeam =
     (case (team, ghTeam) of
        (Some t, Some g) \<Rightarrow>
          (case gt_Name g of
             None \<Rightarrow> None
           | Some name \<Rightarrow>
               Some (tm_Name t \<noteq> name \<or> gt_Description g \<noteq> Some (tm_Description t) \<or> gt_Privacy g \<noteq> Some (teamPrivacy t) \<or>
                     gt_Permission g \<noteq> Some (teamPermission t) \<or> gt_NotificationSetting g \<noteq> Some (teamNotificationSetting t)))
      | _ \<Rightarrow> Some True)"

section \<open>The team itself (rec\_team.go)\<close>

datatype team_call =
    CreateTeam string team_request
  | EditTeam string string team_request
  | DeleteTeam string string

text \<open>Organization first, then slug.\<close>

record team_api =
  ta_GetTeamBySlug :: "team_call list \<Rightarrow> string \<Rightarrow> string \<Rightarrow> (go_error, gh_team option) result"
  ta_GetAllTeamsForOrg :: "team_call list \<Rightarrow> string \<Rightarrow> (go_error, gh_team list) result"
  ta_CreateTeam :: "team_call list \<Rightarrow> string \<Rightarrow> team_request \<Rightarrow> (go_error, gh_team) result"
  ta_EditTeamBySlug :: "team_call list \<Rightarrow> string \<Rightarrow> string \<Rightarrow> team_request \<Rightarrow> (go_error, gh_team) result"
  ta_DeleteTeamBySlug :: "team_call list \<Rightarrow> string \<Rightarrow> string \<Rightarrow> go_error option"

text \<open>
  What the reconciler changes: the slug of its \<^verbatim>\<open>Team\<close> field, the slug and the previous organizations in the status of
  the resource, and the calls made.
\<close>

record team_state =
  ts_Slug :: "string option"
  ts_StatusSlug :: "string option"
  ts_PreviousRefs :: "string list"
  ts_calls :: "team_call list"

datatype team_result = TeamOk | TeamErr go_error | TeamPanic

definition GetSlug :: "team_state \<Rightarrow> string" where
  "GetSlug st = WithDefault (ts_Slug st) []"

definition team_called :: "team_call \<Rightarrow> team_state \<Rightarrow> team_state" where
  "team_called c st = st\<lparr>ts_calls := ts_calls st @ [c]\<rparr>"

definition team_not_found :: "go_error \<Rightarrow> bool option" where
  "team_not_found e = has_status 404 e"

definition updateSlugs :: "gh_team \<Rightarrow> team_state \<Rightarrow> (go_error, team_state) result" where
  "updateSlugs ghTeam st =
     (case gt_Slug ghTeam of
        None \<Rightarrow> Inl (PlainError ''missing slug in team returned from GitHub'')
      | Some s \<Rightarrow> Inr (st\<lparr>ts_Slug := Some s, ts_StatusSlug := Some s\<rparr>))"

definition findTeam ::
    "team_api \<Rightarrow> team_spec \<Rightarrow> string \<Rightarrow> team_state \<Rightarrow> team_state \<times> (go_error, gh_team option) result" where
  "findTeam api spec org st =
     (case ts_Slug st of
        Some s \<Rightarrow> (st, ta_GetTeamBySlug api (ts_calls st) org (GetSlug st))
      | None \<Rightarrow>
          (case ta_GetAllTeamsForOrg api (ts_calls st) org of
             Inl e \<Rightarrow> (st, Inl e)
           | Inr teams \<Rightarrow>
               (case find (\<lambda>t. WithDefault (gt_Name t) [] = tm_Name spec) teams of
                  None \<Rightarrow> (st, Inr None)
                | Some t \<Rightarrow>
                    (case updateSlugs t st of
                       Inl e \<Rightarrow> (st, Inl e)
                     | Inr st' \<Rightarrow> (st', Inr (Some t))))))"

definition createTeam :: "team_api \<Rightarrow> team_spec \<Rightarrow> string \<Rightarrow> team_state \<Rightarrow> team_state \<times> team_result" where
  "createTeam api spec org st =
     (let q = TeamToCreateTeamRequest spec; st1 = team_called (CreateTeam org q) st in
      case ta_CreateTeam api (ts_calls st) org q of
        Inl e \<Rightarrow> (st1, TeamErr e)
      | Inr t \<Rightarrow> (case updateSlugs t st1 of Inl e \<Rightarrow> (st1, TeamErr e) | Inr st2 \<Rightarrow> (st2, TeamOk)))"

definition updateTeam :: "team_api \<Rightarrow> team_spec \<Rightarrow> string \<Rightarrow> team_state \<Rightarrow> team_state \<times> team_result" where
  "updateTeam api spec org st =
     (let q = TeamToUpdateTeamRequest spec; st1 = team_called (EditTeam org (GetSlug st) q) st in
      case ta_EditTeamBySlug api (ts_calls st) org (GetSlug st) q of
        Inl e \<Rightarrow> (st1, TeamErr e)
      | Inr t \<Rightarrow> (case updateSlugs t st1 of Inl e \<Rightarrow> (st1, TeamErr e) | Inr st2 \<Rightarrow> (st2, TeamOk)))"

definition reconcileTeamForOrg :: "team_api \<Rightarrow> team_spec \<Rightarrow> string \<Rightarrow> team_state \<Rightarrow> team_state \<times> team_result" where
  "reconcileTeamForOrg api spec org st =
     (case findTeam api spec org st of
        (st1, Inl e) \<Rightarrow>
          (case team_not_found e of
             None \<Rightarrow> (st1, TeamPanic)
           | Some True \<Rightarrow> createTeam api spec org st1
           | Some False \<Rightarrow> (st1, TeamErr e))
      | (st1, Inr None) \<Rightarrow> createTeam api spec org st1
      | (st1, Inr (Some t)) \<Rightarrow>
          (case TeamDiffers (Some spec) (Some t) of
             None \<Rightarrow> (st1, TeamPanic)
           | Some False \<Rightarrow> (st1, TeamOk)
           | Some True \<Rightarrow> updateTeam api spec org st1))"

fun reconcileTeam :: "team_api \<Rightarrow> team_spec \<Rightarrow> string list \<Rightarrow> team_state \<Rightarrow> team_state \<times> team_result" where
  "reconcileTeam api spec [] st = (st, TeamOk)"
| "reconcileTeam api spec (org # orgs) st =
     (case reconcileTeamForOrg api spec org st of
        (st', TeamOk) \<Rightarrow> reconcileTeam api spec orgs st'
      | (st', r) \<Rightarrow> (st', r))"

section \<open>Removed organizations and deletion (rec\_refcleanup.go, reconciler.go)\<close>

fun remove_previous :: "team_api \<Rightarrow> string list \<Rightarrow> string list \<Rightarrow> team_state \<Rightarrow> team_state \<times> team_result" where
  "remove_previous api current [] st = (st, TeamOk)"
| "remove_previous api current (org # orgs) st =
     (if List.member current org then remove_previous api current orgs st
      else
        (let st1 = team_called (DeleteTeam org (GetSlug st)) st in
         case ta_DeleteTeamBySlug api (ts_calls st) org (GetSlug st) of
           Some e \<Rightarrow> (st1, TeamErr e)
         | None \<Rightarrow> remove_previous api current orgs st1))"

definition reconcileRemovedOrgRefs ::
    "team_api \<Rightarrow> team_spec \<Rightarrow> string list \<Rightarrow> string list \<Rightarrow> team_state \<Rightarrow> team_state \<times> team_result" where
  "reconcileRemovedOrgRefs api spec current previous st =
     (case remove_previous api current previous st of
        (st1, TeamOk) \<Rightarrow> (st1\<lparr>ts_PreviousRefs := tm_OrganizationRefs spec\<rparr>, TeamOk)
      | (st1, r) \<Rightarrow> (st1, r))"

fun team_ReconcileDeletion :: "team_api \<Rightarrow> string list \<Rightarrow> team_state \<Rightarrow> team_state \<times> team_result" where
  "team_ReconcileDeletion api [] st = (st, TeamOk)"
| "team_ReconcileDeletion api (org # orgs) st =
     (case ta_GetTeamBySlug api (ts_calls st) org (GetSlug st) of
        Inl e \<Rightarrow>
          (case team_not_found e of
             None \<Rightarrow> (st, TeamPanic)
           | Some True \<Rightarrow> team_ReconcileDeletion api orgs st
           | Some False \<Rightarrow> (st, TeamErr e))
      | Inr None \<Rightarrow> team_ReconcileDeletion api orgs st
      | Inr (Some t) \<Rightarrow>
          (case gt_Slug t of
             None \<Rightarrow> (st, TeamPanic)
           | Some s \<Rightarrow>
               (let st1 = team_called (DeleteTeam org s) st in
                case ta_DeleteTeamBySlug api (ts_calls st) org s of
                  Some e \<Rightarrow> (st1, TeamErr e)
                | None \<Rightarrow> team_ReconcileDeletion api orgs st1)))"

section \<open>Members (rec\_members.go)\<close>

definition IsIDPTeam :: "team_spec \<Rightarrow> bool" where
  "IsIDPTeam team \<longleftrightarrow> tm_IDPGroup team \<noteq> None"

datatype member_call =
    AddTeamMember string string string
  | RemoveTeamMember string string string

text \<open>Members are listed by their login; \<^term>\<open>None\<close> is a user without one, or a nil entry.\<close>

record member_api =
  ma_GetAllTeamMembers :: "member_call list \<Rightarrow> string \<Rightarrow> string \<Rightarrow> (go_error, string option list) result"
  ma_ListMembers :: "member_call list \<Rightarrow> string \<Rightarrow> (go_error, string option list) result"
  ma_AddTeamMember :: "member_call list \<Rightarrow> string \<Rightarrow> string \<Rightarrow> string \<Rightarrow> go_error option"
  ma_RemoveTeamMember :: "member_call list \<Rightarrow> string \<Rightarrow> string \<Rightarrow> string \<Rightarrow> go_error option"

definition logins :: "string option list \<Rightarrow> (string, string) gomap" where
  "logins users = put_all (\<lambda>l. l) (\<lambda>l. l) (List.map_filter (\<lambda>u. u) users) []"

fun k8s_orgs :: "(string \<Rightarrow> (go_error, org_resource) result) \<Rightarrow> string list \<Rightarrow> (string, org_resource) gomap \<Rightarrow>
    (go_error, (string, org_resource) gomap) result" where
  "k8s_orgs reader [] m = Inr m"
| "k8s_orgs reader (r # refs) m =
     (case reader r of Inl e \<Rightarrow> Inl e | Inr og \<Rightarrow> k8s_orgs reader refs (map_put (GetLogin og) og m))"

fun add_members ::
    "member_api \<Rightarrow> string \<Rightarrow> string \<Rightarrow> (string, string) gomap \<Rightarrow> (string, string) gomap \<Rightarrow> string list \<Rightarrow>
     (string, string) gomap \<Rightarrow> member_call list \<Rightarrow> (string, string) gomap \<times> member_call list \<times> go_error option" where
  "add_members api org slug existing orgMembers [] del calls = (del, calls, None)"
| "add_members api org slug existing orgMembers (m # ms) del calls =
     (if map_get existing m \<noteq> None then add_members api org slug existing orgMembers ms (map_delete m del) calls
      else if map_get orgMembers m \<noteq> None then
        (case ma_AddTeamMember api calls org slug m of
           Some e \<Rightarrow> (del, calls @ [AddTeamMember org slug m], Some e)
         | None \<Rightarrow> add_members api org slug existing orgMembers ms del (calls @ [AddTeamMember org slug m]))
      else add_members api org slug existing orgMembers ms del calls)"

fun remove_members ::
    "member_api \<Rightarrow> string \<Rightarrow> string \<Rightarrow> (string \<times> string) list \<Rightarrow> member_call list \<Rightarrow> member_call list \<times> go_error option" where
  "remove_members api org slug [] calls = (calls, None)"
| "remove_members api org slug ((_, m) # ms) calls =
     (case ma_RemoveTeamMember api calls org slug m of
        Some e \<Rightarrow> (calls @ [RemoveTeamMember org slug m], Some e)
      | None \<Rightarrow> remove_members api org slug ms (calls @ [RemoveTeamMember org slug m]))"

definition members_for_org ::
    "((string \<times> string) list \<Rightarrow> (string \<times> string) list) \<Rightarrow> member_api \<Rightarrow> team_spec \<Rightarrow> string \<Rightarrow> string \<Rightarrow> string \<Rightarrow>
     member_call list \<Rightarrow> member_call list \<times> go_error option" where
  "members_for_org ord api spec memberSuffix slug org calls =
     (case ma_GetAllTeamMembers api calls org slug of
        Inl e \<Rightarrow> (calls, Some (WrapError ''failed to get existing team members'' e))
      | Inr members \<Rightarrow>
          (case ma_ListMembers api calls org of
             Inl e \<Rightarrow> (calls, Some e)
           | Inr ghMembers \<Rightarrow>
               (case add_members api org slug (logins members) (logins ghMembers)
                       (map (\<lambda>m. m @ memberSuffix) (tm_Members spec)) (logins members) calls of
                  (del, calls1, Some e) \<Rightarrow> (calls1, Some e)
                | (del, calls1, None) \<Rightarrow> remove_members api org slug (ord del) calls1)))"

text \<open>An organization among the resources read gives the suffix, but they are read only if there is no global one.\<close>

definition member_suffix :: "string \<Rightarrow> (string, org_resource) gomap \<Rightarrow> string \<Rightarrow> string" where
  "member_suffix env orgs org = (case map_get orgs org of None \<Rightarrow> env | Some og \<Rightarrow> og_MemberSuffix og)"

fun members_loop ::
    "((string \<times> string) list \<Rightarrow> (string \<times> string) list) \<Rightarrow> member_api \<Rightarrow> team_spec \<Rightarrow> (string \<Rightarrow> string) \<Rightarrow> string \<Rightarrow>
     string list \<Rightarrow> member_call list \<Rightarrow> member_call list \<times> go_error option" where
  "members_loop ord api spec suffix slug [] calls = (calls, None)"
| "members_loop ord api spec suffix slug (org # orgs) calls =
     (case members_for_org ord api spec (suffix org) slug org calls of
        (calls1, Some e) \<Rightarrow> (calls1, Some e)
      | (calls1, None) \<Rightarrow> members_loop ord api spec suffix slug orgs calls1)"

definition reconcileTeamMembers ::
    "((string \<times> string) list \<Rightarrow> (string \<times> string) list) \<Rightarrow> member_api \<Rightarrow> (string \<Rightarrow> (go_error, org_resource) result) \<Rightarrow>
     string \<Rightarrow> team_spec \<Rightarrow> string \<Rightarrow> string list \<Rightarrow> member_call list \<times> go_error option" where
  "reconcileTeamMembers ord api reader envSuffix spec slug orgs =
     (if IsIDPTeam spec then ([], None)
      else
        (case (if envSuffix = [] then k8s_orgs reader (tm_OrganizationRefs spec) [] else Inr []) of
           Inl e \<Rightarrow> ([], Some e)
         | Inr k8s \<Rightarrow> members_loop ord api spec (member_suffix envSuffix k8s) slug orgs []))"

section \<open>Role assignments (rec\_role\_assignments.go)\<close>

datatype role_call =
    AddRole string string int
  | RemoveRole string string int

record role_api =
  ra_GetAllOrgRoles :: "role_call list \<Rightarrow> string \<Rightarrow> (go_error, (string option \<times> int option) list) result"
  ra_GetAllTeamsAssignedToOrgRole :: "role_call list \<Rightarrow> string \<Rightarrow> string \<Rightarrow> (go_error, string list) result"
  ra_AddOrgRole :: "role_call list \<Rightarrow> string \<Rightarrow> string \<Rightarrow> int \<Rightarrow> go_error option"
  ra_RemoveOrgRole :: "role_call list \<Rightarrow> string \<Rightarrow> string \<Rightarrow> int \<Rightarrow> go_error option"

text \<open>A role is its name and its ID. The loop over the roles of the organization gives the map of the names and the roles the team has.\<close>

fun role_maps ::
    "role_api \<Rightarrow> string \<Rightarrow> string \<Rightarrow> role_call list \<Rightarrow> (string option \<times> int option) list \<Rightarrow>
     (string, int) gomap \<Rightarrow> (string \<times> int) list \<Rightarrow> (go_error, (string, int) gomap \<times> (string \<times> int) list) result" where
  "role_maps api org slug calls [] ids assigned = Inr (ids, assigned)"
| "role_maps api org slug calls ((name, rid) # rs) ids assigned =
     (case name of
        None \<Rightarrow> role_maps api org slug calls rs ids assigned
      | Some n \<Rightarrow>
          (case ra_GetAllTeamsAssignedToOrgRole api calls org n of
             Inl e \<Rightarrow> Inl e
           | Inr teams \<Rightarrow>
               role_maps api org slug calls rs (map_put n (WithDefault rid 0) ids)
                 (if List.member teams slug then assigned @ [(n, WithDefault rid 0)] else assigned)))"

definition getRoles :: "team_spec \<Rightarrow> (string, int) gomap \<Rightarrow> (string \<times> int) list" where
  "getRoles spec ids = List.map_filter (\<lambda>r. map_option (\<lambda>i. (r, i)) (map_get ids r)) (tm_OrganizationRoles spec)"

fun role_calls ::
    "(role_call list \<Rightarrow> int \<Rightarrow> go_error option) \<Rightarrow> (int \<Rightarrow> role_call) \<Rightarrow> (string \<times> int) list \<Rightarrow> (string \<times> int) list \<Rightarrow>
     role_call list \<Rightarrow> role_call list \<times> go_error option" where
  "role_calls f mk others [] calls = (calls, None)"
| "role_calls f mk others (r # rs) calls =
     (if List.member others r then role_calls f mk others rs calls
      else (case f calls (snd r) of
              Some e \<Rightarrow> (calls @ [mk (snd r)], Some e)
            | None \<Rightarrow> role_calls f mk others rs (calls @ [mk (snd r)])))"

definition roles_for_org :: "role_api \<Rightarrow> team_spec \<Rightarrow> string \<Rightarrow> string \<Rightarrow> role_call list \<Rightarrow> role_call list \<times> go_error option" where
  "roles_for_org api spec slug org calls =
     (case ra_GetAllOrgRoles api calls org of
        Inl e \<Rightarrow> (calls, Some e)
      | Inr orgRoles \<Rightarrow>
          (case role_maps api org slug calls orgRoles [] [] of
             Inl e \<Rightarrow> (calls, Some e)
           | Inr (ids, assigned) \<Rightarrow>
               (let expected = getRoles spec ids in
                if assigned = expected then (calls, None)
                else
                  (case role_calls (\<lambda>cs. ra_AddOrgRole api cs org slug) (AddRole org slug) assigned expected calls of
                     (calls1, Some e) \<Rightarrow> (calls1, Some e)
                   | (calls1, None) \<Rightarrow>
                       role_calls (\<lambda>cs. ra_RemoveOrgRole api cs org slug) (RemoveRole org slug) expected assigned calls1))))"

fun reconcileTeamRoleAssignments ::
    "role_api \<Rightarrow> team_spec \<Rightarrow> string \<Rightarrow> string list \<Rightarrow> role_call list \<Rightarrow> role_call list \<times> go_error option" where
  "reconcileTeamRoleAssignments api spec slug [] calls = (calls, None)"
| "reconcileTeamRoleAssignments api spec slug (org # orgs) calls =
     (case roles_for_org api spec slug org calls of
        (calls1, Some e) \<Rightarrow> (calls1, Some e)
      | (calls1, None) \<Rightarrow> reconcileTeamRoleAssignments api spec slug orgs calls1)"

section \<open>The group of the identity provider (rec\_idpgroup.go)\<close>

datatype idp_call = AddExternalGroup string string int

record idp_api =
  ia_GetExternalGroupsForTeam :: "idp_call list \<Rightarrow> string \<Rightarrow> string \<Rightarrow> (go_error, string option list) result"
  ia_GetExternalGroupNamesToID :: "idp_call list \<Rightarrow> string \<Rightarrow> (go_error, (string, int) gomap) result"
  ia_AddExternalGroup :: "idp_call list \<Rightarrow> string \<Rightarrow> string \<Rightarrow> int \<Rightarrow> go_error option"

definition reconcileIDPGroupForOrg ::
    "idp_api \<Rightarrow> string \<Rightarrow> string \<Rightarrow> string \<Rightarrow> idp_call list \<Rightarrow> idp_call list \<times> go_error option" where
  "reconcileIDPGroupForOrg api idpGroup slug org calls =
     (case ia_GetExternalGroupsForTeam api calls org slug of
        Inl e \<Rightarrow> (calls, Some e)
      | Inr groups \<Rightarrow>
          (if List.member groups (Some idpGroup) then (calls, None)
           else
             (case ia_GetExternalGroupNamesToID api calls org of
                Inl e \<Rightarrow> (calls, Some e)
              | Inr available \<Rightarrow>
                  (case map_get available idpGroup of
                     None \<Rightarrow> (calls, None)
                   | Some gid \<Rightarrow> (calls @ [AddExternalGroup org slug gid], ia_AddExternalGroup api calls org slug gid)))))"

text \<open>The organization is looked up under its login; one that is not found is passed over.\<close>

fun idp_loop ::
    "idp_api \<Rightarrow> (string \<Rightarrow> (go_error, org_resource) result) \<Rightarrow> string \<Rightarrow> string \<Rightarrow> string list \<Rightarrow> idp_call list \<Rightarrow>
     idp_call list \<times> go_error option" where
  "idp_loop api reader idpGroup slug [] calls = (calls, None)"
| "idp_loop api reader idpGroup slug (org # orgs) calls =
     (case reader org of
        Inl e \<Rightarrow> idp_loop api reader idpGroup slug orgs calls
      | Inr og \<Rightarrow>
          (if GetPlan (og_Plan og) \<noteq> ''enterprise'' then idp_loop api reader idpGroup slug orgs calls
           else
             (case reconcileIDPGroupForOrg api idpGroup slug org calls of
                (calls1, Some e) \<Rightarrow> (calls1, Some e)
              | (calls1, None) \<Rightarrow> idp_loop api reader idpGroup slug orgs calls1)))"

definition reconcileIDPGroup ::
    "idp_api \<Rightarrow> (string \<Rightarrow> (go_error, org_resource) result) \<Rightarrow> team_spec \<Rightarrow> string \<Rightarrow> string list \<Rightarrow> idp_call list \<times> go_error option" where
  "reconcileIDPGroup api reader spec slug orgs =
     (case tm_IDPGroup spec of
        None \<Rightarrow> ([], None)
      | Some g \<Rightarrow> idp_loop api reader g slug orgs [])"

section \<open>A GitHub that stores teams\<close>

text \<open>GitHub derives the slug of a team from its name; how is an argument.\<close>

definition made_team :: "(string \<Rightarrow> string) \<Rightarrow> team_request \<Rightarrow> gh_team" where
  "made_team slugify q =
     \<lparr>gt_Name = Some (tq_Name q), gt_Slug = Some (slugify (tq_Name q)), gt_Description = tq_Description q, gt_Privacy = tq_Privacy q,
      gt_Permission = tq_Permission q, gt_NotificationSetting = tq_NotificationSetting q\<rparr>"

fun team_apply :: "(string \<Rightarrow> string) \<Rightarrow> team_call \<Rightarrow> (string \<Rightarrow> gh_team list) \<Rightarrow> string \<Rightarrow> gh_team list" where
  "team_apply slugify (CreateTeam org q) T = T(org := T org @ [made_team slugify q])"
| "team_apply slugify (EditTeam org s q) T = T(org := map (\<lambda>t. if gt_Slug t = Some s then made_team slugify q else t) (T org))"
| "team_apply slugify (DeleteTeam org s) T = T(org := filter (\<lambda>t. gt_Slug t \<noteq> Some s) (T org))"

definition teams_after :: "(string \<Rightarrow> string) \<Rightarrow> (string \<Rightarrow> gh_team list) \<Rightarrow> team_call list \<Rightarrow> string \<Rightarrow> gh_team list" where
  "teams_after slugify T calls = fold (team_apply slugify) calls T"

definition not_found_error :: go_error where
  "not_found_error = GitHubError (Some \<lparr>er_StatusCode = Some 404, er_Message = ''Not Found'', er_Errors = [], er_text = ''404 Not Found''\<rparr>)"

definition team_store_api :: "(string \<Rightarrow> string) \<Rightarrow> (string \<Rightarrow> gh_team list) \<Rightarrow> team_api" where
  "team_store_api slugify T =
     \<lparr>ta_GetTeamBySlug = (\<lambda>h org s. case find (\<lambda>t. gt_Slug t = Some s) (teams_after slugify T h org) of
          None \<Rightarrow> Inl not_found_error | Some t \<Rightarrow> Inr (Some t)),
      ta_GetAllTeamsForOrg = (\<lambda>h org. Inr (teams_after slugify T h org)),
      ta_CreateTeam = (\<lambda>h org q. Inr (made_team slugify q)),
      ta_EditTeamBySlug = (\<lambda>h org s q. Inr (made_team slugify q)),
      ta_DeleteTeamBySlug = (\<lambda>h org s.
        if list_ex (\<lambda>t. gt_Slug t = Some s) (teams_after slugify T h org) then None else Some not_found_error)\<rparr>"

text \<open>
  Teams have names and the slugs that belong to them, and slugs are unique in an organization. In the
  organizations \<open>Q\<close> no team with another name occupies the slug of the team in question.
\<close>

definition org_teams_ok :: "(string \<Rightarrow> string) \<Rightarrow> gh_team list \<Rightarrow> bool" where
  "org_teams_ok slugify ts \<longleftrightarrow>
     (\<forall>t \<in> set ts. gt_Name t \<noteq> None \<and> gt_Slug t = map_option slugify (gt_Name t)) \<and> distinct (map gt_Slug ts)"

definition teams_ok :: "(string \<Rightarrow> string) \<Rightarrow> string \<Rightarrow> string set \<Rightarrow> (string \<Rightarrow> gh_team list) \<Rightarrow> bool" where
  "teams_ok slugify name Q T \<longleftrightarrow>
     (\<forall>org. org_teams_ok slugify (T org)) \<and>
     (\<forall>org \<in> Q. \<forall>t \<in> set (T org). gt_Slug t = Some (slugify name) \<longrightarrow> gt_Name t = Some name)"

text \<open>The team a resource asks for, with the defaults that the resource documents for the settings it leaves out.\<close>

definition wanted_team :: "(string \<Rightarrow> string) \<Rightarrow> team_spec \<Rightarrow> gh_team" where
  "wanted_team slugify spec =
     \<lparr>gt_Name = Some (tm_Name spec), gt_Slug = Some (slugify (tm_Name spec)), gt_Description = Some (tm_Description spec),
      gt_Privacy = Some (if tm_Privacy spec \<noteq> [] then tm_Privacy spec else ''closed''),
      gt_Permission = Some (if tm_Permission spec \<noteq> [] then tm_Permission spec else ''pull''),
      gt_NotificationSetting = Some (if tm_NotificationSetting spec \<noteq> [] then tm_NotificationSetting spec else ''notifications_disabled'')\<rparr>"

definition has_team :: "(string \<Rightarrow> string) \<Rightarrow> team_spec \<Rightarrow> gh_team list \<Rightarrow> bool" where
  "has_team slugify spec ts \<longleftrightarrow> wanted_team slugify spec \<in> set ts"

lemma team_differs_wanted:
  "gt_Slug t = Some (slugify (tm_Name spec)) \<Longrightarrow> TeamDiffers (Some spec) (Some t) = Some False \<longleftrightarrow> t = wanted_team slugify spec"
  by (cases t) (auto simp: TeamDiffers_def wanted_team_def teamPrivacy_def teamPermission_def teamNotificationSetting_def split: option.splits)

lemma made_wanted:
  "made_team slugify (TeamToCreateTeamRequest spec) = wanted_team slugify spec" "made_team slugify (TeamToUpdateTeamRequest spec) = wanted_team slugify spec"
  by (simp_all add: made_team_def wanted_team_def TeamToCreateTeamRequest_def TeamToUpdateTeamRequest_def teamPrivacy_def teamPermission_def teamNotificationSetting_def)

text \<open>The reconciler knows the slug, or does not know it yet.\<close>

definition slug_known :: "string \<Rightarrow> team_state \<Rightarrow> bool" where
  "slug_known s st \<longleftrightarrow> ts_Slug st \<in> {None, Some s} \<and> ts_StatusSlug st = ts_Slug st"

lemma team_not_found_error [simp]: "team_not_found not_found_error = Some True"
  by (simp add: team_not_found_def has_status_def not_found_error_def errors_As.simps is_github_def)

lemma team_store_simps [simp]:
  "ta_GetTeamBySlug (team_store_api slugify T) h org s = (case find (\<lambda>t. gt_Slug t = Some s) (teams_after slugify T h org) of
     None \<Rightarrow> Inl not_found_error | Some t \<Rightarrow> Inr (Some t))"
  "ta_GetAllTeamsForOrg (team_store_api slugify T) h org = Inr (teams_after slugify T h org)"
  "ta_CreateTeam (team_store_api slugify T) h org q = Inr (made_team slugify q)"
  "ta_EditTeamBySlug (team_store_api slugify T) h org s q = Inr (made_team slugify q)"
  by (simp_all add: team_store_api_def)

lemma requests_match [simp]:
  "TeamDiffers (Some spec) (Some (made_team slugify (TeamToCreateTeamRequest spec))) = Some False"
  "TeamDiffers (Some spec) (Some (made_team slugify (TeamToUpdateTeamRequest spec))) = Some False"
  "gt_Slug (made_team slugify q) = Some (slugify (tq_Name q))" "gt_Name (made_team slugify q) = Some (tq_Name q)"
  "tq_Name (TeamToCreateTeamRequest spec) = tm_Name spec" "tq_Name (TeamToUpdateTeamRequest spec) = tm_Name spec"
  by (simp_all add: TeamDiffers_def made_team_def TeamToCreateTeamRequest_def TeamToUpdateTeamRequest_def)

lemma teams_after_simps [simp]:
  "teams_after slugify T [] = T"
  "teams_after slugify T (cs @ [c]) = team_apply slugify c (teams_after slugify T cs)"
  by (simp_all add: teams_after_def)

lemma teams_okD:
  assumes "teams_ok slugify name Q T" and "t \<in> set (T org)"
  obtains n where "gt_Name t = Some n" "gt_Slug t = Some (slugify n)" "org \<in> Q \<longrightarrow> slugify n = slugify name \<longrightarrow> n = name"
proof -
  have "gt_Name t \<noteq> None \<and> gt_Slug t = map_option slugify (gt_Name t)"
    using assms unfolding teams_ok_def org_teams_ok_def by blast
  then obtain n where n: "gt_Name t = Some n" "gt_Slug t = Some (slugify n)" by (cases "gt_Name t") simp_all
  have "org \<in> Q \<longrightarrow> gt_Slug t = Some (slugify name) \<longrightarrow> gt_Name t = Some name"
    using assms unfolding teams_ok_def by blast
  then show thesis using that n by simp
qed

text \<open>The two ways to find a team agree.\<close>

lemma find_by_name:
  assumes "teams_ok slugify (tm_Name spec) Q T" and "org \<in> Q"
  shows "find (\<lambda>t. WithDefault (gt_Name t) [] = tm_Name spec) (T org) = find (\<lambda>t. gt_Slug t = Some (slugify (tm_Name spec))) (T org)"
proof (rule find_cong [OF refl])
  fix t assume "t \<in> set (T org)"
  then obtain n where "gt_Name t = Some n" "gt_Slug t = Some (slugify n)" "slugify n = slugify (tm_Name spec) \<longrightarrow> n = tm_Name spec"
    using teams_okD [OF assms(1)] assms(2) by metis
  then show "(WithDefault (gt_Name t) [] = tm_Name spec) = (gt_Slug t = Some (slugify (tm_Name spec)))" by auto
qed

lemma team_for_org:
  assumes "teams_ok slugify (tm_Name spec) Q (teams_after slugify T (ts_calls st))" and "org \<in> Q"
    and "slug_known (slugify (tm_Name spec)) st"
  shows "reconcileTeamForOrg (team_store_api slugify T) spec org st =
    (let st1 = st\<lparr>ts_Slug := Some (slugify (tm_Name spec)), ts_StatusSlug := Some (slugify (tm_Name spec))\<rparr> in
     case find (\<lambda>t. gt_Slug t = Some (slugify (tm_Name spec))) (teams_after slugify T (ts_calls st) org) of
       None \<Rightarrow> (team_called (CreateTeam org (TeamToCreateTeamRequest spec)) st1, TeamOk)
     | Some t \<Rightarrow> if TeamDiffers (Some spec) (Some t) = Some False then (st1, TeamOk)
                else (team_called (EditTeam org (slugify (tm_Name spec)) (TeamToUpdateTeamRequest spec)) st1, TeamOk))"
proof -
  let ?s = "slugify (tm_Name spec)" and ?U = "teams_after slugify T (ts_calls st)"
  have st1: "st\<lparr>ts_Slug := Some ?s, ts_StatusSlug := Some ?s\<rparr> = st" if "ts_Slug st = Some ?s"
    using assms(3) that by (simp add: slug_known_def)
  have slug: "ts_Slug st = None \<or> ts_Slug st = Some ?s" using assms(3) by (simp add: slug_known_def)
  show ?thesis
  proof (cases "find (\<lambda>t. gt_Slug t = Some ?s) (?U org)")
    case None
    have "ts_StatusSlug st = ts_Slug st" using assms(3) by (simp add: slug_known_def)
    then show ?thesis
      using None slug find_by_name [OF assms(1,2)]
      by (cases st) (auto simp: reconcileTeamForOrg_def findTeam_def createTeam_def updateSlugs_def team_called_def GetSlug_def Let_def)
  next
    case (Some t)
    then have t: "t \<in> set (?U org)" "gt_Slug t = Some ?s" by (auto simp: find_Some_iff)
    obtain d where d: "TeamDiffers (Some spec) (Some t) = Some d"
      using teams_okD [OF assms(1) t(1)] by (force simp: TeamDiffers_def)
    have f: "findTeam (team_store_api slugify T) spec org st =
        (st\<lparr>ts_Slug := Some ?s, ts_StatusSlug := Some ?s\<rparr>, Inr (Some t))"
      using slug st1 Some t find_by_name [OF assms(1,2)]
      by (auto simp: findTeam_def updateSlugs_def GetSlug_def)
    show ?thesis
      using Some d by (cases d)
        (simp_all add: reconcileTeamForOrg_def f updateTeam_def updateSlugs_def team_called_def GetSlug_def Let_def)
  qed
qed

lemma org_teams_ok_append:
  assumes "org_teams_ok slugify ts" and "find (\<lambda>t. gt_Slug t = Some (slugify (tq_Name q))) ts = None"
  shows "org_teams_ok slugify (ts @ [made_team slugify q])"
proof -
  have "Some (slugify (tq_Name q)) \<notin> gt_Slug ` set ts" using assms(2) by (auto simp: find_None_iff)
  then show ?thesis using assms(1) by (simp add: org_teams_ok_def)
qed

lemma org_teams_ok_edit:
  assumes "org_teams_ok slugify ts" and "s = slugify (tq_Name q)"
  shows "org_teams_ok slugify (map (\<lambda>t. if gt_Slug t = Some s then made_team slugify q else t) ts)" (is "org_teams_ok _ (map ?f ts)")
  unfolding org_teams_ok_def
proof (rule conjI, rule ballI)
  fix t assume "t \<in> set (map ?f ts)"
  then obtain u where "u \<in> set ts" "t = ?f u" by auto
  then show "gt_Name t \<noteq> None \<and> gt_Slug t = map_option slugify (gt_Name t)"
    using assms by (simp add: org_teams_ok_def)
next
  have "map gt_Slug (map ?f ts) = map gt_Slug ts" using assms(2) by simp
  then show "distinct (map gt_Slug (map ?f ts))" using assms(1) by (simp only: org_teams_ok_def)
qed

lemma filter_edit: "\<not> P x \<Longrightarrow> filter P (map (\<lambda>t. if \<not> P t then x else t) ts) = filter P ts"
  by (induction ts) auto

text \<open>One organization: the team is there afterwards, nothing else has changed.\<close>

lemma team_for_org_effect:
  assumes ok: "teams_ok slugify (tm_Name spec) Q (teams_after slugify T (ts_calls st))" and "org \<in> Q"
    and "slug_known (slugify (tm_Name spec)) st"
    and run: "reconcileTeamForOrg (team_store_api slugify T) spec org st = (st', r)"
    and U: "U = teams_after slugify T (ts_calls st)" and U': "U' = teams_after slugify T (ts_calls st')"
  shows "r = TeamOk" and "ts_Slug st' = Some (slugify (tm_Name spec))" and "ts_StatusSlug st' = Some (slugify (tm_Name spec))"
    and "ts_PreviousRefs st' = ts_PreviousRefs st"
    and "teams_ok slugify (tm_Name spec) Q U'" and "has_team slugify spec (U' org)" and "\<And>o'. o' \<noteq> org \<Longrightarrow> U' o' = U o'"
    and "filter (\<lambda>t. gt_Slug t \<noteq> Some (slugify (tm_Name spec))) (U' org) = filter (\<lambda>t. gt_Slug t \<noteq> Some (slugify (tm_Name spec))) (U org)"
    and "has_team slugify spec (U org) \<Longrightarrow> ts_calls st' = ts_calls st"
proof -
  let ?s = "slugify (tm_Name spec)"
  note run = run [unfolded team_for_org [OF assms(1-3)], folded U]
  consider (created) "find (\<lambda>t. gt_Slug t = Some ?s) (U org) = None" "r = TeamOk"
        "st' = team_called (CreateTeam org (TeamToCreateTeamRequest spec)) (st\<lparr>ts_Slug := Some ?s, ts_StatusSlug := Some ?s\<rparr>)"
    | (kept) t where "find (\<lambda>t. gt_Slug t = Some ?s) (U org) = Some t" "TeamDiffers (Some spec) (Some t) = Some False" "r = TeamOk"
        "st' = st\<lparr>ts_Slug := Some ?s, ts_StatusSlug := Some ?s\<rparr>"
    | (edited) t where "find (\<lambda>t. gt_Slug t = Some ?s) (U org) = Some t" "TeamDiffers (Some spec) (Some t) \<noteq> Some False" "r = TeamOk"
        "st' = team_called (EditTeam org ?s (TeamToUpdateTeamRequest spec)) (st\<lparr>ts_Slug := Some ?s, ts_StatusSlug := Some ?s\<rparr>)"
    using run by (auto simp: Let_def split: option.splits if_splits)
  note cases = this
  show "r = TeamOk" "ts_Slug st' = Some ?s" "ts_StatusSlug st' = Some ?s" "ts_PreviousRefs st' = ts_PreviousRefs st"
    by (cases rule: cases; simp add: team_called_def)+
  have okU: "org_teams_ok slugify (U o')" for o' using ok U by (simp add: teams_ok_def)
  have V: "U' = U \<and> has_team slugify spec (U org) \<or> (\<exists>V. U' = U(org := V) \<and> org_teams_ok slugify V \<and> has_team slugify spec V \<and>
      (\<forall>t \<in> set V. t \<in> set (U org) \<or> gt_Name t = Some (tm_Name spec)) \<and>
      filter (\<lambda>t. gt_Slug t \<noteq> Some ?s) V = filter (\<lambda>t. gt_Slug t \<noteq> Some ?s) (U org))"
  proof (cases rule: cases)
    case created
    then have "U' = U(org := U org @ [made_team slugify (TeamToCreateTeamRequest spec)])" by (simp add: U' U team_called_def)
    moreover have "org_teams_ok slugify (U org @ [made_team slugify (TeamToCreateTeamRequest spec)])"
      using org_teams_ok_append [OF okU] created(1) by simp
    ultimately show ?thesis
      by (intro disjI2 exI [of _ "U org @ [made_team slugify (TeamToCreateTeamRequest spec)]"]) (simp add: has_team_def flip: made_wanted(1))
  next
    case (kept t)
    have "t \<in> set (U org)" "gt_Slug t = Some ?s" using kept(1) by (auto simp: find_Some_iff)
    then have "has_team slugify spec (U org)" using kept(2) team_differs_wanted by (simp add: has_team_def)
    then show ?thesis using kept(4) by (simp add: U' U)
  next
    case (edited t)
    let ?V = "map (\<lambda>t. if gt_Slug t = Some ?s then made_team slugify (TeamToUpdateTeamRequest spec) else t) (U org)"
    have "t \<in> set (U org) \<and> gt_Slug t = Some ?s" using edited(1) by (auto simp: find_Some_iff)
    then have "made_team slugify (TeamToUpdateTeamRequest spec) \<in> set ?V" by force
    then have "has_team slugify spec ?V" by (simp only: has_team_def flip: made_wanted(2))
    moreover have "U' = U(org := ?V)" using edited by (simp add: U' U team_called_def)
    moreover have "org_teams_ok slugify ?V" by (rule org_teams_ok_edit [OF okU]) simp
    moreover have "filter (\<lambda>t. gt_Slug t \<noteq> Some ?s) ?V = filter (\<lambda>t. gt_Slug t \<noteq> Some ?s) (U org)"
      using filter_edit [of "\<lambda>t. gt_Slug t \<noteq> Some ?s" "made_team slugify (TeamToUpdateTeamRequest spec)" "U org"]
      by simp
    moreover have "\<forall>t \<in> set ?V. t \<in> set (U org) \<or> gt_Name t = Some (tm_Name spec)" by auto
    ultimately show ?thesis by blast
  qed
  show "teams_ok slugify (tm_Name spec) Q U'"
    using V ok unfolding U [symmetric] teams_ok_def by (auto split: if_splits) blast
  show "has_team slugify spec (U' org)" using V by auto
  show "\<And>o'. o' \<noteq> org \<Longrightarrow> U' o' = U o'" using V by auto
  show "filter (\<lambda>t. gt_Slug t \<noteq> Some ?s) (U' org) = filter (\<lambda>t. gt_Slug t \<noteq> Some ?s) (U org)" using V by auto
  show "ts_calls st' = ts_calls st" if h: "has_team slugify spec (U org)"
  proof -
    obtain t where t: "t \<in> set (U org)" "gt_Slug t = Some ?s" "TeamDiffers (Some spec) (Some t) = Some False"
      using h team_differs_wanted [of "wanted_team slugify spec" slugify spec] by (simp add: has_team_def wanted_team_def)
    have "u = t" if "find (\<lambda>t. gt_Slug t = Some ?s) (U org) = Some u" for u
    proof -
      have "u \<in> set (U org)" "gt_Slug u = Some ?s" using that by (auto simp: find_Some_iff)
      then show ?thesis using t okU [of org] by (metis distinct_map inj_onD org_teams_ok_def)
    qed
    then show ?thesis
      by (cases rule: cases) (use t in \<open>auto simp: find_None_iff\<close>)
  qed
qed

lemma reconcile_team_previous:
  "reconcileTeam api spec orgs st = (st', r) \<Longrightarrow> ts_PreviousRefs st' = ts_PreviousRefs st"
proof (induction orgs arbitrary: st)
  case (Cons org orgs)
  obtain st1 r1 where f: "reconcileTeamForOrg api spec org st = (st1, r1)" by fastforce
  have "ts_PreviousRefs st1 = ts_PreviousRefs st"
    using f by (auto simp: reconcileTeamForOrg_def findTeam_def createTeam_def updateTeam_def updateSlugs_def team_called_def Let_def
        split: option.splits sum.splits prod.splits if_splits bool.splits)
  then show ?case using Cons f by (cases r1) auto
qed simp

lemma reconcile_team_effect:
  assumes "teams_ok slugify (tm_Name spec) Q (teams_after slugify T (ts_calls st))" and "set orgs \<subseteq> Q"
    and "slug_known (slugify (tm_Name spec)) st"
    and "reconcileTeam (team_store_api slugify T) spec orgs st = (st', r)"
    and "U = teams_after slugify T (ts_calls st)" and "U' = teams_after slugify T (ts_calls st')"
  shows "r = TeamOk \<and> slug_known (slugify (tm_Name spec)) st' \<and> (orgs \<noteq> [] \<longrightarrow> ts_Slug st' = Some (slugify (tm_Name spec))) \<and>
    teams_ok slugify (tm_Name spec) Q U' \<and> (\<forall>org. org \<in> set orgs \<or> has_team slugify spec (U org) \<longrightarrow> has_team slugify spec (U' org)) \<and>
    (\<forall>org. org \<notin> set orgs \<longrightarrow> U' org = U org) \<and>
    (\<forall>org. filter (\<lambda>t. gt_Slug t \<noteq> Some (slugify (tm_Name spec))) (U' org) = filter (\<lambda>t. gt_Slug t \<noteq> Some (slugify (tm_Name spec))) (U org)) \<and>
    ((\<forall>org \<in> set orgs. has_team slugify spec (U org)) \<longrightarrow> ts_calls st' = ts_calls st)"
  using assms
proof (induction orgs arbitrary: st U)
  case (Cons org orgs)
  obtain st1 r1 where f: "reconcileTeamForOrg (team_store_api slugify T) spec org st = (st1, r1)" by fastforce
  define U1 where "U1 = teams_after slugify T (ts_calls st1)"
  have "org \<in> Q" using Cons.prems(2) by simp
  note e = team_for_org_effect [OF Cons.prems(1) this Cons.prems(3) f Cons.prems(5) U1_def]
  have k: "slug_known (slugify (tm_Name spec)) st1" using e(2,3) by (simp add: slug_known_def)
  have run: "reconcileTeam (team_store_api slugify T) spec orgs st1 = (st', r)" using Cons.prems(4) f e(1) by simp
  have ok1: "teams_ok slugify (tm_Name spec) Q (teams_after slugify T (ts_calls st1))" using e(5) by (simp add: U1_def)
  have sub: "set orgs \<subseteq> Q" using Cons.prems(2) by simp
  note IH = Cons.IH [OF ok1 sub k run U1_def Cons.prems(6)]
  have m: "has_team slugify spec (U o') \<Longrightarrow> has_team slugify spec (U1 o')" for o' using e(6,7) by (cases "o' = org") simp_all
  have "ts_Slug st' = Some (slugify (tm_Name spec))"
    using IH run e(2) by (cases orgs) simp_all
  moreover have "filter (\<lambda>t. gt_Slug t \<noteq> Some (slugify (tm_Name spec))) (U' o') = filter (\<lambda>t. gt_Slug t \<noteq> Some (slugify (tm_Name spec))) (U o')" for o'
    using IH e(7,8) by (cases "o' = org") simp_all
  moreover have "U' o' = U o'" if "o' \<notin> set (org # orgs)" for o' using IH e(7) that by simp
  moreover have "has_team slugify spec (U' o')" if "o' \<in> set (org # orgs) \<or> has_team slugify spec (U o')" for o'
    using IH e(6) m that by (cases "o' = org") auto
  moreover have "ts_calls st' = ts_calls st" if "\<forall>o' \<in> set (org # orgs). has_team slugify spec (U o')"
    using IH e(9) m that by simp
  ultimately show ?case using IH by blast
qed (simp add: slug_known_def)

text \<open>C36: with slugs that belong to names, the team reconciler brings the team into every organization with the name, description, privacy, permission and notification setting of
  its resource (closed, pull and disabled notifications where the resource says nothing), records its slug, touches no other team, and makes no calls in a second run. The reconciler knows the slug of the
  name or none: a rename, which leaves a second team behind in the later organizations, is not covered.\<close>

theorem team_converges:
  assumes "teams_ok slugify (tm_Name spec) (set orgs) T" and "slug_known (slugify (tm_Name spec)) st" and "ts_calls st = []" and "orgs \<noteq> []"
    and "reconcileTeam (team_store_api slugify T) spec orgs st = (st', r)" and "T' = teams_after slugify T (ts_calls st')"
  shows "r = TeamOk \<and> ts_Slug st' = Some (slugify (tm_Name spec)) \<and> ts_StatusSlug st' = Some (slugify (tm_Name spec)) \<and>
         (\<forall>org \<in> set orgs. has_team slugify spec (T' org)) \<and>
         (\<forall>org. filter (\<lambda>t. gt_Slug t \<noteq> Some (slugify (tm_Name spec))) (T' org) = filter (\<lambda>t. gt_Slug t \<noteq> Some (slugify (tm_Name spec))) (T org)) \<and>
         reconcileTeam (team_store_api slugify T') spec orgs (st'\<lparr>ts_calls := []\<rparr>) = (st'\<lparr>ts_calls := []\<rparr>, TeamOk)"
proof -
  let ?s = "slugify (tm_Name spec)"
  have ok: "teams_ok slugify (tm_Name spec) (set orgs) (teams_after slugify T (ts_calls st))" using assms(1,3) by simp
  have T: "T = teams_after slugify T (ts_calls st)" using assms(3) by simp
  note e = reconcile_team_effect [OF ok subset_refl assms(2,5) T assms(6)]
  define st1 where "st1 = st'\<lparr>ts_calls := []\<rparr>"
  obtain st2 r2 where run2: "reconcileTeam (team_store_api slugify T') spec orgs st1 = (st2, r2)" by fastforce
  have k1: "slug_known ?s st1" using e by (simp add: slug_known_def st1_def)
  have ok1: "teams_ok slugify (tm_Name spec) (set orgs) (teams_after slugify T' (ts_calls st1))" using e by (simp add: st1_def)
  have T1: "T' = teams_after slugify T' (ts_calls st1)" by (simp add: st1_def)
  note e2 = reconcile_team_effect [OF ok1 subset_refl k1 run2 T1 refl]
  have calls2: "ts_calls st2 = []" using e2 e by (simp add: st1_def)
  have prev: "ts_PreviousRefs st2 = ts_PreviousRefs st1" using run2 by (rule reconcile_team_previous)
  have "st2 = st1"
    using e e2 calls2 prev assms(4) by (cases st2; cases st') (auto simp: st1_def slug_known_def)
  moreover have "ts_StatusSlug st' = ts_Slug st'" using e by (simp add: slug_known_def)
  ultimately show ?thesis using e e2 run2 assms(4) unfolding st1_def by auto
qed

text \<open>A rename reaches the first organization only. The slug the first organization returns is used to
  find the team in the next one, where the team still has its old slug: it is not found, stays behind
  under its old name, and a second team is created.\<close>

lemma rename_splits_team:
  assumes "org_teams_ok slugify (T org1)" and "t1 \<in> set (T org1)" and "gt_Name t1 = Some old" and "org1 \<noteq> org2"
    and "\<forall>t \<in> set (T org2). gt_Slug t \<noteq> Some (slugify (tm_Name spec))"
    and "old \<noteq> tm_Name spec" and "ts_Slug st = Some (slugify old)" and "ts_calls st = []"
  shows "\<exists>st'. reconcileTeam (team_store_api slugify T) spec [org1, org2] st = (st', TeamOk) \<and>
           ts_calls st' = [EditTeam org1 (slugify old) (TeamToUpdateTeamRequest spec), CreateTeam org2 (TeamToCreateTeamRequest spec)] \<and>
           teams_after slugify T (ts_calls st') org2 = T org2 @ [made_team slugify (TeamToCreateTeamRequest spec)]"
proof -
  have t1: "gt_Slug t1 = Some (slugify old)" using assms(1-3) by (auto simp: org_teams_ok_def)
  have "find (\<lambda>t. gt_Slug t = Some (slugify old)) (T org1) = Some t1"
  proof (cases "find (\<lambda>t. gt_Slug t = Some (slugify old)) (T org1)")
    case None
    then show ?thesis using assms(2) t1 by (auto simp: find_None_iff)
  next
    case (Some u)
    then have "u \<in> set (T org1)" "gt_Slug u = Some (slugify old)" by (auto simp: find_Some_iff)
    then have "u = t1" using assms(1,2) t1 by (metis distinct_map inj_onD org_teams_ok_def)
    then show ?thesis using Some by simp
  qed
  moreover have "TeamDiffers (Some spec) (Some t1) = Some True" using assms(3,6) by (simp add: TeamDiffers_def)
  ultimately have "reconcileTeamForOrg (team_store_api slugify T) spec org1 st =
      (st\<lparr>ts_calls := [EditTeam org1 (slugify old) (TeamToUpdateTeamRequest spec)],
          ts_Slug := Some (slugify (tm_Name spec)), ts_StatusSlug := Some (slugify (tm_Name spec))\<rparr>, TeamOk)"
    using assms(7,8) by (simp add: reconcileTeamForOrg_def findTeam_def GetSlug_def updateTeam_def updateSlugs_def team_called_def Let_def)
  moreover have "find (\<lambda>t. gt_Slug t = Some (slugify (tm_Name spec))) (T org2) = None" using assms(5) by (simp add: find_None_iff)
  ultimately show ?thesis
    using assms(4)
    by (simp add: reconcileTeamForOrg_def findTeam_def GetSlug_def createTeam_def updateSlugs_def team_called_def Let_def teams_after_def)
qed

text \<open>Examples: two organizations; GitHub turns names into slugs by a table.\<close>

definition ex_team :: "string \<Rightarrow> team_spec" where
  "ex_team name = \<lparr>tm_Name = name, tm_Members = [''ann'', ''bob''], tm_IDPGroup = None, tm_Description = ''d'', tm_Privacy = [],
     tm_Permission = [], tm_NotificationSetting = [], tm_OrganizationRoles = [''reader''], tm_OrganizationRefs = [''o1'', ''o2'']\<rparr>"

definition ex_slug :: "string \<Rightarrow> string" where
  "ex_slug n = (if n = ''Core Team'' then ''core-team'' else n)"

definition ex_teams :: "string \<Rightarrow> gh_team list" where
  "ex_teams org = (if org = ''o1'' \<or> org = ''o2''
     then [made_team ex_slug (TeamToCreateTeamRequest (ex_team ''old'')), made_team ex_slug (TeamToCreateTeamRequest (ex_team ''other''))] else [])"

definition ex_team_state :: "string option \<Rightarrow> team_state" where
  "ex_team_state s = \<lparr>ts_Slug = s, ts_StatusSlug = s, ts_PreviousRefs = [], ts_calls = []\<rparr>"

theorem team_converges_witness:
  "\<exists>st'. reconcileTeam (team_store_api ex_slug ex_teams) (ex_team ''Core Team'') [''o1'', ''o2''] (ex_team_state None) = (st', TeamOk) \<and>
     ts_Slug st' = Some ''core-team''"
proof -
  let ?sp = "ex_team ''Core Team''" and ?orgs = "[''o1'', ''o2'']"
  have n: "tm_Name ?sp = ''Core Team''" by (simp add: ex_team_def)
  have "org_teams_ok ex_slug (ex_teams org)" for org
    by (simp add: org_teams_ok_def ex_teams_def ex_slug_def ex_team_def)
  moreover have "\<forall>t \<in> set (ex_teams org). gt_Slug t \<noteq> Some ''core-team''" for org
    by (auto simp: ex_teams_def ex_slug_def ex_team_def)
  ultimately have ok: "teams_ok ex_slug (tm_Name ?sp) (set ?orgs) ex_teams"
    by (simp add: teams_ok_def n ex_slug_def)
  have k: "slug_known (ex_slug (tm_Name ?sp)) (ex_team_state None)" by (simp add: slug_known_def ex_team_state_def)
  obtain st' r where run: "reconcileTeam (team_store_api ex_slug ex_teams) ?sp ?orgs (ex_team_state None) = (st', r)" by fastforce
  have c: "ts_calls (ex_team_state None) = []" "?orgs \<noteq> []" by (simp_all add: ex_team_state_def)
  show ?thesis using team_converges [OF ok k c run refl] run by (simp add: n ex_slug_def)
qed

lemma rename_splits_team_witness:
  "\<exists>st'. reconcileTeam (team_store_api ex_slug ex_teams) (ex_team ''Core Team'') [''o1'', ''o2''] (ex_team_state (Some ''old'')) = (st', TeamOk) \<and>
     map gt_Slug (teams_after ex_slug ex_teams (ts_calls st') ''o2'') = [Some ''old'', Some ''other'', Some ''core-team'']"
proof -
  have ok: "org_teams_ok ex_slug (ex_teams ''o1'')"
    by (simp add: org_teams_ok_def ex_teams_def ex_slug_def ex_team_def)
  have t: "made_team ex_slug (TeamToCreateTeamRequest (ex_team ''old'')) \<in> set (ex_teams ''o1'')" by (simp add: ex_teams_def)
  have nm: "gt_Name (made_team ex_slug (TeamToCreateTeamRequest (ex_team ''old''))) = Some ''old''" by (simp add: ex_team_def)
  have free: "\<forall>t \<in> set (ex_teams ''o2''). gt_Slug t \<noteq> Some (ex_slug (tm_Name (ex_team ''Core Team'')))"
    by (simp add: ex_teams_def ex_slug_def ex_team_def)
  have ne: "''o1'' \<noteq> ''o2''"
    and st: "''old'' \<noteq> tm_Name (ex_team ''Core Team'')" "ts_Slug (ex_team_state (Some ''old'')) = Some (ex_slug ''old'')"
      "ts_calls (ex_team_state (Some ''old'')) = []"
    by (simp_all add: ex_team_def ex_team_state_def ex_slug_def)
  have r: "\<exists>st'. reconcileTeam (team_store_api ex_slug ex_teams) (ex_team ''Core Team'') [''o1'', ''o2''] (ex_team_state (Some ''old'')) = (st', TeamOk) \<and>
           ts_calls st' = [EditTeam ''o1'' (ex_slug ''old'') (TeamToUpdateTeamRequest (ex_team ''Core Team'')), CreateTeam ''o2'' (TeamToCreateTeamRequest (ex_team ''Core Team''))] \<and>
           teams_after ex_slug ex_teams (ts_calls st') ''o2'' = ex_teams ''o2'' @ [made_team ex_slug (TeamToCreateTeamRequest (ex_team ''Core Team''))]"
    by (rule rename_splits_team [where T = ex_teams, OF ok t nm ne free st])
  have "map gt_Slug (ex_teams ''o2'' @ [made_team ex_slug (TeamToCreateTeamRequest (ex_team ''Core Team''))]) = [Some ''old'', Some ''other'', Some ''core-team'']"
    by (simp add: ex_teams_def ex_slug_def ex_team_def)
  then show ?thesis using r by auto
qed

section \<open>Members on a GitHub that stores them\<close>

fun member_apply :: "member_call \<Rightarrow> (string \<Rightarrow> string \<Rightarrow> string set) \<Rightarrow> string \<Rightarrow> string \<Rightarrow> string set" where
  "member_apply (AddTeamMember org slug m) M = M(org := (M org)(slug := insert m (M org slug)))"
| "member_apply (RemoveTeamMember org slug m) M = M(org := (M org)(slug := M org slug - {m}))"

definition members_after :: "(string \<Rightarrow> string \<Rightarrow> string set) \<Rightarrow> member_call list \<Rightarrow> string \<Rightarrow> string \<Rightarrow> string set" where
  "members_after M calls = fold member_apply calls M"

text \<open>GitHub lists the members of a team and of an organization in some order: \<open>tm\<close> and \<open>om\<close> give the lists.\<close>

definition member_store_api ::
    "(member_call list \<Rightarrow> string \<Rightarrow> string \<Rightarrow> string list) \<Rightarrow> (string \<Rightarrow> string list) \<Rightarrow> member_api" where
  "member_store_api tm om =
     \<lparr>ma_GetAllTeamMembers = (\<lambda>h org slug. Inr (map Some (tm h org slug))), ma_ListMembers = (\<lambda>h org. Inr (map Some (om org))),
      ma_AddTeamMember = (\<lambda>h org slug m. None), ma_RemoveTeamMember = (\<lambda>h org slug m. None)\<rparr>"

definition lists_members :: "(member_call list \<Rightarrow> string \<Rightarrow> string \<Rightarrow> string list) \<Rightarrow> (string \<Rightarrow> string \<Rightarrow> string set) \<Rightarrow> bool" where
  "lists_members tm M \<longleftrightarrow> (\<forall>h org slug. set (tm h org slug) = members_after M h org slug)"

lemma members_after_simps [simp]:
  "members_after M [] = M"
  "members_after M (cs @ [c]) = member_apply c (members_after M cs)"
  by (simp_all add: members_after_def)

lemma logins_Some: "gomap_ok (logins (map Some xs))" "map_get (logins (map Some xs)) m = (if m \<in> set xs then Some m else None)"
proof -
  have f: "List.map_filter (\<lambda>u. u) (map Some xs) = xs" by (induction xs) (simp_all add: List.map_filter_simps)
  show "gomap_ok (logins (map Some xs))" by (simp add: logins_def)
  show "map_get (logins (map Some xs)) m = (if m \<in> set xs then Some m else None)"
  proof (cases "m \<in> set xs")
    case True
    then have "m \<in> dom (map_get (put_all (\<lambda>l. l) (\<lambda>l. l) xs []))" by (simp add: put_all_dom)
    then obtain v where v: "map_get (put_all (\<lambda>l. l) (\<lambda>l. l) xs []) m = Some v" by blast
    then show ?thesis using put_all_get_in [of "\<lambda>l. l" "\<lambda>l. l" xs "[]" m v] True by (auto simp: logins_def f)
  qed (simp add: logins_def f put_all_notin)
qed

lemma add_members_store:
  assumes "add_members (member_store_api tm om) org slug ex om' ms del calls = (del', calls', e)"
    and "\<forall>k v. map_get del k = Some v \<longrightarrow> k = v" and "gomap_ok del"
  shows "e = None \<and> gomap_ok del' \<and> (\<forall>k v. map_get del' k = Some v \<longrightarrow> k = v) \<and>
    dom (map_get del') = dom (map_get del) - {m \<in> set ms. map_get ex m \<noteq> None} \<and>
    members_after M calls' org slug = members_after M calls org slug \<union> {m \<in> set ms. map_get ex m = None \<and> map_get om' m \<noteq> None} \<and>
    (\<forall>o' s'. (o', s') \<noteq> (org, slug) \<longrightarrow> members_after M calls' o' s' = members_after M calls o' s') \<and>
    ({m \<in> set ms. map_get ex m = None \<and> map_get om' m \<noteq> None} = {} \<longrightarrow> calls' = calls)"
  using assms
proof (induction ms arbitrary: del calls)
  case (Cons m ms)
  let ?api = "member_store_api tm om" and ?c = "calls @ [AddTeamMember org slug m]"
  consider (there) "map_get ex m \<noteq> None" | (add) "map_get ex m = None" "map_get om' m \<noteq> None" | (unknown) "map_get ex m = None" "map_get om' m = None"
    by blast
  then show ?case
  proof cases
    case there
    then have run: "add_members ?api org slug ex om' ms (map_delete m del) calls = (del', calls', e)" using Cons.prems(1) by simp
    have s: "{x \<in> set (m # ms). map_get ex x = None \<and> map_get om' x \<noteq> None} = {x \<in> set ms. map_get ex x = None \<and> map_get om' x \<noteq> None}"
      and d: "{x \<in> set (m # ms). map_get ex x \<noteq> None} = insert m {x \<in> set ms. map_get ex x \<noteq> None}" using there by auto
    have p: "\<forall>k v. map_get (map_delete m del) k = Some v \<longrightarrow> k = v" using Cons.prems(2) by simp
    have dd: "dom (map_get del) - insert m X = dom (map_get (map_delete m del)) - X" for X by auto
    show ?thesis unfolding s d dd by (rule Cons.IH [OF run p]) (simp add: Cons.prems(3))
  next
    case add
    then have run: "add_members ?api org slug ex om' ms del ?c = (del', calls', e)" using Cons.prems(1) by (simp add: member_store_api_def)
    have s: "{x \<in> set (m # ms). map_get ex x = None \<and> map_get om' x \<noteq> None} = insert m {x \<in> set ms. map_get ex x = None \<and> map_get om' x \<noteq> None}"
      and d: "{x \<in> set (m # ms). map_get ex x \<noteq> None} = {x \<in> set ms. map_get ex x \<noteq> None}" using add by auto
    note IH = Cons.IH [OF run Cons.prems(2,3)]
    have a: "members_after M ?c org slug = insert m (members_after M calls org slug)"
      and b: "\<forall>o' s'. (o', s') \<noteq> (org, slug) \<longrightarrow> members_after M ?c o' s' = members_after M calls o' s'" by auto
    show ?thesis unfolding s d using IH b unfolding a by simp
  next
    case unknown
    then have run: "add_members ?api org slug ex om' ms del calls = (del', calls', e)" using Cons.prems(1) by simp
    have s: "{x \<in> set (m # ms). map_get ex x = None \<and> map_get om' x \<noteq> None} = {x \<in> set ms. map_get ex x = None \<and> map_get om' x \<noteq> None}"
      and d: "{x \<in> set (m # ms). map_get ex x \<noteq> None} = {x \<in> set ms. map_get ex x \<noteq> None}" using unknown by auto
    show ?thesis unfolding s d by (rule Cons.IH [OF run Cons.prems(2,3)])
  qed
qed simp

lemma remove_members_store:
  assumes "remove_members (member_store_api tm om) org slug dels calls = (calls', e)"
  shows "e = None \<and> members_after M calls' org slug = members_after M calls org slug - snd ` set dels \<and>
    (\<forall>o' s'. (o', s') \<noteq> (org, slug) \<longrightarrow> members_after M calls' o' s' = members_after M calls o' s') \<and> (dels = [] \<longrightarrow> calls' = calls)"
  using assms
proof (induction dels arbitrary: calls)
  case (Cons d dels)
  obtain k m where d: "d = (k, m)" by fastforce
  have run: "remove_members (member_store_api tm om) org slug dels (calls @ [RemoveTeamMember org slug m]) = (calls', e)"
    using Cons.prems d by (simp add: member_store_api_def)
  show ?case using Cons.IH [OF run] d by auto
qed simp

definition wanted_members :: "team_spec \<Rightarrow> string \<Rightarrow> string set" where
  "wanted_members spec suffix = (\<lambda>m. m @ suffix) ` set (tm_Members spec)"

lemma members_for_org_store:
  assumes "range_order ord" and "lists_members tm M"
    and "members_for_org ord (member_store_api tm om) spec suffix slug org calls = (calls', e)"
  shows "e = None \<and>
    members_after M calls' org slug = wanted_members spec suffix \<inter> (members_after M calls org slug \<union> set (om org)) \<and>
    (\<forall>o' s'. (o', s') \<noteq> (org, slug) \<longrightarrow> members_after M calls' o' s' = members_after M calls o' s') \<and>
    (members_after M calls org slug = wanted_members spec suffix \<inter> (members_after M calls org slug \<union> set (om org)) \<longrightarrow> calls' = calls)"
proof -
  let ?ex = "logins (map Some (tm calls org slug))" and ?om = "logins (map Some (om org))"
    and ?ms = "map (\<lambda>m. m @ suffix) (tm_Members spec)" and ?cur = "members_after M calls org slug"
  obtain del calls1 e1 where add: "add_members (member_store_api tm om) org slug ?ex ?om ?ms ?ex calls = (del, calls1, e1)"
    by (metis prod_cases3)
  have id: "\<forall>k v. map_get ?ex k = Some v \<longrightarrow> k = v" by (simp add: logins_Some split: if_splits)
  note a = add_members_store [OF add id logins_Some(1), of M]
  have e1: "e1 = None" using a by blast
  have rem: "remove_members (member_store_api tm om) org slug (ord del) calls1 = (calls', e)"
    using assms(3) add e1 by (simp add: members_for_org_def) (simp add: member_store_api_def)
  note r = remove_members_store [OF rem, of M]
  have cur: "set (tm calls org slug) = ?cur" using assms(2) by (simp add: lists_members_def)
  have ex: "map_get ?ex m = None \<longleftrightarrow> m \<notin> ?cur" for m using cur by (simp add: logins_Some)
  have om: "map_get ?om m = None \<longleftrightarrow> m \<notin> set (om org)" for m by (simp add: logins_Some)
  have W: "set ?ms = wanted_members spec suffix" by (simp add: wanted_members_def)
  have dex: "dom (map_get ?ex) = ?cur" unfolding dom_def using ex by simp
  have ddel: "dom (map_get del) = ?cur - wanted_members spec suffix" using a unfolding dex W ex by blast
  have aid: "\<forall>k v. map_get del k = Some v \<longrightarrow> k = v" and gd: "gomap_ok del" using a by blast+
  have "snd ` set (ord del) = dom (map_get del)"
  proof (rule set_eqI)
    fix m
    have "m \<in> snd ` set (ord del) \<longleftrightarrow> (\<exists>k. (k, m) \<in> set (ord del))" by force
    also have "\<dots> \<longleftrightarrow> (\<exists>k. map_get del k = Some m)" by (simp add: range_order_set [OF assms(1)] gomap_in_iff [OF gd])
    also have "\<dots> \<longleftrightarrow> m \<in> dom (map_get del)" using aid by blast
    finally show "m \<in> snd ` set (ord del) \<longleftrightarrow> m \<in> dom (map_get del)" .
  qed
  then have dels: "snd ` set (ord del) = ?cur - wanted_members spec suffix" using ddel by simp
  have added: "{m \<in> set ?ms. map_get ?ex m = None \<and> map_get ?om m \<noteq> None} = wanted_members spec suffix \<inter> set (om org) - ?cur"
    unfolding W ex om by blast
  have after1: "members_after M calls1 org slug = ?cur \<union> (wanted_members spec suffix \<inter> set (om org) - ?cur)"
    using a unfolding added by blast
  have after: "members_after M calls' org slug = wanted_members spec suffix \<inter> (?cur \<union> set (om org))"
    using r unfolding after1 dels by blast
  have "calls' = calls" if same: "?cur = wanted_members spec suffix \<inter> (?cur \<union> set (om org))"
  proof -
    have "wanted_members spec suffix \<inter> set (om org) - ?cur = {}" using same by blast
    then have "calls1 = calls" using a unfolding added by blast
    moreover have "snd ` set (ord del) = {}" unfolding dels using same by blast
    ultimately show ?thesis using r by simp
  qed
  then show ?thesis using a r after by simp
qed

lemma members_loop_store:
  assumes "range_order ord" and "lists_members tm M"
    and "members_loop ord (member_store_api tm om) spec suffix slug orgs calls = (calls', e)"
  shows "e = None \<and>
    (\<forall>org. members_after M calls' org slug = (if org \<in> set orgs then wanted_members spec (suffix org) \<inter> (members_after M calls org slug \<union> set (om org))
       else members_after M calls org slug)) \<and>
    (\<forall>o' s'. s' \<noteq> slug \<longrightarrow> members_after M calls' o' s' = members_after M calls o' s') \<and>
    ((\<forall>org \<in> set orgs. members_after M calls org slug = wanted_members spec (suffix org) \<inter> (members_after M calls org slug \<union> set (om org))) \<longrightarrow>
       calls' = calls)"
  using assms(3)
proof (induction orgs arbitrary: calls)
  case (Cons org orgs)
  obtain calls1 e1 where f: "members_for_org ord (member_store_api tm om) spec (suffix org) slug org calls = (calls1, e1)" by fastforce
  note o1 = members_for_org_store [OF assms(1,2) f]
  have e1: "e1 = None" using o1 by blast
  have run: "members_loop ord (member_store_api tm om) spec suffix slug orgs calls1 = (calls', e)" using Cons.prems f e1 by simp
  note IH = Cons.IH [OF run]
  let ?W = "\<lambda>o'. wanted_members spec (suffix o')" and ?A = "\<lambda>cs o'. members_after M cs o' slug"
  have here: "?A calls1 org = ?W org \<inter> (?A calls org \<union> set (om org))" using o1 by blast
  have there: "?A calls1 o' = ?A calls o'" if "o' \<noteq> org" for o' using o1 that by blast
  have "?A calls' o' = (if o' \<in> set (org # orgs) then ?W o' \<inter> (?A calls o' \<union> set (om o')) else ?A calls o')" for o'
  proof (cases "o' = org")
    case True
    have "?A calls' org = ?A calls1 org \<or> ?A calls' org = ?W org \<inter> (?A calls1 org \<union> set (om org))" using IH by metis
    then have "?A calls' org = ?W org \<inter> (?A calls org \<union> set (om org))" unfolding here by blast
    then show ?thesis using True by simp
  next
    case False
    then show ?thesis using IH there [of o'] by simp
  qed
  moreover have "members_after M calls' o' s' = members_after M calls o' s'" if "s' \<noteq> slug" for o' s' using IH o1 that by simp
  moreover have "calls' = calls" if all: "\<forall>o' \<in> set (org # orgs). ?A calls o' = ?W o' \<inter> (?A calls o' \<union> set (om o'))"
  proof -
    have "calls1 = calls" using o1 all by simp
    then show ?thesis using IH all by simp
  qed
  ultimately show ?case using IH by blast
qed simp

lemma lists_members_later: "lists_members tm M \<Longrightarrow> lists_members (\<lambda>h. tm (calls @ h)) (members_after M calls)"
  by (simp add: lists_members_def members_after_def)

text \<open>The members of a team. In every organization, the members afterwards are those listed in the resource (with the
  suffix) that belong to the organization or were in the team before; no other team is touched, teams of an
  identity provider are left alone, and a second run changes nothing.\<close>

lemma team_members_converge:
  assumes "range_order ord" and "lists_members tm M"
    and "(if env = [] then k8s_orgs reader (tm_OrganizationRefs spec) [] else Inr []) = Inr orgres"
    and "reconcileTeamMembers ord (member_store_api tm om) reader env spec slug orgs = (calls, e)"
  shows "e = None \<and> (IsIDPTeam spec \<longrightarrow> calls = []) \<and>
         (\<not> IsIDPTeam spec \<longrightarrow> (\<forall>org \<in> set orgs. members_after M calls org slug =
            wanted_members spec (member_suffix env orgres org) \<inter> (M org slug \<union> set (om org)))) \<and>
         (\<forall>org s. s \<noteq> slug \<or> org \<notin> set orgs \<longrightarrow> members_after M calls org s = M org s) \<and>
         reconcileTeamMembers ord (member_store_api (\<lambda>h. tm (calls @ h)) om) reader env spec slug orgs = ([], None)"
proof (cases "IsIDPTeam spec")
  case True
  then show ?thesis using assms(4) by (simp add: reconcileTeamMembers_def)
next
  case False
  let ?sx = "member_suffix env orgres"
  have rt: "reconcileTeamMembers ord (member_store_api tm' om) reader env spec slug orgs =
      members_loop ord (member_store_api tm' om) spec ?sx slug orgs []" for tm'
    unfolding reconcileTeamMembers_def assms(3) using False by simp
  note l = members_loop_store [OF assms(1,2) assms(4) [unfolded rt]]
  obtain calls2 e2 where run2: "members_loop ord (member_store_api (\<lambda>h. tm (calls @ h)) om) spec ?sx slug orgs [] = (calls2, e2)" by fastforce
  note l2 = members_loop_store [OF assms(1) lists_members_later [OF assms(2)] run2]
  have B: "members_after M calls org slug = wanted_members spec (?sx org) \<inter> (M org slug \<union> set (om org))" if "org \<in> set orgs" for org
    using l that by simp
  then have "\<forall>org \<in> set orgs. members_after M calls org slug = wanted_members spec (?sx org) \<inter> (members_after M calls org slug \<union> set (om org))"
    by blast
  then have "calls2 = []" "e2 = None" using l2 by simp_all
  then have D: "reconcileTeamMembers ord (member_store_api (\<lambda>h. tm (calls @ h)) om) reader env spec slug orgs = ([], None)"
    using run2 by (simp only: rt)
  have C: "members_after M calls org s = M org s" if "s \<noteq> slug \<or> org \<notin> set orgs" for org s
    using l that by (cases "s = slug") simp_all
  have "e = None" using l by blast
  then show ?thesis using B C D False by blast
qed

text \<open>
  The suffix as documented: that of the organization where it has one, else the global one. The code agrees if there is no global suffix or no organization
  has one of its own.
\<close>

definition documented_suffix :: "string \<Rightarrow> org_resource \<Rightarrow> string" where
  "documented_suffix env og = (if og_MemberSuffix og \<noteq> [] then og_MemberSuffix og else env)"

lemma k8s_orgs_all: "map_result reader refs = Inr ogs \<Longrightarrow> k8s_orgs reader refs m = Inr (put_all GetLogin (\<lambda>og. og) ogs m)"
  by (induction refs arbitrary: ogs m) (auto split: sum.splits)

lemma documented_members_converge:
  assumes "range_order ord" and "lists_members tm M"
    and "map_result reader (tm_OrganizationRefs spec) = Inr ogs" and "distinct (map GetLogin ogs)"
    and "env = [] \<or> (\<forall>og \<in> set ogs. og_MemberSuffix og = [])" and "\<not> IsIDPTeam spec"
    and "reconcileTeamMembers ord (member_store_api tm om) reader env spec slug (map GetLogin ogs) = (calls, e)" and "og \<in> set ogs"
  shows "members_after M calls (GetLogin og) slug = wanted_members spec (documented_suffix env og) \<inter> (M (GetLogin og) slug \<union> set (om (GetLogin og)))"
proof -
  define orgres where "orgres = (if env = [] then put_all GetLogin (\<lambda>og. og) ogs [] else [])"
  have k: "(if env = [] then k8s_orgs reader (tm_OrganizationRefs spec) [] else Inr []) = Inr orgres"
    using k8s_orgs_all [OF assms(3), of "[]"] by (simp add: orgres_def)
  have "member_suffix env orgres (GetLogin og) = documented_suffix env og"
    using assms(5,8) put_all_distinct [OF assms(4,8), of "\<lambda>og. og" "[]"] by (auto simp: member_suffix_def orgres_def documented_suffix_def)
  then show ?thesis using team_members_converge [OF assms(1,2) k assms(7)] assms(6,8) by simp
qed

text \<open>A store that keeps its members in lists.\<close>

fun member_list_apply :: "string \<Rightarrow> string \<Rightarrow> member_call \<Rightarrow> string list \<Rightarrow> string list" where
  "member_list_apply org slug (AddTeamMember org' slug' m) xs = (if org' = org \<and> slug' = slug then List.insert m xs else xs)"
| "member_list_apply org slug (RemoveTeamMember org' slug' m) xs = (if org' = org \<and> slug' = slug then removeAll m xs else xs)"

definition member_lists :: "(string \<Rightarrow> string \<Rightarrow> string list) \<Rightarrow> member_call list \<Rightarrow> string \<Rightarrow> string \<Rightarrow> string list" where
  "member_lists L h org slug = fold (member_list_apply org slug) h (L org slug)"

lemma member_lists_ok: "lists_members (member_lists L) (\<lambda>org slug. set (L org slug))"
proof -
  have "set (member_lists L h org slug) = members_after (\<lambda>org slug. set (L org slug)) h org slug" for h org slug
  proof (induction h rule: rev_induct)
    case (snoc c h)
    then show ?case by (cases c) (auto simp: member_lists_def)
  qed (simp add: member_lists_def)
  then show ?thesis by (simp add: lists_members_def)
qed

lemma team_members_converge_witness:
  "\<exists>calls. reconcileTeamMembers (\<lambda>m. m) (member_store_api (member_lists (\<lambda>org slug. [''ann_x'', ''eve_x''])) (\<lambda>org. [''bob_x'', ''ann_x'', ''eve_x'']))
       (\<lambda>r. Inl (PlainError ''unused'')) ''_x'' (ex_team ''t'') ''t'' [''o1''] = (calls, None) \<and>
     members_after (\<lambda>org slug. set [''ann_x'', ''eve_x'']) calls ''o1'' ''t'' = {''ann_x'', ''bob_x''}"
proof -
  let ?api = "member_store_api (member_lists (\<lambda>org slug. [''ann_x'', ''eve_x''])) (\<lambda>org. [''bob_x'', ''ann_x'', ''eve_x''])"
  obtain calls e where run: "reconcileTeamMembers (\<lambda>m. m) ?api (\<lambda>r. Inl (PlainError ''unused'')) ''_x'' (ex_team ''t'') ''t'' [''o1''] = (calls, e)"
    by fastforce
  have k: "(if ''_x'' = [] then k8s_orgs (\<lambda>r. Inl (PlainError ''unused'')) (tm_OrganizationRefs (ex_team ''t'')) [] else Inr []) = Inr []"
    by simp
  have idp: "\<not> IsIDPTeam (ex_team ''t'')" by (simp add: IsIDPTeam_def ex_team_def)
  have w: "wanted_members (ex_team ''t'') (member_suffix ''_x'' [] ''o1'') = {''ann_x'', ''bob_x''}"
    by (simp add: wanted_members_def member_suffix_def ex_team_def)
  show ?thesis
    using team_members_converge [OF range_order_id member_lists_ok k run] run idp by (auto simp: w)
qed

text \<open>The global suffix wins over the suffix of an organization.\<close>

lemma global_suffix_wins:
  assumes "env \<noteq> []" and "\<not> IsIDPTeam spec"
  shows "reconcileTeamMembers ord api reader env spec slug orgs = members_loop ord api spec (\<lambda>org. env) slug orgs []"
  using assms by (simp add: reconcileTeamMembers_def member_suffix_def [abs_def])

section \<open>Roles on a GitHub that stores them\<close>

fun role_apply :: "role_call \<Rightarrow> (string \<Rightarrow> string \<Rightarrow> int set) \<Rightarrow> string \<Rightarrow> string \<Rightarrow> int set" where
  "role_apply (AddRole org slug i) A = A(org := (A org)(slug := insert i (A org slug)))"
| "role_apply (RemoveRole org slug i) A = A(org := (A org)(slug := A org slug - {i}))"

definition roles_after :: "(string \<Rightarrow> string \<Rightarrow> int set) \<Rightarrow> role_call list \<Rightarrow> string \<Rightarrow> string \<Rightarrow> int set" where
  "roles_after A calls = fold role_apply calls A"

definition role_store_api ::
    "(role_call list \<Rightarrow> string \<Rightarrow> string \<Rightarrow> string list) \<Rightarrow> (string \<Rightarrow> (string \<times> int) list) \<Rightarrow> role_api" where
  "role_store_api rt R =
     \<lparr>ra_GetAllOrgRoles = (\<lambda>h org. Inr (map (\<lambda>(n, i). (Some n, Some i)) (R org))),
      ra_GetAllTeamsAssignedToOrgRole = (\<lambda>h org n. Inr (rt h org n)),
      ra_AddOrgRole = (\<lambda>h org slug i. None), ra_RemoveOrgRole = (\<lambda>h org slug i. None)\<rparr>"

text \<open>The roles of an organization have names and IDs of their own; \<open>rt\<close> lists the teams that have a role.\<close>

definition lists_roles ::
    "(role_call list \<Rightarrow> string \<Rightarrow> string \<Rightarrow> string list) \<Rightarrow> (string \<Rightarrow> (string \<times> int) list) \<Rightarrow> (string \<Rightarrow> string \<Rightarrow> int set) \<Rightarrow> bool" where
  "lists_roles rt R A \<longleftrightarrow>
     (\<forall>org. distinct (map fst (R org)) \<and> distinct (map snd (R org))) \<and>
     (\<forall>h org slug. \<forall>(n, i) \<in> set (R org). slug \<in> set (rt h org n) \<longleftrightarrow> i \<in> roles_after A h org slug)"

lemma roles_after_append: "roles_after A (cs @ cs') = roles_after (roles_after A cs) cs'"
  by (simp add: roles_after_def)

lemma role_maps_store:
  "role_maps (role_store_api rt R) org slug calls (map (\<lambda>(n, i). (Some n, Some i)) rs) ids assigned =
     Inr (put_all fst snd rs ids, assigned @ filter (\<lambda>r. slug \<in> set (rt calls org (fst r))) rs)"
proof (induction rs arbitrary: ids assigned)
  case (Cons r rs)
  then show ?case by (cases r) (simp add: role_store_api_def)
qed simp

lemma role_calls_store:
  "(\<And>cs i. f cs i = None) \<Longrightarrow> role_calls f mk others rs calls = (calls @ map (\<lambda>r. mk (snd r)) (filter (\<lambda>r. r \<notin> set others) rs), None)"
  by (induction rs arbitrary: calls) simp_all

lemma roles_added:
  "roles_after A (map (\<lambda>r. AddRole org slug (snd r)) rs) org slug = A org slug \<union> snd ` set rs"
  "(o', s') \<noteq> (org, slug) \<Longrightarrow> roles_after A (map (\<lambda>r. AddRole org slug (snd r)) rs) o' s' = A o' s'"
  by (induction rs arbitrary: A) (auto simp: roles_after_def)

lemma roles_removed:
  "roles_after A (map (\<lambda>r. RemoveRole org slug (snd r)) rs) org slug = A org slug - snd ` set rs"
  "(o', s') \<noteq> (org, slug) \<Longrightarrow> roles_after A (map (\<lambda>r. RemoveRole org slug (snd r)) rs) o' s' = A o' s'"
  by (induction rs arbitrary: A) (auto simp: roles_after_def)

lemma expected_roles:
  assumes "distinct (map fst rs)"
  shows "r \<in> set (getRoles spec (put_all fst snd rs [])) \<longleftrightarrow> r \<in> set rs \<and> fst r \<in> set (tm_OrganizationRoles spec)"
proof -
  have g: "map_get (put_all fst snd rs []) n = Some i \<longleftrightarrow> (n, i) \<in> set rs" for n i
    using put_all_distinct [OF assms, of "(n, i)" snd "[]"] put_all_get_in [of fst snd rs "[]" n i] by auto
  have "(n, i) \<in> set (getRoles spec (put_all fst snd rs [])) \<longleftrightarrow> n \<in> set (tm_OrganizationRoles spec) \<and> map_get (put_all fst snd rs []) n = Some i" for n i
    by (force simp: getRoles_def List.map_filter_def)
  then show ?thesis using g by (cases r) auto
qed

lemma roles_for_org_store:
  assumes "lists_roles rt R A" and "roles_for_org (role_store_api rt R) spec slug org calls = (calls', e)"
  shows "e = None \<and>
    (\<forall>(n, i) \<in> set (R org). i \<in> roles_after A calls' org slug \<longleftrightarrow> n \<in> set (tm_OrganizationRoles spec)) \<and>
    (\<forall>o' s'. (o', s') \<noteq> (org, slug) \<longrightarrow> roles_after A calls' o' s' = roles_after A calls o' s') \<and>
    ((\<forall>(n, i) \<in> set (R org). i \<in> roles_after A calls org slug \<longleftrightarrow> n \<in> set (tm_OrganizationRoles spec)) \<longrightarrow> calls' = calls)"
proof -
  let ?cur = "roles_after A calls org slug" and ?W = "set (tm_OrganizationRoles spec)"
  define asg where "asg = filter (\<lambda>r. slug \<in> set (rt calls org (fst r))) (R org)"
  define ex where "ex = getRoles spec (put_all fst snd (R org) [])"
  have dist: "distinct (map fst (R org))" "distinct (map snd (R org))" using assms(1) by (simp_all add: lists_roles_def)
  have ex: "r \<in> set ex \<longleftrightarrow> r \<in> set (R org) \<and> fst r \<in> ?W" for r using expected_roles [OF dist(1)] by (simp add: ex_def)
  have "slug \<in> set (rt calls org (fst r)) \<longleftrightarrow> snd r \<in> ?cur" if "r \<in> set (R org)" for r
  proof -
    have "\<forall>(n, i) \<in> set (R org). slug \<in> set (rt calls org n) \<longleftrightarrow> i \<in> ?cur" using assms(1) unfolding lists_roles_def by blast
    then show ?thesis using that by (cases r) auto
  qed
  then have asg: "r \<in> set asg \<longleftrightarrow> r \<in> set (R org) \<and> snd r \<in> ?cur" for r
    unfolding asg_def set_filter mem_Collect_eq by blast
  have inj: "r = r'" if "r \<in> set (R org)" "r' \<in> set (R org)" "snd r = snd r'" for r r'
    using dist(2) that by (metis distinct_map inj_onD)
  let ?add = "filter (\<lambda>r. r \<notin> set asg) ex" and ?del = "filter (\<lambda>r. r \<notin> set ex) asg"
  let ?calls = "map (\<lambda>r. AddRole org slug (snd r)) ?add @ map (\<lambda>r. RemoveRole org slug (snd r)) ?del"
  have maps: "role_maps (role_store_api rt R) org slug calls (map (\<lambda>(n, i). (Some n, Some i)) (R org)) [] [] = Inr (put_all fst snd (R org) [], asg)"
    unfolding role_maps_store asg_def by simp
  have lst: "ra_GetAllOrgRoles (role_store_api rt R) calls org = Inr (map (\<lambda>(n, i). (Some n, Some i)) (R org))"
    and none: "\<And>cs i. ra_AddOrgRole (role_store_api rt R) cs org slug i = None" "\<And>cs i. ra_RemoveOrgRole (role_store_api rt R) cs org slug i = None"
    by (simp_all add: role_store_api_def)
  have rc: "role_calls (\<lambda>cs. ra_AddOrgRole (role_store_api rt R) cs org slug) mk others rs cs =
        (cs @ map (\<lambda>r. mk (snd r)) (filter (\<lambda>r. r \<notin> set others) rs), None)"
      "role_calls (\<lambda>cs. ra_RemoveOrgRole (role_store_api rt R) cs org slug) mk others rs cs =
        (cs @ map (\<lambda>r. mk (snd r)) (filter (\<lambda>r. r \<notin> set others) rs), None)" for mk others rs cs
    by (rule role_calls_store, rule none)+
  have run: "(calls', e) = (if asg = ex then (calls, None) else (calls @ ?calls, None))"
    using assms(2) unfolding roles_for_org_def lst by (cases "asg = ex") (simp_all add: maps Let_def rc flip: ex_def)
  then have e: "e = None" by (auto split: if_splits)
  have calls: "calls' = calls @ (if asg = ex then [] else ?calls)" using run by (auto split: if_splits)
  define rest where "rest = (if asg = ex then [] else ?calls)"
  have same: "asg = ex \<Longrightarrow> ?add = [] \<and> ?del = []" by simp
  have rest: "rest = ?calls" unfolding rest_def using same by auto
  have here: "roles_after A calls' org slug = (?cur \<union> snd ` set ?add) - snd ` set ?del"
    unfolding calls rest_def [symmetric] rest roles_after_append roles_removed roles_added ..
  have there: "roles_after A calls' o' s' = roles_after A calls o' s'" if "(o', s') \<noteq> (org, slug)" for o' s'
    unfolding calls rest_def [symmetric] rest roles_after_append roles_removed(2) [OF that] roles_added(2) [OF that] ..
  have m: "i \<in> snd ` set xs \<longleftrightarrow> (n, i) \<in> set xs" if r: "(n, i) \<in> set (R org)" "set xs \<subseteq> set (R org)" for n i xs
  proof
    assume "i \<in> snd ` set xs"
    then obtain q where q: "q \<in> set xs" "i = snd q" by blast
    have "q = (n, i)" by (rule inj) (use q r in \<open>simp_all add: subsetD\<close>)
    then show "(n, i) \<in> set xs" using q(1) by simp
  qed (rule image_eqI [of _ _ "(n, i)"], simp)
  have sub: "set ?add \<subseteq> set (R org)" "set ?del \<subseteq> set (R org)" using ex asg by auto
  have goal: "i \<in> roles_after A calls' org slug \<longleftrightarrow> n \<in> ?W" if r: "(n, i) \<in> set (R org)" for n i
    unfolding here using m [OF r sub(1)] m [OF r sub(2)] asg [of "(n, i)"] ex [of "(n, i)"] r by auto
  have "calls' = calls" if all: "\<forall>(n, i) \<in> set (R org). i \<in> ?cur \<longleftrightarrow> n \<in> ?W"
  proof -
    have "set asg = set ex" using asg ex all by (auto simp: set_eq_iff)
    then have "?add = []" "?del = []" by auto
    then show ?thesis unfolding calls rest_def [symmetric] rest by simp
  qed
  then show ?thesis using e goal there by blast
qed

text \<open>The roles of a team. In every organization the team afterwards has exactly the roles of the organization that
  its resource names; other teams and organizations are not touched, and if the assignment was right before, no call is made.\<close>

lemma team_roles_converge:
  assumes "lists_roles rt R A" and "reconcileTeamRoleAssignments (role_store_api rt R) spec slug orgs calls = (calls', e)"
  shows "e = None \<and>
    (\<forall>org \<in> set orgs. \<forall>(n, i) \<in> set (R org). i \<in> roles_after A calls' org slug \<longleftrightarrow> n \<in> set (tm_OrganizationRoles spec)) \<and>
    (\<forall>org s. s \<noteq> slug \<or> org \<notin> set orgs \<longrightarrow> roles_after A calls' org s = roles_after A calls org s) \<and>
    ((\<forall>org \<in> set orgs. \<forall>(n, i) \<in> set (R org). i \<in> roles_after A calls org slug \<longleftrightarrow> n \<in> set (tm_OrganizationRoles spec)) \<longrightarrow> calls' = calls)"
  using assms(2)
proof (induction orgs arbitrary: calls)
  case (Cons org orgs)
  let ?ok = "\<lambda>cs o'. \<forall>(n, i) \<in> set (R o'). i \<in> roles_after A cs o' slug \<longleftrightarrow> n \<in> set (tm_OrganizationRoles spec)"
  obtain calls1 e1 where f: "roles_for_org (role_store_api rt R) spec slug org calls = (calls1, e1)" by fastforce
  note o1 = roles_for_org_store [OF assms(1) f]
  have run: "reconcileTeamRoleAssignments (role_store_api rt R) spec slug orgs calls1 = (calls', e)"
    using Cons.prems f o1 by simp
  note IH = Cons.IH [OF run]
  have "?ok calls' org"
  proof (cases "org \<in> set orgs")
    case False
    then have eq: "roles_after A calls' org slug = roles_after A calls1 org slug" using IH by blast
    show ?thesis unfolding eq using o1 by blast
  qed (use IH in blast)
  moreover have "?ok calls' o'" if "o' \<in> set orgs" for o' using IH that by blast
  moreover have "roles_after A calls' o' s' = roles_after A calls o' s'" if "s' \<noteq> slug \<or> o' \<notin> set (org # orgs)" for o' s'
    using IH o1 that by auto
  moreover have "calls' = calls" if all: "\<forall>o' \<in> set (org # orgs). ?ok calls o'"
  proof -
    have "calls1 = calls" using o1 all by simp
    then show ?thesis using IH all by simp
  qed
  ultimately show ?case using IH by simp
qed simp

text \<open>Deleting a team: afterwards no current organization has a team with its slug; a team that is gone already is no error.\<close>

lemma team_deletion_complete:
  assumes "team_ReconcileDeletion (team_store_api slugify T) orgs st = (st', r)" and "ts_Slug st = Some s"
  shows "r = TeamOk \<and> (\<forall>org \<in> set orgs. \<forall>t \<in> set (teams_after slugify T (ts_calls st') org). gt_Slug t \<noteq> Some s) \<and>
    (\<forall>org. set (teams_after slugify T (ts_calls st') org) \<subseteq> set (teams_after slugify T (ts_calls st) org)) \<and>
    (\<forall>org. org \<notin> set orgs \<longrightarrow> teams_after slugify T (ts_calls st') org = teams_after slugify T (ts_calls st) org)"
  using assms
proof (induction orgs arbitrary: st)
  case (Cons org orgs)
  let ?U = "teams_after slugify T (ts_calls st)"
  show ?case
  proof (cases "find (\<lambda>t. gt_Slug t = Some s) (?U org)")
    case None
    then have run: "team_ReconcileDeletion (team_store_api slugify T) orgs st = (st', r)"
      using Cons.prems by (simp add: GetSlug_def)
    have "\<forall>t \<in> set (?U org). gt_Slug t \<noteq> Some s" using None by (simp add: find_None_iff)
    then show ?thesis using Cons.IH [OF run Cons.prems(2)] by auto
  next
    case (Some t)
    let ?st = "team_called (DeleteTeam org s) st"
    have t: "gt_Slug t = Some s" "list_ex (\<lambda>t. gt_Slug t = Some s) (?U org)" using Some by (auto simp: find_Some_iff list_ex_iff)
    then have run: "team_ReconcileDeletion (team_store_api slugify T) orgs ?st = (st', r)"
      using Cons.prems Some by (simp add: GetSlug_def) (simp add: team_store_api_def Let_def)
    have s: "ts_Slug ?st = Some s" using Cons.prems(2) by (simp add: team_called_def)
    let ?V = "teams_after slugify T (ts_calls ?st)"
    have V: "?V = ?U(org := filter (\<lambda>t. gt_Slug t \<noteq> Some s) (?U org))" by (simp add: team_called_def)
    have sub: "set (?V o') \<subseteq> set (?U o')" for o' unfolding V by simp
    have gone: "\<forall>t \<in> set (?V org). gt_Slug t \<noteq> Some s" and other: "o' \<noteq> org \<Longrightarrow> ?V o' = ?U o'" for o' unfolding V by simp_all
    note IH = Cons.IH [OF run s]
    have "set (teams_after slugify T (ts_calls st') o') \<subseteq> set (?U o')" for o' using IH sub [of o'] by blast
    moreover have "\<forall>t \<in> set (teams_after slugify T (ts_calls st') org). gt_Slug t \<noteq> Some s" using IH gone by blast
    moreover have "teams_after slugify T (ts_calls st') o' = ?U o'" if "o' \<notin> set (org # orgs)" for o'
      using IH other [of o'] that by simp
    ultimately show ?thesis using IH by simp
  qed
qed simp

text \<open>An example: one organization with two roles, the team has the wrong one.\<close>

definition ex_roles :: "string \<Rightarrow> (string \<times> int) list" where
  "ex_roles org = [(''reader'', 1), (''admin'', 2)]"

definition ex_role_teams :: "role_call list \<Rightarrow> string \<Rightarrow> string \<Rightarrow> string list" where
  "ex_role_teams h org n =
     filter (\<lambda>slug. \<exists>i \<in> roles_after (\<lambda>org slug. if slug = ''t'' then {2} else {}) h org slug. (n, i) \<in> set (ex_roles org))
       (''t'' # map (\<lambda>c. case c of AddRole _ s _ \<Rightarrow> s | RemoveRole _ s _ \<Rightarrow> s) h)"

lemma untouched_roles:
  "slug \<notin> set (map (\<lambda>c. case c of AddRole _ s _ \<Rightarrow> s | RemoveRole _ s _ \<Rightarrow> s) h) \<Longrightarrow> roles_after A h org slug = A org slug"
proof (induction h rule: rev_induct)
  case (snoc c h)
  then show ?case by (cases c) (auto simp: roles_after_def)
qed (simp add: roles_after_def)

lemma ex_lists_roles: "lists_roles ex_role_teams ex_roles (\<lambda>org slug. if slug = ''t'' then {2} else {})"
proof -
  let ?A = "\<lambda>(org::string) slug. if slug = ''t'' then {2::int} else {}"
  have "slug \<in> set (ex_role_teams h org n) \<longleftrightarrow> i \<in> roles_after ?A h org slug" if "(n, i) \<in> set (ex_roles org)" for h org slug n i
  proof -
    have "(\<exists>j \<in> roles_after ?A h org slug. (n, j) \<in> set (ex_roles org)) \<longleftrightarrow> i \<in> roles_after ?A h org slug"
      using that by (auto simp: ex_roles_def)
    moreover have "roles_after ?A h org slug = {}" if "slug \<notin> set (''t'' # map (\<lambda>c. case c of AddRole _ s _ \<Rightarrow> s | RemoveRole _ s _ \<Rightarrow> s) h)"
      using untouched_roles [of slug h ?A org] that by simp
    ultimately show ?thesis unfolding ex_role_teams_def set_filter mem_Collect_eq by blast
  qed
  then show ?thesis unfolding lists_roles_def by (auto simp: ex_roles_def)
qed

lemma team_roles_converge_witness:
  "\<exists>calls. reconcileTeamRoleAssignments (role_store_api ex_role_teams ex_roles) (ex_team ''t'') ''t'' [''o1''] [] = (calls, None) \<and>
     1 \<in> roles_after (\<lambda>org slug. if slug = ''t'' then {2} else {}) calls ''o1'' ''t'' \<and>
     2 \<notin> roles_after (\<lambda>org slug. if slug = ''t'' then {2} else {}) calls ''o1'' ''t''"
proof -
  obtain calls e where run: "reconcileTeamRoleAssignments (role_store_api ex_role_teams ex_roles) (ex_team ''t'') ''t'' [''o1''] [] = (calls, e)"
    by fastforce
  show ?thesis
    using team_roles_converge [OF ex_lists_roles run] run by (auto simp: ex_roles_def ex_team_def)
qed

text \<open>
  Organizations the team has left: the record of previous organizations is replaced only after all deletions
  succeeded. As a deletion that finds nothing counts as failed, a team deleted by hand blocks this step.
\<close>

lemma removed_refs:
  assumes "reconcileRemovedOrgRefs api spec current previous st = (st', r)"
  shows "if r = TeamOk
         then ts_PreviousRefs st' = tm_OrganizationRefs spec \<and>
              ts_calls st' = ts_calls st @ map (\<lambda>org. DeleteTeam org (GetSlug st)) (filter (\<lambda>org. org \<notin> set current) previous)
         else ts_PreviousRefs st' = ts_PreviousRefs st"
proof -
  have "(r = TeamOk \<longrightarrow> ts_calls st' = ts_calls st @ map (\<lambda>org. DeleteTeam org (GetSlug st)) (filter (\<lambda>org. org \<notin> set current) previous)) \<and>
        ts_PreviousRefs st' = ts_PreviousRefs st" if "remove_previous api current previous st = (st', r)" for st'
    using that
  proof (induction previous arbitrary: st)
    case (Cons org previous)
    then show ?case
      by (auto simp: team_called_def GetSlug_def Let_def split: if_splits option.splits)
  qed simp
  then show ?thesis using assms by (auto simp: reconcileRemovedOrgRefs_def split: prod.splits team_result.splits)
qed

lemma removed_team_blocks:
  assumes "\<forall>t \<in> set (T org). gt_Slug t \<noteq> Some (GetSlug st)" and "ts_calls st = []" and "org \<notin> set current"
  shows "snd (reconcileRemovedOrgRefs (team_store_api slugify T) spec current (org # previous) st) = TeamErr not_found_error"
proof -
  have "\<not> list_ex (\<lambda>t. gt_Slug t = Some (GetSlug st)) (T org)" using assms(1) by (simp add: list_ex_iff)
  then have "ta_DeleteTeamBySlug (team_store_api slugify T) [] org (GetSlug st) = Some not_found_error"
    by (simp add: team_store_api_def)
  then show ?thesis using assms(2,3) by (simp add: reconcileRemovedOrgRefs_def Let_def)
qed

end
