(* ===== verification/TeamRun.thy ===== *)
theory TeamRun
  imports ParallelRuns Teams
begin

text \<open>
  A whole run for a team: the groups of \<^verbatim>\<open>RequiredReconciliations\<close> in \<^verbatim>\<open>teamrec/reconciler.go\<close> under the executor. The first group brings the team into every organization and
  finds out its slug; the second one cleans up organizations the team has left and reconciles members, roles and the identity provider group in parallel, all with that slug.
\<close>

section \<open>The world of a team\<close>

text \<open>The slug of the reconciler and of the status, then the parts: the previous organizations with the calls on teams, and the calls on members, roles and groups.\<close>

record team_world =
  tw_Slug :: "string option"
  tw_StatusSlug :: "string option"
  tw_Teams :: "string list \<times> team_call list"
  tw_Members :: "member_call list"
  tw_Roles :: "role_call list"
  tw_Groups :: "idp_call list"

definition team_state_of :: "team_world \<Rightarrow> team_state" where
  "team_state_of w = \<lparr>ts_Slug = tw_Slug w, ts_StatusSlug = tw_StatusSlug w, ts_PreviousRefs = fst (tw_Teams w), ts_calls = snd (tw_Teams w)\<rparr>"

definition put_team_state :: "team_state \<Rightarrow> team_world \<Rightarrow> team_world" where
  "put_team_state st w = w\<lparr>tw_Slug := ts_Slug st, tw_StatusSlug := ts_StatusSlug st, tw_Teams := (ts_PreviousRefs st, ts_calls st)\<rparr>"

text \<open>A panic ends the process; \<open>crash\<close> stands for anything it might be taken for.\<close>

definition returned :: "go_error option \<Rightarrow> team_result \<Rightarrow> go_error option" where
  "returned crash r = (case r of TeamOk \<Rightarrow> None | TeamErr e \<Rightarrow> Some e | TeamPanic \<Rightarrow> crash)"

definition team_step :: "go_error option \<Rightarrow> team_api \<Rightarrow> team_spec \<Rightarrow> string list \<Rightarrow> team_world \<Rightarrow> team_world \<times> go_error option" where
  "team_step crash api spec current w = (case reconcileTeam api spec current (team_state_of w) of (st, r) \<Rightarrow> (put_team_state st w, returned crash r))"

text \<open>The functions of the second group, given the slug that the first group leaves.\<close>

record team_functions =
  tf_RemovedOrgRefs :: "string option \<Rightarrow> (string list \<times> team_call list) proc"
  tf_TeamMembers :: "string option \<Rightarrow> member_call list proc"
  tf_TeamRoleAssignments :: "string option \<Rightarrow> role_call list proc"
  tf_IDPGroup :: "string option \<Rightarrow> idp_call list proc"

abbreviation on_team :: "(team_world \<Rightarrow> 'p) \<Rightarrow> (('p \<Rightarrow> 'p) \<Rightarrow> team_world \<Rightarrow> team_world) \<Rightarrow> (string option \<Rightarrow> 'p proc) \<Rightarrow> team_world proc" where
  "on_team get upd q \<equiv> reading tw_Slug get (\<lambda>x. upd (\<lambda>y. x)) q"

definition team_RequiredReconciliations ::
    "go_error option \<Rightarrow> team_api \<Rightarrow> team_spec \<Rightarrow> string list \<Rightarrow> team_functions \<Rightarrow> team_world reconciliation list list" where
  "team_RequiredReconciliations crash api spec current q =
     [[\<lparr>rec_Function = alone (team_step crash api spec current), rec_Condition = ''GitHubSynced''\<rparr>],
      [\<lparr>rec_Function = on_team tw_Teams tw_Teams_update (tf_RemovedOrgRefs q), rec_Condition = ''OutdatedOrganizationRefsSynced''\<rparr>,
       \<lparr>rec_Function = on_team tw_Members tw_Members_update (tf_TeamMembers q), rec_Condition = ''TeamMembersSynced''\<rparr>,
       \<lparr>rec_Function = on_team tw_Roles tw_Roles_update (tf_TeamRoleAssignments q), rec_Condition = ''TeamRoleAssignmentsSynced''\<rparr>,
       \<lparr>rec_Function = on_team tw_Groups tw_Groups_update (tf_IDPGroup q), rec_Condition = ''TypeIDPTeamGroupSettingsSynced''\<rparr>]]"

section \<open>The parts are separate\<close>

definition team_copy :: "nat \<Rightarrow> team_world \<Rightarrow> team_world \<Rightarrow> team_world" where
  "team_copy i u w =
     (if i = 0 then w\<lparr>tw_Teams := tw_Teams u\<rparr> else if i = 1 then w\<lparr>tw_Members := tw_Members u\<rparr>
      else if i = 2 then w\<lparr>tw_Roles := tw_Roles u\<rparr> else if i = 3 then w\<lparr>tw_Groups := tw_Groups u\<rparr> else w)"

definition team_shared :: "team_world \<Rightarrow> team_world" where
  "team_shared w = w\<lparr>tw_Teams := ([], []), tw_Members := [], tw_Roles := [], tw_Groups := []\<rparr>"

interpretation team_world_parts: world_parts team_copy team_shared
proof
  show "team_copy i w w = w" for i w by (simp add: team_copy_def)
  show "team_shared (team_copy i u w) = team_shared w" for i u w by (simp add: team_copy_def team_shared_def)
  show "i \<noteq> j \<Longrightarrow> team_copy i u (team_copy j v w) = team_copy j v (team_copy i u w)" for i j u v w
    by (simp add: team_copy_def)
qed

text \<open>Nothing of the second group runs when the team could not be brought into all organizations.\<close>

interpretation team_first: first_alone "team_step crash api spec current" "\<lambda>w. (tw_Members w, tw_Roles w, tw_Groups w)" for crash api spec current
  by unfold_locales (simp add: team_step_def put_team_state_def split: prod.split)

lemma shared_slug: "team_shared w = team_shared v \<Longrightarrow> tw_Slug w = tw_Slug v"
  by (cases w; cases v) (simp add: team_shared_def)

lemma team_fields:
  "field tw_Teams (\<lambda>x. tw_Teams_update (\<lambda>y. x))" "field tw_Members (\<lambda>x. tw_Members_update (\<lambda>y. x))"
  "field tw_Roles (\<lambda>x. tw_Roles_update (\<lambda>y. x))" "field tw_Groups (\<lambda>x. tw_Groups_update (\<lambda>y. x))"
  by (simp_all add: field_def)

lemma team_part_confined:
  assumes "field get (\<lambda>x :: 'p. upd (\<lambda>y. x))" and "\<And>x w. tw_Slug (upd (\<lambda>y. x) w) = tw_Slug w"
  shows "confined team_shared (\<lambda>u. upd (\<lambda>y. get u)) (on_team get upd q)"
proof (rule confined_coarser)
  show "confined tw_Slug (\<lambda>u. upd (\<lambda>y. get u)) (on_team get upd q)"
    by (rule reading_confined [where put = "\<lambda>x. upd (\<lambda>y. x)", OF assms])
qed (rule shared_slug)

lemma all_less_four: "(\<forall>m < (4 :: nat). P m) \<longleftrightarrow> P 0 \<and> P 1 \<and> P 2 \<and> P 3"
  by (simp add: numeral_eq_Suc All_less_Suc2 del: One_nat_def) (auto simp: numeral_eq_Suc)

lemma team_separate: "\<forall>grp \<in> set (team_RequiredReconciliations crash api spec current q). separate grp"
proof -
  let ?grp = "team_RequiredReconciliations crash api spec current q ! 1"
  have copies: "team_copy 0 = (\<lambda>u. tw_Teams_update (\<lambda>y. tw_Teams u))" "team_copy (Suc 0) = (\<lambda>u. tw_Members_update (\<lambda>y. tw_Members u))"
    "team_copy 2 = (\<lambda>u. tw_Roles_update (\<lambda>y. tw_Roles u))" "team_copy 3 = (\<lambda>u. tw_Groups_update (\<lambda>y. tw_Groups u))"
    by (simp_all add: team_copy_def fun_eq_iff)
  have l: "length ?grp = 4" by (simp add: team_RequiredReconciliations_def)
  have "\<forall>m < 4. confined team_shared (team_copy m) (rec_Function (?grp ! m))"
    unfolding all_less_four by (simp add: team_RequiredReconciliations_def copies team_fields [THEN team_part_confined])
  then have "\<forall>m < length ?grp. confined team_shared (team_copy m) (rec_Function (?grp ! m))" unfolding l .
  then have "separate ?grp" unfolding separate_def using team_world_parts.world_parts_axioms by blast
  then show ?thesis using separate_single by (simp add: team_RequiredReconciliations_def)
qed

section \<open>The outcome of a run\<close>

lemma synced_team_run:
  assumes "runReconciliations ck sched rc s = Some (s', results, err)"
    and "rc_RequiredReconciliations rc (ks_world s) = team_RequiredReconciliations crash api spec current q"
    and "\<forall>r \<in> set results. result_verdict r = Synced"
    and "reconcileTeam api spec current (team_state_of (ks_world s)) = (st, r)"
  shows "returned crash r = None \<and> tw_Slug (ks_world s') = ts_Slug st \<and> tw_StatusSlug (ks_world s') = ts_StatusSlug st \<and>
    run_alone (tf_RemovedOrgRefs q (ts_Slug st)) (ts_PreviousRefs st, ts_calls st) = (tw_Teams (ks_world s'), None) \<and>
    run_alone (tf_TeamMembers q (ts_Slug st)) (tw_Members (ks_world s)) = (tw_Members (ks_world s'), None) \<and>
    run_alone (tf_TeamRoleAssignments q (ts_Slug st)) (tw_Roles (ks_world s)) = (tw_Roles (ks_world s'), None) \<and>
    run_alone (tf_IDPGroup q (ts_Slug st)) (tw_Groups (ks_world s)) = (tw_Groups (ks_world s'), None)"
proof -
  let ?groups = "team_RequiredReconciliations crash api spec current q" and ?w = "ks_world s"
  have step: "team_step crash api spec current ?w = (put_team_state st ?w, returned crash r)" using assms(4) by (simp add: team_step_def)
  have each: "run_each (map rec_Function (concat ?groups)) ?w = (ks_world s', replicate (length (concat ?groups)) None)"
    by (rule synced_run_each [OF assms(1,2) team_separate assms(3)])
  have "length (concat ?groups) = 5" by (simp add: team_RequiredReconciliations_def)
  then have "replicate (length (concat ?groups)) (None :: go_error option) = [None, None, None, None, None]"
    by (simp add: numeral_eq_Suc)
  note each [unfolded this team_RequiredReconciliations_def, symmetric]
  then show ?thesis
    by (auto simp: step put_team_state_def prod_eq_iff run_reading [OF team_fields(1)] run_reading [OF team_fields(2)] run_reading [OF team_fields(3)] run_reading [OF team_fields(4)])
qed

text \<open>A team that could not be brought into all organizations: the run fails with that error, and members, roles and groups are left alone.\<close>

lemma team_failure_stops:
  assumes "runReconciliations ck sched rc s = Some (s', results, err)"
    and "rc_RequiredReconciliations rc (ks_world s) = team_RequiredReconciliations crash api spec current q"
    and "reconcileTeam api spec current (team_state_of (ks_world s)) = (st, TeamErr e)" and "errors_As is_stop e = None"
  shows "err = Some (JoinError [e]) \<and> ks_world s' = put_team_state st (ks_world s) \<and> map rr_Condition results = [''GitHubSynced'']"
proof -
  have "team_step crash api spec current (ks_world s) = (put_team_state st (ks_world s), Some e)"
    using assms(3) by (simp add: team_step_def returned_def)
  from team_first.not_reached [OF assms(1) assms(2) [unfolded team_RequiredReconciliations_def] this] assms(4) show ?thesis by simp
qed

section \<open>What is reported as synced is synced\<close>

text \<open>The functions of the second group on a GitHub that stores what it is told.\<close>

definition removed_function ::
    "go_error option \<Rightarrow> team_api \<Rightarrow> team_spec \<Rightarrow> string list \<Rightarrow> string list \<Rightarrow> string option \<Rightarrow> string list \<times> team_call list \<Rightarrow> (string list \<times> team_call list) \<times> go_error option" where
  "removed_function crash api spec current previous slug p =
     (case reconcileRemovedOrgRefs api spec current previous \<lparr>ts_Slug = slug, ts_StatusSlug = slug, ts_PreviousRefs = fst p, ts_calls = snd p\<rparr> of
        (st, r) \<Rightarrow> ((ts_PreviousRefs st, ts_calls st), returned crash r))"

definition members_function ::
    "((string \<times> string) list \<Rightarrow> (string \<times> string) list) \<Rightarrow> (member_call list \<Rightarrow> string \<Rightarrow> string \<Rightarrow> string list) \<Rightarrow> (string \<Rightarrow> string list) \<Rightarrow>
     (string \<Rightarrow> (go_error, org_resource) result) \<Rightarrow> string \<Rightarrow> team_spec \<Rightarrow> string list \<Rightarrow> string option \<Rightarrow> member_call list \<Rightarrow> member_call list \<times> go_error option" where
  "members_function ord tm om reader envSuffix spec current slug made =
     (case reconcileTeamMembers ord (member_store_api (\<lambda>h. tm (made @ h)) om) reader envSuffix spec (WithDefault slug []) current of (calls, e) \<Rightarrow> (made @ calls, e))"

definition roles_function ::
    "(role_call list \<Rightarrow> string \<Rightarrow> string \<Rightarrow> string list) \<Rightarrow> (string \<Rightarrow> (string \<times> int) list) \<Rightarrow> team_spec \<Rightarrow> string list \<Rightarrow> string option \<Rightarrow> role_call list \<Rightarrow> role_call list \<times> go_error option" where
  "roles_function rt R spec current slug made = reconcileTeamRoleAssignments (role_store_api rt R) spec (WithDefault slug []) current made"

text \<open>The clean-up touches no organization that the team still belongs to.\<close>

lemma deleted_teams:
  "teams_after slugify T (calls @ map (\<lambda>org. DeleteTeam org s) orgs) org =
     (if org \<in> set orgs then filter (\<lambda>t. gt_Slug t \<noteq> Some s) (teams_after slugify T calls org) else teams_after slugify T calls org)"
proof (induction orgs rule: rev_induct)
  case (snoc x xs)
  have "calls @ map (\<lambda>org. DeleteTeam org s) (xs @ [x]) = (calls @ map (\<lambda>org. DeleteTeam org s) xs) @ [DeleteTeam x s]" by simp
  then have "teams_after slugify T (calls @ map (\<lambda>org. DeleteTeam org s) (xs @ [x])) =
      team_apply slugify (DeleteTeam x s) (teams_after slugify T (calls @ map (\<lambda>org. DeleteTeam org s) xs))" by (simp only: teams_after_simps(2))
  then show ?case using snoc.IH by auto
qed simp

lemma removed_function_settled:
  assumes "removed_function crash (team_store_api slugify T) spec current previous (Some s) p = (p', None)"
    and "snd (reconcileRemovedOrgRefs (team_store_api slugify T) spec current previous \<lparr>ts_Slug = Some s, ts_StatusSlug = Some s, ts_PreviousRefs = fst p, ts_calls = snd p\<rparr>) \<noteq> TeamPanic"
  shows "fst p' = tm_OrganizationRefs spec \<and>
    (\<forall>org. teams_after slugify T (snd p') org =
      (if org \<in> set previous \<and> org \<notin> set current then filter (\<lambda>t. gt_Slug t \<noteq> Some s) (teams_after slugify T (snd p) org) else teams_after slugify T (snd p) org))"
proof -
  let ?st = "\<lparr>ts_Slug = Some s, ts_StatusSlug = Some s, ts_PreviousRefs = fst p, ts_calls = snd p\<rparr>"
  obtain st r where run: "reconcileRemovedOrgRefs (team_store_api slugify T) spec current previous ?st = (st, r)" by fastforce
  then have p': "p' = (ts_PreviousRefs st, ts_calls st)" and r: "r = TeamOk"
    using assms by (auto simp: removed_function_def returned_def split: team_result.splits)
  from removed_refs [OF run] r have "ts_PreviousRefs st = tm_OrganizationRefs spec"
      "ts_calls st = snd p @ map (\<lambda>org. DeleteTeam org s) (filter (\<lambda>org. org \<notin> set current) previous)"
    by (simp_all add: GetSlug_def)
  then show ?thesis unfolding p' fst_conv snd_conv by (simp add: deleted_teams)
qed

lemma removal_never_panics: "snd (reconcileRemovedOrgRefs api spec current previous st) \<noteq> TeamPanic"
proof -
  have "snd (remove_previous api current previous st) \<noteq> TeamPanic"
    by (induction api current previous st rule: remove_previous.induct) (auto simp: Let_def split: option.splits)
  then show ?thesis by (auto simp: reconcileRemovedOrgRefs_def split: prod.splits team_result.splits)
qed


section \<open>An example\<close>

text \<open>A team that moves from one organization to another, with one wrong member and one wrong role there.\<close>

definition ex_moved :: team_spec where
  "ex_moved = (ex_team ''t'')\<lparr>tm_OrganizationRefs := [''first'']\<rparr>"

definition ex_org_reader :: "string \<Rightarrow> (go_error, org_resource) result" where
  "ex_org_reader r = (if r = ''first'' then Inr \<lparr>og_Login = ''o1'', og_Name = r, og_MemberSuffix = ''_x'', og_Plan = []\<rparr> else Inl (PlainError ''not found''))"

definition ex_moving_teams :: "string \<Rightarrow> gh_team list" where
  "ex_moving_teams org = (if org = ''o2'' then [made_team ex_slug (TeamToCreateTeamRequest ex_moved)] else [])"

definition ex_team_functions :: team_functions where
  "ex_team_functions =
     \<lparr>tf_RemovedOrgRefs = \<lambda>slug. alone (removed_function None (team_store_api ex_slug ex_moving_teams) ex_moved [''o1''] [''o2''] slug),
      tf_TeamMembers = \<lambda>slug. alone (members_function (\<lambda>m. m) (member_lists (\<lambda>org slug. [''ann_x'', ''eve_x''])) (\<lambda>org. [''bob_x'', ''ann_x'', ''eve_x''])
        ex_org_reader [] ex_moved [''o1''] slug),
      tf_TeamRoleAssignments = \<lambda>slug. alone (roles_function ex_role_teams ex_roles ex_moved [''o1''] slug),
      tf_IDPGroup = \<lambda>slug. Done None\<rparr>"

definition ex_team_rc :: "(team_world, unit) reconciler" where
  "ex_team_rc =
     \<lparr>rc_GetAdditionalLabels = \<lambda>w. [],
      rc_RequiredReconciliations = \<lambda>w. team_RequiredReconciliations None (team_store_api ex_slug ex_moving_teams) ex_moved [''o1''] ex_team_functions,
      rc_FinalizerName = ''fin'', rc_ReconcileDeletion = \<lambda>w. (w, None), rc_BuildMetadataApplyConfig = \<lambda>l f. (), rc_BuildStatusApplyConfig = \<lambda>s. (),
      rc_ClientApply = \<lambda>c w. (w, None), rc_StatusApply = \<lambda>c w. (w, None), rc_SetObservedSubResourceGeneration = \<lambda>old new. old, rc_CurrentSubResourceGenerations = None\<rparr>"

definition ex_team_kstate :: "team_world kstate" where
  "ex_team_kstate = \<lparr>ks_Conditions = [], ks_Generation = 1, ks_DeletionTimestamp = None, ks_Finalizers = [], ks_Labels = [], ks_ObservedSubResourceGenerations = None,
     ks_world = \<lparr>tw_Slug = None, tw_StatusSlug = None, tw_Teams = ([''o2''], []), tw_Members = [], tw_Roles = [], tw_Groups = []\<rparr>, ks_ticks = 0\<rparr>"

definition ex_team_sched :: "nat \<Rightarrow> nat list" where
  "ex_team_sched k = (if k = 0 then [0, 0] else [3, 1, 1, 0, 0, 2, 2, 3, 0, 1, 2])"

lemma ex_team_runs:
  "map_option (\<lambda>(s', results, err). list_all (\<lambda>r. result_verdict r = Synced) results)
     (runReconciliations ex_clock ex_team_sched ex_team_rc ex_team_kstate) = Some True"
  by code_simp

lemma ex_teams_moving: "teams_ok ex_slug ''t'' {''o1''} ex_moving_teams"
  by (simp add: teams_ok_def org_teams_ok_def ex_moving_teams_def made_team_def TeamToCreateTeamRequest_def ex_moved_def ex_team_def)


end
