(* ===== verification/ActionsConverge.thy ===== *)
theory ActionsConverge
  imports ActionsSettings
begin

text \<open>
  The Actions settings converge: GitHub as a store of the settings, the common form \<^const>\<open>sync_setting\<close> as a locale that is interpreted for each setting, the
  runner groups by induction over the listed groups, and the whole reconciliation.
\<close>

section \<open>GitHub as a store\<close>

record actions_store =
  ss_Permissions :: gh_permissions
  ss_Enabled :: "int list"
  ss_Retention :: int
  ss_Allowed :: gh_allowed
  ss_Workflow :: gh_workflow_permissions
  ss_SelfHosted :: string
  ss_Groups :: "gh_runner_group list"
  ss_Repos :: "int \<Rightarrow> int list"

text \<open>A field that is not sent is left as it is; an empty list is not sent.\<close>

definition given_or :: "'a option \<Rightarrow> 'a option \<Rightarrow> 'a option" where
  "given_or new old = (if new = None then old else new)"

definition updated_group :: "update_group \<Rightarrow> gh_runner_group \<Rightarrow> gh_runner_group" where
  "updated_group u g =
     g\<lparr>gg_Name := Some (ug_Name u), gg_Visibility := given_or (ug_Visibility u) (gg_Visibility g),
       gg_RestrictedToWorkflows := given_or (ug_RestrictedToWorkflows u) (gg_RestrictedToWorkflows g),
       gg_SelectedWorkflows := (if WithDefault (ug_SelectedWorkflows u) [] = [] then gg_SelectedWorkflows g else ug_SelectedWorkflows u)\<rparr>"

definition fresh_group :: "gh_runner_group list \<Rightarrow> int" where
  "fresh_group gs = fresh_above (List.map_filter gg_ID gs)"

fun apply_call :: "actions_call \<Rightarrow> actions_store \<Rightarrow> actions_store" where
  "apply_call (SetActionsPermissions p) s =
     s\<lparr>ss_Permissions := \<lparr>pm_EnabledRepositories = pm_EnabledRepositories p, pm_AllowedActions = given_or (pm_AllowedActions p) (pm_AllowedActions (ss_Permissions s)),
       pm_SHAPinningRequired = given_or (pm_SHAPinningRequired p) (pm_SHAPinningRequired (ss_Permissions s))\<rparr>\<rparr>"
| "apply_call (SetActionsEnabledRepositories ids) s = s\<lparr>ss_Enabled := ids\<rparr>"
| "apply_call (SetActionsRetention d) s = s\<lparr>ss_Retention := d\<rparr>"
| "apply_call (SetActionsAllowed a) s = s\<lparr>ss_Allowed := a\<rparr>"
| "apply_call (SetDefaultWorkflowPermissions w) s = s\<lparr>ss_Workflow := w\<rparr>"
| "apply_call (SetSelfHostedRunnersSettings x) s = s\<lparr>ss_SelfHosted := x\<rparr>"
| "apply_call (UpdateRunnerGroup i u) s = s\<lparr>ss_Groups := map (\<lambda>g. if gg_ID g = Some i then updated_group u g else g) (ss_Groups s)\<rparr>"
| "apply_call (DeleteRunnerGroup i) s = s\<lparr>ss_Groups := filter (\<lambda>g. gg_ID g \<noteq> Some i) (ss_Groups s)\<rparr>"
| "apply_call (CreateRunnerGroup c) s =
     (let i = fresh_group (ss_Groups s) in
      s\<lparr>ss_Groups := ss_Groups s @ [\<lparr>gg_ID = Some i, gg_Name = Some (cg_Name c), gg_Visibility = cg_Visibility c, gg_RestrictedToWorkflows = cg_RestrictedToWorkflows c,
          gg_SelectedWorkflows = cg_SelectedWorkflows c\<rparr>], ss_Repos := (ss_Repos s)(i := WithDefault (cg_SelectedRepositoryIDs c) [])\<rparr>)"
| "apply_call (SetSelectedRepositoriesForRunnerGroup i ids) s = s\<lparr>ss_Repos := (ss_Repos s)(i := WithDefault ids [])\<rparr>"

definition after :: "actions_store \<Rightarrow> actions_call list \<Rightarrow> actions_store" where
  "after s h = fold apply_call h s"

lemma after_simps [simp]: "after s [] = s" "after s (h @ [c]) = apply_call c (after s h)"
  by (simp_all add: after_def)

definition actions_store_api :: "actions_store \<Rightarrow> actions_repo list \<Rightarrow> actions_api" where
  "actions_store_api s repos =
     \<lparr>aa_GetActionsPermissions = (\<lambda>h. Inr (Some (ss_Permissions (after s h)))), aa_GetActionsEnabledRepositories = (\<lambda>h. Inr (ss_Enabled (after s h))),
      aa_GetActionsRetention = (\<lambda>h. Inr (ss_Retention (after s h))), aa_GetActionsAllowed = (\<lambda>h. Inr (Some (ss_Allowed (after s h)))),
      aa_GetDefaultWorkflowPermissions = (\<lambda>h. Inr (Some (ss_Workflow (after s h)))), aa_GetSelfHostedRunnersSettings = (\<lambda>h. Inr (ss_SelfHosted (after s h))),
      aa_GetRunnerGroups = (\<lambda>h. Inr (ss_Groups (after s h))), aa_GetSelectedRepositoriesForRunnerGroup = (\<lambda>h i. Inr (ss_Repos (after s h) i)),
      aa_getReferencingK8sRepos = (\<lambda>h. Inr repos), aa_call = (\<lambda>h c. None)\<rparr>"

lemma store_api_simps [simp]:
  "aa_GetActionsPermissions (actions_store_api s repos) h = Inr (Some (ss_Permissions (after s h)))"
  "aa_GetRunnerGroups (actions_store_api s repos) h = Inr (ss_Groups (after s h))"
  "aa_getReferencingK8sRepos (actions_store_api s repos) h = Inr repos"
  "aa_call (actions_store_api s repos) h c = None"
  by (simp_all add: actions_store_api_def)

section \<open>A setting\<close>

text \<open>
  The contract of a setting: reading it tells whether the state is as wanted, and writing it makes it so. Then one pass settles the setting with at most one call, and a settled
  setting costs no call.
\<close>

locale stored_setting =
  fixes get :: "'c list \<Rightarrow> (go_error, 'a) result" and same :: "'a \<Rightarrow> bool" and do_call :: "'c list \<Rightarrow> 'c \<Rightarrow> go_error option" and c :: 'c
    and settled :: "'c list \<Rightarrow> bool"
  assumes reads: "\<exists>cur. get h = Inr cur \<and> (same cur \<longleftrightarrow> settled h)"
    and writes: "settled (h @ [c])"
    and accepted: "do_call h c = None"
begin

lemma sync: "sync_setting get same do_call c h = (if settled h then h else h @ [c], None)"
  using reads [of h] accepted by (auto simp: sync_setting_def)

lemma sync_settles: "\<exists>h'. sync_setting get same do_call c h = (h', None) \<and> settled h' \<and> (h' = h \<and> settled h \<or> h' = h @ [c])"
  using sync writes by simp

end

text \<open>Which states are as wanted.\<close>

definition perm_ok :: "actions_settings \<Rightarrow> actions_store \<Rightarrow> bool" where
  "perm_ok s st \<longleftrightarrow> EqualActionsPermissions (Some (expectedPermissions s)) (Some (ss_Permissions st))"

definition enabled_ok :: "actions_repo list \<Rightarrow> actions_store \<Rightarrow> bool" where
  "enabled_ok repos st \<longleftrightarrow> containsSameIDs (ss_Enabled st) (expectedIDs repos)"

definition allowed_ok :: "actions_settings \<Rightarrow> actions_store \<Rightarrow> bool" where
  "allowed_ok s st \<longleftrightarrow> EqualActionsAllowed (Some (expectedAllowed s)) (Some (ss_Allowed st))"

definition workflow_ok :: "actions_settings \<Rightarrow> actions_store \<Rightarrow> bool" where
  "workflow_ok s st \<longleftrightarrow> EqualDefaultWorkflowPermissions (Some (expectedWorkflowPermissions s)) (Some (ss_Workflow st))"

interpretation retention: stored_setting "aa_GetActionsRetention (actions_store_api st repos)" "\<lambda>cur. expectedRetention s = cur" "aa_call (actions_store_api st repos)"
    "SetActionsRetention (expectedRetention s)" "\<lambda>h. ss_Retention (after st h) = expectedRetention s" for st repos s
  by unfold_locales (auto simp: actions_store_api_def)

interpretation allowed: stored_setting "aa_GetActionsAllowed (actions_store_api st repos)" "EqualActionsAllowed (Some (expectedAllowed s))" "aa_call (actions_store_api st repos)"
    "SetActionsAllowed (expectedAllowed s)" "\<lambda>h. allowed_ok s (after st h)" for st repos s
  by unfold_locales (simp_all add: actions_store_api_def allowed_ok_def EqualActionsAllowed_def equal_ptr_def equal_sorted_def)

interpretation workflow: stored_setting "aa_GetDefaultWorkflowPermissions (actions_store_api st repos)" "EqualDefaultWorkflowPermissions (Some (expectedWorkflowPermissions s))"
    "aa_call (actions_store_api st repos)" "SetDefaultWorkflowPermissions (expectedWorkflowPermissions s)" "\<lambda>h. workflow_ok s (after st h)" for st repos s
  by unfold_locales (simp_all add: actions_store_api_def workflow_ok_def EqualDefaultWorkflowPermissions_def equal_ptr_def)

interpretation selfhosted: stored_setting "aa_GetSelfHostedRunnersSettings (actions_store_api st repos)" "\<lambda>cur. cur = enabledReposNone" "aa_call (actions_store_api st repos)"
    "SetSelfHostedRunnersSettings enabledReposNone" "\<lambda>h. ss_SelfHosted (after st h) = enabledReposNone" for st repos
  by unfold_locales (auto simp: actions_store_api_def)

interpretation disabled: stored_setting "aa_GetActionsPermissions (actions_store_api st repos)" "\<lambda>cur. GetEnabledRepositories cur = enabledReposNone" "aa_call (actions_store_api st repos)"
    "SetActionsPermissions \<lparr>pm_EnabledRepositories = enabledReposNone, pm_AllowedActions = None, pm_SHAPinningRequired = None\<rparr>"
    "\<lambda>h. pm_EnabledRepositories (ss_Permissions (after st h)) = enabledReposNone" for st repos
  by unfold_locales (auto simp: actions_store_api_def GetEnabledRepositories_def)

interpretation group_repos: stored_setting "\<lambda>h. aa_GetSelectedRepositoriesForRunnerGroup (actions_store_api st repos) h i" "EqualRepositoryIDs ids" "aa_call (actions_store_api st repos)"
    "SetSelectedRepositoriesForRunnerGroup i ids" "\<lambda>h. EqualRepositoryIDs ids (ss_Repos (after st h) i)" for st repos i ids
  by unfold_locales (auto simp: actions_store_api_def EqualRepositoryIDs_def list_all_iff)

lemma enabled_setting:
  assumes "range_order ord"
  shows "stored_setting (aa_GetActionsEnabledRepositories (actions_store_api st repos)) (\<lambda>cur. containsSameIDs cur (expectedIDs repos)) (aa_call (actions_store_api st repos))
    (SetActionsEnabledRepositories (ord (expectedIDs repos))) (\<lambda>h. enabled_ok repos (after st h))"
proof unfold_locales
  have m: "mset (ord (expectedIDs repos)) = mset (expectedIDs repos)" using assms by (simp add: range_order_def)
  show "enabled_ok repos (after st (h @ [SetActionsEnabledRepositories (ord (expectedIDs repos))]))" for h
    using mset_eq_length [OF m] mset_eq_setD [OF m] by (simp add: enabled_ok_def containsSameIDs_def list_all_iff)
qed (simp_all add: actions_store_api_def enabled_ok_def)

section \<open>Runner groups\<close>

text \<open>A definition that leaves nothing open that the comparison looks at.\<close>

definition complete_group :: "runner_group \<Rightarrow> bool" where
  "complete_group k \<longleftrightarrow> ru_Visibility k \<noteq> None \<and> ru_RestrictedToWorkflows k \<noteq> None \<and>
     (ru_RestrictedToWorkflows k = Some True \<longrightarrow> WithDefault (ru_SelectedWorkflows k) [] \<noteq> [])"

definition synced_group :: "runner_group \<Rightarrow> gh_runner_group \<Rightarrow> gh_runner_group" where
  "synced_group k g = (if EqualRunnerGroup k g then g else updated_group (MapRunnerGroupToUpdateRequest k) g)"

lemma synced_group_equal: "complete_group k \<Longrightarrow> EqualRunnerGroup k (synced_group k g)"
  by (auto simp: synced_group_def complete_group_def updated_group_def MapRunnerGroupToUpdateRequest_def EqualRunnerGroup_def given_or_def equal_sorted_def Let_def)

lemma synced_group_id [simp]: "gg_ID (synced_group k g) = gg_ID g"
  by (simp add: synced_group_def updated_group_def)

lemma equal_group_name: "EqualRunnerGroup k g \<Longrightarrow> WithDefault (gg_Name g) [] = ru_Name k"
  by (simp add: EqualRunnerGroup_def Let_def)

abbreviation repos_ok :: "actions_repo list \<Rightarrow> runner_group \<Rightarrow> gh_runner_group \<Rightarrow> (int \<Rightarrow> int list) \<Rightarrow> bool" where
  "repos_ok repos k g r \<equiv> ru_Visibility k = Some ''selected'' \<longrightarrow>
     EqualRepositoryIDs (GetSelectedRepositoryIDsForRunnerGroup k repos) (r (WithDefault (gg_ID g) 0))"

text \<open>What the iteration for one listed group leaves of it.\<close>

definition kept :: "(string, runner_group) gomap \<Rightarrow> gh_runner_group \<Rightarrow> gh_runner_group list" where
  "kept B g = (case map_get B (WithDefault (gg_Name g) []) of None \<Rightarrow> [] | Some k \<Rightarrow> [synced_group k g])"

lemma sync_group_store:
  assumes "ss_Groups (after st h) = done @ g # todo" and "gg_ID g = Some i" and "\<forall>x \<in> set (done @ todo). gg_ID x \<noteq> Some i"
    and "\<And>k. map_get B (WithDefault (gg_Name g) []) = Some k \<Longrightarrow> complete_group k"
  shows "\<exists>h' r. sync_group (actions_store_api st repos) B repos g h = (h', None) \<and>
    after st h' = (after st h)\<lparr>ss_Groups := done @ kept B g @ todo, ss_Repos := r\<rparr> \<and>
    (\<forall>j. j \<noteq> i \<longrightarrow> r j = ss_Repos (after st h) j) \<and>
    (\<forall>k. map_get B (WithDefault (gg_Name g) []) = Some k \<longrightarrow> repos_ok repos k g r)"
proof (cases "map_get B (WithDefault (gg_Name g) [])")
  case None
  have "filter (\<lambda>x. gg_ID x \<noteq> Some i) (done @ g # todo) = done @ todo" using assms(2,3) by (simp add: filter_True)
  then have "after st (h @ [DeleteRunnerGroup i]) = (after st h)\<lparr>ss_Groups := done @ kept B g @ todo, ss_Repos := ss_Repos (after st h)\<rparr>"
    using assms(1) None by (simp add: kept_def)
  moreover have "sync_group (actions_store_api st repos) B repos g h = (h @ [DeleteRunnerGroup i], None)"
    using None assms(2) by (simp add: sync_group_def)
  ultimately show ?thesis using None by (intro exI [of _ "h @ [DeleteRunnerGroup i]"] exI [of _ "ss_Repos (after st h)"]) simp
next
  case (Some k)
  let ?c = "UpdateRunnerGroup i (MapRunnerGroupToUpdateRequest k)"
  define h1 where "h1 = (if EqualRunnerGroup k g then h else h @ [?c])"
  have "map (\<lambda>x. if gg_ID x = Some i then updated_group (MapRunnerGroupToUpdateRequest k) x else x) (done @ g # todo) =
      done @ updated_group (MapRunnerGroupToUpdateRequest k) g # todo"
    using assms(2,3) by (auto intro!: map_idI)
  then have a1: "after st h1 = (after st h)\<lparr>ss_Groups := done @ kept B g @ todo\<rparr>"
    using assms(1) Some by (simp add: h1_def kept_def synced_group_def)
  have vis: "ru_Visibility k \<noteq> None" using assms(4) [OF Some] by (simp add: complete_group_def)
  show ?thesis
  proof (cases "ru_Visibility k = Some ''selected''")
    case False
    then have "sync_group (actions_store_api st repos) B repos g h = (h1, None)"
      using Some vis assms(2) by (simp add: sync_group_def h1_def Let_def)
    moreover have "after st h1 = (after st h)\<lparr>ss_Groups := done @ kept B g @ todo, ss_Repos := ss_Repos (after st h)\<rparr>" using a1 by simp
    ultimately show ?thesis using Some False by (intro exI [of _ h1] exI [of _ "ss_Repos (after st h)"]) simp
  next
    case True
    let ?ids = "GetSelectedRepositoryIDsForRunnerGroup k repos"
    obtain h' where h': "updateSelectedRepositoriesForRunnerGroup (actions_store_api st repos) k repos g h1 = (h', None)"
        "EqualRepositoryIDs ?ids (ss_Repos (after st h') i)" "h' = h1 \<or> h' = h1 @ [SetSelectedRepositoriesForRunnerGroup i ?ids]"
      using group_repos.sync_settles [of st repos i ?ids h1] assms(2) by (auto simp: updateSelectedRepositoriesForRunnerGroup_def Let_def)
    have "sync_group (actions_store_api st repos) B repos g h = (h', None)"
      using Some True assms(2) h'(1) by (cases "EqualRunnerGroup k g") (simp_all add: sync_group_def h1_def Let_def)
    moreover have "after st h' = (after st h)\<lparr>ss_Groups := done @ kept B g @ todo, ss_Repos := ss_Repos (after st h')\<rparr>"
      using h'(3) a1 by (elim disjE) simp_all
    moreover have "\<forall>j. j \<noteq> i \<longrightarrow> ss_Repos (after st h') j = ss_Repos (after st h) j"
      using h'(3) a1 by (elim disjE) simp_all
    ultimately show ?thesis using Some h'(2) assms(2) by (intro exI [of _ h'] exI [of _ "ss_Repos (after st h')"]) simp
  qed
qed

lemma run_all_append: "run_all (fs @ gs) h = (case run_all fs h of (h1, Some e) \<Rightarrow> (h1, Some e) | (h1, None) \<Rightarrow> run_all gs h1)"
  by (induction fs arbitrary: h) (simp_all split: prod.split option.split)

lemma kept_ids: "gg_ID ` set (kept B g) \<subseteq> {gg_ID g}"
  by (cases "map_get B (WithDefault (gg_Name g) [])") (simp_all add: kept_def)

text \<open>The loop over the listed groups.\<close>

lemma sync_groups_store:
  assumes "ss_Groups (after st h) = done @ todo" and "\<forall>g \<in> set todo. gg_ID g \<noteq> None" and "distinct (map gg_ID todo)"
    and "gg_ID ` set done \<inter> gg_ID ` set todo = {}"
    and "\<forall>n k. map_get B n = Some k \<longrightarrow> complete_group k"
  shows "\<exists>h' r. run_all (map (sync_group (actions_store_api st repos) B repos) todo) h = (h', None) \<and>
    after st h' = (after st h)\<lparr>ss_Groups := done @ concat (map (kept B) todo), ss_Repos := r\<rparr> \<and>
    (\<forall>j. Some j \<notin> gg_ID ` set todo \<longrightarrow> r j = ss_Repos (after st h) j) \<and>
    (\<forall>g \<in> set todo. \<forall>k. map_get B (WithDefault (gg_Name g) []) = Some k \<longrightarrow> repos_ok repos k g r)"
  using assms
proof (induction todo arbitrary: h "done")
  case Nil
  then show ?case by (intro exI [of _ h] exI [of _ "ss_Repos (after st h)"]) simp
next
  case (Cons g todo)
  obtain i where i: "gg_ID g = Some i" using Cons.prems(2) by auto
  have ni: "\<forall>x \<in> set (done @ todo). gg_ID x \<noteq> Some i" using Cons.prems(3,4) i by (metis (no_types, lifting) Int_iff UnE empty_iff image_eqI list.set_intros(1) distinct.simps(2) list.set_map list.simps(9) set_append)
  obtain h1 r1 where 1: "sync_group (actions_store_api st repos) B repos g h = (h1, None)"
      "after st h1 = (after st h)\<lparr>ss_Groups := done @ kept B g @ todo, ss_Repos := r1\<rparr>"
      "\<forall>j. j \<noteq> i \<longrightarrow> r1 j = ss_Repos (after st h) j" "\<forall>k. map_get B (WithDefault (gg_Name g) []) = Some k \<longrightarrow> repos_ok repos k g r1"
    using sync_group_store [OF Cons.prems(1) i ni, of B repos] Cons.prems(5) by blast
  have g1: "ss_Groups (after st h1) = (done @ kept B g) @ todo" using 1(2) by simp
  have dis: "gg_ID ` set (done @ kept B g) \<inter> gg_ID ` set todo = {}"
    using Cons.prems(3,4) kept_ids [of B g] by auto
  obtain h' r where 2: "run_all (map (sync_group (actions_store_api st repos) B repos) todo) h1 = (h', None)"
      "after st h' = (after st h1)\<lparr>ss_Groups := (done @ kept B g) @ concat (map (kept B) todo), ss_Repos := r\<rparr>"
      "\<forall>j. Some j \<notin> gg_ID ` set todo \<longrightarrow> r j = ss_Repos (after st h1) j"
      "\<forall>g \<in> set todo. \<forall>k. map_get B (WithDefault (gg_Name g) []) = Some k \<longrightarrow> repos_ok repos k g r"
    using Cons.IH [OF g1 _ _ dis Cons.prems(5)] Cons.prems(2,3) by auto
  have ri: "r i = r1 i" using 2(3) 1(2) ni by force
  have "run_all (map (sync_group (actions_store_api st repos) B repos) (g # todo)) h = (h', None)" using 1(1) 2(1) by simp
  moreover have "after st h' = (after st h)\<lparr>ss_Groups := done @ concat (map (kept B) (g # todo)), ss_Repos := r\<rparr>" using 2(2) 1(2) by simp
  moreover have "\<forall>j. Some j \<notin> gg_ID ` set (g # todo) \<longrightarrow> r j = ss_Repos (after st h) j" using 2(3) 1(2,3) i by auto
  moreover have "\<forall>x \<in> set (g # todo). \<forall>k. map_get B (WithDefault (gg_Name x) []) = Some k \<longrightarrow> repos_ok repos k x r"
    using 2(4) 1(4) ri i by simp
  ultimately show ?case by blast
qed

text \<open>The loop that creates the missing groups.\<close>

definition groups_wf :: "gh_runner_group list \<Rightarrow> bool" where
  "groups_wf gs \<longleftrightarrow> distinct (map gg_ID gs) \<and> distinct (map gg_Name gs) \<and> (\<forall>g \<in> set gs. gg_ID g \<noteq> None \<and> gg_Name g \<noteq> None)"

lemma fresh_group_new: "g \<in> set gs \<Longrightarrow> gg_ID g \<noteq> Some (fresh_group gs)"
proof
  assume "g \<in> set gs" "gg_ID g = Some (fresh_group gs)"
  then have "fresh_group gs \<in> set (List.map_filter gg_ID gs)" by (force simp: List.map_filter_def)
  from fresh_above_bound [OF this] show False by (simp add: fresh_group_def)
qed

lemma create_missing_store:
  assumes "groups_wf (ss_Groups (after st h))" and "distinct (map ru_Name ks)" and "\<forall>k \<in> set ks. Some (ru_Name k) \<notin> gg_Name ` set (ss_Groups (after st h))"
  shows "\<exists>h' new r. run_all (map (create_missing (actions_store_api st repos) repos) ks) h = (h', None) \<and>
    after st h' = (after st h)\<lparr>ss_Groups := ss_Groups (after st h) @ new, ss_Repos := r\<rparr> \<and> groups_wf (ss_Groups (after st h) @ new) \<and>
    (\<forall>g \<in> set (ss_Groups (after st h)). r (WithDefault (gg_ID g) 0) = ss_Repos (after st h) (WithDefault (gg_ID g) 0)) \<and>
    list_all2 (\<lambda>k g. EqualRunnerGroup k g \<and> repos_ok repos k g r) ks new"
  using assms
proof (induction ks arbitrary: h)
  case Nil
  then show ?case by (intro exI [of _ h] exI [of _ "[]"] exI [of _ "ss_Repos (after st h)"]) simp
next
  case (Cons k ks)
  let ?G = "ss_Groups (after st h)" and ?i = "fresh_group (ss_Groups (after st h))" and ?ids = "GetSelectedRepositoryIDsForRunnerGroup k repos"
  let ?c = "CreateRunnerGroup (MapRunnerGroupToCreateRequest k repos)"
  let ?g = "\<lparr>gg_ID = Some ?i, gg_Name = Some (ru_Name k), gg_Visibility = ru_Visibility k, gg_RestrictedToWorkflows = ru_RestrictedToWorkflows k,
    gg_SelectedWorkflows = ru_SelectedWorkflows k\<rparr>"
  let ?r = "(ss_Repos (after st h))(?i := WithDefault ?ids [])"
  have a: "after st (h @ [?c]) = (after st h)\<lparr>ss_Groups := ?G @ [?g], ss_Repos := ?r\<rparr>"
    by (simp add: MapRunnerGroupToCreateRequest_def Let_def)
  have new: "Some ?i \<notin> gg_ID ` set ?G" "Some (ru_Name k) \<notin> gg_Name ` set ?G" using fresh_group_new Cons.prems(3) by force+
  have wf: "groups_wf (ss_Groups (after st (h @ [?c])))" unfolding a using Cons.prems(1) new by (simp add: groups_wf_def)
  have "\<forall>x \<in> set ks. Some (ru_Name x) \<notin> gg_Name ` set (ss_Groups (after st (h @ [?c])))"
    unfolding a using Cons.prems(2,3) by (auto simp: image_iff)
  then obtain h' gs r where IH: "run_all (map (create_missing (actions_store_api st repos) repos) ks) (h @ [?c]) = (h', None)"
      "after st h' = (after st (h @ [?c]))\<lparr>ss_Groups := ss_Groups (after st (h @ [?c])) @ gs, ss_Repos := r\<rparr>" "groups_wf (ss_Groups (after st (h @ [?c])) @ gs)"
      "\<forall>g \<in> set (ss_Groups (after st (h @ [?c]))). r (WithDefault (gg_ID g) 0) = ss_Repos (after st (h @ [?c])) (WithDefault (gg_ID g) 0)"
      "list_all2 (\<lambda>k g. EqualRunnerGroup k g \<and> repos_ok repos k g r) ks gs"
    using Cons.IH [OF wf] Cons.prems(2) by auto
  have r: "r ?i = WithDefault ?ids []" using IH(4) unfolding a by simp
  have "WithDefault (gg_ID g) 0 \<noteq> ?i" if "g \<in> set ?G" for g
    using fresh_group_new [OF that] Cons.prems(1) that by (cases "gg_ID g") (auto simp: groups_wf_def)
  then have "\<forall>g \<in> set ?G. r (WithDefault (gg_ID g) 0) = ss_Repos (after st h) (WithDefault (gg_ID g) 0)" using IH(4) unfolding a by simp
  moreover have "EqualRunnerGroup k ?g \<and> repos_ok repos k ?g r"
    using r by (simp add: EqualRunnerGroup_def equal_sorted_def EqualRepositoryIDs_def list_all_iff)
  moreover have "run_all (map (create_missing (actions_store_api st repos) repos) (k # ks)) h = (h', None)"
    using IH(1) by (simp add: create_missing_def)
  moreover have "after st h' = (after st h)\<lparr>ss_Groups := ?G @ ?g # gs, ss_Repos := r\<rparr>" "groups_wf (?G @ ?g # gs)"
    using IH(2,3) unfolding a by simp_all
  ultimately show ?case using IH(5) by (intro exI [of _ h'] exI [of _ "?g # gs"] exI [of _ r]) simp
qed

text \<open>What the loop over the listed groups leaves, as a list.\<close>

lemma kept_all:
  "concat (map (kept B) gs) =
     map (\<lambda>g. synced_group (the (map_get B (WithDefault (gg_Name g) []))) g) (filter (\<lambda>g. map_get B (WithDefault (gg_Name g) []) \<noteq> None) gs)"
  by (induction gs) (auto simp: kept_def)

lemma synced_group_name: "gg_Name g \<noteq> None \<Longrightarrow> ru_Name k = WithDefault (gg_Name g) [] \<Longrightarrow> gg_Name (synced_group k g) = gg_Name g"
  by (auto simp: synced_group_def updated_group_def MapRunnerGroupToUpdateRequest_def)

lemma kept_wf:
  assumes "groups_wf gs" and "\<forall>n k. map_get B n = Some k \<longrightarrow> ru_Name k = n"
  shows "groups_wf (concat (map (kept B) gs))"
proof -
  let ?m = "\<lambda>g. map_get B (WithDefault (gg_Name g) [])"
  let ?s = "\<lambda>g. synced_group (the (?m g)) g" and ?gs = "filter (\<lambda>g. ?m g \<noteq> None) gs"
  have "gg_Name (?s g) = gg_Name g" if "g \<in> set ?gs" for g
    using that assms by (intro synced_group_name) (auto simp: groups_wf_def)
  then have n: "map gg_Name (map ?s ?gs) = map gg_Name ?gs" by simp
  have "distinct (map gg_Name (map ?s ?gs))" unfolding n using assms(1) by (simp add: groups_wf_def distinct_map_filter)
  moreover have "\<forall>g \<in> set (map ?s ?gs). gg_Name g \<noteq> None" using n assms(1) by (auto simp: groups_wf_def)
  moreover have "distinct (map gg_ID (map ?s ?gs))" "\<forall>g \<in> set (map ?s ?gs). gg_ID g \<noteq> None"
    using assms(1) by (auto simp: groups_wf_def comp_def distinct_map_filter)
  ultimately show ?thesis unfolding kept_all groups_wf_def by blast
qed

definition groups_ok :: "runner_group list \<Rightarrow> actions_repo list \<Rightarrow> actions_store \<Rightarrow> bool" where
  "groups_ok expected repos st \<longleftrightarrow>
     (\<forall>k \<in> set expected. \<exists>g \<in> set (ss_Groups st). EqualRunnerGroup k g \<and> repos_ok repos k g (ss_Repos st)) \<and>
     (\<forall>g \<in> set (ss_Groups st). \<exists>k \<in> set expected. EqualRunnerGroup k g)"

abbreviation by_name :: "runner_group list \<Rightarrow> (string, runner_group) gomap" where
  "by_name expected \<equiv> put_all ru_Name (\<lambda>k. k) expected []"

lemma groups_by_name_get: "distinct (map ru_Name expected) \<Longrightarrow> map_get (by_name expected) n = Some k \<longleftrightarrow> k \<in> set expected \<and> ru_Name k = n"
  using put_all_get_in [of ru_Name "\<lambda>k. k" expected "[]" n k] put_all_distinct [of ru_Name expected k "\<lambda>k. k" "[]"] by auto

lemma in_map_filter: "x \<in> set (List.map_filter f xs) \<longleftrightarrow> (\<exists>y \<in> set xs. f y = Some x)"
  by (force simp: List.map_filter_def)

lemma in_kept: "g' \<in> set (kept B g) \<longleftrightarrow> (\<exists>k. map_get B (WithDefault (gg_Name g) []) = Some k \<and> g' = synced_group k g)"
  by (cases "map_get B (WithDefault (gg_Name g) [])") (simp_all add: kept_def)

lemma seen_names:
  assumes "distinct (map ru_Name expected)" and "k \<in> set expected"
  shows "ru_Name k \<in> set (List.map_filter (\<lambda>g. map_option ru_Name (map_get (by_name expected) (WithDefault (gg_Name g) []))) gs) \<longleftrightarrow>
    (\<exists>g \<in> set gs. WithDefault (gg_Name g) [] = ru_Name k)"
proof -
  have "map_option ru_Name (map_get (by_name expected) n) = Some (ru_Name k) \<longleftrightarrow> n = ru_Name k" for n
    using groups_by_name_get [OF assms(1)] assms(2) by auto
  then show ?thesis unfolding in_map_filter by simp
qed

lemma kept_iff:
  assumes "distinct (map ru_Name expected)"
  shows "g' \<in> set (concat (map (kept (by_name expected)) gs)) \<longleftrightarrow>
    (\<exists>g \<in> set gs. \<exists>k \<in> set expected. WithDefault (gg_Name g) [] = ru_Name k \<and> g' = synced_group k g)"
  unfolding set_concat set_map UN_iff image_image in_kept groups_by_name_get [OF assms] by metis

text \<open>The groups after both loops: the listed ones that are wanted, synchronized, and new ones for the rest.\<close>

lemma groups_of_loops:
  assumes "distinct (map ru_Name expected)" and "\<forall>k \<in> set expected. complete_group k"
    and "\<And>g k. g \<in> set gs \<Longrightarrow> k \<in> set expected \<Longrightarrow> WithDefault (gg_Name g) [] = ru_Name k \<Longrightarrow> repos_ok repos k g r"
    and "list_all2 (\<lambda>k g. EqualRunnerGroup k g \<and> repos_ok repos k g r) (filter (\<lambda>k. \<not> (\<exists>g \<in> set gs. WithDefault (gg_Name g) [] = ru_Name k)) expected) new"
    and "ss_Groups st = concat (map (kept (by_name expected)) gs) @ new" and "ss_Repos st = r"
  shows "groups_ok expected repos st"
proof -
  let ?M = "filter (\<lambda>k. \<not> (\<exists>g \<in> set gs. WithDefault (gg_Name g) [] = ru_Name k)) expected"
  note kin = kept_iff [OF assms(1), of _ gs]
  have old: "EqualRunnerGroup k (synced_group k g) \<and> repos_ok repos k (synced_group k g) r"
    if "g \<in> set gs" "k \<in> set expected" "WithDefault (gg_Name g) [] = ru_Name k" for g k
    using synced_group_equal assms(2) assms(3) [OF that] that(2) by simp
  have "\<exists>g \<in> set (ss_Groups st). EqualRunnerGroup k g \<and> repos_ok repos k g r" if k: "k \<in> set expected" for k
  proof (cases "\<exists>g \<in> set gs. WithDefault (gg_Name g) [] = ru_Name k")
    case True
    then obtain g where g: "g \<in> set gs" "WithDefault (gg_Name g) [] = ru_Name k" by blast
    have "synced_group k g \<in> set (ss_Groups st)" unfolding assms(5) set_append Un_iff kin using g k by blast
    then show ?thesis using old [OF g(1) k g(2)] by blast
  next
    case False
    then have "k \<in> set ?M" using k by simp
    from this [unfolded in_set_conv_nth] obtain i where i: "i < length ?M" "?M ! i = k" by blast
    from list_all2_nthD [OF assms(4) i(1)] have "EqualRunnerGroup k (new ! i) \<and> repos_ok repos k (new ! i) r" unfolding i(2) .
    moreover have "new ! i \<in> set (ss_Groups st)" unfolding assms(5) using i(1) list_all2_lengthD [OF assms(4)] by (metis UnCI nth_mem set_append)
    ultimately show ?thesis by blast
  qed
  moreover have "\<exists>k \<in> set expected. EqualRunnerGroup k g" if g: "g \<in> set (ss_Groups st)" for g
    using g unfolding assms(5) set_append Un_iff kin
  proof
    assume "\<exists>g0 \<in> set gs. \<exists>k \<in> set expected. WithDefault (gg_Name g0) [] = ru_Name k \<and> g = synced_group k g0"
    then show ?thesis using old by blast
  next
    assume "g \<in> set new"
    then obtain i where "i < length new" "g = new ! i" by (metis in_set_conv_nth)
    then have "i < length ?M" "EqualRunnerGroup (?M ! i) g" using list_all2_nthD2 [OF assms(4)] list_all2_lengthD [OF assms(4)] by auto
    then show ?thesis by (meson filter_is_subset nth_mem subsetD)
  qed
  ultimately show ?thesis unfolding groups_ok_def assms(6) by blast
qed

lemma synced_name:
  assumes "groups_wf gs" and "g \<in> set gs" and "WithDefault (gg_Name g) [] = ru_Name k"
  shows "gg_Name (synced_group k g) = gg_Name g"
  using assms by (intro synced_group_name) (simp_all add: groups_wf_def)

lemma missing_names:
  assumes "distinct (map ru_Name expected)" and "groups_wf gs" and "\<not> (\<exists>g \<in> set gs. WithDefault (gg_Name g) [] = ru_Name k)"
  shows "Some (ru_Name k) \<notin> gg_Name ` set (concat (map (kept (by_name expected)) gs))"
proof
  assume "Some (ru_Name k) \<in> gg_Name ` set (concat (map (kept (by_name expected)) gs))"
  then obtain g' where g': "g' \<in> set (concat (map (kept (by_name expected)) gs))" "gg_Name g' = Some (ru_Name k)" by (metis imageE)
  then obtain g k' where g: "g \<in> set gs" "WithDefault (gg_Name g) [] = ru_Name k'" "g' = synced_group k' g"
    unfolding kept_iff [OF assms(1)] by blast
  then have "gg_Name g = Some (ru_Name k)" using synced_name [OF assms(2) g(1,2)] g'(2) by simp
  then show False using assms(3) g(1) by force
qed

text \<open>The reconciliation of the groups changes the groups and their repositories only, leaves exactly the wanted groups, and keeps those that GitHub already had.\<close>

lemma runner_groups_settle:
  assumes "distinct (map ru_Name (as_RunnerGroups s))" and "\<forall>k \<in> set (as_RunnerGroups s). complete_group k" and "groups_wf (ss_Groups (after st h))"
  shows "\<exists>h' gs r. reconcileRunnerGroups s (actions_store_api st repos) h = (h', None) \<and>
    after st h' = (after st h)\<lparr>ss_Groups := gs, ss_Repos := r\<rparr> \<and> groups_wf gs \<and> groups_ok (as_RunnerGroups s) repos (after st h') \<and>
    (\<forall>g \<in> set (ss_Groups (after st h)). \<forall>k \<in> set (as_RunnerGroups s). gg_Name g = Some (ru_Name k) \<longrightarrow>
      (\<exists>g' \<in> set gs. gg_ID g' = gg_ID g \<and> gg_Name g' = gg_Name g))"
proof -
  let ?E = "as_RunnerGroups s" and ?B = "by_name (as_RunnerGroups s)" and ?G = "ss_Groups (after st h)"
  let ?seen = "List.map_filter (\<lambda>g. map_option ru_Name (map_get ?B (WithDefault (gg_Name g) []))) ?G"
  let ?M = "filter (\<lambda>k. \<not> (\<exists>g \<in> set ?G. WithDefault (gg_Name g) [] = ru_Name k)) ?E" and ?K = "concat (map (kept ?B) ?G)"
  have M: "filter (\<lambda>k. \<not> List.member ?seen (ru_Name k)) ?E = ?M" by (rule filter_cong) (simp_all add: seen_names [OF assms(1)])
  have B: "\<forall>n k. map_get ?B n = Some k \<longrightarrow> complete_group k" "\<forall>n k. map_get ?B n = Some k \<longrightarrow> ru_Name k = n"
    using groups_by_name_get [OF assms(1)] assms(2) by auto
  have wf: "\<forall>g \<in> set ?G. gg_ID g \<noteq> None" "distinct (map gg_ID ?G)" "gg_ID ` set [] \<inter> gg_ID ` set ?G = {}" using assms(3) by (auto simp: groups_wf_def)
  obtain h1 r1 where 1: "run_all (map (sync_group (actions_store_api st repos) ?B repos) ?G) h = (h1, None)"
      "after st h1 = (after st h)\<lparr>ss_Groups := ?K, ss_Repos := r1\<rparr>"
      "\<forall>g \<in> set ?G. \<forall>k. map_get ?B (WithDefault (gg_Name g) []) = Some k \<longrightarrow> repos_ok repos k g r1"
    using sync_groups_store [of st h "[]" ?G ?B repos, OF _ wf B(1)] by auto
  have g1: "ss_Groups (after st h1) = ?K" "ss_Repos (after st h1) = r1" using 1(2) by simp_all
  have "\<forall>k \<in> set ?M. Some (ru_Name k) \<notin> gg_Name ` set ?K" using missing_names [OF assms(1,3)] by (auto simp del: set_concat)
  then obtain h2 new r2 where 2: "run_all (map (create_missing (actions_store_api st repos) repos) ?M) h1 = (h2, None)"
      "after st h2 = (after st h1)\<lparr>ss_Groups := ?K @ new, ss_Repos := r2\<rparr>" "groups_wf (?K @ new)"
      "\<forall>g \<in> set ?K. r2 (WithDefault (gg_ID g) 0) = r1 (WithDefault (gg_ID g) 0)"
      "list_all2 (\<lambda>k g. EqualRunnerGroup k g \<and> repos_ok repos k g r2) ?M new"
    using create_missing_store [of st h1 ?M repos] kept_wf [OF assms(3) B(2)] distinct_map_filter [OF assms(1)] unfolding g1 by blast
  have run: "reconcileRunnerGroups s (actions_store_api st repos) h = (h2, None)"
    using 1(1) 2(1) by (simp add: reconcileRunnerGroups_def run_all_append Let_def M del: List.member_iff)
  have st2: "after st h2 = (after st h)\<lparr>ss_Groups := ?K @ new, ss_Repos := r2\<rparr>" using 1(2) 2(2) by simp
  have in_K: "synced_group k g \<in> set ?K" if "g \<in> set ?G" "k \<in> set ?E" "WithDefault (gg_Name g) [] = ru_Name k" for g k
    unfolding kept_iff [OF assms(1)] using that by blast
  have "repos_ok repos k g r2" if "g \<in> set ?G" "k \<in> set ?E" "WithDefault (gg_Name g) [] = ru_Name k" for g k
  proof -
    have "r2 (WithDefault (gg_ID g) 0) = r1 (WithDefault (gg_ID g) 0)" using bspec [OF 2(4) in_K [OF that]] by simp
    moreover have "map_get ?B (WithDefault (gg_Name g) []) = Some k" unfolding groups_by_name_get [OF assms(1)] using that by simp
    moreover from this have "repos_ok repos k g r1" using 1(3) that(1) by blast
    ultimately show ?thesis by presburger
  qed
  moreover have "ss_Groups (after st h2) = ?K @ new" "ss_Repos (after st h2) = r2" unfolding st2 by simp_all
  ultimately have ok: "groups_ok ?E repos (after st h2)" using groups_of_loops [OF assms(1,2) _ 2(5)] by blast
  have "\<exists>g' \<in> set (?K @ new). gg_ID g' = gg_ID g \<and> gg_Name g' = gg_Name g" if "g \<in> set ?G" "k \<in> set ?E" "gg_Name g = Some (ru_Name k)" for g k
    using in_K [OF that(1,2)] synced_name [OF assms(3) that(1), of k] that(3) by (intro bexI [of _ "synced_group k g"]) simp_all
  then show ?thesis using run st2 2(3) ok by blast
qed

lemma run_all_quiet: "\<forall>f \<in> set fs. f h = (h, None) \<Longrightarrow> run_all fs h = (h, None)"
  by (induction fs) auto

lemma runner_groups_quiet:
  assumes "distinct (map ru_Name (as_RunnerGroups s))" and "groups_wf (ss_Groups (after st h))" and "groups_ok (as_RunnerGroups s) repos (after st h)"
    and "\<forall>k \<in> set (as_RunnerGroups s). complete_group k"
  shows "reconcileRunnerGroups s (actions_store_api st repos) h = (h, None)"
proof -
  let ?E = "as_RunnerGroups s" and ?B = "by_name (as_RunnerGroups s)" and ?G = "ss_Groups (after st h)"
  let ?seen = "List.map_filter (\<lambda>g. map_option ru_Name (map_get ?B (WithDefault (gg_Name g) []))) ?G"
  have names: "g = g'" if "g \<in> set ?G" "g' \<in> set ?G" "WithDefault (gg_Name g) [] = WithDefault (gg_Name g') []" for g g'
  proof -
    have "gg_Name g \<noteq> None" "gg_Name g' \<noteq> None" using that assms(2) by (simp_all add: groups_wf_def)
    then have "gg_Name g = gg_Name g'" using that(3) by auto
    then show ?thesis using that assms(2) by (auto simp: groups_wf_def distinct_map inj_on_def)
  qed
  have quiet: "sync_group (actions_store_api st repos) ?B repos g h = (h, None)" if g: "g \<in> set ?G" for g
  proof -
    obtain k where k: "k \<in> set ?E" "EqualRunnerGroup k g" using assms(3) g by (auto simp: groups_ok_def)
    obtain g' where g': "g' \<in> set ?G" "EqualRunnerGroup k g'" "repos_ok repos k g' (ss_Repos (after st h))" using assms(3) k(1) unfolding groups_ok_def by blast
    have "g' = g" using names g g'(1) equal_group_name [OF k(2)] equal_group_name [OF g'(2)] by metis
    then have r: "repos_ok repos k g (ss_Repos (after st h))" using g'(3) by blast
    have b: "map_get ?B (WithDefault (gg_Name g) []) = Some k" unfolding groups_by_name_get [OF assms(1)] using k equal_group_name by auto
    show ?thesis
    proof (cases "ru_Visibility k = Some ''selected''")
      case True
      have "updateSelectedRepositoriesForRunnerGroup (actions_store_api st repos) k repos g h = (h, None)"
        using group_repos.sync [of st repos "WithDefault (gg_ID g) 0" "GetSelectedRepositoryIDsForRunnerGroup k repos" h] r True
        by (simp add: updateSelectedRepositoriesForRunnerGroup_def Let_def)
      then show ?thesis using b k(2) True by (simp add: sync_group_def Let_def)
    next
      case False
      then show ?thesis using b k assms(4) by (simp add: sync_group_def Let_def complete_group_def)
    qed
  qed
  have "\<exists>g \<in> set ?G. WithDefault (gg_Name g) [] = ru_Name k" if "k \<in> set ?E" for k
    using assms(3) that equal_group_name unfolding groups_ok_def by blast
  then have none: "filter (\<lambda>k. \<not> List.member ?seen (ru_Name k)) ?E = []" by (simp add: filter_empty_conv seen_names [OF assms(1)])
  show ?thesis
    unfolding reconcileRunnerGroups_def store_api_simps sum.case Let_def none
    by (rule run_all_quiet) (use quiet in auto)
qed

section \<open>The whole reconciliation\<close>

definition actions_settled :: "actions_settings \<Rightarrow> actions_repo list \<Rightarrow> actions_store \<Rightarrow> bool" where
  "actions_settled s repos st \<longleftrightarrow> perm_ok s st \<and> ss_Retention st = expectedRetention s \<and> (as_AllowedActions s = Some ''selected'' \<longrightarrow> allowed_ok s st) \<and>
     workflow_ok s st \<and> ss_SelfHosted st = enabledReposNone \<and> groups_ok (as_RunnerGroups s) repos st"

definition repos_settled :: "actions_settings \<Rightarrow> actions_repo list \<Rightarrow> actions_store \<Rightarrow> bool" where
  "repos_settled s repos st \<longleftrightarrow> (as_EnabledRepositories s = Some ''selected'' \<longrightarrow> enabled_ok repos st)"

lemma permissions_settle:
  assumes "range_order ord" and "\<not> IsActionsDisabled s"
  shows "\<exists>h' p e. reconcilePermissions ord s (actions_store_api st repos) h = (h', None) \<and>
    after st h' = (after st h)\<lparr>ss_Permissions := p, ss_Enabled := e\<rparr> \<and> perm_ok s (after st h') \<and>
    (perm_ok s (after st h) \<longrightarrow> repos_settled s repos (after st h')) \<and> (perm_ok s (after st h) \<and> repos_settled s repos (after st h) \<longrightarrow> h' = h)"
proof (cases "perm_ok s (after st h)")
  case False
  let ?c = "SetActionsPermissions (expectedPermissions s)"
  have p: "perm_ok s (after st (h @ [?c]))"
    by (simp add: perm_ok_def EqualActionsPermissions_def equal_ptr_def given_or_def expectedPermissions_def WithDefaultAsPtr_WithDefault)
  have run: "reconcilePermissions ord s (actions_store_api st repos) h = (h @ [?c], None)"
    using False by (simp add: reconcilePermissions_def perm_ok_def Let_def)
  have "\<exists>p. after st (h @ [?c]) = (after st h)\<lparr>ss_Permissions := p, ss_Enabled := ss_Enabled (after st h)\<rparr>"
    by (intro exI [of _ "ss_Permissions (after st (h @ [?c]))"]) simp
  then show ?thesis using p run False by blast
next
  case True
  have enabled: "pm_EnabledRepositories (expectedPermissions s) = ''selected'' \<longleftrightarrow> as_EnabledRepositories s = Some ''selected''"
    using assms(2) by (cases "as_EnabledRepositories s") (simp_all add: expectedPermissions_def IsActionsDisabled_def)
  have run: "reconcilePermissions ord s (actions_store_api st repos) h =
      (if as_EnabledRepositories s = Some ''selected'' then reconcileActionsEnabledRepositories ord (actions_store_api st repos) h else (h, None))"
    using True enabled by (simp add: reconcilePermissions_def perm_ok_def Let_def)
  obtain h' where h': "reconcileActionsEnabledRepositories ord (actions_store_api st repos) h = (h', None)" "enabled_ok repos (after st h')"
      "h' = h \<and> enabled_ok repos (after st h) \<or> h' = h @ [SetActionsEnabledRepositories (ord (expectedIDs repos))]" "enabled_ok repos (after st h) \<longrightarrow> h' = h"
    using stored_setting.sync_settles [OF enabled_setting [OF assms(1)], of st repos h] stored_setting.sync [OF enabled_setting [OF assms(1)], of st repos h]
    by (auto simp: reconcileActionsEnabledRepositories_def)
  have upd: "\<exists>e. after st h' = (after st h)\<lparr>ss_Permissions := ss_Permissions (after st h), ss_Enabled := e\<rparr>"
  proof (cases "h' = h")
    case True
    then show ?thesis by (intro exI [of _ "ss_Enabled (after st h)"]) simp
  next
    case False
    then show ?thesis using h'(3) by auto
  qed
  then have keep: "perm_ok s (after st h')" using True by (auto simp: perm_ok_def)
  show ?thesis
  proof (cases "as_EnabledRepositories s = Some ''selected''")
    case sel: True
    obtain e where e: "after st h' = (after st h)\<lparr>ss_Permissions := ss_Permissions (after st h), ss_Enabled := e\<rparr>" using upd by blast
    show ?thesis
      using run h'(1,2,4) e keep sel by (intro exI [of _ h'] exI [of _ "ss_Permissions (after st h)"] exI [of _ e]) (simp add: repos_settled_def)
  next
    case False
    then show ?thesis using run True by (intro exI [of _ h] exI [of _ "ss_Permissions (after st h)"] exI [of _ "ss_Enabled (after st h)"]) (simp add: repos_settled_def)
  qed
qed

text \<open>The settings with a field of their own: one pass changes that field only.\<close>

lemma retention_settle:
  "\<exists>h' d. reconcileRetention s (actions_store_api st repos) h = (h', None) \<and> after st h' = (after st h)\<lparr>ss_Retention := d\<rparr> \<and>
     d = expectedRetention s \<and> (ss_Retention (after st h) = expectedRetention s \<longrightarrow> h' = h)"
  using retention.sync [of st repos s h] by (cases "ss_Retention (after st h) = expectedRetention s") (auto simp: reconcileRetention_def)

lemma allowed_settle:
  "\<not> IsActionsDisabled s \<Longrightarrow> \<exists>h' a. reconcileAllowedActions s (actions_store_api st repos) h = (h', None) \<and> after st h' = (after st h)\<lparr>ss_Allowed := a\<rparr> \<and>
     (as_AllowedActions s = Some ''selected'' \<longrightarrow> allowed_ok s (after st h')) \<and>
     ((as_AllowedActions s = Some ''selected'' \<longrightarrow> allowed_ok s (after st h)) \<longrightarrow> h' = h)"
proof (cases "as_AllowedActions s = Some ''selected'' \<and> \<not> allowed_ok s (after st h)")
  case True
  assume "\<not> IsActionsDisabled s"
  then show ?thesis using True allowed.sync [of st repos s h] allowed.writes [of s st h]
    by (intro exI [of _ "h @ [SetActionsAllowed (expectedAllowed s)]"] exI [of _ "expectedAllowed s"]) (simp add: reconcileAllowedActions_def)
next
  case False
  then show ?thesis using allowed.sync [of st repos s h]
    by (intro exI [of _ h] exI [of _ "ss_Allowed (after st h)"]) (simp add: reconcileAllowedActions_def)
qed

lemma workflow_settle:
  "\<exists>h' w. reconcileDefaultWorkflowPermissions s (actions_store_api st repos) h = (h', None) \<and> after st h' = (after st h)\<lparr>ss_Workflow := w\<rparr> \<and>
     workflow_ok s (after st h') \<and> (workflow_ok s (after st h) \<longrightarrow> h' = h)"
proof (cases "workflow_ok s (after st h)")
  case True
  then show ?thesis using workflow.sync [of st repos s h]
    by (intro exI [of _ h] exI [of _ "ss_Workflow (after st h)"]) (simp add: reconcileDefaultWorkflowPermissions_def)
next
  case False
  then show ?thesis using workflow.sync [of st repos s h] workflow.writes [of s st h]
    by (intro exI [of _ "h @ [SetDefaultWorkflowPermissions (expectedWorkflowPermissions s)]"] exI [of _ "expectedWorkflowPermissions s"])
      (simp add: reconcileDefaultWorkflowPermissions_def)
qed

lemma selfhosted_settle:
  "\<exists>h' x. reconcileSelfHostedRunnerSettings (actions_store_api st repos) h = (h', None) \<and> after st h' = (after st h)\<lparr>ss_SelfHosted := x\<rparr> \<and>
     x = enabledReposNone \<and> (ss_SelfHosted (after st h) = enabledReposNone \<longrightarrow> h' = h)"
  using selfhosted.sync [of st repos h] by (cases "ss_SelfHosted (after st h) = enabledReposNone") (auto simp: reconcileSelfHostedRunnerSettings_def)

lemmas ok_defs = perm_ok_def allowed_ok_def workflow_ok_def enabled_ok_def repos_settled_def

text \<open>One run.\<close>

lemma actions_run:
  assumes "\<not> IsActionsDisabled s" and "range_order ord" and "distinct (map ru_Name (as_RunnerGroups s))" and "\<forall>k \<in> set (as_RunnerGroups s). complete_group k"
    and "groups_wf (ss_Groups (after st h))"
  shows "\<exists>h'. org_reconcileActionsSettings ord s (actions_store_api st repos) h = (h', None) \<and> groups_wf (ss_Groups (after st h')) \<and>
    actions_settled s repos (after st h') \<and> (perm_ok s (after st h) \<longrightarrow> repos_settled s repos (after st h')) \<and>
    (actions_settled s repos (after st h) \<and> repos_settled s repos (after st h) \<longrightarrow> h' = h)"
proof -
  let ?api = "actions_store_api st repos"
  obtain h1 p e where 1: "reconcilePermissions ord s ?api h = (h1, None)" "after st h1 = (after st h)\<lparr>ss_Permissions := p, ss_Enabled := e\<rparr>" "perm_ok s (after st h1)"
      "perm_ok s (after st h) \<longrightarrow> repos_settled s repos (after st h1)" "perm_ok s (after st h) \<and> repos_settled s repos (after st h) \<longrightarrow> h1 = h"
    using permissions_settle [OF assms(2,1), of st repos h] by blast
  obtain h2 where 2: "reconcileRetention s ?api h1 = (h2, None)" "after st h2 = (after st h1)\<lparr>ss_Retention := expectedRetention s\<rparr>"
      "ss_Retention (after st h1) = expectedRetention s \<longrightarrow> h2 = h1"
    using retention_settle [of s st repos h1] by blast
  obtain h3 a where 3: "reconcileAllowedActions s ?api h2 = (h3, None)" "after st h3 = (after st h2)\<lparr>ss_Allowed := a\<rparr>"
      "as_AllowedActions s = Some ''selected'' \<longrightarrow> allowed_ok s (after st h3)" "(as_AllowedActions s = Some ''selected'' \<longrightarrow> allowed_ok s (after st h2)) \<longrightarrow> h3 = h2"
    using allowed_settle [OF assms(1), of st repos h2] by blast
  obtain h4 w where 4: "reconcileDefaultWorkflowPermissions s ?api h3 = (h4, None)" "after st h4 = (after st h3)\<lparr>ss_Workflow := w\<rparr>" "workflow_ok s (after st h4)"
      "workflow_ok s (after st h3) \<longrightarrow> h4 = h3"
    using workflow_settle [of s st repos h3] by blast
  obtain h5 where 5: "reconcileSelfHostedRunnerSettings ?api h4 = (h5, None)" "after st h5 = (after st h4)\<lparr>ss_SelfHosted := enabledReposNone\<rparr>"
      "ss_SelfHosted (after st h4) = enabledReposNone \<longrightarrow> h5 = h4"
    using selfhosted_settle [of st repos h4] by blast
  have wf: "groups_wf (ss_Groups (after st h5))" using assms(5) 1(2) 2(2) 3(2) 4(2) 5(2) by simp
  obtain h6 gs r where 6: "reconcileRunnerGroups s ?api h5 = (h6, None)" "after st h6 = (after st h5)\<lparr>ss_Groups := gs, ss_Repos := r\<rparr>" "groups_wf gs"
      "groups_ok (as_RunnerGroups s) repos (after st h6)"
    using runner_groups_settle [OF assms(3,4) wf, of repos] by blast
  note q6 = runner_groups_quiet [OF assms(3) wf _ assms(4), of repos]
  note upd = 6(2) 5(2) 4(2) 3(2) 2(2) 1(2)
  have run: "org_reconcileActionsSettings ord s ?api h = (h6, None)"
    using assms(1) 1(1) 2(1) 3(1) 4(1) 5(1) 6(1) by (simp add: org_reconcileActionsSettings_def)
  have settled: "actions_settled s repos (after st h6)"
    using 6(4) 1(3) 3(3) 4(3) unfolding actions_settled_def upd by (simp add: ok_defs)
  have "perm_ok s (after st h) \<longrightarrow> repos_settled s repos (after st h6)" using 1(4) unfolding upd by (simp add: ok_defs)
  moreover have "h6 = h" if "actions_settled s repos (after st h) \<and> repos_settled s repos (after st h)"
  proof -
    have e1: "h1 = h" using that 1(5) by (simp add: actions_settled_def)
    have e2: "h2 = h1" using that e1 2(3) by (simp add: actions_settled_def)
    have e3: "h3 = h2" using that e1 e2 3(4) by (simp add: actions_settled_def)
    have e4: "h4 = h3" using that e1 e2 e3 4(4) by (simp add: actions_settled_def)
    have e5: "h5 = h4" using that e1 e2 e3 e4 5(3) by (simp add: actions_settled_def)
    show ?thesis using q6 6(1) that e1 e2 e3 e4 e5 by (simp add: actions_settled_def)
  qed
  moreover have "groups_wf (ss_Groups (after st h6))" using 6(2,3) by simp
  ultimately show ?thesis using run settled by blast
qed


text \<open>Disabled Actions: one call at most, and nothing else is looked at.\<close>

lemma disabled_settles:
  assumes "IsActionsDisabled s"
  shows "\<exists>h'. org_reconcileActionsSettings ord s (actions_store_api st repos) h = (h', None) \<and>
    pm_EnabledRepositories (ss_Permissions (after st h')) = ''none'' \<and> length h' \<le> Suc (length h)"
  using disabled.sync_settles [of st repos h] assms by (auto simp: org_reconcileActionsSettings_def disableActionsForGHOrg_def enabledReposNone_def)

text \<open>If the kind of allowed actions is left open, the permissions say \<^verbatim>\<open>selected\<close>, but the selection is not reconciled.\<close>

lemma default_selection_not_reconciled:
  assumes "as_AllowedActions s = None"
  shows "pm_AllowedActions (expectedPermissions s) = Some ''selected'' \<and> reconcileAllowedActions s api h = (h, None)"
  using assms by (simp add: expectedPermissions_def reconcileAllowedActions_def)

text \<open>The comparison of IDs means equality of sets, as GitHub reports every repository once.\<close>

lemma equal_ids_sets:
  assumes "distinct current"
  shows "EqualRepositoryIDs (Some expected) current \<and> distinct expected \<longleftrightarrow> set expected = set current \<and> length expected = length current"
proof
  assume "EqualRepositoryIDs (Some expected) current \<and> distinct expected"
  then have "length expected = length current" "set current \<subseteq> set expected" "distinct expected" by (auto simp: EqualRepositoryIDs_def list_all_iff)
  then show "set expected = set current \<and> length expected = length current" using assms by (metis card_subset_eq distinct_card finite_set)
next
  assume a: "set expected = set current \<and> length expected = length current"
  then have "card (set expected) = length expected" using assms by (metis distinct_card)
  then show "EqualRepositoryIDs (Some expected) current \<and> distinct expected" using a by (auto simp: EqualRepositoryIDs_def list_all_iff card_distinct)
qed

text \<open>An example: Actions for selected repositories, one runner group that exists with other settings, one that is to be created and one to be deleted.\<close>

definition ex_actions_group :: "string \<Rightarrow> runner_group" where
  "ex_actions_group n = \<lparr>ru_Name = n, ru_Visibility = Some ''selected'', ru_RestrictedToWorkflows = Some False, ru_SelectedWorkflows = None\<rparr>"

definition ex_actions :: actions_settings where
  "ex_actions = \<lparr>as_EnabledRepositories = Some ''selected'', as_AllowedActions = Some ''selected'', as_SelectedAllowedActions = None, as_ShaPinningRequired = None,
     as_DefaultWorkflowPermissions = None, as_CanApprovePullRequestReviews = None, as_ArtifactAndLogRetentionDays = None,
     as_RunnerGroups = [ex_actions_group ''a'', ex_actions_group ''b'']\<rparr>"

definition ex_actions_store :: actions_store where
  "ex_actions_store = \<lparr>ss_Permissions = \<lparr>pm_EnabledRepositories = ''all'', pm_AllowedActions = Some ''all'', pm_SHAPinningRequired = Some False\<rparr>, ss_Enabled = [], ss_Retention = 90,
     ss_Allowed = \<lparr>al_GithubOwnedAllowed = None, al_VerifiedAllowed = None, al_PatternsAllowed = None\<rparr>,
     ss_Workflow = \<lparr>wp_DefaultWorkflowPermissions = Some ''read'', wp_CanApprovePullRequestReviews = Some False\<rparr>, ss_SelfHosted = ''all'',
     ss_Groups = [\<lparr>gg_ID = Some 1, gg_Name = Some ''a'', gg_Visibility = Some ''all'', gg_RestrictedToWorkflows = Some False, gg_SelectedWorkflows = Some []\<rparr>,
       \<lparr>gg_ID = Some 2, gg_Name = Some ''old'', gg_Visibility = Some ''all'', gg_RestrictedToWorkflows = Some False, gg_SelectedWorkflows = Some []\<rparr>],
     ss_Repos = (\<lambda>i. [])\<rparr>"

definition ex_actions_repos :: "actions_repo list" where
  "ex_actions_repos = [\<lparr>ar_ID = Some 7, ar_ActionsEnabled = None, ar_AvailableActionsRunnerGroups = [''a'']\<rparr>]"


end
