(* ===== verification/CodeSecurity.thy ===== *)
theory CodeSecurity
  imports IdResolver OrgTypes
begin

text \<open>
  Code security configurations of an organization: \<^verbatim>\<open>orgrec/rec_code_security_configurations.go\<close> with \<^verbatim>\<open>mapper/github_code_security_configuration_mapper.go\<close>.
  GitHub answers as a function of the calls made so far; queries of the attachments are part of that history, as their answer changes while GitHub works. The
  order in which Go ranges over each of the maps is an argument, and so are the events a wait sees before its timer fires.
\<close>

section \<open>Data\<close>

text \<open>The settings with plain values, which the resource and GitHub share.\<close>

record csc_settings =
  cs_AdvancedSecurity :: "string option"
  cs_DependencyGraph :: "string option"
  cs_DependencyGraphAutosubmitAction :: "string option"
  cs_DependabotAlerts :: "string option"
  cs_DependabotSecurityUpdates :: "string option"
  cs_CodeScanningDefaultSetup :: "string option"
  cs_CodeScanningDelegatedAlertDismissal :: "string option"
  cs_CodeSecurity :: "string option"
  cs_SecretScanning :: "string option"
  cs_SecretScanningPushProtection :: "string option"
  cs_SecretScanningValidityChecks :: "string option"
  cs_SecretScanningNonProviderPatterns :: "string option"
  cs_SecretScanningGenericSecrets :: "string option"
  cs_SecretScanningDelegatedAlertDismissal :: "string option"
  cs_SecretProtection :: "string option"
  cs_PrivateVulnerabilityReporting :: "string option"
  cs_SecretScanningDelegatedBypass :: "string option"
  cs_Enforcement :: "string option"

text \<open>The options: labeled runners, runner type and label, advanced scanning.\<close>

record csc_setup_options =
  so_RunnerType :: string
  so_RunnerLabel :: "string option"

record csc_spec =
  cc_Name :: string
  cc_Description :: string
  cc_settings :: csc_settings
  cc_AutosubmitOptions :: "bool option option"
  cc_SetupOptions :: "csc_setup_options option"
  cc_CodeScanningOptions :: "bool option option"
  cc_BypassOptions :: "bypass_reviewer list option"
  cc_DefaultForNewRepos :: "string option"

text \<open>The resource: its name in Kubernetes and its spec, which has a name of its own.\<close>

record csc_resource =
  cr_MetaName :: string
  cr_Spec :: csc_spec

record gh_csc =
  gc_ID :: "int option"
  gc_TargetType :: "string option"
  gc_Name :: string
  gc_Description :: string
  gc_settings :: csc_settings
  gc_AutosubmitOptions :: "bool option option"
  gc_SetupOptions :: "csc_setup_options option"
  gc_CodeScanningOptions :: "bool option option"
  gc_BypassOptions :: "(int \<times> string) list option"

section \<open>The mapper\<close>

text \<open>The reviewers' IDs are dereferenced; \<^term>\<open>None\<close> is the panic of a nil ID.\<close>

definition toSecretScanningDelegatedBypassOptions :: "bypass_reviewer list option \<Rightarrow> (int \<times> string) list option option" where
  "toSecretScanningDelegatedBypassOptions rs =
     (case rs of
        None \<Rightarrow> Some None
      | Some xs \<Rightarrow> map_option Some (those (map (\<lambda>r. map_option (\<lambda>i. (i, br_ReviewerType r)) (br_ReviewerId r)) xs)))"

definition ToGithubCodeSecurityConfiguration :: "csc_resource option \<Rightarrow> gh_csc option" where
  "ToGithubCodeSecurityConfiguration c =
     (case c of
        None \<Rightarrow> Some \<lparr>gc_ID = None, gc_TargetType = None, gc_Name = [], gc_Description = [],
          gc_settings = \<lparr>cs_AdvancedSecurity = None, cs_DependencyGraph = None, cs_DependencyGraphAutosubmitAction = None, cs_DependabotAlerts = None,
            cs_DependabotSecurityUpdates = None, cs_CodeScanningDefaultSetup = None, cs_CodeScanningDelegatedAlertDismissal = None, cs_CodeSecurity = None,
            cs_SecretScanning = None, cs_SecretScanningPushProtection = None, cs_SecretScanningValidityChecks = None, cs_SecretScanningNonProviderPatterns = None,
            cs_SecretScanningGenericSecrets = None, cs_SecretScanningDelegatedAlertDismissal = None, cs_SecretProtection = None,
            cs_PrivateVulnerabilityReporting = None, cs_SecretScanningDelegatedBypass = None, cs_Enforcement = None\<rparr>,
          gc_AutosubmitOptions = None, gc_SetupOptions = None, gc_CodeScanningOptions = None, gc_BypassOptions = None\<rparr>
      | Some r \<Rightarrow>
          (let s = cr_Spec r in
           case toSecretScanningDelegatedBypassOptions (cc_BypassOptions s) of
             None \<Rightarrow> None
           | Some b \<Rightarrow> Some \<lparr>gc_ID = None, gc_TargetType = None, gc_Name = cc_Name s, gc_Description = cc_Description s, gc_settings = cc_settings s,
               gc_AutosubmitOptions = cc_AutosubmitOptions s, gc_SetupOptions = cc_SetupOptions s, gc_CodeScanningOptions = cc_CodeScanningOptions s,
               gc_BypassOptions = b\<rparr>))"

text \<open>Two strings read with their getters, and options that are both nil or both given.\<close>

definition same_str :: "string option \<Rightarrow> string option \<Rightarrow> bool" where
  "same_str x y \<longleftrightarrow> WithDefault x [] = WithDefault y []"

definition dependencyGraphAutosubmitActionOptionsEqual :: "bool option option \<Rightarrow> bool option option \<Rightarrow> bool" where
  "dependencyGraphAutosubmitActionOptionsEqual x y \<longleftrightarrow>
     (case (x, y) of (None, None) \<Rightarrow> True | (Some a, Some b) \<Rightarrow> WithDefault a False = WithDefault b False | _ \<Rightarrow> False)"

definition codeScanningDefaultSetupOptionsEqual :: "csc_setup_options option \<Rightarrow> csc_setup_options option \<Rightarrow> bool" where
  "codeScanningDefaultSetupOptionsEqual x y \<longleftrightarrow>
     (case (x, y) of
        (None, None) \<Rightarrow> True
      | (Some a, Some b) \<Rightarrow> so_RunnerType a = so_RunnerType b \<and> same_str (so_RunnerLabel a) (so_RunnerLabel b)
      | _ \<Rightarrow> False)"

definition codeScanningOptionsEqual :: "bool option option \<Rightarrow> bool option option \<Rightarrow> bool" where
  "codeScanningOptionsEqual x y \<longleftrightarrow>
     (case (x, y) of (None, None) \<Rightarrow> True | (Some a, Some b) \<Rightarrow> WithDefault a False = WithDefault b False | _ \<Rightarrow> False)"

definition csc_settings_same :: "csc_settings \<Rightarrow> csc_settings \<Rightarrow> bool" where
  "csc_settings_same a b \<longleftrightarrow>
     same_str (cs_AdvancedSecurity a) (cs_AdvancedSecurity b) \<and> same_str (cs_DependencyGraph a) (cs_DependencyGraph b) \<and>
     same_str (cs_DependencyGraphAutosubmitAction a) (cs_DependencyGraphAutosubmitAction b) \<and>
     same_str (cs_DependabotAlerts a) (cs_DependabotAlerts b) \<and> same_str (cs_DependabotSecurityUpdates a) (cs_DependabotSecurityUpdates b) \<and>
     same_str (cs_CodeScanningDefaultSetup a) (cs_CodeScanningDefaultSetup b) \<and>
     same_str (cs_CodeScanningDelegatedAlertDismissal a) (cs_CodeScanningDelegatedAlertDismissal b) \<and>
     same_str (cs_CodeSecurity a) (cs_CodeSecurity b) \<and> same_str (cs_SecretScanning a) (cs_SecretScanning b) \<and>
     same_str (cs_SecretScanningPushProtection a) (cs_SecretScanningPushProtection b) \<and>
     same_str (cs_SecretScanningValidityChecks a) (cs_SecretScanningValidityChecks b) \<and>
     same_str (cs_SecretScanningNonProviderPatterns a) (cs_SecretScanningNonProviderPatterns b) \<and>
     same_str (cs_SecretScanningGenericSecrets a) (cs_SecretScanningGenericSecrets b) \<and>
     same_str (cs_SecretScanningDelegatedAlertDismissal a) (cs_SecretScanningDelegatedAlertDismissal b) \<and>
     same_str (cs_SecretProtection a) (cs_SecretProtection b) \<and> same_str (cs_PrivateVulnerabilityReporting a) (cs_PrivateVulnerabilityReporting b) \<and>
     same_str (cs_Enforcement a) (cs_Enforcement b)"

definition CodeSecurityConfigurationsDiffer :: "gh_csc option \<Rightarrow> gh_csc option \<Rightarrow> bool" where
  "CodeSecurityConfigurationsDiffer x y \<longleftrightarrow>
     (case (x, y) of
        (None, None) \<Rightarrow> True
      | (Some a, Some b) \<Rightarrow>
          gc_Name a \<noteq> gc_Name b \<or> gc_Description a \<noteq> gc_Description b \<or> \<not> csc_settings_same (gc_settings a) (gc_settings b) \<or>
          \<not> dependencyGraphAutosubmitActionOptionsEqual (gc_AutosubmitOptions a) (gc_AutosubmitOptions b) \<or>
          \<not> codeScanningDefaultSetupOptionsEqual (gc_SetupOptions a) (gc_SetupOptions b) \<or>
          \<not> codeScanningOptionsEqual (gc_CodeScanningOptions a) (gc_CodeScanningOptions b)
      | _ \<Rightarrow> False)"

section \<open>The API\<close>

datatype csc_call =
    SetCscDefault int string
  | UpdateCsc int gh_csc
  | CreateCsc gh_csc
  | DeleteCsc int
  | AttachCsc int string "int list option"
  | QueryAttachments int

record csc_attachment =
  at_Status :: string
  at_RepoName :: string

record csc_repo =
  sr_ID :: "int option"
  sr_Name :: "string option"
  sr_Visibility :: string

record csc_k8s_repo =
  kr_MetaName :: string
  kr_SpecName :: string
  kr_StatusID :: "int option"

text \<open>What a wait sees before its timer fires: a tick of its ticker, or the end of the context.\<close>

datatype wait_event = Tick | ContextDone go_error

record csc_api =
  ca_Get :: "string \<Rightarrow> (go_error, csc_resource) result"
  ca_GetDefaults :: "csc_call list \<Rightarrow> (go_error, gh_csc list) result"
  ca_GetConfigurations :: "csc_call list \<Rightarrow> (go_error, gh_csc list) result"
  ca_Update :: "csc_call list \<Rightarrow> int \<Rightarrow> gh_csc \<Rightarrow> (go_error, gh_csc) result"
  ca_Create :: "csc_call list \<Rightarrow> gh_csc \<Rightarrow> (go_error, gh_csc) result"
  ca_SetDefault :: "csc_call list \<Rightarrow> int \<Rightarrow> string \<Rightarrow> go_error option"
  ca_Delete :: "csc_call list \<Rightarrow> int \<Rightarrow> go_error option"
  ca_Attach :: "csc_call list \<Rightarrow> int \<Rightarrow> string \<Rightarrow> int list option \<Rightarrow> go_error option"
  ca_Attachments :: "csc_call list \<Rightarrow> int \<Rightarrow> (go_error, csc_attachment list option) result"
  ca_GetOrgRepositories :: "csc_call list \<Rightarrow> (go_error, csc_repo list) result"
  ca_List :: "string \<Rightarrow> (go_error, csc_k8s_repo list) result"
  ca_GetRepository :: "csc_call list \<Rightarrow> string \<Rightarrow> (go_error, int option) result"
  ca_events :: "csc_call list \<Rightarrow> wait_event list"

record csc_orders =
  co_defaults :: "(string \<times> gh_csc) list \<Rightarrow> (string \<times> gh_csc) list"
  co_configs :: "(string \<times> gh_csc) list \<Rightarrow> (string \<times> gh_csc) list"
  co_seen :: "(string \<times> string option \<times> int) list \<Rightarrow> (string \<times> string option \<times> int) list"
  co_ids :: "(string \<times> int) list \<Rightarrow> (string \<times> int) list"

definition csc_orders_ok :: "csc_orders \<Rightarrow> bool" where
  "csc_orders_ok od \<longleftrightarrow> range_order (co_defaults od) \<and> range_order (co_configs od) \<and> range_order (co_seen od) \<and> range_order (co_ids od)"

section \<open>Attachments\<close>

fun status_loop :: "bool \<Rightarrow> csc_attachment list \<Rightarrow> (go_error, bool) result" where
  "status_loop strict [] = Inr True"
| "status_loop strict (a # as) =
     (if at_Status a = ''attaching'' \<or> at_Status a = ''updating'' then Inr False
      else if List.member [''detached'', ''removed'', ''failed''] (at_Status a)
      then (if strict then Inl (PlainError (''encountered failed attachment status: '' @ at_Status a)) else Inr False)
      else status_loop strict as)"

text \<open>nil stands for attachments that are not finished.\<close>

definition getAttachmentsIfAllAttached ::
    "csc_api \<Rightarrow> bool \<Rightarrow> int \<Rightarrow> csc_call list \<Rightarrow> csc_call list \<times> (go_error, csc_attachment list option) result" where
  "getAttachmentsIfAllAttached api strict i h =
     (h @ [QueryAttachments i],
      case ca_Attachments api h i of
        Inl e \<Rightarrow> Inl e
      | Inr as \<Rightarrow> (case status_loop strict (WithDefault as []) of Inl e \<Rightarrow> Inl e | Inr True \<Rightarrow> Inr as | Inr False \<Rightarrow> Inr None))"

fun poll :: "csc_api \<Rightarrow> int \<Rightarrow> wait_event list \<Rightarrow> csc_call list \<Rightarrow> csc_call list \<times> (go_error, csc_attachment list option) result" where
  "poll api i [] h = (h, Inl (PlainError ''timeout waiting for code security configuration attachment to complete''))"
| "poll api i (ContextDone e # evs) h = (h, Inl e)"
| "poll api i (Tick # evs) h =
     (case getAttachmentsIfAllAttached api True i h of
        (h1, Inl e) \<Rightarrow> (h1, Inl e)
      | (h1, Inr (Some as)) \<Rightarrow> (h1, Inr (Some as))
      | (h1, Inr None) \<Rightarrow> poll api i evs h1)"

definition getAndWaitForFinishedAttachments :: "csc_api \<Rightarrow> int \<Rightarrow> csc_call list \<Rightarrow> csc_call list \<times> (go_error, csc_attachment list option) result" where
  "getAndWaitForFinishedAttachments api i h =
     (case getAttachmentsIfAllAttached api False i h of
        (h1, Inl e) \<Rightarrow> (h1, Inl e)
      | (h1, Inr (Some as)) \<Rightarrow> (h1, Inr (Some as))
      | (h1, Inr None) \<Rightarrow> poll api i (ca_events api h1) h1)"

definition is_accepted :: "go_error \<Rightarrow> unit option" where
  "is_accepted e = (case e of AcceptedError m \<Rightarrow> Some () | _ \<Rightarrow> None)"

definition attachToRepos :: "csc_api \<Rightarrow> string \<Rightarrow> int \<Rightarrow> int list option \<Rightarrow> csc_call list \<Rightarrow> csc_call list \<times> go_error option" where
  "attachToRepos api scope i ids h =
     (let h1 = h @ [AttachCsc i scope ids] in
      case ca_Attach api h i scope ids of
        None \<Rightarrow> (h1, None)
      | Some e \<Rightarrow>
          (if errors_As is_accepted e \<noteq> None
           then (case getAndWaitForFinishedAttachments api i h1 of (h2, Inl e2) \<Rightarrow> (h2, Some e2) | (h2, Inr as) \<Rightarrow> (h2, None))
           else (h1, Some e)))"

fun selected_loop :: "csc_api \<Rightarrow> csc_call list \<Rightarrow> csc_k8s_repo list \<Rightarrow> (string, int) gomap \<Rightarrow> (go_error, (string, int) gomap) result" where
  "selected_loop api h [] m = Inr m"
| "selected_loop api h (r # rs) m =
     (case kr_StatusID r of
        Some i \<Rightarrow> selected_loop api h rs (map_put (kr_MetaName r) i m)
      | None \<Rightarrow>
          (case ca_GetRepository api h (kr_SpecName r) of
             Inl e \<Rightarrow> Inl e
           | Inr None \<Rightarrow> Inl (PlainError (''repository '' @ kr_SpecName r @ '' has no ID in GitHub, cannot attach code security configuration''))
           | Inr (Some i) \<Rightarrow> selected_loop api h rs (map_put (kr_MetaName r) i m)))"

definition getSelectedAttachedRepoNamesToIDs :: "csc_api \<Rightarrow> csc_call list \<Rightarrow> string \<Rightarrow> (go_error, (string, int) gomap) result" where
  "getSelectedAttachedRepoNamesToIDs api h k8sName = (case ca_List api k8sName of Inl e \<Rightarrow> Inl e | Inr rs \<Rightarrow> selected_loop api h rs [])"

definition in_scope :: "string \<Rightarrow> string \<Rightarrow> bool" where
  "in_scope scope visibility \<longleftrightarrow>
     (if scope = ''public'' then visibility = ''public''
      else if scope = ''private_or_internal'' then visibility = ''private'' \<or> visibility = ''internal''
      else scope = ''all'')"

definition scope_put :: "string \<Rightarrow> csc_repo \<Rightarrow> (string, int) gomap \<Rightarrow> (string, int) gomap" where
  "scope_put scope r m =
     (case (sr_ID r, sr_Name r) of (Some i, Some n) \<Rightarrow> if in_scope scope (sr_Visibility r) then map_put n i m else m | _ \<Rightarrow> m)"

definition getDesiredAttachmentsForScope :: "csc_api \<Rightarrow> csc_call list \<Rightarrow> string \<Rightarrow> string \<Rightarrow> (go_error, (string, int) gomap) result" where
  "getDesiredAttachmentsForScope api h scope k8sName =
     (if scope = ''selected'' then getSelectedAttachedRepoNamesToIDs api h k8sName
      else (case ca_GetOrgRepositories api h of Inl e \<Rightarrow> Inl e | Inr rs \<Rightarrow> Inr (fold (scope_put scope) rs [])))"

definition attachmentsDiffer :: "csc_attachment list \<Rightarrow> (string, int) gomap \<Rightarrow> bool" where
  "attachmentsDiffer current desired \<longleftrightarrow> length current \<noteq> length desired \<or> list_ex (\<lambda>a. map_get desired (at_RepoName a) = None) current"

definition attachCSC :: "csc_orders \<Rightarrow> csc_api \<Rightarrow> string \<Rightarrow> string \<Rightarrow> int \<Rightarrow> csc_call list \<Rightarrow> csc_call list \<times> go_error option" where
  "attachCSC od api scope k8sName i h =
     (if scope = ''all_without_configurations'' then attachToRepos api scope i None h
      else
        (case getAndWaitForFinishedAttachments api i h of
           (h1, Inl e) \<Rightarrow> (h1, Some e)
         | (h1, Inr current) \<Rightarrow>
             (case getDesiredAttachmentsForScope api h1 scope k8sName of
                Inl e \<Rightarrow> (h1, Some e)
              | Inr desired \<Rightarrow>
                  (if attachmentsDiffer (WithDefault current []) desired
                   then attachToRepos api scope i (if scope = ''selected'' then Some (map snd (co_ids od desired)) else None) h1
                   else (h1, None)))))"

section \<open>Configurations\<close>

definition targetTypeOrganization :: string where
  "targetTypeOrganization = ''organization''"

text \<open>\<^verbatim>\<open>byName\<close> with the filter both callers pass.\<close>

definition csc_byName :: "gh_csc list \<Rightarrow> (string, gh_csc) gomap" where
  "csc_byName cs = put_all gc_Name (\<lambda>c. c) (filter (\<lambda>c. WithDefault (gc_TargetType c) [] = targetTypeOrganization) cs) []"

fun default_names :: "csc_api \<Rightarrow> string list \<Rightarrow> string list \<Rightarrow> (go_error, string list) result" where
  "default_names api [] acc = Inr acc"
| "default_names api (ref # refs) acc =
     (case ca_Get api ref of
        Inl e \<Rightarrow> Inl e
      | Inr c \<Rightarrow>
          default_names api refs
            (if cc_DefaultForNewRepos (cr_Spec c) \<noteq> None \<and> cc_DefaultForNewRepos (cr_Spec c) \<noteq> Some ''none'' then cc_Name (cr_Spec c) # acc else acc))"

fun unset_loop :: "csc_api \<Rightarrow> string list \<Rightarrow> (string \<times> gh_csc) list \<Rightarrow> csc_call list \<Rightarrow> csc_call list \<times> go_error option" where
  "unset_loop api names [] h = (h, None)"
| "unset_loop api names ((n, c) # rest) h =
     (if List.member names n then unset_loop api names rest h
      else
        (let i = WithDefault (gc_ID c) 0; h1 = h @ [SetCscDefault i ''none''] in
         case ca_SetDefault api h i ''none'' of Some e \<Rightarrow> (h1, Some e) | None \<Rightarrow> unset_loop api names rest h1))"

definition unsetObsoleteDefaults :: "csc_orders \<Rightarrow> csc_api \<Rightarrow> string list \<Rightarrow> csc_call list \<Rightarrow> csc_call list \<times> go_error option" where
  "unsetObsoleteDefaults od api refs h =
     (case default_names api refs [] of
        Inl e \<Rightarrow> (h, Some e)
      | Inr names \<Rightarrow>
          (case ca_GetDefaults api h of
             Inl e \<Rightarrow> (h, Some e)
           | Inr ds \<Rightarrow> unset_loop api names (co_defaults od (csc_byName ds)) h))"

text \<open>The results of the steps on one configuration: the ID, an error, or the panic of the mapper.\<close>

datatype csc_result = CscOk int | CscErr go_error | CscPanic

definition set_default_for :: "csc_api \<Rightarrow> csc_spec \<Rightarrow> int \<Rightarrow> int \<Rightarrow> csc_call list \<Rightarrow> csc_call list \<times> csc_result" where
  "set_default_for api s i result h =
     (case cc_DefaultForNewRepos s of
        None \<Rightarrow> (h, CscOk result)
      | Some d \<Rightarrow> (h @ [SetCscDefault i d], case ca_SetDefault api h i d of Some e \<Rightarrow> CscErr e | None \<Rightarrow> CscOk result))"

definition updateCsc :: "csc_api \<Rightarrow> csc_resource \<Rightarrow> gh_csc \<Rightarrow> csc_call list \<Rightarrow> csc_call list \<times> csc_result" where
  "updateCsc api desired current h =
     (case ToGithubCodeSecurityConfiguration (Some desired) of
        None \<Rightarrow> (h, CscPanic)
      | Some q \<Rightarrow>
          (let i = WithDefault (gc_ID current) 0 in
           if CodeSecurityConfigurationsDiffer (Some q) (Some current)
           then
             (let h1 = h @ [UpdateCsc i q] in
              case ca_Update api h i q of
                Inl e \<Rightarrow> (h1, CscErr e)
              | Inr g \<Rightarrow> set_default_for api (cr_Spec desired) (WithDefault (gc_ID g) 0) i h1)
           else (h, CscOk i)))"

definition createCsc :: "csc_api \<Rightarrow> csc_resource \<Rightarrow> csc_call list \<Rightarrow> csc_call list \<times> csc_result" where
  "createCsc api conf h =
     (case ToGithubCodeSecurityConfiguration (Some conf) of
        None \<Rightarrow> (h, CscPanic)
      | Some q \<Rightarrow>
          (let h1 = h @ [CreateCsc q] in
           case ca_Create api h q of
             Inl e \<Rightarrow> (h1, CscErr e)
           | Inr g \<Rightarrow> set_default_for api (cr_Spec conf) (WithDefault (gc_ID g) 0) (WithDefault (gc_ID g) 0) h1))"

definition deleteCsc :: "csc_api \<Rightarrow> gh_csc \<Rightarrow> csc_call list \<Rightarrow> csc_call list \<times> go_error option" where
  "deleteCsc api c h = (let i = WithDefault (gc_ID c) 0 in (h @ [DeleteCsc i], ca_Delete api h i))"

text \<open>The step for one reference: an update or a creation, by the name of the resource.\<close>

definition csc_step :: "csc_api \<Rightarrow> (string, gh_csc) gomap \<Rightarrow> string \<Rightarrow> csc_resource \<Rightarrow> csc_call list \<Rightarrow> csc_call list \<times> csc_result" where
  "csc_step api confs k8sName c h = (case map_get confs k8sName of Some m \<Rightarrow> updateCsc api c m h | None \<Rightarrow> createCsc api c h)"

datatype csc_outcome = CscDone "go_error option" | CscCrashed

text \<open>The resolver is the one of \<^verbatim>\<open>common/idresolver\<close>; it may refresh its maps in one round and then keeps them for the next.\<close>

definition resolve_csc :: "id_client \<Rightarrow> id_resolver \<Rightarrow> csc_resource \<Rightarrow> id_resolver \<times> (go_error, csc_resource) result" where
  "resolve_csc cl idr c =
     (case ResolveCscBypassReviewers cl idr (cc_BypassOptions (cr_Spec c)) of
        (idr2, Inl e) \<Rightarrow> (idr2, Inl e)
      | (idr2, Inr bs) \<Rightarrow> (idr2, Inr (c\<lparr>cr_Spec := (cr_Spec c)\<lparr>cc_BypassOptions := bs\<rparr>\<rparr>)))"

fun csc_loop ::
    "csc_api \<Rightarrow> id_client \<Rightarrow> (string, gh_csc) gomap \<Rightarrow> (string \<times> string option) list \<Rightarrow> id_resolver \<Rightarrow> (string, string option \<times> int) gomap \<Rightarrow> csc_call list \<Rightarrow>
     csc_call list \<times> (csc_outcome, (string, string option \<times> int) gomap) result" where
  "csc_loop api cl confs [] idr seen h = (h, Inr seen)"
| "csc_loop api cl confs ((ref, scope) # refs) idr seen h =
     (case ca_Get api ref of
        Inl e \<Rightarrow> (h, Inl (CscDone (Some e)))
      | Inr c0 \<Rightarrow>
          (case resolve_csc cl idr c0 of
             (idr2, Inl e) \<Rightarrow> (h, Inl (CscDone (Some e)))
           | (idr2, Inr c) \<Rightarrow>
               (case csc_step api confs (cr_MetaName c0) c h of
                  (h1, CscErr e) \<Rightarrow> (h1, Inl (CscDone (Some e)))
                | (h1, CscPanic) \<Rightarrow> (h1, Inl CscCrashed)
                | (h1, CscOk i) \<Rightarrow> csc_loop api cl confs refs idr2 (map_put (cr_MetaName c0) (scope, i) seen) h1)))"

fun delete_loop_csc :: "csc_api \<Rightarrow> (string, string option \<times> int) gomap \<Rightarrow> (string \<times> gh_csc) list \<Rightarrow> csc_call list \<Rightarrow> csc_call list \<times> go_error option" where
  "delete_loop_csc api seen [] h = (h, None)"
| "delete_loop_csc api seen ((n, c) # rest) h =
     (if map_get seen n \<noteq> None then delete_loop_csc api seen rest h
      else (case deleteCsc api c h of (h1, Some e) \<Rightarrow> (h1, Some e) | (h1, None) \<Rightarrow> delete_loop_csc api seen rest h1))"

fun attach_loop :: "csc_orders \<Rightarrow> csc_api \<Rightarrow> (string \<times> string option \<times> int) list \<Rightarrow> csc_call list \<Rightarrow> csc_call list \<times> go_error option" where
  "attach_loop od api [] h = (h, None)"
| "attach_loop od api ((k8sName, scope, i) # rest) h =
     (case scope of
        None \<Rightarrow> attach_loop od api rest h
      | Some s \<Rightarrow> (case attachCSC od api s k8sName i h of (h1, Some e) \<Rightarrow> (h1, Some e) | (h1, None) \<Rightarrow> attach_loop od api rest h1))"

definition reconcileCodeSecurityConfigurations ::
    "csc_orders \<Rightarrow> csc_api \<Rightarrow> id_client \<Rightarrow> id_resolver \<Rightarrow> string \<Rightarrow> (string \<times> string option) list \<Rightarrow> csc_call list \<Rightarrow> csc_call list \<times> csc_outcome" where
  "reconcileCodeSecurityConfigurations od api cl idr plan refs h =
     (case unsetObsoleteDefaults od api (map fst refs) h of
        (h1, Some e) \<Rightarrow> (h1, CscDone (Some e))
      | (h1, None) \<Rightarrow>
          (case ca_GetConfigurations api h1 of
             Inl e \<Rightarrow> (h1, CscDone (Some e))
           | Inr cs \<Rightarrow>
               (if \<not> HasEnterpriseFeatures plan then (h1, CscDone None)
                else
                  (let confs = csc_byName cs in
                   case csc_loop api cl confs refs idr [] h1 of
                     (h2, Inl out) \<Rightarrow> (h2, out)
                   | (h2, Inr seen) \<Rightarrow>
                       (case delete_loop_csc api seen (co_configs od confs) h2 of
                          (h3, Some e) \<Rightarrow> (h3, CscDone (Some e))
                        | (h3, None) \<Rightarrow> (case attach_loop od api (co_seen od seen) h3 of (h4, e) \<Rightarrow> (h4, CscDone e)))))))"

section \<open>The order of the calls\<close>

fun is_unset :: "csc_call \<Rightarrow> bool" where
  "is_unset (SetCscDefault i d) = (d = ''none'')"
| "is_unset _ = False"

fun is_config :: "csc_call \<Rightarrow> bool" where
  "is_config (SetCscDefault i d) = True"
| "is_config (UpdateCsc i q) = True"
| "is_config (CreateCsc q) = True"
| "is_config _ = False"

fun is_attach :: "csc_call \<Rightarrow> bool" where
  "is_attach (AttachCsc i s ids) = True"
| "is_attach (QueryAttachments i) = True"
| "is_attach _ = False"

text \<open>The steps append calls of one kind to the history.\<close>

definition extends_by :: "('c \<Rightarrow> bool) \<Rightarrow> 'c list \<Rightarrow> 'c list \<Rightarrow> bool" where
  "extends_by P h h' \<longleftrightarrow> (\<exists>cs. h' = h @ cs \<and> list_all P cs)"

lemma extends_refl [simp]: "extends_by P h h"
  by (simp add: extends_by_def)

lemma extends_snoc [simp]: "extends_by P h (h @ [c]) \<longleftrightarrow> P c"
  by (simp add: extends_by_def)

lemma extends_trans: "extends_by P h h1 \<Longrightarrow> extends_by P h1 h2 \<Longrightarrow> extends_by P h h2"
  by (auto simp: extends_by_def)

lemma unset_loop_calls: "extends_by is_unset h (fst (unset_loop api names cs h))"
proof (induction api names cs h rule: unset_loop.induct)
  case (2 api names n c rest h)
  let ?c = "SetCscDefault (WithDefault (gc_ID c) 0) ''none''"
  have s: "extends_by is_unset h (h @ [?c])" by simp
  show ?case
  proof (cases "List.member names n")
    case True
    then show ?thesis using "2.IH"(1) by simp
  next
    case False
    then show ?thesis using s extends_trans [OF s "2.IH"(2) [OF False refl refl]]
      by (cases "ca_SetDefault api h (WithDefault (gc_ID c) 0) ''none''") (simp_all add: Let_def del: List.member_iff extends_snoc)
  qed
qed simp

lemma unset_calls: "extends_by is_unset h (fst (unsetObsoleteDefaults od api refs h))"
  using unset_loop_calls by (simp add: unsetObsoleteDefaults_def split: sum.split)

lemma set_default_calls: "extends_by is_config h (fst (set_default_for api s i r h))"
  by (simp add: set_default_for_def split: option.split)

lemma update_calls: "extends_by is_config h (fst (updateCsc api c g h))"
proof -
  have "extends_by is_config h (fst (set_default_for api s i r (h @ [UpdateCsc j q])))" for s i r j q
    by (rule extends_trans [OF _ set_default_calls]) simp
  then show ?thesis by (simp add: updateCsc_def Let_def split: option.split sum.split)
qed

lemma create_calls: "extends_by is_config h (fst (createCsc api c h))"
proof -
  have "extends_by is_config h (fst (set_default_for api s i r (h @ [CreateCsc q])))" for s i r q
    by (rule extends_trans [OF _ set_default_calls]) simp
  then show ?thesis by (simp add: createCsc_def Let_def split: option.split sum.split)
qed

lemma csc_step_calls: "extends_by is_config h (fst (csc_step api confs n c h))"
  using update_calls create_calls by (simp add: csc_step_def split: option.split)

lemmas csc_loop_step = csc_loop.simps(2)

declare csc_loop_step [simp del]

text \<open>What one round of the loop did when it went on.\<close>

lemma csc_loop_ConsE:
  assumes "csc_loop api cl confs ((ref, scope) # refs) idr seen h = (h', Inr seen')"
  obtains c0 idr2 c h1 i where "ca_Get api ref = Inr c0" and "resolve_csc cl idr c0 = (idr2, Inr c)"
    and "csc_step api confs (cr_MetaName c0) c h = (h1, CscOk i)" and "csc_loop api cl confs refs idr2 (map_put (cr_MetaName c0) (scope, i) seen) h1 = (h', Inr seen')"
  using assms unfolding csc_loop_step by (auto split: sum.splits prod.splits csc_result.splits)

lemma csc_loop_calls: "extends_by is_config h (fst (csc_loop api cl confs refs idr seen h))"
proof (induction refs arbitrary: idr seen h)
  case (Cons r refs)
  obtain ref scope where r: "r = (ref, scope)" by fastforce
  show ?case
  proof (cases "ca_Get api ref")
    case (Inl e)
    then show ?thesis by (simp add: r csc_loop_step)
  next
    case get: (Inr c0)
    obtain idr2 res where rs: "resolve_csc cl idr c0 = (idr2, res)" by fastforce
    show ?thesis
    proof (cases res)
      case (Inl e)
      then show ?thesis using get rs by (simp add: r csc_loop_step)
    next
      case (Inr c)
      obtain h1 out where s: "csc_step api confs (cr_MetaName c0) c h = (h1, out)" by fastforce
      then have "extends_by is_config h h1" using csc_step_calls [of h api confs "cr_MetaName c0" c] by simp
      then show ?thesis using extends_trans [OF _ Cons.IH] get rs Inr s by (simp add: r csc_loop_step split: csc_result.split)
    qed
  qed
qed simp

lemma csc_loop_seen:
  assumes "csc_loop api cl confs refs idr seen h = (h', Inr seen')"
  shows "map_get seen' n \<noteq> None \<longleftrightarrow> map_get seen n \<noteq> None \<or> (\<exists>(ref, scope) \<in> set refs. \<exists>c. ca_Get api ref = Inr c \<and> cr_MetaName c = n)"
  using assms
proof (induction refs arbitrary: idr seen h)
  case (Cons r refs)
  obtain ref scope where r: "r = (ref, scope)" by fastforce
  obtain c0 idr2 i h1 where s: "ca_Get api ref = Inr c0" "csc_loop api cl confs refs idr2 (map_put (cr_MetaName c0) (scope, i) seen) h1 = (h', Inr seen')"
    using Cons.prems csc_loop_ConsE unfolding r by metis
  from Cons.IH [OF s(2)] show ?case using s(1) by (auto simp: r)
qed simp

lemma csc_delete_calls:
  "extends_by (\<lambda>x. \<exists>(n, c) \<in> set cs. map_get seen n = None \<and> x = DeleteCsc (WithDefault (gc_ID c) 0)) h (fst (delete_loop_csc api seen cs h))"
proof (induction cs arbitrary: h)
  case (Cons x cs)
  obtain n c where x: "x = (n, c)" by fastforce
  let ?P = "\<lambda>cs y. \<exists>(n, c) \<in> set cs. map_get seen n = None \<and> y = DeleteCsc (WithDefault (gc_ID c) 0)"
  have mono: "extends_by (?P (x # cs)) h1 (fst (delete_loop_csc api seen cs h1))" for h1
    using Cons.IH [of h1] by (auto simp: extends_by_def list_all_iff)
  show ?case
  proof (cases "map_get seen n")
    case None
    then have "extends_by (?P (x # cs)) h (h @ [DeleteCsc (WithDefault (gc_ID c) 0)])" by (auto simp: x)
    then show ?thesis using extends_trans [OF _ mono] None by (simp add: x deleteCsc_def Let_def split: option.split)
  next
    case (Some v)
    then show ?thesis using mono by (simp add: x)
  qed
qed simp

section \<open>Waiting for attachments\<close>

definition attachment_done :: "csc_attachment \<Rightarrow> bool" where
  "attachment_done a \<longleftrightarrow> \<not> List.member [''attaching'', ''updating'', ''detached'', ''removed'', ''failed''] (at_Status a)"

lemma status_loop_True: "status_loop strict as = Inr True \<longleftrightarrow> list_all attachment_done as"
proof (induction as)
  case (Cons a as)
  then show ?case
    by (cases "at_Status a = ''attaching'' \<or> at_Status a = ''updating''"; cases "List.member [''detached'', ''removed'', ''failed''] (at_Status a)"; cases strict)
      (auto simp: attachment_done_def)
qed simp

lemma attachments_calls: "fst (getAttachmentsIfAllAttached api strict i h) = h @ [QueryAttachments i]"
  by (simp add: getAttachmentsIfAllAttached_def)

lemma attachments_result:
  assumes "getAttachmentsIfAllAttached api strict i h = (h', Inr (Some as))"
  shows "h' = h @ [QueryAttachments i]" and "ca_Attachments api h i = Inr (Some as)" and "list_all attachment_done as"
  using assms by (auto simp: getAttachmentsIfAllAttached_def status_loop_True split: sum.splits bool.splits)

lemma poll_calls: "\<exists>n. fst (poll api i evs h) = h @ replicate n (QueryAttachments i) \<and> n \<le> length evs"
proof (induction api i evs h rule: poll.induct)
  case (3 api i evs h)
  obtain h1 r where g: "getAttachmentsIfAllAttached api True i h = (h1, r)" by fastforce
  then have h1: "h1 = h @ [QueryAttachments i]" using attachments_calls [of api True i h] by simp
  show ?case
  proof (cases "r = Inr None")
    case True
    then obtain n where "fst (poll api i evs h1) = h1 @ replicate n (QueryAttachments i)" "n \<le> length evs" using "3.IH" [OF g [symmetric] True refl] by blast
    then show ?thesis using g True h1 by (intro exI [of _ "Suc n"]) simp
  next
    case False
    then show ?thesis using g h1 by (intro exI [of _ 1]) (auto split: sum.splits option.splits)
  qed
qed simp_all

lemma poll_sound:
  assumes "poll api i evs h = (h', Inr x)"
  shows "\<exists>as h0. x = Some as \<and> h' = h0 @ [QueryAttachments i] \<and> ca_Attachments api h0 i = Inr (Some as) \<and> list_all attachment_done as"
  using assms
proof (induction api i evs h rule: poll.induct)
  case (3 api i evs h)
  obtain h1 r where g: "getAttachmentsIfAllAttached api True i h = (h1, r)" by fastforce
  show ?case
  proof (cases "r = Inr None")
    case True
    then show ?thesis using "3.IH" [OF g [symmetric] True refl] "3.prems" g by simp
  next
    case False
    then obtain as where "r = Inr (Some as)" "x = Some as" "h' = h1" using "3.prems" g by (auto split: sum.splits option.splits)
    then show ?thesis using attachments_result [of api True i h h1 as] g by blast
  qed
qed simp_all

lemma wait_cases:
  obtains (first) r where "getAndWaitForFinishedAttachments api i h = (h @ [QueryAttachments i], r)" "r \<noteq> Inr None" "getAttachmentsIfAllAttached api False i h = (h @ [QueryAttachments i], r)"
    | (polled) "getAndWaitForFinishedAttachments api i h = poll api i (ca_events api (h @ [QueryAttachments i])) (h @ [QueryAttachments i])"
proof -
  obtain r where g: "getAttachmentsIfAllAttached api False i h = (h @ [QueryAttachments i], r)"
    using attachments_calls [of api False i h] by (cases "getAttachmentsIfAllAttached api False i h") auto
  show thesis
  proof (cases "r = Inr None")
    case True
    then show thesis using polled g by (simp add: getAndWaitForFinishedAttachments_def)
  next
    case False
    then have "getAndWaitForFinishedAttachments api i h = (h @ [QueryAttachments i], r)"
      using g by (cases r) (auto simp: getAndWaitForFinishedAttachments_def split: option.split)
    then show thesis using first g False by blast
  qed
qed

lemma wait_queries:
  "\<exists>n. fst (getAndWaitForFinishedAttachments api i h) = h @ replicate n (QueryAttachments i) \<and> 0 < n \<and> n \<le> Suc (length (ca_events api (h @ [QueryAttachments i])))"
proof (cases rule: wait_cases [of api i h])
  case (first r)
  then show ?thesis by (intro exI [of _ 1]) simp
next
  case polled
  obtain n where "fst (poll api i (ca_events api (h @ [QueryAttachments i])) (h @ [QueryAttachments i])) = (h @ [QueryAttachments i]) @ replicate n (QueryAttachments i)"
      "n \<le> length (ca_events api (h @ [QueryAttachments i]))"
    using poll_calls by blast
  then show ?thesis unfolding polled by (intro exI [of _ "Suc n"]) simp
qed

lemma wait_result:
  assumes "getAndWaitForFinishedAttachments api i h = (h', Inr x)"
  shows "\<exists>as h0. x = Some as \<and> h' = h0 @ [QueryAttachments i] \<and> ca_Attachments api h0 i = Inr (Some as) \<and> list_all attachment_done as"
proof (cases rule: wait_cases [of api i h])
  case (first r)
  then obtain as where "r = Inr (Some as)" "x = Some as" "h' = h @ [QueryAttachments i]" using assms by (cases x) auto
  then show ?thesis using attachments_result [of api False i h h' as] first(3) by auto
next
  case polled
  then show ?thesis using poll_sound assms by metis
qed

text \<open>Waiting for attachments ends with a verdict, and one that can be relied on. It makes at most one query more than the ticker ticks before the timer fires; and if it returns attachments,
  they are the last answer of GitHub, and none of them is in progress or has failed.\<close>

lemma wait_for_attachments_sound:
  "\<exists>n h' r. getAndWaitForFinishedAttachments api i h = (h', r) \<and> h' = h @ replicate n (QueryAttachments i) \<and> 0 < n \<and>
     n \<le> Suc (length (ca_events api (h @ [QueryAttachments i]))) \<and>
     (case r of
        Inl e \<Rightarrow> True
      | Inr x \<Rightarrow> \<exists>as h0. x = Some as \<and> h' = h0 @ [QueryAttachments i] \<and> ca_Attachments api h0 i = Inr (Some as) \<and> list_all attachment_done as)"
proof -
  obtain h' r where w: "getAndWaitForFinishedAttachments api i h = (h', r)" by fastforce
  moreover obtain n where "h' = h @ replicate n (QueryAttachments i) \<and> 0 < n \<and> n \<le> Suc (length (ca_events api (h @ [QueryAttachments i])))"
    using wait_queries [of api i h] w by auto
  moreover have "case r of Inl e \<Rightarrow> True
      | Inr x \<Rightarrow> \<exists>as h0. x = Some as \<and> h' = h0 @ [QueryAttachments i] \<and> ca_Attachments api h0 i = Inr (Some as) \<and> list_all attachment_done as"
    using wait_result w by (cases r) auto
  ultimately show ?thesis by blast
qed

text \<open>An attachment that has failed is not retried: the wait ends with an error at the next tick, if it is still there.\<close>

lemma failed_attachment_not_retried:
  assumes "ca_Attachments api h i = Inr (Some [a])" and "at_Status a = ''failed''"
    and "ca_events api (h @ [QueryAttachments i]) = Tick # evs" and "ca_Attachments api (h @ [QueryAttachments i]) i = Inr (Some [a])"
    and "scope \<noteq> ''all_without_configurations''"
  shows "attachCSC od api scope n i h = (h @ [QueryAttachments i, QueryAttachments i], Some (PlainError ''encountered failed attachment status: failed''))"
  using assms by (simp add: attachCSC_def getAndWaitForFinishedAttachments_def getAttachmentsIfAllAttached_def)

section \<open>A run, whatever GitHub answers\<close>

lemma wait_calls: "extends_by is_attach h (fst (getAndWaitForFinishedAttachments api i h))"
  using wait_queries [of api i h] by (auto simp: extends_by_def list_all_iff)

lemma attach_to_calls: "extends_by is_attach h (fst (attachToRepos api scope i ids h))"
proof -
  have "extends_by is_attach h (fst (getAndWaitForFinishedAttachments api i (h @ [AttachCsc i scope ids])))"
    by (rule extends_trans [OF _ wait_calls]) simp
  then show ?thesis by (auto simp: attachToRepos_def Let_def split: option.split sum.split prod.split)
qed

lemma attach_calls: "extends_by is_attach h (fst (attachCSC od api scope n i h))"
proof (cases "scope = ''all_without_configurations''")
  case True
  then show ?thesis using attach_to_calls by (simp add: attachCSC_def)
next
  case False
  obtain h1 r where w: "getAndWaitForFinishedAttachments api i h = (h1, r)" by fastforce
  then have e: "extends_by is_attach h h1" using wait_calls [of h api i] by simp
  then have "extends_by is_attach h (fst (attachToRepos api scope i ids h1))" for ids using extends_trans attach_to_calls by blast
  then show ?thesis using False w e by (simp add: attachCSC_def split: sum.split)
qed

lemma attach_loop_calls: "extends_by is_attach h (fst (attach_loop od api xs h))"
proof (induction xs arbitrary: h)
  case (Cons x xs)
  obtain n scope i where x: "x = (n, scope, i)" by (metis prod_cases3)
  show ?case
  proof (cases scope)
    case None
    then show ?thesis using Cons.IH by (simp add: x)
  next
    case (Some s)
    obtain h1 r where a: "attachCSC od api s n i h = (h1, r)" by fastforce
    then have "extends_by is_attach h h1" using attach_calls [of h od api s n i] by simp
    then show ?thesis using Some a extends_trans [OF _ Cons.IH] by (simp add: x split: option.split)
  qed
qed simp

lemma csc_byName_ok: "gomap_ok (csc_byName cs)"
  by (simp add: csc_byName_def)

lemma csc_byName_get: "map_get (csc_byName cs) n = Some c \<Longrightarrow> c \<in> set cs \<and> gc_Name c = n \<and> WithDefault (gc_TargetType c) [] = targetTypeOrganization"
  using put_all_get_in [of gc_Name "\<lambda>c. c" "filter (\<lambda>c. WithDefault (gc_TargetType c) [] = targetTypeOrganization) cs" "[]" n c]
  by (auto simp: csc_byName_def)

lemma csc_byName_mem:
  assumes "csc_orders_ok od"
  shows "(n, c) \<in> set (co_configs od (csc_byName cs)) \<longleftrightarrow> map_get (csc_byName cs) n = Some c"
  using assms range_order_set [of "co_configs od" "csc_byName cs"] gomap_in_iff [OF csc_byName_ok] by (simp add: csc_orders_ok_def)

text \<open>C35: the calls of a run come in a fixed order, whatever GitHub answers: first obsolete defaults are unset, then configurations are created and updated, then others are deleted, and
  attachments come last. Something is deleted or attached only after all references were read and the list of configurations was obtained, and a deleted configuration belongs to the
  organization and has the name of no referenced resource.\<close>

theorem csc_calls_ordered:
  assumes "csc_orders_ok od"
  shows "\<exists>ds us xs as. fst (reconcileCodeSecurityConfigurations od api cl idr plan refs h) = h @ ds @ us @ xs @ as \<and>
    list_all is_unset ds \<and> list_all is_config us \<and> list_all is_attach as \<and>
    (us @ xs @ as \<noteq> [] \<longrightarrow> HasEnterpriseFeatures plan \<and>
      (\<exists>cs. ca_GetConfigurations api (h @ ds) = Inr cs \<and>
        (\<forall>x \<in> set xs. \<exists>c \<in> set cs. x = DeleteCsc (WithDefault (gc_ID c) 0) \<and> WithDefault (gc_TargetType c) [] = targetTypeOrganization \<and>
          (\<forall>(ref, scope) \<in> set refs. \<forall>r. ca_Get api ref = Inr r \<longrightarrow> cr_MetaName r \<noteq> gc_Name c))))"
proof -
  obtain h1 e1 where u: "unsetObsoleteDefaults od api (map fst refs) h = (h1, e1)" by fastforce
  then obtain ds where ds: "h1 = h @ ds" "list_all is_unset ds" using unset_calls [of h od api "map fst refs"] by (auto simp: extends_by_def)
  show ?thesis
  proof (cases "e1 = None \<and> HasEnterpriseFeatures plan \<and> (\<exists>cs. ca_GetConfigurations api h1 = Inr cs)")
    case False
    then have "fst (reconcileCodeSecurityConfigurations od api cl idr plan refs h) = h1"
      using u by (cases e1; cases "ca_GetConfigurations api h1") (auto simp: reconcileCodeSecurityConfigurations_def)
    then show ?thesis using ds by (intro exI [of _ ds] exI [of _ "[]"]) simp
  next
    case True
    then obtain cs where e: "e1 = None" "HasEnterpriseFeatures plan" and cs: "ca_GetConfigurations api h1 = Inr cs" by blast
    obtain h2 r where l: "csc_loop api cl (csc_byName cs) refs idr [] h1 = (h2, r)" by fastforce
    obtain us where us: "h2 = h1 @ us" "list_all is_config us" using csc_loop_calls [of h1 api cl "csc_byName cs" refs idr "[]"] l by (auto simp: extends_by_def)
    show ?thesis
    proof (cases r)
      case (Inl out)
      then have "fst (reconcileCodeSecurityConfigurations od api cl idr plan refs h) = h2" using u e cs l by (simp add: reconcileCodeSecurityConfigurations_def)
      then show ?thesis using ds us e cs by (intro exI [of _ ds] exI [of _ us] exI [of _ "[]"]) simp
    next
      case (Inr seen)
      obtain h3 e3 where d: "delete_loop_csc api seen (co_configs od (csc_byName cs)) h2 = (h3, e3)" by fastforce
      obtain xs where xs: "h3 = h2 @ xs"
          "list_all (\<lambda>x. \<exists>(n, c) \<in> set (co_configs od (csc_byName cs)). map_get seen n = None \<and> x = DeleteCsc (WithDefault (gc_ID c) 0)) xs"
        using csc_delete_calls [of "co_configs od (csc_byName cs)" seen h2 api] d by (auto simp: extends_by_def)
      obtain h4 e4 where at: "attach_loop od api (co_seen od seen) h3 = (h4, e4)" by fastforce
      then obtain bs where bs: "h4 = h3 @ bs" "list_all is_attach bs" using attach_loop_calls [of h3 od api "co_seen od seen"] by (auto simp: extends_by_def)
      have "\<exists>as. fst (reconcileCodeSecurityConfigurations od api cl idr plan refs h) = h3 @ as \<and> list_all is_attach as"
        using u e cs l Inr d at bs by (cases e3) (auto simp: reconcileCodeSecurityConfigurations_def)
      then obtain as where as: "fst (reconcileCodeSecurityConfigurations od api cl idr plan refs h) = h3 @ as" "list_all is_attach as" by blast
      have "\<exists>c \<in> set cs. x = DeleteCsc (WithDefault (gc_ID c) 0) \<and> WithDefault (gc_TargetType c) [] = targetTypeOrganization \<and>
          (\<forall>(ref, scope) \<in> set refs. \<forall>r. ca_Get api ref = Inr r \<longrightarrow> cr_MetaName r \<noteq> gc_Name c)" if "x \<in> set xs" for x
      proof -
        obtain n c where nc: "(n, c) \<in> set (co_configs od (csc_byName cs))" "map_get seen n = None" "x = DeleteCsc (WithDefault (gc_ID c) 0)"
          using xs(2) \<open>x \<in> set xs\<close> by (auto simp: list_all_iff)
        from csc_byName_get [of cs n c] nc(1) csc_byName_mem [OF assms]
        have c: "c \<in> set cs" "gc_Name c = n" "WithDefault (gc_TargetType c) [] = targetTypeOrganization" by auto
        have "\<forall>(ref, scope) \<in> set refs. \<forall>r. ca_Get api ref = Inr r \<longrightarrow> cr_MetaName r \<noteq> n"
          using csc_loop_seen [OF l [unfolded Inr], of n] nc(2) by blast
        then show ?thesis using c nc(3) by blast
      qed
      then show ?thesis using as ds us xs(1) e(2) cs by (intro exI [of _ ds] exI [of _ us] exI [of _ xs] exI [of _ as]) auto
    qed
  qed
qed

text \<open>A run that gets through deletes every configuration of the organization that has the name of no referenced resource, each once.\<close>

lemma delete_loop_exact:
  "delete_loop_csc api seen cs h = (h', None) \<Longrightarrow>
     h' = h @ map (\<lambda>(n, c). DeleteCsc (WithDefault (gc_ID c) 0)) (filter (\<lambda>(n, c). map_get seen n = None) cs)"
proof (induction cs arbitrary: h)
  case (Cons x cs)
  obtain n c where x: "x = (n, c)" by fastforce
  show ?case
  proof (cases "map_get seen n")
    case None
    then have "delete_loop_csc api seen cs (h @ [DeleteCsc (WithDefault (gc_ID c) 0)]) = (h', None)"
      using Cons.prems by (simp add: x deleteCsc_def Let_def split: option.splits)
    from Cons.IH [OF this] None show ?thesis by (simp add: x)
  next
    case (Some v)
    then show ?thesis using Cons.prems by (intro Cons.IH [THEN trans]) (simp_all add: x)
  qed
qed simp

section \<open>The comparison and the mapping\<close>

text \<open>What the operator compares when it decides on an update. The delegated bypass and its reviewers do not take part.\<close>

lemma bypass_not_compared:
  "CodeSecurityConfigurationsDiffer (Some (a\<lparr>gc_settings := (gc_settings a)\<lparr>cs_SecretScanningDelegatedBypass := x\<rparr>, gc_BypassOptions := y\<rparr>)) (Some b) =
   CodeSecurityConfigurationsDiffer (Some a) (Some b)"
  by (simp add: CodeSecurityConfigurationsDiffer_def csc_settings_same_def)

lemma those_mapped: "those (map f xs) = None \<longleftrightarrow> (\<exists>x \<in> set xs. f x = None)"
  by (induction xs) (auto split: option.splits)

text \<open>The mapper panics only on a reviewer without an ID, and the resolver leaves such a reviewer only when it has no name, or a type it does not know.\<close>

lemma mapper_panics_iff:
  "ToGithubCodeSecurityConfiguration (Some c) = None \<longleftrightarrow> (\<exists>v \<in> set (WithDefault (cc_BypassOptions (cr_Spec c)) []). br_ReviewerId v = None)"
  using those_mapped [of "\<lambda>r. map_option (\<lambda>i. (i, br_ReviewerType r)) (br_ReviewerId r)" "WithDefault (cc_BypassOptions (cr_Spec c)) []"]
  by (cases "cc_BypassOptions (cr_Spec c)")
     (auto simp del: not_None_eq simp: ToGithubCodeSecurityConfiguration_def toSecretScanningDelegatedBypassOptions_def Let_def WithDefault_def split: option.splits)

definition reviewer_complete :: "bypass_reviewer \<Rightarrow> bool" where
  "reviewer_complete v \<longleftrightarrow> br_ReviewerId v \<noteq> None \<or> br_ReviewerName v \<noteq> None \<and> (br_ReviewerType v = ''TEAM'' \<or> br_ReviewerType v = ''ROLE'')"

lemma resolved_reviewer_has_id:
  "reviewer_complete v \<Longrightarrow> resolve_bypass_reviewer r v = Inr w \<Longrightarrow> br_ReviewerId w \<noteq> None"
  by (cases "br_ReviewerName v") (auto simp: reviewer_complete_def resolve_bypass_reviewer_def split: if_splits sum.splits)

lemma map_result_members: "map_result f xs = Inr ys \<Longrightarrow> y \<in> set ys \<Longrightarrow> \<exists>x \<in> set xs. f x = Inr y"
  by (induction xs arbitrary: ys) (auto split: sum.splits)

lemma doResolve_ids:
  assumes "list_all reviewer_complete (WithDefault bs [])" and "doResolveCscBypassReviewers r bs = Inr bs'" and "v \<in> set (WithDefault bs' [])"
  shows "br_ReviewerId v \<noteq> None"
proof (cases bs)
  case None
  then show ?thesis using assms by (simp add: doResolveCscBypassReviewers_def)
next
  case (Some vs)
  then obtain ws where ws: "map_result (resolve_bypass_reviewer r) vs = Inr ws" "bs' = Some ws"
    using assms(2) by (auto simp: doResolveCscBypassReviewers_def split: sum.splits)
  then obtain u where "u \<in> set vs" "resolve_bypass_reviewer r u = Inr v" using map_result_members assms(3) by fastforce
  moreover from this have "reviewer_complete u" using assms(1) Some by (simp add: list_all_iff)
  ultimately show ?thesis using resolved_reviewer_has_id by blast
qed

lemma resolve_csc_no_panic:
  assumes "list_all reviewer_complete (WithDefault (cc_BypassOptions (cr_Spec c0)) [])" and "resolve_csc cl idr c0 = (idr2, Inr c)"
  shows "ToGithubCodeSecurityConfiguration (Some c) \<noteq> None"
proof -
  let ?bs = "cc_BypassOptions (cr_Spec c0)"
  have "\<exists>r. doResolveCscBypassReviewers r ?bs = Inr (cc_BypassOptions (cr_Spec c))"
    using assms(2) by (auto simp: resolve_csc_def ResolveCscBypassReviewers_def split: prod.splits sum.splits bool.splits)
  then show ?thesis using doResolve_ids [OF assms(1)] mapper_panics_iff by blast
qed

lemma csc_step_panics: "snd (csc_step api confs n c h) = CscPanic \<Longrightarrow> ToGithubCodeSecurityConfiguration (Some c) = None"
  by (auto simp: csc_step_def updateCsc_def createCsc_def set_default_for_def Let_def split: option.splits if_splits sum.splits)

lemma csc_loop_no_crash:
  assumes "\<forall>(ref, scope) \<in> set refs. \<forall>c. ca_Get api ref = Inr c \<longrightarrow> list_all reviewer_complete (WithDefault (cc_BypassOptions (cr_Spec c)) [])"
  shows "snd (csc_loop api cl confs refs idr seen h) \<noteq> Inl CscCrashed"
  using assms
proof (induction refs arbitrary: idr seen h)
  case (Cons r refs)
  obtain ref scope where r: "r = (ref, scope)" by fastforce
  show ?case
  proof (cases "ca_Get api ref")
    case (Inl e)
    then show ?thesis by (simp add: r csc_loop_step)
  next
    case get: (Inr c0)
    obtain idr2 res where rs: "resolve_csc cl idr c0 = (idr2, res)" by fastforce
    show ?thesis
    proof (cases res)
      case (Inl e)
      then show ?thesis using get rs by (simp add: r csc_loop_step)
    next
      case (Inr c)
      obtain h1 out where s: "csc_step api confs (cr_MetaName c0) c h = (h1, out)" by fastforce
      have "out \<noteq> CscPanic"
        using resolve_csc_no_panic [of c0 cl idr idr2 c] csc_step_panics [of api confs "cr_MetaName c0" c h] Cons.prems get rs Inr s by (auto simp: r)
      then show ?thesis using Cons.IH Cons.prems get rs Inr s by (simp add: r csc_loop_step split: csc_result.split)
    qed
  qed
qed simp

text \<open>A run does not panic when every reviewer of the referenced resources has an ID, or a name and one of the two types.\<close>

lemma csc_run_no_crash:
  assumes "\<forall>(ref, scope) \<in> set refs. \<forall>c. ca_Get api ref = Inr c \<longrightarrow> list_all reviewer_complete (WithDefault (cc_BypassOptions (cr_Spec c)) [])"
  shows "snd (reconcileCodeSecurityConfigurations od api cl idr plan refs h) \<noteq> CscCrashed"
  using csc_loop_no_crash [OF assms, of cl _ idr "[]"]
  by (auto simp: reconcileCodeSecurityConfigurations_def Let_def split: prod.splits option.splits sum.splits) (metis snd_conv)

section \<open>An example\<close>

text \<open>A resource \<^verbatim>\<open>base\<close> whose spec calls the configuration \<^verbatim>\<open>Base\<close>, as it is called on GitHub already, where nothing is a default.\<close>

definition ex_csc_spec :: csc_spec where
  "ex_csc_spec = \<lparr>cc_Name = ''Base'', cc_Description = ''d'',
     cc_settings = \<lparr>cs_AdvancedSecurity = Some ''enabled'', cs_DependencyGraph = None, cs_DependencyGraphAutosubmitAction = None, cs_DependabotAlerts = None,
       cs_DependabotSecurityUpdates = None, cs_CodeScanningDefaultSetup = None, cs_CodeScanningDelegatedAlertDismissal = None, cs_CodeSecurity = None,
       cs_SecretScanning = None, cs_SecretScanningPushProtection = None, cs_SecretScanningValidityChecks = None, cs_SecretScanningNonProviderPatterns = None,
       cs_SecretScanningGenericSecrets = None, cs_SecretScanningDelegatedAlertDismissal = None, cs_SecretProtection = None,
       cs_PrivateVulnerabilityReporting = None, cs_SecretScanningDelegatedBypass = None, cs_Enforcement = None\<rparr>,
     cc_AutosubmitOptions = None, cc_SetupOptions = None, cc_CodeScanningOptions = None, cc_BypassOptions = None, cc_DefaultForNewRepos = None\<rparr>"

definition ex_csc :: gh_csc where
  "ex_csc = \<lparr>gc_ID = None, gc_TargetType = None, gc_Name = ''Base'', gc_Description = ''d'', gc_settings = cc_settings ex_csc_spec,
     gc_AutosubmitOptions = None, gc_SetupOptions = None, gc_CodeScanningOptions = None, gc_BypassOptions = None\<rparr>"

definition ex_csc_api :: "string \<Rightarrow> csc_api" where
  "ex_csc_api meta = \<lparr>ca_Get = \<lambda>ref. Inr \<lparr>cr_MetaName = meta, cr_Spec = ex_csc_spec\<rparr>, ca_GetDefaults = \<lambda>h. Inr [],
     ca_GetConfigurations = \<lambda>h. Inr [ex_csc\<lparr>gc_ID := Some 7, gc_TargetType := Some ''organization''\<rparr>],
     ca_Update = \<lambda>h i q. Inr (q\<lparr>gc_ID := Some i\<rparr>), ca_Create = \<lambda>h q. Inr (q\<lparr>gc_ID := Some 8\<rparr>), ca_SetDefault = \<lambda>h i d. None, ca_Delete = \<lambda>h i. None,
     ca_Attach = \<lambda>h i s ids. None, ca_Attachments = \<lambda>h i. Inr (Some []),
     ca_GetOrgRepositories = \<lambda>h. Inr [\<lparr>sr_ID = Some 1, sr_Name = Some ''r'', sr_Visibility = ''public''\<rparr>],
     ca_List = \<lambda>n. Inr [], ca_GetRepository = \<lambda>h n. Inr None, ca_events = \<lambda>h. []\<rparr>"

definition ex_csc_client :: id_client where
  "ex_csc_client = \<lparr>GetGitHubAppsInstallations = \<lambda>n. Inr [], GetAllTeamsForOrg = \<lambda>n. Inr [], GetAllOrgRoles = \<lambda>n. Inr [], GetRepository = \<lambda>n r. Inr None\<rparr>"

definition ex_csc_resolver :: id_resolver where
  "ex_csc_resolver = \<lparr>ir_orgName = ''org'', appsBySlug = [], teamsBySlug = [], rolesByName = [], ir_calls = 0\<rparr>"

definition ex_csc_orders :: csc_orders where
  "ex_csc_orders = \<lparr>co_defaults = \<lambda>xs. xs, co_configs = \<lambda>xs. xs, co_seen = \<lambda>xs. xs, co_ids = \<lambda>xs. xs\<rparr>"

definition ex_csc_run :: "string \<Rightarrow> csc_call list \<times> csc_outcome" where
  "ex_csc_run meta = reconcileCodeSecurityConfigurations ex_csc_orders (ex_csc_api meta) ex_csc_client ex_csc_resolver ''enterprise'' [(''base'', Some ''all'')] []"

lemmas ex_csc_defs = ex_csc_run_def ex_csc_orders_def ex_csc_resolver_def ex_csc_client_def ex_csc_api_def ex_csc_def ex_csc_spec_def

text \<open>The existing configuration is looked up under the name of the resource. Under another name it is not found: a second one of the same name is created, and then the existing one
  is deleted, with every repository it is attached to.\<close>

lemma renamed_configuration_replaced:
  "ex_csc_run ''base'' = ([CreateCsc ex_csc, DeleteCsc 7, QueryAttachments 8, AttachCsc 8 ''all'' None], CscDone None)"
  "ex_csc_run ''Base'' = ([QueryAttachments 7, AttachCsc 7 ''all'' None], CscDone None)"
  by code_simp+

theorem csc_calls_ordered_witness:
  "csc_orders_ok ex_csc_orders \<and> (\<exists>ds us xs as. fst (ex_csc_run ''base'') = ds @ us @ xs @ as \<and> us @ xs @ as \<noteq> [] \<and>
     list_all is_unset ds \<and> list_all is_config us \<and> list_all is_attach as)"
proof -
  have ok: "csc_orders_ok ex_csc_orders" by (simp add: csc_orders_ok_def ex_csc_orders_def range_order_def)
  have "fst (ex_csc_run ''base'') = [CreateCsc ex_csc, DeleteCsc 7, QueryAttachments 8, AttachCsc 8 ''all'' None]" by (simp add: renamed_configuration_replaced)
  moreover have "\<exists>ds us xs as. fst (ex_csc_run ''base'') = [] @ ds @ us @ xs @ as \<and> list_all is_unset ds \<and> list_all is_config us \<and> list_all is_attach as"
    unfolding ex_csc_run_def using csc_calls_ordered [OF ok] by blast
  then obtain ds us xs as where r: "fst (ex_csc_run ''base'') = ds @ us @ xs @ as" "list_all is_unset ds" "list_all is_config us" "list_all is_attach as" by auto
  ultimately have "us @ xs @ as \<noteq> []" by (cases ds) auto
  then show ?thesis using ok r by blast
qed

end
