(* ===== verification/TeamSlug.thy ===== *)
theory TeamSlug
  imports Prelude
begin

text \<open>
  \<^verbatim>\<open>TeamNameToSlug\<close> of \<^verbatim>\<open>mapper/github_team_mapper.go\<close>: the slug GitHub gives to a team name. Names are lists of
  runes (code points); the tables of the Go library and of the package for normal forms are arguments. The loop that removes doubled
  hyphens repeats a replacement until nothing changes; it is shown to end and to compute what one pass over the text computes.
\<close>

type_synonym rune = nat

record unicode_tables =
  ut_ToLower :: "rune list \<Rightarrow> rune list"
  ut_IsLetter :: "rune \<Rightarrow> bool"
  ut_IsDigit :: "rune \<Rightarrow> bool"
  ut_NFD :: "rune \<Rightarrow> rune list"
  ut_IsMn :: "rune \<Rightarrow> bool"

definition slug_char :: "char \<Rightarrow> bool" where
  "slug_char c \<longleftrightarrow> (97 \<le> (of_char c :: nat) \<and> (of_char c :: nat) \<le> 122) \<or> (48 \<le> (of_char c :: nat) \<and> (of_char c :: nat) \<le> 57) \<or> c = CHR ''-''"

text \<open>What the loop over the runes writes for one rune.\<close>

definition keep_rune :: "unicode_tables \<Rightarrow> rune \<Rightarrow> string" where
  "keep_rune u nr =
     (if ut_IsMn u nr then []
      else if (97 \<le> nr \<and> nr \<le> 122) \<or> (48 \<le> nr \<and> nr \<le> 57) \<or> nr = 45 then [char_of nr] else [])"

definition slug_rune :: "unicode_tables \<Rightarrow> rune \<Rightarrow> string" where
  "slug_rune u r =
     (if ut_IsLetter u r \<or> ut_IsDigit u r \<or> r = 45 then concat (map (keep_rune u) (ut_NFD u r)) else [])"

abbreviation dash :: string where
  "dash \<equiv> [CHR ''-'']"

abbreviation dashes :: string where
  "dashes \<equiv> [CHR ''-'', CHR ''-'']"

lemma replace_dashes:
  "replace_from [] dashes dash = []"
  "replace_from [c] dashes dash = [c]"
  "replace_from (c # d # s) dashes dash =
     (if c = CHR ''-'' \<and> d = CHR ''-'' then CHR ''-'' # replace_from s dashes dash else c # replace_from (d # s) dashes dash)"
  by (subst replace_from.simps, simp add: replace_from.simps)+

lemma replace_dashes_shorter:
  "length (replace_from s dashes dash) \<le> length s \<and>
   (strings_Contains s dashes \<longrightarrow> length (replace_from s dashes dash) < length s)"
proof (induction "length s" arbitrary: s rule: less_induct)
  case less
  consider "s = []" | c where "s = [c]" | c d t where "s = c # d # t" by (metis list.exhaust)
  then show ?case
  proof cases
    case (3 c d t)
    have "length (replace_from t dashes dash) \<le> length t" using less 3 by simp
    moreover have "length (replace_from (d # t) dashes dash) \<le> length (d # t) \<and>
        (strings_Contains (d # t) dashes \<longrightarrow> length (replace_from (d # t) dashes dash) < length (d # t))" by (rule less) (simp add: 3)
    ultimately show ?thesis using 3 by (auto simp: replace_dashes)
  qed (simp_all add: replace_dashes)
qed

function dash_loop :: "string \<Rightarrow> string" where
  "dash_loop s = (if strings_Contains s dashes then dash_loop (ReplaceAll s dashes dash) else s)"
  by pat_completeness auto
termination
  by (relation "measure length") (auto simp: ReplaceAll_def replace_dashes_shorter)

declare dash_loop.simps [simp del]

definition strings_Trim :: "char \<Rightarrow> string \<Rightarrow> string" where
  "strings_Trim c s = rev (dropWhile (\<lambda>x. x = c) (rev (dropWhile (\<lambda>x. x = c) s)))"

definition TeamNameToSlug :: "unicode_tables \<Rightarrow> rune list \<Rightarrow> string" where
  "TeamNameToSlug u name =
     (let slug = map (\<lambda>r. if r = 32 then 45 else r) (ut_ToLower u name) in
      strings_Trim (CHR ''-'') (dash_loop (concat (map (slug_rune u) slug))))"

section \<open>The loop is one pass\<close>

fun collapse :: "string \<Rightarrow> string" where
  "collapse (c # d # s) = (if c = CHR ''-'' \<and> d = CHR ''-'' then collapse (d # s) else c # collapse (d # s))"
| "collapse s = s"

lemma collapse_dash_Cons: "collapse (CHR ''-'' # CHR ''-'' # s) = collapse (CHR ''-'' # s)"
  by simp

lemma collapse_Cons_cong: "collapse s = collapse t \<Longrightarrow> collapse (c # s) = collapse (c # t)"
proof -
  have "(s = [] \<longleftrightarrow> collapse s = []) \<and> (s \<noteq> [] \<longrightarrow> collapse (c # s) = (if c = CHR ''-'' \<and> hd (collapse s) = CHR ''-'' then collapse s else c # collapse s))" for s
  proof -
    have "collapse s \<noteq> [] \<and> hd (collapse s) = hd s" if "s \<noteq> []" for s
      using that by (induction s rule: collapse.induct) auto
    then show ?thesis by (cases s) auto
  qed
  then show "collapse s = collapse t \<Longrightarrow> collapse (c # s) = collapse (c # t)"
    by (metis collapse.simps(2))
qed

lemma collapse_replace: "collapse (replace_from s dashes dash) = collapse s"
proof (induction "length s" arbitrary: s rule: less_induct)
  case less
  consider "s = []" | c where "s = [c]" | c d t where "s = c # d # t" by (metis list.exhaust)
  then show ?case
  proof cases
    case (3 c d t)
    have "collapse (CHR ''-'' # replace_from t dashes dash) = collapse (CHR ''-'' # t)"
      using less [of t] 3 by (intro collapse_Cons_cong) simp
    moreover have "collapse (c # replace_from (d # t) dashes dash) = collapse (c # d # t)"
      using less [of "d # t"] 3 by (intro collapse_Cons_cong) simp
    ultimately show ?thesis using 3 by (simp add: replace_dashes)
  qed (simp_all add: replace_dashes)
qed

lemma collapse_fixed: "\<not> strings_Contains s dashes \<Longrightarrow> collapse s = s"
  by (induction s rule: collapse.induct) auto

lemma collapse_normal: "\<not> strings_Contains (collapse s) dashes"
proof (induction s rule: collapse.induct)
  case (1 c d s)
  have "collapse (d # s) \<noteq> [] \<and> hd (collapse (d # s)) = d" for d s
    by (induction "d # s" arbitrary: d s rule: collapse.induct) auto
  then obtain r where r: "collapse (d # s) = d # r" by (metis list.collapse)
  then show ?case using 1 by (cases "c = CHR ''-'' \<and> d = CHR ''-''") auto
qed auto

lemma dash_loop_one_pass: "dash_loop s = collapse s"
proof (induction s rule: dash_loop.induct)
  case (1 s)
  show ?case
  proof (cases "strings_Contains s dashes")
    case True
    then show ?thesis using 1 by (subst dash_loop.simps) (simp add: ReplaceAll_def collapse_replace)
  next
    case False
    then show ?thesis by (subst dash_loop.simps) (simp add: collapse_fixed)
  qed
qed

section \<open>The shape of a slug\<close>

text \<open>What the tables say of the characters a slug may have.\<close>

definition ascii_tables :: "unicode_tables \<Rightarrow> bool" where
  "ascii_tables u \<longleftrightarrow>
     (\<forall>s. list_all slug_char s \<longrightarrow> ut_ToLower u (map of_char s) = map of_char s) \<and>
     (\<forall>c. slug_char c \<longrightarrow> (ut_IsLetter u (of_char c) \<or> ut_IsDigit u (of_char c) \<or> c = CHR ''-'') \<and>
        ut_NFD u (of_char c) = [of_char c] \<and> \<not> ut_IsMn u (of_char c))"

lemma dash_code: "c = CHR ''-'' \<longleftrightarrow> (of_char c :: nat) = 45"
proof -
  have "c = CHR ''-'' \<longleftrightarrow> (of_char c :: nat) = of_char (CHR ''-'')" by (simp only: of_char_eq_iff)
  then show ?thesis by simp
qed

lemma slug_char_code:
  "slug_char c \<longleftrightarrow> (97 \<le> (of_char c :: nat) \<and> (of_char c :: nat) \<le> 122) \<or> (48 \<le> (of_char c :: nat) \<and> (of_char c :: nat) \<le> 57) \<or> (of_char c :: nat) = 45"
  by (simp add: slug_char_def dash_code)

lemma keep_rune_chars: "list_all slug_char (keep_rune u nr)"
  by (auto simp: keep_rune_def slug_char_code of_char_of)

lemma slug_rune_chars: "list_all slug_char (slug_rune u r)"
  using keep_rune_chars by (fastforce simp: slug_rune_def list_all_iff)

lemma set_collapse: "set (collapse s) \<subseteq> set s"
  by (induction s rule: collapse.induct) auto

lemma contains_append: "strings_Contains (a @ b) p \<or> \<not> strings_Contains b p"
  by (induction a) auto

lemma contains_prefix: "strings_Contains a p \<Longrightarrow> strings_Contains (a @ b) p"
proof (induction a)
  case Nil
  then show ?case by (cases b) auto
next
  case (Cons c a)
  then show ?case by (auto simp: HasPrefix_iff) (metis append_Cons append_assoc)
qed

lemma trim_split:
  obtains a b where "s = a @ strings_Trim c s @ b" "set a \<subseteq> {c}" "set b \<subseteq> {c}"
proof
  let ?t = "dropWhile (\<lambda>x. x = c) s"
  have "?t = rev (dropWhile (\<lambda>x. x = c) (rev ?t)) @ rev (takeWhile (\<lambda>x. x = c) (rev ?t))"
    by (metis rev_append rev_rev_ident takeWhile_dropWhile_id)
  then show "s = takeWhile (\<lambda>x. x = c) s @ strings_Trim c s @ rev (takeWhile (\<lambda>x. x = c) (rev ?t))"
    unfolding strings_Trim_def by (metis takeWhile_dropWhile_id)
  show "set (takeWhile (\<lambda>x. x = c) s) \<subseteq> {c}" "set (rev (takeWhile (\<lambda>x. x = c) (rev ?t))) \<subseteq> {c}"
    by (auto dest: set_takeWhileD)
qed

lemma trim_ends:
  assumes "strings_Trim c s \<noteq> []"
  shows "hd (strings_Trim c s) \<noteq> c" and "last (strings_Trim c s) \<noteq> c"
proof -
  let ?t = "dropWhile (\<lambda>x. x = c) s"
  let ?r = "dropWhile (\<lambda>x. x = c) (rev ?t)"
  have r: "?r \<noteq> []" using assms by (simp add: strings_Trim_def)
  then show "last (strings_Trim c s) \<noteq> c" unfolding strings_Trim_def by (metis (mono_tags) hd_dropWhile last_rev)
  have "?t \<noteq> []" using r by (metis dropWhile.simps(1) rev.simps(1))
  then have "hd ?t \<noteq> c" by (metis (mono_tags) hd_dropWhile)
  moreover have "last ?r = hd ?t"
    using r by (metis last_appendR last_rev takeWhile_dropWhile_id)
  ultimately show "hd (strings_Trim c s) \<noteq> c" by (simp add: strings_Trim_def hd_rev)
qed

lemma dropWhile_hd: "s \<noteq> [] \<longrightarrow> hd s \<noteq> c \<Longrightarrow> dropWhile (\<lambda>x. x = c) s = s"
  by (cases s) simp_all

lemma trim_fixed: "s \<noteq> [] \<longrightarrow> hd s \<noteq> c \<and> last s \<noteq> c \<Longrightarrow> strings_Trim c s = s"
  using dropWhile_hd [of s c] dropWhile_hd [of "rev s" c] by (simp add: strings_Trim_def hd_rev)

lemma slug_runes_of_slug:
  assumes "ascii_tables u" and "list_all slug_char s"
  shows "concat (map (slug_rune u) (map (\<lambda>r. if r = 32 then 45 else r) (map of_char s))) = s"
  using assms(2)
proof (induction s)
  case (Cons c s)
  have c: "slug_char c" using Cons.prems by simp
  then have "(of_char c :: nat) \<noteq> 32" by (auto simp: slug_char_code)
  then have "slug_rune u (if (of_char c :: nat) = 32 then 45 else of_char c) = [c]"
    using assms(1) c dash_code [of c] slug_char_code [of c] by (auto simp: slug_rune_def keep_rune_def ascii_tables_def)
  then show ?case using Cons by simp
qed simp

text \<open>A slug has only lower-case letters, digits and hyphens, no two hyphens in a row and none at its ends, and the slug of a slug is itself.\<close>

lemma team_slug_normal_form:
  assumes "ascii_tables u" and "s = TeamNameToSlug u name"
  shows "list_all slug_char s \<and> \<not> strings_Contains s dashes \<and> (s \<noteq> [] \<longrightarrow> hd s \<noteq> CHR ''-'' \<and> last s \<noteq> CHR ''-'') \<and>
         TeamNameToSlug u (map of_char s) = s"
proof -
  let ?w = "concat (map (slug_rune u) (map (\<lambda>r. if r = 32 then 45 else r) (ut_ToLower u name)))"
  have s: "s = strings_Trim (CHR ''-'') (collapse ?w)" using assms(2) by (simp add: TeamNameToSlug_def Let_def dash_loop_one_pass)
  obtain a b where split: "collapse ?w = a @ s @ b" using trim_split [of "collapse ?w" "CHR ''-''"] s by metis
  have "list_all slug_char ?w" using slug_rune_chars by (fastforce simp: list_all_iff)
  then have chars: "list_all slug_char s" using set_collapse [of ?w] unfolding split list_all_iff by auto
  have nodash: "\<not> strings_Contains s dashes"
    using collapse_normal [of ?w] contains_append [of a "s @ b" dashes] contains_prefix [of s dashes b] unfolding split by blast
  have ends: "s \<noteq> [] \<longrightarrow> hd s \<noteq> CHR ''-'' \<and> last s \<noteq> CHR ''-''" using trim_ends [of "CHR ''-''" "collapse ?w"] s by simp
  have "ut_ToLower u (map of_char s) = map of_char s" using assms(1) chars by (simp add: ascii_tables_def)
  then have "TeamNameToSlug u (map of_char s) = strings_Trim (CHR ''-'') (dash_loop s)"
    using slug_runes_of_slug [OF assms(1) chars] by (simp add: TeamNameToSlug_def Let_def)
  also have "\<dots> = s" using collapse_fixed [OF nodash] trim_fixed [OF ends] by (simp add: dash_loop_one_pass)
  finally show ?thesis using chars nodash ends by blast
qed

text \<open>Tables for Latin letters, and the example of the comment in the source.\<close>

definition latin_tables :: unicode_tables where
  "latin_tables =
     \<lparr>ut_ToLower = map (\<lambda>r. if 65 \<le> r \<and> r \<le> 90 then r + 32 else r), ut_IsLetter = (\<lambda>r. (97 \<le> r \<and> r \<le> 122) \<or> 192 \<le> r),
      ut_IsDigit = (\<lambda>r. 48 \<le> r \<and> r \<le> 57), ut_NFD = (\<lambda>r. if r = 228 then [97, 776] else [r]), ut_IsMn = (\<lambda>r. r = 776)\<rparr>"

lemma latin_tables_ascii: "ascii_tables latin_tables"
proof -
  have "map (\<lambda>r. if 65 \<le> r \<and> r \<le> 90 then r + 32 else r) (map of_char s) = (map of_char s :: nat list)" if "list_all slug_char s" for s
    using that by (induction s) (auto simp: slug_char_code)
  then show ?thesis
    by (auto simp: ascii_tables_def latin_tables_def slug_char_code dash_code)
qed

lemma team_slug_normal_form_witness:
  "TeamNameToSlug latin_tables [77, 121, 32, 84, 69, 97, 109, 32, 78, 228, 109, 101] = ''my-team-name'' \<and>
   TeamNameToSlug latin_tables (map of_char ''my-team-name'') = ''my-team-name''"
proof -
  have "TeamNameToSlug latin_tables [77, 121, 32, 84, 69, 97, 109, 32, 78, 228, 109, 101] = ''my-team-name''"
    by (simp add: TeamNameToSlug_def latin_tables_def slug_rune_def keep_rune_def dash_loop_one_pass strings_Trim_def Let_def char_of_def bit_Suc_0_iff)
  then show ?thesis using team_slug_normal_form [OF latin_tables_ascii refl] by metis
qed

end
