(* ===== verification/Spec2Isabelle.thy ===== *)
theory Spec2Isabelle
  imports Watches StatusApply Transport ClientWrapper RepositoryRun TeamRun ActionsConverge CodeSecurity TeamSlug
begin

text \<open>
  A verification development for git-hubby, a Kubernetes operator that keeps GitHub organizations,
  repositories and teams in the state that custom resources describe. Paths below are relative to \<^verbatim>\<open>src/internal\<close> if
  not said otherwise.

  \<^bold>\<open>The program.\<close> A controller (\<^verbatim>\<open>controller\<close>) is called for a resource. A factory (\<^verbatim>\<open>reconciler/reconcilerfactory\<close>) reads it, may
  delay it after a restart (\<^verbatim>\<open>reconciler/spreading\<close>), and gets a GitHub client for its organization (\<^verbatim>\<open>ghclient\<close>), which is refused
  while the organization is out of API budget (\<^verbatim>\<open>ratelimit\<close>). An executor (\<^verbatim>\<open>reconciler/executor.go\<close>) runs the reconciliations of the
  resource in groups, the members of a group in parallel, writes conditions and manages the finalizer. The
  reconciliations (\<^verbatim>\<open>reconciler/orgrec\<close>, \<^verbatim>\<open>reporec\<close>, \<^verbatim>\<open>teamrec\<close> and the shared \<^verbatim>\<open>common\<close>) read what GitHub has, compare it with the resource
  (\<^verbatim>\<open>mapper\<close>) and change it. The error that comes back decides when the controller is called again.

  \<^bold>\<open>Conventions.\<close> A Go pointer is an option, a map an association list with unique keys, an error a value of
  \<^typ>\<open>go_error\<close> and a call that may fail returns a sum. Ranging over a map takes the order as an argument (any permutation, \<^const>\<open>range_order\<close>).
  Kubernetes, GitHub, clocks, random numbers, hashes, regular expressions, templates and Unicode tables are arguments. GitHub answers
  a call as a function of the calls made before, so theorems of the form \<open>whatever GitHub answers\<close> quantify over all of its behaviours; theorems
  about the state that is reached use an instance that stores what it is told. Logging, metrics and contexts are left out.
  Integers are unbounded except for durations, where the width of 64 bits matters and is written out.

  \<^bold>\<open>The theories.\<close>
  \<^item> \<^verbatim>\<open>Prelude\<close>: strings, numbers, Go maps, the last write wins as a locale.
  \<^item> \<^verbatim>\<open>Errors\<close> (\<^verbatim>\<open>reconciler/user_action.go\<close>, \<^verbatim>\<open>stop.go\<close>, \<^verbatim>\<open>reporec/error.go\<close>): the error tree, its classification and messages. The
    classification is shown to be a property of the leaves, and to survive the wrapping for readable messages.
  \<^item> \<^verbatim>\<open>Executor\<close> (\<^verbatim>\<open>reconciler/executor.go\<close>): groups of goroutines under an arbitrary schedule, conditions, finalizers. Shown: which
    reconciliations a run reports on, what a nil return guarantees, that the finalizer protects the clean-up, and that under a fair
    schedule a run returns.
  \<^item> \<^verbatim>\<open>Requeue\<close> (\<^verbatim>\<open>controller/requeue_policy.go\<close>, the three controllers, \<^verbatim>\<open>config\<close>, \<^verbatim>\<open>spreading\<close>): delays per kind of error, jitter without overflow, and that
    every live resource is looked at again.
  \<^item> \<^verbatim>\<open>RateLimit\<close> (\<^verbatim>\<open>ratelimit\<close>, \<^verbatim>\<open>ghclient/ratelimit_tracker.go\<close>): the registry of observed budgets refines a store of last observations; when
    an organization is stalled.
  \<^item> \<^verbatim>\<open>ClientFactory\<close> (\<^verbatim>\<open>ghclient/factory.go\<close>): the client cache and the gate in front of it.
  \<^item> \<^verbatim>\<open>Transport\<close> (\<^verbatim>\<open>ghclient/transport.go\<close>, \<^verbatim>\<open>retry.go\<close>, \<^verbatim>\<open>caching_client.go\<close>): concurrent requests that share a token, and concurrent calls that share a
    cached response, as step relations with invariants over all reachable states.
  \<^item> \<^verbatim>\<open>Dedupe\<close> (\<^verbatim>\<open>reconciler/common/merge\<close>): candidates from several sources, conflicts.
  \<^item> \<^verbatim>\<open>RulesetTypes\<close>, \<^verbatim>\<open>ExtendsMerge\<close>, \<^verbatim>\<open>Resolve\<close> (\<^verbatim>\<open>api/v1alpha1/rulesetpreset_types.go\<close>, \<^verbatim>\<open>reconciler/common/rulesets\<close>): ruleset specs, inheritance, and which
    rulesets a resource asks for. A chain of parents resolves exactly if it is acyclic, complete and within the length limit.
  \<^item> \<^verbatim>\<open>PresetIndex\<close> (\<^verbatim>\<open>controller/rulesetpreset_index.go\<close>): which resources a change of a preset wakes up. The walk down the extends relation is compared with the walk up that
    resolves a ruleset: whatever the change makes of the rulesets of a resource, the resource is woken up.
  \<^item> \<^verbatim>\<open>RulesetMapper\<close> (\<^verbatim>\<open>mapper/github_ruleset_mapper.go\<close>): mapping to GitHub and comparison, with a common view that both sides are
    reduced to.
  \<^item> \<^verbatim>\<open>IdResolver\<close> (\<^verbatim>\<open>reconciler/common/idresolver\<close>): names to IDs with one refresh of the lookup maps.
  \<^item> \<^verbatim>\<open>RulesetSync\<close> (\<^verbatim>\<open>rulesets/sync.go\<close>, \<^verbatim>\<open>orgrec/rec_rulesets.go\<close>, \<^verbatim>\<open>reporec/rec_rulesets.go\<close>): creation, update and deletion; its client locales are the
    resolver of names and the options of a caller, interpreted for organizations and repositories.
  \<^item> \<^verbatim>\<open>ClientWrapper\<close> (\<^verbatim>\<open>ghclient/wrapper.go\<close>): the translation of errors keeps their class, the lists that are read page by page are complete (locale \<open>page_loop\<close>, interpreted for both
    loops), and the filter of the list of rulesets keeps the rulesets of an enterprise out of the reconciler's reach.
  \<^item> \<^verbatim>\<open>HashSync\<close>, \<^verbatim>\<open>RepoItems\<close>, \<^verbatim>\<open>Webhooks\<close> (\<^verbatim>\<open>reporec/rec_deploykeys.go\<close>, \<^verbatim>\<open>rec_autolinks.go\<close>, \<^verbatim>\<open>rec_webhooks.go\<close> with their mappers): three reconcilers with a common
    pattern, proved to converge in the locale \<open>hash_sync\<close> and interpreted for each of them.
  \<^item> \<^verbatim>\<open>RepoSettings\<close> (\<^verbatim>\<open>reporec/rec_repo.go\<close>, \<^verbatim>\<open>rec_topics.go\<close>, the deletion in \<^verbatim>\<open>reconciler.go\<close>, \<^verbatim>\<open>mapper/github_repo_mapper.go\<close>): when a repository is created and edited, and
    when an update settles it.
  \<^item> \<^verbatim>\<open>ResourceRuns\<close> (\<^verbatim>\<open>RequiredReconciliations\<close> of \<^verbatim>\<open>reporec/reconciler.go\<close> and \<^verbatim>\<open>orgrec/reconciler.go\<close>): the executor with the reconcilers of a repository; what a first function that fails or
    stops keeps from happening, as the locale \<open>first_alone\<close>, and archived repositories.
  \<^item> \<^verbatim>\<open>ParallelRuns\<close> (\<^verbatim>\<open>reconciler/executor.go\<close> again): a run of functions that keep to parts of the world of their own (locale \<open>world_parts\<close>) is equivalent to a sequential run, whatever
    the interleaving.
  \<^item> \<^verbatim>\<open>RepositoryRun\<close>: the executor and the reconcilers of a repository together. The parts are interpreted for the repository; what a run reports as synced is synced on GitHub.
  \<^item> \<^verbatim>\<open>TeamRun\<close> (\<^verbatim>\<open>RequiredReconciliations\<close> of \<^verbatim>\<open>teamrec/reconciler.go\<close>): the same for a team, whose second group works with the slug that the first one finds.
  \<^item> \<^verbatim>\<open>CustomProperties\<close> (\<^verbatim>\<open>orgrec/rec_custom_properties.go\<close>, \<^verbatim>\<open>reporec/rec_custom_properties.go\<close>, \<^verbatim>\<open>mapper/github_custom_property_mapper.go\<close>): definitions and values converge.
  \<^item> \<^verbatim>\<open>Admission\<close> (\<^verbatim>\<open>webhook/v1alpha1\<close>): which resources are admitted, and what the reconcilers of custom properties and webhooks may rely on then.
  \<^item> \<^verbatim>\<open>ActionsSettings\<close>, \<^verbatim>\<open>ActionsConverge\<close> (\<^verbatim>\<open>orgrec/rec_actions_settings.go\<close>, \<^verbatim>\<open>reporec/rec_actions_settings.go\<close>, \<^verbatim>\<open>mapper/github_actions_settings.go\<close>): the settings of GitHub Actions and
    the runner groups. Every setting is read, compared and written in the same way (locale \<open>stored_setting\<close>); two runs settle an organization.
  \<^item> \<^verbatim>\<open>OrgSettings\<close> (\<^verbatim>\<open>orgrec/rec_org.go\<close>, the deletion in \<^verbatim>\<open>orgrec/reconciler.go\<close>, \<^verbatim>\<open>mapper/github_org_mapper.go\<close>): when an update settles an organization.
  \<^item> \<^verbatim>\<open>CodeSecurity\<close> (\<^verbatim>\<open>orgrec/rec_code_security_configurations.go\<close>, \<^verbatim>\<open>mapper/github_code_security_configuration_mapper.go\<close>): the order of the calls, what is deleted, the wait
    for attachments, and that the mapper does not panic on what the resolver returns.
  \<^item> \<^verbatim>\<open>OrgTypes\<close>, \<^verbatim>\<open>Teams\<close>, \<^verbatim>\<open>TeamSlug\<close> (\<^verbatim>\<open>reconciler/teamrec\<close>, \<^verbatim>\<open>mapper/github_team_mapper.go\<close>): a team in several organizations.
  \<^item> \<^verbatim>\<open>ReconcilerFactory\<close> (\<^verbatim>\<open>reconciler/reconcilerfactory/factory.go\<close>): from a request to an executor. The generations that are tracked cover everything a repository uses, so
    a run that is delayed after a restart misses no change.
  \<^item> \<^verbatim>\<open>StatusApply\<close> (\<^verbatim>\<open>BuildStatusApplyConfig\<close> and \<^verbatim>\<open>BuildMetadataApplyConfig\<close> of the three reconcilers, \<^verbatim>\<open>conditions/applyconfig.go\<close>, the builders of \<^verbatim>\<open>api/v1alpha1/applyconfiguration\<close>
    they call): what a run leaves in the cluster and what the next start of the operator reads. The three kinds share the locale \<open>applied_status\<close>; the status of a successful run makes an unchanged
    resource wait for its turn after a restart. That the server stores the last accepted status is a hypothesis (\<open>stores_status\<close>), as is the builder of conditions of the Kubernetes library.
  \<^item> \<^verbatim>\<open>Watches\<close> (\<^verbatim>\<open>SetupWithManager\<close> of the controllers): the fields that are indexed and the requests that a changed object causes. What the factory tracks for a repository is
    watched; the clean-up of an organization lists teams by a field that has no index, and fails.
  \<^item> This theory: the controller, the factory and the rate limit gate together.

  \<^bold>\<open>Bounds and fuel.\<close> Nothing runs on fuel: loops over lists are structural, the loops over pages are partial functions that are proved to return, the extends loop has the code's own limit, the loop that cleans a slug
  has a measure, and the executor's rounds are given by a schedule, with a theorem that a fair schedule is long enough.

  \<^bold>\<open>Not modelled.\<close> The methods of \<^verbatim>\<open>ghclient/wrapper.go\<close> that pass on one call each are one definition; the event filters and the options of the work queue are
  configuration of a library. Generated code (deep copies, the apply configurations of specs, which are never built), logging and the start of the process have no logic of their own. The
  reconcilers of an organization share one name resolver, which they may refresh at the same time, so its run is not reduced to a sequential one.
\<close>

section \<open>The controller, the factory and the rate limit gate\<close>



end
